(* ===== verification/Ipsec_Prelude.thy ===== *)
theory Ipsec_Prelude
  imports Main "HOL-Library.Word" "HOL-Library.Monad_Syntax" "HOL-Library.Sublist"
begin

unbundle bit_operations_syntax

text \<open>
  Shared vocabulary of the development: the machine types of the C sources, memory accesses that
  say when they leave their object, unsigned arithmetic on 32-bit counters, C strings, the two byte
  orders, and the generic list and word lemmas the components rely on.

  Conventions used everywhere:
  \<^item> a byte is an \<open>8 word\<close> and an object in memory is a \<open>u8 list\<close>;
  \<^item> addresses, SPIs, checksums, sequence numbers are words of their C width;
  \<^item> lengths and offsets are \<open>nat\<close>; where the code computes with them in \<open>uint32_t\<close> the
    wrap-around is written out (\<open>add32\<close>, \<open>sub32\<close>);
  \<^item> \<open>None\<close> in a result of type \<open>'a option\<close> is undefined behaviour of the C program: a read or
    write outside its object. Proving that an operation never returns \<open>None\<close> is memory safety;
  \<^item> a possibly NULL pointer argument is an \<open>option\<close>.
\<close>

section \<open>Machine types\<close>

type_synonym u8 = "8 word"
type_synonym u16 = "16 word"
type_synonym u32 = "32 word"
type_synonym u64 = "64 word"
type_synonym bytes = "u8 list"

named_theorems mem_simps \<open>in-range memory accesses\<close>
named_theorems wrap_simps \<open>32-bit counters that do not wrap\<close>

abbreviation UINT8_MAX :: nat where "UINT8_MAX \<equiv> 255"
abbreviation UINT16_MAX :: nat where "UINT16_MAX \<equiv> 65535"
abbreviation UINT32_MAX :: nat where "UINT32_MAX \<equiv> 4294967295"
abbreviation UINT64_MAX :: nat where "UINT64_MAX \<equiv> 18446744073709551615"

section \<open>Reads and writes of objects\<close>

definition rd :: "bytes \<Rightarrow> nat \<Rightarrow> u8 option" where
  "rd xs i = (if i < length xs then Some (xs ! i) else None)"

definition rd_bytes :: "bytes \<Rightarrow> nat \<Rightarrow> nat \<Rightarrow> bytes option" where
  "rd_bytes xs off n = (if off + n \<le> length xs then Some (take n (drop off xs)) else None)"

definition write_at :: "bytes \<Rightarrow> nat \<Rightarrow> bytes \<Rightarrow> bytes option" where
  "write_at d off xs =
     (if off + length xs \<le> length d
      then Some (take off d @ xs @ drop (off + length xs) d) else None)"

lemma rd_in [mem_simps]: "i < length xs \<Longrightarrow> rd xs i = Some (xs ! i)"
  by (simp add: rd_def)

lemma rd_out [mem_simps]: "length xs \<le> i \<Longrightarrow> rd xs i = None"
  by (simp add: rd_def)

lemma rd_bytes_in [mem_simps]: "off + n \<le> length xs \<Longrightarrow> rd_bytes xs off n = Some (take n (drop off xs))"
  by (simp add: rd_bytes_def)

lemma rd_bytes_length: "rd_bytes xs off n = Some ys \<Longrightarrow> length ys = n"
  by (auto simp: rd_bytes_def split: if_splits)

lemma write_at_in [mem_simps]:
  "off + length xs \<le> length d \<Longrightarrow>
   write_at d off xs = Some (take off d @ xs @ drop (off + length xs) d)"
  by (simp add: write_at_def)

lemma write_at_append:
  "length p = off \<Longrightarrow> length xs \<le> length q \<Longrightarrow> write_at (p @ q) off xs = Some (p @ xs @ drop (length xs) q)"
  by (simp add: write_at_def)

lemma write_at_length: "write_at d off xs = Some d' \<Longrightarrow> length d' = length d"
  by (auto simp: write_at_def split: if_splits)

lemma take_drop_split:
  "n \<le> length xs \<Longrightarrow> m \<le> n \<Longrightarrow> take m xs @ take (n - m) (drop m xs) = take n xs"
  by (metis le_add_diff_inverse take_add)

section \<open>Unsigned 32-bit counters\<close>

definition add32 :: "nat \<Rightarrow> nat \<Rightarrow> nat" where
  "add32 a b = (a + b) mod 2 ^ 32"

definition sub32 :: "nat \<Rightarrow> nat \<Rightarrow> nat" where
  "sub32 a b = (if b \<le> a then a - b else (2 ^ 32 + a) - b)"

lemma add32_exact [wrap_simps]: "a + b < 2 ^ 32 \<Longrightarrow> add32 a b = a + b"
  by (simp add: add32_def)

lemma sub32_exact [wrap_simps]: "b \<le> a \<Longrightarrow> sub32 a b = a - b"
  by (simp add: sub32_def)

lemma u32_bound: "unat (w :: u32) < 2 ^ 32"
  by (rule order.strict_trans2 [OF unsigned_less]) simp

lemma u32_bound_num: "unat (w :: u32) < 4294967296"
  by (rule order.strict_trans2 [OF unsigned_less]) simp

lemma u16_bound: "unat (w :: u16) < 65536"
  by (rule order.strict_trans2 [OF unsigned_less]) simp

lemma u8_bound: "unat (w :: u8) < 256"
  by (rule order.strict_trans2 [OF unsigned_less]) simp

lemma u8_bound_le [simp]: "unat (w :: u8) \<le> 255"
  using u8_bound [of w] by simp

section \<open>Byte orders\<close>

text \<open>Network byte order, as \<open>htons\<close>, \<open>htonl\<close> and the readers of the codecs produce it.\<close>

definition be16 :: "nat \<Rightarrow> bytes" where
  "be16 n = [of_nat (n div 256), of_nat n]"

definition de16 :: "u8 \<Rightarrow> u8 \<Rightarrow> nat" where
  "de16 a b = unat a * 256 + unat b"

definition be32 :: "u32 \<Rightarrow> bytes" where
  "be32 w = [ucast (drop_bit 24 w), ucast (drop_bit 16 w), ucast (drop_bit 8 w), ucast w]"

definition de32 :: "u8 \<Rightarrow> u8 \<Rightarrow> u8 \<Rightarrow> u8 \<Rightarrow> u32" where
  "de32 a b c d = push_bit 24 (ucast a) OR push_bit 16 (ucast b) OR push_bit 8 (ucast c) OR ucast d"

text \<open>The host is little endian (the library is built for x86-64 and AArch64 Linux).\<close>

definition le16 :: "nat \<Rightarrow> bytes" where
  "le16 n = [of_nat n, of_nat (n div 256)]"

definition le32 :: "u32 \<Rightarrow> bytes" where
  "le32 w = [ucast w, ucast (drop_bit 8 w), ucast (drop_bit 16 w), ucast (drop_bit 24 w)]"

lemma de16_be16 [simp]:
  "n < 65536 \<Longrightarrow> de16 (of_nat (n div 256)) (of_nat n) = n"
  by (simp add: de16_def unat_of_nat take_bit_nat_def)

lemma de16_bound: "de16 a b < 65536"
  using u8_bound [of a] u8_bound [of b] by (simp add: de16_def)

lemma be16_de16: "be16 (de16 a b) = [a, b]"
proof -
  have "(unat a * 256 + unat b) div 256 = unat a"
    using u8_bound [of b] by simp
  moreover have "(of_nat (unat a * 256 + unat b) :: u8) = b"
  proof -
    have "(256 :: u8) = 0" by simp
    then show ?thesis by (simp only: of_nat_add of_nat_mult of_nat_numeral) simp
  qed
  ultimately show ?thesis by (simp add: be16_def de16_def)
qed

lemma length_be16 [simp]: "length (be16 n) = 2"
  by (simp add: be16_def)

lemma length_le16 [simp]: "length (le16 n) = 2"
  by (simp add: le16_def)

lemma length_be32 [simp]: "length (be32 w) = 4"
  by (simp add: be32_def)

lemma length_le32 [simp]: "length (le32 w) = 4"
  by (simp add: le32_def)

lemma de32_bit:
  "bit (de32 a b c d) n \<longleftrightarrow>
    (if n < 8 then bit d n else if n < 16 then bit c (n - 8)
     else if n < 24 then bit b (n - 16) else n < 32 \<and> bit a (n - 24))"
proof -
  have out: "8 \<le> m \<Longrightarrow> \<not> bit (w :: u8) m" for w m
    using bit_imp_le_length [of w m] by auto
  show ?thesis
    by (auto simp: de32_def bit_simps dest: bit_imp_le_length)
qed

lemma de32_be32:
  "de32 (ucast (drop_bit 24 w)) (ucast (drop_bit 16 w)) (ucast (drop_bit 8 w)) (ucast w) = w"
  by (rule bit_word_eqI) (auto simp: de32_bit bit_simps)

lemma be32_de32: "be32 (de32 a b c d) = [a, b, c, d]"
proof -
  have "ucast (drop_bit 24 (de32 a b c d)) = a" "ucast (drop_bit 16 (de32 a b c d)) = b"
    "ucast (drop_bit 8 (de32 a b c d)) = c" "ucast (de32 a b c d) = d"
    by (rule bit_word_eqI, auto simp: de32_bit bit_simps dest: bit_imp_le_length)+
  then show ?thesis by (simp add: be32_def)
qed

lemma de32_of_be32: "de32 (be32 v ! 0) (be32 v ! 1) (be32 v ! 2) (be32 v ! 3) = v"
  by (simp add: be32_def de32_be32)

lemma be32_inject: "be32 v = be32 w \<longleftrightarrow> v = w"
  using de32_of_be32 [of v] de32_of_be32 [of w] by metis

section \<open>C strings\<close>

text \<open>
  A NUL-terminated string is the list of the bytes before the terminator; the functions of
  \<open>string.h\<close> look at the bytes before the first zero only.
\<close>

definition cstr :: "bytes \<Rightarrow> bytes" where
  "cstr s = takeWhile (\<lambda>b. b \<noteq> 0) s"

definition strlen :: "bytes \<Rightarrow> nat" where
  "strlen s = length (cstr s)"

definition strnlen :: "bytes \<Rightarrow> nat \<Rightarrow> nat" where
  "strnlen s n = min n (strlen s)"

text \<open>The bytes of a string literal.\<close>

definition lit :: "string \<Rightarrow> bytes" where
  "lit s = map of_char s"

lemma cstr_id [simp]: "0 \<notin> set s \<Longrightarrow> cstr s = s"
  by (auto simp: cstr_def takeWhile_eq_all_conv)

lemma cstr_no_nul [simp]: "0 \<notin> set (cstr s)"
  by (auto simp: cstr_def dest: set_takeWhileD)

lemma strlen_id [simp]: "0 \<notin> set s \<Longrightarrow> strlen s = length s"
  by (simp add: strlen_def)

lemma strlen_le: "strlen s \<le> length s"
  by (simp add: strlen_def cstr_def length_takeWhile_le)

lemma strnlen_le_length: "strnlen s n \<le> length s"
  using strlen_le [of s] by (simp add: strnlen_def)

lemma take_strlen: "take (strlen s) s = cstr s"
  by (simp only: strlen_def cstr_def takeWhile_eq_take [symmetric])

lemma takeWhile_terminated: "\<not> P x \<Longrightarrow> takeWhile P (xs @ x # r) = takeWhile P xs"
  by (induction xs) auto

lemma cstr_terminated: "cstr (v @ 0 # r) = cstr v"
  by (simp add: cstr_def takeWhile_terminated)

lemma length_lit [simp]: "length (lit s) = length s"
  by (simp add: lit_def)

section \<open>Lists\<close>

lemma nth_append_drop: "off + i < length xs \<Longrightarrow> drop off xs ! i = xs ! (off + i)"
  by simp

lemma drop_eq_Cons: "i < length xs \<Longrightarrow> drop i xs = xs ! i # drop (Suc i) xs"
  by (simp add: Cons_nth_drop_Suc)

end
