(* ===== verification/Ipsec_Error.thy ===== *)
theory Ipsec_Error
  imports Ipsec_Prelude
begin

text \<open>
  The error vocabulary of the library (\<open>include/ipsec_error.h\<close>, \<open>src/core/error.c\<close>) and the two
  ways operations report: a result of a sum type where nothing but the error leaves a failed call,
  and a pair of the error code and the new state where it does. \<open>then_ok\<close> is the
  \<^verbatim>\<open>if (IPSEC_OK == eError)\<close> sequencing that almost every function of the sources uses.
\<close>

datatype IpsecError =
    IPSEC_OK
  | IPSEC_ERR_INVALID_ARGUMENT
  | IPSEC_ERR_NO_MEMORY
  | IPSEC_ERR_VICI_CONNECT
  | IPSEC_ERR_VICI_TRANSPORT
  | IPSEC_ERR_VICI_PROTOCOL
  | IPSEC_ERR_VICI_TIMEOUT
  | IPSEC_ERR_VICI_COMMAND
  | IPSEC_ERR_DAEMON_NOT_RUNNING
  | IPSEC_ERR_CONNECTION_NOT_FOUND
  | IPSEC_ERR_IKE_FAILED
  | IPSEC_ERR_CHILD_FAILED
  | IPSEC_ERR_NETLINK_SOCKET
  | IPSEC_ERR_NETLINK_SEND
  | IPSEC_ERR_NETLINK_RECV
  | IPSEC_ERR_NETLINK_PARSE
  | IPSEC_ERR_FILE_OPEN
  | IPSEC_ERR_FILE_READ
  | IPSEC_ERR_PERMISSION
  | IPSEC_ERR_BUFFER_TOO_SMALL
  | IPSEC_ERR_NOT_SUPPORTED
  | IPSEC_ERR_INTERNAL
  | IPSEC_ERR_FILE_WRITE
  | IPSEC_ERR_FILE_EXISTS
  | IPSEC_ERR_RANDOM
  | IPSEC_ERR_CANCELLED
  | IPSEC_ERR_INVALID_DATAPATH
  | IPSEC_ERR_DATAPATH_UNAVAILABLE
  | IPSEC_ERR_BACKEND_MISMATCH
  | IPSEC_ERR_INVALID_PACKET_PATH
  | IPSEC_ERR_PACKET_PATH_MISMATCH
  | IPSEC_ERR_INTERFACE_NOT_FOUND
  | IPSEC_ERR_INTERFACE_AMBIGUOUS
  | IPSEC_ERR_PROTECTED_PATH_UNAVAILABLE
  | IPSEC_ERR_PLAIN_PATH_UNAVAILABLE
  | IPSEC_ERR_PROTECTED_RECEIVE
  | IPSEC_ERR_PROTECTED_SUBMIT
  | IPSEC_ERR_PLAIN_RECEIVE
  | IPSEC_ERR_PACKET_TYPE
  | IPSEC_ERR_PACKET_INVALID
  | IPSEC_ERR_PACKET_TIMEOUT
  | IPSEC_ERR_ADDRESS_FAMILY
  | IPSEC_ERR_RESOURCE_CONFLICT

type_synonym 'a result = "IpsecError + 'a"

text \<open>
  \<open>GetIpsecErrorString\<close>: the switch has a case for every value of the enumeration; its
  \<open>default\<close> branch serves integers outside it only.
\<close>

primrec GetIpsecErrorString :: "IpsecError \<Rightarrow> string" where
  "GetIpsecErrorString IPSEC_OK = ''success''"
| "GetIpsecErrorString IPSEC_ERR_INVALID_ARGUMENT = ''invalid argument''"
| "GetIpsecErrorString IPSEC_ERR_NO_MEMORY = ''out of memory''"
| "GetIpsecErrorString IPSEC_ERR_VICI_CONNECT = ''VICI connection failed''"
| "GetIpsecErrorString IPSEC_ERR_VICI_TRANSPORT = ''VICI transport failed''"
| "GetIpsecErrorString IPSEC_ERR_VICI_PROTOCOL = ''invalid VICI protocol data''"
| "GetIpsecErrorString IPSEC_ERR_VICI_TIMEOUT = ''VICI operation timed out''"
| "GetIpsecErrorString IPSEC_ERR_VICI_COMMAND = ''VICI command failed''"
| "GetIpsecErrorString IPSEC_ERR_DAEMON_NOT_RUNNING = ''charon daemon is not running''"
| "GetIpsecErrorString IPSEC_ERR_CONNECTION_NOT_FOUND = ''IPsec connection was not found''"
| "GetIpsecErrorString IPSEC_ERR_IKE_FAILED = ''IKE operation failed''"
| "GetIpsecErrorString IPSEC_ERR_CHILD_FAILED = ''CHILD SA operation failed''"
| "GetIpsecErrorString IPSEC_ERR_NETLINK_SOCKET = ''Netlink socket failed''"
| "GetIpsecErrorString IPSEC_ERR_NETLINK_SEND = ''Netlink send failed''"
| "GetIpsecErrorString IPSEC_ERR_NETLINK_RECV = ''Netlink receive failed''"
| "GetIpsecErrorString IPSEC_ERR_NETLINK_PARSE = ''invalid Netlink data''"
| "GetIpsecErrorString IPSEC_ERR_FILE_OPEN = ''file open failed''"
| "GetIpsecErrorString IPSEC_ERR_FILE_READ = ''file read failed''"
| "GetIpsecErrorString IPSEC_ERR_PERMISSION = ''permission denied''"
| "GetIpsecErrorString IPSEC_ERR_BUFFER_TOO_SMALL = ''buffer is too small''"
| "GetIpsecErrorString IPSEC_ERR_NOT_SUPPORTED = ''operation is not supported''"
| "GetIpsecErrorString IPSEC_ERR_FILE_WRITE = ''file write failed''"
| "GetIpsecErrorString IPSEC_ERR_FILE_EXISTS = ''file already exists''"
| "GetIpsecErrorString IPSEC_ERR_RANDOM = ''secure random generation failed''"
| "GetIpsecErrorString IPSEC_ERR_CANCELLED = ''operation cancelled''"
| "GetIpsecErrorString IPSEC_ERR_INTERNAL = ''internal error''"
| "GetIpsecErrorString IPSEC_ERR_INVALID_DATAPATH = ''invalid datapath preference''"
| "GetIpsecErrorString IPSEC_ERR_DATAPATH_UNAVAILABLE = ''IPsec datapath unavailable''"
| "GetIpsecErrorString IPSEC_ERR_BACKEND_MISMATCH =
     ''operation does not apply to the active backend''"
| "GetIpsecErrorString IPSEC_ERR_INVALID_PACKET_PATH = ''invalid packet path''"
| "GetIpsecErrorString IPSEC_ERR_PACKET_PATH_MISMATCH =
     ''operation does not apply to the packet path''"
| "GetIpsecErrorString IPSEC_ERR_INTERFACE_NOT_FOUND = ''required interface not found''"
| "GetIpsecErrorString IPSEC_ERR_INTERFACE_AMBIGUOUS =
     ''multiple TUN candidates; specify an interface''"
| "GetIpsecErrorString IPSEC_ERR_PROTECTED_PATH_UNAVAILABLE =
     ''protected packet path unavailable''"
| "GetIpsecErrorString IPSEC_ERR_PLAIN_PATH_UNAVAILABLE = ''plain packet path unavailable''"
| "GetIpsecErrorString IPSEC_ERR_PROTECTED_RECEIVE = ''protected packet receive failed''"
| "GetIpsecErrorString IPSEC_ERR_PROTECTED_SUBMIT = ''protected packet submit failed''"
| "GetIpsecErrorString IPSEC_ERR_PLAIN_RECEIVE = ''plain packet receive failed''"
| "GetIpsecErrorString IPSEC_ERR_PACKET_TYPE = ''protected packet type is not supported''"
| "GetIpsecErrorString IPSEC_ERR_PACKET_INVALID = ''invalid packet data''"
| "GetIpsecErrorString IPSEC_ERR_PACKET_TIMEOUT = ''packet operation timed out''"
| "GetIpsecErrorString IPSEC_ERR_ADDRESS_FAMILY = ''packet address family is not supported''"
| "GetIpsecErrorString IPSEC_ERR_RESOURCE_CONFLICT =
     ''resource already exists or is not exclusively available''"

section \<open>Sequencing of checked calls\<close>

definition then_ok ::
  "(IpsecError \<times> 'b) option \<Rightarrow> ('b \<Rightarrow> (IpsecError \<times> 'b) option) \<Rightarrow> (IpsecError \<times> 'b) option" where
  "then_ok r f = (case r of None \<Rightarrow> None
      | Some (e, b) \<Rightarrow> (if e = IPSEC_OK then f b else Some (e, b)))"

lemma then_ok_OK [simp]: "then_ok (Some (IPSEC_OK, b)) f = f b"
  by (simp add: then_ok_def)

lemma then_ok_error [simp]: "e \<noteq> IPSEC_OK \<Longrightarrow> then_ok (Some (e, b)) f = Some (e, b)"
  by (simp add: then_ok_def)

lemma then_ok_None [simp]: "then_ok None f = None"
  by (simp add: then_ok_def)

lemma then_ok_return [simp]: "then_ok r (\<lambda>b. Some (IPSEC_OK, b)) = r"
  by (auto simp: then_ok_def split: option.splits)

lemma then_ok_eq_Some:
  "then_ok r f = Some (e, b) \<longleftrightarrow>
     (\<exists>b'. r = Some (IPSEC_OK, b') \<and> f b' = Some (e, b)) \<or> (e \<noteq> IPSEC_OK \<and> r = Some (e, b))"
  by (auto simp: then_ok_def split: option.splits)

text \<open>An optional result whose value is consumed by the rest of the function, as successes only.\<close>

lemma bind_result_Inr:
  "(r \<bind> (\<lambda>x. case x of Inl e \<Rightarrow> Some (Inl e) | Inr (a, b) \<Rightarrow> f a b)) = Some (Inr y)
     \<longleftrightarrow> (\<exists>a b. r = Some (Inr (a, b)) \<and> f a b = Some (Inr y))"
  by (cases r) (auto split: sum.splits)

end
