(* ===== verification/Byte_Sink.thy ===== *)
theory Byte_Sink
  imports Ipsec_Error
begin

text \<open>
  The contract between a message writer and the buffer it writes to. A sink accepts byte strings
  one after the other; an accepted string is appended to its content, a refused one leaves the
  content as it was, and no call is undefined. \<open>emit_all\<close> is what the writers of the sources do:
  emit the parts of an element in order and stop at the first error.
\<close>

fun emit_all ::
  "('b \<Rightarrow> bytes \<Rightarrow> (IpsecError \<times> 'b) option) \<Rightarrow> 'b \<Rightarrow> bytes list \<Rightarrow> (IpsecError \<times> 'b) option" where
  "emit_all emit b [] = Some (IPSEC_OK, b)"
| "emit_all emit b (x # xs) = then_ok (emit b x) (\<lambda>b. emit_all emit b xs)"

lemma emit_all_append:
  "emit_all emit b (xs @ ys) = then_ok (emit_all emit b xs) (\<lambda>b. emit_all emit b ys)"
  by (induction xs arbitrary: b) (auto simp: then_ok_def split: option.splits)

lemma emit_all_single: "emit_all emit b [x] = emit b x"
  by (auto simp: then_ok_def split: option.splits)

lemma then_ok_assoc: "then_ok (then_ok r f) g = then_ok r (\<lambda>b. then_ok (f b) g)"
  by (auto simp: then_ok_def split: option.splits)

lemma then_ok_emit_all: "then_ok (emit b x) (\<lambda>b. emit_all emit b xs) = emit_all emit b (x # xs)"
  by simp

locale byte_sink =
  fixes emit :: "'b \<Rightarrow> bytes \<Rightarrow> (IpsecError \<times> 'b) option"
    and content :: "'b \<Rightarrow> bytes"
    and inv :: "'b \<Rightarrow> bool"
  assumes emit_law: "inv b \<Longrightarrow> \<exists>e b'. emit b xs = Some (e, b') \<and> inv b'
            \<and> content b' = content b @ (if e = IPSEC_OK then xs else [])"
begin

text \<open>Emitting a list of parts: what arrives is a prefix of the parts, all of them exactly on success.\<close>

lemma emit_all_parts:
  assumes "inv b"
  shows "\<exists>e b' k. emit_all emit b xss = Some (e, b') \<and> inv b'
     \<and> content b' = content b @ concat (take k xss) \<and> (e = IPSEC_OK \<longleftrightarrow> k = length xss) \<and> k \<le> length xss"
  using assms
proof (induction xss arbitrary: b)
  case Nil
  then show ?case by (intro exI [of _ IPSEC_OK] exI [of _ b] exI [of _ 0]) simp
next
  case (Cons x xss)
  obtain e b1 where e1: "emit b x = Some (e, b1)" and inv1: "inv b1"
    and c1: "content b1 = content b @ (if e = IPSEC_OK then x else [])"
    using emit_law [OF Cons.prems, of x] by blast
  show ?case
  proof (cases "e = IPSEC_OK")
    case False
    with e1 inv1 c1 show ?thesis
      by (intro exI [of _ e] exI [of _ b1] exI [of _ 0]) simp
  next
    case True
    obtain e2 b2 k where "emit_all emit b1 xss = Some (e2, b2)" "inv b2"
      "content b2 = content b1 @ concat (take k xss)"
      "e2 = IPSEC_OK \<longleftrightarrow> k = length xss" "k \<le> length xss"
      using Cons.IH [OF inv1] by blast
    with True e1 c1 show ?thesis
      by (intro exI [of _ e2] exI [of _ b2] exI [of _ "Suc k"]) simp
  qed
qed

lemma emit_all_sound:
  assumes "inv b" and "emit_all emit b xss = Some (e, b')"
  shows "inv b'" and "prefix (content b) (content b')"
    and "prefix (content b') (content b @ concat xss)"
    and "e = IPSEC_OK \<Longrightarrow> content b' = content b @ concat xss"
proof -
  obtain k where k: "inv b'" "content b' = content b @ concat (take k xss)"
    "e = IPSEC_OK \<longleftrightarrow> k = length xss"
    using emit_all_parts [OF assms(1), of xss] assms(2) by auto
  have "concat (take k xss) @ concat (drop k xss) = concat xss"
    by (metis append_take_drop_id concat_append)
  then have "prefix (concat (take k xss)) (concat xss)"
    by (metis prefixI)
  with k show "inv b'" "prefix (content b) (content b')"
    "prefix (content b') (content b @ concat xss)"
    "e = IPSEC_OK \<Longrightarrow> content b' = content b @ concat xss"
    by auto
qed

lemma emit_all_total: "inv b \<Longrightarrow> \<exists>e b'. emit_all emit b xss = Some (e, b')"
  using emit_all_parts [of b xss] by blast

lemma emit_all_inv: "inv b \<Longrightarrow> \<exists>e b'. emit_all emit b xss = Some (e, b') \<and> inv b'"
  using emit_all_parts [of b xss] by blast

end

text \<open>A sink with a capacity accepts whatever fits.\<close>

locale bounded_sink = byte_sink +
  fixes limit :: nat
  assumes emit_fits: "inv b \<Longrightarrow> length (content b) + length xs \<le> limit \<Longrightarrow>
            \<exists>b'. emit b xs = Some (IPSEC_OK, b')"
begin

lemma emit_all_fits:
  assumes "inv b" and "length (content b) + length (concat xss) \<le> limit"
  shows "\<exists>b'. emit_all emit b xss = Some (IPSEC_OK, b')"
  using assms
proof (induction xss arbitrary: b)
  case (Cons x xss)
  obtain b1 where b1: "emit b x = Some (IPSEC_OK, b1)"
    using emit_fits [of b x] Cons.prems by auto
  then have "inv b1" "content b1 = content b @ x"
    using emit_law [OF Cons.prems(1), of x] by auto
  with Cons.IH [of b1] Cons.prems b1 show ?case by simp
qed simp

end

end
