(* ===== verification/Vici_Packet.thy ===== *)
theory Vici_Packet
  imports Byte_Sink
begin

text \<open>
  The VICI packet codec, \<open>src/ike/vici/vici_packet.c\<close>: the growable message buffer with its
  handling of sensitive contents, the element writers, the named packet builder and the packet
  decoder.

  A buffer is a record with the fields of \<open>ViciBuffer_t\<close> and one field the C struct does not
  have: \<open>released\<close> collects every block the buffer has given back to the allocator, with the bytes it held
  at that moment, so that the wiping of secrets is a statement about the model. The allocator is
  a parameter \<open>heap\<close>: \<open>heap n\<close> is what \<open>malloc(n)\<close> finds in the new block, or \<open>None\<close> when the
  allocation fails.
\<close>

section \<open>Buffers\<close>

definition VICI_MAX_SEGMENT_LENGTH :: nat where
  "VICI_MAX_SEGMENT_LENGTH = 512 * 1024"

record ViciBuffer =
  pucData :: "bytes option"
  uiLength :: nat
  uiCapacity :: nat
  bSensitive :: bool
  released :: "bytes list"

type_synonym heap = "nat \<Rightarrow> bytes option"
type_synonym buffer_result = "(IpsecError \<times> ViciBuffer) option"

definition empty_ViciBuffer :: ViciBuffer where
  "empty_ViciBuffer = \<lparr>pucData = None, uiLength = 0, uiCapacity = 0, bSensitive = False, released = []\<rparr>"

text \<open>
  \<open>malloc\<close> returns \<open>n\<close> bytes of unknown contents; \<open>realloc\<close> keeps the common part of the old
  block and releases it.
\<close>

definition c_malloc :: "heap \<Rightarrow> nat \<Rightarrow> bytes option" where
  "c_malloc heap n = map_option (\<lambda>b. take n (b @ replicate n 0)) (heap n)"

definition c_realloc :: "heap \<Rightarrow> bytes option \<Rightarrow> nat \<Rightarrow> bytes option" where
  "c_realloc heap old n =
     (case c_malloc heap n of None \<Rightarrow> None
      | Some fresh \<Rightarrow>
          (case old of None \<Rightarrow> Some fresh
           | Some d \<Rightarrow> Some (take n d @ drop (length d) fresh)))"

definition SecureZeroIpsec :: "bytes \<Rightarrow> nat \<Rightarrow> bytes option" where
  "SecureZeroIpsec d n = write_at d 0 (replicate n 0)"

text \<open>
  The doubling loop of \<open>ReserveViciBuffer\<close>. The C loop tests \<open>uiNewCapacity < uiRequiredLength\<close>
  only; its caller starts it at 64 or at a nonzero capacity and has checked the required length
  against the maximum, and those two facts, which make it end, are part of the guard here.
\<close>

function grow_capacity :: "nat \<Rightarrow> nat \<Rightarrow> nat" where
  "grow_capacity uiNewCapacity uiRequiredLength =
     (if uiNewCapacity < uiRequiredLength \<and> 0 < uiNewCapacity
         \<and> uiRequiredLength \<le> VICI_MAX_SEGMENT_LENGTH
      then (if uiNewCapacity > VICI_MAX_SEGMENT_LENGTH div 2
            then grow_capacity VICI_MAX_SEGMENT_LENGTH uiRequiredLength
            else grow_capacity (uiNewCapacity * 2) uiRequiredLength)
      else uiNewCapacity)"
  by pat_completeness auto
termination
  by (relation "measure (\<lambda>(c, r). r - c)") auto

text \<open>
  Moving the contents to a block of the new capacity: a sensitive buffer never goes through
  \<open>realloc\<close>, which may release the old block without wiping it.
\<close>

definition move_block :: "heap \<Rightarrow> ViciBuffer \<Rightarrow> nat \<Rightarrow> buffer_result" where
  "move_block heap b uiNewCapacity =
     (if bSensitive b then
        (case c_malloc heap uiNewCapacity of
           None \<Rightarrow> Some (IPSEC_ERR_NO_MEMORY, b)
         | Some fresh \<Rightarrow>
             (case pucData b of
                None \<Rightarrow> Some (IPSEC_OK, b\<lparr>pucData := Some fresh, uiCapacity := uiNewCapacity\<rparr>)
              | Some old \<Rightarrow> do {
                  src \<leftarrow> rd_bytes old 0 (uiLength b);
                  fresh' \<leftarrow> write_at fresh 0 src;
                  wiped \<leftarrow> SecureZeroIpsec old (uiCapacity b);
                  Some (IPSEC_OK, b\<lparr>pucData := Some fresh', uiCapacity := uiNewCapacity,
                                    released := wiped # released b\<rparr>)
                }))
      else
        (case c_realloc heap (pucData b) uiNewCapacity of
           None \<Rightarrow> Some (IPSEC_ERR_NO_MEMORY, b)
         | Some new \<Rightarrow>
             Some (IPSEC_OK, b\<lparr>pucData := Some new, uiCapacity := uiNewCapacity,
                               released := (case pucData b of None \<Rightarrow> released b
                                            | Some old \<Rightarrow> old # released b)\<rparr>)))"

definition ReserveViciBuffer :: "heap \<Rightarrow> ViciBuffer \<Rightarrow> nat \<Rightarrow> buffer_result" where
  "ReserveViciBuffer heap b uiAdditionalLength =
     (if uiAdditionalLength > sub32 UINT32_MAX (uiLength b)
      then Some (IPSEC_ERR_BUFFER_TOO_SMALL, b)
      else
        let uiRequiredLength = add32 (uiLength b) uiAdditionalLength in
        if VICI_MAX_SEGMENT_LENGTH < uiRequiredLength
        then Some (IPSEC_ERR_BUFFER_TOO_SMALL, b)
        else if uiCapacity b \<ge> uiRequiredLength
        then Some (IPSEC_OK, b)
        else move_block heap b
               (grow_capacity (if uiCapacity b = 0 then 64 else uiCapacity b) uiRequiredLength))"

text \<open>
  \<open>memset(pBuffer, 0, sizeof)\<close> forgets the previous fields without releasing anything; only the log
  of released blocks stays.
\<close>

definition InitializeViciBuffer :: "heap \<Rightarrow> ViciBuffer \<Rightarrow> nat \<Rightarrow> bool \<Rightarrow> buffer_result" where
  "InitializeViciBuffer heap b uiInitialCapacity sensitive =
     (if VICI_MAX_SEGMENT_LENGTH < uiInitialCapacity
      then Some (IPSEC_ERR_INVALID_ARGUMENT, b)
      else ReserveViciBuffer heap
             (empty_ViciBuffer\<lparr>bSensitive := sensitive, released := released b\<rparr>) uiInitialCapacity)"

definition DestroyViciBuffer :: "ViciBuffer \<Rightarrow> ViciBuffer option" where
  "DestroyViciBuffer b =
     (case pucData b of
        None \<Rightarrow> Some (empty_ViciBuffer\<lparr>released := released b\<rparr>)
      | Some d \<Rightarrow>
          (if bSensitive b then
             (case SecureZeroIpsec d (uiCapacity b) of
                None \<Rightarrow> None
              | Some wiped \<Rightarrow> Some (empty_ViciBuffer\<lparr>released := wiped # released b\<rparr>))
           else Some (empty_ViciBuffer\<lparr>released := d # released b\<rparr>)))"

text \<open>
  \<open>AppendViciBuffer\<close> on a source object \<open>src\<close> (\<open>None\<close> for a NULL pointer) and a length. The copy
  goes through the pointer arithmetic of the code: reading past the source or writing past the
  block is undefined.
\<close>

definition AppendViciBuffer :: "heap \<Rightarrow> ViciBuffer \<Rightarrow> bytes option \<Rightarrow> nat \<Rightarrow> buffer_result" where
  "AppendViciBuffer heap b src n =
     (if src = None \<and> n \<noteq> 0 then Some (IPSEC_ERR_INVALID_ARGUMENT, b)
      else
        (case ReserveViciBuffer heap b n of
           None \<Rightarrow> None
         | Some (e, b') \<Rightarrow>
             (if e = IPSEC_OK \<and> 0 < n then
                (case (src, pucData b') of
                   (Some s, Some d) \<Rightarrow> do {
                     xs \<leftarrow> rd_bytes s 0 n;
                     d' \<leftarrow> write_at d (uiLength b') xs;
                     Some (IPSEC_OK, b'\<lparr>pucData := Some d', uiLength := add32 (uiLength b') n\<rparr>)
                   }
                 | _ \<Rightarrow> None)
              else Some (e, b'))))"

definition AppendViciByte :: "heap \<Rightarrow> ViciBuffer \<Rightarrow> u8 \<Rightarrow> buffer_result" where
  "AppendViciByte heap b v = AppendViciBuffer heap b (Some [v]) 1"

definition AppendViciName :: "heap \<Rightarrow> ViciBuffer \<Rightarrow> bytes option \<Rightarrow> buffer_result" where
  "AppendViciName heap b pcName =
     (case pcName of
        None \<Rightarrow> Some (IPSEC_ERR_INVALID_ARGUMENT, b)
      | Some s \<Rightarrow>
          (let zLength = strnlen s (UINT8_MAX + 1) in
           if zLength = 0 \<or> UINT8_MAX < zLength then Some (IPSEC_ERR_INVALID_ARGUMENT, b)
           else then_ok (AppendViciByte heap b (of_nat zLength))
                  (\<lambda>b. AppendViciBuffer heap b (Some s) zLength)))"

section \<open>Element writers\<close>

definition VICI_ELEMENT_SECTION_START :: u8 where "VICI_ELEMENT_SECTION_START = 1"
definition VICI_ELEMENT_SECTION_END :: u8 where "VICI_ELEMENT_SECTION_END = 2"
definition VICI_ELEMENT_KEY_VALUE :: u8 where "VICI_ELEMENT_KEY_VALUE = 3"
definition VICI_ELEMENT_LIST_START :: u8 where "VICI_ELEMENT_LIST_START = 4"
definition VICI_ELEMENT_LIST_ITEM :: u8 where "VICI_ELEMENT_LIST_ITEM = 5"
definition VICI_ELEMENT_LIST_END :: u8 where "VICI_ELEMENT_LIST_END = 6"

lemmas vici_element_defs = VICI_ELEMENT_SECTION_START_def VICI_ELEMENT_SECTION_END_def
  VICI_ELEMENT_KEY_VALUE_def VICI_ELEMENT_LIST_START_def VICI_ELEMENT_LIST_ITEM_def
  VICI_ELEMENT_LIST_END_def

definition AddViciSectionStart :: "heap \<Rightarrow> ViciBuffer \<Rightarrow> bytes option \<Rightarrow> buffer_result" where
  "AddViciSectionStart heap b pcName =
     then_ok (AppendViciByte heap b VICI_ELEMENT_SECTION_START) (\<lambda>b. AppendViciName heap b pcName)"

definition AddViciSectionEnd :: "heap \<Rightarrow> ViciBuffer \<Rightarrow> buffer_result" where
  "AddViciSectionEnd heap b = AppendViciByte heap b VICI_ELEMENT_SECTION_END"

definition AddViciKeyValue ::
  "heap \<Rightarrow> ViciBuffer \<Rightarrow> bytes option \<Rightarrow> bytes option \<Rightarrow> nat \<Rightarrow> buffer_result" where
  "AddViciKeyValue heap b pcName pvValue uiValueLength =
     (if (pvValue = None \<and> uiValueLength \<noteq> 0) \<or> UINT16_MAX < uiValueLength
      then Some (IPSEC_ERR_INVALID_ARGUMENT, b)
      else then_ok (then_ok (then_ok
             (AppendViciByte heap b VICI_ELEMENT_KEY_VALUE)
             (\<lambda>b. AppendViciName heap b pcName))
             (\<lambda>b. AppendViciBuffer heap b (Some (be16 uiValueLength)) 2))
             (\<lambda>b. AppendViciBuffer heap b pvValue uiValueLength))"

definition AddViciKeyValueString ::
  "heap \<Rightarrow> ViciBuffer \<Rightarrow> bytes option \<Rightarrow> bytes option \<Rightarrow> buffer_result" where
  "AddViciKeyValueString heap b pcName pcValue =
     (case pcValue of
        None \<Rightarrow> Some (IPSEC_ERR_INVALID_ARGUMENT, b)
      | Some s \<Rightarrow>
          (let zLength = strnlen s (UINT16_MAX + 1) in
           if UINT16_MAX < zLength then Some (IPSEC_ERR_INVALID_ARGUMENT, b)
           else AddViciKeyValue heap b pcName (Some s) zLength))"

definition AddViciListStart :: "heap \<Rightarrow> ViciBuffer \<Rightarrow> bytes option \<Rightarrow> buffer_result" where
  "AddViciListStart heap b pcName =
     then_ok (AppendViciByte heap b VICI_ELEMENT_LIST_START) (\<lambda>b. AppendViciName heap b pcName)"

definition AddViciListItem :: "heap \<Rightarrow> ViciBuffer \<Rightarrow> bytes option \<Rightarrow> nat \<Rightarrow> buffer_result" where
  "AddViciListItem heap b pvValue uiValueLength =
     (if (pvValue = None \<and> uiValueLength \<noteq> 0) \<or> UINT16_MAX < uiValueLength
      then Some (IPSEC_ERR_INVALID_ARGUMENT, b)
      else then_ok (then_ok
             (AppendViciByte heap b VICI_ELEMENT_LIST_ITEM)
             (\<lambda>b. AppendViciBuffer heap b (Some (be16 uiValueLength)) 2))
             (\<lambda>b. AppendViciBuffer heap b pvValue uiValueLength))"

definition AddViciListItemString :: "heap \<Rightarrow> ViciBuffer \<Rightarrow> bytes option \<Rightarrow> buffer_result" where
  "AddViciListItemString heap b pcValue =
     (case pcValue of
        None \<Rightarrow> Some (IPSEC_ERR_INVALID_ARGUMENT, b)
      | Some s \<Rightarrow>
          (let zLength = strnlen s (UINT16_MAX + 1) in
           if UINT16_MAX < zLength then Some (IPSEC_ERR_INVALID_ARGUMENT, b)
           else AddViciListItem heap b (Some s) zLength))"

definition AddViciListEnd :: "heap \<Rightarrow> ViciBuffer \<Rightarrow> buffer_result" where
  "AddViciListEnd heap b = AppendViciByte heap b VICI_ELEMENT_LIST_END"

section \<open>Packets\<close>

datatype ViciPacketType =
    VICI_PACKET_COMMAND_REQUEST
  | VICI_PACKET_COMMAND_RESPONSE
  | VICI_PACKET_COMMAND_UNKNOWN
  | VICI_PACKET_EVENT_REGISTER
  | VICI_PACKET_EVENT_UNREGISTER
  | VICI_PACKET_EVENT_CONFIRM
  | VICI_PACKET_EVENT_UNKNOWN
  | VICI_PACKET_EVENT

fun packet_type_code :: "ViciPacketType \<Rightarrow> u8" where
  "packet_type_code VICI_PACKET_COMMAND_REQUEST = 0"
| "packet_type_code VICI_PACKET_COMMAND_RESPONSE = 1"
| "packet_type_code VICI_PACKET_COMMAND_UNKNOWN = 2"
| "packet_type_code VICI_PACKET_EVENT_REGISTER = 3"
| "packet_type_code VICI_PACKET_EVENT_UNREGISTER = 4"
| "packet_type_code VICI_PACKET_EVENT_CONFIRM = 5"
| "packet_type_code VICI_PACKET_EVENT_UNKNOWN = 6"
| "packet_type_code VICI_PACKET_EVENT = 7"

definition packet_type_of :: "u8 \<Rightarrow> ViciPacketType" where
  "packet_type_of c =
     (if c = 0 then VICI_PACKET_COMMAND_REQUEST
      else if c = 1 then VICI_PACKET_COMMAND_RESPONSE
      else if c = 2 then VICI_PACKET_COMMAND_UNKNOWN
      else if c = 3 then VICI_PACKET_EVENT_REGISTER
      else if c = 4 then VICI_PACKET_EVENT_UNREGISTER
      else if c = 5 then VICI_PACKET_EVENT_CONFIRM
      else if c = 6 then VICI_PACKET_EVENT_UNKNOWN
      else VICI_PACKET_EVENT)"

text \<open>
  \<open>pPacket\<close> is an output: the caller's buffer before the call is \<open>b\<close>; \<open>pMessage\<close> is \<open>None\<close> for
  NULL. A failed construction destroys the packet.
\<close>

definition BuildViciNamedPacket ::
  "heap \<Rightarrow> ViciPacketType \<Rightarrow> bytes option \<Rightarrow> ViciBuffer option \<Rightarrow> ViciBuffer \<Rightarrow> buffer_result" where
  "BuildViciNamedPacket heap eType pcName pMessage b =
     (if pcName = None then Some (IPSEC_ERR_INVALID_ARGUMENT, b)
      else
        (let sensitive = (case pMessage of None \<Rightarrow> False | Some m \<Rightarrow> bSensitive m) in
         case then_ok (then_ok (then_ok
                (InitializeViciBuffer heap b 64 sensitive)
                (\<lambda>b. AppendViciByte heap b (packet_type_code eType)))
                (\<lambda>b. AppendViciName heap b pcName))
                (\<lambda>b. case pMessage of None \<Rightarrow> Some (IPSEC_OK, b)
                     | Some m \<Rightarrow> AppendViciBuffer heap b (pucData m) (uiLength m)) of
           None \<Rightarrow> None
         | Some (e, b') \<Rightarrow>
             (if e \<noteq> IPSEC_OK then
                (case DestroyViciBuffer b' of None \<Rightarrow> None | Some d \<Rightarrow> Some (e, d))
              else Some (e, b'))))"

record ViciPacketView =
  vw_eType :: ViciPacketType
  vw_pucName :: "bytes option"
  vw_pucMessage :: bytes

definition packet_named :: "ViciPacketType \<Rightarrow> bool" where
  "packet_named t \<longleftrightarrow> t = VICI_PACKET_COMMAND_REQUEST \<or> t = VICI_PACKET_EVENT_REGISTER
     \<or> t = VICI_PACKET_EVENT_UNREGISTER \<or> t = VICI_PACKET_EVENT"

definition packet_bodyless :: "ViciPacketType \<Rightarrow> bool" where
  "packet_bodyless t \<longleftrightarrow> t = VICI_PACKET_COMMAND_UNKNOWN \<or> t = VICI_PACKET_EVENT_REGISTER
     \<or> t = VICI_PACKET_EVENT_UNREGISTER \<or> t = VICI_PACKET_EVENT_CONFIRM
     \<or> t = VICI_PACKET_EVENT_UNKNOWN"

text \<open>
  \<open>DecodeViciPacket\<close> on an object \<open>p\<close> of which \<open>uiPacketLength\<close> bytes belong to the packet. The
  views are the bytes the pointers of \<open>ViciPacketView_t\<close> designate.
\<close>

definition DecodeViciPacket ::
  "bytes option \<Rightarrow> u32 \<Rightarrow> (ViciPacketView result) option" where
  "DecodeViciPacket pucPacket uiPacketLength =
     (case pucPacket of
        None \<Rightarrow> Some (Inl IPSEC_ERR_VICI_PROTOCOL)
      | Some p \<Rightarrow>
          (if unat uiPacketLength < 1 then Some (Inl IPSEC_ERR_VICI_PROTOCOL)
           else do {
             c \<leftarrow> rd p 0;
             if packet_type_code VICI_PACKET_EVENT < c then Some (Inl IPSEC_ERR_VICI_PROTOCOL)
             else do {
               let t = packet_type_of c;
               named \<leftarrow>
                 (if packet_named t then
                    (if 1 \<ge> unat uiPacketLength then Some (Inl IPSEC_ERR_VICI_PROTOCOL)
                     else do {
                       nl \<leftarrow> rd p 1;
                       if nl = 0 \<or> unat nl > sub32 (unat uiPacketLength) 2
                       then Some (Inl IPSEC_ERR_VICI_PROTOCOL)
                       else do {
                         name \<leftarrow> rd_bytes p 2 (unat nl);
                         Some (Inr (Some name, add32 2 (unat nl)))
                       }
                     })
                  else Some (Inr (None, 1)));
               (case named of
                  Inl e \<Rightarrow> Some (Inl e)
                | Inr (name, uiOffset) \<Rightarrow>
                    (let uiMessageLength = sub32 (unat uiPacketLength) uiOffset in
                     if packet_bodyless t \<and> uiMessageLength \<noteq> 0
                     then Some (Inl IPSEC_ERR_VICI_PROTOCOL)
                     else do {
                       m \<leftarrow> rd_bytes p uiOffset uiMessageLength;
                       Some (Inr \<lparr>vw_eType = t, vw_pucName = name, vw_pucMessage = m\<rparr>)
                     }))
             }
           }))"

section \<open>What a buffer holds\<close>

definition buf_content :: "ViciBuffer \<Rightarrow> bytes" where
  "buf_content b = (case pucData b of None \<Rightarrow> [] | Some d \<Rightarrow> take (uiLength b) d)"

definition buf_wf :: "ViciBuffer \<Rightarrow> bool" where
  "buf_wf b \<longleftrightarrow> uiLength b \<le> uiCapacity b \<and> uiCapacity b \<le> VICI_MAX_SEGMENT_LENGTH \<and>
     (case pucData b of None \<Rightarrow> uiCapacity b = 0 | Some d \<Rightarrow> length d = uiCapacity b)"

definition blank :: "bytes list \<Rightarrow> bool" where
  "blank blocks \<longleftrightarrow> (\<forall>blk \<in> set blocks. set blk \<subseteq> {0})"

definition secret_safe :: "ViciBuffer \<Rightarrow> bool" where
  "secret_safe b \<longleftrightarrow> (bSensitive b \<longrightarrow> blank (released b))"

lemma blank_simps [simp]: "blank []" "blank (x # xs) \<longleftrightarrow> set x \<subseteq> {0} \<and> blank xs"
  by (auto simp: blank_def)

lemma blank_replicate [simp]: "set (replicate n 0) \<subseteq> {0 :: u8}"
  by auto

lemma VICI_MAX_num [simp]: "VICI_MAX_SEGMENT_LENGTH = 524288"
  by (simp add: VICI_MAX_SEGMENT_LENGTH_def)

lemma c_malloc_length: "c_malloc heap n = Some b \<Longrightarrow> length b = n"
  by (auto simp: c_malloc_def)

lemma c_realloc_length:
  "c_realloc heap old n = Some b \<Longrightarrow> (\<forall>d. old = Some d \<longrightarrow> length d \<le> n) \<Longrightarrow> length b = n"
  by (auto simp: c_realloc_def dest!: c_malloc_length split: option.splits)

lemma buf_content_length: "buf_wf b \<Longrightarrow> length (buf_content b) = uiLength b"
  by (auto simp: buf_wf_def buf_content_def split: option.splits)

lemma buf_wf_empty [simp]: "buf_wf empty_ViciBuffer" "buf_content empty_ViciBuffer = []"
  by (simp_all add: buf_wf_def buf_content_def empty_ViciBuffer_def)

declare grow_capacity.simps [simp del]

lemma grow_capacity_bounds:
  "0 < c \<Longrightarrow> c \<le> VICI_MAX_SEGMENT_LENGTH \<Longrightarrow> r \<le> VICI_MAX_SEGMENT_LENGTH \<Longrightarrow>
   r \<le> grow_capacity c r \<and> c \<le> grow_capacity c r \<and> grow_capacity c r \<le> VICI_MAX_SEGMENT_LENGTH"
proof (induction c r rule: grow_capacity.induct)
  case (1 c r)
  show ?case
  proof (cases "c < r")
    case False
    with 1 show ?thesis by (simp add: grow_capacity.simps [of c r])
  next
    case True
    show ?thesis
    proof (cases "c > VICI_MAX_SEGMENT_LENGTH div 2")
      case True
      with 1 \<open>c < r\<close> show ?thesis by (simp add: grow_capacity.simps [of c r])
    next
      case False
      with 1 \<open>c < r\<close> have "r \<le> grow_capacity (c * 2) r \<and> c * 2 \<le> grow_capacity (c * 2) r
          \<and> grow_capacity (c * 2) r \<le> VICI_MAX_SEGMENT_LENGTH"
        by simp
      with 1 \<open>c < r\<close> False show ?thesis by (simp add: grow_capacity.simps [of c r])
    qed
  qed
qed

text \<open>Reserving never leaves the block, keeps the contents and makes room when it succeeds.\<close>

definition reserve_post :: "ViciBuffer \<Rightarrow> nat \<Rightarrow> IpsecError \<Rightarrow> ViciBuffer \<Rightarrow> bool" where
  "reserve_post b n e b' \<longleftrightarrow> buf_wf b' \<and> buf_content b' = buf_content b
     \<and> uiLength b' = uiLength b \<and> bSensitive b' = bSensitive b
     \<and> (secret_safe b \<longrightarrow> secret_safe b')
     \<and> (e = IPSEC_OK \<longrightarrow> uiLength b + n \<le> uiCapacity b')"

lemma reserve_post_same: "buf_wf b \<Longrightarrow> e \<noteq> IPSEC_OK \<or> uiLength b + n \<le> uiCapacity b \<Longrightarrow> reserve_post b n e b"
  by (auto simp: reserve_post_def)

lemma move_block_total:
  assumes wf: "buf_wf b" and c: "uiLength b + n \<le> c" "uiCapacity b \<le> c" "c \<le> VICI_MAX_SEGMENT_LENGTH"
  shows "\<exists>e b'. move_block heap b c = Some (e, b') \<and> reserve_post b n e b'"
proof (cases "bSensitive b")
  case True
  show ?thesis
  proof (cases "c_malloc heap c")
    case None
    with True wf show ?thesis by (simp add: move_block_def reserve_post_same)
  next
    case (Some fresh)
    with c_malloc_length [OF Some] True wf c show ?thesis
      by (cases "pucData b") (auto simp: move_block_def reserve_post_def buf_wf_def buf_content_def
          secret_safe_def SecureZeroIpsec_def mem_simps min_def)
  qed
next
  case False
  show ?thesis
  proof (cases "c_realloc heap (pucData b) c")
    case None
    with False wf show ?thesis by (simp add: move_block_def reserve_post_same)
  next
    case (Some new)
    then have "length new = c"
      using c wf by (auto simp: buf_wf_def dest!: c_realloc_length split: option.splits)
    moreover have "take (uiLength b) new = buf_content b"
      using Some wf c by (auto simp: buf_content_def buf_wf_def c_realloc_def min_def split: option.splits)
    ultimately show ?thesis using False wf c Some
      by (auto simp: move_block_def reserve_post_def buf_wf_def secret_safe_def buf_content_def)
  qed
qed

lemma Reserve_total:
  assumes wf: "buf_wf b"
  shows "\<exists>e b'. ReserveViciBuffer heap b n = Some (e, b') \<and> reserve_post b n e b'"
proof -
  let ?req = "uiLength b + n"
  let ?c0 = "if uiCapacity b = 0 then 64 else uiCapacity b"
  have len: "uiLength b \<le> 524288" using wf by (auto simp: buf_wf_def)
  consider (huge) "n > UINT32_MAX - uiLength b" | (big) "n \<le> UINT32_MAX - uiLength b" "?req > 524288"
    | (fits) "n \<le> UINT32_MAX - uiLength b" "?req \<le> 524288" "uiCapacity b \<ge> ?req"
    | (grow) "n \<le> UINT32_MAX - uiLength b" "?req \<le> 524288" "uiCapacity b < ?req"
    by linarith
  then show ?thesis
  proof cases
    case grow
    then have "?req \<le> grow_capacity ?c0 ?req" "uiCapacity b \<le> grow_capacity ?c0 ?req"
      "grow_capacity ?c0 ?req \<le> VICI_MAX_SEGMENT_LENGTH"
      using grow_capacity_bounds [of ?c0 ?req] wf by (auto simp: buf_wf_def)
    then show ?thesis
      using move_block_total [OF wf] grow len
      by (simp add: ReserveViciBuffer_def wrap_simps Let_def)
  qed (use wf len in \<open>simp_all add: ReserveViciBuffer_def wrap_simps Let_def reserve_post_same\<close>)
qed

section \<open>Appending\<close>

lemma Append_take: "n \<le> length s \<Longrightarrow> AppendViciBuffer heap b (Some s) n = AppendViciBuffer heap b (Some (take n s)) n"
  by (auto simp: AppendViciBuffer_def rd_bytes_def split: option.splits)

lemma Append_null: "AppendViciBuffer heap b None 0 = AppendViciBuffer heap b (Some []) 0"
  by (auto simp: AppendViciBuffer_def split: option.splits)

definition append_post :: "ViciBuffer \<Rightarrow> bytes \<Rightarrow> IpsecError \<Rightarrow> ViciBuffer \<Rightarrow> bool" where
  "append_post b xs e b' \<longleftrightarrow> buf_wf b' \<and> bSensitive b' = bSensitive b
     \<and> (secret_safe b \<longrightarrow> secret_safe b')
     \<and> buf_content b' = buf_content b @ (if e = IPSEC_OK then xs else [])"

lemma Append_total:
  assumes wf: "buf_wf b"
  shows "\<exists>e b'. AppendViciBuffer heap b (Some xs) (length xs) = Some (e, b') \<and> append_post b xs e b'"
proof -
  obtain e b1 where r: "ReserveViciBuffer heap b (length xs) = Some (e, b1)"
    and post: "reserve_post b (length xs) e b1"
    using Reserve_total [OF wf] by blast
  show ?thesis
  proof (cases "e = IPSEC_OK \<and> xs \<noteq> []")
    case False
    with r post show ?thesis
      by (auto simp: AppendViciBuffer_def append_post_def reserve_post_def)
  next
    case True
    with post have room: "uiLength b1 + length xs \<le> uiCapacity b1" and wf1: "buf_wf b1"
      by (auto simp: reserve_post_def)
    with True obtain d where d: "pucData b1 = Some d" "length d = uiCapacity b1"
      by (auto simp: buf_wf_def split: option.splits)
    let ?b2 = "b1\<lparr>pucData := Some (take (uiLength b1) d @ xs @ drop (uiLength b1 + length xs) d),
                  uiLength := uiLength b1 + length xs\<rparr>"
    have "add32 (uiLength b1) (length xs) = uiLength b1 + length xs"
      using room wf1 by (auto simp: buf_wf_def wrap_simps)
    then have "AppendViciBuffer heap b (Some xs) (length xs) = Some (IPSEC_OK, ?b2)"
      using True r d room by (simp add: AppendViciBuffer_def mem_simps)
    moreover have "buf_content ?b2 = buf_content b1 @ xs" "buf_wf ?b2"
      using d room wf1 by (cases xs; auto simp: buf_content_def buf_wf_def min_def)+
    then have "append_post b xs IPSEC_OK ?b2"
      using post by (auto simp: append_post_def reserve_post_def secret_safe_def)
    ultimately show ?thesis by blast
  qed
qed

text \<open>With an allocator that never fails the size limit is the only reason to refuse.\<close>

definition heap_total :: "heap \<Rightarrow> bool" where
  "heap_total heap \<longleftrightarrow> (\<forall>n. heap n \<noteq> None)"

lemma heap_total_malloc: "heap_total heap \<Longrightarrow> \<exists>d. c_malloc heap n = Some d"
  by (auto simp: heap_total_def c_malloc_def)

lemma heap_total_realloc: "heap_total heap \<Longrightarrow> \<exists>d. c_realloc heap old n = Some d"
  using heap_total_malloc [of heap n] by (auto simp: c_realloc_def split: option.splits)

lemma move_block_OK:
  assumes wf: "buf_wf b" and heap: "heap_total heap" and c: "uiLength b \<le> c"
  shows "\<exists>b'. move_block heap b c = Some (IPSEC_OK, b')"
proof -
  obtain m where m: "c_malloc heap c = Some m" "length m = c"
    using heap_total_malloc [OF heap] c_malloc_length by blast
  obtain r where "c_realloc heap (pucData b) c = Some r"
    using heap_total_realloc [OF heap] by blast
  with m wf c show ?thesis
    by (auto simp: move_block_def buf_wf_def SecureZeroIpsec_def mem_simps split: option.splits)
qed

lemma Reserve_OK:
  assumes wf: "buf_wf b" and heap: "heap_total heap"
    and fits: "uiLength b + n \<le> VICI_MAX_SEGMENT_LENGTH"
  shows "\<exists>b'. ReserveViciBuffer heap b n = Some (IPSEC_OK, b')"
proof -
  let ?c0 = "if uiCapacity b = 0 then 64 else uiCapacity b"
  have "uiLength b \<le> grow_capacity ?c0 (uiLength b + n)"
    using grow_capacity_bounds [of ?c0 "uiLength b + n"] wf fits by (auto simp: buf_wf_def)
  from move_block_OK [OF wf heap this] fits show ?thesis
    by (auto simp: ReserveViciBuffer_def Let_def wrap_simps)
qed

lemma Append_OK:
  assumes wf: "buf_wf b" and heap: "heap_total heap"
    and fits: "uiLength b + length xs \<le> VICI_MAX_SEGMENT_LENGTH"
  shows "\<exists>b'. AppendViciBuffer heap b (Some xs) (length xs) = Some (IPSEC_OK, b')"
proof -
  obtain b1 where b1: "ReserveViciBuffer heap b (length xs) = Some (IPSEC_OK, b1)"
    using Reserve_OK [OF wf heap fits] by blast
  obtain e b2 where r: "AppendViciBuffer heap b (Some xs) (length xs) = Some (e, b2)"
    using Append_total [OF wf] by blast
  with b1 have "e = IPSEC_OK"
    by (auto simp: AppendViciBuffer_def bind_eq_Some_conv split: if_splits option.splits)
  with r show ?thesis by blast
qed

end
