(* ===== verification/Vici_Wire.thy ===== *)
theory Vici_Wire
  imports Vici_Packet
begin

text \<open>
  The VICI writers seen as clients of a byte sink: every writer of \<open>vici_packet.c\<close> emits the parts
  of one wire element in order. The interpretations below discharge the sink contract for
  \<open>AppendViciBuffer\<close>, once for any well-formed buffer and once for buffers that hold secrets; the
  properties of the writers, of the life cycle of a sensitive message and of the packet builder and
  decoder rest on their facts.
\<close>

abbreviation vici_emit :: "heap \<Rightarrow> ViciBuffer \<Rightarrow> bytes \<Rightarrow> buffer_result" where
  "vici_emit heap b xs \<equiv> AppendViciBuffer heap b (Some xs) (length xs)"

definition secret_inv :: "ViciBuffer \<Rightarrow> bool" where
  "secret_inv b \<longleftrightarrow> buf_wf b \<and> bSensitive b \<and> blank (released b)"

interpretation vb: byte_sink "\<lambda>b xs. AppendViciBuffer heap b (Some xs) (length xs)" buf_content buf_wf
  for heap
proof unfold_locales
  fix b :: ViciBuffer and xs :: bytes
  assume "buf_wf b"
  then show "\<exists>e b'. AppendViciBuffer heap b (Some xs) (length xs) = Some (e, b') \<and> buf_wf b'
      \<and> buf_content b' = buf_content b @ (if e = IPSEC_OK then xs else [])"
    using Append_total [of b heap xs] by (auto simp: append_post_def)
qed

interpretation sb: byte_sink "\<lambda>b xs. AppendViciBuffer heap b (Some xs) (length xs)" buf_content secret_inv
  for heap
proof unfold_locales
  fix b :: ViciBuffer and xs :: bytes
  assume "secret_inv b"
  then show "\<exists>e b'. AppendViciBuffer heap b (Some xs) (length xs) = Some (e, b') \<and> secret_inv b'
      \<and> buf_content b' = buf_content b @ (if e = IPSEC_OK then xs else [])"
    using Append_total [of b heap xs] by (auto simp: append_post_def secret_inv_def secret_safe_def)
qed

definition total_heap_inv :: "heap \<Rightarrow> ViciBuffer \<Rightarrow> bool" where
  "total_heap_inv heap b \<longleftrightarrow> buf_wf b \<and> heap_total heap"

interpretation tb: bounded_sink "\<lambda>b xs. AppendViciBuffer heap b (Some xs) (length xs)" buf_content
  "total_heap_inv heap" VICI_MAX_SEGMENT_LENGTH
  for heap
proof unfold_locales
  fix b :: ViciBuffer and xs :: bytes
  assume inv: "total_heap_inv heap b"
  then show "\<exists>e b'. AppendViciBuffer heap b (Some xs) (length xs) = Some (e, b') \<and> total_heap_inv heap b'
      \<and> buf_content b' = buf_content b @ (if e = IPSEC_OK then xs else [])"
    using Append_total [of b heap xs] by (auto simp: append_post_def total_heap_inv_def)
  assume "length (buf_content b) + length xs \<le> VICI_MAX_SEGMENT_LENGTH"
  with inv show "\<exists>b'. AppendViciBuffer heap b (Some xs) (length xs) = Some (IPSEC_OK, b')"
    using Append_OK [of b heap xs] by (simp add: total_heap_inv_def buf_content_length)
qed

section \<open>Wire elements\<close>

datatype vici_elem =
    SectionStart bytes
  | SectionEnd
  | KeyValue bytes bytes
  | ListStart bytes
  | ListItem bytes
  | ListEnd

definition name_ok :: "bytes \<Rightarrow> bool" where
  "name_ok n \<longleftrightarrow> n \<noteq> [] \<and> length n \<le> UINT8_MAX"

definition value_ok :: "bytes \<Rightarrow> bool" where
  "value_ok v \<longleftrightarrow> length v \<le> UINT16_MAX"

fun elem_ok :: "vici_elem \<Rightarrow> bool" where
  "elem_ok (SectionStart n) = name_ok n"
| "elem_ok SectionEnd = True"
| "elem_ok (KeyValue n v) = (name_ok n \<and> value_ok v)"
| "elem_ok (ListStart n) = name_ok n"
| "elem_ok (ListItem v) = value_ok v"
| "elem_ok ListEnd = True"

fun elem_name :: "vici_elem \<Rightarrow> bytes" where
  "elem_name (SectionStart n) = n"
| "elem_name (KeyValue n v) = n"
| "elem_name (ListStart n) = n"
| "elem_name _ = []"

text \<open>A name that is passed as a C string: it has no NUL byte inside.\<close>

definition elem_c_name :: "vici_elem \<Rightarrow> bool" where
  "elem_c_name el \<longleftrightarrow> 0 \<notin> set (elem_name el)"

definition name_parts :: "bytes \<Rightarrow> bytes list" where
  "name_parts n = [[of_nat (length n)], n]"

definition value_parts :: "bytes \<Rightarrow> bytes list" where
  "value_parts v = [be16 (length v), v]"

fun elem_parts :: "vici_elem \<Rightarrow> bytes list" where
  "elem_parts (SectionStart n) = [VICI_ELEMENT_SECTION_START] # name_parts n"
| "elem_parts SectionEnd = [[VICI_ELEMENT_SECTION_END]]"
| "elem_parts (KeyValue n v) = [VICI_ELEMENT_KEY_VALUE] # name_parts n @ value_parts v"
| "elem_parts (ListStart n) = [VICI_ELEMENT_LIST_START] # name_parts n"
| "elem_parts (ListItem v) = [VICI_ELEMENT_LIST_ITEM] # value_parts v"
| "elem_parts ListEnd = [[VICI_ELEMENT_LIST_END]]"

definition elem_bytes :: "vici_elem \<Rightarrow> bytes" where
  "elem_bytes el = concat (elem_parts el)"

text \<open>The writer of the library that is called for an element.\<close>

fun add_element :: "heap \<Rightarrow> ViciBuffer \<Rightarrow> vici_elem \<Rightarrow> buffer_result" where
  "add_element heap b (SectionStart n) = AddViciSectionStart heap b (Some n)"
| "add_element heap b SectionEnd = AddViciSectionEnd heap b"
| "add_element heap b (KeyValue n v) = AddViciKeyValue heap b (Some n) (Some v) (length v)"
| "add_element heap b (ListStart n) = AddViciListStart heap b (Some n)"
| "add_element heap b (ListItem v) = AddViciListItem heap b (Some v) (length v)"
| "add_element heap b ListEnd = AddViciListEnd heap b"

fun add_elements :: "heap \<Rightarrow> ViciBuffer \<Rightarrow> vici_elem list \<Rightarrow> buffer_result" where
  "add_elements heap b [] = Some (IPSEC_OK, b)"
| "add_elements heap b (el # els) = then_ok (add_element heap b el) (\<lambda>b. add_elements heap b els)"

lemma AppendViciByte_emit: "AppendViciByte heap b v = vici_emit heap b [v]"
  by (simp add: AppendViciByte_def)

lemma AppendViciName_parts:
  "name_ok n \<Longrightarrow> 0 \<notin> set n \<Longrightarrow>
   AppendViciName heap b (Some n) = emit_all (vici_emit heap) b (name_parts n)"
  by (auto simp: AppendViciName_def name_ok_def strnlen_def name_parts_def AppendViciByte_emit
      Let_def then_ok_def split: option.splits)

lemma AppendViciName_invalid:
  "\<not> name_ok (cstr n) \<Longrightarrow> AppendViciName heap b (Some n) = Some (IPSEC_ERR_INVALID_ARGUMENT, b)"
  by (auto simp: AppendViciName_def name_ok_def strnlen_def strlen_def Let_def)

lemmas writer_defs = AddViciSectionStart_def AddViciSectionEnd_def AddViciKeyValue_def
  AddViciListStart_def AddViciListItem_def AddViciListEnd_def

lemma emit_value_parts:
  "then_ok (vici_emit heap b (be16 (length v))) (\<lambda>b. vici_emit heap b v)
     = emit_all (vici_emit heap) b (value_parts v)"
  by (auto simp: value_parts_def then_ok_def split: option.splits)

lemma be16_emit: "AppendViciBuffer heap b (Some (be16 n)) 2 = vici_emit heap b (be16 n)"
  by simp

lemma add_element_parts:
  assumes "elem_ok el" and "elem_c_name el"
  shows "add_element heap b el = emit_all (vici_emit heap) b (elem_parts el)"
proof (cases el)
  case (KeyValue n v)
  with assms have ok: "name_ok n" "value_ok v" "0 \<notin> set n"
    by (auto simp: elem_c_name_def)
  then show ?thesis
    using KeyValue
    by (simp add: writer_defs AppendViciByte_emit AppendViciName_parts value_ok_def be16_emit emit_all_append
        then_ok_assoc emit_value_parts del: length_be16)
next
  case (ListItem v)
  with assms show ?thesis
    by (simp add: writer_defs AppendViciByte_emit value_ok_def be16_emit emit_value_parts then_ok_assoc del: length_be16)
qed (use assms in \<open>simp_all add: writer_defs AppendViciByte_emit AppendViciName_parts elem_c_name_def emit_all_single\<close>)

lemma add_elements_parts:
  assumes "\<forall>el \<in> set els. elem_ok el \<and> elem_c_name el"
  shows "add_elements heap b els = emit_all (vici_emit heap) b (concat (map elem_parts els))"
  using assms
  by (induction els arbitrary: b) (simp_all add: add_element_parts emit_all_append)

lemma concat_elem_parts: "concat (concat (map elem_parts els)) = concat (map elem_bytes els)"
  by (induction els) (simp_all add: elem_bytes_def)

section \<open>Buffers of secrets\<close>

lemma AppendViciName_emits:
  "AppendViciName heap b (Some n) =
     (if name_ok (cstr n) then emit_all (vici_emit heap) b (name_parts (cstr n))
      else Some (IPSEC_ERR_INVALID_ARGUMENT, b))"
proof (cases "name_ok (cstr n)")
  case False
  then show ?thesis by (simp add: AppendViciName_invalid)
next
  case True
  then have len: "strnlen n (UINT8_MAX + 1) = length (cstr n)" "0 < length (cstr n)" "length (cstr n) \<le> UINT8_MAX"
    by (auto simp: name_ok_def strnlen_def strlen_def)
  have "AppendViciBuffer heap b' (Some n) (length (cstr n)) = vici_emit heap b' (cstr n)" for b'
    using Append_take [of "length (cstr n)" n heap b'] strlen_le [of n] take_strlen [of n]
    by (simp add: strlen_def)
  with len True show ?thesis
    by (simp add: AppendViciName_def Let_def AppendViciByte_emit name_parts_def)
qed

lemma AppendViciName_inv:
  assumes "secret_inv b"
  shows "\<exists>e b'. AppendViciName heap b (Some n) = Some (e, b') \<and> secret_inv b'"
  using assms sb.emit_all_inv [OF assms] by (simp add: AppendViciName_emits)

lemma then_ok_inv:
  assumes "\<exists>e b'. r = Some (e, b') \<and> P b'" and "\<And>b. P b \<Longrightarrow> \<exists>e b'. f b = Some (e, b') \<and> P b'"
  shows "\<exists>e b'. then_ok r f = Some (e, b') \<and> P b'"
  using assms by (auto simp: then_ok_def)

lemma emit_inv: "secret_inv b \<Longrightarrow> \<exists>e b'. vici_emit heap b xs = Some (e, b') \<and> secret_inv b'"
  using sb.emit_law [of b heap xs] by blast

lemma byte_inv: "secret_inv b \<Longrightarrow> \<exists>e b'. AppendViciByte heap b v = Some (e, b') \<and> secret_inv b'"
  unfolding AppendViciByte_emit by (rule emit_inv)

lemma half_inv:
  "secret_inv b \<Longrightarrow> \<exists>e b'. AppendViciBuffer heap b (Some (be16 n)) 2 = Some (e, b') \<and> secret_inv b'"
  unfolding be16_emit by (rule emit_inv)

lemma add_element_inv:
  assumes "secret_inv b"
  shows "\<exists>e b'. add_element heap b el = Some (e, b') \<and> secret_inv b'"
  using assms
  by (cases el) (auto simp: writer_defs
      intro!: then_ok_inv emit_inv byte_inv half_inv AppendViciName_inv)

lemma add_elements_inv:
  "secret_inv b \<Longrightarrow> \<exists>e b'. add_elements heap b els = Some (e, b') \<and> secret_inv b'"
proof (induction els arbitrary: b)
  case (Cons el els)
  show ?case
    by (simp, rule then_ok_inv [OF add_element_inv [OF Cons.prems] Cons.IH])
qed simp

lemma Initialize_inv:
  assumes "blank (released b)" and "InitializeViciBuffer heap b n True = Some (IPSEC_OK, b0)"
  shows "secret_inv b0" and "buf_content b0 = []"
proof -
  let ?b = "empty_ViciBuffer\<lparr>bSensitive := True, released := released b\<rparr>"
  have wf: "buf_wf ?b" "buf_content ?b = []" "secret_safe ?b"
    using assms(1) by (simp_all add: buf_wf_def buf_content_def empty_ViciBuffer_def secret_safe_def)
  have "ReserveViciBuffer heap ?b n = Some (IPSEC_OK, b0)"
    using assms(2) by (auto simp: InitializeViciBuffer_def split: if_splits)
  with Reserve_total [OF wf(1), of heap n] have "reserve_post ?b n IPSEC_OK b0"
    by auto
  with wf show "secret_inv b0" "buf_content b0 = []"
    by (auto simp: reserve_post_def secret_inv_def secret_safe_def)
qed

lemma Destroy_inv:
  assumes "secret_inv b"
  shows "\<exists>b'. DestroyViciBuffer b = Some b' \<and> blank (released b') \<and> pucData b' = None"
  using assms
  by (auto simp: DestroyViciBuffer_def secret_inv_def buf_wf_def SecureZeroIpsec_def mem_simps
      empty_ViciBuffer_def split: option.splits)

text \<open>
  C5. The life of a message that carries a secret, from a successful \<open>InitializeViciBuffer\<close> with
  the sensitive flag through any sequence of writer calls, successful or refused, to
  \<open>DestroyViciBuffer\<close>: no call is undefined, nothing stays allocated, and every block that was
  handed back to the allocator on the way, by growing the buffer or by destroying it, contained
  only zero bytes at that moment.
\<close>

theorem sensitive_message_wiped:
  assumes "InitializeViciBuffer heap empty_ViciBuffer n True = Some (IPSEC_OK, b0)"
  shows "\<exists>e b1 b2. add_elements heap b0 els = Some (e, b1) \<and> DestroyViciBuffer b1 = Some b2
     \<and> pucData b2 = None \<and> (\<forall>blk \<in> set (released b2). \<forall>x \<in> set blk. x = 0)"
proof -
  have "secret_inv b0"
    by (rule Initialize_inv(1) [OF _ assms]) (simp add: empty_ViciBuffer_def)
  then obtain e b1 where b1: "add_elements heap b0 els = Some (e, b1)" "secret_inv b1"
    using add_elements_inv by blast
  then obtain b2 where "DestroyViciBuffer b1 = Some b2" "blank (released b2)" "pucData b2 = None"
    using Destroy_inv by blast
  with b1 show ?thesis
    by (auto simp: blank_def)
qed

theorem sensitive_message_wiped_witness:
  "\<exists>b0. InitializeViciBuffer (\<lambda>n. Some []) empty_ViciBuffer 0 True = Some (IPSEC_OK, b0) \<and>
     (\<exists>e b1 b2. add_elements (\<lambda>n. Some []) b0 [KeyValue [100] [7, 7]] = Some (e, b1)
        \<and> DestroyViciBuffer b1 = Some b2 \<and> pucData b2 = None
        \<and> (\<forall>blk \<in> set (released b2). \<forall>x \<in> set blk. x = 0))"
proof -
  have init: "InitializeViciBuffer (\<lambda>n. Some []) empty_ViciBuffer 0 True =
      Some (IPSEC_OK, empty_ViciBuffer\<lparr>bSensitive := True\<rparr>)"
    by (simp add: InitializeViciBuffer_def ReserveViciBuffer_def empty_ViciBuffer_def sub32_def add32_def)
  show ?thesis
    using init sensitive_message_wiped [OF init, of "[KeyValue [100] [7, 7]]"] by blast
qed

section \<open>Writers\<close>

text \<open>
  Writing a list of representable elements to a well-formed buffer is defined for every
  allocator: what the buffer holds afterwards is its old contents followed by a prefix of the wire
  encoding of the elements, and by exactly that encoding when every call reported success.
\<close>

theorem add_elements_wire:
  assumes "buf_wf b" and "\<forall>el \<in> set els. elem_ok el \<and> elem_c_name el"
  shows "\<exists>e b'. add_elements heap b els = Some (e, b') \<and> buf_wf b'
     \<and> prefix (buf_content b') (buf_content b @ concat (map elem_bytes els))
     \<and> (e = IPSEC_OK \<longrightarrow> buf_content b' = buf_content b @ concat (map elem_bytes els))"
proof -
  let ?parts = "concat (map elem_parts els)"
  obtain e b' where r: "emit_all (vici_emit heap) b ?parts = Some (e, b')"
    using vb.emit_all_total [OF assms(1)] by blast
  with vb.emit_all_sound [OF assms(1) r] assms(2) show ?thesis
    by (auto simp: add_elements_parts concat_elem_parts)
qed

theorem add_elements_wire_witness:
  "\<exists>e b'. add_elements (\<lambda>n. Some []) empty_ViciBuffer [SectionStart [97], SectionEnd] = Some (e, b')
     \<and> buf_wf b' \<and> prefix (buf_content b') (buf_content empty_ViciBuffer @
            concat (map elem_bytes [SectionStart [97], SectionEnd]))
     \<and> (e = IPSEC_OK \<longrightarrow> buf_content b' = buf_content empty_ViciBuffer @
            concat (map elem_bytes [SectionStart [97], SectionEnd]))"
  by (rule add_elements_wire) (simp_all add: elem_c_name_def name_ok_def)

end
