(* ===== verification/Vici_Frame.thy ===== *)
theory Vici_Frame
  imports Vici_Wire
begin

text \<open>
  Named packets: what \<open>BuildViciNamedPacket\<close> puts in its output buffer, what \<open>DecodeViciPacket\<close>
  accepts, and the round trip between the two.
\<close>

definition message_bytes :: "ViciBuffer option \<Rightarrow> bytes" where
  "message_bytes pMessage = (case pMessage of None \<Rightarrow> [] | Some m \<Rightarrow> buf_content m)"

definition message_wf :: "ViciBuffer option \<Rightarrow> bool" where
  "message_wf pMessage \<longleftrightarrow> (case pMessage of None \<Rightarrow> True | Some m \<Rightarrow> buf_wf m)"

definition packet_bytes :: "ViciPacketType \<Rightarrow> bytes \<Rightarrow> bytes \<Rightarrow> bytes" where
  "packet_bytes t name m = packet_type_code t # of_nat (length name) # name @ m"

lemma Append_message:
  assumes "buf_wf m"
  shows "AppendViciBuffer heap b (pucData m) (uiLength m) = vici_emit heap b (buf_content m)"
proof (cases "pucData m")
  case None
  with assms have "uiLength m = 0" by (simp add: buf_wf_def)
  with None show ?thesis
    by (simp add: buf_content_def Append_null)
next
  case (Some d)
  with assms have "uiLength m \<le> length d" by (simp add: buf_wf_def)
  with Some assms show ?thesis
    using Append_take [of "uiLength m" d heap b] buf_content_length [OF assms]
    by (simp add: buf_content_def)
qed

definition packet_parts :: "ViciPacketType \<Rightarrow> bytes \<Rightarrow> ViciBuffer option \<Rightarrow> bytes list" where
  "packet_parts t name pMessage = [packet_type_code t] # name_parts name
      @ (case pMessage of None \<Rightarrow> [] | Some m \<Rightarrow> [buf_content m])"

lemma concat_packet_parts: "concat (packet_parts t name pMessage) = packet_bytes t name (message_bytes pMessage)"
  by (simp add: packet_parts_def name_parts_def packet_bytes_def message_bytes_def split: option.splits)

lemma Build_parts:
  assumes "name_ok name" and "0 \<notin> set name" and "message_wf pMessage"
  shows "then_ok (then_ok (then_ok r (\<lambda>b. AppendViciByte heap b (packet_type_code t)))
            (\<lambda>b. AppendViciName heap b (Some name)))
            (\<lambda>b. case pMessage of None \<Rightarrow> Some (IPSEC_OK, b)
                 | Some m \<Rightarrow> AppendViciBuffer heap b (pucData m) (uiLength m))
       = then_ok r (\<lambda>b. emit_all (vici_emit heap) b (packet_parts t name pMessage))"
  using assms
  by (cases pMessage) (simp_all add: then_ok_assoc packet_parts_def AppendViciByte_emit
      AppendViciName_parts message_wf_def Append_message emit_all_append emit_all_single)

lemma Initialize_wf:
  assumes "InitializeViciBuffer heap b 64 sensitive = Some (IPSEC_OK, b0)"
  shows "buf_wf b0 \<and> buf_content b0 = [] \<and> bSensitive b0 = sensitive"
proof -
  let ?b = "empty_ViciBuffer\<lparr>bSensitive := sensitive, released := released b\<rparr>"
  have wf: "buf_wf ?b" "buf_content ?b = []"
    by (simp_all add: buf_wf_def buf_content_def empty_ViciBuffer_def)
  have "ReserveViciBuffer heap ?b 64 = Some (IPSEC_OK, b0)"
    using assms by (auto simp: InitializeViciBuffer_def)
  with Reserve_total [OF wf(1), of heap 64] wf(2) show ?thesis
    by (auto simp: reserve_post_def)
qed

lemma Build_OK:
  assumes name: "name_ok name" "0 \<notin> set name" and msg: "message_wf pMessage"
    and build: "BuildViciNamedPacket heap t (Some name) pMessage b = Some (IPSEC_OK, p)"
  shows "buf_wf p \<and> buf_content p = packet_bytes t name (message_bytes pMessage)"
proof -
  let ?s = "case pMessage of None \<Rightarrow> False | Some m \<Rightarrow> bSensitive m"
  obtain b0 where b0: "InitializeViciBuffer heap b 64 ?s = Some (IPSEC_OK, b0)"
    and p: "emit_all (vici_emit heap) b0 (packet_parts t name pMessage) = Some (IPSEC_OK, p)"
    using build
    by (auto simp: BuildViciNamedPacket_def Build_parts [OF name msg] Let_def then_ok_eq_Some
        split: option.splits if_splits)
  have "buf_wf b0" "buf_content b0 = []"
    using Initialize_wf [OF b0] by auto
  then show ?thesis
    using vb.emit_all_sound(1) [OF _ p] vb.emit_all_sound(4) [OF _ p] by (simp add: concat_packet_parts)
qed

section \<open>Decoding\<close>

lemma packet_type_of_code [simp]: "packet_type_of (packet_type_code t) = t"
  by (cases t) (simp_all add: packet_type_of_def)

lemma packet_type_code_le [simp]: "\<not> 7 < packet_type_code t"
  by (cases t) simp_all

lemma code_of_packet_type: "\<not> packet_type_code VICI_PACKET_EVENT < c \<Longrightarrow> packet_type_code (packet_type_of c) = c"
proof -
  assume "\<not> packet_type_code VICI_PACKET_EVENT < c"
  then have "unat c \<le> 7" by (simp add: word_less_nat_alt not_less)
  then have "unat c \<in> {0, 1, 2, 3, 4, 5, 6, 7}" by auto
  then have "c \<in> {0, 1, 2, 3, 4, 5, 6, 7}"
    using imageI [of "unat c" "{0, 1, 2, 3, 4, 5, 6, 7}" "of_nat :: nat \<Rightarrow> u8"] by simp
  then show ?thesis by (auto simp: packet_type_of_def)
qed

text \<open>The framing that a packet view stands for: type byte, then for named types the length byte and the name, then the message.\<close>

definition view_bytes :: "ViciPacketView \<Rightarrow> bytes" where
  "view_bytes v = packet_type_code (vw_eType v) #
     (case vw_pucName v of None \<Rightarrow> [] | Some n \<Rightarrow> of_nat (length n) # n) @ vw_pucMessage v"

definition view_wf :: "ViciPacketView \<Rightarrow> bool" where
  "view_wf v \<longleftrightarrow> (case vw_pucName v of None \<Rightarrow> \<not> packet_named (vw_eType v)
                   | Some n \<Rightarrow> packet_named (vw_eType v) \<and> name_ok n)
     \<and> (packet_bodyless (vw_eType v) \<longrightarrow> vw_pucMessage v = [])"

lemma Decode_unnamed:
  assumes "1 \<le> unat len" "unat len \<le> length p" and c: "p ! 0 = c"
    and "\<not> packet_type_code VICI_PACKET_EVENT < c" and "\<not> packet_named (packet_type_of c)"
  shows "DecodeViciPacket (Some p) len =
     (if packet_bodyless (packet_type_of c) \<and> unat len \<noteq> 1 then Some (Inl IPSEC_ERR_VICI_PROTOCOL)
      else Some (Inr \<lparr>vw_eType = packet_type_of c, vw_pucName = None,
                      vw_pucMessage = take (unat len - 1) (drop 1 p)\<rparr>))"
proof -
  have "sub32 (unat len) 1 = unat len - 1"
    by (rule sub32_exact) (rule assms)
  moreover have "0 < length p"
    using assms by linarith
  ultimately show ?thesis using assms
    by (simp add: DecodeViciPacket_def rd_def rd_bytes_def Let_def)
qed

lemma Decode_named:
  assumes "1 \<le> unat len" "unat len \<le> length p" and c: "p ! 0 = c"
    and "\<not> packet_type_code VICI_PACKET_EVENT < c" and "packet_named (packet_type_of c)"
  shows "DecodeViciPacket (Some p) len =
     (if unat len \<le> 1 \<or> p ! 1 = 0 \<or> unat (p ! 1) > unat len - 2
         \<or> packet_bodyless (packet_type_of c) \<and> unat len \<noteq> 2 + unat (p ! 1)
      then Some (Inl IPSEC_ERR_VICI_PROTOCOL)
      else Some (Inr \<lparr>vw_eType = packet_type_of c, vw_pucName = Some (take (unat (p ! 1)) (drop 2 p)),
                      vw_pucMessage = take (unat len - (2 + unat (p ! 1))) (drop (2 + unat (p ! 1)) p)\<rparr>))"
proof (cases "unat len \<le> 1")
  case True
  moreover have "0 < length p" using assms by linarith
  ultimately show ?thesis using assms by (simp add: DecodeViciPacket_def rd_def Let_def)
next
  case False
  then have len: "sub32 (unat len) 2 = unat len - 2" and "1 < length p"
    using assms by (simp_all add: wrap_simps)
  have add: "add32 2 (unat (p ! 1)) = 2 + unat (p ! 1)"
    using u8_bound [of "p ! 1"] by (simp add: wrap_simps)
  show ?thesis
  proof (cases "p ! 1 = 0 \<or> unat (p ! 1) > unat len - 2")
    case True
    with False assms len \<open>1 < length p\<close> show ?thesis
      by (auto simp: DecodeViciPacket_def rd_def Let_def)
  next
    case bounded: False
    then have fits: "2 + unat (p ! 1) \<le> unat len"
      using False by arith
    then have "sub32 (unat len) (2 + unat (p ! 1)) = unat len - (2 + unat (p ! 1))"
      by (rule sub32_exact)
    moreover have "rd p 0 = Some c" "rd p 1 = Some (p ! 1)"
      "rd_bytes p 2 (unat (p ! 1)) = Some (take (unat (p ! 1)) (drop 2 p))"
      "rd_bytes p (2 + unat (p ! 1)) (unat len - (2 + unat (p ! 1)))
         = Some (take (unat len - (2 + unat (p ! 1))) (drop (2 + unat (p ! 1)) p))"
      using fits assms \<open>1 < length p\<close> by (auto simp: rd_def rd_bytes_def)
    moreover have "unat len - (2 + unat (p ! 1)) \<noteq> 0 \<longleftrightarrow> unat len \<noteq> 2 + unat (p ! 1)"
      using fits by linarith
    ultimately show ?thesis
      using False bounded assms len add
      by (simp add: DecodeViciPacket_def Let_def del: One_nat_def) (use fits in auto)
  qed
qed

lemma named_view_exact:
  assumes "1 \<le> unat len" and len: "unat len \<le> length p"
    and c: "\<not> packet_type_code VICI_PACKET_EVENT < p ! 0" "packet_named (packet_type_of (p ! 0))"
    and ok: "\<not> unat len \<le> 1" "p ! 1 \<noteq> 0" "\<not> unat (p ! 1) > unat len - 2"
  defines "v \<equiv> \<lparr>vw_eType = packet_type_of (p ! 0), vw_pucName = Some (take (unat (p ! 1)) (drop 2 p)),
             vw_pucMessage = take (unat len - (2 + unat (p ! 1))) (drop (2 + unat (p ! 1)) p)\<rparr>"
  shows "view_bytes v = take (unat len) p"
    and "packet_bodyless (packet_type_of (p ! 0)) \<longrightarrow> unat len = 2 + unat (p ! 1) \<Longrightarrow> view_wf v"
proof -
  obtain c0 c1 q where p: "p = c0 # c1 # q"
    using len ok by (cases p; cases "tl p"; force)
  let ?k = "unat c1"
  have fits: "?k \<le> unat len - 2" "?k \<le> length q" "0 < ?k" "?k \<le> 255"
    using ok len p by (auto simp: unat_gt_0)
  have split: "take (unat len) p = c0 # c1 # take (unat len - 2) q"
    using ok p by (cases "unat len"; cases "unat len - 1"; auto)
  have "take (unat len - 2) q = take ?k q @ take (unat len - (2 + ?k)) (drop ?k q)"
    using fits take_add [of ?k "unat len - (2 + ?k)" q] by simp
  with split show "view_bytes v = take (unat len) p"
    using c fits p by (simp add: v_def view_bytes_def code_of_packet_type min_def)
  show "packet_bodyless (packet_type_of (p ! 0)) \<longrightarrow> unat len = 2 + unat (p ! 1) \<Longrightarrow> view_wf v"
    using c fits p by (auto simp: v_def view_wf_def name_ok_def min_def)
qed

lemma decode_packet_bytes:
  assumes name: "name_ok name" and t: "packet_named t" "packet_bodyless t \<longrightarrow> m = []"
    and d: "d = packet_bytes t name m @ r"
    and n: "n = 2 + length name + length m" "n < 2 ^ 32"
  shows "DecodeViciPacket (Some d) (of_nat n) =
     Some (Inr \<lparr>vw_eType = t, vw_pucName = Some name, vw_pucMessage = m\<rparr>)"
proof -
  have len: "unat (of_nat n :: u32) = n"
    using n(2) by (simp add: unat_of_nat take_bit_nat_def)
  have nl: "unat (of_nat (length name) :: u8) = length name"
    using name by (simp add: name_ok_def unat_of_nat take_bit_nat_def)
  then have nz: "(of_nat (length name) :: u8) \<noteq> 0"
    using name by (auto simp: name_ok_def)
  have d01: "d ! 0 = packet_type_code t" "d ! 1 = of_nat (length name)"
    by (simp_all add: d packet_bytes_def)
  have parts: "take (length name) (drop 2 d) = name" "take (length m) (drop (2 + length name) d) = m"
    by (simp_all add: d packet_bytes_def)
  have rest: "n - (2 + length name) = length m" "1 \<le> n" "n \<le> length d" "\<not> n \<le> 1"
    "\<not> length name > n - 2"
    using n name by (auto simp: d packet_bytes_def name_ok_def)
  have "\<not> (packet_bodyless t \<and> n \<noteq> 2 + length name)"
    using t n by auto
  with Decode_named [of "of_nat n :: u32" d "packet_type_code t"] show ?thesis
    unfolding len d01 nl packet_type_of_code using rest nz t parts by simp
qed

lemma Decode_spec:
  assumes "unat len \<le> length p"
  shows "\<exists>r. DecodeViciPacket (Some p) len = Some r
     \<and> (\<forall>v. r = Inr v \<longrightarrow> view_wf v \<and> view_bytes v = take (unat len) p)"
proof -
  let ?c = "p ! 0"
  let ?t = "packet_type_of ?c"
  consider (empty) "unat len < 1" | (type) "1 \<le> unat len" "packet_type_code VICI_PACKET_EVENT < ?c"
    | (unnamed) "1 \<le> unat len" "\<not> packet_type_code VICI_PACKET_EVENT < ?c" "\<not> packet_named ?t"
    | (named) "1 \<le> unat len" "\<not> packet_type_code VICI_PACKET_EVENT < ?c" "packet_named ?t"
    by linarith
  then show ?thesis
  proof cases
    case empty
    then show ?thesis by (simp add: DecodeViciPacket_def)
  next
    case type
    moreover have "0 < length p" using type assms by linarith
    ultimately show ?thesis by (simp add: DecodeViciPacket_def rd_def)
  next
    case unnamed
    moreover from unnamed assms obtain q where q: "p = ?c # q" by (cases p) auto
    moreover have "drop 1 p = q" by (subst q) simp
    moreover have "take (unat len) p = ?c # take (unat len - 1) q"
      using unnamed by (subst q) (cases "unat len", auto)
    ultimately show ?thesis
      using assms code_of_packet_type [OF unnamed(2)]
      by (subst Decode_unnamed) (auto simp: view_wf_def view_bytes_def)
  next
    case named
    then show ?thesis
      using assms named_view_exact [OF named(1) assms named(2,3)] by (subst Decode_named) auto
  qed
qed

text \<open>
  C7. \<open>DecodeViciPacket\<close> never reads outside the received packet, and it is exact: whatever it
  accepts is, byte for byte, the framing of the returned view (type byte, length-prefixed nonempty
  name exactly for the four named types, message), and a packet type that carries no message is
  only accepted without one.
\<close>

theorem DecodeViciPacket_exact:
  assumes "unat len \<le> length p"
  shows "\<exists>r. DecodeViciPacket (Some p) len = Some r
     \<and> (\<forall>v. r = Inr v \<longrightarrow> view_wf v \<and> view_bytes v = take (unat len) p)"
  by (rule Decode_spec [OF assms])

theorem DecodeViciPacket_exact_witness:
  "unat (4 :: u32) \<le> length [7, 1, 97, 5 :: u8] \<and>
   (\<exists>r. DecodeViciPacket (Some [7, 1, 97, 5]) 4 = Some r
     \<and> (\<forall>v. r = Inr v \<longrightarrow> view_wf v \<and> view_bytes v = take (unat (4 :: u32)) [7, 1, 97, 5]))"
proof -
  have len: "unat (4 :: u32) \<le> length [7, 1, 97, 5 :: u8]" by simp
  show ?thesis using len DecodeViciPacket_exact [OF len] by blast
qed

lemma Build_decodes:
  assumes name: "name_ok name" "0 \<notin> set name" and msg: "message_wf pMessage"
    and t: "packet_named t" "packet_bodyless t \<longrightarrow> message_bytes pMessage = []"
    and build: "BuildViciNamedPacket heap t (Some name) pMessage b = Some (IPSEC_OK, p)"
  shows "DecodeViciPacket (pucData p) (of_nat (uiLength p)) =
     Some (Inr \<lparr>vw_eType = t, vw_pucName = Some name, vw_pucMessage = message_bytes pMessage\<rparr>)"
proof -
  have wf: "buf_wf p" and content: "buf_content p = packet_bytes t name (message_bytes pMessage)"
    using Build_OK [OF name msg build] by auto
  then have len: "uiLength p = 2 + length name + length (message_bytes pMessage)"
    using buf_content_length [OF wf] by (simp add: packet_bytes_def)
  obtain d where d: "pucData p = Some d"
    using wf len by (auto simp: buf_wf_def split: option.splits)
  have "take (uiLength p) d = packet_bytes t name (message_bytes pMessage)"
    using content d by (simp add: buf_content_def)
  then have "d = packet_bytes t name (message_bytes pMessage) @ drop (uiLength p) d"
    by (metis append_take_drop_id)
  moreover have "uiLength p < 2 ^ 32"
    using wf by (auto simp: buf_wf_def)
  ultimately show ?thesis
    unfolding d by (intro decode_packet_bytes [OF name(1) t _ len])
qed

lemma Destroy_total: "buf_wf b \<Longrightarrow> \<exists>b'. DestroyViciBuffer b = Some b'"
  by (auto simp: DestroyViciBuffer_def buf_wf_def SecureZeroIpsec_def mem_simps split: option.splits)

lemma Initialize_total: "\<exists>e b0. InitializeViciBuffer heap b 64 s = Some (e, b0) \<and> buf_wf b0
   \<and> (heap_total heap \<longrightarrow> e = IPSEC_OK)"
proof -
  let ?b = "empty_ViciBuffer\<lparr>bSensitive := s, released := released b\<rparr>"
  have wf: "buf_wf ?b" by (simp add: buf_wf_def empty_ViciBuffer_def)
  have "heap_total heap \<Longrightarrow> \<exists>b0. ReserveViciBuffer heap ?b 64 = Some (IPSEC_OK, b0)"
    using Reserve_OK [OF wf] by (simp add: empty_ViciBuffer_def)
  with Reserve_total [OF wf, of heap 64] show ?thesis
    by (auto simp: InitializeViciBuffer_def reserve_post_def)
qed

lemma Build_total:
  assumes name: "name_ok name" "0 \<notin> set name" and msg: "message_wf pMessage"
  shows "\<exists>e p. BuildViciNamedPacket heap t (Some name) pMessage b = Some (e, p)
     \<and> (heap_total heap \<and> 2 + length name + length (message_bytes pMessage) \<le> VICI_MAX_SEGMENT_LENGTH
         \<longrightarrow> e = IPSEC_OK)"
proof -
  let ?s = "case pMessage of None \<Rightarrow> False | Some m \<Rightarrow> bSensitive m"
  let ?parts = "packet_parts t name pMessage"
  obtain e0 b0 where b0: "InitializeViciBuffer heap b 64 ?s = Some (e0, b0)" "buf_wf b0"
    and ok0: "heap_total heap \<longrightarrow> e0 = IPSEC_OK"
    using Initialize_total by blast
  obtain e1 b1 where b1: "emit_all (vici_emit heap) b0 ?parts = Some (e1, b1)" "buf_wf b1"
    using vb.emit_all_inv [OF b0(2)] by blast
  have ok1: "e1 = IPSEC_OK"
    if "heap_total heap" and fits: "2 + length name + length (message_bytes pMessage) \<le> VICI_MAX_SEGMENT_LENGTH"
  proof -
    have "buf_content b0 = []" using Initialize_wf b0(1) ok0 that by blast
    then show ?thesis
      using tb.emit_all_fits [of heap b0 ?parts] that b0(2) b1
      by (simp add: total_heap_inv_def concat_packet_parts packet_bytes_def)
  qed
  have "\<exists>d. DestroyViciBuffer b0 = Some d" "\<exists>d. DestroyViciBuffer b1 = Some d"
    using Destroy_total b0(2) b1(2) by blast+
  with b0 b1 ok0 ok1 show ?thesis
    by (cases "e0 = IPSEC_OK"; cases "e1 = IPSEC_OK")
      (auto simp: BuildViciNamedPacket_def Build_parts [OF name msg] Let_def)
qed

text \<open>
  C32. Building a named packet from a C-string name and a well-formed message is defined for every
  allocator; it succeeds when no allocation fails and the packet fits the segment limit; and a
  packet that was built decodes to the type, the name and the message it was built from. (Register
  and unregister packets carry no message.)
\<close>

theorem Build_Decode_roundtrip:
  assumes "name_ok name" and "0 \<notin> set name" and "message_wf pMessage"
    and "packet_named t" and "packet_bodyless t \<longrightarrow> message_bytes pMessage = []"
  shows "\<exists>e p. BuildViciNamedPacket heap t (Some name) pMessage b = Some (e, p)
     \<and> (heap_total heap \<and> 2 + length name + length (message_bytes pMessage) \<le> VICI_MAX_SEGMENT_LENGTH
         \<longrightarrow> e = IPSEC_OK)
     \<and> (e = IPSEC_OK \<longrightarrow> DecodeViciPacket (pucData p) (of_nat (uiLength p)) =
          Some (Inr \<lparr>vw_eType = t, vw_pucName = Some name, vw_pucMessage = message_bytes pMessage\<rparr>))"
  using Build_total [OF assms(1-3), of heap t b] Build_decodes [OF assms] by blast

theorem Build_Decode_roundtrip_witness:
  "\<exists>e p. BuildViciNamedPacket (\<lambda>n. Some []) VICI_PACKET_EVENT_REGISTER (Some [97, 98]) None
        empty_ViciBuffer = Some (e, p)
     \<and> e = IPSEC_OK \<and> DecodeViciPacket (pucData p) (of_nat (uiLength p)) =
          Some (Inr \<lparr>vw_eType = VICI_PACKET_EVENT_REGISTER, vw_pucName = Some [97, 98],
                     vw_pucMessage = []\<rparr>)"
proof -
  have hyps: "name_ok [97, 98]" "0 \<notin> set [97, 98 :: u8]" "message_wf None"
    "packet_named VICI_PACKET_EVENT_REGISTER"
    "packet_bodyless VICI_PACKET_EVENT_REGISTER \<longrightarrow> message_bytes None = []"
    by (simp_all add: name_ok_def message_wf_def packet_named_def message_bytes_def)
  show ?thesis
    using Build_Decode_roundtrip [OF hyps, of "\<lambda>n. Some []" empty_ViciBuffer]
    by (auto simp: heap_total_def message_bytes_def)
qed

end
