(* ===== verification/Vici_Parser.thy ===== *)
theory Vici_Parser
  imports Vici_Frame
begin

text \<open>
  The VICI message parser, \<open>src/ike/vici/vici_parser.c\<close>. The parser walks over the message with a
  32-bit offset, keeps the section depth and whether a list is open, and hands every element to the
  caller's callback; it stops at the first protocol error and at the first error of the callback.

  The callback is a function on a state of the caller; \<open>None\<close> stands for a NULL callback.
\<close>

definition VICI_MAX_SECTION_DEPTH :: nat where
  "VICI_MAX_SECTION_DEPTH = 32"

datatype ViciElementType =
    SECTION_START | SECTION_END | KEY_VALUE | LIST_START | LIST_ITEM | LIST_END

record ViciElement =
  el_eType :: ViciElementType
  el_pucName :: "bytes option"
  el_pucValue :: "bytes option"
  el_uiDepth :: nat

type_synonym 's callback = "ViciElement \<Rightarrow> 's \<Rightarrow> IpsecError \<times> 's"

definition ReadViciName :: "bytes \<Rightarrow> u32 \<Rightarrow> nat \<Rightarrow> ((bytes \<times> nat) result) option" where
  "ReadViciName msg uiMessageLength uiOffset =
     (if uiOffset \<ge> unat uiMessageLength then Some (Inl IPSEC_ERR_VICI_PROTOCOL)
      else do {
        ucLength \<leftarrow> rd msg uiOffset;
        let off = add32 uiOffset 1;
        if ucLength = 0 \<or> unat ucLength > sub32 (unat uiMessageLength) off
        then Some (Inl IPSEC_ERR_VICI_PROTOCOL)
        else do {
          name \<leftarrow> rd_bytes msg off (unat ucLength);
          Some (Inr (name, add32 off (unat ucLength)))
        }
      })"

definition ReadViciValue :: "bytes \<Rightarrow> u32 \<Rightarrow> nat \<Rightarrow> ((bytes \<times> nat) result) option" where
  "ReadViciValue msg uiMessageLength uiOffset =
     (if 2 > sub32 (unat uiMessageLength) uiOffset then Some (Inl IPSEC_ERR_VICI_PROTOCOL)
      else do {
        hi \<leftarrow> rd msg uiOffset;
        lo \<leftarrow> rd msg (uiOffset + 1);
        let off = add32 uiOffset 2;
        let usLength = de16 hi lo;
        if usLength > sub32 (unat uiMessageLength) off
        then Some (Inl IPSEC_ERR_VICI_PROTOCOL)
        else do {
          v \<leftarrow> rd_bytes msg off usLength;
          Some (Inr (v, add32 off usLength))
        }
      })"

text \<open>
  One round of the loop without the callback: the element read, the new offset, depth and list flag.
  Each branch is a case of the switch.
\<close>

type_synonym parse_state = "ViciElement \<times> nat \<times> nat \<times> bool"

definition parse_element ::
  "bytes \<Rightarrow> u32 \<Rightarrow> nat \<Rightarrow> nat \<Rightarrow> bool \<Rightarrow> (parse_state result) option" where
  "parse_element msg uiMessageLength uiOffset uiDepth bListOpen = do {
     code \<leftarrow> rd msg uiOffset;
     let off = add32 uiOffset 1;
     if code = VICI_ELEMENT_SECTION_START then
       (if bListOpen \<or> VICI_MAX_SECTION_DEPTH \<le> uiDepth then Some (Inl IPSEC_ERR_VICI_PROTOCOL)
        else do {
          r \<leftarrow> ReadViciName msg uiMessageLength off;
          (case r of Inl e \<Rightarrow> Some (Inl e)
           | Inr (name, off') \<Rightarrow>
               Some (Inr (\<lparr>el_eType = SECTION_START, el_pucName = Some name, el_pucValue = None,
                           el_uiDepth = uiDepth + 1\<rparr>, off', uiDepth + 1, bListOpen)))
        })
     else if code = VICI_ELEMENT_SECTION_END then
       (if bListOpen \<or> uiDepth = 0 then Some (Inl IPSEC_ERR_VICI_PROTOCOL)
        else Some (Inr (\<lparr>el_eType = SECTION_END, el_pucName = None, el_pucValue = None,
                         el_uiDepth = uiDepth\<rparr>, off, uiDepth - 1, bListOpen)))
     else if code = VICI_ELEMENT_KEY_VALUE then
       (if bListOpen then Some (Inl IPSEC_ERR_VICI_PROTOCOL)
        else do {
          r \<leftarrow> ReadViciName msg uiMessageLength off;
          (case r of Inl e \<Rightarrow> Some (Inl e)
           | Inr (name, off') \<Rightarrow> do {
               r' \<leftarrow> ReadViciValue msg uiMessageLength off';
               (case r' of Inl e \<Rightarrow> Some (Inl e)
                | Inr (v, off'') \<Rightarrow>
                    Some (Inr (\<lparr>el_eType = KEY_VALUE, el_pucName = Some name, el_pucValue = Some v,
                                el_uiDepth = uiDepth\<rparr>, off'', uiDepth, bListOpen)))
             })
        })
     else if code = VICI_ELEMENT_LIST_START then
       (if bListOpen then Some (Inl IPSEC_ERR_VICI_PROTOCOL)
        else do {
          r \<leftarrow> ReadViciName msg uiMessageLength off;
          (case r of Inl e \<Rightarrow> Some (Inl e)
           | Inr (name, off') \<Rightarrow>
               Some (Inr (\<lparr>el_eType = LIST_START, el_pucName = Some name, el_pucValue = None,
                           el_uiDepth = uiDepth\<rparr>, off', uiDepth, True)))
        })
     else if code = VICI_ELEMENT_LIST_ITEM then
       (if \<not> bListOpen then Some (Inl IPSEC_ERR_VICI_PROTOCOL)
        else do {
          r \<leftarrow> ReadViciValue msg uiMessageLength off;
          (case r of Inl e \<Rightarrow> Some (Inl e)
           | Inr (v, off') \<Rightarrow>
               Some (Inr (\<lparr>el_eType = LIST_ITEM, el_pucName = None, el_pucValue = Some v,
                           el_uiDepth = uiDepth\<rparr>, off', uiDepth, bListOpen)))
        })
     else if code = VICI_ELEMENT_LIST_END then
       (if \<not> bListOpen then Some (Inl IPSEC_ERR_VICI_PROTOCOL)
        else Some (Inr (\<lparr>el_eType = LIST_END, el_pucName = None, el_pucValue = None,
                         el_uiDepth = uiDepth\<rparr>, off, uiDepth, False)))
     else Some (Inl IPSEC_ERR_VICI_PROTOCOL)
   }"

definition run_callback :: "'s callback option \<Rightarrow> ViciElement \<Rightarrow> 's \<Rightarrow> IpsecError \<times> 's" where
  "run_callback pCallback el s = (case pCallback of None \<Rightarrow> (IPSEC_OK, s) | Some f \<Rightarrow> f el s)"

section \<open>Progress of one round\<close>

lemma ReadViciName_advances:
  "ReadViciName msg len off = Some (Inr (n, off')) \<Longrightarrow> off < off' \<and> off' \<le> unat len"
  using u32_bound [of len]
  by (auto simp: ReadViciName_def bind_eq_Some_conv Let_def wrap_simps split: if_splits)

lemma ReadViciValue_advances:
  assumes "off \<le> unat len" and "ReadViciValue msg len off = Some (Inr (v, off'))"
  shows "off < off' \<and> off' \<le> unat len"
  using assms u32_bound [of len]
  by (auto simp: ReadViciValue_def bind_eq_Some_conv Let_def wrap_simps split: if_splits)

lemma ReadViciValue_advances_from:
  assumes "off0 < off" and "off \<le> unat len" and "ReadViciValue msg len off = Some (Inr (v, off'))"
  shows "off0 < off' \<and> off' \<le> unat len"
  using ReadViciValue_advances [OF assms(2,3)] assms(1) by simp

lemma parse_element_advances:
  assumes lt: "off < unat len" and r: "parse_element msg len off d lo = Some (Inr (el, off', d', lo'))"
  shows "off < off' \<and> off' \<le> unat len"
proof -
  have off1: "add32 off 1 = Suc off" "add32 off (Suc 0) = Suc off"
    using lt u32_bound [of len] by (simp_all add: wrap_simps)
  have name: "off < o' \<and> o' \<le> unat len" if "ReadViciName msg len (Suc off) = Some (Inr (n, o'))" for n o'
    using ReadViciName_advances [OF that] by simp
  have val: "off < o' \<and> o' \<le> unat len"
    if "ReadViciValue msg len o1 = Some (Inr (v, o'))" "off < o1 \<and> o1 \<le> unat len" for o1 v o'
    using ReadViciValue_advances_from [of off o1 len msg v o'] that by simp
  obtain code where code: "rd msg off = Some code"
    using r by (auto simp: parse_element_def bind_eq_Some_conv)
  consider "code = VICI_ELEMENT_SECTION_START" | "code = VICI_ELEMENT_SECTION_END"
    | "code = VICI_ELEMENT_KEY_VALUE" | "code = VICI_ELEMENT_LIST_START"
    | "code = VICI_ELEMENT_LIST_ITEM" | "code = VICI_ELEMENT_LIST_END"
    using r code by (auto simp: parse_element_def Let_def split: if_splits)
  then show ?thesis
  proof cases
    case 3
    with r code obtain n o1 v where "ReadViciName msg len (Suc off) = Some (Inr (n, o1))"
      "ReadViciValue msg len o1 = Some (Inr (v, off'))"
      by (auto simp: parse_element_def vici_element_defs Let_def off1 bind_result_Inr
          split: if_splits)
    then show ?thesis using name val by blast
  next
    case 5
    with r code obtain v where "ReadViciValue msg len (Suc off) = Some (Inr (v, off'))"
      by (auto simp: parse_element_def vici_element_defs Let_def off1 bind_result_Inr
          split: if_splits)
    then show ?thesis using val [of "Suc off"] lt by simp
  qed (use r code lt name in \<open>auto simp: parse_element_def vici_element_defs Let_def off1
        bind_result_Inr split: if_splits\<close>)
qed

text \<open>The parser loop; it ends because every accepted element moves the offset forward.\<close>

function parse_loop ::
  "'s callback option \<Rightarrow> bytes \<Rightarrow> u32 \<Rightarrow> nat \<Rightarrow> nat \<Rightarrow> bool \<Rightarrow> 's \<Rightarrow> (IpsecError \<times> 's) option" where
  "parse_loop pCallback msg uiMessageLength uiOffset uiDepth bListOpen s =
     (if uiOffset < unat uiMessageLength then
        (case parse_element msg uiMessageLength uiOffset uiDepth bListOpen of
           None \<Rightarrow> None
         | Some (Inl e) \<Rightarrow> Some (e, s)
         | Some (Inr (el, off', d', lo')) \<Rightarrow>
             (case run_callback pCallback el s of
                (e, s') \<Rightarrow>
                  (if e = IPSEC_OK then parse_loop pCallback msg uiMessageLength off' d' lo' s'
                   else Some (e, s'))))
      else if bListOpen \<or> uiDepth \<noteq> 0 then Some (IPSEC_ERR_VICI_PROTOCOL, s)
      else Some (IPSEC_OK, s))"
  by pat_completeness auto
termination
  by (relation "measure (\<lambda>(cb, msg, len, off, d, lo, s). unat len - off)")
     (auto dest!: parse_element_advances)

declare parse_loop.simps [simp del]

definition ParseViciMessage ::
  "bytes option \<Rightarrow> u32 \<Rightarrow> 's callback option \<Rightarrow> 's \<Rightarrow> (IpsecError \<times> 's) option" where
  "ParseViciMessage pucMessage uiMessageLength pCallback s =
     (case pucMessage of
        None \<Rightarrow> (if uiMessageLength \<noteq> 0 then Some (IPSEC_ERR_INVALID_ARGUMENT, s)
                  else parse_loop pCallback [] uiMessageLength 0 0 False s)
      | Some msg \<Rightarrow> parse_loop pCallback msg uiMessageLength 0 0 False s)"

section \<open>The grammar of messages\<close>

text \<open>
  Reference readers on the unread rest of the message. They are the inverses of the encoders of
  \<open>vici_packet.c\<close>, and the readers of the parser compute them as long as the length argument does
  not exceed the message.
\<close>

definition take_name :: "bytes \<Rightarrow> (bytes \<times> bytes) option" where
  "take_name xs = (case xs of [] \<Rightarrow> None
     | l # r \<Rightarrow> if l = 0 \<or> unat l > length r then None else Some (take (unat l) r, drop (unat l) r))"

definition take_value :: "bytes \<Rightarrow> (bytes \<times> bytes) option" where
  "take_value xs = (case xs of h # l # r \<Rightarrow>
       if de16 h l > length r then None else Some (take (de16 h l) r, drop (de16 h l) r)
     | _ \<Rightarrow> None)"

lemma take_name_exact: "take_name xs = Some (n, r) \<longleftrightarrow> name_ok n \<and> xs = concat (name_parts n) @ r"
proof
  assume "take_name xs = Some (n, r)"
  then obtain l q where xs: "xs = l # q" "l \<noteq> 0" "unat l \<le> length q" "n = take (unat l) q" "r = drop (unat l) q"
    by (auto simp: take_name_def split: list.splits if_splits)
  moreover have "0 < unat l" using xs(2) by (simp add: unat_gt_0)
  ultimately show "name_ok n \<and> xs = concat (name_parts n) @ r"
    by (auto simp: name_ok_def name_parts_def min_def)
next
  assume ok: "name_ok n \<and> xs = concat (name_parts n) @ r"
  then have l: "unat (of_nat (length n) :: u8) = length n"
    by (simp add: name_ok_def unat_of_nat take_bit_nat_def)
  moreover from this ok have "(of_nat (length n) :: u8) \<noteq> 0"
    by (auto simp: name_ok_def)
  ultimately show "take_name xs = Some (n, r)"
    using ok by (simp add: take_name_def name_parts_def)
qed

lemma take_value_exact: "take_value xs = Some (v, r) \<longleftrightarrow> value_ok v \<and> xs = concat (value_parts v) @ r"
proof
  assume "take_value xs = Some (v, r)"
  then obtain h l q where xs: "xs = h # l # q" "de16 h l \<le> length q" "v = take (de16 h l) q" "r = drop (de16 h l) q"
    by (auto simp: take_value_def split: list.splits if_splits)
  then show "value_ok v \<and> xs = concat (value_parts v) @ r"
    using de16_bound [of h l] by (auto simp: value_ok_def value_parts_def min_def be16_de16)
next
  assume ok: "value_ok v \<and> xs = concat (value_parts v) @ r"
  then have "de16 (of_nat (length v div 256)) (of_nat (length v)) = length v"
    by (simp add: value_ok_def)
  then show "take_value xs = Some (v, r)"
    using ok by (simp add: take_value_def value_parts_def be16_def)
qed

definition window :: "bytes \<Rightarrow> u32 \<Rightarrow> nat \<Rightarrow> bytes" where
  "window msg len off = drop off (take (unat len) msg)"

lemma window_Suc:
  assumes "off < unat len" "unat len \<le> length msg"
  shows "window msg len off = msg ! off # window msg len (Suc off)"
proof -
  have "drop off (take (unat len) msg) = take (unat len) msg ! off # drop (Suc off) (take (unat len) msg)"
    using assms by (intro drop_eq_Cons) simp
  with assms show ?thesis by (simp add: window_def)
qed

lemma window_empty: "unat len \<le> off \<Longrightarrow> window msg len off = []"
  by (simp add: window_def)

lemma window_length: "unat len \<le> length msg \<Longrightarrow> length (window msg len off) = unat len - off"
  by (simp add: window_def)

lemma window_drop: "drop n (window msg len off) = window msg len (off + n)"
  by (simp add: window_def add.commute)

lemma window_take:
  "unat len \<le> length msg \<Longrightarrow> off + n \<le> unat len \<Longrightarrow> take n (drop off msg) = take n (window msg len off)"
  by (simp add: window_def drop_take min_def)

definition read_result :: "u32 \<Rightarrow> (bytes \<times> bytes) option \<Rightarrow> ((bytes \<times> nat) result) option" where
  "read_result len t = Some (case t of None \<Rightarrow> Inl IPSEC_ERR_VICI_PROTOCOL
     | Some (x, r) \<Rightarrow> Inr (x, unat len - length r))"

lemma ReadViciName_window:
  assumes "unat len \<le> length msg"
  shows "ReadViciName msg len off = read_result len (take_name (window msg len off))"
proof (cases "off < unat len")
  case False
  then show ?thesis
    by (simp add: ReadViciName_def window_empty take_name_def read_result_def)
next
  case True
  let ?l = "unat (msg ! off)"
  have off: "add32 off 1 = Suc off" "sub32 (unat len) (Suc off) = unat len - Suc off" "rd msg off = Some (msg ! off)"
    using True assms u32_bound [of len] by (simp_all add: wrap_simps mem_simps)
  show ?thesis
  proof (cases "msg ! off = 0 \<or> unat len - Suc off < ?l")
    case bad: True
    then show ?thesis
      using True assms off
      by (auto simp: ReadViciName_def window_Suc take_name_def read_result_def window_length Let_def)
  next
    case False
    then have fits: "Suc off + ?l \<le> unat len" using True by arith
    then have "add32 (Suc off) ?l = Suc off + ?l"
      using u32_bound [of len] by (simp add: wrap_simps)
    moreover have "rd_bytes msg (Suc off) ?l = Some (take ?l (window msg len (Suc off)))"
      using fits assms window_take [OF assms fits] by (simp add: rd_bytes_def)
    ultimately show ?thesis
      using False True assms off fits
      by (simp add: ReadViciName_def window_Suc take_name_def read_result_def window_length Let_def)
  qed
qed

lemma ReadViciValue_window:
  assumes "unat len \<le> length msg" and "off \<le> unat len"
  shows "ReadViciValue msg len off = read_result len (take_value (window msg len off))"
proof (cases "2 \<le> unat len - off")
  case False
  have "length (window msg len off) < 2"
    using False assms by (simp add: window_length)
  then have "take_value (window msg len off) = None"
    by (auto simp: take_value_def split: list.splits)
  with False assms show ?thesis
    by (simp add: ReadViciValue_def read_result_def wrap_simps)
next
  case True
  let ?l = "de16 (msg ! off) (msg ! (off + 1))"
  have off: "add32 off 2 = off + 2" "sub32 (unat len) off = unat len - off"
    "sub32 (unat len) (off + 2) = unat len - (off + 2)"
    "rd msg off = Some (msg ! off)" "rd msg (off + 1) = Some (msg ! (off + 1))"
    using True assms u32_bound [of len] by (simp_all add: wrap_simps mem_simps)
  have w: "window msg len off = msg ! off # msg ! (off + 1) # window msg len (off + 2)"
    using True assms by (simp add: window_Suc)
  show ?thesis
  proof (cases "unat len - (off + 2) < ?l")
    case bad: True
    then show ?thesis
      using True assms off w
      by (simp add: ReadViciValue_def take_value_def read_result_def window_length Let_def del: One_nat_def)
  next
    case False
    then have fits: "off + 2 + ?l \<le> unat len" using True by arith
    then have "add32 (off + 2) ?l = off + 2 + ?l"
      using u32_bound [of len] by (simp add: wrap_simps)
    moreover have "rd_bytes msg (off + 2) ?l = Some (take ?l (window msg len (off + 2)))"
      using fits assms window_take [OF assms(1) fits] by (simp add: rd_bytes_def)
    ultimately show ?thesis
      using False True assms off fits w
      by (simp add: ReadViciValue_def take_value_def read_result_def window_length Let_def del: One_nat_def)
  qed
qed

text \<open>Where an element may stand, what it does to the depth and the list flag, and the element structure the callback sees.\<close>

fun elem_allowed :: "nat \<Rightarrow> bool \<Rightarrow> vici_elem \<Rightarrow> bool" where
  "elem_allowed d lo (SectionStart n) = (\<not> lo \<and> d < VICI_MAX_SECTION_DEPTH)"
| "elem_allowed d lo SectionEnd = (\<not> lo \<and> 0 < d)"
| "elem_allowed d lo (KeyValue n v) = (\<not> lo)"
| "elem_allowed d lo (ListStart n) = (\<not> lo)"
| "elem_allowed d lo (ListItem v) = lo"
| "elem_allowed d lo ListEnd = lo"

fun next_depth :: "nat \<Rightarrow> vici_elem \<Rightarrow> nat" where
  "next_depth d (SectionStart n) = d + 1"
| "next_depth d SectionEnd = d - 1"
| "next_depth d _ = d"

fun next_list :: "bool \<Rightarrow> vici_elem \<Rightarrow> bool" where
  "next_list lo (ListStart n) = True"
| "next_list lo ListEnd = False"
| "next_list lo _ = lo"

fun elem_event :: "nat \<Rightarrow> vici_elem \<Rightarrow> ViciElement" where
  "elem_event d (SectionStart n) = \<lparr>el_eType = SECTION_START, el_pucName = Some n, el_pucValue = None, el_uiDepth = d + 1\<rparr>"
| "elem_event d SectionEnd = \<lparr>el_eType = SECTION_END, el_pucName = None, el_pucValue = None, el_uiDepth = d\<rparr>"
| "elem_event d (KeyValue n v) = \<lparr>el_eType = KEY_VALUE, el_pucName = Some n, el_pucValue = Some v, el_uiDepth = d\<rparr>"
| "elem_event d (ListStart n) = \<lparr>el_eType = LIST_START, el_pucName = Some n, el_pucValue = None, el_uiDepth = d\<rparr>"
| "elem_event d (ListItem v) = \<lparr>el_eType = LIST_ITEM, el_pucName = None, el_pucValue = Some v, el_uiDepth = d\<rparr>"
| "elem_event d ListEnd = \<lparr>el_eType = LIST_END, el_pucName = None, el_pucValue = None, el_uiDepth = d\<rparr>"

definition accepted :: "u32 \<Rightarrow> nat \<Rightarrow> bool \<Rightarrow> vici_elem \<Rightarrow> bytes \<Rightarrow> (parse_state result) option" where
  "accepted len d lo el r =
     Some (Inr (elem_event d el, unat len - length r, next_depth d el, next_list lo el))"

lemma parse_element_window:
  assumes len: "unat len \<le> length msg" and off: "off < unat len"
  shows "rd msg off = Some (msg ! off)" and "add32 off 1 = Suc off"
    and "ReadViciName msg len (Suc off) = read_result len (take_name (window msg len (Suc off)))"
    and "ReadViciValue msg len (Suc off) = read_result len (take_value (window msg len (Suc off)))"
    and "window msg len (Suc off) = q @ r \<Longrightarrow> window msg len (unat len - length r) = r"
proof -
  show "rd msg off = Some (msg ! off)" "add32 off 1 = Suc off"
    using len off u32_bound [of len] by (simp_all add: wrap_simps mem_simps)
  show "ReadViciName msg len (Suc off) = read_result len (take_name (window msg len (Suc off)))"
    "ReadViciValue msg len (Suc off) = read_result len (take_value (window msg len (Suc off)))"
    using len off by (simp_all add: ReadViciName_window ReadViciValue_window)
  assume rest: "window msg len (Suc off) = q @ r"
  have "length q + length r = unat len - Suc off"
    using arg_cong [OF rest, of length] len by (simp add: window_length)
  then have "unat len - length r = Suc off + length q"
    using off by linarith
  then show "window msg len (unat len - length r) = r"
    using window_drop [of "length q" msg len "Suc off"] rest by simp
qed

lemma name_read:
  assumes "name_ok n" and "w = concat (name_parts n) @ r"
  shows "take_name w = Some (n, r)"
  using assms by (simp add: take_name_exact)

lemma value_read:
  assumes "value_ok v" and "w = concat (value_parts v) @ r"
  shows "take_value w = Some (v, r)"
  using assms by (simp add: take_value_exact)

lemma parse_element_accepts:
  assumes len: "unat len \<le> length msg" and off: "off < unat len"
    and w: "window msg len off = elem_bytes el @ r" and ok: "elem_ok el" "elem_allowed d lo el"
  shows "parse_element msg len off d lo = accepted len d lo el r"
proof -
  note pw = parse_element_window [OF len off]
  have w': "msg ! off # window msg len (Suc off) = elem_bytes el @ r"
    using w window_Suc [OF off len] by simp
  show ?thesis
  proof (cases el)
    case (KeyValue n v)
    then have code: "msg ! off = VICI_ELEMENT_KEY_VALUE"
      and rest: "window msg len (Suc off) = concat (name_parts n) @ (concat (value_parts v) @ r)"
      using w' by (auto simp: elem_bytes_def)
    have name: "take_name (window msg len (Suc off)) = Some (n, concat (value_parts v) @ r)"
      using ok KeyValue by (intro name_read rest) simp
    have "window msg len (unat len - length (concat (value_parts v) @ r)) = concat (value_parts v) @ r"
      by (rule pw(5) [OF rest])
    then have val: "take_value (window msg len (unat len - length (concat (value_parts v) @ r))) = Some (v, r)"
      using ok KeyValue by (intro value_read) simp_all
    show ?thesis
      using KeyValue ok code name val pw(1-4) len
      by (simp add: parse_element_def vici_element_defs read_result_def accepted_def ReadViciValue_window)
  next
    case (SectionStart n)
    then have code: "msg ! off = VICI_ELEMENT_SECTION_START"
      and rest: "window msg len (Suc off) = concat (name_parts n) @ r"
      using w' by (auto simp: elem_bytes_def)
    have "take_name (window msg len (Suc off)) = Some (n, r)"
      using ok SectionStart by (intro name_read rest) simp
    with SectionStart ok code pw(1-4) show ?thesis
      by (simp add: parse_element_def vici_element_defs read_result_def accepted_def)
  next
    case (ListStart n)
    then have code: "msg ! off = VICI_ELEMENT_LIST_START"
      and rest: "window msg len (Suc off) = concat (name_parts n) @ r"
      using w' by (auto simp: elem_bytes_def)
    have "take_name (window msg len (Suc off)) = Some (n, r)"
      using ok ListStart by (intro name_read rest) simp
    with ListStart ok code pw(1-4) show ?thesis
      by (simp add: parse_element_def vici_element_defs read_result_def accepted_def)
  next
    case (ListItem v)
    then have code: "msg ! off = VICI_ELEMENT_LIST_ITEM"
      and rest: "window msg len (Suc off) = concat (value_parts v) @ r"
      using w' by (auto simp: elem_bytes_def)
    have "take_value (window msg len (Suc off)) = Some (v, r)"
      using ok ListItem by (intro value_read rest) simp
    with ListItem ok code pw(1-4) show ?thesis
      by (simp add: parse_element_def vici_element_defs read_result_def accepted_def)
  next
    case SectionEnd
    with w' have "msg ! off = VICI_ELEMENT_SECTION_END" "window msg len (Suc off) = [] @ r"
      by (auto simp: elem_bytes_def)
    with SectionEnd ok pw(1,2) window_length [OF len, of "Suc off"] off show ?thesis
      by (simp add: parse_element_def vici_element_defs accepted_def)
  next
    case ListEnd
    with w' have "msg ! off = VICI_ELEMENT_LIST_END" "window msg len (Suc off) = [] @ r"
      by (auto simp: elem_bytes_def)
    with ListEnd ok pw(1,2) window_length [OF len, of "Suc off"] off show ?thesis
      by (simp add: parse_element_def vici_element_defs accepted_def)
  qed
qed

text \<open>Conversely: a round either rejects with the protocol error or finds an element of the grammar.\<close>

definition elem_found :: "bytes \<Rightarrow> u32 \<Rightarrow> nat \<Rightarrow> nat \<Rightarrow> bool \<Rightarrow> bool" where
  "elem_found msg len off d lo \<longleftrightarrow>
     (\<exists>el r. elem_ok el \<and> elem_allowed d lo el \<and> window msg len off = elem_bytes el @ r)"

definition round_ok :: "bytes \<Rightarrow> u32 \<Rightarrow> nat \<Rightarrow> nat \<Rightarrow> bool \<Rightarrow> bool" where
  "round_ok msg len off d lo \<longleftrightarrow>
     parse_element msg len off d lo = Some (Inl IPSEC_ERR_VICI_PROTOCOL) \<or> elem_found msg len off d lo"

lemma round_found:
  assumes "unat len \<le> length msg" and "off < unat len"
    and "elem_ok el" and "elem_allowed d lo el" and "msg ! off # window msg len (Suc off) = elem_bytes el @ r"
  shows "round_ok msg len off d lo"
  using assms window_Suc [OF assms(2,1)] by (auto simp: round_ok_def elem_found_def)

lemma round_section_start:
  assumes len: "unat len \<le> length msg" and off: "off < unat len"
    and code: "msg ! off = VICI_ELEMENT_SECTION_START"
  shows "round_ok msg len off d lo"
proof (cases "elem_allowed d lo (SectionStart []) \<and> take_name (window msg len (Suc off)) \<noteq> None")
  case True
  then obtain n r where "name_ok n" "window msg len (Suc off) = concat (name_parts n) @ r"
    using take_name_exact by (cases "take_name (window msg len (Suc off))") auto
  with True code show ?thesis
    by (intro round_found [OF len off, where el = "SectionStart n" and r = r]) (simp_all add: elem_bytes_def)
next
  case False
  with code parse_element_window(1-4) [OF len off] show ?thesis
    by (auto simp: round_ok_def parse_element_def vici_element_defs read_result_def split: option.splits)
qed

lemma round_list_start:
  assumes len: "unat len \<le> length msg" and off: "off < unat len"
    and code: "msg ! off = VICI_ELEMENT_LIST_START"
  shows "round_ok msg len off d lo"
proof (cases "\<not> lo \<and> take_name (window msg len (Suc off)) \<noteq> None")
  case True
  then obtain n r where "name_ok n" "window msg len (Suc off) = concat (name_parts n) @ r"
    using take_name_exact by (cases "take_name (window msg len (Suc off))") auto
  with True code show ?thesis
    by (intro round_found [OF len off, where el = "ListStart n" and r = r]) (simp_all add: elem_bytes_def)
next
  case False
  with code parse_element_window(1-4) [OF len off] show ?thesis
    by (auto simp: round_ok_def parse_element_def vici_element_defs read_result_def split: option.splits)
qed

lemma round_list_item:
  assumes len: "unat len \<le> length msg" and off: "off < unat len"
    and code: "msg ! off = VICI_ELEMENT_LIST_ITEM"
  shows "round_ok msg len off d lo"
proof (cases "lo \<and> take_value (window msg len (Suc off)) \<noteq> None")
  case True
  then obtain v r where "value_ok v" "window msg len (Suc off) = concat (value_parts v) @ r"
    using take_value_exact by (cases "take_value (window msg len (Suc off))") auto
  with True code show ?thesis
    by (intro round_found [OF len off, where el = "ListItem v" and r = r]) (simp_all add: elem_bytes_def)
next
  case False
  with code parse_element_window(1-4) [OF len off] show ?thesis
    by (auto simp: round_ok_def parse_element_def vici_element_defs read_result_def split: option.splits)
qed

lemma round_key_value:
  assumes len: "unat len \<le> length msg" and off: "off < unat len"
    and code: "msg ! off = VICI_ELEMENT_KEY_VALUE"
  shows "round_ok msg len off d lo"
proof (cases "\<not> lo \<and> take_name (window msg len (Suc off)) \<noteq> None")
  case True
  note pw = parse_element_window [OF len off]
  obtain n q where nq: "take_name (window msg len (Suc off)) = Some (n, q)"
    using True by auto
  then have name: "name_ok n" "window msg len (Suc off) = concat (name_parts n) @ q"
    by (simp_all add: take_name_exact)
  have rest: "ReadViciValue msg len (unat len - length q) = read_result len (take_value q)"
    using ReadViciValue_window [OF len, of "unat len - length q"] pw(5) [OF name(2)] by simp
  show ?thesis
  proof (cases "take_value q")
    case None
    with True code pw(1-4) nq rest show ?thesis
      by (simp add: round_ok_def parse_element_def vici_element_defs read_result_def)
  next
    case (Some vr)
    then obtain v r where "value_ok v" "q = concat (value_parts v) @ r"
      using take_value_exact by (cases vr) auto
    with True code name show ?thesis
      by (intro round_found [OF len off, where el = "KeyValue n v" and r = r]) (simp_all add: elem_bytes_def)
  qed
next
  case False
  with code parse_element_window(1-4) [OF len off] show ?thesis
    by (auto simp: round_ok_def parse_element_def vici_element_defs read_result_def split: option.splits)
qed

lemma round_ends:
  assumes len: "unat len \<le> length msg" and off: "off < unat len"
    and code: "msg ! off = VICI_ELEMENT_SECTION_END \<and> el = SectionEnd
       \<or> msg ! off = VICI_ELEMENT_LIST_END \<and> el = ListEnd"
  shows "round_ok msg len off d lo"
proof (cases "elem_allowed d lo el")
  case True
  with code show ?thesis
    by (intro round_found [OF len off, where el = el and r = "window msg len (Suc off)"])
      (auto simp: elem_bytes_def)
next
  case False
  with code parse_element_window(1,2) [OF len off] show ?thesis
    by (auto simp: round_ok_def parse_element_def vici_element_defs)
qed

lemma round_unknown:
  assumes "rd msg off = Some code" and "code \<notin> {VICI_ELEMENT_SECTION_START, VICI_ELEMENT_SECTION_END,
      VICI_ELEMENT_KEY_VALUE, VICI_ELEMENT_LIST_START, VICI_ELEMENT_LIST_ITEM, VICI_ELEMENT_LIST_END}"
  shows "parse_element msg len off d lo = Some (Inl IPSEC_ERR_VICI_PROTOCOL)"
  using assms by (simp add: parse_element_def Let_def)

lemma parse_element_cases:
  assumes len: "unat len \<le> length msg" and off: "off < unat len"
  shows "round_ok msg len off d lo"
proof (cases "msg ! off \<in> {VICI_ELEMENT_SECTION_START, VICI_ELEMENT_SECTION_END,
      VICI_ELEMENT_KEY_VALUE, VICI_ELEMENT_LIST_START, VICI_ELEMENT_LIST_ITEM, VICI_ELEMENT_LIST_END}")
  case True
  then show ?thesis
    by (elim insertE emptyE) (simp_all add: assms round_section_start round_list_start round_list_item
        round_key_value round_ends [OF assms, of SectionEnd] round_ends [OF assms, of ListEnd])
next
  case False
  with round_unknown [OF parse_element_window(1) [OF assms]] show ?thesis
    by (simp add: round_ok_def)
qed

section \<open>Whole messages\<close>

fun elems_wf :: "nat \<Rightarrow> bool \<Rightarrow> vici_elem list \<Rightarrow> bool" where
  "elems_wf d lo [] = True"
| "elems_wf d lo (el # els) =
     (elem_ok el \<and> elem_allowed d lo el \<and> elems_wf (next_depth d el) (next_list lo el) els)"

fun elems_closed :: "nat \<Rightarrow> bool \<Rightarrow> vici_elem list \<Rightarrow> bool" where
  "elems_closed d lo [] = (d = 0 \<and> \<not> lo)"
| "elems_closed d lo (el # els) = elems_closed (next_depth d el) (next_list lo el) els"

fun elem_events :: "nat \<Rightarrow> vici_elem list \<Rightarrow> ViciElement list" where
  "elem_events d [] = []"
| "elem_events d (el # els) = elem_event d el # elem_events (next_depth d el) els"

fun run_events :: "'s callback option \<Rightarrow> ViciElement list \<Rightarrow> 's \<Rightarrow> IpsecError \<times> 's" where
  "run_events cb [] s = (IPSEC_OK, s)"
| "run_events cb (ev # evs) s =
     (case run_callback cb ev s of (e, s') \<Rightarrow> if e = IPSEC_OK then run_events cb evs s' else (e, s'))"

definition encode_elems :: "vici_elem list \<Rightarrow> bytes" where
  "encode_elems els = concat (map elem_bytes els)"

lemma encode_elems_simps [simp]:
  "encode_elems [] = []" "encode_elems (el # els) = elem_bytes el @ encode_elems els"
  by (simp_all add: encode_elems_def)

lemma elem_bytes_nonempty: "elem_bytes el \<noteq> []"
  by (cases el) (simp_all add: elem_bytes_def)

lemma elem_events_depth:
  "elems_wf d lo els \<Longrightarrow> d \<le> VICI_MAX_SECTION_DEPTH \<Longrightarrow>
   ev \<in> set (elem_events d els) \<Longrightarrow> el_uiDepth ev \<le> VICI_MAX_SECTION_DEPTH"
proof (induction els arbitrary: d lo)
  case (Cons el els)
  have "next_depth d el \<le> VICI_MAX_SECTION_DEPTH" "el_uiDepth (elem_event d el) \<le> VICI_MAX_SECTION_DEPTH"
    using Cons.prems by (cases el; simp)+
  with Cons show ?case by auto
qed simp

text \<open>One round of the loop on a window that starts with an element.\<close>

lemma parse_loop_round:
  assumes len: "unat len \<le> length msg" and w: "window msg len off = elem_bytes el @ r"
    and ok: "elem_ok el" "elem_allowed d lo el"
  shows "off < unat len" and "window msg len (unat len - length r) = r"
    and "parse_loop cb msg len off d lo s = (case run_callback cb (elem_event d el) s of (e, s') \<Rightarrow>
       if e = IPSEC_OK
       then parse_loop cb msg len (unat len - length r) (next_depth d el) (next_list lo el) s'
       else Some (e, s'))"
proof -
  have length: "unat len - off = length (elem_bytes el) + length r"
    using arg_cong [OF w, of length] len by (simp add: window_length)
  moreover have "0 < length (elem_bytes el)"
    using elem_bytes_nonempty by simp
  ultimately show off: "off < unat len" by linarith
  have "unat len - length r = off + length (elem_bytes el)"
    using length off by linarith
  then show "window msg len (unat len - length r) = r"
    using window_drop [of "length (elem_bytes el)" msg len off] w by simp
  show "parse_loop cb msg len off d lo s = (case run_callback cb (elem_event d el) s of (e, s') \<Rightarrow>
       if e = IPSEC_OK
       then parse_loop cb msg len (unat len - length r) (next_depth d el) (next_list lo el) s'
       else Some (e, s'))"
    using parse_element_accepts [OF len off w ok] off
    by (subst parse_loop.simps) (simp add: accepted_def)
qed

lemma parse_loop_complete:
  assumes "unat len \<le> length msg" and "window msg len off = encode_elems els"
    and "elems_wf d lo els" and "elems_closed d lo els" and "off \<le> unat len"
  shows "parse_loop cb msg len off d lo s = Some (run_events cb (elem_events d els) s)"
  using assms
proof (induction els arbitrary: off d lo s)
  case Nil
  then have "unat len - off = 0"
    using window_length [of len msg off] by simp
  with Nil show ?case by (subst parse_loop.simps) simp
next
  case (Cons el els)
  have w: "window msg len off = elem_bytes el @ encode_elems els"
    using Cons.prems by simp
  note round = parse_loop_round [OF Cons.prems(1) w, of d lo]
  from round(3) [of cb s] round(2) Cons show ?case
    by (auto split: prod.split)
qed

text \<open>
  What a run of the loop amounts to: the elements it went over, the rest it did not reach, and how
  it ended. Either the callback decided the result, or a protocol error stopped the parser after
  the callback had accepted everything it was shown.
\<close>

definition parse_outcome ::
  "'s callback option \<Rightarrow> bytes \<Rightarrow> nat \<Rightarrow> bool \<Rightarrow> 's \<Rightarrow> IpsecError \<Rightarrow> 's \<Rightarrow> bool" where
  "parse_outcome cb w d lo s e s' \<longleftrightarrow>
     (\<exists>els r. elems_wf d lo els \<and> w = encode_elems els @ r
        \<and> (run_events cb (elem_events d els) s = (e, s') \<and> (e = IPSEC_OK \<longrightarrow> r = [] \<and> elems_closed d lo els)
           \<or> e = IPSEC_ERR_VICI_PROTOCOL \<and> run_events cb (elem_events d els) s = (IPSEC_OK, s')))"

lemma parse_outcome_stop:
  "parse_outcome cb w d lo s IPSEC_ERR_VICI_PROTOCOL s"
  "d = 0 \<Longrightarrow> \<not> lo \<Longrightarrow> parse_outcome cb [] d lo s IPSEC_OK s"
  unfolding parse_outcome_def
  by (rule exI [of _ "[]"], rule exI [of _ w], simp) (rule exI [of _ "[]"], simp)

lemma parse_outcome_step:
  assumes "elem_ok el" "elem_allowed d lo el" "w = elem_bytes el @ r"
    and cb: "run_callback cb (elem_event d el) s = (e1, s1)"
    and rest: "if e1 = IPSEC_OK then parse_outcome cb r (next_depth d el) (next_list lo el) s1 e s'
               else e = e1 \<and> s' = s1"
  shows "parse_outcome cb w d lo s e s'"
proof (cases "e1 = IPSEC_OK")
  case False
  then show ?thesis unfolding parse_outcome_def
    using assms by (intro exI [of _ "[el]"] exI [of _ r]) auto
next
  case True
  then obtain els q where "elems_wf (next_depth d el) (next_list lo el) els" "r = encode_elems els @ q"
    "run_events cb (elem_events (next_depth d el) els) s1 = (e, s')
        \<and> (e = IPSEC_OK \<longrightarrow> q = [] \<and> elems_closed (next_depth d el) (next_list lo el) els)
     \<or> e = IPSEC_ERR_VICI_PROTOCOL \<and> run_events cb (elem_events (next_depth d el) els) s1 = (IPSEC_OK, s')"
    using rest by (auto simp: parse_outcome_def)
  with assms True show ?thesis unfolding parse_outcome_def
    by (intro exI [of _ "el # els"] exI [of _ q]) auto
qed

lemma parse_loop_sound:
  assumes len: "unat len \<le> length msg" and "off \<le> unat len"
  shows "\<exists>e s'. parse_loop cb msg len off d lo s = Some (e, s')
     \<and> parse_outcome cb (window msg len off) d lo s e s'"
  using assms(2)
proof (induction "unat len - off" arbitrary: off d lo s rule: less_induct)
  case less
  show ?case
  proof (cases "off < unat len")
    case False
    with less.prems have "off = unat len" by simp
    then show ?thesis
      by (subst parse_loop.simps) (auto simp: parse_outcome_stop window_empty)
  next
    case True
    with parse_element_cases [OF len True, of d lo]
    consider "parse_element msg len off d lo = Some (Inl IPSEC_ERR_VICI_PROTOCOL)"
      | el r where "elem_ok el" "elem_allowed d lo el" "window msg len off = elem_bytes el @ r"
      by (auto simp: round_ok_def elem_found_def)
    then show ?thesis
    proof cases
      case 1
      with True show ?thesis
        by (subst parse_loop.simps) (simp add: parse_outcome_stop)
    next
      case 2
      obtain e1 s1 where cb: "run_callback cb (elem_event d el) s = (e1, s1)" by force
      note round = parse_loop_round [OF len 2(3) 2(1,2)]
      have smaller: "unat len - (unat len - length r) < unat len - off"
        using arg_cong [OF 2(3), of length] elem_bytes_nonempty [of el] len round(1)
        by (simp add: window_length)
      obtain e s' where ih: "parse_loop cb msg len (unat len - length r) (next_depth d el) (next_list lo el) s1 = Some (e, s')"
          "parse_outcome cb r (next_depth d el) (next_list lo el) s1 e s'"
        using less.hyps [OF smaller, of "next_depth d el" "next_list lo el" s1] round(2) by auto
      have "e1 = IPSEC_OK \<Longrightarrow> ?thesis"
        using parse_outcome_step [OF 2 cb, of e s'] round(3) [of cb s] cb ih by simp
      moreover have "e1 \<noteq> IPSEC_OK \<Longrightarrow> ?thesis"
        using parse_outcome_step [OF 2 cb, of e1 s1] round(3) [of cb s] cb by simp
      ultimately show ?thesis by blast
    qed
  qed
qed

text \<open>
  C16. \<open>ParseViciMessage\<close> always returns and never reads outside the message. The callback is
  shown the elements of a prefix of the message, in order, each well formed, in an allowed place
  and at a depth of at most 32; the first error it returns is the result. When the result is
  success the whole message is the encoding of those elements and every section and list is
  closed; a protocol error arises only after the callback accepted all it was shown.
\<close>

theorem ParseViciMessage_sound:
  assumes "unat len \<le> length msg"
  shows "\<exists>e s' els r. ParseViciMessage (Some msg) len cb s = Some (e, s')
     \<and> elems_wf 0 False els \<and> take (unat len) msg = encode_elems els @ r
     \<and> (\<forall>ev \<in> set (elem_events 0 els). el_uiDepth ev \<le> VICI_MAX_SECTION_DEPTH)
     \<and> (run_events cb (elem_events 0 els) s = (e, s') \<and> (e = IPSEC_OK \<longrightarrow> r = [] \<and> elems_closed 0 False els)
        \<or> e = IPSEC_ERR_VICI_PROTOCOL \<and> run_events cb (elem_events 0 els) s = (IPSEC_OK, s'))"
proof -
  obtain e s' where "parse_loop cb msg len 0 0 False s = Some (e, s')"
    "parse_outcome cb (window msg len 0) 0 False s e s'"
    using parse_loop_sound [OF assms, of 0 cb 0 False s] by auto
  then show ?thesis
    using elem_events_depth [of 0 False]
    by (auto simp: ParseViciMessage_def parse_outcome_def window_def)
qed

theorem ParseViciMessage_sound_witness:
  "unat (2 :: u32) \<le> length [2, 6 :: u8] \<and>
   (\<exists>e s' els r. ParseViciMessage (Some [2, 6]) 2 (None :: unit callback option) () = Some (e, s')
     \<and> elems_wf 0 False els \<and> take (unat (2 :: u32)) [2, 6] = encode_elems els @ r
     \<and> (\<forall>ev \<in> set (elem_events 0 els). el_uiDepth ev \<le> VICI_MAX_SECTION_DEPTH)
     \<and> (run_events None (elem_events 0 els) () = (e, s') \<and> (e = IPSEC_OK \<longrightarrow> r = [] \<and> elems_closed 0 False els)
        \<or> e = IPSEC_ERR_VICI_PROTOCOL \<and> run_events None (elem_events 0 els) () = (IPSEC_OK, s')))"
proof -
  have len: "unat (2 :: u32) \<le> length [2, 6 :: u8]" by simp
  show ?thesis
    using len ParseViciMessage_sound [OF len, of "None :: unit callback option" "()"] by blast
qed

text \<open>
  C17. Conversely, \<open>ParseViciMessage\<close> accepts every balanced message: on the encoding of a
  well-formed list of elements with all sections and lists closed its result and the state it
  leaves are those of running the callback over the elements, stopping at its first error.
\<close>

theorem ParseViciMessage_complete:
  assumes "elems_wf 0 False els" and "elems_closed 0 False els"
    and "take (unat len) msg = encode_elems els" and "unat len \<le> length msg"
  shows "ParseViciMessage (Some msg) len cb s = Some (run_events cb (elem_events 0 els) s)"
  using parse_loop_complete [OF assms(4) _ assms(1,2), of 0] assms(3)
  by (simp add: ParseViciMessage_def window_def)

theorem ParseViciMessage_complete_witness:
  "ParseViciMessage (Some [1, 1, 97, 2, 255]) 4 (Some (\<lambda>ev n. (IPSEC_OK, n + el_uiDepth ev))) 0
     = Some (IPSEC_OK, 2)"
proof -
  have hyps: "elems_wf 0 False [SectionStart [97], SectionEnd]" "elems_closed 0 False [SectionStart [97], SectionEnd]"
    "take (unat (4 :: u32)) [1, 1, 97, 2, 255] = encode_elems [SectionStart [97], SectionEnd]"
    "unat (4 :: u32) \<le> length [1, 1, 97, 2, 255 :: u8]"
    by (simp_all add: name_ok_def VICI_MAX_SECTION_DEPTH_def elem_bytes_def name_parts_def vici_element_defs)
  show ?thesis
    by (subst ParseViciMessage_complete [OF hyps]) (simp add: run_callback_def)
qed

lemma elems_wf_ok: "elems_wf d lo els \<Longrightarrow> \<forall>el \<in> set els. elem_ok el"
  by (induction els arbitrary: d lo) auto

lemma written_parses:
  assumes els: "elems_wf 0 False els" "elems_closed 0 False els"
    and wf: "buf_wf b" and content: "buf_content b = encode_elems els"
  shows "ParseViciMessage (pucData b) (of_nat (uiLength b)) cb s = Some (run_events cb (elem_events 0 els) s)"
proof -
  have "uiLength b < 2 ^ 32" using wf by (auto simp: buf_wf_def)
  then have len: "unat (of_nat (uiLength b) :: u32) = uiLength b"
    by (simp add: unat_of_nat take_bit_nat_def)
  show ?thesis
  proof (cases "pucData b")
    case None
    with wf content have "uiLength b = 0" "encode_elems els = []"
      by (simp_all add: buf_wf_def buf_content_def)
    then show ?thesis
      using parse_loop_complete [OF _ _ els, of 0 "[]" 0] None
      by (simp add: ParseViciMessage_def window_def)
  next
    case (Some d)
    with wf content have "uiLength b \<le> length d" "take (uiLength b) d = encode_elems els"
      by (simp_all add: buf_wf_def buf_content_def)
    with Some len parse_loop_complete [OF _ _ els, of "of_nat (uiLength b)" d 0] show ?thesis
      by (simp add: ParseViciMessage_def window_def)
  qed
qed

text \<open>
  C33. Writer and parser agree. Writing any balanced list of elements with C-string names to an
  empty buffer is defined; it succeeds when no allocation fails and the encoding fits a segment;
  and parsing what was written runs the callback over exactly these elements.
\<close>

theorem write_parse_roundtrip:
  assumes "elems_wf 0 False els" and "elems_closed 0 False els" and "\<forall>el \<in> set els. elem_c_name el"
  shows "\<exists>e b. add_elements heap empty_ViciBuffer els = Some (e, b)
     \<and> (heap_total heap \<and> length (encode_elems els) \<le> VICI_MAX_SEGMENT_LENGTH \<longrightarrow> e = IPSEC_OK)
     \<and> (e = IPSEC_OK \<longrightarrow> ParseViciMessage (pucData b) (of_nat (uiLength b)) cb s
           = Some (run_events cb (elem_events 0 els) s))"
proof -
  have empty: "buf_wf empty_ViciBuffer" "buf_content empty_ViciBuffer = []"
    by (simp_all add: buf_wf_def buf_content_def empty_ViciBuffer_def)
  have parts: "add_elements heap empty_ViciBuffer els =
      emit_all (vici_emit heap) empty_ViciBuffer (concat (map elem_parts els))"
    using assms(3) elems_wf_ok [OF assms(1)] by (intro add_elements_parts) blast
  obtain e b where b: "emit_all (vici_emit heap) empty_ViciBuffer (concat (map elem_parts els)) = Some (e, b)"
    using vb.emit_all_total [OF empty(1)] by blast
  have "e = IPSEC_OK" if "heap_total heap" "length (encode_elems els) \<le> VICI_MAX_SEGMENT_LENGTH"
    using tb.emit_all_fits [of heap empty_ViciBuffer "concat (map elem_parts els)"] that empty b
    by (simp add: total_heap_inv_def concat_elem_parts encode_elems_def)
  moreover have "buf_wf b" "e = IPSEC_OK \<Longrightarrow> buf_content b = encode_elems els"
    using vb.emit_all_sound(1,4) [OF empty(1) b] empty(2) by (simp_all add: concat_elem_parts encode_elems_def)
  ultimately show ?thesis
    using b parts written_parses [OF assms(1,2)] by auto
qed

theorem write_parse_roundtrip_witness:
  "\<exists>e b. add_elements (\<lambda>n. Some []) empty_ViciBuffer [ListStart [97], ListItem [9, 9], ListEnd] = Some (e, b)
     \<and> e = IPSEC_OK \<and> ParseViciMessage (pucData b) (of_nat (uiLength b))
           (Some (\<lambda>ev vs. (IPSEC_OK, vs @ [el_pucValue ev]))) [] = Some (IPSEC_OK, [None, Some [9, 9], None])"
proof -
  let ?els = "[ListStart [97], ListItem [9, 9], ListEnd]"
  have hyps: "elems_wf 0 False ?els" "elems_closed 0 False ?els" "\<forall>el \<in> set ?els. elem_c_name el"
    by (simp_all add: name_ok_def value_ok_def elem_c_name_def)
  have "length (encode_elems ?els) \<le> VICI_MAX_SEGMENT_LENGTH"
    by (simp add: elem_bytes_def name_parts_def value_parts_def VICI_MAX_SEGMENT_LENGTH_def)
  then show ?thesis
    using write_parse_roundtrip [OF hyps, of "\<lambda>n. Some []" "Some (\<lambda>ev vs. (IPSEC_OK, vs @ [el_pucValue ev]))" "[]"]
    by (auto simp: heap_total_def run_callback_def)
qed

end
