(* ===== verification/Core_Util.thy ===== *)
theory Core_Util
  imports Ipsec_Error
begin

text \<open>
  The checked text helpers of \<open>src/core/util.c\<close> and \<open>src/core/buffer_validate.c\<close>: copying and
  appending to fixed character arrays, numbers and durations out of text that is not terminated,
  and the size of an array allocation. Outputs that the code leaves alone on an error are passed in
  and returned; \<open>None\<close> for such an argument is a NULL pointer.

  A cursor into a NUL-terminated text is the list of the bytes before the terminator; the
  terminator itself is the empty list.
\<close>

section \<open>Copy\<close>

definition CopyIpsecString ::
  "bytes option \<Rightarrow> nat \<Rightarrow> bytes option \<Rightarrow> nat \<Rightarrow> (IpsecError \<times> bytes option) option" where
  "CopyIpsecString pcDestination zDestinationLength pucSource zSourceLength =
     (case pcDestination of
        None \<Rightarrow> Some (IPSEC_ERR_INVALID_ARGUMENT, None)
      | Some dst \<Rightarrow>
          if zDestinationLength = 0 \<or> pucSource = None \<and> zSourceLength \<noteq> 0
          then Some (IPSEC_ERR_INVALID_ARGUMENT, Some dst)
          else if zSourceLength \<ge> zDestinationLength then do {
            dst \<leftarrow> write_at dst 0 [0];
            Some (IPSEC_ERR_BUFFER_TOO_SMALL, Some dst)
          }
          else do {
            dst \<leftarrow> (if 0 < zSourceLength then do {
                      src \<leftarrow> rd_bytes (the pucSource) 0 zSourceLength;
                      write_at dst 0 src
                    } else Some dst);
            dst \<leftarrow> write_at dst zSourceLength [0];
            Some (IPSEC_OK, Some dst)
          })"

section \<open>Numbers\<close>

text \<open>
  \<open>strtoull\<close> of the C library on a terminated text: white space, a sign, the prefix of the base,
  then as many digits as there are. It returns the value, the number of bytes consumed (0 when
  there is no digit) and whether \<open>errno\<close> is set to ERANGE. A minus sign negates the value in
  \<open>unsigned long long\<close>.
\<close>

definition c_isspace :: "u8 \<Rightarrow> bool" where
  "c_isspace b \<longleftrightarrow> b = 32 \<or> 9 \<le> b \<and> b \<le> 13"

definition c_isalpha :: "u8 \<Rightarrow> bool" where
  "c_isalpha b \<longleftrightarrow> 65 \<le> b \<and> b \<le> 90 \<or> 97 \<le> b \<and> b \<le> 122"

definition digit_value :: "u8 \<Rightarrow> nat" where
  "digit_value b = (if 48 \<le> b \<and> b \<le> 57 then unat b - 48
     else if 65 \<le> b \<and> b \<le> 90 then unat b - 55
     else if 97 \<le> b \<and> b \<le> 122 then unat b - 87 else 99)"

definition number_value :: "nat \<Rightarrow> bytes \<Rightarrow> nat" where
  "number_value base ds = foldl (\<lambda>v d. v * base + digit_value d) 0 ds"

definition hex_prefix :: "bytes \<Rightarrow> bool" where
  "hex_prefix s \<longleftrightarrow> (case s of z # x # d # _ \<Rightarrow> z = 48 \<and> (x = 120 \<or> x = 88) \<and> digit_value d < 16 | _ \<Rightarrow> False)"

definition number_base :: "nat \<Rightarrow> bytes \<Rightarrow> nat \<times> nat" where
  "number_base base s =
     (if (base = 0 \<or> base = 16) \<and> hex_prefix s then (16, 2)
      else if base = 0 then (if s \<noteq> [] \<and> hd s = 48 then (8, 0) else (10, 0))
      else (base, 0))"

definition sign_length :: "bytes \<Rightarrow> nat" where
  "sign_length s = (if s \<noteq> [] \<and> (hd s = 43 \<or> hd s = 45) then 1 else 0)"

definition number_digits :: "nat \<Rightarrow> bytes \<Rightarrow> bytes" where
  "number_digits base s =
     takeWhile (\<lambda>d. digit_value d < fst (number_base base s)) (drop (snd (number_base base s)) s)"

definition strtoull :: "bytes \<Rightarrow> nat \<Rightarrow> nat \<times> nat \<times> bool" where
  "strtoull s base =
     (let spaces = length (takeWhile c_isspace s);
          s1 = drop spaces s;
          s2 = drop (sign_length s1) s1;
          ds = number_digits base s2;
          v = number_value (fst (number_base base s2)) ds
      in if ds = [] then (0, 0, False)
         else (if v > UINT64_MAX then UINT64_MAX
               else if take 1 s1 = [45] then (2 ^ 64 - v) mod 2 ^ 64 else v,
               spaces + sign_length s1 + snd (number_base base s2) + length ds,
               v > UINT64_MAX))"

definition ParseIpsecUnsigned ::
  "bytes option \<Rightarrow> nat \<Rightarrow> nat option \<Rightarrow> nat \<Rightarrow> (IpsecError \<times> nat option) option" where
  "ParseIpsecUnsigned pucValue zValueLength pullValue uiBase =
     (if pucValue = None \<or> pullValue = None \<or> zValueLength = 0 \<or> zValueLength \<ge> 64
         \<or> \<not> (uiBase = 0 \<or> uiBase = 10 \<or> uiBase = 16)
      then Some (IPSEC_ERR_INVALID_ARGUMENT, pullValue)
      else do {
        text \<leftarrow> rd_bytes (the pucValue) 0 zValueLength;
        let acNumber = cstr text;
        let (ullParsed, used, erange) = strtoull acNumber uiBase;
        if erange \<or> used = 0 \<or> used < length acNumber
        then Some (IPSEC_ERR_VICI_PROTOCOL, pullValue)
        else Some (IPSEC_OK, Some ullParsed)
      })"

definition ParseIpsecUint32 ::
  "bytes option \<Rightarrow> nat \<Rightarrow> nat option \<Rightarrow> nat \<Rightarrow> (IpsecError \<times> nat option) option" where
  "ParseIpsecUint32 pucValue zValueLength puiValue uiBase =
     (if puiValue = None then Some (IPSEC_ERR_INVALID_ARGUMENT, puiValue)
      else do {
        (eError, ullValue) \<leftarrow> ParseIpsecUnsigned pucValue zValueLength (Some 0) uiBase;
        if eError = IPSEC_OK \<and> UINT32_MAX < the ullValue
        then Some (IPSEC_ERR_VICI_PROTOCOL, puiValue)
        else if eError = IPSEC_OK then Some (IPSEC_OK, Some (the ullValue mod 2 ^ 32))
        else Some (eError, puiValue)
      })"

definition ParseIpsecUint64 ::
  "bytes option \<Rightarrow> nat \<Rightarrow> nat option \<Rightarrow> nat \<Rightarrow> (IpsecError \<times> nat option) option" where
  "ParseIpsecUint64 pucValue zValueLength pullValue uiBase =
     ParseIpsecUnsigned pucValue zValueLength pullValue uiBase"

section \<open>Durations\<close>

definition GetIpsecDurationMultiplier :: "bytes \<Rightarrow> nat option" where
  "GetIpsecDurationMultiplier pcUnit =
     (let u = (if 1 < length pcUnit \<and> last pcUnit = 115 then butlast pcUnit else pcUnit)
      in if u = lit ''second'' then Some 1
         else if u = lit ''minute'' then Some 60
         else if u = lit ''hour'' then Some (60 * 60)
         else if u = lit ''day'' then Some (24 * 60 * 60)
         else if u = lit ''week'' then Some (7 * 24 * 60 * 60)
         else None)"

text \<open>
  One number and unit at the cursor: the error of the round, the new total and the cursor behind
  the pair. The products and sums are those of \<open>uint64_t\<close>.
\<close>

definition duration_total :: "nat \<Rightarrow> bytes \<Rightarrow> nat \<Rightarrow> IpsecError \<times> nat" where
  "duration_total ullValue pcUnit ullTotal =
     (case (if pcUnit = [] then None else GetIpsecDurationMultiplier pcUnit) of
        None \<Rightarrow> (IPSEC_ERR_VICI_PROTOCOL, ullTotal)
      | Some ullMultiplier \<Rightarrow>
          if ullValue \<noteq> 0 \<and> UINT64_MAX div ullValue < ullMultiplier
          then (IPSEC_ERR_VICI_PROTOCOL, ullTotal)
          else if UINT64_MAX - ullTotal < ullValue * ullMultiplier mod 2 ^ 64
          then (IPSEC_ERR_VICI_PROTOCOL, ullTotal)
          else (IPSEC_OK, (ullTotal + ullValue * ullMultiplier mod 2 ^ 64) mod 2 ^ 64))"

definition duration_pair :: "bytes \<Rightarrow> nat \<Rightarrow> IpsecError \<times> nat \<times> bytes" where
  "duration_pair pcCursor ullTotal =
     (case strtoull pcCursor 10 of (ullValue, used, erange) \<Rightarrow>
        if erange \<or> used = 0 then (IPSEC_ERR_VICI_PROTOCOL, ullTotal, pcCursor)
        else
          (let c1 = dropWhile (\<lambda>b. b = 32) (drop used pcCursor);
               c3 = dropWhile (\<lambda>b. b = 32) (dropWhile c_isalpha c1)
           in case duration_total ullValue (takeWhile c_isalpha c1) ullTotal of (e, tot) \<Rightarrow>
             (if c3 \<noteq> [] \<and> hd c3 \<noteq> 44 then IPSEC_ERR_VICI_PROTOCOL else e, tot, c3)))"

lemma strtoull_used:
  assumes "strtoull s base = (v, used, er)"
  shows "used \<le> length s"
proof -
  define s2 where "s2 = drop (sign_length (drop (length (takeWhile c_isspace s)) s)) (drop (length (takeWhile c_isspace s)) s)"
  define pre where "pre = length (takeWhile c_isspace s) + sign_length (drop (length (takeWhile c_isspace s)) s)"
  have used: "used = (if number_digits base s2 = [] then 0
      else pre + snd (number_base base s2) + length (number_digits base s2))"
    using assms by (auto simp: strtoull_def Let_def s2_def pre_def split: if_splits)
  have s2: "length s2 = length s - pre" by (simp add: s2_def pre_def)
  have ds: "length (number_digits base s2) \<le> length s2 - snd (number_base base s2)"
    unfolding number_digits_def by (metis length_drop length_takeWhile_le)
  show ?thesis
  proof (cases "number_digits base s2 = []")
    case False
    then have "0 < length (number_digits base s2)" by simp
    with ds s2 have "pre + snd (number_base base s2) + length (number_digits base s2) \<le> length s"
      by linarith
    with used False show ?thesis by simp
  qed (simp add: used)
qed

lemma length_dropWhile_less: "length (dropWhile P xs) \<le> length xs"
  by (induction xs) auto

lemma duration_pair_shorter:
  assumes "duration_pair c t = (IPSEC_OK, t', c')"
  shows "length c' < length c"
proof -
  obtain v used er where s: "strtoull c 10 = (v, used, er)" by (cases "strtoull c 10") auto
  have u: "used \<noteq> 0" and c': "c' = dropWhile (\<lambda>b. b = 32) (dropWhile c_isalpha (dropWhile (\<lambda>b. b = 32) (drop used c)))"
    using assms s by (auto simp: duration_pair_def Let_def split: if_splits prod.splits)
  have "length c' \<le> length (drop used c)"
    unfolding c' by (meson length_dropWhile_less order_trans)
  with strtoull_used [OF s] u show ?thesis by simp
qed

function duration_loop :: "bytes \<Rightarrow> nat \<Rightarrow> IpsecError \<times> nat" where
  "duration_loop pcCursor ullTotal =
     (if pcCursor = [] then (IPSEC_OK, ullTotal)
      else let c = dropWhile (\<lambda>b. b = 32 \<or> b = 44) pcCursor
        in if c = [] then (IPSEC_OK, ullTotal)
           else case duration_pair c ullTotal of
             (e, tot, c') \<Rightarrow> if e = IPSEC_OK then duration_loop c' tot else (e, tot))"
  by pat_completeness auto
termination
  by (relation "measure (\<lambda>(c, t). length c)")
    (auto dest!: sym [THEN duration_pair_shorter] intro: order.strict_trans2 [OF _ length_dropWhile_less])

declare duration_loop.simps [simp del]

definition ParseIpsecDurationSeconds ::
  "bytes option \<Rightarrow> nat \<Rightarrow> nat option \<Rightarrow> (IpsecError \<times> nat option) option" where
  "ParseIpsecDurationSeconds pucValue zValueLength pullSeconds =
     (if pucValue = None \<or> zValueLength = 0 \<or> zValueLength \<ge> 128 \<or> pullSeconds = None
      then Some (IPSEC_ERR_INVALID_ARGUMENT, pullSeconds)
      else do {
        text \<leftarrow> rd_bytes (the pucValue) 0 zValueLength;
        if cstr text = lit ''less than a second'' then Some (IPSEC_OK, Some 0)
        else case duration_loop (cstr text) 0 of
          (e, tot) \<Rightarrow> Some (e, if e = IPSEC_OK then Some tot else pullSeconds)
      })"

section \<open>Appending, array sizes, the clock\<close>

definition AppendIpsecText ::
  "bytes option \<Rightarrow> nat \<Rightarrow> bytes option \<Rightarrow> nat \<Rightarrow> bytes option \<Rightarrow> (IpsecError \<times> bytes option) option" where
  "AppendIpsecText pcDestination zDestinationLength pucValue zValueLength pcSeparator =
     (if pcDestination = None \<or> zDestinationLength = 0 \<or> pcSeparator = None
         \<or> pucValue = None \<and> zValueLength \<noteq> 0
      then Some (IPSEC_ERR_INVALID_ARGUMENT, pcDestination)
      else
        (let dst = the pcDestination;
             zUsed = strnlen dst zDestinationLength;
             zSeparatorLength = (if 0 < zUsed then strlen (the pcSeparator) else 0)
         in if zUsed \<ge> zDestinationLength
               \<or> zSeparatorLength > zDestinationLength - zUsed - 1
               \<or> zValueLength > zDestinationLength - zUsed - zSeparatorLength - 1
            then Some (IPSEC_ERR_BUFFER_TOO_SMALL, Some dst)
            else do {
              sep \<leftarrow> rd_bytes (the pcSeparator) 0 zSeparatorLength;
              dst \<leftarrow> write_at dst zUsed sep;
              let used = zUsed + zSeparatorLength;
              val \<leftarrow> (if 0 < zValueLength then rd_bytes (the pucValue) 0 zValueLength else Some []);
              dst \<leftarrow> write_at dst used val;
              dst \<leftarrow> write_at dst (used + zValueLength) [0];
              Some (IPSEC_OK, Some dst)
            }))"

definition CalculateIpsecArraySize :: "u32 \<Rightarrow> nat \<Rightarrow> nat option \<Rightarrow> bool \<times> nat option" where
  "CalculateIpsecArraySize uiCount zItemSize pzAllocationSize =
     (if pzAllocationSize = None \<or> zItemSize = 0
         \<or> uiCount \<noteq> 0 \<and> UINT64_MAX div unat uiCount < zItemSize
      then (False, pzAllocationSize)
      else (True, Some (unat uiCount * zItemSize mod 2 ^ 64)))"

text \<open>The clock is a parameter: the reading of \<open>CLOCK_MONOTONIC\<close>, or that it cannot be read.\<close>

definition GetIpsecMonotonicMilliseconds :: "(nat \<times> nat) option \<Rightarrow> nat" where
  "GetIpsecMonotonicMilliseconds clock =
     (case clock of None \<Rightarrow> 0
      | Some (tv_sec, tv_nsec) \<Rightarrow> (tv_sec * 1000 mod 2 ^ 64 + tv_nsec div 1000000) mod 2 ^ 64)"

section \<open>Bounds and effects\<close>

text \<open>
  \<open>CopyIpsecString\<close> on an array of at least the stated size and a source of at least the
  stated length is defined. It succeeds exactly when the text and its terminator fit; then the
  destination holds the source text. When they do not fit the destination holds the empty string.
  The array keeps its size in every case.
\<close>

theorem CopyIpsecString_spec:
  assumes "0 < n" and "n \<le> length dst" and "k \<le> length src"
  shows "\<exists>e dst'. CopyIpsecString (Some dst) n (Some src) k = Some (e, Some dst')
     \<and> length dst' = length dst \<and> drop n dst' = drop n dst
     \<and> (if k < n then e = IPSEC_OK \<and> cstr dst' = cstr (take k src) \<and> strlen dst' \<le> k
        else e = IPSEC_ERR_BUFFER_TOO_SMALL \<and> cstr dst' = [])"
proof (cases "k < n")
  case True
  let ?d = "take k src @ [0] @ drop (k + 1) dst"
  have "CopyIpsecString (Some dst) n (Some src) k = Some (IPSEC_OK, Some ?d)"
    using assms True by (auto simp: CopyIpsecString_def rd_bytes_def write_at_def)
  moreover have "cstr ?d = cstr (take k src)"
    by (simp add: cstr_terminated)
  moreover have "strlen ?d \<le> k"
    using assms True strlen_le [of "take k src"] by (simp add: strlen_def cstr_terminated)
  moreover have "length ?d = length dst" "drop n ?d = drop n dst"
    using assms True by (auto simp: drop_Cons')
  ultimately show ?thesis
    unfolding if_P [OF True] by blast
next
  case False
  with assms show ?thesis
    by (cases dst) (auto simp: CopyIpsecString_def write_at_def cstr_def drop_Cons')
qed

theorem CopyIpsecString_spec_witness:
  "\<exists>e dst'. CopyIpsecString (Some [9, 9, 9]) 3 (Some [97, 98]) 2 = Some (e, Some dst')
     \<and> length dst' = 3 \<and> e = IPSEC_OK \<and> cstr dst' = [97, 98]"
  using CopyIpsecString_spec [of 3 "[9, 9, 9]" 2 "[97, 98]"] by (auto simp: cstr_def)

lemma Append_text_fits:
  assumes "strlen dst < n" and "n \<le> length dst" and "k \<le> length val"
    and sp: "sp = (if strlen dst = 0 then [] else cstr sep)" and True: "strlen dst + length sp + k < n"
  shows "AppendIpsecText (Some dst) n (Some val) k (Some sep)
    = Some (IPSEC_OK, Some (cstr dst @ sp @ take k val @ 0 # drop (strlen dst + length sp + k + 1) dst))"
proof -
  let ?u = "strlen dst"
  let ?d = "take ?u dst @ sp @ take k val @ [0] @ drop (?u + length sp + k + 1) dst"
  have sep: "rd_bytes sep 0 (length sp) = Some sp"
    using take_strlen [of sep] strlen_le [of sep] by (auto simp: sp rd_bytes_def strlen_def)
  have zsep: "(if 0 < ?u then strlen sep else 0) = length sp"
    by (simp add: sp strlen_def)
  have val: "(if 0 < k then rd_bytes val 0 k else Some []) = Some (take k val)"
    using assms(3) by (simp add: rd_bytes_def)
  have w1: "write_at dst ?u sp = Some (take ?u dst @ sp @ drop (?u + length sp) dst)"
    using assms True by (intro write_at_in) simp
  have w2: "write_at (take ?u dst @ sp @ drop (?u + length sp) dst) (?u + length sp) (take k val)
      = Some (take ?u dst @ sp @ take k val @ drop (?u + length sp + k) dst)"
    using assms True write_at_append [of "take ?u dst @ sp" "?u + length sp" "take k val" "drop (?u + length sp) dst"]
    by (simp add: add.commute)
  have w3: "write_at (take ?u dst @ sp @ take k val @ drop (?u + length sp + k) dst) (?u + length sp + k) [0] = Some ?d"
    using assms True write_at_append [of "take ?u dst @ sp @ take k val" "?u + length sp + k" "[0]" "drop (?u + length sp + k) dst"]
    by (simp add: add.commute)
  have used: "strnlen dst n = ?u" "\<not> ?u \<ge> n"
    "\<not> length sp > n - ?u - 1" "\<not> k > n - ?u - length sp - 1"
    using assms True by (auto simp: strnlen_def)
  have "AppendIpsecText (Some dst) n (Some val) k (Some sep) = Some (IPSEC_OK, Some ?d)"
    using assms(1) used(2-4) w2 w3
    unfolding AppendIpsecText_def Let_def option.sel used(1) zsep val by (simp add: sep w1)
  then show ?thesis by (simp add: take_strlen)
qed

lemma Append_text_full:
  assumes "strlen dst < n" and "k \<le> length val"
    and "sp = (if strlen dst = 0 then [] else cstr sep)" and "\<not> strlen dst + length sp + k < n"
  shows "AppendIpsecText (Some dst) n (Some val) k (Some sep) = Some (IPSEC_ERR_BUFFER_TOO_SMALL, Some dst)"
  using assms by (auto simp: AppendIpsecText_def strnlen_def strlen_def Let_def)

text \<open>Whatever the value is, the array stays a terminated text of its size.\<close>

lemma Append_text_safe:
  assumes "strlen dst < n" and "n \<le> length dst" and "k \<le> length val"
  shows "\<exists>e dst'. AppendIpsecText (Some dst) n (Some val) k (Some sep) = Some (e, Some dst')
    \<and> length dst' = length dst \<and> strlen dst' < n"
proof -
  let ?sp = "if strlen dst = 0 then [] else cstr sep"
  show ?thesis
  proof (cases "strlen dst + length ?sp + k < n")
    case True
    let ?t = "cstr dst @ ?sp @ take k val" and ?r = "drop (strlen dst + length ?sp + k + 1) dst"
    have "strlen (?t @ 0 # ?r) = strlen ?t" by (simp only: strlen_def cstr_terminated)
    moreover have "strlen ?t < n" using strlen_le [of ?t] True assms(3) by (simp add: strlen_def)
    moreover have "length (?t @ 0 # ?r) = length dst" using True assms by (simp add: strlen_def)
    ultimately show ?thesis using Append_text_fits [OF assms refl True] by simp
  next
    case False
    with Append_text_full [OF assms(1,3) refl] assms show ?thesis by simp
  qed
qed

text \<open>
  \<open>AppendIpsecText\<close> on a terminated text in an array of at least the stated size is defined.
  It succeeds exactly when the old text, the separator (left out for the first value), the value
  and a terminator fit, and then the text is their concatenation; otherwise the array is untouched.
\<close>

theorem AppendIpsecText_spec:
  assumes "strlen dst < n" and "n \<le> length dst" and "k \<le> length val" and "0 \<notin> set (take k val)"
    and "sp = (if strlen dst = 0 then [] else cstr sep)"
  shows "\<exists>e dst'. AppendIpsecText (Some dst) n (Some val) k (Some sep) = Some (e, Some dst')
     \<and> (if strlen dst + length sp + k < n
        then e = IPSEC_OK \<and> cstr dst' = cstr dst @ sp @ take k val \<and> length dst' = length dst
        else e = IPSEC_ERR_BUFFER_TOO_SMALL \<and> dst' = dst)"
proof (cases "strlen dst + length sp + k < n")
  case True
  let ?d = "cstr dst @ sp @ take k val @ 0 # drop (strlen dst + length sp + k + 1) dst"
  have "cstr ?d = cstr dst @ sp @ take k val"
    using assms(4,5) cstr_terminated [of "cstr dst @ sp @ take k val"] by simp
  moreover have "length ?d = length dst" using True assms(2,3) by (simp add: strlen_def)
  ultimately show ?thesis using True Append_text_fits [OF assms(1-3,5) True] by simp
next
  case False
  with Append_text_full [OF assms(1,3,5)] show ?thesis by simp
qed

theorem AppendIpsecText_spec_witness:
  "\<exists>e dst'. AppendIpsecText (Some [97, 0, 0, 0, 0]) 5 (Some [98, 99]) 2 (Some [44]) = Some (e, Some dst')
     \<and> e = IPSEC_OK \<and> cstr dst' = [97, 44, 98, 99]"
  using AppendIpsecText_spec [of "[97, 0, 0, 0, 0]" 5 2 "[98, 99]" "[44]" "[44]"]
  by (auto simp: strlen_def cstr_def)

section \<open>Decimal numbers\<close>

fun show_nat :: "nat \<Rightarrow> bytes" where
  "show_nat n = (if n < 10 then [48 + of_nat n] else show_nat (n div 10) @ [48 + of_nat (n mod 10)])"

declare show_nat.simps [simp del]

lemma decimal_digit:
  assumes "d < 10"
  shows "digit_value (48 + of_nat d) = d" and "(48 :: u8) \<le> 48 + of_nat d" and "(48 + of_nat d :: u8) \<le> 57"
proof -
  from assms have "d = 0 \<or> d = 1 \<or> d = 2 \<or> d = 3 \<or> d = 4 \<or> d = 5 \<or> d = 6 \<or> d = 7 \<or> d = 8 \<or> d = 9"
    by arith
  then show "digit_value (48 + of_nat d) = d" "(48 :: u8) \<le> 48 + of_nat d" "(48 + of_nat d :: u8) \<le> 57"
    by (auto simp: digit_value_def)
qed

lemma show_nat_digits: "\<forall>d \<in> set (show_nat n). 48 \<le> d \<and> d \<le> 57 \<and> digit_value d < 10"
proof (induction n rule: show_nat.induct)
  case (1 n)
  then show ?case
    using decimal_digit [of n] decimal_digit [of "n mod 10"] by (subst show_nat.simps) auto
qed

lemma show_nat_nonempty [simp]: "show_nat n \<noteq> []"
  by (subst show_nat.simps) simp

lemma show_nat_value: "number_value 10 (show_nat n) = n"
proof (induction n rule: show_nat.induct)
  case (1 n)
  then show ?case
    using decimal_digit [of n] decimal_digit [of "n mod 10"]
    by (subst show_nat.simps) (auto simp: number_value_def)
qed

lemma show_nat_length: "n < 10 ^ Suc k \<Longrightarrow> length (show_nat n) \<le> Suc k"
proof (induction k arbitrary: n)
  case 0
  then show ?case by (subst show_nat.simps) simp
next
  case (Suc k)
  then have "n div 10 < 10 ^ Suc k" by simp
  from Suc.IH [OF this] show ?case by (subst show_nat.simps) simp
qed

lemma decimal_not_space: "48 \<le> d \<Longrightarrow> d \<le> 57 \<Longrightarrow> \<not> c_isspace d \<and> d \<noteq> 43 \<and> d \<noteq> 45 \<and> d \<noteq> 32 \<and> d \<noteq> 44 \<and> d \<noteq> 0"
  by (auto simp: c_isspace_def word_le_nat_alt)

lemma show_nat_hd: "48 \<le> hd (show_nat n) \<and> hd (show_nat n) \<le> 57"
  using show_nat_digits [of n] by (cases "show_nat n") auto

text \<open>Reading the decimal numeral at the front of a text, up to the first byte that is no digit.\<close>

lemma strtoull_show_nat:
  assumes "r = [] \<or> digit_value (hd r) \<ge> 10"
  shows "strtoull (show_nat n @ r) 10 =
     (if n \<le> UINT64_MAX then n else UINT64_MAX, length (show_nat n), n > UINT64_MAX)"
proof -
  obtain h t where ht: "show_nat n = h # t" by (cases "show_nat n") auto
  then have h: "\<not> c_isspace h" "h \<noteq> 43" "h \<noteq> 45"
    using show_nat_hd [of n] decimal_not_space [of h] by auto
  then have pre: "takeWhile c_isspace (show_nat n @ r) = []" "sign_length (show_nat n @ r) = 0"
    "take 1 (show_nat n @ r) \<noteq> [45]"
    using ht by (auto simp: sign_length_def)
  have base: "number_base 10 s = (10, 0)" for s
    by (simp add: number_base_def)
  have "takeWhile (\<lambda>d. digit_value d < 10) (show_nat n @ r) = show_nat n"
    using assms show_nat_digits [of n] by (cases r) (auto simp: takeWhile_append takeWhile_eq_all_conv)
  then have ds: "number_digits 10 (show_nat n @ r) = show_nat n"
    by (simp add: number_digits_def base)
  show ?thesis
    unfolding strtoull_def Let_def pre(1) using pre(2,3)
    by (simp add: ds base show_nat_value)
qed

lemma show_nat_cstr [simp]: "0 \<notin> set (show_nat n)"
  using show_nat_digits [of n] by (auto simp: word_le_nat_alt)

lemma Unsigned_decimal:
  assumes "n < 10 ^ 60"
  shows "ParseIpsecUnsigned (Some (show_nat n)) (length (show_nat n)) (Some x) 10 =
     (if n \<le> UINT64_MAX then Some (IPSEC_OK, Some n) else Some (IPSEC_ERR_VICI_PROTOCOL, Some x))"
proof -
  have "length (show_nat n) < 64"
    using show_nat_length [of n 59] assms by simp
  then show ?thesis
    using strtoull_show_nat [of "[]" n] by (simp add: ParseIpsecUnsigned_def rd_bytes_def)
qed

text \<open>
  \<open>ParseIpsecUint32\<close> and \<open>ParseIpsecUint64\<close> read back every decimal numeral that fits their
  type and refuse every longer one (up to the 60 digits the scratch array admits) without touching
  the output.
\<close>

theorem ParseIpsec_decimal:
  assumes "n < 10 ^ 60"
  shows "ParseIpsecUint32 (Some (show_nat n)) (length (show_nat n)) (Some x) 10 =
     (if n \<le> UINT32_MAX then Some (IPSEC_OK, Some n) else Some (IPSEC_ERR_VICI_PROTOCOL, Some x))
    \<and> ParseIpsecUint64 (Some (show_nat n)) (length (show_nat n)) (Some x) 10 =
     (if n \<le> UINT64_MAX then Some (IPSEC_OK, Some n) else Some (IPSEC_ERR_VICI_PROTOCOL, Some x))"
  by (simp_all add: ParseIpsecUint32_def ParseIpsecUint64_def Unsigned_decimal [OF assms])

theorem ParseIpsec_decimal_witness:
  "ParseIpsecUint32 (Some [52, 50]) 2 (Some 7) 10 = Some (IPSEC_OK, Some 42)"
proof -
  have t42: "show_nat 42 = [52, 50]" by (simp add: show_nat.simps)
  have small: "(42 :: nat) < 10 ^ 60" by simp
  show ?thesis using ParseIpsec_decimal [OF small, of 7] unfolding t42 by (simp add: numeral_2_eq_2)
qed

section \<open>Durations\<close>

datatype duration_unit = Seconds | Minutes | Hours | Days | Weeks

fun unit_text :: "duration_unit \<Rightarrow> string" where
  "unit_text Seconds = ''second''"
| "unit_text Minutes = ''minute''"
| "unit_text Hours = ''hour''"
| "unit_text Days = ''day''"
| "unit_text Weeks = ''week''"

fun unit_seconds :: "duration_unit \<Rightarrow> nat" where
  "unit_seconds Seconds = 1"
| "unit_seconds Minutes = 60"
| "unit_seconds Hours = 3600"
| "unit_seconds Days = 86400"
| "unit_seconds Weeks = 604800"

text \<open>A number, a unit, and whether the unit is written in the plural.\<close>

type_synonym duration_item = "nat \<times> duration_unit \<times> bool"

definition unit_bytes :: "duration_unit \<Rightarrow> bool \<Rightarrow> bytes" where
  "unit_bytes u plural = lit (unit_text u) @ (if plural then [115] else [])"

fun item_text :: "duration_item \<Rightarrow> bytes" where
  "item_text (n, u, plural) = show_nat n @ 32 # unit_bytes u plural"

fun item_seconds :: "duration_item \<Rightarrow> nat" where
  "item_seconds (n, u, plural) = n * unit_seconds u"

fun duration_text :: "duration_item list \<Rightarrow> bytes" where
  "duration_text [] = []"
| "duration_text [p] = item_text p"
| "duration_text (p # q # ps) = item_text p @ 44 # 32 # duration_text (q # ps)"

lemma lit_unit:
  "lit ''second'' = [115, 101, 99, 111, 110, 100]" "lit ''minute'' = [109, 105, 110, 117, 116, 101]"
  "lit ''hour'' = [104, 111, 117, 114]" "lit ''day'' = [100, 97, 121]" "lit ''week'' = [119, 101, 101, 107]"
  by (simp_all add: lit_def)

lemma unit_bytes_alpha: "unit_bytes u plural \<noteq> []" "\<forall>b \<in> set (unit_bytes u plural). c_isalpha b"
  by (cases u; simp add: unit_bytes_def lit_unit c_isalpha_def)+

lemma unit_multiplier: "GetIpsecDurationMultiplier (unit_bytes u plural) = Some (unit_seconds u)"
  by (cases u; cases plural; simp add: GetIpsecDurationMultiplier_def unit_bytes_def lit_unit)

lemma duration_total_item:
  assumes "t \<le> UINT64_MAX" and "n \<le> UINT64_MAX"
  shows "duration_total n (unit_bytes u plural) t =
     (if t + n * unit_seconds u \<le> UINT64_MAX then (IPSEC_OK, t + n * unit_seconds u)
      else (IPSEC_ERR_VICI_PROTOCOL, t))"
proof -
  have big: "UINT64_MAX div n < unit_seconds u \<longleftrightarrow> UINT64_MAX < n * unit_seconds u" if "n \<noteq> 0"
    using that by (metis div_less_iff_less_mult mult.commute neq0_conv)
  show ?thesis
    using assms big unit_bytes_alpha(1) [of u plural]
    by (cases "n = 0") (auto simp: duration_total_def unit_multiplier)
qed

lemma takeWhile_all_prefix:
  "\<forall>x \<in> set xs. P x \<Longrightarrow> r = [] \<or> \<not> P (hd r) \<Longrightarrow> takeWhile P (xs @ r) = xs \<and> dropWhile P (xs @ r) = r"
  by (cases r) (auto simp: takeWhile_append dropWhile_append takeWhile_eq_all_conv)

lemma unit_bytes_hd: "hd (unit_bytes u plural) \<noteq> 32"
  by (cases u) (simp_all add: unit_bytes_def lit_unit)

lemma duration_pair_item:
  assumes t: "t \<le> UINT64_MAX" and r: "r = [] \<or> hd r = 44"
  shows "\<exists>e t' c. duration_pair (item_text (n, u, plural) @ r) t = (e, t', c)
     \<and> (if t + n * unit_seconds u \<le> UINT64_MAX
        then e = IPSEC_OK \<and> t' = t + n * unit_seconds u \<and> c = r
        else e = IPSEC_ERR_VICI_PROTOCOL)"
proof -
  let ?ub = "unit_bytes u plural"
  have num: "strtoull (item_text (n, u, plural) @ r) 10 =
     (if n \<le> UINT64_MAX then n else UINT64_MAX, length (show_nat n), n > UINT64_MAX)"
    using strtoull_show_nat [of "32 # ?ub @ r" n] by (simp add: digit_value_def)
  have c1: "dropWhile (\<lambda>b. b = 32) (drop (length (show_nat n)) (item_text (n, u, plural) @ r)) = ?ub @ r"
    using unit_bytes_alpha(1) [of u plural] unit_bytes_hd [of u plural] by (cases ?ub) auto
  have "r = [] \<or> \<not> c_isalpha (hd r)"
    using r by (auto simp: c_isalpha_def)
  then have c2: "takeWhile c_isalpha (?ub @ r) = ?ub" "dropWhile c_isalpha (?ub @ r) = r"
    using takeWhile_all_prefix [OF unit_bytes_alpha(2) [of u plural], of r] by auto
  have c3: "dropWhile (\<lambda>b. b = 32) r = r"
    using r by (cases r) auto
  show ?thesis
  proof (cases "n \<le> UINT64_MAX")
    case False
    then have "\<not> t + n * unit_seconds u \<le> UINT64_MAX"
      by (cases u) auto
    with False num show ?thesis by (simp add: duration_pair_def)
  next
    case True
    have step: "duration_pair (item_text (n, u, plural) @ r) t =
        (fst (duration_total n ?ub t), snd (duration_total n ?ub t), r)"
      unfolding duration_pair_def num Let_def prod.case c1 c2 c3
      using True r by (auto split: prod.split)
    show ?thesis
      unfolding step by (simp add: duration_total_item [OF t True])
  qed
qed

lemma item_text_front:
  "item_text p \<noteq> []" "hd (item_text p) \<noteq> 32" "hd (item_text p) \<noteq> 44" "\<not> c_isalpha (hd (item_text p))"
proof -
  obtain n u b where p: "p = (n, u, b)" by (cases p) auto
  have "hd (item_text p) = hd (show_nat n)" by (simp add: p)
  then have "48 \<le> hd (item_text p) \<and> hd (item_text p) \<le> 57"
    using show_nat_hd [of n] by simp
  then show "hd (item_text p) \<noteq> 32" "hd (item_text p) \<noteq> 44" "\<not> c_isalpha (hd (item_text p))"
    by (auto simp: c_isalpha_def word_le_nat_alt)
  show "item_text p \<noteq> []" by (simp add: p)
qed

lemma dropWhile_item:
  assumes "pre = [] \<or> pre = [44, 32]"
  shows "dropWhile (\<lambda>b. b = 32 \<or> b = 44) (pre @ item_text p @ r) = item_text p @ r"
  using assms item_text_front(1-3) [of p] by (cases "item_text p") auto

definition duration_outcome :: "nat \<Rightarrow> IpsecError \<times> nat \<Rightarrow> bool" where
  "duration_outcome secs r \<longleftrightarrow>
     (if secs \<le> UINT64_MAX then r = (IPSEC_OK, secs) else fst r = IPSEC_ERR_VICI_PROTOCOL)"

lemma duration_loop_item:
  assumes "t \<le> UINT64_MAX" and "pre = [] \<or> pre = [44, 32]" and "r = [] \<or> hd r = 44"
  shows "if t + item_seconds p \<le> UINT64_MAX
     then duration_loop (pre @ item_text p @ r) t = duration_loop r (t + item_seconds p)
     else fst (duration_loop (pre @ item_text p @ r) t) = IPSEC_ERR_VICI_PROTOCOL"
proof -
  obtain n u b where p: "p = (n, u, b)" by (cases p) auto
  obtain e t' c where pair: "duration_pair (item_text p @ r) t = (e, t', c)"
    and step: "if t + item_seconds p \<le> UINT64_MAX then e = IPSEC_OK \<and> t' = t + item_seconds p \<and> c = r
        else e = IPSEC_ERR_VICI_PROTOCOL"
    using duration_pair_item [OF assms(1,3), of n u b] p by auto
  have "duration_loop (pre @ item_text p @ r) t = (if e = IPSEC_OK then duration_loop c t' else (e, t'))"
    using dropWhile_item [OF assms(2), of p r] pair item_text_front(1) [of p]
    by (subst duration_loop.simps) simp
  with step show ?thesis by (auto split: if_splits)
qed

lemma duration_loop_items:
  assumes "ps \<noteq> []" and "t \<le> UINT64_MAX" and "pre = [] \<or> pre = [44, 32]"
  shows "duration_outcome (t + sum_list (map item_seconds ps)) (duration_loop (pre @ duration_text ps) t)"
  using assms
proof (induction ps arbitrary: pre t rule: duration_text.induct)
  case (2 p)
  then show ?case
    using duration_loop_item [OF 2(2,3), of "[]" p]
    by (auto simp: duration_outcome_def duration_loop.simps [of "[]"] split: if_splits)
next
  case (3 p q ps)
  let ?r = "[44, 32] @ duration_text (q # ps)"
  have item: "if t + item_seconds p \<le> UINT64_MAX
     then duration_loop (pre @ item_text p @ ?r) t = duration_loop ?r (t + item_seconds p)
     else fst (duration_loop (pre @ item_text p @ ?r) t) = IPSEC_ERR_VICI_PROTOCOL"
    by (rule duration_loop_item [OF 3(3,4)]) simp
  show ?case
  proof (cases "t + item_seconds p \<le> UINT64_MAX")
    case True
    then have "duration_outcome (t + item_seconds p + sum_list (map item_seconds (q # ps)))
        (duration_loop ?r (t + item_seconds p))"
      by (intro 3(1)) simp_all
    with item True show ?thesis by (simp add: add.assoc)
  next
    case False
    with item show ?thesis by (simp add: duration_outcome_def)
  qed
qed simp

lemma duration_text_cstr: "0 \<notin> set (duration_text ps)"
proof -
  have "0 \<notin> set (item_text p)" for p
    by (cases p; cases "fst (snd p)") (auto simp: unit_bytes_def lit_unit)
  then show ?thesis by (induction ps rule: duration_text.induct) auto
qed

lemma duration_text_special: "ps \<noteq> [] \<Longrightarrow> duration_text ps \<noteq> lit ''less than a second''"
proof -
  assume "ps \<noteq> []"
  then have "hd (duration_text ps) = hd (item_text (hd ps))"
    by (induction ps rule: duration_text.induct) (auto simp: item_text_front(1))
  moreover have "c_isalpha (hd (lit ''less than a second''))"
    by (simp add: lit_def c_isalpha_def)
  ultimately show ?thesis using item_text_front(4) [of "hd ps"] by metis
qed

text \<open>
  C39. A duration the daemon writes as a comma-separated list of numbers and units, singular or
  plural, is read as its exact number of seconds when that fits 64 bits; otherwise the text is
  refused and the output keeps its value. No intermediate product or sum wraps around.
\<close>

theorem ParseIpsecDurationSeconds_text:
  assumes "ps \<noteq> []" and "length (duration_text ps) < 128"
  shows "ParseIpsecDurationSeconds (Some (duration_text ps)) (length (duration_text ps)) (Some x) =
     (if sum_list (map item_seconds ps) \<le> UINT64_MAX
      then Some (IPSEC_OK, Some (sum_list (map item_seconds ps)))
      else Some (IPSEC_ERR_VICI_PROTOCOL, Some x))"
proof -
  have "duration_text ps \<noteq> []"
    using assms(1) by (induction ps rule: duration_text.induct) (auto simp: item_text_front(1))
  then show ?thesis
    using duration_loop_items [OF assms(1), of 0 "[]"] duration_text_special [OF assms(1)] assms(2)
    by (auto simp: ParseIpsecDurationSeconds_def rd_bytes_def duration_text_cstr duration_outcome_def
        split: if_splits prod.splits)
qed

theorem ParseIpsecDurationSeconds_text_witness:
  "ParseIpsecDurationSeconds (Some (duration_text [(2, Hours, True), (1, Seconds, False)])) 17 (Some 5)
     = Some (IPSEC_OK, Some 7201)"
proof -
  let ?ps = "[(2, Hours, True), (1, Seconds, False)]"
  have len: "length (duration_text ?ps) = 17"
    by (simp add: unit_bytes_def show_nat.simps)
  have hyps: "?ps \<noteq> []" "length (duration_text ?ps) < 128"
    using len by simp_all
  show ?thesis
    using ParseIpsecDurationSeconds_text [OF hyps, of 5] unfolding len by simp
qed

text \<open>
  \<open>strtoull\<close> takes a sign, so \<open>ParseIpsecUint64\<close> accepts a negative numeral and returns its
  two's complement, and a duration may contain one.
\<close>

theorem negative_numbers_accepted:
  "ParseIpsecUint64 (Some (lit ''-1'')) 2 (Some 0) 10 = Some (IPSEC_OK, Some UINT64_MAX)
   \<and> ParseIpsecDurationSeconds (Some (lit ''-1 second'')) 9 (Some 0) = Some (IPSEC_OK, Some UINT64_MAX)"
proof -
  have one: "strtoull [45, 49] 10 = (UINT64_MAX, 2, False)"
    by (simp add: strtoull_def Let_def c_isspace_def sign_length_def number_digits_def number_base_def
        digit_value_def number_value_def)
  have sec: "strtoull [45, 49, 32, 115, 101, 99, 111, 110, 100] 10 = (UINT64_MAX, 2, False)"
    by (simp add: strtoull_def Let_def c_isspace_def sign_length_def number_digits_def number_base_def
        digit_value_def number_value_def)
  have tot: "duration_total UINT64_MAX [115, 101, 99, 111, 110, 100] 0 = (IPSEC_OK, UINT64_MAX)"
    by (simp add: duration_total_def GetIpsecDurationMultiplier_def lit_def)
  have pair: "duration_pair [45, 49, 32, 115, 101, 99, 111, 110, 100] 0 = (IPSEC_OK, UINT64_MAX, [])"
    using tot by (simp add: duration_pair_def sec c_isalpha_def)
  have "duration_loop [45, 49, 32, 115, 101, 99, 111, 110, 100] 0 = (IPSEC_OK, UINT64_MAX)"
    using pair by (subst duration_loop.simps) (simp add: duration_loop.simps [of "[]"])
  then show ?thesis
    using one by (simp add: ParseIpsecUint64_def ParseIpsecUnsigned_def ParseIpsecDurationSeconds_def
        rd_bytes_def lit_def cstr_def)
qed

text \<open>
  \<open>CalculateIpsecArraySize\<close> reports success exactly when the product of count and item size
  is a positive-size allocation request that fits \<open>size_t\<close>, and then returns that product.
\<close>

theorem CalculateIpsecArraySize_exact:
  "CalculateIpsecArraySize cnt isz (Some x) =
     (if isz \<noteq> 0 \<and> unat cnt * isz \<le> UINT64_MAX \<or> isz \<noteq> 0 \<and> cnt = 0
      then (True, Some (unat cnt * isz)) else (False, Some x))"
proof (cases "cnt = 0")
  case False
  then have "0 < unat cnt" by (simp add: unat_gt_0)
  then have "UINT64_MAX div unat cnt < isz \<longleftrightarrow> UINT64_MAX < unat cnt * isz"
    by (metis div_less_iff_less_mult mult.commute)
  with False show ?thesis by (auto simp: CalculateIpsecArraySize_def)
qed (simp add: CalculateIpsecArraySize_def)

end
