(* ===== verification/Inet_Checksum.thy ===== *)
theory Inet_Checksum
  imports Ipsec_Error
begin

text \<open>
  The ones' complement checksum as the packet validators compute it: 16-bit words of a byte range
  added into a 32-bit counter, then the carries folded back until the value fits 16 bits. The same
  loops occur in \<open>src/datapath/protected/protected_packet.c\<close> and in
  \<open>app/algorithm_packet_codec.c\<close>. The lemmas relate them to arithmetic modulo 65535.
\<close>

text \<open>\<^verbatim>\<open>for (zIndex = i; zIndex < n; zIndex += 2)\<close> over whole words.\<close>

function checksum_words :: "bytes \<Rightarrow> nat \<Rightarrow> nat \<Rightarrow> nat \<Rightarrow> nat option" where
  "checksum_words d i n acc =
     (if i < n then do {
        hi \<leftarrow> rd d i;
        lo \<leftarrow> rd d (i + 1);
        checksum_words d (i + 2) n (add32 acc (de16 hi lo))
      } else Some acc)"
  by pat_completeness auto
termination by (relation "measure (\<lambda>(d, i, n, acc). n - i)") auto

declare checksum_words.simps [simp del]

text \<open>The same loop where the last word may lack its low byte.\<close>

function checksum_bytes :: "bytes \<Rightarrow> nat \<Rightarrow> nat \<Rightarrow> nat \<Rightarrow> nat option" where
  "checksum_bytes d i n acc =
     (if i < n then do {
        hi \<leftarrow> rd d i;
        let acc = add32 acc (unat hi * 256);
        acc \<leftarrow> (if i + 1 < n then do { lo \<leftarrow> rd d (i + 1); Some (add32 acc (unat lo)) } else Some acc);
        checksum_bytes d (i + 2) n acc
      } else Some acc)"
  by pat_completeness auto
termination by (relation "measure (\<lambda>(d, i, n, acc). n - i)") auto

declare checksum_bytes.simps [simp del]

lemma fold_shrinks: "65535 < s \<Longrightarrow> s mod 65536 + s div 65536 < (s :: nat)"
  using div_mult_mod_eq [of s 65536] by linarith

function fold_checksum :: "nat \<Rightarrow> nat" where
  "fold_checksum s = (if s > UINT16_MAX then fold_checksum (s mod 65536 + s div 65536) else s)"
  by pat_completeness auto
termination by (relation "measure id") (auto intro: fold_shrinks)

declare fold_checksum.simps [simp del]

section \<open>Folding is reduction modulo 65535\<close>

lemma fold_step_mod: "(s mod 65536 + s div 65536) mod 65535 = s mod (65535 :: nat)"
proof -
  have "s = s div 65536 * 65535 + (s mod 65536 + s div 65536)"
    using div_mult_mod_eq [of s 65536] by simp
  then show ?thesis by (metis mod_mult_self3)
qed

lemma fold_checksum_props: "fold_checksum s \<le> 65535 \<and> fold_checksum s mod 65535 = s mod 65535
   \<and> (fold_checksum s = 0 \<longleftrightarrow> s = 0)"
proof (induction s rule: fold_checksum.induct)
  case (1 s)
  show ?case
  proof (cases "s > 65535")
    case True
    then have "s mod 65536 + s div 65536 \<noteq> 0"
      by (metis add_is_0 div_eq_0_iff mod_less not_less_eq numeral_eq_Suc pred_numeral_simps(3) zero_neq_numeral not_less0)
    with True 1 show ?thesis
      by (subst (1 2 3) fold_checksum.simps) (simp add: fold_step_mod)
  qed (simp add: fold_checksum.simps)
qed

lemma fold_checksum_ok: "fold_checksum s = UINT16_MAX \<longleftrightarrow> s \<noteq> 0 \<and> s mod 65535 = 0"
proof
  assume "fold_checksum s = UINT16_MAX"
  then show "s \<noteq> 0 \<and> s mod 65535 = 0"
    using fold_checksum_props [of s] by auto
next
  assume r: "s \<noteq> 0 \<and> s mod 65535 = 0"
  then have "fold_checksum s mod 65535 = 0" "fold_checksum s \<noteq> 0" "fold_checksum s \<le> 65535"
    using fold_checksum_props [of s] by auto
  then show "fold_checksum s = UINT16_MAX"
    by (metis le_neq_implies_less mod_less)
qed

section \<open>The sums\<close>

fun words_sum :: "bytes \<Rightarrow> nat" where
  "words_sum [] = 0"
| "words_sum [a] = unat a * 256"
| "words_sum (a # b # r) = de16 a b + words_sum r"

lemma words_sum_bound: "words_sum xs \<le> 65535 * ((length xs + 1) div 2)"
proof (induction xs rule: words_sum.induct)
  case (2 a)
  then show ?case using u8_bound [of a] by simp
next
  case (3 a b r)
  then show ?case using de16_bound [of a b] by simp
qed simp

lemma words_sum_append: "even (length xs) \<Longrightarrow> words_sum (xs @ ys) = words_sum xs + words_sum ys"
  by (induction xs rule: words_sum.induct) auto

lemma take_two:
  assumes "i + 1 < n" and "n \<le> length d"
  shows "take (n - i) (drop i d) = d ! i # d ! (i + 1) # take (n - (i + 2)) (drop (i + 2) d)"
proof -
  have "drop i d = d ! i # d ! (i + 1) # drop (i + 2) d"
    using assms by (simp add: Cons_nth_drop_Suc)
  moreover have "n - i = Suc (Suc (n - (i + 2)))" using assms by linarith
  ultimately show ?thesis by simp
qed

lemma checksum_words_sum:
  assumes "n \<le> length d" and "even (n - i)" and "acc + words_sum (take (n - i) (drop i d)) < 2 ^ 32"
  shows "checksum_words d i n acc = Some (acc + words_sum (take (n - i) (drop i d)))"
  using assms
proof (induction d i n acc rule: checksum_words.induct)
  case (1 d i n acc)
  show ?case
  proof (cases "i < n")
    case True
    with 1(3) have lt: "i + 1 < n" by (metis Suc_eq_plus1 Suc_lessI diff_Suc_1 diff_add_inverse2 odd_one plus_1_eq_Suc)
    note two = take_two [OF lt 1(2)]
    have acc: "add32 acc (de16 (d ! i) (d ! (i + 1))) = acc + de16 (d ! i) (d ! (i + 1))"
      using 1(4) two by (intro add32_exact) simp
    have rds: "rd d i = Some (d ! i)" "rd d (i + 1) = Some (d ! (i + 1))"
      using lt 1(2) by (simp_all add: mem_simps)
    have "even (n - (i + 2))" using 1(3) lt by simp
    then have "checksum_words d (i + 2) n (acc + de16 (d ! i) (d ! (i + 1))) =
        Some (acc + de16 (d ! i) (d ! (i + 1)) + words_sum (take (n - (i + 2)) (drop (i + 2) d)))"
      using 1(1) [OF True rds] 1(2,4) two acc by (simp add: add.assoc)
    with True rds acc two show ?thesis
      by (subst checksum_words.simps) (simp add: add.assoc)
  qed (simp add: checksum_words.simps)
qed

lemma checksum_bytes_sum:
  assumes "n \<le> length d" and "acc + words_sum (take (n - i) (drop i d)) < 2 ^ 32"
  shows "checksum_bytes d i n acc = Some (acc + words_sum (take (n - i) (drop i d)))"
  using assms
proof (induction d i n acc rule: checksum_bytes.induct)
  case (1 d i n acc)
  consider (stop) "\<not> i < n" | (last) "i < n" "\<not> i + 1 < n" | (two) "i + 1 < n" by linarith
  then show ?case
  proof cases
    case stop
    then show ?thesis by (simp add: checksum_bytes.simps)
  next
    case last
    then have n: "n = i + 1" by simp
    have "take (n - i) (drop i d) = [d ! i]"
      using last 1(2) n by (simp add: take_Suc_conv_app_nth drop_eq_Cons)
    with last n 1(2,3) show ?thesis
      by (simp add: checksum_bytes.simps [of d i "Suc i"] checksum_bytes.simps [of d "Suc (Suc i)" "Suc i"]
          mem_simps wrap_simps)
  next
    case two
    note parts = take_two [OF two 1(2)]
    have acc: "add32 (add32 acc (unat (d ! i) * 256)) (unat (d ! (i + 1))) = acc + de16 (d ! i) (d ! (i + 1))"
      "add32 acc (unat (d ! i) * 256) = acc + unat (d ! i) * 256"
      using 1(3) parts by (simp_all add: wrap_simps de16_def)
    have rds: "rd d i = Some (d ! i)" "rd d (i + 1) = Some (d ! (i + 1))"
      using two 1(2) by (simp_all add: mem_simps)
    have "checksum_bytes d (i + 2) n (acc + de16 (d ! i) (d ! (i + 1))) =
        Some (acc + de16 (d ! i) (d ! (i + 1)) + words_sum (take (n - (i + 2)) (drop (i + 2) d)))"
      by (rule 1(1)) (use two rds acc parts 1(2,3) in \<open>auto simp: add.assoc\<close>)
    with two rds acc parts show ?thesis
      by (subst checksum_bytes.simps) (simp add: add.assoc)
  qed
qed

text \<open>The checksum that makes a range valid: the complement of the folded sum.\<close>

lemma checksum_complement:
  assumes "s \<noteq> 0"
  shows "fold_checksum (s + (65535 - fold_checksum s)) = UINT16_MAX"
proof -
  have f: "fold_checksum s \<le> 65535" "fold_checksum s mod 65535 = s mod 65535"
    using fold_checksum_props [of s] by auto
  have "(s + (65535 - fold_checksum s)) mod 65535 = (fold_checksum s + (65535 - fold_checksum s)) mod 65535"
    by (metis f(2) mod_add_left_eq)
  also have "\<dots> = 0" using f(1) by simp
  finally show ?thesis using assms by (simp add: fold_checksum_ok)
qed

end
