(* ===== verification/Protected_Packet.thy ===== *)
theory Protected_Packet
  imports Inet_Checksum
begin

text \<open>
  Validation of the packets of the protected path, \<open>src/datapath/protected/protected_packet.c\<close>: the
  framing check of raw ESP packets and the classifier for the IPv6 control packets that Linux sends
  on a fresh TUN device. A result \<open>None\<close> is a read outside the packet.
\<close>

definition IPSEC_PROTECTED_PACKET_CAPACITY :: nat where
  "IPSEC_PROTECTED_PACKET_CAPACITY = 65535"

datatype IpsecProtectedPacketType = IPSEC_PROTECTED_PACKET_RAW_ESP | IPSEC_PROTECTED_PACKET_UDP_ESP

datatype IpsecPacketDirection = IPSEC_PACKET_DIRECTION_INBOUND | IPSEC_PACKET_DIRECTION_OUTBOUND

record IpsecProtectedPacket =
  pp_uiStructSize :: nat
  pp_pucData :: "bytes option"
  pp_zCapacity :: nat
  pp_zLength :: nat
  pp_eType :: IpsecProtectedPacketType
  pp_eDirection :: IpsecPacketDirection

text \<open>The size of the structure on the LP64 targets.\<close>

definition protected_packet_size :: nat where
  "protected_packet_size = 40"

definition ValidateIpsecProtectedPacket :: "IpsecProtectedPacket option \<Rightarrow> IpsecError option" where
  "ValidateIpsecProtectedPacket pPacket =
     (case pPacket of None \<Rightarrow> Some IPSEC_ERR_INVALID_ARGUMENT
      | Some p \<Rightarrow>
        (case pp_pucData p of None \<Rightarrow> Some IPSEC_ERR_INVALID_ARGUMENT
         | Some d \<Rightarrow>
           if pp_uiStructSize p \<noteq> protected_packet_size \<or> pp_zLength p > pp_zCapacity p
              \<or> pp_zLength p > IPSEC_PROTECTED_PACKET_CAPACITY
           then Some IPSEC_ERR_INVALID_ARGUMENT
           else if pp_eType p \<noteq> IPSEC_PROTECTED_PACKET_RAW_ESP then Some IPSEC_ERR_PACKET_TYPE
           else if pp_zLength p < 20 then Some IPSEC_ERR_PACKET_INVALID
           else do {
             b0 \<leftarrow> rd d 0;
             b9 \<leftarrow> rd d 9;
             if drop_bit 4 b0 \<noteq> 4 \<or> b9 \<noteq> 50 then Some IPSEC_ERR_PACKET_TYPE
             else do {
               let zHeader = unat (b0 AND 0x0f) * 4;
               b2 \<leftarrow> rd d 2;
               b3 \<leftarrow> rd d 3;
               if zHeader < 20 \<or> zHeader + 8 \<ge> pp_zLength p \<or> pp_zLength p \<noteq> de16 b2 b3
               then Some IPSEC_ERR_PACKET_INVALID
               else do {
                 b6 \<leftarrow> rd d 6;
                 b7 \<leftarrow> rd d 7;
                 if b6 AND 0xbf \<noteq> 0 \<or> b7 \<noteq> 0 then Some IPSEC_ERR_PACKET_TYPE
                 else do {
                   uiChecksum \<leftarrow> checksum_words d 0 zHeader 0;
                   s0 \<leftarrow> rd d zHeader;
                   s1 \<leftarrow> rd d (zHeader + 1);
                   s2 \<leftarrow> rd d (zHeader + 2);
                   s3 \<leftarrow> rd d (zHeader + 3);
                   if fold_checksum uiChecksum \<noteq> UINT16_MAX \<or> (s0 OR s1 OR s2 OR s3) = 0
                   then Some IPSEC_ERR_PACKET_INVALID
                   else Some IPSEC_OK
                 }
               }
             }
           }))"

section \<open>Control packets on the TUN device\<close>

text \<open>
  The loop over the hop-by-hop options: \<open>Some None\<close> is an early \<^verbatim>\<open>return false\<close>,
  \<open>Some (Some a)\<close> the end of the options with the router alert flag \<open>a\<close>.
\<close>

function option_loop :: "bytes \<Rightarrow> nat \<Rightarrow> nat \<Rightarrow> bool \<Rightarrow> (bool option) option" where
  "option_loop d zOffset zIndex bRouterAlert =
     (if zIndex < zOffset then do {
        ucOption \<leftarrow> rd d zIndex;
        if ucOption = 0 then option_loop d zOffset (zIndex + 1) bRouterAlert
        else if zIndex + 1 \<ge> zOffset then Some None
        else do {
          l \<leftarrow> rd d (zIndex + 1);
          let i = zIndex + 2;
          if unat l > zOffset - i then Some None
          else do {
            alert \<leftarrow> (if ucOption = 5 \<and> l = 2 then do {
                        v0 \<leftarrow> rd d i;
                        v1 \<leftarrow> rd d (i + 1);
                        Some (v0 = 0 \<and> v1 = 0)
                      } else Some False);
            if alert then option_loop d zOffset (i + unat l) True
            else if ucOption \<noteq> 1 then Some None
            else option_loop d zOffset (i + unat l) bRouterAlert
          }
        }
      } else Some (Some bRouterAlert))"
  by pat_completeness auto
termination by (relation "measure (\<lambda>(d, off, i, a). off - i)") auto

declare option_loop.simps [simp del]

definition icmp_allowed :: "u8 \<Rightarrow> nat \<Rightarrow> nat \<Rightarrow> u8 \<Rightarrow> bool \<Rightarrow> bool" where
  "icmp_allowed ucType zOffset zIcmpLength hops bRouterAlert =
     (if ucType = 133 \<or> ucType = 135 \<or> ucType = 136
      then zOffset = 40 \<and> hops = 255 \<and> zIcmpLength \<ge> (if ucType = 133 then 8 else 24)
      else if ucType = 131 \<or> ucType = 132 \<or> ucType = 143
      then bRouterAlert \<and> hops = 1 \<and> zIcmpLength \<ge> (if ucType = 143 then 8 else 24)
      else False)"

text \<open>The part behind the extension header: type, code, hop limit and checksum.\<close>

definition icmp_part :: "bytes \<Rightarrow> nat \<Rightarrow> nat \<Rightarrow> bool \<Rightarrow> bool option" where
  "icmp_part d zLength zOffset bRouterAlert = do {
     ucType \<leftarrow> rd d zOffset;
     code \<leftarrow> rd d (zOffset + 1);
     hops \<leftarrow> rd d 7;
     let zIcmpLength = zLength - zOffset;
     if code \<noteq> 0 then Some False
     else if \<not> icmp_allowed ucType zOffset zIcmpLength hops bRouterAlert then Some False
     else do {
       s \<leftarrow> checksum_words d 8 40 (add32 (zIcmpLength mod 2 ^ 32) 58);
       s \<leftarrow> checksum_bytes d zOffset zLength s;
       Some (fold_checksum s = UINT16_MAX)
     }
   }"

definition IsIpsecProtectedTunControlPacket :: "bytes option \<Rightarrow> nat \<Rightarrow> bool option" where
  "IsIpsecProtectedTunControlPacket pucData zLength =
     (case pucData of None \<Rightarrow> Some False
      | Some d \<Rightarrow>
        if zLength < 48 \<or> zLength > IPSEC_PROTECTED_PACKET_CAPACITY then Some False
        else do {
          b0 \<leftarrow> rd d 0; b4 \<leftarrow> rd d 4; b5 \<leftarrow> rd d 5; b24 \<leftarrow> rd d 24; b25 \<leftarrow> rd d 25;
          if drop_bit 4 b0 \<noteq> 6 \<or> zLength - 40 \<noteq> de16 b4 b5 \<or> b24 \<noteq> 0xff \<or> b25 \<noteq> 2
          then Some False
          else do {
            src \<leftarrow> rd_bytes d 8 16;
            b8 \<leftarrow> rd d 8; b9 \<leftarrow> rd d 9;
            if (\<exists>b \<in> set src. b \<noteq> 0) \<and> (b8 \<noteq> 0xfe \<or> b9 AND 0xc0 \<noteq> 0x80) then Some False
            else do {
              b6 \<leftarrow> rd d 6;
              if b6 = 0 then do {
                b41 \<leftarrow> rd d 41;
                b40 \<leftarrow> rd d 40;
                let zOffset = 40 + (unat b41 + 1) * 8;
                if zOffset + 8 > zLength \<or> b40 \<noteq> 58 then Some False
                else do {
                  r \<leftarrow> option_loop d zOffset 42 False;
                  (case r of None \<Rightarrow> Some False
                   | Some alert \<Rightarrow> icmp_part d zLength zOffset alert)
                }
              }
              else if b6 \<noteq> 58 then Some False
              else icmp_part d zLength 40 False
            }
          }
        })"

section \<open>ESP framing\<close>

text \<open>
  What a raw ESP packet is: an IPv4 header of 20 to 60 bytes with a valid checksum, unfragmented,
  whose total length is that of the packet and whose payload is a nonzero SPI, a sequence number
  and at least one more byte.
\<close>

definition esp_header :: "bytes \<Rightarrow> nat \<Rightarrow> bool" where
  "esp_header hdr n \<longleftrightarrow> 20 \<le> length hdr \<and> drop_bit 4 (hdr ! 0) = 4
     \<and> unat (hdr ! 0 AND 0x0f) * 4 = length hdr \<and> de16 (hdr ! 2) (hdr ! 3) = n
     \<and> hdr ! 6 AND 0xbf = 0 \<and> hdr ! 7 = 0 \<and> hdr ! 9 = 50 \<and> words_sum hdr mod 65535 = 0"

definition esp_packet :: "bytes \<Rightarrow> bytes \<Rightarrow> bool" where
  "esp_packet xs spi \<longleftrightarrow>
     (\<exists>hdr sqn body. xs = hdr @ spi @ sqn @ body \<and> esp_header hdr (length xs)
        \<and> length spi = 4 \<and> (\<exists>b \<in> set spi. b \<noteq> 0) \<and> length sqn = 4 \<and> body \<noteq> [])"

lemma ihl_bound: "unat (b AND 0x0f :: u8) \<le> 15"
proof -
  have "b AND 0x0f \<le> (0x0f :: u8)" by (rule word_and_le1)
  then show ?thesis by (simp add: word_le_nat_alt)
qed

lemma or_zero_iff: "(a OR b :: 8 word) = 0 \<longleftrightarrow> a = 0 \<and> b = 0"
  by (auto simp: or_eq_0_iff)

text \<open>The framing conditions on the bytes, without the memory accesses.\<close>

definition header_length :: "bytes \<Rightarrow> nat" where
  "header_length d = unat (d ! 0 AND 0x0f) * 4"

definition header_sum_ok :: "bytes \<Rightarrow> nat \<Rightarrow> bool" where
  "header_sum_ok d h \<longleftrightarrow> fold_checksum (words_sum (take h d)) = UINT16_MAX"

lemma header_checksum:
  assumes "h \<le> length d" and "h = unat (b AND 0x0f :: u8) * 4"
  shows "checksum_words d 0 h 0 = Some (words_sum (take h d))"
proof -
  have "h \<le> 60" using ihl_bound [of b] assms(2) by simp
  then have "(length (take h d) + 1) div 2 \<le> 30" by simp
  moreover have "words_sum (take h d) \<le> 65535 * ((length (take h d) + 1) div 2)"
    by (rule words_sum_bound)
  ultimately have "words_sum (take h d) < 2 ^ 32" by simp
  moreover have "even h" using assms(2) by simp
  ultimately show ?thesis
    using checksum_words_sum [of h d 0 0] assms(1) by simp
qed

lemma Validate_value:
  assumes d: "pp_pucData p = Some d" and len: "pp_zLength p \<le> length d"
    and args: "pp_uiStructSize p = protected_packet_size" "pp_zLength p \<le> pp_zCapacity p"
      "pp_zLength p \<le> IPSEC_PROTECTED_PACKET_CAPACITY" "pp_eType p = IPSEC_PROTECTED_PACKET_RAW_ESP"
    and h: "h = header_length d"
  shows "ValidateIpsecProtectedPacket (Some p) = Some
    (if pp_zLength p < 20 then IPSEC_ERR_PACKET_INVALID
     else if drop_bit 4 (d ! 0) \<noteq> 4 \<or> d ! 9 \<noteq> 50 then IPSEC_ERR_PACKET_TYPE
     else if h < 20 \<or> h + 8 \<ge> pp_zLength p \<or> pp_zLength p \<noteq> de16 (d ! 2) (d ! 3)
     then IPSEC_ERR_PACKET_INVALID
     else if d ! 6 AND 0xbf \<noteq> 0 \<or> d ! 7 \<noteq> 0 then IPSEC_ERR_PACKET_TYPE
     else if \<not> header_sum_ok d h \<or> (d ! h OR d ! (h + 1) OR d ! (h + 2) OR d ! (h + 3)) = 0
     then IPSEC_ERR_PACKET_INVALID else IPSEC_OK)"
proof (cases "pp_zLength p < 20")
  case True
  with d args show ?thesis by (simp add: ValidateIpsecProtectedPacket_def)
next
  case False
  then have fixed: "rd d 0 = Some (d ! 0)" "rd d 9 = Some (d ! 9)" "rd d 2 = Some (d ! 2)"
    "rd d 3 = Some (d ! 3)" "rd d 6 = Some (d ! 6)" "rd d 7 = Some (d ! 7)"
    using len by (auto simp: rd_def)
  show ?thesis
  proof (cases "h + 8 \<ge> pp_zLength p")
    case True
    with False d args fixed h show ?thesis
      by (simp add: ValidateIpsecProtectedPacket_def header_length_def Let_def)
  next
    case inside: False
    then have spi: "rd d h = Some (d ! h)" "rd d (h + 1) = Some (d ! (h + 1))"
      "rd d (h + 2) = Some (d ! (h + 2))" "rd d (h + 3) = Some (d ! (h + 3))"
      using len by (simp_all add: rd_def)
    have sum: "checksum_words d 0 h 0 = Some (words_sum (take h d))"
      by (rule header_checksum) (use inside len h in \<open>auto simp: header_length_def\<close>)
    show ?thesis
      using False inside d args fixed spi sum h
      by (simp add: ValidateIpsecProtectedPacket_def header_length_def header_sum_ok_def Let_def)
  qed
qed

lemma take_segments:
  assumes "h + 8 < n" and "n \<le> length d"
  shows "take n d = take h d @ take 4 (drop h d) @ take 4 (drop (h + 4) d) @ take (n - (h + 8)) (drop (h + 8) d)"
proof -
  have "take n d = take h d @ take (n - h) (drop h d)"
    using take_add [of h "n - h" d] assms by simp
  moreover have "take (n - h) (drop h d) = take 4 (drop h d) @ take (n - h - 4) (drop (h + 4) d)"
    using take_add [of 4 "n - h - 4" "drop h d"] assms by (simp add: add.commute)
  moreover have "take (n - h - 4) (drop (h + 4) d) = take 4 (drop (h + 4) d) @ take (n - (h + 8)) (drop (h + 8) d)"
    using take_add [of 4 "n - h - 4 - 4" "drop (h + 4) d"] assms by (simp add: add.commute)
  ultimately show ?thesis by simp
qed

lemma four_bytes:
  assumes "h + 3 < length d"
  shows "take 4 (drop h d) = [d ! h, d ! (h + 1), d ! (h + 2), d ! (h + 3)]"
proof -
  have "drop h d = d ! h # d ! (h + 1) # d ! (h + 2) # d ! (h + 3) # drop (h + 4) d"
    using assms by (simp add: Cons_nth_drop_Suc numeral_eq_Suc)
  then show ?thesis by simp
qed

lemma first_byte_sum: "4 \<le> length hdr \<Longrightarrow> drop_bit 4 (hdr ! 0) = (4 :: u8) \<Longrightarrow> words_sum hdr \<noteq> 0"
proof -
  assume "4 \<le> length hdr" and v: "drop_bit 4 (hdr ! 0) = (4 :: u8)"
  then obtain a b r where hdr: "hdr = a # b # r"
    by (cases hdr; cases "tl hdr"; force)
  moreover have "a \<noteq> 0" using v hdr by auto
  ultimately show ?thesis by (simp add: de16_def unat_eq_0)
qed

text \<open>The conditions the validators check, in terms of the bytes of the packet.\<close>

definition esp_conditions :: "bytes \<Rightarrow> nat \<Rightarrow> bool" where
  "esp_conditions d n \<longleftrightarrow>
     (let h = header_length d in
      20 \<le> h \<and> h + 8 < n \<and> drop_bit 4 (d ! 0) = 4 \<and> d ! 9 = 50 \<and> n = de16 (d ! 2) (d ! 3)
      \<and> d ! 6 AND 0xbf = 0 \<and> d ! 7 = 0 \<and> header_sum_ok d h
      \<and> (d ! h OR d ! (h + 1) OR d ! (h + 2) OR d ! (h + 3)) \<noteq> 0)"

lemma esp_conditions_packet:
  assumes n: "n \<le> length d" and c: "esp_conditions d n"
  shows "esp_packet (take n d) (take 4 (drop (header_length d) d))"
proof -
  let ?h = "header_length d"
  have c: "20 \<le> ?h" "?h + 8 < n" "drop_bit 4 (d ! 0) = 4" "d ! 9 = 50" "n = de16 (d ! 2) (d ! 3)"
    "d ! 6 AND 0xbf = 0" "d ! 7 = 0" "header_sum_ok d ?h"
    "(d ! ?h OR d ! (?h + 1) OR d ! (?h + 2) OR d ! (?h + 3)) \<noteq> 0"
    using c by (auto simp: esp_conditions_def Let_def)
  have hdr: "esp_header (take ?h d) (length (take n d))"
    using c n by (auto simp: esp_header_def header_length_def header_sum_ok_def fold_checksum_ok)
  have "\<exists>b \<in> set (take 4 (drop ?h d)). b \<noteq> 0"
    using c n by (auto simp: four_bytes or_zero_iff)
  then show ?thesis
    unfolding esp_packet_def using hdr c(2) n take_segments [OF c(2) n]
    by (intro exI [of _ "take ?h d"] exI [of _ "take 4 (drop (?h + 4) d)"]
        exI [of _ "take (n - (?h + 8)) (drop (?h + 8) d)"]) auto
qed

lemma esp_packet_conditions:
  assumes n: "n \<le> length d" and xs: "esp_packet (take n d) spi"
  shows "esp_conditions d n \<and> take 4 (drop (header_length d) d) = spi"
proof -
  obtain hdr sqn body where p: "take n d = hdr @ spi @ sqn @ body" "length spi = 4" "length sqn = 4" "body \<noteq> []"
    and hdr: "esp_header hdr (length (take n d))" and spi: "\<exists>b \<in> set spi. b \<noteq> 0"
    using xs unfolding esp_packet_def by blast
  have len: "length (take n d) = n" using n by simp
  let ?r = "drop n d" and ?h = "header_length d"
  have r: "d = hdr @ spi @ sqn @ body @ ?r"
    using append_take_drop_id [of n d] unfolding p(1) by simp
  have nth: "d ! i = hdr ! i" if "i < 20" for i
    using that hdr by (subst r) (simp add: nth_append esp_header_def)
  have hl: "?h = length hdr"
    using hdr nth [of 0] by (simp add: header_length_def esp_header_def)
  have take: "take ?h d = hdr" "take 4 (drop ?h d) = spi"
    unfolding hl by (subst r, simp add: p(2))+
  have bound: "?h + 8 < n"
    using arg_cong [OF p(1), of length] p(2-4) unfolding len hl by simp
  then have or: "(d ! ?h OR d ! (?h + 1) OR d ! (?h + 2) OR d ! (?h + 3)) \<noteq> 0"
    using spi take(2) four_bytes [of ?h d] n by (auto simp: or_zero_iff)
  have "header_sum_ok d ?h"
    using hdr first_byte_sum [of hdr] by (simp add: header_sum_ok_def take(1) fold_checksum_ok esp_header_def)
  with or bound hdr nth hl take(2) len show ?thesis
    by (simp add: esp_conditions_def esp_header_def)
qed

lemma Validate_OK_iff:
  assumes "pp_pucData p = Some d" and "pp_zLength p \<le> length d"
    and "pp_uiStructSize p = protected_packet_size" "pp_zLength p \<le> pp_zCapacity p"
      "pp_zLength p \<le> IPSEC_PROTECTED_PACKET_CAPACITY" "pp_eType p = IPSEC_PROTECTED_PACKET_RAW_ESP"
  shows "\<exists>e. ValidateIpsecProtectedPacket (Some p) = Some e
     \<and> (e = IPSEC_OK \<longleftrightarrow> esp_conditions d (pp_zLength p))"
  using Validate_value [OF assms refl] by (auto simp: esp_conditions_def Let_def)

text \<open>
  C26. \<open>ValidateIpsecProtectedPacket\<close> stays inside the packet and accepts exactly the raw ESP
  packets of at most 65535 bytes: an unfragmented IPv4 header with a correct ones' complement
  checksum and length, followed by a nonzero SPI, a sequence number and a nonempty body.
\<close>

theorem ValidateIpsecProtectedPacket_exact:
  assumes "pp_pucData p = Some d" and "pp_zLength p \<le> length d"
  shows "\<exists>e. ValidateIpsecProtectedPacket (Some p) = Some e
     \<and> (e = IPSEC_OK \<longleftrightarrow>
          pp_uiStructSize p = protected_packet_size \<and> pp_zLength p \<le> pp_zCapacity p
          \<and> pp_zLength p \<le> IPSEC_PROTECTED_PACKET_CAPACITY \<and> pp_eType p = IPSEC_PROTECTED_PACKET_RAW_ESP
          \<and> (\<exists>spi. esp_packet (take (pp_zLength p) d) spi))"
proof (cases "pp_uiStructSize p = protected_packet_size \<and> pp_zLength p \<le> pp_zCapacity p
          \<and> pp_zLength p \<le> IPSEC_PROTECTED_PACKET_CAPACITY \<and> pp_eType p = IPSEC_PROTECTED_PACKET_RAW_ESP")
  case False
  with assms(1) show ?thesis
    by (auto simp: ValidateIpsecProtectedPacket_def)
next
  case True
  then obtain e where "ValidateIpsecProtectedPacket (Some p) = Some e"
    "e = IPSEC_OK \<longleftrightarrow> esp_conditions d (pp_zLength p)"
    using Validate_OK_iff [OF assms] by blast
  with True assms(2) show ?thesis
    using esp_conditions_packet [of "pp_zLength p" d] esp_packet_conditions [of "pp_zLength p" d] by blast
qed

theorem ValidateIpsecProtectedPacket_exact_witness:
  "ValidateIpsecProtectedPacket (Some \<lparr>pp_uiStructSize = 40, pp_pucData = Some
        [0x45, 0, 0, 29, 0, 0, 0, 0, 64, 50, 0x66, 0xad, 10, 0, 0, 1, 10, 0, 0, 2, 0, 0, 0, 1, 0, 0, 0, 1, 7],
        pp_zCapacity = 29, pp_zLength = 29, pp_eType = IPSEC_PROTECTED_PACKET_RAW_ESP,
        pp_eDirection = IPSEC_PACKET_DIRECTION_INBOUND\<rparr>) = Some IPSEC_OK"
proof -
  let ?hdr = "[0x45, 0, 0, 29, 0, 0, 0, 0, 64, 50, 0x66, 0xad, 10, 0, 0, 1, 10, 0, 0, 2] :: bytes"
  let ?d = "?hdr @ [0, 0, 0, 1] @ [0, 0, 0, 1] @ [7]"
  let ?p = "\<lparr>pp_uiStructSize = 40, pp_pucData = Some ?d,
        pp_zCapacity = 29, pp_zLength = 29, pp_eType = IPSEC_PROTECTED_PACKET_RAW_ESP,
        pp_eDirection = IPSEC_PACKET_DIRECTION_INBOUND\<rparr>"
  have "esp_packet (take 29 ?d) [0, 0, 0, 1]"
    unfolding esp_packet_def
    by (rule exI [of _ ?hdr], rule exI [of _ "[0, 0, 0, 1]"], rule exI [of _ "[7]"]) (simp add: esp_header_def de16_def)
  then show ?thesis
    using ValidateIpsecProtectedPacket_exact [of ?p ?d]
    by (auto simp: protected_packet_size_def IPSEC_PROTECTED_PACKET_CAPACITY_def)
qed

section \<open>Control packets\<close>

lemma option_loop_safe:
  "zOffset + 2 \<le> length d \<Longrightarrow> option_loop d zOffset i a \<noteq> None"
proof (induction d zOffset i a rule: option_loop.induct)
  case step: (1 d zOffset i a)
  have rds: "i < zOffset \<Longrightarrow> rd d i = Some (d ! i)" "i < zOffset \<Longrightarrow> rd d (i + 1) = Some (d ! (i + 1))"
    "i < zOffset \<Longrightarrow> rd d (i + 2) = Some (d ! (i + 2))"
    "i < zOffset \<Longrightarrow> 2 \<le> zOffset - (i + 2) \<Longrightarrow> rd d (i + 2 + 1) = Some (d ! (i + 2 + 1))"
    using step.prems by (auto simp: rd_def)
  show ?case
  proof (cases "i < zOffset")
    case True
    with rds step show ?thesis
      by (subst option_loop.simps) (auto simp: Let_def simp del: One_nat_def)
  qed (simp add: option_loop.simps)
qed

lemma icmp_part_safe:
  assumes "zOffset + 8 \<le> n" and "n \<le> length d" and "40 \<le> zOffset" and "n \<le> 65535"
  shows "icmp_part d n zOffset alert = Some
     (d ! (zOffset + 1) = 0 \<and> icmp_allowed (d ! zOffset) zOffset (n - zOffset) (d ! 7) alert
      \<and> (n - zOffset + 58 + words_sum (take 32 (drop 8 d)) + words_sum (take (n - zOffset) (drop zOffset d))) mod 65535 = 0)"
proof -
  let ?k = "n - zOffset" and ?a = "words_sum (take 32 (drop 8 d))" and ?b = "words_sum (take (n - zOffset) (drop zOffset d))"
  have rds: "rd d zOffset = Some (d ! zOffset)" "rd d (zOffset + 1) = Some (d ! (zOffset + 1))" "rd d 7 = Some (d ! 7)"
    using assms by (auto simp: rd_def)
  have "?a \<le> 65535 * ((length (take 32 (drop 8 d)) + 1) div 2)" "?b \<le> 65535 * ((length (take ?k (drop zOffset d)) + 1) div 2)"
    by (rule words_sum_bound)+
  moreover have "(length (take 32 (drop 8 d)) + 1) div 2 \<le> 16" "(length (take ?k (drop zOffset d)) + 1) div 2 \<le> 32768"
    using assms by auto
  ultimately have ab: "?a \<le> 65535 * 16" "?b \<le> 65535 * 32768"
    by (meson mult_le_mono2 order_trans)+
  have k: "add32 (?k mod 2 ^ 32) 58 = ?k + 58"
    using assms by (simp add: add32_def)
  have "checksum_words d 8 40 (?k + 58) = Some (?k + 58 + ?a)"
    using checksum_words_sum [of 40 d 8 "?k + 58"] ab assms by simp
  moreover have "checksum_bytes d zOffset n (?k + 58 + ?a) = Some (?k + 58 + ?a + ?b)"
    using ab assms by (intro checksum_bytes_sum) auto
  ultimately show ?thesis
    using rds k by (simp add: icmp_part_def Let_def fold_checksum_ok)
qed

text \<open>
  The options a control packet may carry: padding and the router alert for MLD; the flag says
  whether there is a router alert.
\<close>

inductive hop_options :: "bool \<Rightarrow> bytes \<Rightarrow> bool" where
  opt_end: "hop_options False []"
| opt_pad1: "hop_options a xs \<Longrightarrow> hop_options a (0 # xs)"
| opt_padn: "hop_options a xs \<Longrightarrow> length pad = unat l \<Longrightarrow> hop_options a (1 # l # pad @ xs)"
| opt_alert: "hop_options a xs \<Longrightarrow> hop_options True (5 # 2 # 0 # 0 # xs)"

inductive_cases hop_options_ConsE: "hop_options a (x # xs)"

definition region :: "bytes \<Rightarrow> nat \<Rightarrow> nat \<Rightarrow> bytes" where
  "region d n i = take (n - i) (drop i d)"

lemma region_end: "n \<le> i \<Longrightarrow> region d n i = []"
  by (simp add: region_def)

lemma region_Cons: "i < n \<Longrightarrow> n \<le> length d \<Longrightarrow> region d n i = d ! i # region d n (i + 1)"
  unfolding region_def by (subst drop_eq_Cons) (auto simp: take_Cons')

lemma region_split:
  "i + k \<le> n \<Longrightarrow> n \<le> length d \<Longrightarrow> region d n i = take k (drop i d) @ region d n (i + k)"
  unfolding region_def using take_add [of k "n - (i + k)" "drop i d"]
  by (simp add: drop_drop add.commute [of k i] del: take_drop drop_take)

lemma region_nonempty: "region d n i = x # xs \<Longrightarrow> n \<le> length d \<Longrightarrow> i < n \<and> x = d ! i \<and> xs = region d n (i + 1)"
  using region_Cons [of i n d] region_end [of n i d] by (cases "i < n") auto

lemma option_loop_pad1:
  "i < n \<Longrightarrow> n + 2 \<le> length d \<Longrightarrow> d ! i = 0 \<Longrightarrow> option_loop d n i a = option_loop d n (i + 1) a"
  by (simp add: option_loop.simps [of d n i a] rd_def)

lemma option_loop_option:
  assumes "i < n" and "n + 2 \<le> length d" and "d ! i \<noteq> 0"
  shows "option_loop d n i a =
    (if i + 1 \<ge> n \<or> i + 2 + unat (d ! (i + 1)) > n then Some None
     else if d ! i = 5 \<and> d ! (i + 1) = 2 \<and> d ! (i + 2) = 0 \<and> d ! (i + 3) = 0
     then option_loop d n (i + 2 + unat (d ! (i + 1))) True
     else if d ! i \<noteq> 1 then Some None
     else option_loop d n (i + 2 + unat (d ! (i + 1))) a)"
proof -
  have rds: "rd d i = Some (d ! i)" "rd d (i + 1) = Some (d ! (i + 1))" "rd d (i + 2) = Some (d ! (i + 2))"
    using assms by (simp_all add: rd_def)
  have "rd d (i + 2 + 1) = Some (d ! (i + 3))" if "i + 4 \<le> n"
    using that assms by (simp add: rd_def numeral_3_eq_3)
  with assms rds show ?thesis
    by (subst option_loop.simps) (auto simp: Let_def simp del: One_nat_def)
qed

lemma option_loop_sound:
  assumes n: "n + 2 \<le> length d"
  shows "option_loop d n i a = Some (Some r) \<Longrightarrow> \<exists>a'. hop_options a' (region d n i) \<and> r = (a \<or> a')"
proof (induction "n - i" arbitrary: i a rule: less_induct)
  case less
  consider (stop) "\<not> i < n" | (pad) "i < n" "d ! i = 0" | (opt) "i < n" "d ! i \<noteq> 0" by blast
  then show ?case
  proof cases
    case stop
    with less.prems show ?thesis
      by (auto simp: option_loop.simps [of d n i a] region_end intro: opt_end)
  next
    case pad
    with less.prems n have "option_loop d n (i + 1) a = Some (Some r)"
      by (simp add: option_loop_pad1)
    moreover have "n - (i + 1) < n - i" using pad by simp
    ultimately obtain a' where "hop_options a' (region d n (i + 1))" "r = (a \<or> a')"
      using less.hyps by blast
    with pad n region_Cons [of i n d] show ?thesis
      by (auto intro: opt_pad1)
  next
    case opt
    let ?j = "i + 2 + unat (d ! (i + 1))"
    have bound: "i + 1 < n" "?j \<le> n"
      using less.prems option_loop_option [OF opt(1) n opt(2), of a] by (auto split: if_splits)
    have shorter: "n - ?j < n - i" using opt(1) by simp
    have reg: "region d n i = d ! i # d ! (i + 1) # take (unat (d ! (i + 1))) (drop (i + 2) d) @ region d n ?j"
      using region_Cons [OF opt(1), of d] region_Cons [OF bound(1), of d] region_split [OF bound(2), of d] n by simp
    show ?thesis
    proof (cases "d ! i = 5 \<and> d ! (i + 1) = 2 \<and> d ! (i + 2) = 0 \<and> d ! (i + 3) = 0")
      case alert: True
      with less.prems option_loop_option [OF opt(1) n opt(2), of a] bound
      have "option_loop d n ?j True = Some (Some r)" by simp
      then obtain a' where "hop_options a' (region d n ?j)" "r = (True \<or> a')"
        using less.hyps [OF shorter] by blast
      moreover have "take 2 (drop (i + 2) d) = [0, 0]"
        using alert bound n by (simp add: drop_eq_Cons numeral_3_eq_3 numeral_2_eq_2)
      ultimately show ?thesis
        using reg alert opt_alert [of a' "region d n ?j"] by auto
    next
      case False
      with less.prems option_loop_option [OF opt(1) n opt(2), of a] bound
      have one: "d ! i = 1" "option_loop d n ?j a = Some (Some r)" by (auto split: if_splits)
      then obtain a' where "hop_options a' (region d n ?j)" "r = (a \<or> a')"
        using less.hyps [OF shorter] by blast
      moreover have "length (take (unat (d ! (i + 1))) (drop (i + 2) d)) = unat (d ! (i + 1))"
        using bound n by simp
      ultimately show ?thesis
        using reg one opt_padn by metis
    qed
  qed
qed

lemma option_loop_complete:
  assumes n: "n + 2 \<le> length d"
  shows "hop_options a' xs \<Longrightarrow> region d n i = xs \<Longrightarrow> option_loop d n i a = Some (Some (a \<or> a'))"
proof (induction arbitrary: i a rule: hop_options.induct)
  case opt_end
  then have "\<not> i < n" using n region_Cons [of i n d] by auto
  then show ?case by (simp add: option_loop.simps)
next
  case (opt_pad1 a' xs)
  with n region_nonempty [OF opt_pad1.prems] show ?case
    by (auto simp: option_loop_pad1)
next
  case (opt_padn a' xs pad l)
  have n': "n \<le> length d" using n by simp
  have i: "i < n" "d ! i = 1" "region d n (i + 1) = l # pad @ xs"
    using region_nonempty [OF opt_padn.prems n'] by auto
  have j: "i + 1 < n" "d ! (i + 1) = l" "region d n (i + 2) = pad @ xs"
    using region_nonempty [OF i(3) n'] by auto
  have "length (region d n (i + 2)) = n - (i + 2)" using n' by (simp add: region_def)
  then have len: "i + 2 + unat l \<le> n" using j opt_padn.hyps(2) by (auto simp: j(3))
  have "region d n (i + 2 + unat l) = xs"
  proof -
    have "take (unat l) (drop (i + 2) d) @ region d n (i + 2 + unat l) = pad @ xs"
      using region_split [OF len n'] j(3) by simp
    moreover have "length (take (unat l) (drop (i + 2) d)) = length pad"
      using len n' opt_padn.hyps(2) by simp
    ultimately show ?thesis by simp
  qed
  then show ?case
    using option_loop_option [OF i(1) n, of a] i j len opt_padn.IH by simp
next
  case (opt_alert a' xs)
  have n': "n \<le> length d" using n by simp
  have i: "i < n" "d ! i = 5" "region d n (i + 1) = 2 # 0 # 0 # xs"
    using region_nonempty [OF opt_alert.prems n'] by auto
  have j: "i + 1 < n" "d ! (i + 1) = 2" "region d n (i + 2) = 0 # 0 # xs"
    using region_nonempty [OF i(3) n'] by auto
  have k: "i + 2 < n" "d ! (i + 2) = 0" "region d n (i + 3) = 0 # xs"
    using region_nonempty [OF j(3) n'] by (auto simp: numeral_3_eq_3)
  have l: "i + 3 < n" "d ! (i + 3) = 0" "region d n (i + 4) = xs"
    using region_nonempty [OF k(3) n'] by (auto simp: numeral_eq_Suc)
  have "i + 2 + unat (d ! (i + 1)) = i + 4" using j(2) by simp
  then show ?case
    using option_loop_option [OF i(1) n, of a] i j k l opt_alert.IH [of "i + 4" True]
    by (auto simp: add.commute [of 4 i] simp del: add_2_eq_Suc')
qed

lemma option_loop_exact:
  assumes "n + 2 \<le> length d"
  shows "option_loop d n i False = Some (Some r) \<longleftrightarrow> hop_options r (region d n i)"
  using option_loop_sound [OF assms, of i False r] option_loop_complete [OF assms, of r _ i False] by auto

text \<open>
  What the classifier is to recognise: an ICMPv6 neighbour discovery or multicast listener message
  to a link-local multicast group, from the unspecified or a link-local address, with the hop limit
  of its kind and a valid pseudo-header checksum; listener messages behind a router alert.
\<close>

definition icmp_valid :: "bytes \<Rightarrow> nat \<Rightarrow> nat \<Rightarrow> bool \<Rightarrow> bool" where
  "icmp_valid d n off alert \<longleftrightarrow>
     d ! (off + 1) = 0 \<and> icmp_allowed (d ! off) off (n - off) (d ! 7) alert
     \<and> (n - off + 58 + words_sum (take 32 (drop 8 d)) + words_sum (take (n - off) (drop off d))) mod 65535 = 0"

definition tun_control :: "bytes \<Rightarrow> nat \<Rightarrow> bool" where
  "tun_control d n \<longleftrightarrow>
     48 \<le> n \<and> n \<le> 65535 \<and> drop_bit 4 (d ! 0) = 6 \<and> n - 40 = de16 (d ! 4) (d ! 5)
     \<and> d ! 24 = 0xff \<and> d ! 25 = 2
     \<and> ((\<forall>b \<in> set (take 16 (drop 8 d)). b = 0) \<or> d ! 8 = 0xfe \<and> d ! 9 AND 0xc0 = 0x80)
     \<and> (d ! 6 = 58 \<and> icmp_valid d n 40 False
        \<or> d ! 6 = 0 \<and> d ! 40 = 58 \<and>
          (let off = 40 + (unat (d ! 41) + 1) * 8 in
           off + 8 \<le> n \<and> (\<exists>alert. hop_options alert (region d off 42) \<and> icmp_valid d n off alert)))"

lemma icmp_part_valid:
  assumes "off + 8 \<le> n" and "n \<le> length d" and "40 \<le> off" and "n \<le> 65535"
  shows "icmp_part d n off alert = Some (icmp_valid d n off alert)"
  using icmp_part_safe [OF assms] by (simp add: icmp_valid_def)

lemma ext_part:
  assumes "off + 8 \<le> n" and "n \<le> length d" and "40 \<le> off" and "n \<le> 65535"
  shows "(option_loop d off 42 False \<bind> (\<lambda>r. case r of None \<Rightarrow> Some False
       | Some alert \<Rightarrow> icmp_part d n off alert))
     = Some (\<exists>alert. hop_options alert (region d off 42) \<and> icmp_valid d n off alert)"
proof -
  have off: "off + 2 \<le> length d" using assms by simp
  have iff: "hop_options a (region d off 42) \<longleftrightarrow> option_loop d off 42 False = Some (Some a)" for a
    using option_loop_exact [OF off] by blast
  obtain r where r: "option_loop d off 42 False = Some r"
    using option_loop_safe [OF off] by blast
  show ?thesis
    unfolding iff r by (cases r) (simp_all add: icmp_part_valid [OF assms])
qed

text \<open>
  \<open>IsIpsecProtectedTunControlPacket\<close> never reads outside the packet, whatever its extension
  header claims, and classifies exactly the link-local neighbour discovery and multicast listener
  messages described by \<open>tun_control\<close>; in particular no ESP, UDP or fragmented packet is taken for
  control traffic.
\<close>

theorem IsIpsecProtectedTunControlPacket_exact:
  assumes "n \<le> length d"
  shows "IsIpsecProtectedTunControlPacket (Some d) n = Some (tun_control d n)"
proof (cases "48 \<le> n \<and> n \<le> 65535")
  case False
  then show ?thesis
    by (auto simp: IsIpsecProtectedTunControlPacket_def tun_control_def IPSEC_PROTECTED_PACKET_CAPACITY_def)
next
  case True
  then have len: "48 \<le> length d" using assms by simp
  have rds: "rd d i = Some (d ! i)" if "i < 48" for i
    using that len by (simp add: rd_def)
  have src: "rd_bytes d 8 16 = Some (take 16 (drop 8 d))"
    using len by (simp add: rd_bytes_def)
  let ?off = "40 + (unat (d ! 41) + 1) * 8"
  have icmp40: "icmp_part d n 40 False = Some (icmp_valid d n 40 False)"
    using True assms by (intro icmp_part_valid) auto
  have "IsIpsecProtectedTunControlPacket (Some d) n =
     (if drop_bit 4 (d ! 0) \<noteq> 6 \<or> n - 40 \<noteq> de16 (d ! 4) (d ! 5) \<or> d ! 24 \<noteq> 0xff \<or> d ! 25 \<noteq> 2 then Some False
      else if (\<exists>b \<in> set (take 16 (drop 8 d)). b \<noteq> 0) \<and> (d ! 8 \<noteq> 0xfe \<or> d ! 9 AND 0xc0 \<noteq> 0x80) then Some False
      else if d ! 6 = 0 then
        (if ?off + 8 > n \<or> d ! 40 \<noteq> 58 then Some False
         else option_loop d ?off 42 False \<bind> (\<lambda>r. case r of None \<Rightarrow> Some False
           | Some alert \<Rightarrow> icmp_part d n ?off alert))
      else if d ! 6 \<noteq> 58 then Some False else Some (icmp_valid d n 40 False))"
    using True unfolding IsIpsecProtectedTunControlPacket_def Let_def
    by (simp only: option.case IPSEC_PROTECTED_PACKET_CAPACITY_def rds [of 0] rds [of 4] rds [of 5] rds [of 24]
        rds [of 25] rds [of 8] rds [of 9] rds [of 6] rds [of 41] rds [of 40] src icmp40 bind.bind_lunit not_less) simp
  with ext_part [OF _ assms, of ?off] True show ?thesis
    unfolding tun_control_def Let_def by (cases "d ! 6 = 0"; cases "?off + 8 > n") auto
qed

theorem IsIpsecProtectedTunControlPacket_exact_witness:
  "IsIpsecProtectedTunControlPacket (Some
     [0x60, 0, 0, 0, 0, 8, 58, 255, 0, 0, 0, 0, 0, 0, 0, 0, 0, 0, 0, 0, 0, 0, 0, 0,
      0xff, 2, 0, 0, 0, 0, 0, 0, 0, 0, 0, 0, 0, 0, 0, 2, 133, 0, 0x7b, 0xb8, 0, 0, 0, 0]) 48 = Some True"
proof -
  let ?d = "[0x60, 0, 0, 0, 0, 8, 58, 255, 0, 0, 0, 0, 0, 0, 0, 0, 0, 0, 0, 0, 0, 0, 0, 0,
      0xff, 2, 0, 0, 0, 0, 0, 0, 0, 0, 0, 0, 0, 0, 0, 2, 133, 0, 0x7b, 0xb8, 0, 0, 0, 0] :: bytes"
  have len: "48 \<le> length ?d" by simp
  have "icmp_valid ?d 48 40 False"
    by (simp add: icmp_valid_def icmp_allowed_def de16_def)
  then have "tun_control ?d 48"
    by (simp add: tun_control_def de16_def)
  then show ?thesis
    using IsIpsecProtectedTunControlPacket_exact [OF len] by simp
qed

end
