(* ===== verification/Packet_Codec.thy ===== *)
theory Packet_Codec
  imports Protected_Packet
begin

text \<open>
  The codec of the algorithm packet test, \<open>app/algorithm_packet_codec.c\<close>: inspection of captured ESP
  packets, the proof that a test result is complete, the length prefix of the relay frames, probes
  and the check of a decrypted probe.
\<close>

definition NATIVE_APP_RELAY_CAPACITY :: nat where "NATIVE_APP_RELAY_CAPACITY = 4096"
definition NATIVE_APP_PROBE_LENGTH :: nat where "NATIVE_APP_PROBE_LENGTH = 128"
definition NATIVE_APP_PROBE_PORT :: nat where "NATIVE_APP_PROBE_PORT = 48150"
definition NATIVE_APP_PROBE_COUNT :: nat where "NATIVE_APP_PROBE_COUNT = 2"
definition NATIVE_APP_ALGORITHM_CASE_ID_LENGTH :: nat where "NATIVE_APP_ALGORITHM_CASE_ID_LENGTH = 64"

record NativeAppPacketEvidence =
  ev_uiProbeSequence :: u32
  ev_uiEspLength :: nat
  ev_uiEspSpi :: u32
  ev_uiEspSequence :: u32
  ev_uiPlainLength :: nat
  ev_bOutbound :: bool
  ev_bCaptureAttempted :: bool
  ev_bEspCaptured :: bool
  ev_bEspRelayed :: bool
  ev_bEspValid :: bool
  ev_bSubmitAttempted :: bool
  ev_bEspSubmitted :: bool
  ev_bPlainAttempted :: bool
  ev_bPlainReceived :: bool
  ev_bCompareAttempted :: bool
  ev_bPayloadMatch :: bool
  ev_bPeerConfirmed :: bool
  ev_eError :: IpsecError

text \<open>The four evidence slots are a list; the local error and the stage text play no part in the codec.\<close>

record NativeAppPacketTestResult =
  tr_bAttempted :: bool
  tr_uiSent :: nat
  tr_uiReceived :: nat
  tr_uiExpectedInboundSpi :: u32
  tr_uiExpectedOutboundSpi :: u32
  tr_aPackets :: "NativeAppPacketEvidence list"
  tr_eError :: IpsecError

definition ReadNativeAppTestUint16 :: "bytes \<Rightarrow> nat \<Rightarrow> nat option" where
  "ReadNativeAppTestUint16 d i = do { hi \<leftarrow> rd d i; lo \<leftarrow> rd d (i + 1); Some (de16 hi lo) }"

definition ReadNativeAppTestUint32 :: "bytes \<Rightarrow> nat \<Rightarrow> u32 option" where
  "ReadNativeAppTestUint32 d i = do {
     a \<leftarrow> rd d i; b \<leftarrow> rd d (i + 1); c \<leftarrow> rd d (i + 2); e \<leftarrow> rd d (i + 3);
     Some (de32 a b c e)
   }"

definition InspectNativeAppTestEsp ::
  "bytes option \<Rightarrow> nat \<Rightarrow> u32 \<Rightarrow> NativeAppPacketEvidence option \<Rightarrow> (IpsecError \<times> NativeAppPacketEvidence option) option" where
  "InspectNativeAppTestEsp pucData zLength uiExpectedSpi pEvidence =
     (if pucData = None \<or> pEvidence = None then Some (IPSEC_ERR_INVALID_ARGUMENT, pEvidence)
      else
        (let d = the pucData;
             ev = (the pEvidence)\<lparr>ev_bEspValid := False, ev_uiEspSpi := 0, ev_uiEspSequence := 0,
                      ev_uiEspLength := (if zLength \<le> UINT16_MAX then zLength else 0)\<rparr>
         in if zLength < 29 \<or> zLength > UINT16_MAX then Some (IPSEC_ERR_PACKET_INVALID, Some ev)
            else do {
              b0 \<leftarrow> rd d 0;
              b9 \<leftarrow> rd d 9;
              if drop_bit 4 b0 \<noteq> 4 \<or> b9 \<noteq> 50 then Some (IPSEC_ERR_PACKET_TYPE, Some ev)
              else do {
                let zHeader = unat (b0 AND 15) * 4;
                total \<leftarrow> ReadNativeAppTestUint16 d 2;
                frag \<leftarrow> ReadNativeAppTestUint16 d 6;
                if zHeader < 20 \<or> zHeader + 8 \<ge> zLength \<or> total \<noteq> zLength
                   \<or> ((of_nat frag :: u16) AND 0xbfff) \<noteq> 0
                then Some (IPSEC_ERR_PACKET_INVALID, Some ev)
                else do {
                  uiChecksum \<leftarrow> checksum_words d 0 zHeader 0;
                  spi \<leftarrow> ReadNativeAppTestUint32 d zHeader;
                  sqn \<leftarrow> ReadNativeAppTestUint32 d (zHeader + 4);
                  let ev = ev\<lparr>ev_uiEspSpi := spi, ev_uiEspSequence := sqn\<rparr>;
                  if fold_checksum uiChecksum \<noteq> UINT16_MAX \<or> uiExpectedSpi = 0 \<or> uiExpectedSpi \<noteq> spi
                  then Some (IPSEC_ERR_PACKET_INVALID, Some ev)
                  else Some (IPSEC_OK, Some (ev\<lparr>ev_bEspValid := True\<rparr>))
                }
              }
            }))"

section \<open>The proof of a test run\<close>

text \<open>
  The loop over the evidence slots from index \<open>i\<close>, with the counters of both directions; an early
  \<^verbatim>\<open>return false\<close> is \<open>None\<close>.
\<close>

definition slot_ok :: "NativeAppPacketTestResult \<Rightarrow> nat \<Rightarrow> NativeAppPacketEvidence \<Rightarrow> bool" where
  "slot_ok r i p \<longleftrightarrow> i + 1 = unat (ev_uiProbeSequence p) \<and> ev_eError p = IPSEC_OK \<and> ev_bEspValid p
     \<and> ev_uiEspLength p \<ge> 29"

definition outbound_ok :: "NativeAppPacketTestResult \<Rightarrow> NativeAppPacketEvidence \<Rightarrow> bool" where
  "outbound_ok r p \<longleftrightarrow> ev_bCaptureAttempted p \<and> ev_bEspCaptured p \<and> ev_bPeerConfirmed p
     \<and> tr_uiExpectedOutboundSpi r \<noteq> 0 \<and> tr_uiExpectedOutboundSpi r = ev_uiEspSpi p"

definition inbound_ok :: "NativeAppPacketTestResult \<Rightarrow> NativeAppPacketEvidence \<Rightarrow> bool" where
  "inbound_ok r p \<longleftrightarrow> ev_bEspRelayed p \<and> ev_bSubmitAttempted p \<and> ev_bEspSubmitted p \<and> ev_bPlainAttempted p
     \<and> ev_bPlainReceived p \<and> ev_bCompareAttempted p \<and> ev_bPayloadMatch p
     \<and> tr_uiExpectedInboundSpi r \<noteq> 0 \<and> tr_uiExpectedInboundSpi r = ev_uiEspSpi p
     \<and> ev_uiPlainLength p \<ge> NATIVE_APP_PROBE_LENGTH + 28"

fun verify_loop ::
  "NativeAppPacketTestResult \<Rightarrow> nat \<Rightarrow> NativeAppPacketEvidence list \<Rightarrow> nat \<Rightarrow> nat \<Rightarrow> (nat \<times> nat) option" where
  "verify_loop r i [] uiOutbound uiInbound = Some (uiOutbound, uiInbound)"
| "verify_loop r i (p # ps) uiOutbound uiInbound =
     (if \<not> slot_ok r i p then None
      else if ev_bOutbound p then
        (if outbound_ok r p then verify_loop r (i + 1) ps (uiOutbound + 1) uiInbound else None)
      else
        (if inbound_ok r p then verify_loop r (i + 1) ps uiOutbound (uiInbound + 1) else None))"

definition VerifyNativeAppPacketTestProof :: "NativeAppPacketTestResult option \<Rightarrow> bool" where
  "VerifyNativeAppPacketTestProof pResult =
     (case pResult of None \<Rightarrow> False
      | Some r \<Rightarrow>
        if \<not> tr_bAttempted r \<or> tr_eError r \<noteq> IPSEC_OK \<or> tr_uiSent r \<noteq> NATIVE_APP_PROBE_COUNT
           \<or> tr_uiReceived r \<noteq> NATIVE_APP_PROBE_COUNT
        then False
        else (case verify_loop r 0 (tr_aPackets r) 0 0 of
                None \<Rightarrow> False
              | Some (uiOutbound, uiInbound) \<Rightarrow>
                  uiOutbound = NATIVE_APP_PROBE_COUNT \<and> uiInbound = NATIVE_APP_PROBE_COUNT))"

section \<open>Frames and probes\<close>

definition EncodeNativeAppTestLength :: "bytes \<Rightarrow> nat \<Rightarrow> u32 \<Rightarrow> bytes option" where
  "EncodeNativeAppTestLength d off uiLength = write_at d off (be32 uiLength)"

definition DecodeNativeAppTestLength ::
  "bytes option \<Rightarrow> nat \<Rightarrow> nat option \<Rightarrow> (IpsecError \<times> nat option) option" where
  "DecodeNativeAppTestLength pucHeader zCapacity pzLength =
     (if pucHeader = None \<or> pzLength = None then Some (IPSEC_ERR_INVALID_ARGUMENT, pzLength)
      else do {
        a \<leftarrow> rd (the pucHeader) 0; b \<leftarrow> rd (the pucHeader) 1;
        c \<leftarrow> rd (the pucHeader) 2; d \<leftarrow> rd (the pucHeader) 3;
        let uiLength = unat (de32 a b c d);
        if uiLength = 0 \<or> uiLength > NATIVE_APP_RELAY_CAPACITY \<or> uiLength > zCapacity
        then Some (IPSEC_ERR_PACKET_INVALID, Some 0)
        else Some (IPSEC_OK, Some uiLength)
      })"

definition probe_byte :: "u32 \<Rightarrow> bytes \<Rightarrow> nat \<Rightarrow> u8" where
  "probe_byte uiSequence pucNonce zIndex =
     of_nat zIndex XOR ucast uiSequence XOR (pucNonce ! (zIndex mod 16))"

definition BuildNativeAppTestProbe :: "bytes \<Rightarrow> bytes \<Rightarrow> bytes \<Rightarrow> u32 \<Rightarrow> bytes option" where
  "BuildNativeAppTestProbe pucProbe pucNonce pcCaseId uiSequence = do {
     p \<leftarrow> write_at pucProbe 0 (replicate NATIVE_APP_PROBE_LENGTH 0);
     p \<leftarrow> write_at p 0 (lit ''IPSEC-PROBE-1'');
     nonce \<leftarrow> rd_bytes pucNonce 0 16;
     p \<leftarrow> write_at p 16 nonce;
     p \<leftarrow> EncodeNativeAppTestLength p 32 uiSequence;
     let zLength = (if strlen pcCaseId \<ge> NATIVE_APP_ALGORITHM_CASE_ID_LENGTH
                    then NATIVE_APP_ALGORITHM_CASE_ID_LENGTH - 1 else strlen pcCaseId);
     name \<leftarrow> rd_bytes pcCaseId 0 zLength;
     p \<leftarrow> write_at p 36 name;
     write_at p 100 (map (probe_byte uiSequence nonce) [100 ..< NATIVE_APP_PROBE_LENGTH])
   }"

definition ValidateNativeAppTestPlain ::
  "bytes option \<Rightarrow> nat \<Rightarrow> bytes option \<Rightarrow> bytes option \<Rightarrow> bytes option \<Rightarrow> IpsecError option" where
  "ValidateNativeAppTestPlain pucData zLength pucSource pucDestination pucProbe =
     (if pucData = None \<or> pucSource = None \<or> pucDestination = None \<or> pucProbe = None \<or> zLength < 28
      then Some IPSEC_ERR_PACKET_INVALID
      else do {
        let d = the pucData;
        b0 \<leftarrow> rd d 0;
        b9 \<leftarrow> rd d 9;
        total \<leftarrow> ReadNativeAppTestUint16 d 2;
        frag \<leftarrow> ReadNativeAppTestUint16 d 6;
        src \<leftarrow> rd_bytes d 12 4;
        dst \<leftarrow> rd_bytes d 16 4;
        src' \<leftarrow> rd_bytes (the pucSource) 0 4;
        dst' \<leftarrow> rd_bytes (the pucDestination) 0 4;
        let zHeader = unat (b0 AND 15) * 4;
        if drop_bit 4 b0 \<noteq> 4 \<or> b9 \<noteq> 17 \<or> zHeader < 20 \<or> zHeader + 8 + NATIVE_APP_PROBE_LENGTH \<noteq> zLength
           \<or> total \<noteq> zLength \<or> ((of_nat frag :: u16) AND 0xbfff) \<noteq> 0 \<or> src \<noteq> src' \<or> dst \<noteq> dst'
        then Some IPSEC_ERR_PACKET_INVALID
        else do {
          uiChecksum \<leftarrow> checksum_words d 0 zHeader 0;
          sport \<leftarrow> ReadNativeAppTestUint16 d zHeader;
          dport \<leftarrow> ReadNativeAppTestUint16 d (zHeader + 2);
          ulen \<leftarrow> ReadNativeAppTestUint16 d (zHeader + 4);
          body \<leftarrow> rd_bytes d (zHeader + 8) NATIVE_APP_PROBE_LENGTH;
          probe \<leftarrow> rd_bytes (the pucProbe) 0 NATIVE_APP_PROBE_LENGTH;
          if fold_checksum uiChecksum \<noteq> UINT16_MAX \<or> sport \<noteq> NATIVE_APP_PROBE_PORT
             \<or> dport \<noteq> NATIVE_APP_PROBE_PORT \<or> ulen \<noteq> 8 + NATIVE_APP_PROBE_LENGTH \<or> body \<noteq> probe
          then Some IPSEC_ERR_PACKET_INVALID
          else Some IPSEC_OK
        }
      })"

section \<open>Captured packets\<close>

lemma of_de16: "(of_nat (de16 a b) :: u16) = push_bit 8 (ucast a) OR ucast b"
proof -
  have "(of_nat (de16 a b) :: u16) = push_bit 8 (ucast a) + ucast b"
    by (simp add: de16_def push_bit_eq_mult)
  also have "\<dots> = push_bit 8 (ucast a) OR ucast b"
    by (rule disjunctive_add_eq_or) (rule bit_word_eqI, auto simp: bit_simps dest: bit_imp_le_length)
  finally show ?thesis .
qed

lemma join_and: "(push_bit 8 (ucast (a :: u8)) OR ucast (b :: u8) :: u16) AND (push_bit 8 (ucast (c :: u8)) OR ucast (e :: u8))
   = push_bit 8 (ucast (a AND c)) OR ucast (b AND e)"
  by (rule bit_word_eqI) (auto simp: bit_simps dest: bit_imp_le_length)

lemma join_zero: "(push_bit 8 (ucast (a :: u8)) OR ucast (b :: u8) :: u16) = 0 \<longleftrightarrow> a = 0 \<and> b = 0"
proof -
  have "ucast (drop_bit 8 (push_bit 8 (ucast a) OR ucast b :: u16)) = a" "ucast (push_bit 8 (ucast a) OR ucast b :: u16) = b"
    by (rule bit_word_eqI, auto simp: bit_simps dest: bit_imp_le_length)+
  then show ?thesis by auto
qed

lemma frag_mask: "((of_nat (de16 a b) :: u16) AND 0xbfff) = 0 \<longleftrightarrow> a AND 0xbf = 0 \<and> b = 0"
proof -
  have m: "(0xbfff :: u16) = push_bit 8 (ucast (0xbf :: u8)) OR ucast (0xff :: u8)" by simp
  have ff: "(0xff :: u8) = - 1" by simp
  have "b AND 0xff = b" unfolding ff by (rule and.right_neutral)
  then show ?thesis
    unfolding of_de16 m join_and by (simp only: join_zero)
qed

lemma read16: "i + 1 < length d \<Longrightarrow> ReadNativeAppTestUint16 d i = Some (de16 (d ! i) (d ! (i + 1)))"
  by (simp add: ReadNativeAppTestUint16_def rd_def)

lemma read32: "i + 3 < length d \<Longrightarrow>
   ReadNativeAppTestUint32 d i = Some (de32 (d ! i) (d ! (i + 1)) (d ! (i + 2)) (d ! (i + 3)))"
  by (simp add: ReadNativeAppTestUint32_def rd_def)

lemma be32_read32: "h + 3 < length d \<Longrightarrow>
   be32 (de32 (d ! h) (d ! (h + 1)) (d ! (h + 2)) (d ! (h + 3))) = take 4 (drop h d)"
  by (simp only: be32_de32 four_bytes)

definition cleared_evidence :: "NativeAppPacketEvidence \<Rightarrow> nat \<Rightarrow> NativeAppPacketEvidence" where
  "cleared_evidence ev n = ev\<lparr>ev_bEspValid := False, ev_uiEspSpi := 0, ev_uiEspSequence := 0,
                      ev_uiEspLength := (if n \<le> UINT16_MAX then n else 0)\<rparr>"

lemma Inspect_value:
  assumes "n \<le> length d" and h: "h = header_length d"
  shows "InspectNativeAppTestEsp (Some d) n spi (Some ev) = Some
    (if n < 29 \<or> n > UINT16_MAX then (IPSEC_ERR_PACKET_INVALID, Some (cleared_evidence ev n))
     else if drop_bit 4 (d ! 0) \<noteq> 4 \<or> d ! 9 \<noteq> 50 then (IPSEC_ERR_PACKET_TYPE, Some (cleared_evidence ev n))
     else if h < 20 \<or> h + 8 \<ge> n \<or> de16 (d ! 2) (d ! 3) \<noteq> n \<or> \<not> (d ! 6 AND 0xbf = 0 \<and> d ! 7 = 0)
     then (IPSEC_ERR_PACKET_INVALID, Some (cleared_evidence ev n))
     else
       (let got = de32 (d ! h) (d ! (h + 1)) (d ! (h + 2)) (d ! (h + 3));
            ev' = (cleared_evidence ev n)\<lparr>ev_uiEspSpi := got, ev_uiEspSequence :=
              de32 (d ! (h + 4)) (d ! (h + 5)) (d ! (h + 6)) (d ! (h + 7))\<rparr>
        in if \<not> header_sum_ok d h \<or> spi = 0 \<or> spi \<noteq> got then (IPSEC_ERR_PACKET_INVALID, Some ev')
           else (IPSEC_OK, Some (ev'\<lparr>ev_bEspValid := True\<rparr>))))"
proof (cases "n < 29")
  case True
  then show ?thesis by (simp add: InspectNativeAppTestEsp_def cleared_evidence_def)
next
  case False
  then have fixed: "rd d 0 = Some (d ! 0)" "rd d 9 = Some (d ! 9)"
    "ReadNativeAppTestUint16 d 2 = Some (de16 (d ! 2) (d ! 3))" "ReadNativeAppTestUint16 d 6 = Some (de16 (d ! 6) (d ! 7))"
    using assms(1) read16 [of 2 d] read16 [of 6 d] by (auto simp: rd_def)
  show ?thesis
  proof (cases "h + 8 \<ge> n")
    case True
    with False fixed h show ?thesis
      by (simp add: InspectNativeAppTestEsp_def header_length_def cleared_evidence_def Let_def frag_mask)
  next
    case inside: False
    have spi: "ReadNativeAppTestUint32 d h = Some (de32 (d ! h) (d ! (h + 1)) (d ! (h + 2)) (d ! (h + 3)))"
      "ReadNativeAppTestUint32 d (h + 4) = Some (de32 (d ! (h + 4)) (d ! (h + 5)) (d ! (h + 6)) (d ! (h + 7)))"
      using inside assms(1) read32 [of h d] read32 [of "h + 4" d] by (simp_all add: add.commute)
    have sum: "checksum_words d 0 h 0 = Some (words_sum (take h d))"
      by (rule header_checksum) (use inside assms h in \<open>auto simp: header_length_def\<close>)
    show ?thesis
      using False inside fixed spi sum h
      by (simp add: InspectNativeAppTestEsp_def header_length_def header_sum_ok_def cleared_evidence_def Let_def frag_mask)
  qed
qed

text \<open>A captured packet as the protected path hands it out.\<close>

definition raw_packet :: "bytes \<Rightarrow> nat \<Rightarrow> IpsecProtectedPacket" where
  "raw_packet d n = \<lparr>pp_uiStructSize = protected_packet_size, pp_pucData = Some d, pp_zCapacity = n,
     pp_zLength = n, pp_eType = IPSEC_PROTECTED_PACKET_RAW_ESP, pp_eDirection = IPSEC_PACKET_DIRECTION_OUTBOUND\<rparr>"

lemma Inspect_OK_iff:
  assumes "n \<le> length d"
  shows "\<exists>e ev'. InspectNativeAppTestEsp (Some d) n spi (Some ev) = Some (e, Some ev')
     \<and> (e = IPSEC_OK \<longleftrightarrow> n \<le> UINT16_MAX \<and> spi \<noteq> 0 \<and> esp_conditions d n
          \<and> take 4 (drop (header_length d) d) = be32 spi)
     \<and> ev_bEspValid ev' = (e = IPSEC_OK) \<and> (e = IPSEC_OK \<longrightarrow> ev_uiEspSpi ev' = spi \<and> ev_uiEspLength ev' = n)"
proof -
  let ?h = "header_length d"
  let ?got = "de32 (d ! ?h) (d ! (?h + 1)) (d ! (?h + 2)) (d ! (?h + 3))"
  have got: "take 4 (drop ?h d) = be32 spi \<longleftrightarrow> spi = ?got" if "?h + 8 < n"
    using that assms be32_read32 [of ?h d] be32_inject [of ?got spi] by auto
  have nz: "(d ! ?h OR d ! (?h + 1) OR d ! (?h + 2) OR d ! (?h + 3)) \<noteq> 0" if "?got \<noteq> 0"
    using that by (auto simp: or_zero_iff de32_def)
  show ?thesis
    unfolding Inspect_value [OF assms refl] using got nz
    by (auto simp: esp_conditions_def Let_def cleared_evidence_def)
qed

text \<open>
  C40. The packet test and the library agree on what an ESP packet is: \<open>InspectNativeAppTestEsp\<close>
  never reads outside the capture, and it accepts a packet exactly when \<open>ValidateIpsecProtectedPacket\<close>
  accepts it and its SPI is the expected one; only then is the evidence marked valid.
\<close>

theorem Inspect_agrees_with_Validate:
  assumes "n \<le> length d"
  shows "\<exists>e ev'. InspectNativeAppTestEsp (Some d) n spi (Some ev) = Some (e, Some ev')
     \<and> (e = IPSEC_OK \<longleftrightarrow> ValidateIpsecProtectedPacket (Some (raw_packet d n)) = Some IPSEC_OK
          \<and> spi \<noteq> 0 \<and> take 4 (drop (unat (d ! 0 AND 0x0f) * 4) d) = be32 spi)
     \<and> ev_bEspValid ev' = (e = IPSEC_OK) \<and> (e = IPSEC_OK \<longrightarrow> ev_uiEspSpi ev' = spi \<and> ev_uiEspLength ev' = n)"
proof -
  have "ValidateIpsecProtectedPacket (Some (raw_packet d n)) = Some IPSEC_OK \<longleftrightarrow> n \<le> UINT16_MAX \<and> esp_conditions d n"
  proof (cases "n \<le> UINT16_MAX")
    case True
    then show ?thesis
      using Validate_OK_iff [of "raw_packet d n" d] assms
      by (auto simp: raw_packet_def IPSEC_PROTECTED_PACKET_CAPACITY_def)
  next
    case False
    then show ?thesis
      by (simp add: ValidateIpsecProtectedPacket_def raw_packet_def IPSEC_PROTECTED_PACKET_CAPACITY_def)
  qed
  with Inspect_OK_iff [OF assms, of spi ev] show ?thesis
    by (auto simp: header_length_def)
qed

theorem Inspect_agrees_with_Validate_witness:
  "\<forall>ev. \<exists>e ev'. InspectNativeAppTestEsp (Some
       [0x45, 0, 0, 29, 0, 0, 0, 0, 64, 50, 0x66, 0xad, 10, 0, 0, 1, 10, 0, 0, 2, 0, 0, 0, 1, 0, 0, 0, 1, 7])
       29 1 (Some ev) = Some (e, Some ev') \<and> e = IPSEC_OK \<and> ev_uiEspSpi ev' = 1"
proof -
  let ?d = "[0x45, 0, 0, 29, 0, 0, 0, 0, 64, 50, 0x66, 0xad, 10, 0, 0, 1, 10, 0, 0, 2, 0, 0, 0, 1, 0, 0, 0, 1, 7] :: bytes"
  have len: "29 \<le> length ?d" by simp
  have "esp_conditions ?d 29"
    by (simp add: esp_conditions_def header_length_def header_sum_ok_def fold_checksum_ok de16_def)
  then have "ValidateIpsecProtectedPacket (Some (raw_packet ?d 29)) = Some IPSEC_OK"
    using Validate_OK_iff [of "raw_packet ?d 29" ?d] by (auto simp: raw_packet_def IPSEC_PROTECTED_PACKET_CAPACITY_def)
  moreover have "take 4 (drop (unat (?d ! 0 AND 0x0f) * 4) ?d) = be32 1"
    by (simp add: be32_def)
  ultimately show ?thesis
    using Inspect_agrees_with_Validate [OF len, of 1] by auto
qed

section \<open>Relay frames\<close>

text \<open>
  The length prefix of a relay frame: encoding writes exactly the four header bytes, and
  decoding them gives the length back when it is nonzero and at most the relay limit and the
  receiver's capacity; any other length is refused with the output cleared.
\<close>

theorem frame_length_roundtrip:
  assumes "4 \<le> length d"
  shows "\<exists>d'. EncodeNativeAppTestLength d 0 v = Some d' \<and> length d' = length d \<and> drop 4 d' = drop 4 d
     \<and> DecodeNativeAppTestLength (Some d') cap (Some x) =
         Some (if v = 0 \<or> unat v > NATIVE_APP_RELAY_CAPACITY \<or> unat v > cap
               then (IPSEC_ERR_PACKET_INVALID, Some 0) else (IPSEC_OK, Some (unat v)))"
proof -
  let ?d = "be32 v @ drop 4 d"
  have enc: "EncodeNativeAppTestLength d 0 v = Some ?d"
    using assms by (simp add: EncodeNativeAppTestLength_def write_at_def)
  have "rd ?d 0 = Some (ucast (drop_bit 24 v))" "rd ?d 1 = Some (ucast (drop_bit 16 v))"
    "rd ?d 2 = Some (ucast (drop_bit 8 v))" "rd ?d 3 = Some (ucast v)"
    by (simp_all add: rd_def be32_def)
  then have "DecodeNativeAppTestLength (Some ?d) cap (Some x) =
         Some (if v = 0 \<or> unat v > NATIVE_APP_RELAY_CAPACITY \<or> unat v > cap
               then (IPSEC_ERR_PACKET_INVALID, Some 0) else (IPSEC_OK, Some (unat v)))"
    by (simp add: DecodeNativeAppTestLength_def de32_be32 unat_eq_0 del: One_nat_def)
  with enc assms show ?thesis by auto
qed

theorem frame_length_roundtrip_witness:
  "\<exists>d'. EncodeNativeAppTestLength [9, 9, 9, 9, 5] 0 300 = Some d'
     \<and> DecodeNativeAppTestLength (Some d') 4096 (Some 0) = Some (IPSEC_OK, Some 300)"
  using frame_length_roundtrip [of "[9, 9, 9, 9, 5]" 300 4096 0]
  by (auto simp: NATIVE_APP_RELAY_CAPACITY_def)

section \<open>Complete test runs\<close>

definition evidence_ok :: "NativeAppPacketTestResult \<Rightarrow> nat \<Rightarrow> NativeAppPacketEvidence \<Rightarrow> bool" where
  "evidence_ok r i p \<longleftrightarrow> slot_ok r i p \<and> (if ev_bOutbound p then outbound_ok r p else inbound_ok r p)"

lemma verify_loop_exact:
  "verify_loop r i ps out inb = Some (out', inb') \<longleftrightarrow>
     (\<forall>k < length ps. evidence_ok r (i + k) (ps ! k))
     \<and> out' = out + length (filter ev_bOutbound ps) \<and> inb' = inb + length (filter (\<lambda>p. \<not> ev_bOutbound p) ps)"
proof (induction ps arbitrary: i out inb)
  case (Cons p ps)
  have all: "(\<forall>k < length (p # ps). evidence_ok r (i + k) ((p # ps) ! k)) \<longleftrightarrow>
      evidence_ok r i p \<and> (\<forall>k < length ps. evidence_ok r (i + 1 + k) (ps ! k))"
    by (auto simp: less_Suc_eq_0_disj)
  show ?case
    unfolding all by (auto simp: evidence_ok_def Cons.IH)
qed auto


section \<open>Probes\<close>

definition probe_layout :: "bytes \<Rightarrow> bytes \<Rightarrow> u32 \<Rightarrow> bytes" where
  "probe_layout nonce name sqn = lit ''IPSEC-PROBE-1'' @ replicate 3 0 @ nonce @ be32 sqn @ name
     @ replicate (64 - length name) 0 @ map (probe_byte sqn nonce) [100 ..< NATIVE_APP_PROBE_LENGTH]"

lemma write_at_mid: "length a = off \<Longrightarrow> length b = length b' \<Longrightarrow> write_at (a @ b @ c) off b' = Some (a @ b' @ c)"
  using write_at_append [of a off b' "b @ c"] by simp

definition case_name :: "bytes \<Rightarrow> bytes" where
  "case_name pcCaseId = take 63 (cstr pcCaseId)"

lemma length_probe_layout:
  "length nonce = 16 \<Longrightarrow> length name \<le> 64 \<Longrightarrow> length (probe_layout nonce name sqn) = 128"
  by (simp add: probe_layout_def NATIVE_APP_PROBE_LENGTH_def)

lemma Build_layout:
  assumes "128 \<le> length p" and "16 \<le> length nonce"
  shows "BuildNativeAppTestProbe p nonce caseId sqn =
     Some (probe_layout (take 16 nonce) (case_name caseId) sqn @ drop 128 p)"
proof -
  let ?z = "\<lambda>n. replicate n (0 :: u8)"
  let ?m = "lit ''IPSEC-PROBE-1''" and ?n = "take 16 nonce" and ?c = "case_name caseId" and ?r = "drop 128 p"
  let ?pat = "map (probe_byte sqn ?n) [100 ..< NATIVE_APP_PROBE_LENGTH]"
  have c: "length ?c \<le> 63" by (simp add: case_name_def)
  have split: "?z 128 = ?z 13 @ ?z 3 @ ?z 16 @ ?z 4 @ ?z (length ?c) @ ?z (64 - length ?c) @ ?z 28"
    using c by (simp add: replicate_add [symmetric])
  have w0: "write_at p 0 (?z NATIVE_APP_PROBE_LENGTH) = Some (?z 13 @ ?z 3 @ ?z 16 @ ?z 4 @ ?z (length ?c) @ ?z (64 - length ?c) @ ?z 28 @ ?r)"
    using assms(1) split c by (simp add: write_at_def NATIVE_APP_PROBE_LENGTH_def)
  have w1: "write_at (?z 13 @ t) 0 ?m = Some (?m @ t)" for t
    using write_at_mid [of "[]" 0 "?z 13" ?m t] by simp
  have w2: "write_at (?m @ ?z 3 @ ?z 16 @ t) 16 ?n = Some (?m @ ?z 3 @ ?n @ t)" for t
    using write_at_mid [of "?m @ ?z 3" 16 "?z 16" ?n t] assms(2) by simp
  have w3: "EncodeNativeAppTestLength (?m @ ?z 3 @ ?n @ ?z 4 @ t) 32 sqn = Some (?m @ ?z 3 @ ?n @ be32 sqn @ t)" for t
    using write_at_mid [of "?m @ ?z 3 @ ?n" 32 "?z 4" "be32 sqn" t] assms(2)
    by (simp add: EncodeNativeAppTestLength_def)
  have w4: "write_at (?m @ ?z 3 @ ?n @ be32 sqn @ ?z (length ?c) @ t) 36 ?c = Some (?m @ ?z 3 @ ?n @ be32 sqn @ ?c @ t)" for t
    using write_at_mid [of "?m @ ?z 3 @ ?n @ be32 sqn" 36 "?z (length ?c)" ?c t] assms(2) by simp
  have w5: "write_at (?m @ ?z 3 @ ?n @ be32 sqn @ ?c @ ?z (64 - length ?c) @ ?z 28 @ ?r) 100 ?pat
      = Some (?m @ ?z 3 @ ?n @ be32 sqn @ ?c @ ?z (64 - length ?c) @ ?pat @ ?r)"
    using write_at_mid [of "?m @ ?z 3 @ ?n @ be32 sqn @ ?c @ ?z (64 - length ?c)" 100 "?z 28" ?pat ?r] assms(2) c
    by (simp add: NATIVE_APP_PROBE_LENGTH_def)
  have size: "(if strlen caseId \<ge> NATIVE_APP_ALGORITHM_CASE_ID_LENGTH
      then NATIVE_APP_ALGORITHM_CASE_ID_LENGTH - 1 else strlen caseId) = min 63 (strlen caseId)"
    by (simp add: NATIVE_APP_ALGORITHM_CASE_ID_LENGTH_def min_def)
  have "take (min 63 (strlen caseId)) caseId = ?c"
    by (simp add: case_name_def take_strlen [symmetric])
  then have name: "rd_bytes caseId 0 (min 63 (strlen caseId)) = Some ?c"
    using strlen_le [of caseId] by (simp add: rd_bytes_def)
  have nonce: "rd_bytes nonce 0 16 = Some ?n" using assms(2) by (simp add: rd_bytes_def)
  show ?thesis
    unfolding BuildNativeAppTestProbe_def Let_def size name nonce
    by (simp only: w0 w1 w2 w3 w4 w5 bind.bind_lunit probe_layout_def append.assoc)
qed

lemma case_name_cstr: "cstr (case_name c @ replicate (64 - length (case_name c)) 0 @ r) = case_name c"
proof -
  have "length (case_name c) \<le> 63" by (simp add: case_name_def)
  then obtain k where k: "64 - length (case_name c) = Suc k"
    by (cases "64 - length (case_name c)") auto
  have "0 \<notin> set (case_name c)"
    using cstr_no_nul [of c] by (auto simp: case_name_def dest: in_set_takeD)
  then show ?thesis
    using cstr_terminated [of "case_name c"] by (simp add: k)
qed

lemma probe_layout_inject:
  assumes "length n1 = 16" and "length n2 = 16"
    and eq: "probe_layout n1 (case_name c1) s1 = probe_layout n2 (case_name c2) s2"
  shows "n1 = n2" and "s1 = s2" and "case_name c1 = case_name c2"
proof -
  let ?t = "\<lambda>n c s. case_name c @ replicate (64 - length (case_name c)) 0 @ map (probe_byte s n) [100 ..< NATIVE_APP_PROBE_LENGTH]"
  have "n1 @ be32 s1 @ ?t n1 c1 s1 = n2 @ be32 s2 @ ?t n2 c2 s2"
    using eq by (simp add: probe_layout_def)
  then have parts: "n1 = n2" "be32 s1 = be32 s2" "?t n1 c1 s1 = ?t n2 c2 s2"
    using assms(1,2) by auto
  then show "n1 = n2" "s1 = s2" by (simp_all add: be32_inject)
  show "case_name c1 = case_name c2"
    using arg_cong [OF parts(3), of cstr] by (simp only: case_name_cstr)
qed

text \<open>
  Building a probe in a buffer of at least 128 bytes is defined, leaves the rest of the buffer
  alone, and the 128 bytes identify the run: probes that are equal were built for the same nonce,
  the same case and the same sequence number.
\<close>

theorem probe_identifies_run:
  assumes "128 \<le> length p" and "16 \<le> length n1" and "16 \<le> length n2"
  shows "\<exists>q1 q2. BuildNativeAppTestProbe p n1 c1 s1 = Some q1 \<and> BuildNativeAppTestProbe p n2 c2 s2 = Some q2
     \<and> drop 128 q1 = drop 128 p \<and> length q1 = length p
     \<and> (take 128 q1 = take 128 q2 \<longrightarrow> take 16 n1 = take 16 n2 \<and> s1 = s2 \<and> case_name c1 = case_name c2)"
proof -
  have len: "length (probe_layout (take 16 n) (case_name c) s) = 128" if "16 \<le> length n" for n c s
    using that by (intro length_probe_layout) (auto simp: case_name_def)
  show ?thesis
    using assms len Build_layout [OF assms(1,2)] Build_layout [OF assms(1,3)]
      probe_layout_inject [of "take 16 n1" "take 16 n2" c1 s1 c2 s2] by auto
qed

theorem probe_identifies_run_witness:
  "\<exists>q1 q2. BuildNativeAppTestProbe (replicate 128 1) (replicate 16 5) [97] 1 = Some q1
     \<and> BuildNativeAppTestProbe (replicate 128 1) (replicate 16 5) [97] 2 = Some q2 \<and> take 128 q1 \<noteq> take 128 q2"
  using probe_identifies_run [of "replicate 128 1" "replicate 16 5" "replicate 16 5" "[97]" 1 "[97]" 2] by auto

section \<open>Decrypted probes\<close>

definition udp_header :: "bytes \<Rightarrow> bytes \<Rightarrow> bytes \<Rightarrow> nat \<Rightarrow> bool" where
  "udp_header hdr src dst n \<longleftrightarrow> 20 \<le> length hdr \<and> drop_bit 4 (hdr ! 0) = 4
     \<and> unat (hdr ! 0 AND 0x0f) * 4 = length hdr \<and> de16 (hdr ! 2) (hdr ! 3) = n
     \<and> hdr ! 6 AND 0xbf = 0 \<and> hdr ! 7 = 0 \<and> hdr ! 9 = 17 \<and> words_sum hdr mod 65535 = 0
     \<and> take 4 (drop 12 hdr) = src \<and> take 4 (drop 16 hdr) = dst"

lemma take_in_prefix: "off + n \<le> length xs \<Longrightarrow> take n (drop off (xs @ ys)) = take n (drop off xs)"
  by simp

lemma be16_nth: "k < 65536 \<Longrightarrow> de16 (be16 k ! 0) (be16 k ! 1) = k"
  by (simp add: be16_def)

text \<open>
  A decrypted datagram from the expected source to the expected destination, with the probe
  ports and lengths, is accepted exactly when its payload is the expected probe.
\<close>

theorem ValidateNativeAppTestPlain_payload:
  assumes hdr: "udp_header hdr (take 4 src) (take 4 dst) (length d)"
    and d: "d = hdr @ be16 48150 @ be16 48150 @ be16 136 @ ck @ body"
    and len: "length ck = 2" "length body = 128" "4 \<le> length src" "4 \<le> length dst" "128 \<le> length probe"
  shows "ValidateNativeAppTestPlain (Some d) (length d) (Some src) (Some dst) (Some probe) =
     Some (if body = take 128 probe then IPSEC_OK else IPSEC_ERR_PACKET_INVALID)"
proof -
  let ?h = "length hdr"
  have h: "20 \<le> ?h" "drop_bit 4 (hdr ! 0) = 4" "unat (hdr ! 0 AND 15) * 4 = ?h"
    "de16 (hdr ! 2) (hdr ! 3) = length d" "hdr ! 6 AND 0xbf = 0" "hdr ! 7 = 0" "hdr ! 9 = 17"
    "words_sum hdr mod 65535 = 0" "take 4 (drop 12 hdr) = take 4 src" "take 4 (drop 16 hdr) = take 4 dst"
    using hdr by (auto simp: udp_header_def)
  have n: "length d = ?h + 136" using len by (simp add: d)
  have nth: "d ! i = hdr ! i" if "i < 20" for i
    using that h(1) by (simp add: d nth_append)
  have tail: "d = hdr @ [188, 22, 188, 22, 0, 136] @ ck @ body"
    by (simp add: d be16_def)
  have udp: "d ! ?h = 188" "d ! (?h + 1) = 22" "d ! (?h + 2) = 188" "d ! (?h + 3) = 22"
    "d ! (?h + 4) = 0" "d ! (?h + 5) = 136"
    unfolding tail nth_append by simp_all
  have reads: "rd d 0 = Some (hdr ! 0)" "rd d 9 = Some 17"
    "ReadNativeAppTestUint16 d 2 = Some (length d)" "ReadNativeAppTestUint16 d 6 = Some (de16 (hdr ! 6) (hdr ! 7))"
    "rd_bytes d 12 4 = Some (take 4 src)" "rd_bytes d 16 4 = Some (take 4 dst)"
    "rd_bytes src 0 4 = Some (take 4 src)" "rd_bytes dst 0 4 = Some (take 4 dst)"
    "rd_bytes probe 0 128 = Some (take 128 probe)"
    using h n nth [of 0] nth [of 9] nth [of 2] nth [of 3] nth [of 6] nth [of 7] len
    by (auto simp: rd_def read16 rd_bytes_def d)
  have idx: "?h + 2 + 1 = ?h + 3" "?h + 4 + 1 = ?h + 5" by simp_all
  have num: "de16 188 22 = 48150" "de16 0 136 = 136" by (simp_all add: de16_def)
  have ports: "ReadNativeAppTestUint16 d ?h = Some 48150" "ReadNativeAppTestUint16 d (?h + 2) = Some 48150"
    "ReadNativeAppTestUint16 d (?h + 4) = Some 136"
    using n read16 [of ?h d] read16 [of "?h + 2" d] read16 [of "?h + 4" d]
    unfolding idx udp num by simp_all
  have body: "rd_bytes d (?h + 8) 128 = Some body"
    using len by (simp add: rd_bytes_def d)
  have "fold_checksum (words_sum hdr) = UINT16_MAX"
    using h(1,2,8) first_byte_sum [of hdr] by (simp add: fold_checksum_ok)
  moreover have "checksum_words d 0 ?h 0 = Some (words_sum hdr)"
  proof -
    have "take ?h d = hdr" "?h \<le> length d" by (simp_all add: d)
    then show ?thesis using header_checksum [of ?h d, OF _ h(3) [symmetric]] by metis
  qed
  ultimately show ?thesis
    unfolding ValidateNativeAppTestPlain_def NATIVE_APP_PROBE_LENGTH_def NATIVE_APP_PROBE_PORT_def Let_def option.sel
    using h(1,2,5,6) n by (simp add: reads ports body frag_mask h(3) del: One_nat_def add_2_eq_Suc')
qed

theorem ValidateNativeAppTestPlain_payload_witness:
  "\<exists>d. ValidateNativeAppTestPlain (Some d) 156 (Some [10, 0, 0, 1]) (Some [10, 0, 0, 2]) (Some (replicate 128 7))
      = Some IPSEC_OK"
proof -
  let ?hdr = "[0x45, 0, 0, 156, 0, 0, 0, 0, 64, 17, 0x66, 0x4f, 10, 0, 0, 1, 10, 0, 0, 2] :: bytes"
  let ?d = "?hdr @ be16 48150 @ be16 48150 @ be16 136 @ [0, 0] @ replicate 128 7"
  have len: "length ?d = 156" by simp
  have hdr: "udp_header ?hdr (take 4 [10, 0, 0, 1]) (take 4 [10, 0, 0, 2]) (length ?d)"
    unfolding len by (simp add: udp_header_def de16_def)
  show ?thesis
    using ValidateNativeAppTestPlain_payload [OF hdr refl, of "replicate 128 7"]
    unfolding len by auto
qed

end
