(* ===== verification/Os_Run.thy ===== *)
theory Os_Run
  imports Core_Util
begin

text \<open>
  Running code against the operating system. What the system calls answer is not part of the
  program: a run is given a script, the answers of the successive calls in their order, and every
  claim is about all scripts. A run that needs an answer the script does not have (because it ends,
  or has the answer of another call, or an answer the call cannot give) is \<open>Blocked\<close>: it has not
  returned. \<open>Fault\<close> is undefined behaviour of the program itself. A loop of the program therefore
  ends with its script, and a claim that a call returns asks for a script that answers it.
\<close>

datatype 'a exec = Blocked | Fault | Ret 'a

definition exec_bind :: "'a exec \<Rightarrow> ('a \<Rightarrow> 'b exec) \<Rightarrow> 'b exec" where
  "exec_bind r f = (case r of Blocked \<Rightarrow> Blocked | Fault \<Rightarrow> Fault | Ret x \<Rightarrow> f x)"

definition lift_option :: "'a option \<Rightarrow> 'a exec" where
  "lift_option r = (case r of None \<Rightarrow> Fault | Some x \<Rightarrow> Ret x)"

text \<open>The next call only when the previous one succeeded.\<close>

definition on_ok ::
  "(IpsecError \<times> 's) exec \<Rightarrow> ('s \<Rightarrow> (IpsecError \<times> 's) exec) \<Rightarrow> (IpsecError \<times> 's) exec" where
  "on_ok r f = exec_bind r (\<lambda>(e, s). if e = IPSEC_OK then f s else Ret (e, s))"

lemma exec_bind_simps [simp]:
  "exec_bind Blocked f = Blocked" "exec_bind Fault f = Fault" "exec_bind (Ret x) f = f x"
  by (simp_all add: exec_bind_def)

lemma exec_bind_Ret: "exec_bind r f = Ret y \<longleftrightarrow> (\<exists>x. r = Ret x \<and> f x = Ret y)"
  by (cases r) auto

lemma exec_bind_RetE:
  assumes "exec_bind r f = Ret y"
  obtains x where "r = Ret x" and "f x = Ret y"
  using assms by (auto simp: exec_bind_Ret)

lemma exec_bind_Fault: "exec_bind r f = Fault \<longleftrightarrow> r = Fault \<or> (\<exists>x. r = Ret x \<and> f x = Fault)"
  by (cases r) auto

lemma exec_bind_no_fault: "r \<noteq> Fault \<Longrightarrow> (\<And>x. r = Ret x \<Longrightarrow> f x \<noteq> Fault) \<Longrightarrow> exec_bind r f \<noteq> Fault"
  by (cases r) auto

lemma lift_option_simps [simp]: "lift_option (Some x) = Ret x" "lift_option None = Fault"
  by (simp_all add: lift_option_def)

lemma on_ok_simps [simp]:
  "on_ok (Ret (IPSEC_OK, s)) f = f s" "e \<noteq> IPSEC_OK \<Longrightarrow> on_ok (Ret (e, s)) f = Ret (e, s)"
  "on_ok Blocked f = Blocked" "on_ok Fault f = Fault"
  by (simp_all add: on_ok_def)

lemma on_ok_Ret:
  "on_ok r f = Ret (e, s) \<longleftrightarrow>
     (\<exists>s'. r = Ret (IPSEC_OK, s') \<and> f s' = Ret (e, s)) \<or> (e \<noteq> IPSEC_OK \<and> r = Ret (e, s))"
  by (auto simp: on_ok_def exec_bind_Ret split: if_splits)

lemma on_ok_Fault: "on_ok r f = Fault \<longleftrightarrow> r = Fault \<or> (\<exists>s. r = Ret (IPSEC_OK, s) \<and> f s = Fault)"
  by (auto simp: on_ok_def exec_bind_Fault split: if_splits)

text \<open>
  A property of the state that a run keeps: the run does not fault, and where it returns the
  property holds again.
\<close>

definition keeps :: "('s \<Rightarrow> bool) \<Rightarrow> (IpsecError \<times> 's) exec \<Rightarrow> bool" where
  "keeps P r \<longleftrightarrow> r \<noteq> Fault \<and> (\<forall>e s. r = Ret (e, s) \<longrightarrow> P s)"

lemma keeps_simps [simp]: "keeps P Blocked" "\<not> keeps P Fault" "keeps P (Ret (e, s)) \<longleftrightarrow> P s"
  by (auto simp: keeps_def)

lemma keeps_on_ok: "keeps P r \<Longrightarrow> (\<And>s. P s \<Longrightarrow> keeps P (f s)) \<Longrightarrow> keeps P (on_ok r f)"
  by (cases r) (auto simp: on_ok_def)

text \<open>The same for results of any type: no fault, and the returned value satisfies a predicate.\<close>

definition runs :: "('a \<Rightarrow> bool) \<Rightarrow> 'a exec \<Rightarrow> bool" where
  "runs Q r \<longleftrightarrow> r \<noteq> Fault \<and> (\<forall>x. r = Ret x \<longrightarrow> Q x)"

lemma runs_simps [simp]: "runs Q Blocked" "\<not> runs Q Fault" "runs Q (Ret x) \<longleftrightarrow> Q x"
  by (simp_all add: runs_def)

lemma runs_bind: "runs P r \<Longrightarrow> (\<And>x. r = Ret x \<Longrightarrow> P x \<Longrightarrow> runs Q (f x)) \<Longrightarrow> runs Q (exec_bind r f)"
  by (cases r) auto

lemma runs_call: "r \<noteq> Fault \<Longrightarrow> (\<And>x. r = Ret x \<Longrightarrow> runs Q (f x)) \<Longrightarrow> runs Q (exec_bind r f)"
  by (cases r) auto

lemma runs_mono: "runs P r \<Longrightarrow> (\<And>x. P x \<Longrightarrow> Q x) \<Longrightarrow> runs Q r"
  by (auto simp: runs_def)

lemma runs_Ret: "runs Q r \<Longrightarrow> r = Ret x \<Longrightarrow> Q x"
  by (simp add: runs_def)

section \<open>Answers of the system calls\<close>

datatype c_errno = EINTR | EAGAIN | EACCES | EINPROGRESS | ETIMEDOUT | EOTHER nat

text \<open>The number behind \<open>errno\<close>, where the code compares it with others.\<close>

fun errno_number :: "c_errno \<Rightarrow> int" where
  "errno_number EINTR = 4"
| "errno_number EAGAIN = 11"
| "errno_number EACCES = 13"
| "errno_number EINPROGRESS = 115"
| "errno_number ETIMEDOUT = 110"
| "errno_number (EOTHER n) = int n"

datatype os_answer =
    AClock "(nat \<times> nat) option"
  | APoll int u16 u16 c_errno
  | ASend int c_errno
  | ARecv int bytes c_errno
  | ASocket int c_errno
  | AFcntl int
  | AConnect int c_errno
  | AGetsockopt int "c_errno option" c_errno
  | ALock int
  | ACondWait "c_errno option" bool bool
  | ASocketpair int int int
  | ABind int c_errno
  | ARecvmsg int bytes bool nat nat u32 c_errno
  | APid u32
  | ACalloc bool

type_synonym os_script = "os_answer list"

text \<open>Reading the next answer, one reader per system call.\<close>

definition read_clock :: "os_script \<Rightarrow> (nat \<times> os_script) exec" where
  "read_clock os = (case os of AClock c # r \<Rightarrow> Ret (GetIpsecMonotonicMilliseconds c, r) | _ \<Rightarrow> Blocked)"

definition read_poll :: "os_script \<Rightarrow> (int \<times> u16 \<times> u16 \<times> c_errno \<times> os_script) exec" where
  "read_poll os = (case os of APoll r rev0 rev1 err # os' \<Rightarrow> Ret (r, rev0, rev1, err, os') | _ \<Rightarrow> Blocked)"

definition read_send :: "os_script \<Rightarrow> (int \<times> c_errno \<times> os_script) exec" where
  "read_send os = (case os of ASend r err # os' \<Rightarrow> Ret (r, err, os') | _ \<Rightarrow> Blocked)"

definition read_recv :: "os_script \<Rightarrow> (int \<times> bytes \<times> c_errno \<times> os_script) exec" where
  "read_recv os = (case os of ARecv r bs err # os' \<Rightarrow> Ret (r, bs, err, os') | _ \<Rightarrow> Blocked)"

definition read_socket :: "os_script \<Rightarrow> (int \<times> c_errno \<times> os_script) exec" where
  "read_socket os = (case os of ASocket r err # os' \<Rightarrow> Ret (r, err, os') | _ \<Rightarrow> Blocked)"

definition read_fcntl :: "os_script \<Rightarrow> (int \<times> os_script) exec" where
  "read_fcntl os = (case os of AFcntl r # os' \<Rightarrow> Ret (r, os') | _ \<Rightarrow> Blocked)"

definition read_connect :: "os_script \<Rightarrow> (int \<times> c_errno \<times> os_script) exec" where
  "read_connect os = (case os of AConnect r err # os' \<Rightarrow> Ret (r, err, os') | _ \<Rightarrow> Blocked)"

definition read_getsockopt :: "os_script \<Rightarrow> (int \<times> c_errno option \<times> c_errno \<times> os_script) exec" where
  "read_getsockopt os = (case os of AGetsockopt r so err # os' \<Rightarrow> Ret (r, so, err, os') | _ \<Rightarrow> Blocked)"

definition read_lock :: "os_script \<Rightarrow> (int \<times> os_script) exec" where
  "read_lock os = (case os of ALock r # os' \<Rightarrow> Ret (r, os') | _ \<Rightarrow> Blocked)"

definition read_cond_wait :: "os_script \<Rightarrow> (c_errno option \<times> bool \<times> bool \<times> os_script) exec" where
  "read_cond_wait os = (case os of ACondWait r a c # os' \<Rightarrow> Ret (r, a, c, os') | _ \<Rightarrow> Blocked)"

definition read_socketpair :: "os_script \<Rightarrow> (int \<times> int \<times> int \<times> os_script) exec" where
  "read_socketpair os = (case os of ASocketpair r a b # os' \<Rightarrow> Ret (r, a, b, os') | _ \<Rightarrow> Blocked)"

definition read_bind :: "os_script \<Rightarrow> (int \<times> c_errno \<times> os_script) exec" where
  "read_bind os = (case os of ABind r err # os' \<Rightarrow> Ret (r, err, os') | _ \<Rightarrow> Blocked)"

text \<open>
  A received datagram with the truncation flag, the length, family and port of the sender's address. The
  call writes at most the capacity of the buffer and returns the number of bytes it wrote.
\<close>

definition read_recvmsg :: "nat \<Rightarrow> os_script \<Rightarrow> (int \<times> bytes \<times> bool \<times> nat \<times> nat \<times> u32 \<times> c_errno \<times> os_script) exec" where
  "read_recvmsg cap os = (case os of
     ARecvmsg r bs trunc namelen family pid err # os' \<Rightarrow>
       if 0 \<le> r \<and> (length bs \<noteq> nat r \<or> cap < length bs) then Blocked
       else Ret (r, bs, trunc, namelen, family, pid, err, os')
   | _ \<Rightarrow> Blocked)"

definition read_pid :: "os_script \<Rightarrow> (u32 \<times> os_script) exec" where
  "read_pid os = (case os of APid p # os' \<Rightarrow> Ret (p, os') | _ \<Rightarrow> Blocked)"

definition read_calloc :: "os_script \<Rightarrow> (bool \<times> os_script) exec" where
  "read_calloc os = (case os of ACalloc ok # os' \<Rightarrow> Ret (ok, os') | _ \<Rightarrow> Blocked)"

named_theorems script_simps \<open>what the readers return\<close>

lemma read_clock_Ret [script_simps]:
  "read_clock os = Ret (now, os') \<longleftrightarrow> (\<exists>c. os = AClock c # os' \<and> now = GetIpsecMonotonicMilliseconds c)"
  by (auto simp: read_clock_def split: list.splits os_answer.splits)

lemma read_poll_Ret [script_simps]: "read_poll os = Ret (r, v0, v1, err, os') \<longleftrightarrow> os = APoll r v0 v1 err # os'"
  by (auto simp: read_poll_def split: list.splits os_answer.splits)

lemma read_send_Ret [script_simps]: "read_send os = Ret (r, err, os') \<longleftrightarrow> os = ASend r err # os'"
  by (auto simp: read_send_def split: list.splits os_answer.splits)

lemma read_recv_Ret [script_simps]: "read_recv os = Ret (r, bs, err, os') \<longleftrightarrow> os = ARecv r bs err # os'"
  by (auto simp: read_recv_def split: list.splits os_answer.splits)

lemma read_lock_Ret [script_simps]: "read_lock os = Ret (r, os') \<longleftrightarrow> os = ALock r # os'"
  by (auto simp: read_lock_def split: list.splits os_answer.splits)

lemma read_cond_wait_Ret [script_simps]: "read_cond_wait os = Ret (r, a, c, os') \<longleftrightarrow> os = ACondWait r a c # os'"
  by (auto simp: read_cond_wait_def split: list.splits os_answer.splits)

lemma read_socket_Ret [script_simps]: "read_socket os = Ret (r, err, os') \<longleftrightarrow> os = ASocket r err # os'"
  by (auto simp: read_socket_def split: list.splits os_answer.splits)

lemma read_bind_Ret [script_simps]: "read_bind os = Ret (r, err, os') \<longleftrightarrow> os = ABind r err # os'"
  by (auto simp: read_bind_def split: list.splits os_answer.splits)

lemma read_recvmsg_Ret [script_simps]:
  "read_recvmsg cap os = Ret (r, bs, trunc, namelen, family, pid, err, os') \<longleftrightarrow>
     os = ARecvmsg r bs trunc namelen family pid err # os' \<and> (0 \<le> r \<longrightarrow> length bs = nat r \<and> length bs \<le> cap)"
  by (auto simp: read_recvmsg_def split: list.splits os_answer.splits if_splits)

lemma read_pid_Ret [script_simps]: "read_pid os = Ret (p, os') \<longleftrightarrow> os = APid p # os'"
  by (auto simp: read_pid_def split: list.splits os_answer.splits)

lemma read_calloc_Ret [script_simps]: "read_calloc os = Ret (ok, os') \<longleftrightarrow> os = ACalloc ok # os'"
  by (auto simp: read_calloc_def split: list.splits os_answer.splits)

lemma readers_no_fault [simp]:
  "read_clock os \<noteq> Fault" "read_poll os \<noteq> Fault" "read_send os \<noteq> Fault" "read_recv os \<noteq> Fault"
  "read_socket os \<noteq> Fault" "read_fcntl os \<noteq> Fault" "read_connect os \<noteq> Fault" "read_getsockopt os \<noteq> Fault"
  "read_lock os \<noteq> Fault" "read_cond_wait os \<noteq> Fault" "read_socketpair os \<noteq> Fault"
  "read_bind os \<noteq> Fault" "read_recvmsg cap os \<noteq> Fault" "read_pid os \<noteq> Fault" "read_calloc os \<noteq> Fault"
  by (simp_all add: read_clock_def read_poll_def read_send_def read_recv_def read_socket_def read_fcntl_def
      read_connect_def read_getsockopt_def read_lock_def read_cond_wait_def
      read_socketpair_def read_bind_def read_recvmsg_def read_pid_def read_calloc_def split: list.split os_answer.split)

end
