(* ===== verification/Vici_Transport.thy ===== *)
theory Vici_Transport
  imports Vici_Frame Os_Run
begin

text \<open>
  The stream transport to the daemon, \<open>src/ike/vici/vici_transport.c\<close>: waiting for the socket with a
  deadline and a cancellation descriptor, transfers that survive short reads, short writes and
  interrupts, and the length-prefixed packets. The state is \<open>IpsecViciState\<close> of
  \<open>src/internal/ipsec_internal.h\<close>, extended by the script of the system calls and by two ghost logs:
  what was written to and what was read from the current connection.
\<close>

definition IPSEC_VICI_SOCKET_PATH_LENGTH :: nat where "IPSEC_VICI_SOCKET_PATH_LENGTH = 108"

definition POLLIN :: u16 where "POLLIN = 1"
definition POLLOUT :: u16 where "POLLOUT = 4"

record IpsecViciState =
  iSocket :: int
  acSocketPath :: bytes
  uiConnectTimeoutMs :: nat
  uiCommandTimeoutMs :: nat
  ullCommandDeadlineMs :: nat
  iTransportCancelFd :: int

record transport = IpsecViciState +
  script :: os_script
  wire_out :: bytes
  wire_in :: bytes

section \<open>Waiting\<close>

definition GetViciCommandDeadline :: "'a transport_scheme \<Rightarrow> (nat \<times> 'a transport_scheme) exec" where
  "GetViciCommandDeadline t =
     (if ullCommandDeadlineMs t \<noteq> 0 then Ret (ullCommandDeadlineMs t, t)
      else exec_bind (read_clock (script t)) (\<lambda>(ullNowMs, os).
        Ret (if ullNowMs = 0 \<or> UINT64_MAX - uiCommandTimeoutMs t < ullNowMs then 0
             else ullNowMs + uiCommandTimeoutMs t, t\<lparr>script := os\<rparr>)))"

text \<open>The loop of \<open>WaitViciSocket\<close>: an interrupted poll starts over with the original deadline.\<close>

function wait_loop :: "u16 \<Rightarrow> nat \<Rightarrow> os_script \<Rightarrow> (IpsecError \<times> os_script) exec" where
  "wait_loop sEvents ullDeadlineMs os =
     (case read_clock os of Blocked \<Rightarrow> Blocked | Fault \<Rightarrow> Fault
      | Ret (ullNowMs, os1) \<Rightarrow>
          if ullNowMs = 0 \<or> ullDeadlineMs \<le> ullNowMs then Ret (IPSEC_ERR_VICI_TIMEOUT, os1)
          else (case read_poll os1 of Blocked \<Rightarrow> Blocked | Fault \<Rightarrow> Fault
            | Ret (iResult, rev0, rev1, err, os2) \<Rightarrow>
                if 0 < iResult then
                  Ret (if rev1 \<noteq> 0 then IPSEC_ERR_CANCELLED
                       else if rev0 AND sEvents \<noteq> 0 then IPSEC_OK else IPSEC_ERR_VICI_TRANSPORT, os2)
                else if iResult = 0 then Ret (IPSEC_ERR_VICI_TIMEOUT, os2)
                else if err \<noteq> EINTR then Ret (IPSEC_ERR_VICI_TRANSPORT, os2)
                else wait_loop sEvents ullDeadlineMs os2))"
  by pat_completeness auto
termination
  by (relation "measure (\<lambda>(ev, dl, os). length os)")
    (auto simp: script_simps dest!: sym [of "Ret _"])

declare wait_loop.simps [simp del]

definition WaitViciSocket :: "u16 \<Rightarrow> nat \<Rightarrow> 'a transport_scheme \<Rightarrow> (IpsecError \<times> 'a transport_scheme) exec" where
  "WaitViciSocket sEvents ullDeadlineMs t =
     exec_bind (wait_loop sEvents ullDeadlineMs (script t)) (\<lambda>(e, os). Ret (e, t\<lparr>script := os\<rparr>))"

lemma wait_loop_consumes: "wait_loop ev dl os = Ret (e, os') \<Longrightarrow> length os' < length os"
proof (induction ev dl os rule: wait_loop.induct)
  case (1 ev dl os)
  then show ?case
    by (subst (asm) (2) wait_loop.simps) (fastforce simp: script_simps split: exec.splits if_splits)
qed

lemma wait_loop_no_fault [simp]: "wait_loop ev dl os \<noteq> Fault"
proof (induction ev dl os rule: wait_loop.induct)
  case (1 ev dl os)
  then show ?case
    by (subst wait_loop.simps) (auto split: exec.split)
qed

lemma WaitViciSocket_Ret:
  "WaitViciSocket ev dl t = Ret (e, t') \<longleftrightarrow>
     (\<exists>os. wait_loop ev dl (script t) = Ret (e, os) \<and> t' = t\<lparr>script := os\<rparr>)"
  by (auto simp: WaitViciSocket_def exec_bind_Ret)

lemma WaitViciSocket_no_fault [simp]: "WaitViciSocket ev dl t \<noteq> Fault"
  by (auto simp: WaitViciSocket_def exec_bind_Fault)

section \<open>Transfers\<close>

text \<open>
  One call of \<open>send\<close> or \<open>recv\<close> on the unsent or unread part of the object: its result, the object
  and the transport behind it. A call never moves more bytes than it was asked for.
\<close>

definition transfer_call ::
  "bool \<Rightarrow> bytes \<Rightarrow> nat \<Rightarrow> nat \<Rightarrow> 'a transport_scheme \<Rightarrow> (int \<times> c_errno \<times> bytes \<times> 'a transport_scheme) exec" where
  "transfer_call bSend d uiOffset uiLen t =
     (if bSend then
        exec_bind (lift_option (rd_bytes d uiOffset (uiLen - uiOffset))) (\<lambda>src.
          exec_bind (read_send (script t)) (\<lambda>(r, err, os).
            if r > int (uiLen - uiOffset) then Blocked
            else Ret (r, err, d, t\<lparr>script := os, wire_out := wire_out t @ take (nat r) src\<rparr>)))
      else
        exec_bind (read_recv (script t)) (\<lambda>(r, bs, err, os).
          if r > int (uiLen - uiOffset) \<or> length bs \<noteq> nat r then Blocked
          else exec_bind (lift_option (write_at d uiOffset bs)) (\<lambda>d'.
            Ret (r, err, d', t\<lparr>script := os, wire_in := wire_in t @ bs\<rparr>))))"

function TransferViciBytes ::
  "bool \<Rightarrow> nat \<Rightarrow> nat \<Rightarrow> nat \<Rightarrow> bytes \<Rightarrow> 'a transport_scheme \<Rightarrow> (IpsecError \<times> bytes \<times> 'a transport_scheme) exec" where
  "TransferViciBytes bSend ullDeadlineMs uiLen uiOffset d t =
     (if uiOffset < uiLen then
        (case WaitViciSocket (if bSend then POLLOUT else POLLIN) ullDeadlineMs t of
           Blocked \<Rightarrow> Blocked | Fault \<Rightarrow> Fault
         | Ret (e, t1) \<Rightarrow>
             if e \<noteq> IPSEC_OK then Ret (e, d, t1)
             else (case transfer_call bSend d uiOffset uiLen t1 of
                Blocked \<Rightarrow> Blocked | Fault \<Rightarrow> Fault
              | Ret (lResult, err, d', t2) \<Rightarrow>
                  if 0 < lResult
                  then TransferViciBytes bSend ullDeadlineMs uiLen (uiOffset + nat lResult) d' t2
                  else if lResult = 0 then Ret (IPSEC_ERR_VICI_TRANSPORT, d', t2)
                  else if err = EINTR \<or> err = EAGAIN
                  then TransferViciBytes bSend ullDeadlineMs uiLen uiOffset d' t2
                  else Ret (IPSEC_ERR_VICI_TRANSPORT, d', t2)))
      else Ret (IPSEC_OK, d, t))"
  by pat_completeness auto

lemma transfer_call_consumes:
  "transfer_call bSend d off n t = Ret (r, err, d', t') \<Longrightarrow> length (script t') < length (script t)"
  by (auto simp: transfer_call_def exec_bind_Ret script_simps split: if_splits)

termination TransferViciBytes
  by (relation "measure (\<lambda>(s, dl, n, off, d, t). length (script t))")
    (auto simp: WaitViciSocket_Ret dest!: wait_loop_consumes transfer_call_consumes sym [of "Ret _"])

declare TransferViciBytes.simps [simp del]

section \<open>Connecting\<close>

definition DisconnectViciTransport :: "'a transport_scheme \<Rightarrow> 'a transport_scheme" where
  "DisconnectViciTransport t = (if 0 \<le> iSocket t then t\<lparr>iSocket := - 1\<rparr> else t)"

text \<open>The \<^verbatim>\<open>if (IPSEC_OK != eError)\<close> epilogue of the transport functions.\<close>

definition close_on_error :: "IpsecError \<times> 'a transport_scheme \<Rightarrow> (IpsecError \<times> 'a transport_scheme) exec" where
  "close_on_error r = (case r of (e, t) \<Rightarrow> Ret (e, if e \<noteq> IPSEC_OK then DisconnectViciTransport t else t))"

definition connect_error :: "c_errno \<Rightarrow> IpsecError" where
  "connect_error err = (if err = EACCES then IPSEC_ERR_PERMISSION else IPSEC_ERR_VICI_CONNECT)"

definition set_nonblocking :: "'a transport_scheme \<Rightarrow> (IpsecError \<times> 'a transport_scheme) exec" where
  "set_nonblocking t = exec_bind (read_fcntl (script t)) (\<lambda>(iFlags, os).
     if iFlags < 0 then Ret (IPSEC_ERR_VICI_CONNECT, t\<lparr>script := os\<rparr>)
     else exec_bind (read_fcntl os) (\<lambda>(r, os).
       Ret (if r < 0 then IPSEC_ERR_VICI_CONNECT else IPSEC_OK, t\<lparr>script := os\<rparr>)))"

definition finish_connect :: "'a transport_scheme \<Rightarrow> (IpsecError \<times> 'a transport_scheme) exec" where
  "finish_connect t = exec_bind (read_clock (script t)) (\<lambda>(ullNowMs, os).
     let ullDeadlineMs = (ullNowMs + uiConnectTimeoutMs t) mod 2 ^ 64;
         ullDeadlineMs = (if ullCommandDeadlineMs t \<noteq> 0 \<and> ullCommandDeadlineMs t < ullDeadlineMs
                          then ullCommandDeadlineMs t else ullDeadlineMs)
     in on_ok (WaitViciSocket POLLOUT ullDeadlineMs (t\<lparr>script := os\<rparr>)) (\<lambda>t.
          exec_bind (read_getsockopt (script t)) (\<lambda>(iResult, iSocketError, err, os).
            Ret (if iResult \<noteq> 0 then connect_error err
                 else (case iSocketError of None \<Rightarrow> IPSEC_OK | Some so \<Rightarrow> connect_error so),
                 t\<lparr>script := os\<rparr>))))"

definition connect_socket :: "'a transport_scheme \<Rightarrow> (IpsecError \<times> 'a transport_scheme) exec" where
  "connect_socket t =
     exec_bind (lift_option (CopyIpsecString (Some (replicate IPSEC_VICI_SOCKET_PATH_LENGTH 0))
        IPSEC_VICI_SOCKET_PATH_LENGTH (Some (acSocketPath t))
        (strnlen (acSocketPath t) IPSEC_VICI_SOCKET_PATH_LENGTH))) (\<lambda>(eError, sun_path).
       if eError \<noteq> IPSEC_OK then Ret (eError, t)
       else exec_bind (read_connect (script t)) (\<lambda>(iResult, err, os).
         if iResult = 0 then Ret (IPSEC_OK, t\<lparr>script := os\<rparr>)
         else if err = EINPROGRESS then finish_connect (t\<lparr>script := os\<rparr>)
         else Ret (connect_error err, t\<lparr>script := os\<rparr>)))"

definition ConnectViciTransport :: "'a transport_scheme \<Rightarrow> (IpsecError \<times> 'a transport_scheme) exec" where
  "ConnectViciTransport t =
     (if cstr (acSocketPath t) = [] then Ret (IPSEC_ERR_INVALID_ARGUMENT, t)
      else if 0 \<le> iSocket t then Ret (IPSEC_OK, t)
      else exec_bind
        (exec_bind (read_socket (script t)) (\<lambda>(fd, err, os).
          let t = t\<lparr>iSocket := fd, script := os, wire_out := [], wire_in := []\<rparr>
          in if fd < 0 then Ret (connect_error err, t)
             else on_ok (set_nonblocking t) connect_socket))
        close_on_error)"

section \<open>Packets\<close>

definition buffer_bytes :: "ViciBuffer \<Rightarrow> bytes" where
  "buffer_bytes b = (case pucData b of None \<Rightarrow> [] | Some d \<Rightarrow> d)"

definition send_frame ::
  "nat \<Rightarrow> ViciBuffer \<Rightarrow> 'a transport_scheme \<Rightarrow> (IpsecError \<times> 'a transport_scheme) exec" where
  "send_frame ullDeadlineMs pPacket t =
     exec_bind (TransferViciBytes True ullDeadlineMs 4 0 (be32 (of_nat (uiLength pPacket))) t) (\<lambda>(e, _, t).
       if e \<noteq> IPSEC_OK then Ret (e, t)
       else exec_bind (TransferViciBytes True ullDeadlineMs (uiLength pPacket) 0 (buffer_bytes pPacket) t)
         (\<lambda>(e, _, t). Ret (e, t)))"

definition SendViciTransportPacket ::
  "'a transport_scheme \<Rightarrow> ViciBuffer \<Rightarrow> (IpsecError \<times> 'a transport_scheme) exec" where
  "SendViciTransportPacket t pPacket =
     (if VICI_MAX_SEGMENT_LENGTH < uiLength pPacket then Ret (IPSEC_ERR_INVALID_ARGUMENT, t)
      else exec_bind
        (on_ok (ConnectViciTransport t) (\<lambda>t.
          exec_bind (GetViciCommandDeadline t) (\<lambda>(ullDeadlineMs, t). send_frame ullDeadlineMs pPacket t)))
        close_on_error)"

definition receive_body ::
  "heap \<Rightarrow> nat \<Rightarrow> bytes \<Rightarrow> 'a transport_scheme \<Rightarrow> ViciBuffer \<Rightarrow> (IpsecError \<times> ViciBuffer \<times> 'a transport_scheme) exec" where
  "receive_body heap ullDeadlineMs hdr t pPacket =
     exec_bind (lift_option (rd_bytes hdr 0 4)) (\<lambda>h.
       let uiPacketLength = unat (de32 (h ! 0) (h ! 1) (h ! 2) (h ! 3))
       in if uiPacketLength = 0 \<or> VICI_MAX_SEGMENT_LENGTH < uiPacketLength
          then Ret (IPSEC_ERR_VICI_PROTOCOL, pPacket, t)
          else exec_bind (lift_option (InitializeViciBuffer heap pPacket uiPacketLength True)) (\<lambda>(e, b).
            if e \<noteq> IPSEC_OK then Ret (e, b, t)
            else exec_bind (TransferViciBytes False ullDeadlineMs uiPacketLength 0 (buffer_bytes b) t)
              (\<lambda>(e, d, t). Ret (e, b\<lparr>uiLength := uiPacketLength, pucData := Some d\<rparr>, t))))"

definition ReceiveViciTransportPacket ::
  "heap \<Rightarrow> 'a transport_scheme \<Rightarrow> ViciBuffer \<Rightarrow> (IpsecError \<times> ViciBuffer \<times> 'a transport_scheme) exec" where
  "ReceiveViciTransportPacket heap t pPacket =
     (if 0 > iSocket t then Ret (IPSEC_ERR_INVALID_ARGUMENT, pPacket, t)
      else exec_bind (GetViciCommandDeadline t) (\<lambda>(ullDeadlineMs, t).
        exec_bind
          (exec_bind (TransferViciBytes False ullDeadlineMs 4 0 (replicate 4 0) t) (\<lambda>(e, hdr, t).
            if e \<noteq> IPSEC_OK then Ret (e, pPacket, t)
            else receive_body heap ullDeadlineMs hdr t pPacket))
          (\<lambda>(e, b, t).
            if e \<noteq> IPSEC_OK
            then exec_bind (lift_option (DestroyViciBuffer b)) (\<lambda>b. Ret (e, b, DisconnectViciTransport t))
            else Ret (e, b, t))))"

definition WaitViciTransportReadable :: "'a transport_scheme \<Rightarrow> nat \<Rightarrow> (IpsecError \<times> 'a transport_scheme) exec" where
  "WaitViciTransportReadable t ullDeadlineMs = WaitViciSocket POLLIN ullDeadlineMs t"

section \<open>What a transfer does\<close>

text \<open>
  A transport that differs from another only in its script and in what went over the wire: the
  bytes \<open>out\<close> were written and \<open>inp\<close> read in between.
\<close>

definition moved :: "bytes \<Rightarrow> bytes \<Rightarrow> 'a transport_scheme \<Rightarrow> 'a transport_scheme \<Rightarrow> bool" where
  "moved out inp t t' \<longleftrightarrow> (\<exists>os. t' = t\<lparr>script := os, wire_out := wire_out t @ out, wire_in := wire_in t @ inp\<rparr>)"

lemma moved_refl: "moved [] [] t t"
  by (auto simp: moved_def intro: exI [of _ "script t"])

lemma moved_trans: "moved o1 i1 t1 t2 \<Longrightarrow> moved o2 i2 t2 t3 \<Longrightarrow> moved (o1 @ o2) (i1 @ i2) t1 t3"
  by (auto simp: moved_def)

lemma moved_script: "moved [] [] t (t\<lparr>script := os\<rparr>)"
  by (auto simp: moved_def intro: exI [of _ os])

lemma moved_wires: "moved out inp t t' \<Longrightarrow> wire_out t' = wire_out t @ out \<and> wire_in t' = wire_in t @ inp \<and> iSocket t' = iSocket t"
  by (auto simp: moved_def)

lemma Wait_moved: "WaitViciSocket ev dl t = Ret (e, t') \<Longrightarrow> moved [] [] t t'"
  by (auto simp: WaitViciSocket_Ret moved_script)

lemma transfer_call_send:
  assumes "transfer_call True d off n t = Ret (r, err, d', t')" and "n \<le> length d"
  shows "d' = d \<and> r \<le> int (n - off) \<and> moved (take (nat r) (drop off d)) [] t t'"
proof -
  obtain src os where s: "rd_bytes d off (n - off) = Some src" "r \<le> int (n - off)" "d' = d"
    "t' = t\<lparr>script := os, wire_out := wire_out t @ take (nat r) src\<rparr>"
    using assms(1) by (auto simp: transfer_call_def exec_bind_Ret lift_option_def split: if_splits option.splits)
  then have "take (nat r) src = take (nat r) (drop off d)"
    by (auto simp: rd_bytes_def min_def split: if_splits)
  with s show ?thesis by (auto simp: moved_def)
qed

lemma transfer_call_recv:
  assumes "transfer_call False d off n t = Ret (r, err, d', t')" and "off \<le> n" and "n \<le> length d"
  shows "\<exists>bs. r \<le> int (n - off) \<and> length bs = nat r \<and> moved [] bs t t'
     \<and> length d' = length d \<and> take (off + nat r) d' = take off d @ bs"
proof -
  obtain bs os where s: "r \<le> int (n - off)" "length bs = nat r" "write_at d off bs = Some d'"
    "t' = t\<lparr>script := os, wire_in := wire_in t @ bs\<rparr>"
    using assms(1) by (auto simp: transfer_call_def exec_bind_Ret lift_option_def split: if_splits option.splits)
  then have "take (off + nat r) d' = take off d @ bs" "length d' = length d"
    using assms(2,3) by (auto simp: write_at_def split: if_splits)
  with s show ?thesis by (intro exI [of _ bs]) (auto simp: moved_def)
qed

lemma transfer_call_no_fault:
  assumes "off \<le> n" and "n \<le> length d"
  shows "transfer_call bSend d off n t \<noteq> Fault"
  using assms
  by (auto simp: transfer_call_def exec_bind_Fault lift_option_def rd_bytes_def write_at_def
      split: option.splits if_splits)

text \<open>
  The outcome of a transfer from offset \<open>off\<close>: what moved is a contiguous piece that starts there,
  and it reaches the end exactly on success.
\<close>

definition transfer_post ::
  "bool \<Rightarrow> nat \<Rightarrow> nat \<Rightarrow> bytes \<Rightarrow> 'a transport_scheme \<Rightarrow> IpsecError \<Rightarrow> bytes \<Rightarrow> 'a transport_scheme \<Rightarrow> bool" where
  "transfer_post bSend n off d t e d' t' \<longleftrightarrow>
     (\<exists>bs. off + length bs \<le> n \<and> (e = IPSEC_OK \<longleftrightarrow> off + length bs = n) \<and> length d' = length d
        \<and> (if bSend then d' = d \<and> bs = take (length bs) (drop off d) \<and> moved bs [] t t'
           else take (off + length bs) d' = take off d @ bs \<and> moved [] bs t t'))"

lemma transfer_post_stop:
  assumes "moved [] [] t t'" and "off \<le> n" and "e = IPSEC_OK \<longleftrightarrow> off = n"
  shows "transfer_post bSend n off d t e d t'"
  unfolding transfer_post_def using assms by (intro exI [of _ "[]"]) auto

lemma transfer_post_send:
  assumes "moved (take k (drop off d)) [] t t1" and "transfer_post True n (off + k) d t1 e d' t'" and "off + k \<le> n" "n \<le> length d"
  shows "transfer_post True n off d t e d' t'"
proof -
  obtain bs where bs: "off + k + length bs \<le> n" "e = IPSEC_OK \<longleftrightarrow> off + k + length bs = n" "d' = d"
    "bs = take (length bs) (drop (off + k) d)" "moved bs [] t1 t'"
    using assms(2) by (auto simp: transfer_post_def)
  have "take (k + length bs) (drop off d) = take k (drop off d) @ bs"
    using bs(4) by (simp add: take_add add.commute)
  moreover have "length (take k (drop off d)) = k" using assms(3,4) by simp
  ultimately show ?thesis
    unfolding transfer_post_def
    using bs moved_trans [OF assms(1) bs(5)] by (intro exI [of _ "take k (drop off d) @ bs"]) auto
qed

lemma transfer_post_recv:
  assumes "moved [] xs t t1" and "transfer_post False n (off + length xs) d1 t1 e d' t'"
    and "length d1 = length d" and "take (off + length xs) d1 = take off d @ xs"
  shows "transfer_post False n off d t e d' t'"
proof -
  obtain bs where bs: "off + length xs + length bs \<le> n" "e = IPSEC_OK \<longleftrightarrow> off + length xs + length bs = n"
    "length d' = length d1" "take (off + length xs + length bs) d' = take (off + length xs) d1 @ bs" "moved [] bs t1 t'"
    using assms(2) by (auto simp: transfer_post_def)
  then show ?thesis
    unfolding transfer_post_def
    using moved_trans [OF assms(1) bs(5)] assms(3,4) by (intro exI [of _ "xs @ bs"]) (auto simp: add.assoc)
qed

lemma transfer_post_call:
  assumes call: "transfer_call bSend d off n t1 = Ret (r, err, d1, t2)" and r: "r \<le> 0 \<or> off1 = off + nat r"
    and wait: "moved [] [] t t1" and off: "off < n" "n \<le> length d"
    and rest: "if 0 < r then transfer_post bSend n off1 d1 t2 e d' t'
               else transfer_post bSend n off d1 t2 e d' t'"
  shows "transfer_post bSend n off d t e d' t'"
proof (cases bSend)
  case True
  then have c: "d1 = d" "r \<le> int (n - off)" "moved (take (nat r) (drop off d)) [] t1 t2"
    using transfer_call_send [of d off n t1 r err d1 t2] call off(2) by auto
  have m: "moved (take (nat r) (drop off d)) [] t t2"
    using moved_trans [OF wait c(3)] by simp
  have post: "transfer_post True n (off + nat r) d t2 e d' t'"
    using rest r True c(1) by (auto split: if_splits)
  have "transfer_post True n off d t e d' t'"
    by (rule transfer_post_send [OF m post]) (use c(2) off in linarith)+
  with True show ?thesis by simp
next
  case False
  with transfer_call_recv [of d off n t1 r err d1 t2] call off obtain bs where
    c: "length bs = nat r" "moved [] bs t1 t2" "length d1 = length d" "take (off + nat r) d1 = take off d @ bs"
    by auto
  have m: "moved [] bs t t2"
    using moved_trans [OF wait c(2)] by simp
  have post: "transfer_post False n (off + length bs) d1 t2 e d' t'"
    using rest r False c(1) by (auto split: if_splits)
  have "transfer_post False n off d t e d' t'"
    by (rule transfer_post_recv [OF m post]) (use c in auto)
  with False show ?thesis by simp
qed

lemma transfer_call_bounds:
  assumes "transfer_call bSend d off n t = Ret (r, err, d1, t1)" and "off \<le> n" "n \<le> length d"
  shows "length d1 = length d" and "r \<le> int (n - off)"
  using assms transfer_call_send [of d off n t r err d1 t1] transfer_call_recv [of d off n t r err d1 t1]
  by (cases bSend; auto)+

lemma Transfer_spec:
  assumes "off \<le> n" and "n \<le> length d"
  shows "TransferViciBytes bSend dl n off d t \<noteq> Fault \<and>
     (\<forall>e d' t'. TransferViciBytes bSend dl n off d t = Ret (e, d', t') \<longrightarrow> transfer_post bSend n off d t e d' t')"
  using assms
proof (induction "length (script t)" arbitrary: off d t rule: less_induct)
  case less
  let ?run = "TransferViciBytes bSend dl n off d t"
  show ?case
  proof (cases "off < n")
    case False
    with less.prems show ?thesis
      by (auto simp: TransferViciBytes.simps intro: transfer_post_stop moved_refl)
  next
    case True
    show ?thesis
    proof (cases "WaitViciSocket (if bSend then POLLOUT else POLLIN) dl t")
      case Blocked
      with True show ?thesis by (auto simp: TransferViciBytes.simps)
    next
      case (Ret r1)
      then obtain e1 t1 where w: "WaitViciSocket (if bSend then POLLOUT else POLLIN) dl t = Ret (e1, t1)"
        by (cases r1) auto
      note wm = Wait_moved [OF w]
      have w_less: "length (script t1) < length (script t)"
        using w by (auto simp: WaitViciSocket_Ret dest: wait_loop_consumes)
      show ?thesis
      proof (cases "e1 = IPSEC_OK")
        case False
        with True w wm show ?thesis
          by (auto simp: TransferViciBytes.simps [of bSend dl n off d t] intro: transfer_post_stop)
      next
        case ok: True
        show ?thesis
        proof (cases "transfer_call bSend d off n t1")
          case Blocked
          with True w ok show ?thesis by (auto simp: TransferViciBytes.simps [of bSend dl n off d t])
        next
          case Fault
          with transfer_call_no_fault less.prems show ?thesis by blast
        next
          case (Ret r2)
          then obtain r err d1 t2 where c: "transfer_call bSend d off n t1 = Ret (r, err, d1, t2)"
            by (cases r2) auto
          have d1: "length d1 = length d" "r \<le> int (n - off)"
            using transfer_call_bounds [OF c] less.prems by auto
          have small: "length (script t2) < length (script t)"
            using transfer_call_consumes [OF c] w_less by simp
          have pos: "TransferViciBytes bSend dl n (off + nat r) d1 t2 \<noteq> Fault \<and>
             (\<forall>e d' t'. TransferViciBytes bSend dl n (off + nat r) d1 t2 = Ret (e, d', t')
                \<longrightarrow> transfer_post bSend n (off + nat r) d1 t2 e d' t')"
            using d1 less.prems by (intro less.hyps [OF small]) linarith+
          have neg: "TransferViciBytes bSend dl n off d1 t2 \<noteq> Fault \<and>
             (\<forall>e d' t'. TransferViciBytes bSend dl n off d1 t2 = Ret (e, d', t')
                \<longrightarrow> transfer_post bSend n off d1 t2 e d' t')"
            using d1 less.prems by (intro less.hyps [OF small]) simp_all
          have stop: "transfer_post bSend n off d1 t2 IPSEC_ERR_VICI_TRANSPORT d1 t2"
            using True by (intro transfer_post_stop moved_refl) auto
          note step = transfer_post_call [OF c _ wm True less.prems(2), of "off + nat r"]
          show ?thesis
            using True w ok c pos neg stop step
            by (subst (1 2) TransferViciBytes.simps) auto
        qed
      qed
    qed simp
  qed
qed

text \<open>What a run of the transport may change: the descriptor, the script and the wire logs.\<close>

definition conf_of :: "'a transport_scheme \<Rightarrow> 'a transport_scheme" where
  "conf_of t = t\<lparr>iSocket := 0, script := [], wire_out := [], wire_in := []\<rparr>"

lemma conf_of_simps [simp]:
  "conf_of (t\<lparr>iSocket := fd\<rparr>) = conf_of t" "conf_of (t\<lparr>script := os\<rparr>) = conf_of t"
  "conf_of (t\<lparr>wire_out := w\<rparr>) = conf_of t" "conf_of (t\<lparr>wire_in := w\<rparr>) = conf_of t"
  by (simp_all add: conf_of_def)

lemma conf_of_fields:
  assumes "conf_of t' = conf_of t"
  shows "acSocketPath t' = acSocketPath t" and "uiConnectTimeoutMs t' = uiConnectTimeoutMs t"
    and "uiCommandTimeoutMs t' = uiCommandTimeoutMs t" and "ullCommandDeadlineMs t' = ullCommandDeadlineMs t"
    and "iTransportCancelFd t' = iTransportCancelFd t" and "more t' = more t"
  using assms by (cases t; cases t'; simp add: conf_of_def)+

lemma moved_conf: "moved out inp t t' \<Longrightarrow> conf_of t' = conf_of t"
  by (auto simp: moved_def)

lemma Disconnect_conf [simp]: "conf_of (DisconnectViciTransport t) = conf_of t"
  by (simp add: DisconnectViciTransport_def)

lemma Disconnect_closed [simp]: "iSocket (DisconnectViciTransport t) < 0"
  by (simp add: DisconnectViciTransport_def)

lemma Disconnect_wires [simp]:
  "wire_out (DisconnectViciTransport t) = wire_out t" "wire_in (DisconnectViciTransport t) = wire_in t"
  by (simp_all add: DisconnectViciTransport_def)

section \<open>Connecting keeps the configuration\<close>

lemma Deadline_moved:
  "GetViciCommandDeadline t = Ret (dl, t') \<Longrightarrow> moved [] [] t t'" "GetViciCommandDeadline t \<noteq> Fault"
  by (auto simp: GetViciCommandDeadline_def exec_bind_Ret exec_bind_Fault moved_refl moved_script split: if_splits)

lemma moved_nil_script [simp]: "moved [] [] t (t'\<lparr>script := os\<rparr>) \<longleftrightarrow> moved [] [] t t'"
  "moved [] [] (t\<lparr>script := os\<rparr>) t' \<longleftrightarrow> moved [] [] t t'"
  by (cases t; cases t'; auto simp: moved_def)+

lemma keeps_bind: "r \<noteq> Fault \<Longrightarrow> (\<And>x. r = Ret x \<Longrightarrow> keeps P (f x)) \<Longrightarrow> keeps P (exec_bind r f)"
  by (cases r) auto

lemma moved_nil_trans: "moved [] [] t t1 \<Longrightarrow> moved [] [] t1 t2 \<Longrightarrow> moved [] [] t t2"
  using moved_trans [of "[]" "[]" t t1 "[]" "[]" t2] by simp

lemma Wait_keeps: "moved [] [] t t1 \<Longrightarrow> keeps (moved [] [] t) (WaitViciSocket ev dl t1)"
  by (auto simp: keeps_def intro: moved_nil_trans dest: Wait_moved)

lemma set_nonblocking_keeps: "keeps (moved [] [] t) (set_nonblocking t)"
  by (auto simp: set_nonblocking_def moved_refl intro!: keeps_bind)

lemma getsockopt_keeps:
  "moved [] [] t t1 \<Longrightarrow> keeps (moved [] [] t) (exec_bind (read_getsockopt (script t1))
      (\<lambda>(iResult, iSocketError, err, os). Ret (f iResult iSocketError err, t1\<lparr>script := os\<rparr>)))"
  by (auto intro!: keeps_bind)

lemma finish_connect_keeps: "moved [] [] t t1 \<Longrightarrow> keeps (moved [] [] t) (finish_connect t1)"
  unfolding finish_connect_def Let_def
  by (rule keeps_bind, simp, simp only: split_paired_all prod.case, rule keeps_on_ok)
    (auto intro!: Wait_keeps getsockopt_keeps)

lemma connect_socket_keeps:
  assumes path: "length (acSocketPath t) = IPSEC_VICI_SOCKET_PATH_LENGTH"
  shows "keeps (moved [] [] t) (connect_socket t)"
proof -
  let ?copy = "CopyIpsecString (Some (replicate IPSEC_VICI_SOCKET_PATH_LENGTH 0))
        IPSEC_VICI_SOCKET_PATH_LENGTH (Some (acSocketPath t))
        (strnlen (acSocketPath t) IPSEC_VICI_SOCKET_PATH_LENGTH)"
  have "?copy \<noteq> None"
    using path by (simp add: CopyIpsecString_def strnlen_def strlen_le rd_bytes_def write_at_def
        IPSEC_VICI_SOCKET_PATH_LENGTH_def)
  then show ?thesis
    by (auto simp: connect_socket_def lift_option_def moved_refl split: option.split
        intro!: keeps_bind finish_connect_keeps)
qed

text \<open>What \<open>ConnectViciTransport\<close> leaves behind.\<close>

definition connect_post :: "'a transport_scheme \<Rightarrow> IpsecError \<Rightarrow> 'a transport_scheme \<Rightarrow> bool" where
  "connect_post t e t' \<longleftrightarrow> conf_of t' = conf_of t \<and>
     (if e = IPSEC_OK then 0 \<le> iSocket t' \<and>
        (if 0 \<le> iSocket t then t' = t else wire_out t' = [] \<and> wire_in t' = [])
      else iSocket t' < 0 \<or> cstr (acSocketPath t) = [] \<and> t' = t)"

lemma Connect_spec:
  assumes "length (acSocketPath t) = IPSEC_VICI_SOCKET_PATH_LENGTH"
  shows "ConnectViciTransport t \<noteq> Fault \<and>
     (\<forall>e t'. ConnectViciTransport t = Ret (e, t') \<longrightarrow> connect_post t e t')"
proof (cases "cstr (acSocketPath t) = [] \<or> 0 \<le> iSocket t")
  case True
  then show ?thesis by (auto simp: ConnectViciTransport_def connect_post_def)
next
  case False
  let ?open = "\<lambda>fd os. t\<lparr>iSocket := fd, script := os, wire_out := [], wire_in := []\<rparr>"
  have k: "keeps (moved [] [] (?open fd os)) (on_ok (set_nonblocking (?open fd os)) connect_socket)" for fd os
  proof (rule keeps_on_ok [OF set_nonblocking_keeps])
    fix s assume m: "moved [] [] (?open fd os) s"
    then have "length (acSocketPath s) = IPSEC_VICI_SOCKET_PATH_LENGTH"
      using assms by (auto simp: moved_def)
    from connect_socket_keeps [OF this] m show "keeps (moved [] [] (?open fd os)) (connect_socket s)"
      by (auto simp: keeps_def intro: moved_nil_trans)
  qed
  have nf: "on_ok (set_nonblocking (?open fd os)) connect_socket \<noteq> Fault" for fd os
    using k [of os fd] by (simp add: keeps_def)
  have conn: "\<not> fd < 0 \<Longrightarrow> on_ok (set_nonblocking (?open fd os)) connect_socket = Ret (e, s) \<Longrightarrow>
      close_on_error (e, s) = Ret (e', t') \<Longrightarrow> connect_post t e' t'" for fd os e s e' t'
    using k [of os fd] False by (auto simp: keeps_def close_on_error_def connect_post_def moved_def split: if_splits)
  have bad: "fd < 0 \<Longrightarrow> close_on_error (connect_error err, ?open fd os) = Ret (e', t') \<Longrightarrow> connect_post t e' t'"
    for fd os err e' t'
    by (auto simp: close_on_error_def connect_error_def connect_post_def split: if_splits)
  have "close_on_error r \<noteq> Fault" for r :: "IpsecError \<times> 'a transport_scheme"
    by (simp add: close_on_error_def split: prod.split)
  moreover have "connect_post t e t'" if run: "ConnectViciTransport t = Ret (e, t')" for e t'
  proof -
    obtain fd err os r where r: "(if fd < 0 then Ret (connect_error err, ?open fd os)
        else on_ok (set_nonblocking (?open fd os)) connect_socket) = Ret r" "close_on_error r = Ret (e, t')"
      using run False by (auto simp: ConnectViciTransport_def exec_bind_Ret Let_def)
    then show ?thesis
      using conn bad by (cases "fd < 0"; cases r; auto)
  qed
  ultimately show ?thesis
    using False nf by (auto simp: ConnectViciTransport_def exec_bind_Fault Let_def split: if_splits)
qed

section \<open>Transfers and packets\<close>

text \<open>
  A transfer of \<open>n\<close> bytes, over any sequence of short, interrupted and refused system calls, stays
  inside the object and moves one contiguous prefix, in order and without loss or repetition: all of
  it exactly when the transfer reports success. Sending leaves the object alone and appends to what
  was written; receiving stores what was read at the start of the object.
\<close>

theorem TransferViciBytes_exact:
  assumes "n \<le> length d"
  shows "TransferViciBytes bSend dl n 0 d t \<noteq> Fault \<and>
     (\<forall>e d' t'. TransferViciBytes bSend dl n 0 d t = Ret (e, d', t') \<longrightarrow>
        (\<exists>bs. length bs \<le> n \<and> (e = IPSEC_OK \<longleftrightarrow> length bs = n) \<and> length d' = length d \<and>
           (if bSend then d' = d \<and> bs = take (length bs) d \<and> wire_out t' = wire_out t @ bs \<and> wire_in t' = wire_in t
            else take (length bs) d' = bs \<and> wire_in t' = wire_in t @ bs \<and> wire_out t' = wire_out t)))"
proof (intro conjI allI impI)
  show "TransferViciBytes bSend dl n 0 d t \<noteq> Fault"
    using Transfer_spec [of 0 n d bSend dl t] assms by simp
  fix e d' t'
  assume "TransferViciBytes bSend dl n 0 d t = Ret (e, d', t')"
  then have "transfer_post bSend n 0 d t e d' t'"
    using Transfer_spec [of 0 n d bSend dl t] assms by simp
  then show "\<exists>bs. length bs \<le> n \<and> (e = IPSEC_OK \<longleftrightarrow> length bs = n) \<and> length d' = length d \<and>
       (if bSend then d' = d \<and> bs = take (length bs) d \<and> wire_out t' = wire_out t @ bs \<and> wire_in t' = wire_in t
        else take (length bs) d' = bs \<and> wire_in t' = wire_in t @ bs \<and> wire_out t' = wire_out t)"
    unfolding transfer_post_def by (rule ex_forward) (auto dest!: moved_wires split: if_splits)
qed

lemma send_all:
  assumes "TransferViciBytes True dl n 0 d t = Ret (e, d', t')" and "n \<le> length d"
  shows "\<exists>k. k \<le> n \<and> (e = IPSEC_OK \<longleftrightarrow> k = n) \<and> moved (take k d) [] t t'"
proof -
  obtain bs where "length bs \<le> n" "e = IPSEC_OK \<longleftrightarrow> length bs = n" "bs = take (length bs) d" "moved bs [] t t'"
    using Transfer_spec [of 0 n d True dl t] assms by (auto simp: transfer_post_def)
  then show ?thesis by (intro exI [of _ "length bs"]) auto
qed

lemma recv_all:
  assumes "TransferViciBytes False dl n 0 d t = Ret (e, d', t')" and "n \<le> length d"
  shows "\<exists>bs. length bs \<le> n \<and> (e = IPSEC_OK \<longleftrightarrow> length bs = n) \<and> length d' = length d
     \<and> take (length bs) d' = bs \<and> moved [] bs t t'"
  using Transfer_spec [of 0 n d False dl t] assms by (auto simp: transfer_post_def)

lemma transfer_no_fault: "n \<le> length d \<Longrightarrow> TransferViciBytes bSend dl n 0 d t \<noteq> Fault"
  using Transfer_spec [of 0 n d bSend dl t] by simp

text \<open>The two transfers of a packet: the length, then the packet itself.\<close>

definition frame_bytes :: "bytes \<Rightarrow> bytes" where
  "frame_bytes p = be32 (of_nat (length p)) @ p"

lemma buf_content_bytes: "buf_content b = take (uiLength b) (buffer_bytes b)"
  by (simp add: buf_content_def buffer_bytes_def split: option.split)

lemma buffer_bytes_length: "buf_wf b \<Longrightarrow> uiLength b \<le> length (buffer_bytes b)"
  by (auto simp: buf_wf_def buffer_bytes_def split: option.splits)

lemma send_frame_spec:
  assumes wf: "buf_wf p"
  shows "send_frame dl p t \<noteq> Fault" and "send_frame dl p t = Ret (e, t') \<Longrightarrow>
    \<exists>k. k \<le> length (frame_bytes (buf_content p)) \<and> moved (take k (frame_bytes (buf_content p))) [] t t'
      \<and> (e = IPSEC_OK \<longleftrightarrow> k = length (frame_bytes (buf_content p)))"
proof -
  note len = buffer_bytes_length [OF wf] buf_content_length [OF wf]
  let ?h = "be32 (of_nat (uiLength p))"
  have frame: "frame_bytes (buf_content p) = ?h @ buf_content p" "length (frame_bytes (buf_content p)) = 4 + uiLength p"
    by (simp_all add: frame_bytes_def len)
  show "send_frame dl p t \<noteq> Fault"
    by (auto simp: send_frame_def exec_bind_Fault len transfer_no_fault split: if_splits)
  assume "send_frame dl p t = Ret (e, t')"
  then consider (head) "e \<noteq> IPSEC_OK" "\<exists>d'. TransferViciBytes True dl 4 0 ?h t = Ret (e, d', t')"
    | (body) t1 d1 d2 where "TransferViciBytes True dl 4 0 ?h t = Ret (IPSEC_OK, d1, t1)"
      "TransferViciBytes True dl (uiLength p) 0 (buffer_bytes p) t1 = Ret (e, d2, t')"
    unfolding send_frame_def by (fastforce simp: exec_bind_Ret split: if_splits)
  then show "\<exists>k. k \<le> length (frame_bytes (buf_content p)) \<and> moved (take k (frame_bytes (buf_content p))) [] t t'
      \<and> (e = IPSEC_OK \<longleftrightarrow> k = length (frame_bytes (buf_content p)))"
  proof cases
    case head
    then obtain k where "k < 4" "moved (take k ?h) [] t t'"
      using send_all [of dl 4 ?h t e _ t'] by (metis le_neq_implies_less length_be32 order_refl)
    with head show ?thesis
      by (intro exI [of _ k]) (auto simp: frame)
  next
    case body
    obtain k where k: "k \<le> uiLength p" "e = IPSEC_OK \<longleftrightarrow> k = uiLength p" "moved (take k (buffer_bytes p)) [] t1 t'"
      using send_all [OF body(2)] len by auto
    have "moved ?h [] t t1"
      using send_all [OF body(1)] by auto
    from moved_trans [OF this k(3)] have "moved (take (4 + k) (?h @ buf_content p)) [] t t'"
      using k(1) by (simp add: buf_content_bytes min_def)
    with k show ?thesis by (intro exI [of _ "4 + k"]) (auto simp: frame len)
  qed
qed

text \<open>What a connection holds before a packet is sent: a fresh one starts with empty logs.\<close>

definition wire_before :: "'a transport_scheme \<Rightarrow> bytes" where
  "wire_before t = (if 0 \<le> iSocket t then wire_out t else [])"

definition send_post :: "'a transport_scheme \<Rightarrow> bytes \<Rightarrow> IpsecError \<Rightarrow> 'a transport_scheme \<Rightarrow> bool" where
  "send_post t p e t' \<longleftrightarrow> conf_of t' = conf_of t \<and>
     (if e = IPSEC_OK then 0 \<le> iSocket t' \<and> wire_out t' = wire_before t @ frame_bytes p
        \<and> wire_in t' = (if 0 \<le> iSocket t then wire_in t else [])
      else iSocket t' < 0)"

lemma close_on_error_Ret:
  "close_on_error (e, t) = Ret (e', t') \<longleftrightarrow>
     e' = e \<and> t' = (if e \<noteq> IPSEC_OK then DisconnectViciTransport t else t)"
  by (auto simp: close_on_error_def)

lemma close_on_error_no_fault [simp]: "close_on_error r \<noteq> Fault"
  by (simp add: close_on_error_def split: prod.split)

lemma Send_spec:
  assumes path: "length (acSocketPath t) = IPSEC_VICI_SOCKET_PATH_LENGTH" and wf: "buf_wf p"
  shows "SendViciTransportPacket t p \<noteq> Fault"
    and "SendViciTransportPacket t p = Ret (e, t') \<Longrightarrow> send_post t (buf_content p) e t'"
proof -
  have small: "\<not> VICI_MAX_SEGMENT_LENGTH < uiLength p"
    using wf by (auto simp: buf_wf_def)
  let ?tail = "\<lambda>t. exec_bind (GetViciCommandDeadline t) (\<lambda>(dl, t). send_frame dl p t)"
  have nf: "?tail t1 \<noteq> Fault" for t1 :: "'a transport_scheme"
    by (auto simp: exec_bind_Fault Deadline_moved(2) send_frame_spec(1) [OF wf])
  show "SendViciTransportPacket t p \<noteq> Fault"
    using Connect_spec [OF path] small nf
    by (auto simp: SendViciTransportPacket_def exec_bind_Fault on_ok_Fault)
  assume "SendViciTransportPacket t p = Ret (e, t')"
  then obtain t2 where run: "on_ok (ConnectViciTransport t) ?tail = Ret (e, t2)"
    and t': "t' = (if e \<noteq> IPSEC_OK then DisconnectViciTransport t2 else t2)"
    using small by (auto simp: SendViciTransportPacket_def exec_bind_Ret close_on_error_Ret)
  from run consider (conn) "e \<noteq> IPSEC_OK" "ConnectViciTransport t = Ret (e, t2)"
    | (sent) t1 dl t1' where "ConnectViciTransport t = Ret (IPSEC_OK, t1)"
        "GetViciCommandDeadline t1 = Ret (dl, t1')" "send_frame dl p t1' = Ret (e, t2)"
    by (auto simp: on_ok_Ret exec_bind_Ret)
  then show "send_post t (buf_content p) e t'"
  proof cases
    case conn
    then show ?thesis
      using Connect_spec [OF path] t' by (auto simp: send_post_def connect_post_def)
  next
    case sent
    have c: "connect_post t IPSEC_OK t1"
      using Connect_spec [OF path] sent(1) by blast
    let ?f = "frame_bytes (buf_content p)"
    obtain k where k: "moved (take k ?f) [] t1' t2" "e = IPSEC_OK \<longleftrightarrow> k = length ?f"
      using send_frame_spec(2) [OF wf sent(3)] by blast
    have "moved (take k ?f) [] t1 t2"
      using moved_trans [OF Deadline_moved(1) [OF sent(2)] k(1)] by simp
    with c k(2) t' show ?thesis
      by (auto simp: send_post_def connect_post_def wire_before_def moved_def split: if_splits)
  qed
qed

text \<open>
  C9. Sending a well-formed packet never leaves its memory. On success exactly one frame, the
  big-endian length followed by the packet, was appended to the stream of an open connection (or
  starts the stream of the connection that was opened for it). On every error, including a cancelled
  or timed out transfer in the middle of a frame, the connection is closed, so that the daemon never
  sees another frame behind a truncated one. The timeouts, the path and everything else stay as they were.
\<close>

theorem SendViciTransportPacket_frames:
  assumes "length (acSocketPath t) = IPSEC_VICI_SOCKET_PATH_LENGTH" and "buf_wf p"
  shows "SendViciTransportPacket t p \<noteq> Fault \<and>
     (\<forall>e t'. SendViciTransportPacket t p = Ret (e, t') \<longrightarrow> conf_of t' = conf_of t \<and>
        (if e = IPSEC_OK
         then 0 \<le> iSocket t' \<and>
              wire_out t' = (if 0 \<le> iSocket t then wire_out t else [])
                @ be32 (of_nat (uiLength p)) @ buf_content p
         else iSocket t' < 0))"
  using Send_spec [OF assms] buf_content_length [OF assms(2)]
  by (auto simp: send_post_def wire_before_def frame_bytes_def split: if_splits)

definition idle_transport :: "os_script \<Rightarrow> transport" where
  "idle_transport os = \<lparr>iSocket = - 1, acSocketPath = 47 # replicate 107 0, uiConnectTimeoutMs = 3000,
     uiCommandTimeoutMs = 10000, ullCommandDeadlineMs = 0, iTransportCancelFd = - 1,
     script = os, wire_out = [], wire_in = []\<rparr>"

section \<open>Receiving\<close>

text \<open>A packet buffer as the callers pass it: zeroed, with nothing but wiped blocks behind it.\<close>

definition fresh_buffer :: "ViciBuffer \<Rightarrow> bool" where
  "fresh_buffer b \<longleftrightarrow> b = empty_ViciBuffer\<lparr>released := released b\<rparr> \<and> blank (released b)"

lemma fresh_destroy: "fresh_buffer b \<Longrightarrow> DestroyViciBuffer b = Some b"
  unfolding fresh_buffer_def by (cases b) (auto simp: DestroyViciBuffer_def empty_ViciBuffer_def)

lemma fresh_empty [simp]: "fresh_buffer empty_ViciBuffer"
  by (simp add: fresh_buffer_def empty_ViciBuffer_def)

lemma fresh_content [simp]: "fresh_buffer b \<Longrightarrow> buf_wf b \<and> pucData b = None"
  unfolding fresh_buffer_def by (cases b) (auto simp: empty_ViciBuffer_def buf_wf_def)

lemma secret_destroy: "secret_inv b \<Longrightarrow> \<exists>b'. DestroyViciBuffer b = Some b' \<and> fresh_buffer b'"
  by (auto simp: DestroyViciBuffer_def secret_inv_def buf_wf_def SecureZeroIpsec_def mem_simps
      empty_ViciBuffer_def fresh_buffer_def split: option.splits)

lemma Initialize_sensitive:
  assumes "fresh_buffer b" and "n \<le> VICI_MAX_SEGMENT_LENGTH"
  shows "\<exists>e b0. InitializeViciBuffer heap b n True = Some (e, b0) \<and> secret_inv b0 \<and> uiLength b0 = 0
     \<and> (e = IPSEC_OK \<longrightarrow> n \<le> uiCapacity b0)"
proof -
  let ?b = "empty_ViciBuffer\<lparr>bSensitive := True, released := released b\<rparr>"
  have wf: "buf_wf ?b" "secret_safe ?b" "uiLength ?b = 0" "bSensitive ?b"
    using assms(1) by (auto simp: fresh_buffer_def buf_wf_def empty_ViciBuffer_def secret_safe_def)
  obtain e b0 where r: "ReserveViciBuffer heap ?b n = Some (e, b0)" "reserve_post ?b n e b0"
    using Reserve_total [OF wf(1)] by blast
  moreover have "InitializeViciBuffer heap b n True = ReserveViciBuffer heap ?b n"
    using assms(2) by (simp add: InitializeViciBuffer_def)
  ultimately show ?thesis
    using wf by (auto simp: reserve_post_def secret_inv_def secret_safe_def)
qed

lemma secret_filled:
  assumes "secret_inv b" and "n \<le> uiCapacity b" and "length d = length (buffer_bytes b)" and "0 < n"
  shows "secret_inv (b\<lparr>uiLength := n, pucData := Some d\<rparr>)"
  using assms by (auto simp: secret_inv_def buf_wf_def buffer_bytes_def split: option.splits)

lemma secret_room: "secret_inv b \<Longrightarrow> length (buffer_bytes b) = uiCapacity b"
  by (auto simp: secret_inv_def buf_wf_def buffer_bytes_def split: option.splits)

definition receive_post :: "nat \<Rightarrow> IpsecError \<Rightarrow> ViciBuffer \<Rightarrow> 'a transport_scheme \<Rightarrow> 'a transport_scheme \<Rightarrow> bool" where
  "receive_post n e b t t' \<longleftrightarrow> (secret_inv b \<or> fresh_buffer b) \<and>
     (\<exists>inp. moved [] inp t t' \<and> (e = IPSEC_OK \<longrightarrow> secret_inv b \<and> 0 < n \<and> uiLength b = n \<and> inp = buf_content b))"

lemma receive_body_spec:
  assumes fresh: "fresh_buffer b" and len: "length hdr = 4"
  defines "n \<equiv> unat (de32 (hdr ! 0) (hdr ! 1) (hdr ! 2) (hdr ! 3))"
  shows "receive_body heap dl hdr t b \<noteq> Fault"
    and "receive_body heap dl hdr t b = Ret (e, b', t') \<Longrightarrow> receive_post n e b' t t'"
proof -
  let ?bad = "n = 0 \<or> VICI_MAX_SEGMENT_LENGTH < n"
  have hdr: "rd_bytes hdr 0 4 = Some hdr"
    using len by (simp add: rd_bytes_def)
  have run: "receive_body heap dl hdr t b = (if ?bad then Ret (IPSEC_ERR_VICI_PROTOCOL, b, t)
     else exec_bind (lift_option (InitializeViciBuffer heap b n True)) (\<lambda>(e, b).
        if e \<noteq> IPSEC_OK then Ret (e, b, t)
        else exec_bind (TransferViciBytes False dl n 0 (buffer_bytes b) t)
          (\<lambda>(e, d, t). Ret (e, b\<lparr>uiLength := n, pucData := Some d\<rparr>, t))))"
    unfolding receive_body_def hdr n_def Let_def by simp
  have "receive_body heap dl hdr t b \<noteq> Fault \<and>
     (\<forall>e b' t'. receive_body heap dl hdr t b = Ret (e, b', t') \<longrightarrow> receive_post n e b' t t')"
  proof (cases ?bad)
    case True
    then show ?thesis
      using fresh moved_refl by (auto simp: run receive_post_def)
  next
    case False
    then obtain e0 b0 where i: "InitializeViciBuffer heap b n True = Some (e0, b0)" "secret_inv b0"
      "e0 = IPSEC_OK \<longrightarrow> n \<le> uiCapacity b0"
      using Initialize_sensitive [OF fresh, of n heap] by auto
    show ?thesis
    proof (cases "e0 = IPSEC_OK")
      case e0: False
      then show ?thesis using False i moved_refl by (auto simp: run receive_post_def)
    next
      case True
      have room: "n \<le> length (buffer_bytes b0)"
        using i True secret_room by auto
      have "receive_post n e b' t t'" if tr: "TransferViciBytes False dl n 0 (buffer_bytes b0) t = Ret (e, d, t')"
        and b': "b' = b0\<lparr>uiLength := n, pucData := Some d\<rparr>" for e d b' t'
      proof -
        obtain bs where bs: "e = IPSEC_OK \<longleftrightarrow> length bs = n" "length d = length (buffer_bytes b0)"
          "take (length bs) d = bs" "moved [] bs t t'"
          using recv_all [OF tr room] by blast
        have "secret_inv b'"
          using secret_filled [of b0 n d] i True bs False b' by auto
        with bs False show ?thesis
          by (auto simp: receive_post_def b' buf_content_def intro!: exI [of _ bs])
      qed
      with False i True transfer_no_fault [OF room] show ?thesis
        by (auto simp: run exec_bind_Fault exec_bind_Ret)
    qed
  qed
  then show "receive_body heap dl hdr t b \<noteq> Fault"
    and "receive_body heap dl hdr t b = Ret (e, b', t') \<Longrightarrow> receive_post n e b' t t'"
    by auto
qed

lemma list4: "length xs = 4 \<Longrightarrow> xs = [xs ! 0, xs ! 1, xs ! 2, xs ! 3]"
  by (auto simp: numeral_eq_Suc length_Suc_conv)

lemma receive_head:
  assumes "TransferViciBytes False dl 4 0 (replicate 4 0) t = Ret (e, hdr, t1)"
  shows "length hdr = 4" and "\<exists>inp. moved [] inp t t1 \<and> (e = IPSEC_OK \<longrightarrow> inp = hdr)"
  using recv_all [OF assms] by auto

lemma Receive_spec:
  assumes fresh: "fresh_buffer b" and open_socket: "0 \<le> iSocket t"
  shows "ReceiveViciTransportPacket heap t b \<noteq> Fault"
    and "ReceiveViciTransportPacket heap t b = Ret (e, b', t') \<Longrightarrow> conf_of t' = conf_of t \<and>
      (if e = IPSEC_OK then secret_inv b' \<and> uiLength b' \<noteq> 0 \<and> 0 \<le> iSocket t' \<and> wire_out t' = wire_out t
         \<and> wire_in t' = wire_in t @ frame_bytes (buf_content b')
       else fresh_buffer b' \<and> iSocket t' < 0)"
proof -
  let ?start = "\<lambda>dl t. exec_bind (TransferViciBytes False dl 4 0 (replicate 4 0) t) (\<lambda>(e, hdr, t).
            if e \<noteq> IPSEC_OK then Ret (e, b, t) else receive_body heap dl hdr t b)"
  have nf: "?start dl t1 \<noteq> Fault" for dl and t1 :: "'a transport_scheme"
    by (auto simp: exec_bind_Fault transfer_no_fault receive_body_spec(1) [OF fresh receive_head(1)]
        split: if_splits)
  have post: "\<exists>inp. moved [] inp t1 t2 \<and> (secret_inv b2 \<or> fresh_buffer b2) \<and>
      (e = IPSEC_OK \<longrightarrow> secret_inv b2 \<and> uiLength b2 \<noteq> 0 \<and> inp = frame_bytes (buf_content b2))"
    if run: "?start dl t1 = Ret (e, b2, t2)" for dl e b2 and t1 t2 :: "'a transport_scheme"
  proof -
    obtain e1 hdr t3 where head: "TransferViciBytes False dl 4 0 (replicate 4 0) t1 = Ret (e1, hdr, t3)"
      and rest: "(if e1 \<noteq> IPSEC_OK then Ret (e1, b, t3) else receive_body heap dl hdr t3 b) = Ret (e, b2, t2)"
      using run by (auto simp: exec_bind_Ret)
    note h = receive_head [OF head]
    show ?thesis
    proof (cases "e1 = IPSEC_OK")
      case False
      with rest h fresh show ?thesis by auto
    next
      case True
      let ?n = "unat (de32 (hdr ! 0) (hdr ! 1) (hdr ! 2) (hdr ! 3))"
      have m: "moved [] hdr t1 t3" using h True by auto
      have "receive_post ?n e b2 t3 t2"
        using receive_body_spec(2) [OF fresh h(1)] rest True by simp
      then obtain inp where i: "moved [] inp t3 t2" "secret_inv b2 \<or> fresh_buffer b2"
        "e = IPSEC_OK \<longrightarrow> secret_inv b2 \<and> 0 < ?n \<and> uiLength b2 = ?n \<and> inp = buf_content b2"
        by (auto simp: receive_post_def)
      have hdr_eq: "be32 (of_nat ?n) = hdr"
        using list4 [OF h(1)] by (simp add: be32_de32)
      have len: "e = IPSEC_OK \<Longrightarrow> length (buf_content b2) = ?n"
        using i buf_content_length by (auto simp: secret_inv_def)
      show ?thesis
        using moved_trans [OF m i(1)] i hdr_eq len by (intro exI [of _ "hdr @ inp"]) (auto simp: frame_bytes_def)
    qed
  qed
  have fin: "\<exists>b3. DestroyViciBuffer b2 = Some b3 \<and> fresh_buffer b3" if "secret_inv b2 \<or> fresh_buffer b2" for b2
    using that secret_destroy fresh_destroy by blast
  let ?fin = "\<lambda>(e, b, t). if e \<noteq> IPSEC_OK
      then exec_bind (lift_option (DestroyViciBuffer b)) (\<lambda>b. Ret (e, b, DisconnectViciTransport t))
      else Ret (e, b, t)"
  have run: "ReceiveViciTransportPacket heap t b =
      exec_bind (GetViciCommandDeadline t) (\<lambda>(dl, t). exec_bind (?start dl t) ?fin)"
    using open_socket by (simp add: ReceiveViciTransportPacket_def)
  show "ReceiveViciTransportPacket heap t b \<noteq> Fault"
    using nf post fin by (fastforce simp: run exec_bind_Fault Deadline_moved(2) split: if_splits)
  assume "ReceiveViciTransportPacket heap t b = Ret (e, b', t')"
  then obtain dl t1 where dl: "GetViciCommandDeadline t = Ret (dl, t1)"
    and r1: "exec_bind (?start dl t1) ?fin = Ret (e, b', t')"
    unfolding run by (elim exec_bind_RetE) auto
  from r1 obtain x where x: "?start dl t1 = Ret x" "?fin x = Ret (e, b', t')"
    by (rule exec_bind_RetE)
  obtain e2 b2 t2 where "x = (e2, b2, t2)" by (cases x)
  with dl x have r: "GetViciCommandDeadline t = Ret (dl, t1)" "?start dl t1 = Ret (e2, b2, t2)"
    "?fin (e2, b2, t2) = Ret (e, b', t')" by simp_all
  obtain inp where p: "moved [] inp t1 t2" "secret_inv b2 \<or> fresh_buffer b2"
    "e2 = IPSEC_OK \<longrightarrow> secret_inv b2 \<and> uiLength b2 \<noteq> 0 \<and> inp = frame_bytes (buf_content b2)"
    using post [OF r(2)] by blast
  have m: "moved [] inp t t2"
    using moved_trans [OF Deadline_moved(1) [OF r(1)] p(1)] by simp
  show "conf_of t' = conf_of t \<and>
      (if e = IPSEC_OK then secret_inv b' \<and> uiLength b' \<noteq> 0 \<and> 0 \<le> iSocket t' \<and> wire_out t' = wire_out t
         \<and> wire_in t' = wire_in t @ frame_bytes (buf_content b')
       else fresh_buffer b' \<and> iSocket t' < 0)"
    using r(3) p m moved_wires [OF m] moved_conf [OF m] open_socket fin [OF p(2)]
    by (auto split: if_splits)
qed

text \<open>
  C30. Receiving a packet into a zeroed buffer never leaves a memory object. On success the buffer is
  well formed, sensitive and not empty, and what was read from the stream is exactly one frame with
  the packet it holds: nothing beyond the frame is consumed. On every error the connection is closed
  and the partly received packet is gone: the buffer is zeroed again, and every block that was
  released on the way had been wiped.
\<close>

theorem ReceiveViciTransportPacket_frames:
  assumes "0 \<le> iSocket t"
  shows "ReceiveViciTransportPacket heap t empty_ViciBuffer \<noteq> Fault \<and>
     (\<forall>e b t'. ReceiveViciTransportPacket heap t empty_ViciBuffer = Ret (e, b, t') \<longrightarrow>
        conf_of t' = conf_of t \<and>
        (if e = IPSEC_OK
         then buf_wf b \<and> bSensitive b \<and> uiLength b \<noteq> 0 \<and> 0 \<le> iSocket t' \<and> wire_out t' = wire_out t
           \<and> wire_in t' = wire_in t @ be32 (of_nat (uiLength b)) @ buf_content b
         else iSocket t' < 0 \<and> pucData b = None \<and> uiLength b = 0
           \<and> (\<forall>blk \<in> set (released b). \<forall>x \<in> set blk. x = 0)))"
proof -
  have f: "pucData b = None \<and> uiLength b = 0 \<and> (\<forall>blk \<in> set (released b). \<forall>x \<in> set blk. x = 0)"
    if "fresh_buffer b" for b
    using that by (cases b) (auto simp: fresh_buffer_def empty_ViciBuffer_def blank_def)
  have s: "buf_wf b \<and> bSensitive b \<and> frame_bytes (buf_content b) = be32 (of_nat (uiLength b)) @ buf_content b"
    if "secret_inv b" for b
    using that buf_content_length [of b] by (auto simp: secret_inv_def frame_bytes_def)
  show ?thesis
  proof (intro conjI allI impI)
    show "ReceiveViciTransportPacket heap t empty_ViciBuffer \<noteq> Fault"
      by (rule Receive_spec(1) [OF fresh_empty assms])
    fix e b t'
    assume "ReceiveViciTransportPacket heap t empty_ViciBuffer = Ret (e, b, t')"
    note post = Receive_spec(2) [OF fresh_empty assms this]
    then show "conf_of t' = conf_of t" by blast
    show "if e = IPSEC_OK
         then buf_wf b \<and> bSensitive b \<and> uiLength b \<noteq> 0 \<and> 0 \<le> iSocket t' \<and> wire_out t' = wire_out t
           \<and> wire_in t' = wire_in t @ be32 (of_nat (uiLength b)) @ buf_content b
         else iSocket t' < 0 \<and> pucData b = None \<and> uiLength b = 0
           \<and> (\<forall>blk \<in> set (released b). \<forall>x \<in> set blk. x = 0)"
      using post f [of b] s [of b] by (simp split: if_splits)
  qed
qed

lemma frame_bytes_cancel:
  assumes "frame_bytes p @ r = frame_bytes q @ s"
    and "length p \<le> VICI_MAX_SEGMENT_LENGTH" and "length q \<le> VICI_MAX_SEGMENT_LENGTH"
  shows "p = q"
proof -
  have "be32 (of_nat (length p)) = be32 (of_nat (length q))" "p @ r = q @ s"
    using assms(1) by (simp_all add: frame_bytes_def append_eq_append_conv)
  then have "(of_nat (length p) :: u32) = of_nat (length q)"
    by (simp add: be32_inject)
  then have "unat (of_nat (length p) :: u32) = unat (of_nat (length q) :: u32)" by simp
  then have "length p = length q"
    using assms(2,3) by (simp add: unat_of_nat take_bit_nat_def)
  with \<open>p @ r = q @ s\<close> show ?thesis by simp
qed

text \<open>
  C31. Framing round trip: when one side sends a packet successfully over a fresh connection and the
  other side reads a packet successfully from the start of that same byte stream, it reads the packet
  that was sent, whatever the pieces in which the two kernels moved the bytes and whatever follows.
\<close>

theorem transport_roundtrip:
  assumes "SendViciTransportPacket s p = Ret (IPSEC_OK, s')" and "iSocket s < 0" and "buf_wf p"
    and "length (acSocketPath s) = IPSEC_VICI_SOCKET_PATH_LENGTH"
    and "ReceiveViciTransportPacket heap r empty_ViciBuffer = Ret (IPSEC_OK, b, r')"
    and "0 \<le> iSocket r" and "wire_in r = []"
    and "wire_in r' @ unread = wire_out s' @ later"
  shows "buf_content b = buf_content p"
proof -
  have s: "wire_out s' = frame_bytes (buf_content p)"
    using Send_spec(2) [OF assms(4,3,1)] assms(2) by (auto simp: send_post_def wire_before_def)
  have r: "wire_in r' = frame_bytes (buf_content b)" "secret_inv b"
    using Receive_spec(2) [OF fresh_empty assms(6,5)] assms(7) by simp_all
  have "length (buf_content b) \<le> VICI_MAX_SEGMENT_LENGTH" "length (buf_content p) \<le> VICI_MAX_SEGMENT_LENGTH"
    using r(2) assms(3) buf_content_length by (auto simp: secret_inv_def buf_wf_def)
  from frame_bytes_cancel [OF assms(8) [unfolded s r(1)] this] show ?thesis .
qed

definition roundtrip_sender :: transport where
  "roundtrip_sender = idle_transport
     [ASocket 3 EINTR, AFcntl 2, AFcntl 0, AConnect 0 EINTR, AClock (Some (0, 1000000)),
      AClock (Some (0, 1000000)), APoll 1 4 0 EINTR, ASend 3 EINTR,
      AClock (Some (0, 1000000)), APoll 1 4 0 EINTR, ASend 1 EINTR,
      AClock (Some (0, 1000000)), APoll 1 4 0 EINTR, ASend 2 EINTR]"

definition roundtrip_receiver :: transport where
  "roundtrip_receiver = (idle_transport
     [AClock (Some (0, 1000000)), AClock (Some (0, 1000000)), APoll 1 1 0 EINTR, ARecv 4 [0, 0, 0, 2] EINTR,
      AClock (Some (0, 1000000)), APoll 1 1 0 EINTR, ARecv 1 [7] EINTR,
      AClock (Some (0, 1000000)), APoll 1 1 0 EINTR, ARecv 1 [9] EINTR])\<lparr>iSocket := 5\<rparr>"

definition roundtrip_packet :: ViciBuffer where
  "roundtrip_packet = \<lparr>pucData = Some [7, 9], uiLength = 2, uiCapacity = 2, bSensitive = False, released = []\<rparr>"

lemmas run_simps = TransferViciBytes.simps wait_loop.simps WaitViciSocket_def transfer_call_def
  rd_bytes_def write_at_def read_clock_def read_poll_def read_send_def read_recv_def
  GetIpsecMonotonicMilliseconds_def GetViciCommandDeadline_def buffer_bytes_def POLLIN_def POLLOUT_def

lemma roundtrip_sent:
  "\<exists>s'. SendViciTransportPacket roundtrip_sender roundtrip_packet = Ret (IPSEC_OK, s')
     \<and> wire_out s' = [0, 0, 0, 2, 7, 9]"
  by (simp add: SendViciTransportPacket_def roundtrip_sender_def roundtrip_packet_def idle_transport_def
      ConnectViciTransport_def cstr_def read_socket_def set_nonblocking_def read_fcntl_def connect_socket_def
      CopyIpsecString_def strnlen_def strlen_def read_connect_def close_on_error_def send_frame_def be32_def
      IPSEC_VICI_SOCKET_PATH_LENGTH_def run_simps Let_def)

lemma roundtrip_received:
  "\<exists>b r'. ReceiveViciTransportPacket (\<lambda>n. Some []) roundtrip_receiver empty_ViciBuffer = Ret (IPSEC_OK, b, r')
     \<and> wire_in r' = [0, 0, 0, 2, 7, 9]"
  by (simp add: ReceiveViciTransportPacket_def roundtrip_receiver_def idle_transport_def receive_body_def
      InitializeViciBuffer_def ReserveViciBuffer_def move_block_def empty_ViciBuffer_def c_malloc_def sub32_def add32_def
      grow_capacity.simps de32_def Let_def run_simps)

lemma exact_run:
  "\<exists>t'. TransferViciBytes True 9 2 0 [7, 9] (idle_transport
       [AClock (Some (0, 5000000)), APoll 1 4 0 EINTR, ASend 1 EINTR,
        AClock (Some (0, 5000000)), APoll 1 4 0 EINTR, ASend 1 EINTR]) = Ret (IPSEC_OK, [7, 9], t')"
  by (simp add: idle_transport_def run_simps Let_def)

theorem TransferViciBytes_exact_witness:
  "\<exists>t'. TransferViciBytes True 9 2 0 [7, 9] (idle_transport
       [AClock (Some (0, 5000000)), APoll 1 4 0 EINTR, ASend 1 EINTR,
        AClock (Some (0, 5000000)), APoll 1 4 0 EINTR, ASend 1 EINTR]) = Ret (IPSEC_OK, [7, 9], t')
     \<and> wire_out t' = [7, 9]"
proof -
  obtain t' where run: "TransferViciBytes True 9 2 0 [7, 9] (idle_transport
       [AClock (Some (0, 5000000)), APoll 1 4 0 EINTR, ASend 1 EINTR,
        AClock (Some (0, 5000000)), APoll 1 4 0 EINTR, ASend 1 EINTR]) = Ret (IPSEC_OK, [7, 9], t')"
    using exact_run by blast
  have "(2 :: nat) \<le> length [7, 9 :: u8]" by simp
  from TransferViciBytes_exact [OF this] run have "wire_out t' = [7, 9]"
    by (fastforce simp: idle_transport_def)
  with run show ?thesis by blast
qed

theorem SendViciTransportPacket_frames_witness:
  "\<exists>s'. SendViciTransportPacket roundtrip_sender roundtrip_packet = Ret (IPSEC_OK, s')
     \<and> 0 \<le> iSocket s' \<and> wire_out s' = be32 2 @ [7, 9]"
proof -
  have pre: "length (acSocketPath roundtrip_sender) = IPSEC_VICI_SOCKET_PATH_LENGTH" "buf_wf roundtrip_packet"
    by (simp_all add: roundtrip_sender_def idle_transport_def roundtrip_packet_def buf_wf_def IPSEC_VICI_SOCKET_PATH_LENGTH_def)
  obtain s' where run: "SendViciTransportPacket roundtrip_sender roundtrip_packet = Ret (IPSEC_OK, s')"
    using roundtrip_sent by blast
  have "0 \<le> iSocket s' \<and> wire_out s' = be32 2 @ [7, 9]"
    using conjunct2 [OF SendViciTransportPacket_frames [OF pre], rule_format, OF run]
    by (simp add: roundtrip_sender_def idle_transport_def roundtrip_packet_def buf_content_def)
  with run show ?thesis by blast
qed

theorem ReceiveViciTransportPacket_frames_witness:
  "\<exists>b r'. ReceiveViciTransportPacket (\<lambda>n. Some []) roundtrip_receiver empty_ViciBuffer = Ret (IPSEC_OK, b, r')
     \<and> bSensitive b \<and> wire_in r' = be32 (of_nat (uiLength b)) @ buf_content b"
proof -
  have open_socket: "0 \<le> iSocket roundtrip_receiver" by (simp add: roundtrip_receiver_def)
  obtain b r' where run: "ReceiveViciTransportPacket (\<lambda>n. Some []) roundtrip_receiver empty_ViciBuffer = Ret (IPSEC_OK, b, r')"
    using roundtrip_received by blast
  have "bSensitive b \<and> wire_in r' = be32 (of_nat (uiLength b)) @ buf_content b"
    using conjunct2 [OF ReceiveViciTransportPacket_frames [OF open_socket], rule_format, OF run]
    by (simp add: roundtrip_receiver_def idle_transport_def)
  with run show ?thesis by blast
qed

theorem transport_roundtrip_witness:
  "\<exists>s' b r'. SendViciTransportPacket roundtrip_sender roundtrip_packet = Ret (IPSEC_OK, s')
     \<and> ReceiveViciTransportPacket (\<lambda>n. Some []) roundtrip_receiver empty_ViciBuffer = Ret (IPSEC_OK, b, r')
     \<and> wire_in r' @ [] = wire_out s' @ [] \<and> buf_content b = buf_content roundtrip_packet"
proof -
  obtain s' where s: "SendViciTransportPacket roundtrip_sender roundtrip_packet = Ret (IPSEC_OK, s')"
    "wire_out s' = [0, 0, 0, 2, 7, 9]"
    using roundtrip_sent by blast
  obtain b r' where r: "ReceiveViciTransportPacket (\<lambda>n. Some []) roundtrip_receiver empty_ViciBuffer = Ret (IPSEC_OK, b, r')"
    "wire_in r' = [0, 0, 0, 2, 7, 9]"
    using roundtrip_received by blast
  have "buf_content b = buf_content roundtrip_packet"
    by (rule transport_roundtrip [OF s(1) _ _ _ r(1), where unread = "[]" and later = "[]"])
      (simp_all add: s(2) r(2) roundtrip_sender_def roundtrip_receiver_def idle_transport_def roundtrip_packet_def
        buf_wf_def IPSEC_VICI_SOCKET_PATH_LENGTH_def)
  with s r show ?thesis by auto
qed

section \<open>Progress\<close>

text \<open>
  The answers of a connection that makes progress: rounds that move some bytes, rounds in which the
  poll is interrupted, and rounds in which the call itself is interrupted or would block.
\<close>

datatype send_round = Moves nat | PollInterrupted | CallInterrupted

fun round_answers :: "nat \<times> nat \<Rightarrow> send_round \<Rightarrow> os_script" where
  "round_answers c (Moves k) = [AClock (Some c), APoll 1 POLLOUT 0 EINTR, ASend (int k) EINTR]"
| "round_answers c PollInterrupted = [AClock (Some c), APoll (- 1) 0 0 EINTR]"
| "round_answers c CallInterrupted = [AClock (Some c), APoll 1 POLLOUT 0 EINTR, ASend (- 1) EAGAIN]"

fun round_moves :: "send_round \<Rightarrow> nat" where
  "round_moves (Moves k) = k" | "round_moves PollInterrupted = 0" | "round_moves CallInterrupted = 0"

lemma Wait_ready:
  assumes "script t = AClock (Some c) # APoll 1 ev 0 err # os" and "ev AND ev \<noteq> 0"
    and "0 < GetIpsecMonotonicMilliseconds (Some c)" and "GetIpsecMonotonicMilliseconds (Some c) < dl"
  shows "WaitViciSocket ev dl t = Ret (IPSEC_OK, t\<lparr>script := os\<rparr>)"
  using assms by (simp add: WaitViciSocket_def wait_loop.simps read_clock_def read_poll_def)

lemma Wait_interrupted:
  assumes "script t = AClock (Some c) # APoll (- 1) 0 0 EINTR # os"
    and "0 < GetIpsecMonotonicMilliseconds (Some c)" and "GetIpsecMonotonicMilliseconds (Some c) < dl"
  shows "WaitViciSocket ev dl t = WaitViciSocket ev dl (t\<lparr>script := os\<rparr>)"
  using assms
  by (simp add: WaitViciSocket_def wait_loop.simps [of ev dl "AClock u # v" for u v] read_clock_def read_poll_def)

lemma Transfer_poll_interrupted:
  assumes "script t = AClock (Some c) # APoll (- 1) 0 0 EINTR # os"
    and "0 < GetIpsecMonotonicMilliseconds (Some c)" and "GetIpsecMonotonicMilliseconds (Some c) < dl"
    and "off < n"
  shows "TransferViciBytes bSend dl n off d t = TransferViciBytes bSend dl n off d (t\<lparr>script := os\<rparr>)"
  using assms(4) Wait_interrupted [OF assms(1-3)]
  by (simp add: TransferViciBytes.simps [of bSend dl n off d t] TransferViciBytes.simps [of bSend dl n off d "t\<lparr>script := os\<rparr>"])

lemma Transfer_send_round:
  assumes "script t = AClock (Some c) # APoll 1 POLLOUT 0 err # ASend r err' # os"
    and "0 < GetIpsecMonotonicMilliseconds (Some c)" and "GetIpsecMonotonicMilliseconds (Some c) < dl"
    and "off < n" "n \<le> length d" and "r \<le> int (n - off)" and "0 < r \<or> r < 0 \<and> err' = EAGAIN"
  shows "TransferViciBytes True dl n off d t = TransferViciBytes True dl n (off + nat r) d
     (t\<lparr>script := os, wire_out := wire_out t @ take (nat r) (drop off d)\<rparr>)"
proof -
  have w: "WaitViciSocket POLLOUT dl t = Ret (IPSEC_OK, t\<lparr>script := ASend r err' # os\<rparr>)"
    by (rule Wait_ready [OF assms(1) _ assms(2,3)]) (simp add: POLLOUT_def)
  have c: "transfer_call True d off n (t\<lparr>script := ASend r err' # os\<rparr>) =
      Ret (r, err', d, t\<lparr>script := os, wire_out := wire_out t @ take (nat r) (drop off d)\<rparr>)"
    using assms(4-6) by (simp add: transfer_call_def rd_bytes_def read_send_def min_def)
  show ?thesis
    using assms(4,7) w c by (auto simp: TransferViciBytes.simps [of True dl n off d t])
qed

lemma send_rounds_complete:
  assumes "0 < GetIpsecMonotonicMilliseconds (Some c)" and "GetIpsecMonotonicMilliseconds (Some c) < dl"
    and "\<forall>k. Moves k \<in> set rs \<longrightarrow> 0 < k" and "off + sum_list (map round_moves rs) = n" and "n \<le> length d"
    and "script t = concat (map (round_answers c) rs) @ os"
  shows "\<exists>os'. TransferViciBytes True dl n off d t =
     Ret (IPSEC_OK, d, t\<lparr>script := os', wire_out := wire_out t @ take (n - off) (drop off d)\<rparr>)"
  using assms(3-)
proof (induction rs arbitrary: off t)
  case Nil
  then show ?case by (auto simp: TransferViciBytes.simps intro: exI [of _ os])
next
  case (Cons r rs)
  show ?case
  proof (cases "off < n")
    case False
    then show ?thesis by (auto simp: TransferViciBytes.simps intro: exI [of _ "script t"])
  next
    case True
    note clk = assms(1,2)
    let ?os = "concat (map (round_answers c) rs) @ os"
    have pos: "\<forall>k. Moves k \<in> set rs \<longrightarrow> 0 < k" using Cons.prems(1) by simp
    show ?thesis
    proof (cases r)
      case (Moves k)
      let ?t = "t\<lparr>script := ?os, wire_out := wire_out t @ take k (drop off d)\<rparr>"
      have "TransferViciBytes True dl n off d t = TransferViciBytes True dl n (off + k) d ?t"
        using Transfer_send_round [of t c EINTR "int k" EINTR ?os, OF _ clk True Cons.prems(3)] Cons.prems Moves
        by simp
      moreover obtain os' where "TransferViciBytes True dl n (off + k) d ?t =
          Ret (IPSEC_OK, d, ?t\<lparr>script := os', wire_out := wire_out ?t @ take (n - (off + k)) (drop (off + k) d)\<rparr>)"
        using Cons.IH [OF pos, of "off + k" ?t] Cons.prems Moves by auto
      moreover have "take k (drop off d) @ take (n - (off + k)) (drop (off + k) d) = take (n - off) (drop off d)"
        using Cons.prems Moves take_add [of k "n - (off + k)" "drop off d"] by (simp add: add.commute)
      ultimately show ?thesis by auto
    next
      case PollInterrupted
      with Transfer_poll_interrupted [of t c ?os, OF _ clk True] Cons.prems show ?thesis
        using Cons.IH [OF pos, of off "t\<lparr>script := ?os\<rparr>"] by simp
    next
      case CallInterrupted
      with Transfer_send_round [of t c EINTR "- 1" EAGAIN ?os, OF _ clk True Cons.prems(3)] Cons.prems show ?thesis
        using Cons.IH [OF pos, of off "t\<lparr>script := ?os, wire_out := wire_out t\<rparr>"] by simp
    qed
  qed
qed



end
