(* ===== verification/Vici_Client.thy ===== *)
theory Vici_Client
  imports Vici_Transport Vici_Parser
begin

text \<open>
  Commands to the daemon, \<open>src/ike/vici/vici_client.c\<close>: the command slot, event registration, the
  stream of events that ends with the response, and the diagnostic that every command leaves.

  The state extends the transport by the fields of \<open>IpsecCommandState\<close> a command reads or writes, the
  diagnostic, and two ghost logs: the blocks that local packet buffers gave back to the allocator, and
  what was handed to the logger. The allocator \<open>mem\<close> may behave differently at every point of a run:
  it is indexed by the length of the script that is left. \<open>iSystemError\<close>, a copy of \<open>errno\<close>, and
  \<open>uiStructSize\<close>, a constant, are not part of the diagnostic here.
\<close>

definition VICI_ERROR_MESSAGE_LENGTH :: nat where "VICI_ERROR_MESSAGE_LENGTH = 256"

record ViciCommandResult =
  bSuccessPresent :: bool
  bSuccess :: bool
  acErrorMessage :: bytes

definition zero_result :: ViciCommandResult where
  "zero_result = \<lparr>bSuccessPresent = False, bSuccess = False,
     acErrorMessage = replicate VICI_ERROR_MESSAGE_LENGTH 0\<rparr>"

datatype IpsecDiagnosticStage =
    IPSEC_STAGE_NONE | IPSEC_STAGE_QUEUE | IPSEC_STAGE_CONNECT | IPSEC_STAGE_REGISTER | IPSEC_STAGE_ENCODE
  | IPSEC_STAGE_SEND | IPSEC_STAGE_RECEIVE | IPSEC_STAGE_UNREGISTER | IPSEC_STAGE_DAEMON

record IpsecDiagnostic =
  dg_eError :: IpsecError
  dg_eStage :: IpsecDiagnosticStage
  dg_bOutcomeUnknown :: bool
  dg_acCommand :: bytes
  dg_acMessage :: bytes

record command = transport +
  bActive :: bool
  bClosing :: bool
  Last :: IpsecDiagnostic
  freed :: "bytes list"
  logged :: "(bytes \<times> bytes) list"

type_synonym memory = "nat \<Rightarrow> heap"
type_synonym 'u message_callback = "bytes \<Rightarrow> 'u \<Rightarrow> (IpsecError \<times> 'u) option"

definition heap_now :: "memory \<Rightarrow> command \<Rightarrow> heap" where
  "heap_now mem c = mem (length (script c))"

section \<open>Responses\<close>

definition MatchViciText :: "bytes option \<Rightarrow> bytes \<Rightarrow> bool" where
  "MatchViciText pucText pcExpected = (case pucText of None \<Rightarrow> False
     | Some t \<Rightarrow> length pcExpected = length t \<and> t = pcExpected)"

definition printable :: "u8 \<Rightarrow> u8" where
  "printable ucValue = (if ucValue < 32 \<or> ucValue = 127 then 32 else ucValue)"

definition store_message :: "bytes \<Rightarrow> bytes \<Rightarrow> bytes" where
  "store_message acMessage v =
     (let uiLength = (if length v \<ge> VICI_ERROR_MESSAGE_LENGTH then VICI_ERROR_MESSAGE_LENGTH - 1 else length v)
      in map printable (take uiLength v) @ [0] @ drop (uiLength + 1) acMessage)"

definition ParseViciResultElement :: "ViciCommandResult callback" where
  "ParseViciResultElement el r =
     (if el_uiDepth el = 0 \<and> el_eType el = KEY_VALUE \<and> MatchViciText (el_pucName el) (lit ''success'') then
        (if bSuccessPresent r then (IPSEC_ERR_VICI_PROTOCOL, r)
         else let r = r\<lparr>bSuccessPresent := True\<rparr> in
           if MatchViciText (el_pucValue el) (lit ''yes'') then (IPSEC_OK, r\<lparr>bSuccess := True\<rparr>)
           else if MatchViciText (el_pucValue el) (lit ''no'') then (IPSEC_OK, r\<lparr>bSuccess := False\<rparr>)
           else (IPSEC_ERR_VICI_PROTOCOL, r))
      else if el_uiDepth el = 0 \<and> el_eType el = KEY_VALUE \<and> MatchViciText (el_pucName el) (lit ''errmsg'') then
        (IPSEC_OK, r\<lparr>acErrorMessage := store_message (acErrorMessage r)
                       (case el_pucValue el of None \<Rightarrow> [] | Some v \<Rightarrow> v)\<rparr>)
      else (IPSEC_OK, r))"

definition ParseViciCommandResult :: "bytes \<Rightarrow> (IpsecError \<times> ViciCommandResult) option" where
  "ParseViciCommandResult msg =
     ParseViciMessage (Some msg) (of_nat (length msg)) (Some ParseViciResultElement) zero_result"

section \<open>Registration\<close>

definition destroy_local :: "ViciBuffer \<Rightarrow> command \<Rightarrow> command exec" where
  "destroy_local b c = exec_bind (lift_option (DestroyViciBuffer b)) (\<lambda>b. Ret (c\<lparr>freed := released b @ freed c\<rparr>))"

definition decode_buffer :: "ViciBuffer \<Rightarrow> (ViciPacketView result) exec" where
  "decode_buffer b = lift_option (DecodeViciPacket (pucData b) (of_nat (uiLength b)))"

definition registration_error :: "ViciPacketView result \<Rightarrow> IpsecError" where
  "registration_error r = (case r of Inl e \<Rightarrow> e
     | Inr v \<Rightarrow> if vw_eType v \<noteq> VICI_PACKET_EVENT_CONFIRM
                then (if vw_eType v = VICI_PACKET_EVENT_UNKNOWN then IPSEC_ERR_NOT_SUPPORTED else IPSEC_ERR_VICI_PROTOCOL)
                else IPSEC_OK)"

definition exchange_packet ::
  "memory \<Rightarrow> ViciBuffer \<Rightarrow> command \<Rightarrow> (IpsecError \<times> ViciBuffer \<times> command) exec" where
  "exchange_packet mem Packet c =
     exec_bind (SendViciTransportPacket c Packet) (\<lambda>(e, c).
       if e \<noteq> IPSEC_OK then Ret (e, empty_ViciBuffer, c)
       else exec_bind (ReceiveViciTransportPacket (heap_now mem c) c empty_ViciBuffer) (\<lambda>(e, Response, c).
         if e \<noteq> IPSEC_OK then Ret (e, Response, c)
         else exec_bind (decode_buffer Response) (\<lambda>r. Ret (registration_error r, Response, c))))"

definition ExchangeViciRegistration ::
  "memory \<Rightarrow> bytes \<Rightarrow> bool \<Rightarrow> command \<Rightarrow> (IpsecError \<times> command) exec" where
  "ExchangeViciRegistration mem pcEventName bRegister c =
     exec_bind (lift_option (BuildViciNamedPacket (heap_now mem c)
         (if bRegister then VICI_PACKET_EVENT_REGISTER else VICI_PACKET_EVENT_UNREGISTER)
         (Some pcEventName) None empty_ViciBuffer)) (\<lambda>(e, Packet).
       exec_bind (if e \<noteq> IPSEC_OK then Ret (e, empty_ViciBuffer, c) else exchange_packet mem Packet c)
         (\<lambda>(e, Response, c).
           exec_bind (destroy_local Response c) (\<lambda>c. exec_bind (destroy_local Packet c) (\<lambda>c. Ret (e, c)))))"

section \<open>The response stream\<close>

text \<open>What is kept between two packets of the stream: the user's data, the result and the outcome flag.\<close>

record 'u stream =
  st_user :: 'u
  st_result :: ViciCommandResult
  st_bOutcomeKnown :: bool

text \<open>One packet: the error, whether the stream is complete, and the new stream state.\<close>

definition stream_packet ::
  "bytes option \<Rightarrow> 'u message_callback option \<Rightarrow> 'u message_callback option \<Rightarrow> ViciPacketView result \<Rightarrow> 'u stream
     \<Rightarrow> (IpsecError \<times> bool \<times> 'u stream) option" where
  "stream_packet pcEventName pEventCallback pResponseCallback r s =
     (case r of Inl e \<Rightarrow> Some (e, False, s)
      | Inr v \<Rightarrow>
          if vw_eType v = VICI_PACKET_EVENT then
            (case (pcEventName, pEventCallback) of
               (Some name, Some cb) \<Rightarrow>
                 if MatchViciText (vw_pucName v) name
                 then (case cb (vw_pucMessage v) (st_user s) of None \<Rightarrow> None
                       | Some (e, u) \<Rightarrow> Some (e, False, s\<lparr>st_user := u\<rparr>))
                 else Some (IPSEC_OK, False, s)
             | _ \<Rightarrow> Some (IPSEC_OK, False, s))
          else if vw_eType v = VICI_PACKET_COMMAND_RESPONSE then
            (case ParseViciCommandResult (vw_pucMessage v) of None \<Rightarrow> None
             | Some (e, res) \<Rightarrow>
                 let s = s\<lparr>st_result := res\<rparr> in
                 (case pResponseCallback of
                    Some cb \<Rightarrow>
                      if e = IPSEC_OK
                      then (case cb (vw_pucMessage v) (st_user s) of None \<Rightarrow> None
                            | Some (e, u) \<Rightarrow> Some (e, True, s\<lparr>st_user := u, st_bOutcomeKnown := (e = IPSEC_OK)\<rparr>))
                      else Some (e, True, s\<lparr>st_bOutcomeKnown := False\<rparr>)
                  | None \<Rightarrow> Some (e, True, s\<lparr>st_bOutcomeKnown := (e = IPSEC_OK)\<rparr>)))
          else if vw_eType v = VICI_PACKET_COMMAND_UNKNOWN then
            Some (IPSEC_ERR_NOT_SUPPORTED, False, s\<lparr>st_bOutcomeKnown := True\<rparr>)
          else Some (IPSEC_ERR_VICI_PROTOCOL, False, s))"

lemma Transfer_consumes:
  assumes "TransferViciBytes bSend dl n off d t = Ret (e, d', t')"
  shows "length (script t') \<le> length (script t) \<and> (off < n \<longrightarrow> length (script t') < length (script t))"
  using assms
proof (induction "length (script t)" arbitrary: off d t rule: less_induct)
  case less
  show ?case
  proof (cases "off < n")
    case False
    with less.prems show ?thesis by (auto simp: TransferViciBytes.simps [of bSend dl n off d t])
  next
    case True
    with less.prems obtain e1 t1 where w: "WaitViciSocket (if bSend then POLLOUT else POLLIN) dl t = Ret (e1, t1)"
      by (auto simp: TransferViciBytes.simps [of bSend dl n off d t] split: exec.splits)
    then have lt: "length (script t1) < length (script t)"
      by (auto simp: WaitViciSocket_Ret dest: wait_loop_consumes)
    show ?thesis
    proof (cases "e1 = IPSEC_OK")
      case False
      with True w lt less.prems show ?thesis by (auto simp: TransferViciBytes.simps [of bSend dl n off d t])
    next
      case ok: True
      with True w less.prems obtain r err d1 t2 where c: "transfer_call bSend d off n t1 = Ret (r, err, d1, t2)"
        by (auto simp: TransferViciBytes.simps [of bSend dl n off d t] split: exec.splits)
      then have "length (script t2) < length (script t)"
        using lt transfer_call_consumes by fastforce
      with less.hyps [of t2] True w ok c less.prems show ?thesis
        by (auto simp: TransferViciBytes.simps [of bSend dl n off d t] split: if_splits) fastforce+
    qed
  qed
qed

lemma Receive_consumes:
  assumes "ReceiveViciTransportPacket heap t b = Ret (IPSEC_OK, b', t')"
  shows "length (script t') < length (script t)"
proof -
  have dl: "GetViciCommandDeadline t = Ret (dl, t1) \<Longrightarrow> length (script t1) \<le> length (script t)" for dl t1
    by (cases "ullCommandDeadlineMs t = 0")
      (auto simp: GetViciCommandDeadline_def read_clock_Ret simp del: split_paired_Ex elim!: exec_bind_RetE)
  obtain dl t1 hdr t2 where r: "GetViciCommandDeadline t = Ret (dl, t1)"
    "TransferViciBytes False dl 4 0 (replicate 4 0) t1 = Ret (IPSEC_OK, hdr, t2)"
    "receive_body heap dl hdr t2 b = Ret (IPSEC_OK, b', t')"
    using assms by (fastforce simp: ReceiveViciTransportPacket_def exec_bind_Ret split: if_splits)
  then have "length (script t') \<le> length (script t2)"
    by (auto simp: receive_body_def Let_def exec_bind_Ret dest!: Transfer_consumes split: if_splits)
  with dl [OF r(1)] Transfer_consumes [OF r(2)] show ?thesis by simp
qed

function ReceiveViciCommandStream ::
  "memory \<Rightarrow> bytes option \<Rightarrow> 'u message_callback option \<Rightarrow> 'u message_callback option \<Rightarrow> 'u stream \<Rightarrow> command
     \<Rightarrow> (IpsecError \<times> 'u stream \<times> command) exec" where
  "ReceiveViciCommandStream mem pcEventName pEventCallback pResponseCallback s c =
     (case ReceiveViciTransportPacket (heap_now mem c) c empty_ViciBuffer of
        Blocked \<Rightarrow> Blocked | Fault \<Rightarrow> Fault
      | Ret (e, Packet, c1) \<Rightarrow>
          if e \<noteq> IPSEC_OK then exec_bind (destroy_local Packet c1) (\<lambda>c2. Ret (e, s, c2))
          else
            (case exec_bind (decode_buffer Packet) (\<lambda>r.
                 lift_option (stream_packet pcEventName pEventCallback pResponseCallback r s)) of
               Blocked \<Rightarrow> Blocked | Fault \<Rightarrow> Fault
             | Ret (e, bComplete, s1) \<Rightarrow>
                 (case DestroyViciBuffer Packet of None \<Rightarrow> Fault
                  | Some b \<Rightarrow>
                      let c2 = c1\<lparr>freed := released b @ freed c1\<rparr> in
                      if bComplete \<or> e \<noteq> IPSEC_OK then Ret (e, s1, c2)
                      else ReceiveViciCommandStream mem pcEventName pEventCallback pResponseCallback s1 c2)))"
  by pat_completeness auto
termination
  by (relation "measure (\<lambda>(mem, n, ecb, rcb, s, c). length (script c))")
    (auto dest!: Receive_consumes sym [of "Ret _"])

declare ReceiveViciCommandStream.simps [simp del]

definition mutation_commands :: "bytes list" where
  "mutation_commands = map lit [''load-conn'', ''unload-conn'', ''load-shared'', ''unload-shared'',
     ''clear-creds'', ''initiate'', ''terminate'', ''rekey'']"

definition RequireViciSuccessField :: "bytes \<Rightarrow> bool" where
  "RequireViciSuccessField pcCommand = list_ex (\<lambda>m. pcCommand = m) mutation_commands"

section \<open>The command slot\<close>

text \<open>
  \<open>IsViciWaitCancelled\<close> of \<open>vici_wait.c\<close>: a poll without waiting, repeated when it is interrupted.
\<close>

fun cancel_poll :: "os_script \<Rightarrow> (bool \<times> os_script) exec" where
  "cancel_poll (APoll r rev0 rev1 err # os) =
     (if r < 0 \<and> err = EINTR then cancel_poll os else Ret (r \<noteq> 0, os))"
| "cancel_poll _ = Blocked"

definition IsViciWaitCancelled :: "int \<Rightarrow> os_script \<Rightarrow> (bool \<times> os_script) exec" where
  "IsViciWaitCancelled iCancelFd os = (if iCancelFd < 0 then Ret (False, os) else cancel_poll os)"

text \<open>
  The wait for the slot, under the mutex. A wait on the condition gives the mutex away: its answer
  holds the values of \<open>bActive\<close> and \<open>bClosing\<close> the other threads left. The result of the last wait is
  \<open>None\<close> for 0.
\<close>

function slot_loop ::
  "int \<Rightarrow> bool \<Rightarrow> bool \<Rightarrow> c_errno option \<Rightarrow> os_script \<Rightarrow> (bool \<times> bool \<times> c_errno option \<times> os_script) exec" where
  "slot_loop iCancelFd active closing iResult os =
     (if active \<and> \<not> closing then
        (case IsViciWaitCancelled iCancelFd os of Blocked \<Rightarrow> Blocked | Fault \<Rightarrow> Fault
         | Ret (cancelled, os1) \<Rightarrow>
             if \<not> cancelled \<and> iResult = None then
               (case read_cond_wait os1 of Blocked \<Rightarrow> Blocked | Fault \<Rightarrow> Fault
                | Ret (r, a, cl, os2) \<Rightarrow> slot_loop iCancelFd a cl r os2)
             else Ret (active, closing, iResult, os1))
      else Ret (active, closing, iResult, os))"
  by pat_completeness auto

lemma cancel_poll_consumes: "cancel_poll os = Ret (b, os') \<Longrightarrow> length os' \<le> length os"
  by (induction os rule: cancel_poll.induct) (auto split: if_splits)

lemma IsViciWaitCancelled_consumes: "IsViciWaitCancelled fd os = Ret (b, os') \<Longrightarrow> length os' \<le> length os"
  by (auto simp: IsViciWaitCancelled_def dest: cancel_poll_consumes split: if_splits)

termination slot_loop
  by (relation "measure (\<lambda>(fd, a, cl, r, os). length os)")
    (auto simp: read_cond_wait_Ret dest!: IsViciWaitCancelled_consumes sym [of "Ret _"])

declare slot_loop.simps [simp del]

definition AcquireViciCommand :: "nat \<Rightarrow> int \<Rightarrow> command \<Rightarrow> (IpsecError \<times> command) exec" where
  "AcquireViciCommand ullDeadlineMs iCancelFd c =
     exec_bind (read_lock (script c)) (\<lambda>(r, os).
       if r \<noteq> 0 then Ret (IPSEC_ERR_INTERNAL, c\<lparr>script := os\<rparr>)
       else exec_bind (slot_loop iCancelFd (bActive c) (bClosing c) None os) (\<lambda>(a, cl, iResult, os).
         let c = c\<lparr>bActive := a, bClosing := cl, script := os\<rparr> in
         if cl then Ret (IPSEC_ERR_CANCELLED, c)
         else exec_bind (IsViciWaitCancelled iCancelFd os) (\<lambda>(cancelled, os).
           let c = c\<lparr>script := os\<rparr> in
           if cancelled then Ret (IPSEC_ERR_CANCELLED, c)
           else if iResult = Some ETIMEDOUT then Ret (IPSEC_ERR_VICI_TIMEOUT, c)
           else exec_bind (read_clock os) (\<lambda>(ullNowMs, os).
             let c = c\<lparr>script := os\<rparr> in
             if ullNowMs \<ge> ullDeadlineMs then Ret (IPSEC_ERR_VICI_TIMEOUT, c)
             else if iResult \<noteq> None then Ret (IPSEC_ERR_INTERNAL, c)
             else Ret (IPSEC_OK, c\<lparr>bActive := True\<rparr>)))))"

section \<open>Commands\<close>

record 'u progress =
  pr_eStage :: IpsecDiagnosticStage
  pr_bRegistered :: bool
  pr_bSendAttempted :: bool
  pr_bResponseValid :: bool
  pr_Packet :: ViciBuffer
  pr_result :: ViciCommandResult
  pr_user :: 'u

definition connect_step :: "'u progress \<times> command \<Rightarrow> (IpsecError \<times> 'u progress \<times> command) exec" where
  "connect_step = (\<lambda>(p, c).
     exec_bind (ConnectViciTransport c) (\<lambda>(e, c). Ret (e, p\<lparr>pr_eStage := IPSEC_STAGE_CONNECT\<rparr>, c)))"

definition register_step ::
  "memory \<Rightarrow> bytes option \<Rightarrow> 'u progress \<times> command \<Rightarrow> (IpsecError \<times> 'u progress \<times> command) exec" where
  "register_step mem pcEventName = (\<lambda>(p, c).
     case pcEventName of None \<Rightarrow> Ret (IPSEC_OK, p, c)
     | Some name \<Rightarrow> exec_bind (ExchangeViciRegistration mem name True c) (\<lambda>(e, c).
         Ret (e, p\<lparr>pr_eStage := IPSEC_STAGE_REGISTER, pr_bRegistered := (e = IPSEC_OK)\<rparr>, c)))"

definition encode_step ::
  "memory \<Rightarrow> bytes \<Rightarrow> ViciBuffer option \<Rightarrow> 'u progress \<times> command \<Rightarrow> (IpsecError \<times> 'u progress \<times> command) exec" where
  "encode_step mem pcCommand pRequest = (\<lambda>(p, c).
     exec_bind (lift_option (BuildViciNamedPacket (heap_now mem c) VICI_PACKET_COMMAND_REQUEST
         (Some pcCommand) pRequest (pr_Packet p))) (\<lambda>(e, b).
       Ret (e, p\<lparr>pr_eStage := IPSEC_STAGE_ENCODE, pr_Packet := b\<rparr>, c)))"

definition send_step :: "'u progress \<times> command \<Rightarrow> (IpsecError \<times> 'u progress \<times> command) exec" where
  "send_step = (\<lambda>(p, c). exec_bind (SendViciTransportPacket c (pr_Packet p)) (\<lambda>(e, c).
     Ret (e, p\<lparr>pr_eStage := IPSEC_STAGE_SEND, pr_bSendAttempted := True\<rparr>, c)))"

definition receive_step ::
  "memory \<Rightarrow> bytes \<Rightarrow> bytes option \<Rightarrow> 'u message_callback option \<Rightarrow> 'u message_callback option
     \<Rightarrow> 'u progress \<times> command \<Rightarrow> (IpsecError \<times> 'u progress \<times> command) exec" where
  "receive_step mem pcCommand pcEventName pEventCallback pResponseCallback = (\<lambda>(p, c).
     exec_bind (ReceiveViciCommandStream mem pcEventName pEventCallback pResponseCallback
         \<lparr>st_user = pr_user p, st_result = pr_result p, st_bOutcomeKnown = pr_bResponseValid p\<rparr> c) (\<lambda>(e, s, c).
       let p = p\<lparr>pr_eStage := IPSEC_STAGE_RECEIVE, pr_user := st_user s, pr_result := st_result s,
                 pr_bResponseValid := st_bOutcomeKnown s\<rparr>
       in if e = IPSEC_OK \<and> RequireViciSuccessField pcCommand \<and> \<not> bSuccessPresent (pr_result p)
          then Ret (IPSEC_ERR_VICI_PROTOCOL, p\<lparr>pr_bResponseValid := False\<rparr>, c)
          else Ret (e, p, c)))"

definition command_steps ::
  "memory \<Rightarrow> bytes \<Rightarrow> ViciBuffer option \<Rightarrow> bytes option \<Rightarrow> 'u message_callback option \<Rightarrow> 'u message_callback option
     \<Rightarrow> 'u progress \<times> command \<Rightarrow> (IpsecError \<times> 'u progress \<times> command) exec" where
  "command_steps mem pcCommand pRequest pcEventName pEventCallback pResponseCallback pc =
     on_ok (on_ok (on_ok (on_ok (connect_step pc)
       (register_step mem pcEventName))
       (encode_step mem pcCommand pRequest))
       send_step)
       (receive_step mem pcCommand pcEventName pEventCallback pResponseCallback)"

text \<open>After the steps: a failed command closes the stream, a registered one is unregistered.\<close>

definition finish_stream ::
  "memory \<Rightarrow> bytes option \<Rightarrow> IpsecError \<times> 'u progress \<times> command \<Rightarrow> (IpsecError \<times> 'u progress \<times> command) exec" where
  "finish_stream mem pcEventName = (\<lambda>(e, p, c).
     if e \<noteq> IPSEC_OK then Ret (e, p, DisconnectViciTransport c)
     else if pr_bRegistered p then
       exec_bind (ExchangeViciRegistration mem (case pcEventName of None \<Rightarrow> [] | Some n \<Rightarrow> n) False c) (\<lambda>(e, c).
         Ret (e, p\<lparr>pr_eStage := IPSEC_STAGE_UNREGISTER\<rparr>, if e \<noteq> IPSEC_OK then DisconnectViciTransport c else c))
     else Ret (e, p, c))"

definition copy_text :: "nat \<Rightarrow> bytes \<Rightarrow> bytes exec" where
  "copy_text n s = exec_bind (lift_option (CopyIpsecString (Some (replicate n 0)) n (Some s) (strlen s)))
     (\<lambda>(_, d). Ret (case d of None \<Rightarrow> [] | Some d \<Rightarrow> d))"

text \<open>The result of a sensitive command shows nothing the daemon wrote; a refusal is an error.\<close>

definition final_result :: "bool \<Rightarrow> ViciCommandResult \<Rightarrow> ViciCommandResult" where
  "final_result sensitive r = (if sensitive then r\<lparr>acErrorMessage := replicate VICI_ERROR_MESSAGE_LENGTH 0\<rparr> else r)"

definition refused :: "IpsecError \<Rightarrow> ViciCommandResult \<Rightarrow> bool" where
  "refused e r \<longleftrightarrow> e = IPSEC_OK \<and> bSuccessPresent r \<and> \<not> bSuccess r"

definition final_error :: "IpsecError \<Rightarrow> ViciCommandResult \<Rightarrow> IpsecError" where
  "final_error e r = (if refused e r then IPSEC_ERR_VICI_COMMAND else e)"

definition report_text :: "IpsecError \<Rightarrow> ViciCommandResult \<Rightarrow> bytes" where
  "report_text e res = (if hd (acErrorMessage res) \<noteq> 0 then acErrorMessage res else lit (GetIpsecErrorString e) @ [0])"

definition command_diagnostic ::
  "IpsecError \<Rightarrow> ViciCommandResult \<Rightarrow> 'u progress \<Rightarrow> bytes \<Rightarrow> bytes \<Rightarrow> IpsecDiagnostic" where
  "command_diagnostic e res p acCommand acMessage =
     \<lparr>dg_eError = final_error e res,
      dg_eStage = (if refused e res then IPSEC_STAGE_DAEMON else if e = IPSEC_OK then IPSEC_STAGE_NONE else pr_eStage p),
      dg_bOutcomeUnknown = (pr_bSendAttempted p \<and> \<not> pr_bResponseValid p),
      dg_acCommand = acCommand, dg_acMessage = acMessage\<rparr>"

text \<open>Under the mutex: the diagnostic becomes visible and the slot is free for the next command.\<close>

definition publish :: "bool \<Rightarrow> IpsecDiagnostic \<Rightarrow> os_script \<Rightarrow> command \<Rightarrow> command" where
  "publish bAcquired d os c =
     (let c = c\<lparr>script := os, Last := d\<rparr> in if bAcquired then c\<lparr>bActive := False\<rparr> else c)"

definition log_refusal :: "bytes \<Rightarrow> IpsecDiagnostic \<Rightarrow> command \<Rightarrow> command" where
  "log_refusal pcCommand d c =
     (if dg_eError d = IPSEC_ERR_VICI_COMMAND then c\<lparr>logged := (pcCommand, dg_acMessage d) # logged c\<rparr> else c)"

definition forget_deadline :: "bool \<Rightarrow> command \<Rightarrow> command" where
  "forget_deadline bAcquired c =
     (if bAcquired then c\<lparr>ullCommandDeadlineMs := 0, iTransportCancelFd := - 1\<rparr> else c)"

text \<open>The result, the diagnostic and the release of the slot. \<open>bAcquired\<close> is false when the slot was not got.\<close>

definition conclude_command ::
  "bytes \<Rightarrow> bool \<Rightarrow> bool \<Rightarrow> IpsecError \<times> 'u progress \<times> command
     \<Rightarrow> (IpsecError \<times> ViciCommandResult \<times> 'u \<times> command) exec" where
  "conclude_command pcCommand sensitive bAcquired = (\<lambda>(e, p, c).
     let res = final_result sensitive (pr_result p); eError = final_error e res in
     exec_bind (copy_text 64 pcCommand) (\<lambda>acCommand.
     exec_bind (if eError \<noteq> IPSEC_OK then copy_text 256 (report_text eError res) else Ret (replicate 256 0)) (\<lambda>acMessage.
     exec_bind (destroy_local (pr_Packet p) c) (\<lambda>c.
     exec_bind (read_lock (script c)) (\<lambda>(_, os).
     let d = command_diagnostic e res p acCommand acMessage
     in Ret (eError, res, pr_user p, log_refusal pcCommand d (publish bAcquired d os (forget_deadline bAcquired c))))))))"

definition initial_progress :: "'u \<Rightarrow> 'u progress" where
  "initial_progress u = \<lparr>pr_eStage = IPSEC_STAGE_QUEUE, pr_bRegistered = False, pr_bSendAttempted = False,
     pr_bResponseValid = False, pr_Packet = empty_ViciBuffer, pr_result = zero_result, pr_user = u\<rparr>"

definition request_sensitive :: "ViciBuffer option \<Rightarrow> bool" where
  "request_sensitive pRequest = (case pRequest of None \<Rightarrow> False | Some b \<Rightarrow> bSensitive b)"

text \<open>A command never has more time than the command timeout; a deadline of 0 stands for none.\<close>

definition command_limit :: "nat \<Rightarrow> nat \<Rightarrow> nat \<Rightarrow> nat" where
  "command_limit ullNowMs uiTimeoutMs ullDeadlineMs =
     (let ullCommandLimit = ullNowMs + uiTimeoutMs
      in if ullDeadlineMs = 0 \<or> ullCommandLimit < ullDeadlineMs then ullCommandLimit else ullDeadlineMs)"

definition ExecuteViciCommandUntil ::
  "memory \<Rightarrow> bytes \<Rightarrow> ViciBuffer option \<Rightarrow> bytes option \<Rightarrow> 'u message_callback option \<Rightarrow> 'u message_callback option
     \<Rightarrow> 'u \<Rightarrow> nat \<Rightarrow> int \<Rightarrow> command \<Rightarrow> (IpsecError \<times> ViciCommandResult \<times> 'u \<times> command) exec" where
  "ExecuteViciCommandUntil mem pcCommand pRequest pcEventName pEventCallback pResponseCallback u ullDeadlineMs iCancelFd c =
     exec_bind (read_clock (script c)) (\<lambda>(ullNowMs, os).
       if ullNowMs = 0 \<or> UINT64_MAX - uiCommandTimeoutMs c < ullNowMs
       then Ret (IPSEC_ERR_INTERNAL, zero_result, u, c\<lparr>script := os\<rparr>)
       else
         let dl = command_limit ullNowMs (uiCommandTimeoutMs c) ullDeadlineMs
         in exec_bind (AcquireViciCommand dl iCancelFd (c\<lparr>script := os\<rparr>)) (\<lambda>(e, c).
           if e \<noteq> IPSEC_OK
           then conclude_command pcCommand (request_sensitive pRequest) False (e, initial_progress u, c)
           else exec_bind (exec_bind (command_steps mem pcCommand pRequest pcEventName pEventCallback pResponseCallback
                 (initial_progress u, c\<lparr>ullCommandDeadlineMs := dl, iTransportCancelFd := iCancelFd\<rparr>))
               (finish_stream mem pcEventName))
             (conclude_command pcCommand (request_sensitive pRequest) True)))"

definition ExecuteViciCommand ::
  "memory \<Rightarrow> bytes \<Rightarrow> ViciBuffer option \<Rightarrow> bytes option \<Rightarrow> 'u message_callback option \<Rightarrow> 'u message_callback option
     \<Rightarrow> 'u \<Rightarrow> command \<Rightarrow> (IpsecError \<times> ViciCommandResult \<times> 'u \<times> command) exec" where
  "ExecuteViciCommand mem pcCommand pRequest pcEventName pEventCallback pResponseCallback u c =
     ExecuteViciCommandUntil mem pcCommand pRequest pcEventName pEventCallback pResponseCallback u 0 (- 1) c"

end
