(* ===== verification/Vici_Command.thy ===== *)
theory Vici_Command
  imports Vici_Client
begin

text \<open>
  What a VICI command guarantees: no memory fault for any answers of the system and any allocator, a
  stream that is closed whenever its position is unknown, a slot that is released, and secrets that
  do not leave through diagnostics, logs or freed memory.
\<close>

section \<open>Packet buffers\<close>

definition held :: "bool \<Rightarrow> ViciBuffer \<Rightarrow> bool" where
  "held s b \<longleftrightarrow> buf_wf b \<and> bSensitive b = s \<and> (s \<longrightarrow> blank (released b))"

interpretation hb: byte_sink "\<lambda>b xs. AppendViciBuffer heap b (Some xs) (length xs)" buf_content "held s"
  for heap s
proof unfold_locales
  fix b :: ViciBuffer and xs :: bytes
  assume "held s b"
  then show "\<exists>e b'. AppendViciBuffer heap b (Some xs) (length xs) = Some (e, b') \<and> held s b'
      \<and> buf_content b' = buf_content b @ (if e = IPSEC_OK then xs else [])"
    using Append_total [of b heap xs] by (auto simp: append_post_def held_def secret_safe_def)
qed

text \<open>What a local packet is when it is destroyed: gone, or held; either way wiped if it was sensitive.\<close>

definition releasable :: "bool \<Rightarrow> ViciBuffer \<Rightarrow> bool" where
  "releasable s b \<longleftrightarrow> held s b \<or> (buf_wf b \<and> pucData b = None \<and> (s \<longrightarrow> blank (released b)))"

lemma held_releasable: "held s b \<Longrightarrow> releasable s b"
  by (simp add: releasable_def)

lemma empty_releasable [simp]: "releasable s empty_ViciBuffer"
  by (simp add: releasable_def empty_ViciBuffer_def buf_wf_def)

lemma fresh_releasable: "fresh_buffer b \<Longrightarrow> releasable s b"
  unfolding fresh_buffer_def releasable_def by (cases b) (auto simp: empty_ViciBuffer_def buf_wf_def)

lemma secret_releasable: "secret_inv b \<Longrightarrow> releasable True b"
  by (simp add: releasable_def held_def secret_inv_def)

lemma Destroy_releasable:
  assumes "releasable s b"
  shows "\<exists>b'. DestroyViciBuffer b = Some b' \<and> releasable s b' \<and> (s \<longrightarrow> blank (released b'))"
  using assms
  by (auto simp: releasable_def held_def DestroyViciBuffer_def buf_wf_def SecureZeroIpsec_def mem_simps
      empty_ViciBuffer_def split: option.splits)

lemma Initialize_held:
  "\<exists>e b'. InitializeViciBuffer heap empty_ViciBuffer 64 s = Some (e, b') \<and> held s b'"
proof -
  let ?b = "empty_ViciBuffer\<lparr>bSensitive := s, released := released empty_ViciBuffer\<rparr>"
  have "buf_wf ?b" "bSensitive ?b = s" "blank (released ?b)"
    by (simp_all add: buf_wf_def empty_ViciBuffer_def)
  with Reserve_total [of ?b heap 64] show ?thesis
    by (auto simp: InitializeViciBuffer_def reserve_post_def held_def secret_safe_def)
qed

lemma Build_buffers_total:
  assumes "message_wf m"
  shows "\<exists>e p. BuildViciNamedPacket heap t (Some name) m empty_ViciBuffer = Some (e, p)
     \<and> releasable (request_sensitive m) p"
proof -
  let ?s = "request_sensitive m"
  have emit: "held ?s b \<Longrightarrow> \<exists>e b'. vici_emit heap b xs = Some (e, b') \<and> held ?s b'" for b xs
    using hb.emit_law [of ?s b heap xs] by blast
  have name: "held ?s b \<Longrightarrow> \<exists>e b'. AppendViciName heap b (Some name) = Some (e, b') \<and> held ?s b'" for b
    using hb.emit_all_inv [of ?s b heap] by (simp add: AppendViciName_emits)
  have msg: "held ?s b \<Longrightarrow> \<exists>e b'. (case m of None \<Rightarrow> Some (IPSEC_OK, b)
      | Some m \<Rightarrow> AppendViciBuffer heap b (pucData m) (uiLength m)) = Some (e, b') \<and> held ?s b'" for b
    using assms emit by (auto simp: Append_message message_wf_def split: option.splits)
  have "\<exists>e b'. then_ok (then_ok (then_ok (InitializeViciBuffer heap empty_ViciBuffer 64 ?s)
      (\<lambda>b. AppendViciByte heap b (packet_type_code t))) (\<lambda>b. AppendViciName heap b (Some name)))
      (\<lambda>b. case m of None \<Rightarrow> Some (IPSEC_OK, b) | Some m \<Rightarrow> AppendViciBuffer heap b (pucData m) (uiLength m))
        = Some (e, b') \<and> held ?s b'"
    unfolding AppendViciByte_emit by (intro then_ok_inv name msg emit Initialize_held)
  then obtain e b' where r: "then_ok (then_ok (then_ok (InitializeViciBuffer heap empty_ViciBuffer 64 ?s)
      (\<lambda>b. AppendViciByte heap b (packet_type_code t))) (\<lambda>b. AppendViciName heap b (Some name)))
      (\<lambda>b. case m of None \<Rightarrow> Some (IPSEC_OK, b) | Some m \<Rightarrow> AppendViciBuffer heap b (pucData m) (uiLength m))
        = Some (e, b')" and h: "held ?s b'"
    by blast
  obtain d where "DestroyViciBuffer b' = Some d" "releasable ?s d"
    using Destroy_releasable [OF held_releasable [OF h]] by blast
  with r h show ?thesis
    by (auto simp: BuildViciNamedPacket_def request_sensitive_def [symmetric] Let_def held_releasable)
qed

section \<open>Steps of a command keep everything but the connection\<close>

definition path_ok :: "'a transport_scheme \<Rightarrow> bool" where
  "path_ok t \<longleftrightarrow> length (acSocketPath t) = IPSEC_VICI_SOCKET_PATH_LENGTH"

lemma path_ok_updates [simp]:
  "path_ok (c\<lparr>freed := x\<rparr>) = path_ok c" "path_ok (c\<lparr>iTransportCancelFd := fd\<rparr>) = path_ok c"
  "path_ok (c\<lparr>ullCommandDeadlineMs := dl\<rparr>) = path_ok c" "path_ok (c\<lparr>script := os\<rparr>) = path_ok c"
  by (simp_all add: path_ok_def)

definition core_of :: "command \<Rightarrow> command" where
  "core_of c = (conf_of c)\<lparr>freed := []\<rparr>"

lemma core_conf: "conf_of c' = conf_of c \<Longrightarrow> core_of c' = core_of c"
  by (simp add: core_of_def)

lemma core_fields:
  assumes "core_of c' = core_of c"
  shows "path_ok c' = path_ok c" and "ullCommandDeadlineMs c' = ullCommandDeadlineMs c"
    and "bActive c' = bActive c" and "bClosing c' = bClosing c" and "Last c' = Last c" and "logged c' = logged c"
  using assms by (cases c; cases c'; simp add: core_of_def conf_of_def path_ok_def)+

text \<open>
  The relation between the state before and after a part of a command: nothing but the connection, the
  script and the log of freed blocks changed, and the new freed blocks are blank when \<open>s\<close> holds.
\<close>

definition quiet :: "bool \<Rightarrow> command \<Rightarrow> command \<Rightarrow> bool" where
  "quiet s c c' \<longleftrightarrow> core_of c' = core_of c \<and> (\<exists>xs. freed c' = xs @ freed c \<and> (s \<longrightarrow> blank xs))"

lemma quiet_refl [simp]: "quiet s c c"
  by (simp add: quiet_def)

lemma blank_append [simp]: "blank (xs @ ys) \<longleftrightarrow> blank xs \<and> blank ys"
  by (auto simp: blank_def)

lemma quiet_trans: "quiet s a b \<Longrightarrow> quiet s b c \<Longrightarrow> quiet s a c"
  by (fastforce simp: quiet_def)

lemma quiet_mono: "quiet s c c' \<Longrightarrow> quiet False c c'"
  by (auto simp: quiet_def)

lemma freed_conf: "freed (conf_of c) = freed c"
  by (simp add: conf_of_def)

lemma quiet_conf: "conf_of c' = conf_of c \<Longrightarrow> quiet s c c'"
  using freed_conf [of c] freed_conf [of c'] core_conf [of c' c] by (simp add: quiet_def)

lemma quiet_path: "quiet s c c' \<Longrightarrow> path_ok c \<Longrightarrow> path_ok c'"
  using core_fields(1) [of c' c] by (simp add: quiet_def)

lemma quiet_Disconnect: "quiet s c (DisconnectViciTransport c') \<longleftrightarrow> quiet s c c'"
  by (auto simp: quiet_def core_of_def DisconnectViciTransport_def)

lemma destroy_local_quiet:
  assumes "releasable s b"
  shows "\<exists>c'. destroy_local b c = Ret c' \<and> quiet s c c'"
  using Destroy_releasable [OF assms] by (auto simp: destroy_local_def quiet_def core_of_def conf_of_def)

lemma Connect_quiet: "path_ok c \<Longrightarrow> keeps (quiet s c) (ConnectViciTransport c)"
  using Connect_spec [of c] by (auto simp: keeps_def path_ok_def connect_post_def intro: quiet_conf)

lemma Send_quiet: "path_ok c \<Longrightarrow> buf_wf p \<Longrightarrow> keeps (quiet s c) (SendViciTransportPacket c p)"
  using Send_spec [of c p] by (auto simp: keeps_def path_ok_def send_post_def intro: quiet_conf)

lemma Receive_quiet:
  "keeps (\<lambda>(b, c'). quiet s c c' \<and> releasable True b) (ReceiveViciTransportPacket heap c empty_ViciBuffer)"
proof (cases "0 \<le> iSocket c")
  case False
  then show ?thesis by (simp add: ReceiveViciTransportPacket_def)
next
  case True
  have "quiet s c c' \<and> releasable True b"
    if "ReceiveViciTransportPacket heap c empty_ViciBuffer = Ret (e, b, c')" for e b c'
    using Receive_spec(2) [OF fresh_empty True that] quiet_conf secret_releasable fresh_releasable
    by (auto split: if_splits)
  with Receive_spec(1) [OF fresh_empty True] show ?thesis
    by (auto simp: keeps_def)
qed

lemma Receive_decodes:
  assumes "ReceiveViciTransportPacket heap c empty_ViciBuffer = Ret (IPSEC_OK, b, c')"
  shows "\<exists>r. decode_buffer b = Ret r \<and> (\<forall>v. r = Inr v \<longrightarrow> length (vw_pucMessage v) \<le> UINT32_MAX)"
proof -
  have open_socket: "0 \<le> iSocket c"
    using assms by (auto simp: ReceiveViciTransportPacket_def split: if_splits)
  have "secret_inv b" "uiLength b \<noteq> 0"
    using Receive_spec(2) [OF fresh_empty open_socket assms] by auto
  then obtain d where d: "pucData b = Some d" "uiLength b \<le> length d" "length d \<le> 524288"
    by (auto simp: secret_inv_def buf_wf_def split: option.splits)
  have "unat (of_nat (uiLength b) :: u32) \<le> length d"
    using d by (simp add: unat_of_nat take_bit_nat_def)
  then obtain r where r: "DecodeViciPacket (Some d) (of_nat (uiLength b)) = Some r"
    "\<forall>v. r = Inr v \<longrightarrow> view_bytes v = take (unat (of_nat (uiLength b) :: u32)) d"
    using Decode_spec by blast
  have "length (vw_pucMessage v) \<le> UINT32_MAX" if "r = Inr v" for v
  proof -
    have "length (vw_pucMessage v) \<le> length (view_bytes v)"
      by (simp add: view_bytes_def)
    also have "\<dots> \<le> length d" using r(2) that by simp
    finally show ?thesis using d(3) by simp
  qed
  with r d show ?thesis
    by (auto simp: decode_buffer_def)
qed

lemma keeps_Ret: "keeps P r \<Longrightarrow> r = Ret (e, s) \<Longrightarrow> P s"
  by (simp add: keeps_def)

lemma keeps_no_fault: "keeps P r \<Longrightarrow> r \<noteq> Fault"
  by (simp add: keeps_def)

lemma releasable_wf: "releasable s b \<Longrightarrow> buf_wf b"
  by (auto simp: releasable_def held_def)

lemma exchange_packet_quiet:
  assumes path: "path_ok c" and wf: "buf_wf p"
  shows "keeps (\<lambda>(b, c'). quiet s c c' \<and> releasable True b) (exchange_packet mem p c)"
  unfolding exchange_packet_def
proof (rule keeps_bind [OF keeps_no_fault [OF Send_quiet [OF path wf]]], clarify)
  fix e c1
  assume send: "SendViciTransportPacket c p = Ret (e, c1)"
  have q: "quiet s c c1" by (rule keeps_Ret [OF Send_quiet [OF path wf] send])
  let ?recv = "ReceiveViciTransportPacket (heap_now mem c1) c1 empty_ViciBuffer"
  have "keeps (\<lambda>(b, c'). quiet s c c' \<and> releasable True b)
      (if e2 \<noteq> IPSEC_OK then Ret (e2, b2, c2)
       else exec_bind (decode_buffer b2) (\<lambda>r. Ret (registration_error r, b2, c2)))"
    if "?recv = Ret (e2, b2, c2)" for e2 b2 c2
    using keeps_Ret [OF Receive_quiet that] that Receive_decodes quiet_trans [OF q] by fastforce
  with q show "keeps (\<lambda>(b, c'). quiet s c c' \<and> releasable True b)
     (if e \<noteq> IPSEC_OK then Ret (e, empty_ViciBuffer, c1)
      else exec_bind ?recv (\<lambda>(e, Response, c).
        if e \<noteq> IPSEC_OK then Ret (e, Response, c)
        else exec_bind (decode_buffer Response) (\<lambda>r. Ret (registration_error r, Response, c))))"
    using keeps_no_fault [OF Receive_quiet] by (auto intro!: keeps_bind)
qed

lemma Exchange_quiet:
  assumes path: "path_ok c"
  shows "keeps (quiet False c) (ExchangeViciRegistration mem name bReg c)"
proof -
  let ?t = "if bReg then VICI_PACKET_EVENT_REGISTER else VICI_PACKET_EVENT_UNREGISTER"
  obtain e p where b: "BuildViciNamedPacket (heap_now mem c) ?t (Some name) None empty_ViciBuffer = Some (e, p)"
    "releasable False p"
    using Build_buffers_total [of None "heap_now mem c" ?t name] by (auto simp: message_wf_def request_sensitive_def)
  let ?mid = "if e \<noteq> IPSEC_OK then Ret (e, empty_ViciBuffer, c) else exchange_packet mem p c"
  have mid: "keeps (\<lambda>(b, c'). quiet False c c' \<and> releasable True b) ?mid"
    using exchange_packet_quiet [OF path releasable_wf [OF b(2)]] by simp
  have "keeps (quiet False c) (exec_bind (destroy_local r c1) (\<lambda>c. exec_bind (destroy_local p c) (\<lambda>c. Ret (e1, c))))"
    if "?mid = Ret (e1, r, c1)" for e1 r c1
  proof -
    have m: "quiet False c c1" "releasable True r"
      using keeps_Ret [OF mid that] by auto
    obtain c2 where c2: "destroy_local r c1 = Ret c2" "quiet False c1 c2"
      using destroy_local_quiet [OF m(2)] quiet_mono by blast
    obtain c3 where "destroy_local p c2 = Ret c3" "quiet False c2 c3"
      using destroy_local_quiet [OF b(2)] by blast
    with c2 m(1) show ?thesis by (auto intro: quiet_trans)
  qed
  with keeps_no_fault [OF mid] show ?thesis
    by (auto simp: ExchangeViciRegistration_def b(1) intro!: keeps_bind)
qed

section \<open>Responses\<close>

lemma run_events_invariant:
  assumes "\<And>el s. P s \<Longrightarrow> P (snd (f el s))" and "P s"
  shows "P (snd (run_events (Some f) els s))"
  using assms(2)
proof (induction els arbitrary: s)
  case (Cons el els)
  then show ?case
    using assms(1) [of s el] by (auto simp: run_callback_def split: prod.splits)
qed simp

lemma Parse_total:
  assumes "unat len \<le> length msg"
  shows "\<exists>e s' els. ParseViciMessage (Some msg) len cb s = Some (e, s')
     \<and> s' = snd (run_events cb (elem_events 0 els) s)"
proof -
  obtain e s' where "parse_loop cb msg len 0 0 False s = Some (e, s')"
    "parse_outcome cb (window msg len 0) 0 False s e s'"
    using parse_loop_sound [OF assms, of 0 cb 0 False s] by auto
  then show ?thesis
    by (auto simp: ParseViciMessage_def parse_outcome_def) (metis snd_conv)+
qed

text \<open>A message text as the library keeps it: 256 bytes, terminated, printable up to the terminator.\<close>

definition clean_text :: "bytes \<Rightarrow> bool" where
  "clean_text m \<longleftrightarrow> length m = VICI_ERROR_MESSAGE_LENGTH \<and> 0 \<in> set m \<and> (\<forall>x \<in> set (cstr m). 32 \<le> x \<and> x \<noteq> 127)"

lemma printable_range: "32 \<le> printable x \<and> printable x \<noteq> 127"
  by (auto simp: printable_def not_less)

lemma printable_nonzero: "printable x \<noteq> 0"
  using printable_range [of x] by auto

lemma cstr_nonzero_append: "0 \<notin> set xs \<Longrightarrow> cstr (xs @ 0 # ys) = xs"
  by (simp add: cstr_terminated)

lemma store_message_clean:
  assumes "length m = VICI_ERROR_MESSAGE_LENGTH"
  shows "clean_text (store_message m v)"
proof -
  let ?n = "if length v \<ge> VICI_ERROR_MESSAGE_LENGTH then VICI_ERROR_MESSAGE_LENGTH - 1 else length v"
  have "store_message m v = map printable (take ?n v) @ 0 # drop (?n + 1) m"
    by (simp add: store_message_def Let_def)
  moreover have "?n < VICI_ERROR_MESSAGE_LENGTH" "?n \<le> length v"
    by (auto simp: VICI_ERROR_MESSAGE_LENGTH_def)
  moreover have "0 \<notin> set (map printable (take ?n v))"
    using printable_nonzero by fastforce
  ultimately show ?thesis
    using assms printable_range by (auto simp: clean_text_def cstr_nonzero_append)
qed

lemma zero_result_clean: "clean_text (acErrorMessage zero_result)"
  by (simp add: zero_result_def clean_text_def cstr_def VICI_ERROR_MESSAGE_LENGTH_def)

lemma ResultElement_clean:
  "clean_text (acErrorMessage r) \<Longrightarrow> clean_text (acErrorMessage (snd (ParseViciResultElement el r)))"
  by (simp add: ParseViciResultElement_def Let_def store_message_clean clean_text_def [of "acErrorMessage r"])

lemma CommandResult_total:
  assumes "length msg \<le> UINT32_MAX"
  shows "\<exists>e r. ParseViciCommandResult msg = Some (e, r) \<and> clean_text (acErrorMessage r)"
proof -
  have "unat (of_nat (length msg) :: u32) \<le> length msg"
    using assms by (simp add: unat_of_nat take_bit_nat_def)
  from Parse_total [OF this, of "Some ParseViciResultElement" zero_result]
  obtain e s' els where r: "ParseViciCommandResult msg = Some (e, s')"
    "s' = snd (run_events (Some ParseViciResultElement) (elem_events 0 els) zero_result)"
    by (auto simp: ParseViciCommandResult_def)
  moreover have "clean_text (acErrorMessage s')"
    unfolding r(2) by (rule run_events_invariant) (auto intro: ResultElement_clean zero_result_clean)
  ultimately show ?thesis by blast
qed

section \<open>The stream\<close>

definition callback_total :: "'u message_callback option \<Rightarrow> bool" where
  "callback_total cb \<longleftrightarrow> (\<forall>f m u. cb = Some f \<longrightarrow> f m u \<noteq> None)"

text \<open>
  A callback with an invariant: from a state with \<open>W\<close> and \<open>P\<close> it returns, keeps \<open>W\<close> in any case and \<open>P\<close> when it succeeds.
\<close>

definition callback_keeps :: "('u \<Rightarrow> bool) \<Rightarrow> ('u \<Rightarrow> bool) \<Rightarrow> 'u message_callback option \<Rightarrow> bool" where
  "callback_keeps W P cb \<longleftrightarrow> (\<forall>f m u. cb = Some f \<longrightarrow> W u \<longrightarrow> P u \<longrightarrow> length m \<le> UINT32_MAX \<longrightarrow>
     (\<exists>e u'. f m u = Some (e, u') \<and> W u' \<and> (e = IPSEC_OK \<longrightarrow> P u')))"

lemma total_keeps: "callback_total cb \<Longrightarrow> callback_keeps (\<lambda>_. True) (\<lambda>_. True) cb"
  by (auto simp: callback_total_def callback_keeps_def)

lemma no_callback_keeps [simp]: "callback_keeps W P None"
  by (simp add: callback_keeps_def)

text \<open>
  An error text is clean, and an outcome that is known without an error comes from a response: the
  flag and the result belong together.
\<close>

definition stream_ok :: "('u \<Rightarrow> bool) \<Rightarrow> 'u stream \<Rightarrow> bool" where
  "stream_ok W s \<longleftrightarrow> clean_text (acErrorMessage (st_result s)) \<and> W (st_user s)"

lemma stream_packet_total:
  assumes cb: "callback_keeps W P ecb" "callback_keeps W P rcb" and ok: "stream_ok W s" and P: "P (st_user s)"
    and small: "\<forall>v. r = Inr v \<longrightarrow> length (vw_pucMessage v) \<le> UINT32_MAX"
  shows "\<exists>e d s'. stream_packet name ecb rcb r s = Some (e, d, s') \<and> stream_ok W s'
     \<and> (e = IPSEC_OK \<longrightarrow> P (st_user s')) \<and> (d \<longrightarrow> st_bOutcomeKnown s' = (e = IPSEC_OK))"
proof (cases r)
  case (Inl e)
  with ok P show ?thesis by (auto simp: stream_packet_def)
next
  case (Inr v)
  obtain e res where p: "ParseViciCommandResult (vw_pucMessage v) = Some (e, res)" "clean_text (acErrorMessage res)"
    using CommandResult_total small Inr by blast
  have W: "W (st_user s)" using ok by (simp add: stream_ok_def)
  have len: "length (vw_pucMessage v) \<le> UINT32_MAX" using small Inr by blast
  have ecb: "\<exists>e u. f (vw_pucMessage v) (st_user s) = Some (e, u) \<and> W u \<and> (e = IPSEC_OK \<longrightarrow> P u)" if "ecb = Some f" for f
    using cb(1) that W P len unfolding callback_keeps_def by blast
  have rcb: "\<exists>e u. f (vw_pucMessage v) (st_user s) = Some (e, u) \<and> W u \<and> (e = IPSEC_OK \<longrightarrow> P u)" if "rcb = Some f" for f
    using cb(2) that W P len unfolding callback_keeps_def by blast
  consider (event) "vw_eType v = VICI_PACKET_EVENT" | (resp) "vw_eType v = VICI_PACKET_COMMAND_RESPONSE"
    | (other) "vw_eType v \<noteq> VICI_PACKET_EVENT" "vw_eType v \<noteq> VICI_PACKET_COMMAND_RESPONSE" by blast
  then show ?thesis
  proof cases
    case event
    show ?thesis
    proof (cases "\<exists>n f. name = Some n \<and> ecb = Some f \<and> MatchViciText (vw_pucName v) n")
      case True
      then obtain n f where nf: "name = Some n" "ecb = Some f" "MatchViciText (vw_pucName v) n" by blast
      obtain e1 u1 where "f (vw_pucMessage v) (st_user s) = Some (e1, u1)" "W u1" "e1 = IPSEC_OK \<longrightarrow> P u1"
        using ecb [OF nf(2)] by blast
      with event nf Inr ok show ?thesis by (auto simp: stream_packet_def stream_ok_def)
    next
      case False
      with event Inr ok P show ?thesis
        by (cases name; cases ecb; auto simp: stream_packet_def stream_ok_def)
    qed
  next
    case resp
    show ?thesis
    proof (cases rcb)
      case None
      with resp Inr p W P show ?thesis by (auto simp: stream_packet_def stream_ok_def Let_def)
    next
      case (Some f)
      obtain e1 u1 where "f (vw_pucMessage v) (st_user s) = Some (e1, u1)" "W u1" "e1 = IPSEC_OK \<longrightarrow> P u1"
        using rcb [OF Some] by blast
      with resp Inr p Some W show ?thesis by (auto simp: stream_packet_def stream_ok_def Let_def)
    qed
  next
    case other
    with Inr ok P show ?thesis by (auto simp: stream_packet_def stream_ok_def)
  qed
qed

lemma Stream_spec:
  assumes cb: "callback_keeps W P ecb" "callback_keeps W P rcb" and "stream_ok W s" and "P (st_user s)"
  shows "ReceiveViciCommandStream mem name ecb rcb s c \<noteq> Fault \<and>
     (\<forall>e s' c'. ReceiveViciCommandStream mem name ecb rcb s c = Ret (e, s', c') \<longrightarrow>
        stream_ok W s' \<and> quiet True c c' \<and> (e = IPSEC_OK \<longrightarrow> st_bOutcomeKnown s' \<and> P (st_user s')))"
  using assms(3,4)
proof (induction "length (script c)" arbitrary: s c rule: less_induct)
  case less
  let ?recv = "ReceiveViciTransportPacket (heap_now mem c) c empty_ViciBuffer"
  note unf = ReceiveViciCommandStream.simps [of mem name ecb rcb s c]
  show ?case
  proof (cases ?recv)
    case Blocked
    then show ?thesis by (simp add: unf)
  next
    case Fault
    then show ?thesis using keeps_no_fault [OF Receive_quiet] by blast
  next
    case (Ret x)
    then obtain e b c1 where r: "?recv = Ret (e, b, c1)" by (cases x) auto
    have q: "quiet True c c1" "releasable True b"
      using keeps_Ret [OF Receive_quiet r] by auto
    obtain d where d: "DestroyViciBuffer b = Some d" "blank (released d)"
      using Destroy_releasable [OF q(2)] by auto
    let ?c2 = "c1\<lparr>freed := released d @ freed c1\<rparr>"
    have q2: "quiet True c ?c2"
      using q(1) d(2) by (auto simp: quiet_def core_of_def conf_of_def)
    show ?thesis
    proof (cases "e = IPSEC_OK")
      case False
      then show ?thesis
        using r d q2 less.prems by (simp add: unf destroy_local_def)
    next
      case True
      obtain v where v: "decode_buffer b = Ret v" "\<forall>w. v = Inr w \<longrightarrow> length (vw_pucMessage w) \<le> UINT32_MAX"
        using Receive_decodes r True by blast
      obtain e1 done1 s1 where p: "stream_packet name ecb rcb v s = Some (e1, done1, s1)" "stream_ok W s1"
        "e1 = IPSEC_OK \<longrightarrow> P (st_user s1)" "done1 \<longrightarrow> st_bOutcomeKnown s1 = (e1 = IPSEC_OK)"
        using stream_packet_total [OF cb less.prems v(2)] by blast
      have small: "length (script ?c2) < length (script c)"
        using Receive_consumes r True by simp
      note IH = less.hyps [OF small p(2)]
      have run: "ReceiveViciCommandStream mem name ecb rcb s c =
          (if done1 \<or> e1 \<noteq> IPSEC_OK then Ret (e1, s1, ?c2)
           else ReceiveViciCommandStream mem name ecb rcb s1 ?c2)"
        using r True v(1) p(1) d(1) by (simp add: unf)
      show ?thesis
      proof (cases "done1 \<or> e1 \<noteq> IPSEC_OK")
        case True
        then show ?thesis using run q2 p(2-4) by auto
      next
        case False
        then show ?thesis using run q2 IH p(3) by (auto intro: quiet_trans)
      qed
    qed
  qed
qed

section \<open>The steps of a command\<close>

lemma keeps_on_ok_weaken:
  assumes "keeps P r" and "\<And>s. P s \<Longrightarrow> keeps Q (f s)" and "\<And>s. P s \<Longrightarrow> Q s"
  shows "keeps Q (on_ok r f)"
  using assms by (cases r) (auto simp: on_ok_def)

definition early_stage :: "'u progress \<Rightarrow> bool" where
  "early_stage p \<longleftrightarrow> pr_eStage p \<in> {IPSEC_STAGE_CONNECT, IPSEC_STAGE_REGISTER, IPSEC_STAGE_ENCODE}
     \<and> \<not> pr_bSendAttempted p \<and> \<not> pr_bResponseValid p"

definition late_stage :: "'u progress \<Rightarrow> bool" where
  "late_stage p \<longleftrightarrow> pr_bSendAttempted p \<and>
     (pr_eStage p = IPSEC_STAGE_SEND \<and> \<not> pr_bResponseValid p \<or> pr_eStage p = IPSEC_STAGE_RECEIVE)"

text \<open>
  The invariant of the steps, relative to the state \<open>c0\<close> they started in. \<open>q\<close> says that no event is
  registered; \<open>s\<close> that the request is sensitive.
\<close>

definition steps_inv :: "('u \<Rightarrow> bool) \<Rightarrow> bool \<Rightarrow> bool \<Rightarrow> command \<Rightarrow> 'u progress \<times> command \<Rightarrow> bool" where
  "steps_inv W q s c0 = (\<lambda>(p, c). W (pr_user p) \<and> quiet q c0 c \<and> releasable s (pr_Packet p)
     \<and> clean_text (acErrorMessage (pr_result p)) \<and> (early_stage p \<or> late_stage p) \<and> (q \<longrightarrow> \<not> pr_bRegistered p))"

definition early_inv :: "('u \<Rightarrow> bool) \<Rightarrow> bool \<Rightarrow> command \<Rightarrow> 'u progress \<times> command \<Rightarrow> bool" where
  "early_inv W q c0 = (\<lambda>(p, c). W (pr_user p) \<and> quiet q c0 c \<and> pr_Packet p = empty_ViciBuffer \<and> pr_result p = zero_result \<and> early_stage p
     \<and> (q \<longrightarrow> \<not> pr_bRegistered p))"

lemma connect_step_early:
  assumes "path_ok c0" and "W (pr_user p)" and "pr_Packet p = empty_ViciBuffer" and "pr_result p = zero_result"
    and "\<not> pr_bSendAttempted p" and "\<not> pr_bResponseValid p" and "\<not> pr_bRegistered p"
  shows "keeps (early_inv W q c0) (connect_step (p, c0))"
  using Connect_quiet [OF assms(1), of q] assms
  by (auto simp: connect_step_def keeps_def exec_bind_Fault exec_bind_Ret early_inv_def early_stage_def)

lemma register_step_early:
  assumes "path_ok c0" and "early_inv W q c0 pc" and "q \<longleftrightarrow> name = None"
  shows "keeps (early_inv W q c0) (register_step mem name pc)"
proof (cases name)
  case None
  with assms(2) show ?thesis by (cases pc) (simp add: register_step_def)
next
  case (Some n)
  obtain p c where pc: "pc = (p, c)" by (cases pc)
  then have "path_ok c" using assms(1,2) quiet_path by (auto simp: early_inv_def)
  from Exchange_quiet [OF this, of mem n True] Some assms pc show ?thesis
    by (auto simp: register_step_def keeps_def exec_bind_Fault exec_bind_Ret early_inv_def early_stage_def
        intro: quiet_trans)
qed

lemma encode_step_keeps:
  assumes "early_inv W q c0 pc" and "message_wf req"
  shows "keeps (\<lambda>pc. steps_inv W q (request_sensitive req) c0 pc \<and> early_stage (fst pc)) (encode_step mem cmd req pc)"
proof -
  obtain p c where pc: "pc = (p, c)" by (cases pc)
  obtain e b where "BuildViciNamedPacket (heap_now mem c) VICI_PACKET_COMMAND_REQUEST (Some cmd) req empty_ViciBuffer = Some (e, b)"
    "releasable (request_sensitive req) b"
    using Build_buffers_total [OF assms(2)] by blast
  with assms(1) pc zero_result_clean show ?thesis
    by (simp add: encode_step_def early_inv_def steps_inv_def early_stage_def)
qed

lemma send_step_keeps:
  assumes "path_ok c0" and "steps_inv W q s c0 pc" and "early_stage (fst pc)"
  shows "keeps (\<lambda>pc. steps_inv W q s c0 pc \<and> late_stage (fst pc)) (send_step pc)"
proof -
  obtain p c where pc: "pc = (p, c)" by (cases pc)
  have "path_ok c" "buf_wf (pr_Packet p)"
    using assms pc quiet_path releasable_wf by (auto simp: steps_inv_def)
  from Send_quiet [OF this, of q] assms pc show ?thesis
    by (auto simp: send_step_def keeps_def exec_bind_Fault exec_bind_Ret steps_inv_def late_stage_def early_stage_def
        intro: quiet_trans)
qed

lemma quiet_True: "quiet True c c' \<Longrightarrow> quiet q c c'"
  by (auto simp: quiet_def)

lemma quiet_then: "quiet q a b \<Longrightarrow> quiet True b c \<Longrightarrow> quiet q a c"
  by (rule quiet_trans [OF _ quiet_True])

lemma receive_step_spec:
  assumes "steps_inv (\<lambda>u. W u \<and> P u) q s c0 pc" and "late_stage (fst pc)" and cb: "callback_keeps W P ecb" "callback_keeps W P rcb"
  shows "keeps (steps_inv W q s c0) (receive_step mem cmd name ecb rcb pc)"
    and "receive_step mem cmd name ecb rcb pc = Ret (IPSEC_OK, p', c') \<Longrightarrow>
       P (pr_user p') \<and> pr_bResponseValid p' \<and> (RequireViciSuccessField cmd \<longrightarrow> bSuccessPresent (pr_result p'))"
proof -
  obtain p c where pc: "pc = (p, c)" by (cases pc)
  let ?s = "\<lparr>st_user = pr_user p, st_result = pr_result p, st_bOutcomeKnown = pr_bResponseValid p\<rparr>"
  have "stream_ok W ?s" "P (st_user ?s)"
    using assms(1) pc by (simp_all add: steps_inv_def stream_ok_def)
  note spec = Stream_spec [OF cb this, of mem name c]
  show "keeps (steps_inv W q s c0) (receive_step mem cmd name ecb rcb pc)"
    using spec assms(1,2) pc quiet_then [of q c0 c]
    by (auto simp: receive_step_def keeps_def exec_bind_Fault exec_bind_Ret Let_def steps_inv_def late_stage_def
        stream_ok_def split: if_splits)
  assume "receive_step mem cmd name ecb rcb pc = Ret (IPSEC_OK, p', c')"
  then show "P (pr_user p') \<and> pr_bResponseValid p' \<and> (RequireViciSuccessField cmd \<longrightarrow> bSuccessPresent (pr_result p'))"
    using spec pc by (auto simp: receive_step_def exec_bind_Ret Let_def split: if_splits)
qed

lemma command_steps_spec:
  assumes path: "path_ok c0" and req: "message_wf req" and cb: "callback_keeps W P ecb" "callback_keeps W P rcb"
    and u: "W u" "P u" and q: "q \<longleftrightarrow> name = None"
  shows "keeps (steps_inv W q (request_sensitive req) c0) (command_steps mem cmd req name ecb rcb (initial_progress u, c0))"
    and "command_steps mem cmd req name ecb rcb (initial_progress u, c0) = Ret (IPSEC_OK, p', c') \<Longrightarrow>
       P (pr_user p') \<and> pr_bResponseValid p' \<and> (RequireViciSuccessField cmd \<longrightarrow> bSuccessPresent (pr_result p'))"
proof -
  let ?s = "request_sensitive req"
  let ?V = "\<lambda>u. W u \<and> P u"
  let ?conn = "connect_step (initial_progress u, c0)"
  let ?enc = "on_ok (on_ok ?conn (register_step mem name)) (encode_step mem cmd req)"
  have conn: "keeps (early_inv ?V q c0) ?conn"
    by (rule connect_step_early [OF path]) (simp_all add: initial_progress_def u)
  have early: "keeps (early_inv ?V q c0) (on_ok ?conn (register_step mem name))"
    by (rule keeps_on_ok [OF conn register_step_early [OF path _ q]])
  have enc: "keeps (\<lambda>pc. steps_inv ?V q ?s c0 pc \<and> early_stage (fst pc)) ?enc"
    by (rule keeps_on_ok_weaken [OF early encode_step_keeps [OF _ req]])
      (auto simp: early_inv_def steps_inv_def zero_result_clean)
  have send: "keeps (steps_inv ?V q ?s c0) (on_ok ?enc send_step)"
    by (rule keeps_on_ok_weaken [OF enc]) (auto simp: keeps_def dest!: send_step_keeps [OF path])
  have send_weak: "keeps (steps_inv W q ?s c0) (on_ok ?enc send_step)"
    using send by (auto simp: keeps_def steps_inv_def)
  have late: "late_stage (fst pc) \<and> steps_inv ?V q ?s c0 pc" if run: "on_ok ?enc send_step = Ret (IPSEC_OK, pc)" for pc
  proof -
    obtain pc1 where "?enc = Ret (IPSEC_OK, pc1)" "send_step pc1 = Ret (IPSEC_OK, pc)"
      using iffD1 [OF on_ok_Ret run] by auto
    with keeps_Ret [OF enc] send_step_keeps [OF path, of ?V q ?s pc1] show ?thesis
      using keeps_Ret [of "\<lambda>pc. steps_inv ?V q ?s c0 pc \<and> late_stage (fst pc)" "send_step pc1" IPSEC_OK pc] by blast
  qed
  have "keeps (steps_inv W q ?s c0) (receive_step mem cmd name ecb rcb pc)"
    if "on_ok ?enc send_step = Ret (IPSEC_OK, pc)" for pc
    using receive_step_spec(1) [OF _ _ cb] late [OF that] by blast
  with send_weak show "keeps (steps_inv W q ?s c0) (command_steps mem cmd req name ecb rcb (initial_progress u, c0))"
    unfolding command_steps_def by (cases "on_ok ?enc send_step") (auto simp: on_ok_def [of "Ret _"])
  assume "command_steps mem cmd req name ecb rcb (initial_progress u, c0) = Ret (IPSEC_OK, p', c')"
  then obtain pc where pc: "on_ok ?enc send_step = Ret (IPSEC_OK, pc)"
    "receive_step mem cmd name ecb rcb pc = Ret (IPSEC_OK, p', c')"
    by (auto simp: command_steps_def on_ok_Ret)
  then show "P (pr_user p') \<and> pr_bResponseValid p' \<and> (RequireViciSuccessField cmd \<longrightarrow> bSuccessPresent (pr_result p'))"
    using receive_step_spec(2) [OF _ _ cb pc(2)] late [OF pc(1)] by blast
qed

section \<open>The end of a command\<close>

definition final_stage :: "IpsecError \<Rightarrow> 'u progress \<Rightarrow> bool" where
  "final_stage e p \<longleftrightarrow> early_stage p \<or> late_stage p
     \<or> (pr_eStage p = IPSEC_STAGE_UNREGISTER \<and> pr_bSendAttempted p \<and> pr_bResponseValid p)"

text \<open>The state in which the diagnostic of a command that had the slot is written.\<close>

definition closing_inv :: "('u \<Rightarrow> bool) \<Rightarrow> ('u \<Rightarrow> bool) \<Rightarrow> bool \<Rightarrow> bool \<Rightarrow> command \<Rightarrow> IpsecError \<Rightarrow> 'u progress \<Rightarrow> command \<Rightarrow> bool" where
  "closing_inv W P q s c0 e p c \<longleftrightarrow> W (pr_user p) \<and> (e = IPSEC_OK \<longrightarrow> P (pr_user p)) \<and> quiet q c0 c \<and> releasable s (pr_Packet p) \<and> clean_text (acErrorMessage (pr_result p))
     \<and> final_stage e p \<and> (e = IPSEC_OK \<longrightarrow> pr_bSendAttempted p \<and> pr_bResponseValid p) \<and> (e \<noteq> IPSEC_OK \<longrightarrow> iSocket c < 0)"

lemma final_valid: "final_stage e p \<Longrightarrow> pr_bResponseValid p \<Longrightarrow> pr_bSendAttempted p"
  by (auto simp: final_stage_def early_stage_def late_stage_def)

lemma finish_stream_spec:
  assumes path: "path_ok c0" and inv: "steps_inv W q s c0 (p, c)" and q: "q \<longrightarrow> \<not> pr_bRegistered p"
    and valid: "e = IPSEC_OK \<longrightarrow> pr_bResponseValid p \<and> P (pr_user p)"
  shows "finish_stream mem name (e, p, c) \<noteq> Fault"
    and "finish_stream mem name (e, p, c) = Ret (e', p', c') \<Longrightarrow> closing_inv W P q s c0 e' p' c'
       \<and> pr_result p' = pr_result p \<and> pr_user p' = pr_user p"
proof -
  let ?n = "case name of None \<Rightarrow> [] | Some n \<Rightarrow> n"
  have "path_ok c" using path inv quiet_path by (auto simp: steps_inv_def)
  note ex = Exchange_quiet [OF this, of mem ?n False]
  show "finish_stream mem name (e, p, c) \<noteq> Fault"
    using keeps_no_fault [OF ex] by (auto simp: finish_stream_def exec_bind_Fault)
  have final: "final_stage e'' p" for e''
    using inv by (auto simp: steps_inv_def final_stage_def)
  assume run: "finish_stream mem name (e, p, c) = Ret (e', p', c')"
  show "closing_inv W P q s c0 e' p' c' \<and> pr_result p' = pr_result p \<and> pr_user p' = pr_user p"
  proof (cases "e = IPSEC_OK \<and> pr_bRegistered p")
    case False
    with run inv valid final final_valid [OF final] show ?thesis
      by (auto simp: finish_stream_def closing_inv_def steps_inv_def quiet_Disconnect split: if_splits)
  next
    case True
    then obtain c1 where c1: "ExchangeViciRegistration mem ?n False c = Ret (e', c1)"
      "p' = p\<lparr>pr_eStage := IPSEC_STAGE_UNREGISTER\<rparr>" "c' = (if e' \<noteq> IPSEC_OK then DisconnectViciTransport c1 else c1)"
      using run by (auto simp: finish_stream_def exec_bind_Ret)
    have "quiet q c0 c1"
      using keeps_Ret [OF ex c1(1)] inv q True by (auto simp: steps_inv_def intro: quiet_trans)
    with c1 inv valid True final_valid [OF final] show ?thesis
      by (auto simp: closing_inv_def steps_inv_def quiet_Disconnect final_stage_def)
  qed
qed

lemma copy_text_total:
  assumes "0 < n"
  shows "\<exists>d. copy_text n s = Ret d \<and> length d = n \<and> (strlen s < n \<longrightarrow> cstr d = cstr s)"
proof -
  have len: "strlen s \<le> length s" by (rule strlen_le)
  have src: "take (strlen s) s = cstr s" by (rule take_strlen)
  show ?thesis
  proof (cases "strlen s < n")
    case False
    with assms len show ?thesis
      by (auto simp: copy_text_def CopyIpsecString_def write_at_def)
  next
    case True
    have "copy_text n s = Ret (cstr s @ 0 # replicate (n - Suc (strlen s)) 0)"
      using True len src
      by (cases "strlen s = 0") (auto simp: copy_text_def CopyIpsecString_def rd_bytes_def write_at_def strlen_def)
    with True show ?thesis
      by (simp add: cstr_nonzero_append strlen_def)
  qed
qed

lemma conclude_no_fault:
  assumes "releasable s (pr_Packet p)"
  shows "conclude_command cmd sens acq (e, p, c) \<noteq> Fault"
proof -
  have copy: "copy_text 64 x \<noteq> Fault" "copy_text 256 x \<noteq> Fault" for x
    using copy_text_total [of 64 x] copy_text_total [of 256 x] by auto
  have "destroy_local (pr_Packet p) c1 \<noteq> Fault" for c1
    using destroy_local_quiet [OF assms, of c1] by auto
  then show ?thesis
    using copy by (auto simp: conclude_command_def Let_def exec_bind_Fault split: if_splits)
qed

lemma conclude_Ret:
  assumes "conclude_command cmd sens acq (e, p, c) = Ret (e', res, u, c')"
  obtains c1 os acC acM d where "destroy_local (pr_Packet p) c = Ret c1" and "u = pr_user p"
    and "res = final_result sens (pr_result p)" and "e' = final_error e res"
    and "e' \<noteq> IPSEC_OK \<Longrightarrow> copy_text 256 (report_text e' res) = Ret acM"
    and "d = command_diagnostic e res p acC acM"
    and "c' = log_refusal cmd d (publish acq d os (forget_deadline acq c1))"
  using assms unfolding conclude_command_def Let_def prod.case
  by (elim exec_bind_RetE) (auto split: if_splits)

lemma forget_deadline_simps [simp]:
  "iSocket (forget_deadline a c) = iSocket c" "wire_out (forget_deadline a c) = wire_out c" "wire_in (forget_deadline a c) = wire_in c"
  "freed (forget_deadline a c) = freed c"
  "bActive (forget_deadline a c) = bActive c" "logged (forget_deadline a c) = logged c"
  "path_ok (forget_deadline a c) = path_ok c"
  by (simp_all add: forget_deadline_def path_ok_def)

lemma publish_simps [simp]:
  "iSocket (publish a d os c) = iSocket c" "wire_out (publish a d os c) = wire_out c" "wire_in (publish a d os c) = wire_in c"
  "freed (publish a d os c) = freed c" "Last (publish a d os c) = d"
  "bActive (publish a d os c) = (if a then False else bActive c)" "logged (publish a d os c) = logged c"
  "ullCommandDeadlineMs (publish a d os c) = ullCommandDeadlineMs c"
  "iTransportCancelFd (publish a d os c) = iTransportCancelFd c" "path_ok (publish a d os c) = path_ok c"
  by (simp_all add: publish_def Let_def path_ok_def)

lemma log_refusal_simps [simp]:
  "iSocket (log_refusal x d c) = iSocket c" "wire_out (log_refusal x d c) = wire_out c" "wire_in (log_refusal x d c) = wire_in c"
  "freed (log_refusal x d c) = freed c" "Last (log_refusal x d c) = Last c"
  "bActive (log_refusal x d c) = bActive c" "ullCommandDeadlineMs (log_refusal x d c) = ullCommandDeadlineMs c"
  "iTransportCancelFd (log_refusal x d c) = iTransportCancelFd c" "path_ok (log_refusal x d c) = path_ok c"
  "logged (log_refusal x d c) = (if dg_eError d = IPSEC_ERR_VICI_COMMAND then (x, dg_acMessage d) # logged c else logged c)"
  by (simp_all add: log_refusal_def path_ok_def)

section \<open>The slot\<close>

lemma cancel_poll_no_fault [simp]: "cancel_poll os \<noteq> Fault"
  by (induction os rule: cancel_poll.induct) auto

lemma IsViciWaitCancelled_no_fault [simp]: "IsViciWaitCancelled fd os \<noteq> Fault"
  by (simp add: IsViciWaitCancelled_def)

lemma slot_loop_no_fault [simp]: "slot_loop fd a cl r os \<noteq> Fault"
proof (induction fd a cl r os rule: slot_loop.induct)
  case (1 fd a cl r os)
  then show ?case
    by (subst slot_loop.simps) (auto split: exec.split)
qed

lemma Acquire_no_fault: "AcquireViciCommand dl fd c \<noteq> Fault"
  by (auto simp: AcquireViciCommand_def exec_bind_Fault Let_def split: if_splits)

definition slot_of :: "command \<Rightarrow> command" where
  "slot_of c = c\<lparr>script := [], bActive := False, bClosing := False\<rparr>"

lemma slot_of_simps [simp]:
  "slot_of (c\<lparr>script := os\<rparr>) = slot_of c" "slot_of (c\<lparr>bActive := a\<rparr>) = slot_of c" "slot_of (c\<lparr>bClosing := a\<rparr>) = slot_of c"
  by (simp_all add: slot_of_def)

lemma Acquire_Ret:
  assumes "AcquireViciCommand dl fd c = Ret (e, c')"
  shows "slot_of c' = slot_of c \<and> (e = IPSEC_OK \<longrightarrow> bActive c' \<and> \<not> bClosing c')"
  using assms unfolding AcquireViciCommand_def Let_def
  by (elim exec_bind_RetE) (auto split: if_splits elim!: exec_bind_RetE)

lemma slot_of_fields:
  assumes "slot_of c' = slot_of c"
  shows "path_ok c' = path_ok c" and "ullCommandDeadlineMs c' = ullCommandDeadlineMs c"
    and "iTransportCancelFd c' = iTransportCancelFd c" and "iSocket c' = iSocket c" and "logged c' = logged c"
    and "freed c' = freed c" and "wire_out c' = wire_out c" and "wire_in c' = wire_in c"
  using assms by (cases c; cases c'; simp add: slot_of_def path_ok_def)+

section \<open>Commands\<close>

text \<open>The three ways a command ends: the clock is unusable, the slot was not got, or it ran.\<close>

lemma Execute_cases:
  assumes wf: "path_ok c" "message_wf req" "callback_keeps W P ecb" "callback_keeps W P rcb" "W u" "P u"
    and q: "q \<longleftrightarrow> name = None"
    and ret: "ExecuteViciCommandUntil mem cmd req name ecb rcb u dl fd c = Ret (e, res, u', c')"
  obtains (clock) os where "e = IPSEC_ERR_INTERNAL" and "res = zero_result" and "u' = u" and "c' = c\<lparr>script := os\<rparr>"
  | (queue) c1 e1 where "slot_of c1 = slot_of c" and "e1 \<noteq> IPSEC_OK"
      and "conclude_command cmd (request_sensitive req) False (e1, initial_progress u, c1) = Ret (e, res, u', c')"
  | (ran) c1 dl1 e1 p c2 where "slot_of c1 = slot_of c"
      and "closing_inv W P q (request_sensitive req) (c1\<lparr>ullCommandDeadlineMs := dl1, iTransportCancelFd := fd\<rparr>) e1 p c2"
      and "e1 = IPSEC_OK \<longrightarrow> RequireViciSuccessField cmd \<longrightarrow> bSuccessPresent (pr_result p)"
      and "conclude_command cmd (request_sensitive req) True (e1, p, c2) = Ret (e, res, u', c')"
proof -
  obtain now os where now: "read_clock (script c) = Ret (now, os)"
    using ret unfolding ExecuteViciCommandUntil_def Let_def by (elim exec_bind_RetE) auto
  let ?c = "c\<lparr>script := os\<rparr>"
  show ?thesis
  proof (cases "now = 0 \<or> UINT64_MAX - uiCommandTimeoutMs c < now")
    case True
    with ret now clock show ?thesis by (auto simp: ExecuteViciCommandUntil_def)
  next
    case False
    define dl1 where "dl1 = command_limit now (uiCommandTimeoutMs c) dl"
    let ?run = "\<lambda>c1. command_steps mem cmd req name ecb rcb (initial_progress u, c1\<lparr>ullCommandDeadlineMs := dl1, iTransportCancelFd := fd\<rparr>)"
    have exe: "ExecuteViciCommandUntil mem cmd req name ecb rcb u dl fd c =
       exec_bind (AcquireViciCommand dl1 fd ?c) (\<lambda>(e, c1).
         if e \<noteq> IPSEC_OK then conclude_command cmd (request_sensitive req) False (e, initial_progress u, c1)
         else exec_bind (exec_bind (?run c1) (finish_stream mem name)) (conclude_command cmd (request_sensitive req) True))"
      unfolding dl1_def using False now by (simp add: ExecuteViciCommandUntil_def Let_def)
    obtain e1 c1 where acq: "AcquireViciCommand dl1 fd ?c = Ret (e1, c1)"
      using ret unfolding exe by (elim exec_bind_RetE) auto
    have slot: "slot_of c1 = slot_of c"
      using Acquire_Ret [OF acq] by simp
    show ?thesis
    proof (cases "e1 = IPSEC_OK")
      case False
      with ret acq slot queue show ?thesis by (auto simp: exe)
    next
      case True
      let ?c0 = "c1\<lparr>ullCommandDeadlineMs := dl1, iTransportCancelFd := fd\<rparr>"
      have path: "path_ok ?c0"
        using wf(1) slot_of_fields(1) [OF slot] by (simp add: path_ok_def)
      obtain e2 p2 c2 where steps: "?run c1 = Ret (e2, p2, c2)"
        using ret True acq unfolding exe by (auto elim!: exec_bind_RetE)
      obtain e3 p3 c3 where fin: "finish_stream mem name (e2, p2, c2) = Ret (e3, p3, c3)"
        "conclude_command cmd (request_sensitive req) True (e3, p3, c3) = Ret (e, res, u', c')"
        using ret True acq steps unfolding exe by (auto elim!: exec_bind_RetE)
      have inv: "steps_inv W q (request_sensitive req) ?c0 (p2, c2)"
        using keeps_Ret [OF command_steps_spec(1) [OF path wf(2-6) q] steps] .
      have valid: "e2 = IPSEC_OK \<longrightarrow> P (pr_user p2) \<and> pr_bResponseValid p2 \<and> (RequireViciSuccessField cmd \<longrightarrow> bSuccessPresent (pr_result p2))"
        using command_steps_spec(2) [OF path wf(2-6) q] steps by blast
      have "closing_inv W P q (request_sensitive req) ?c0 e3 p3 c3 \<and> pr_result p3 = pr_result p2"
        using finish_stream_spec(2) [OF path inv _ _ fin(1)] inv valid by (auto simp: steps_inv_def)
      moreover have "e3 = IPSEC_OK \<Longrightarrow> e2 = IPSEC_OK"
        using fin(1) by (auto simp: finish_stream_def split: if_splits)
      ultimately show ?thesis
        using ran [OF slot _ _ fin(2)] valid by auto
    qed
  qed
qed

lemma destroy_local_Ret:
  assumes "destroy_local b c = Ret c1"
  obtains xs where "c1 = c\<lparr>freed := xs @ freed c\<rparr>" and "\<And>s. releasable s b \<Longrightarrow> s \<Longrightarrow> blank xs"
proof -
  obtain d where d: "DestroyViciBuffer b = Some d" "c1 = c\<lparr>freed := released d @ freed c\<rparr>"
    using assms by (cases "DestroyViciBuffer b") (auto simp: destroy_local_def)
  show ?thesis
    by (rule that [OF d(2)]) (use d(1) Destroy_releasable in force)
qed

lemma Execute_no_fault:
  assumes wf: "path_ok c" "message_wf req" "callback_keeps W P ecb" "callback_keeps W P rcb" "W u" "P u"
  shows "ExecuteViciCommandUntil mem cmd req name ecb rcb u dl fd c \<noteq> Fault"
proof -
  let ?s = "request_sensitive req"
  have queue: "conclude_command cmd ?s False (e, initial_progress u, c1) \<noteq> Fault" for e c1
    by (rule conclude_no_fault [of ?s]) (simp add: initial_progress_def)
  have ran: "exec_bind (exec_bind (command_steps mem cmd req name ecb rcb
      (initial_progress u, c1\<lparr>ullCommandDeadlineMs := dl1, iTransportCancelFd := fd\<rparr>)) (finish_stream mem name))
      (conclude_command cmd ?s True) \<noteq> Fault"
    if slot: "slot_of c1 = slot_of c" for c1 dl1
  proof -
    let ?c0 = "c1\<lparr>ullCommandDeadlineMs := dl1, iTransportCancelFd := fd\<rparr>"
    have path: "path_ok ?c0"
      using wf(1) slot_of_fields(1) [OF slot] by (simp add: path_ok_def)
    note steps = command_steps_spec [OF path wf(2-6) refl, where mem = mem and cmd = cmd]
    have fin: "finish_stream mem name (e, p, c2) \<noteq> Fault \<and> (\<forall>e' p' c'.
        finish_stream mem name (e, p, c2) = Ret (e', p', c') \<longrightarrow> releasable ?s (pr_Packet p'))"
      if "command_steps mem cmd req name ecb rcb (initial_progress u, ?c0) = Ret (e, p, c2)" for e p c2
    proof -
      have inv: "steps_inv W (name = None) ?s ?c0 (p, c2)"
        by (rule keeps_Ret [OF steps(1) that])
      then have reg: "name = None \<longrightarrow> \<not> pr_bRegistered p" by (simp add: steps_inv_def)
      have valid: "e = IPSEC_OK \<longrightarrow> pr_bResponseValid p \<and> P (pr_user p)"
        using steps(2) that by blast
      show ?thesis
        using finish_stream_spec [where P = P, OF path inv reg valid] by (auto simp: closing_inv_def)
    qed
    show ?thesis
      using keeps_no_fault [OF steps(1)] fin
      by (auto simp: exec_bind_Fault exec_bind_Ret conclude_no_fault [of ?s])
  qed
  have after: "(if e \<noteq> IPSEC_OK then conclude_command cmd ?s False (e, initial_progress u, c1)
      else exec_bind (exec_bind (command_steps mem cmd req name ecb rcb
        (initial_progress u, c1\<lparr>ullCommandDeadlineMs := dl1, iTransportCancelFd := fd\<rparr>)) (finish_stream mem name))
        (conclude_command cmd ?s True)) \<noteq> Fault"
    if "AcquireViciCommand dl1 fd (c\<lparr>script := os\<rparr>) = Ret (e, c1)" for e c1 os dl1
    using queue ran [of c1 dl1] Acquire_Ret [OF that] by simp
  show ?thesis
    unfolding ExecuteViciCommandUntil_def Let_def
  proof (rule exec_bind_no_fault)
    fix x :: "nat \<times> os_script"
    obtain now os where x: "x = (now, os)" by (cases x)
    let ?dl = "command_limit now (uiCommandTimeoutMs c) dl"
    have "exec_bind (AcquireViciCommand ?dl fd (c\<lparr>script := os\<rparr>)) (\<lambda>(e, c1).
         if e \<noteq> IPSEC_OK then conclude_command cmd ?s False (e, initial_progress u, c1)
         else exec_bind (exec_bind (command_steps mem cmd req name ecb rcb (initial_progress u,
             c1\<lparr>ullCommandDeadlineMs := ?dl, iTransportCancelFd := fd\<rparr>))
           (finish_stream mem name)) (conclude_command cmd ?s True)) \<noteq> Fault"
      by (rule exec_bind_no_fault [OF Acquire_no_fault], simp only: split_paired_all prod.case, rule after)
    then show "(case x of (now, os) \<Rightarrow> if now = 0 \<or> UINT64_MAX - uiCommandTimeoutMs c < now
       then Ret (IPSEC_ERR_INTERNAL, zero_result, u, c\<lparr>script := os\<rparr>)
       else exec_bind (AcquireViciCommand (command_limit now (uiCommandTimeoutMs c) dl) fd (c\<lparr>script := os\<rparr>)) (\<lambda>(e, c1).
         if e \<noteq> IPSEC_OK then conclude_command cmd ?s False (e, initial_progress u, c1)
         else exec_bind (exec_bind (command_steps mem cmd req name ecb rcb (initial_progress u,
             c1\<lparr>ullCommandDeadlineMs := command_limit now (uiCommandTimeoutMs c) dl, iTransportCancelFd := fd\<rparr>))
           (finish_stream mem name)) (conclude_command cmd ?s True))) \<noteq> Fault"
      unfolding x prod.case by (simp only: split: if_split) simp
  qed simp
qed

lemma Execute_releases:
  assumes "path_ok c" and "ullCommandDeadlineMs c = 0" and "iTransportCancelFd c = - 1"
    and "message_wf req" and "callback_keeps W P ecb" and "callback_keeps W P rcb" and "W u" and "P u"
    and ret: "ExecuteViciCommandUntil mem cmd req name ecb rcb u dl fd c = Ret (e, res, u', c')"
  shows "path_ok c' \<and> ullCommandDeadlineMs c' = 0 \<and> iTransportCancelFd c' = - 1 \<and>
        (e = IPSEC_ERR_INTERNAL \<and> c' = c\<lparr>script := script c'\<rparr>
         \<or> dg_eStage (Last c') = IPSEC_STAGE_QUEUE \<and> e \<noteq> IPSEC_OK \<and> iSocket c' = iSocket c
             \<and> wire_out c' = wire_out c \<and> wire_in c' = wire_in c
         \<or> \<not> bActive c' \<and> (e \<noteq> IPSEC_OK \<and> e \<noteq> IPSEC_ERR_VICI_COMMAND \<longrightarrow> iSocket c' < 0))"
  using ret
proof (cases rule: Execute_cases [OF assms(1,4-8) refl, consumes 1, case_names clock queue ran])
  case (clock os)
  with assms show ?thesis by (simp add: path_ok_def)
next
  case (queue c1 e1)
  note f = slot_of_fields [OF queue(1)]
  from queue(3) show ?thesis
  proof (rule conclude_Ret)
    fix c2 os acC acM d
    assume d: "destroy_local (pr_Packet (initial_progress u)) c1 = Ret c2"
      "res = final_result (request_sensitive req) (pr_result (initial_progress u))" "e = final_error e1 res"
      "d = command_diagnostic e1 res (initial_progress u) acC acM"
      "c' = log_refusal cmd d (publish False d os (forget_deadline False c2))"
    obtain xs where "c2 = c1\<lparr>freed := xs @ freed c1\<rparr>"
      using d(1) by (rule destroy_local_Ret)
    with d queue(2) assms f show ?thesis
      by (simp add: command_diagnostic_def final_error_def refused_def initial_progress_def forget_deadline_def)
  qed
next
  case (ran c1 dl1 e1 p c2)
  let ?c0 = "c1\<lparr>ullCommandDeadlineMs := dl1, iTransportCancelFd := fd\<rparr>"
  have path: "path_ok c2"
    using ran(1,2) slot_of_fields(1) [OF ran(1)] assms(1) quiet_path [of "name = None" ?c0 c2]
    by (simp add: closing_inv_def path_ok_def)
  from ran(4) show ?thesis
  proof (rule conclude_Ret)
    fix c3 os acC acM d
    assume d: "destroy_local (pr_Packet p) c2 = Ret c3" "e = final_error e1 res"
      "c' = log_refusal cmd d (publish True d os (forget_deadline True c3))"
    obtain xs where "c3 = c2\<lparr>freed := xs @ freed c2\<rparr>"
      using d(1) by (rule destroy_local_Ret)
    with d ran(2) path show ?thesis
      by (auto simp: closing_inv_def final_error_def forget_deadline_def split: if_splits)
  qed
qed

text \<open>What the callbacks left in the caller's state.\<close>

lemma Execute_user:
  assumes "path_ok c" and "message_wf req" and "callback_keeps W P ecb" and "callback_keeps W P rcb" and "W u" and "P u"
    and ret: "ExecuteViciCommandUntil mem cmd req name ecb rcb u dl fd c = Ret (e, res, u', c')"
  shows "W u' \<and> (e = IPSEC_OK \<longrightarrow> P u')"
  using ret
proof (cases rule: Execute_cases [OF assms(1-6) refl, consumes 1, case_names clock queue ran])
  case (clock os)
  with assms show ?thesis by simp
next
  case (queue c1 e1)
  then show ?thesis using assms by (auto simp: conclude_command_def exec_bind_Ret Let_def initial_progress_def)
next
  case (ran c1 dl1 e1 p c2)
  then have "W (pr_user p)" "e1 = IPSEC_OK \<longrightarrow> P (pr_user p)" by (auto simp: closing_inv_def)
  moreover have "u' = pr_user p" "e = final_error e1 (final_result (request_sensitive req) (pr_result p))"
    using ran(4) by (auto simp: conclude_command_def exec_bind_Ret Let_def)
  ultimately show ?thesis by (auto simp: final_error_def split: if_splits)
qed

text \<open>
  C22. The life of a command, for every behaviour of the system calls, the daemon and the allocator, and for
  every request, event and callback. Nothing faults. When the call returns, the deadline and the
  cancellation descriptor of the transport are reset, so that they never leak into a later command, and
  exactly one of three things has happened: the clock could not be used and nothing changed; the slot was
  not obtained (the diagnostic says so) and the connection is untouched; or the slot was obtained and is
  free again, and unless the daemon itself answered the command the connection is closed, so that no
  later command reads a stream of unknown position.
\<close>

theorem ExecuteViciCommandUntil_releases:
  assumes "path_ok c" and "ullCommandDeadlineMs c = 0" and "iTransportCancelFd c = - 1"
    and "message_wf req" and "callback_total ecb" and "callback_total rcb"
  shows "ExecuteViciCommandUntil mem cmd req name ecb rcb u dl fd c \<noteq> Fault \<and>
     (\<forall>e res u' c'. ExecuteViciCommandUntil mem cmd req name ecb rcb u dl fd c = Ret (e, res, u', c') \<longrightarrow>
        path_ok c' \<and> ullCommandDeadlineMs c' = 0 \<and> iTransportCancelFd c' = - 1 \<and>
        (e = IPSEC_ERR_INTERNAL \<and> c' = c\<lparr>script := script c'\<rparr>
         \<or> dg_eStage (Last c') = IPSEC_STAGE_QUEUE \<and> e \<noteq> IPSEC_OK \<and> iSocket c' = iSocket c
             \<and> wire_out c' = wire_out c \<and> wire_in c' = wire_in c
         \<or> \<not> bActive c' \<and> (e \<noteq> IPSEC_OK \<and> e \<noteq> IPSEC_ERR_VICI_COMMAND \<longrightarrow> iSocket c' < 0)))"
  using Execute_no_fault [OF assms(1,4) assms(5,6) [THEN total_keeps] TrueI TrueI]
    Execute_releases [OF assms(1-4) assms(5,6) [THEN total_keeps] TrueI TrueI] by blast

definition idle_command :: "os_script \<Rightarrow> command" where
  "idle_command os = \<lparr>iSocket = - 1, acSocketPath = 47 # replicate 107 0, uiConnectTimeoutMs = 3000,
     uiCommandTimeoutMs = 10000, ullCommandDeadlineMs = 0, iTransportCancelFd = - 1,
     script = os, wire_out = [], wire_in = [], bActive = False, bClosing = False,
     Last = \<lparr>dg_eError = IPSEC_OK, dg_eStage = IPSEC_STAGE_NONE, dg_bOutcomeUnknown = False,
             dg_acCommand = replicate 64 0, dg_acMessage = replicate 256 0\<rparr>,
     freed = [], logged = []\<rparr>"

text \<open>A run in which the slot is free and the daemon's socket refuses access.\<close>

definition refused_command :: command where
  "refused_command = idle_command [AClock (Some (0, 5000000)), ALock 0, AClock (Some (0, 5000000)),
     ASocket (- 1) EACCES, ALock 0]"

lemma idle_command_ok:
  "path_ok (idle_command os)" "ullCommandDeadlineMs (idle_command os) = 0" "iTransportCancelFd (idle_command os) = - 1"
  by (simp_all add: idle_command_def path_ok_def IPSEC_VICI_SOCKET_PATH_LENGTH_def)

lemma no_callback [simp]: "callback_total None"
  by (simp add: callback_total_def)


lemma refused_run:
  "\<exists>res c'. ExecuteViciCommandUntil mem cmd req None ecb rcb u 0 (- 1) refused_command = Ret (IPSEC_ERR_PERMISSION, res, u, c')"
proof -
  obtain dC where dC: "copy_text 64 cmd = Ret dC"
    using copy_text_total [of 64 cmd] by auto
  have copy: "\<exists>d. copy_text 256 x = Ret d" for x
    using copy_text_total [of 256 x] by auto
  obtain dM where dM: "copy_text 256 (report_text IPSEC_ERR_PERMISSION (final_result (request_sensitive req) zero_result)) = Ret dM"
    using copy by blast
  show ?thesis
    by (simp add: ExecuteViciCommandUntil_def refused_command_def idle_command_def read_clock_def
        GetIpsecMonotonicMilliseconds_def AcquireViciCommand_def read_lock_def slot_loop.simps IsViciWaitCancelled_def
        command_limit_def command_steps_def connect_step_def initial_progress_def ConnectViciTransport_def cstr_def
        read_socket_def connect_error_def close_on_error_def DisconnectViciTransport_def finish_stream_def
        conclude_command_def final_error_def refused_def dC dM destroy_local_def DestroyViciBuffer_def empty_ViciBuffer_def
        forget_deadline_def Let_def)
qed

theorem ExecuteViciCommandUntil_releases_witness:
  "\<exists>res u' c'. ExecuteViciCommandUntil (\<lambda>_ _. None) (lit ''version'') None None
       (None :: unit message_callback option) None () 0 (- 1) refused_command = Ret (IPSEC_ERR_PERMISSION, res, u', c')
     \<and> path_ok c' \<and> ullCommandDeadlineMs c' = 0 \<and> iTransportCancelFd c' = - 1
     \<and> (dg_eStage (Last c') = IPSEC_STAGE_QUEUE \<or> iSocket c' < 0)"
proof -
  have req: "message_wf None" by (simp add: message_wf_def)
  note holds = ExecuteViciCommandUntil_releases [OF idle_command_ok req no_callback no_callback]
  obtain res c' where run: "ExecuteViciCommandUntil (\<lambda>_ _. None) (lit ''version'') None None
       (None :: unit message_callback option) None () 0 (- 1) refused_command = Ret (IPSEC_ERR_PERMISSION, res, (), c')"
    using refused_run [of "\<lambda>_ _. None" "lit ''version''" None None None "()"] by blast
  from conjunct2 [OF holds, rule_format, OF run [unfolded refused_command_def]] run show ?thesis
    by auto
qed


section \<open>Secrets\<close>

lemma error_strings: "0 \<notin> set (lit (GetIpsecErrorString e)) \<and> length (GetIpsecErrorString e) < 256"
  by (cases e) (simp_all add: lit_def)

lemma sensitive_report:
  assumes "copy_text 256 (report_text e (final_result True r)) = Ret acM"
  shows "cstr acM = lit (GetIpsecErrorString e)"
proof -
  let ?t = "lit (GetIpsecErrorString e)"
  have t: "0 \<notin> set ?t" "length ?t < 256" using error_strings [of e] by simp_all
  have "report_text e (final_result True r) = ?t @ [0]"
    by (simp add: report_text_def final_result_def VICI_ERROR_MESSAGE_LENGTH_def)
  moreover have "cstr (?t @ [0]) = ?t"
    using t(1) by (simp add: cstr_nonzero_append)
  ultimately show ?thesis
    using copy_text_total [of 256 "?t @ [0]"] assms t(2) by (simp add: strlen_def)
qed

text \<open>The end of a command with a secret request: nothing of the daemon's text, and only blank blocks.\<close>

definition discreet :: "bytes option \<Rightarrow> command \<Rightarrow> IpsecError \<Rightarrow> ViciCommandResult \<Rightarrow> command \<Rightarrow> bool" where
  "discreet name c e res c' \<longleftrightarrow> (\<forall>x \<in> set (acErrorMessage res). x = 0)
     \<and> (e \<noteq> IPSEC_OK \<longrightarrow> e = IPSEC_ERR_INTERNAL \<and> Last c' = Last c
          \<or> cstr (dg_acMessage (Last c')) = lit (GetIpsecErrorString e))
     \<and> (\<exists>new. logged c' = new @ logged c \<and> (\<forall>(_, m) \<in> set new. cstr m = lit (GetIpsecErrorString IPSEC_ERR_VICI_COMMAND)))
     \<and> (name = None \<longrightarrow> (\<exists>blocks. freed c' = blocks @ freed c \<and> (\<forall>blk \<in> set blocks. \<forall>x \<in> set blk. x = 0)))"

lemma sensitive_end:
  assumes conc: "conclude_command cmd True acq (e1, p, c2) = Ret (e, res, u', c')"
    and rel: "releasable True (pr_Packet p)" and log: "logged c2 = logged c"
    and free: "\<exists>ys. freed c2 = ys @ freed c \<and> (name = None \<longrightarrow> blank ys)"
  shows "discreet name c e res c'"
  using conc
proof (rule conclude_Ret)
  let ?ok = "\<lambda>m. cstr m = lit (GetIpsecErrorString IPSEC_ERR_VICI_COMMAND)"
  fix c3 os acC acM d
  assume d: "destroy_local (pr_Packet p) c2 = Ret c3" "res = final_result True (pr_result p)" "e = final_error e1 res"
    "e \<noteq> IPSEC_OK \<Longrightarrow> copy_text 256 (report_text e res) = Ret acM"
    "d = command_diagnostic e1 res p acC acM"
    "c' = log_refusal cmd d (publish acq d os (forget_deadline acq c3))"
  have msg: "e \<noteq> IPSEC_OK \<Longrightarrow> cstr acM = lit (GetIpsecErrorString e)"
    using d(2,4) sensitive_report by simp
  have dgm: "dg_acMessage d = acM" "dg_eError d = e"
    by (simp_all add: d(3,5) command_diagnostic_def)
  obtain xs where xs: "c3 = c2\<lparr>freed := xs @ freed c2\<rparr>" "blank xs"
    using d(1) rel by (elim destroy_local_Ret) auto
  have "logged c' = (if e = IPSEC_ERR_VICI_COMMAND then [(cmd, acM)] else []) @ logged c"
    using xs log by (simp add: d(6) dgm)
  then have logs: "\<exists>new. logged c' = new @ logged c \<and> (\<forall>(_, m) \<in> set new. ?ok m)"
    using msg by (intro exI [of _ "if e = IPSEC_ERR_VICI_COMMAND then [(cmd, acM)] else []"]) auto
  obtain ys where "freed c2 = ys @ freed c" "name = None \<longrightarrow> blank ys" using free by blast
  with xs have "name = None \<longrightarrow> (\<exists>blocks. freed c' = blocks @ freed c \<and> blank blocks)"
    by (intro impI exI [of _ "xs @ ys"]) (simp add: d(6))
  then have "name = None \<longrightarrow> (\<exists>blocks. freed c' = blocks @ freed c \<and> (\<forall>blk \<in> set blocks. \<forall>x \<in> set blk. x = 0))"
    by (auto simp: blank_def)
  moreover have "e \<noteq> IPSEC_OK \<longrightarrow> cstr (dg_acMessage (Last c')) = lit (GetIpsecErrorString e)"
    using msg by (simp add: d(6) dgm)
  ultimately show ?thesis
    using logs d(2) by (simp add: discreet_def final_result_def)
qed

lemma sensitive_run:
  assumes "path_ok c" and "message_wf req" and "callback_keeps W P ecb" and "callback_keeps W P rcb" and "W u" and "P u"
    and "request_sensitive req"
    and "ExecuteViciCommandUntil mem cmd req name ecb rcb u dl fd c = Ret (e, res, u', c')"
  shows "discreet name c e res c'"
  using assms(8)
proof (cases rule: Execute_cases [OF assms(1-6) refl, consumes 1, case_names clock queue ran])
  case (clock os)
  then show ?thesis by (simp add: discreet_def zero_result_def)
next
  case (queue c1 e1)
  then show ?thesis
    using sensitive_end [of cmd False e1 "initial_progress u" c1 e res u' c' c name] assms(7) slot_of_fields [OF queue(1)]
    by (simp add: initial_progress_def)
next
  case (ran c1 dl1 e1 p c2)
  let ?c0 = "c1\<lparr>ullCommandDeadlineMs := dl1, iTransportCancelFd := fd\<rparr>"
  have q: "quiet (name = None) ?c0 c2" "releasable True (pr_Packet p)"
    using ran(2) assms(7) by (auto simp: closing_inv_def)
  have "core_of c2 = core_of ?c0" using q(1) by (simp add: quiet_def)
  then have "logged c2 = logged c"
    using core_fields(6) [of c2 ?c0] slot_of_fields(5) [OF ran(1)] by simp
  moreover have "\<exists>ys. freed c2 = ys @ freed c \<and> (name = None \<longrightarrow> blank ys)"
    using q(1) slot_of_fields(6) [OF ran(1)] by (auto simp: quiet_def)
  ultimately show ?thesis
    using sensitive_end [of cmd True e1 p c2 e res u' c' c name] ran(4) q(2) assms(7) by simp
qed

text \<open>
  C1. A command whose request carries a secret reveals nothing the daemon may have echoed. The error text in
  the result is all zero, the diagnostic and the logger get the library's own text for the error, and,
  when no event was registered, every block of memory that the command gave back to the allocator, for
  the request as for every received packet, had been wiped.
\<close>

theorem sensitive_command_reveals_nothing:
  assumes "path_ok c" and "message_wf req" and "callback_total ecb" and "callback_total rcb"
    and "request_sensitive req"
    and "ExecuteViciCommandUntil mem cmd req name ecb rcb u dl fd c = Ret (e, res, u', c')"
  shows "(\<forall>x \<in> set (acErrorMessage res). x = 0)
     \<and> (e \<noteq> IPSEC_OK \<longrightarrow> e = IPSEC_ERR_INTERNAL \<and> Last c' = Last c
          \<or> cstr (dg_acMessage (Last c')) = lit (GetIpsecErrorString e))
     \<and> (\<exists>new. logged c' = new @ logged c \<and> (\<forall>(_, m) \<in> set new. cstr m = lit (GetIpsecErrorString IPSEC_ERR_VICI_COMMAND)))
     \<and> (name = None \<longrightarrow> (\<exists>blocks. freed c' = blocks @ freed c \<and> (\<forall>blk \<in> set blocks. \<forall>x \<in> set blk. x = 0)))"
  using sensitive_run [OF assms(1,2) assms(3,4) [THEN total_keeps] TrueI TrueI assms(5,6)] unfolding discreet_def .

definition secret_request :: ViciBuffer where
  "secret_request = empty_ViciBuffer\<lparr>bSensitive := True\<rparr>"

theorem sensitive_command_reveals_nothing_witness:
  "\<exists>e res u' c'. path_ok refused_command \<and> message_wf (Some secret_request) \<and> request_sensitive (Some secret_request) \<and>
     ExecuteViciCommandUntil (\<lambda>_ _. None) (lit ''load-shared'') (Some secret_request) None
       (None :: unit message_callback option) None () 0 (- 1) refused_command = Ret (e, res, u', c') \<and>
     (\<forall>x \<in> set (acErrorMessage res). x = 0)
     \<and> (e \<noteq> IPSEC_OK \<longrightarrow> e = IPSEC_ERR_INTERNAL \<and> Last c' = Last refused_command
          \<or> cstr (dg_acMessage (Last c')) = lit (GetIpsecErrorString e))
     \<and> (\<exists>new. logged c' = new @ logged refused_command
          \<and> (\<forall>(_, m) \<in> set new. cstr m = lit (GetIpsecErrorString IPSEC_ERR_VICI_COMMAND)))"
proof -
  have req: "message_wf (Some secret_request)" "request_sensitive (Some secret_request)"
    by (simp_all add: message_wf_def secret_request_def buf_wf_def empty_ViciBuffer_def request_sensitive_def)
  have path: "path_ok refused_command" by (simp add: refused_command_def idle_command_ok)
  obtain res c' where r: "ExecuteViciCommandUntil (\<lambda>_ _. None) (lit ''load-shared'') (Some secret_request) None
      (None :: unit message_callback option) None () 0 (- 1) refused_command = Ret (IPSEC_ERR_PERMISSION, res, (), c')"
    using refused_run [of "\<lambda>_ _. None" "lit ''load-shared''" "Some secret_request" None None "()"] by blast
  from sensitive_command_reveals_nothing [OF path req(1) no_callback no_callback req(2) r] req path r
  show ?thesis by blast
qed

end
