(* ===== verification/Vici_Wait.thy ===== *)
theory Vici_Wait
  imports Vici_Command
begin

text \<open>
  Waiting for changes of security associations, \<open>src/ike/vici/vici_wait.c\<close>. A wait owns a connection
  for events and a pair of sockets through which it is cancelled, and is entered in the list of its
  context while it lasts. The first half models the operations on one thread; a waiter carries the
  script of its system calls in its event connection. The second half is the protocol of the threads
  that share the command slot and the list.
\<close>

section \<open>Waiters\<close>

text \<open>
  The part of \<open>IpsecCommandState\<close> the mutex protects. The linked list is the list of its entries: the
  identity of a waiter and the socket that cancels it.
\<close>

record IpsecCommandState =
  cs_bActive :: bool
  cs_bClosing :: bool
  cs_pWaiters :: "(nat \<times> int) list"

text \<open>\<open>wt_open\<close> is a ghost: whether the two cancellation sockets are open.\<close>

record ViciWaiter =
  wt_aiCancelSockets :: "int \<times> int"
  wt_EventContext :: transport
  wt_ullDeadlineMs :: nat
  wt_bPolling :: bool
  wt_open :: bool

definition zero_transport :: "os_script \<Rightarrow> transport" where
  "zero_transport os = \<lparr>iSocket = - 1, acSocketPath = replicate IPSEC_VICI_SOCKET_PATH_LENGTH 0,
     uiConnectTimeoutMs = 0, uiCommandTimeoutMs = 0, ullCommandDeadlineMs = 0, iTransportCancelFd = 0,
     script = os, wire_out = [], wire_in = []\<rparr>"

definition zero_waiter :: "os_script \<Rightarrow> ViciWaiter" where
  "zero_waiter os = \<lparr>wt_aiCancelSockets = (- 1, - 1), wt_EventContext = zero_transport os,
     wt_ullDeadlineMs = 0, wt_bPolling = False, wt_open = False\<rparr>"

definition BeginViciWait ::
  "nat \<Rightarrow> 'a transport_scheme \<Rightarrow> nat \<Rightarrow> os_script \<Rightarrow> IpsecCommandState \<Rightarrow> (IpsecError \<times> ViciWaiter \<times> IpsecCommandState) exec" where
  "BeginViciWait w ctx ullDeadlineMs os cs =
     exec_bind (read_socketpair os) (\<lambda>(r, fd0, fd1, os).
       if r \<noteq> 0 then Ret (IPSEC_ERR_VICI_TRANSPORT, zero_waiter os, cs)
       else exec_bind (read_lock os) (\<lambda>(r, os).
         let p = (zero_waiter os)\<lparr>wt_aiCancelSockets := (fd0, fd1)\<rparr> in
         if r \<noteq> 0 then Ret (IPSEC_ERR_INTERNAL, p, cs)
         else if cs_bClosing cs then Ret (IPSEC_ERR_CANCELLED, p, cs)
         else Ret (IPSEC_OK,
           p\<lparr>wt_EventContext := (zero_transport os)\<lparr>acSocketPath := acSocketPath ctx,
               uiConnectTimeoutMs := uiConnectTimeoutMs ctx, uiCommandTimeoutMs := uiCommandTimeoutMs ctx,
               iTransportCancelFd := fd0\<rparr>,
             wt_ullDeadlineMs := ullDeadlineMs, wt_open := True\<rparr>,
           cs\<lparr>cs_pWaiters := (w, fd1) # cs_pWaiters cs\<rparr>)))"

fun unlink_waiter :: "nat \<Rightarrow> (nat \<times> int) list \<Rightarrow> (nat \<times> int) list" where
  "unlink_waiter w [] = []"
| "unlink_waiter w (x # xs) = (if fst x = w then xs else x # unlink_waiter w xs)"

definition EndViciWait :: "nat \<Rightarrow> ViciWaiter \<Rightarrow> IpsecCommandState \<Rightarrow> ViciWaiter \<times> IpsecCommandState" where
  "EndViciWait w p cs =
     (p\<lparr>wt_EventContext := DisconnectViciTransport (wt_EventContext p), wt_open := False\<rparr>,
      cs\<lparr>cs_pWaiters := unlink_waiter w (cs_pWaiters cs)\<rparr>)"

section \<open>Events\<close>

text \<open>The deadline of the next frame: one command timeout from now, but not beyond the wait itself.\<close>

definition SetViciWaitFrameDeadline :: "nat \<Rightarrow> transport \<Rightarrow> transport exec" where
  "SetViciWaitFrameDeadline ullDeadlineMs t =
     exec_bind (read_clock (script t)) (\<lambda>(ullNowMs, os).
       let ullLimitMs = (ullNowMs + uiCommandTimeoutMs t) mod 2 ^ 64
       in Ret (t\<lparr>script := os, ullCommandDeadlineMs := (if ullLimitMs < ullDeadlineMs then ullLimitMs else ullDeadlineMs)\<rparr>))"

definition sa_event_names :: "bytes list" where
  "sa_event_names = map lit [''ike-updown'', ''ike-rekey'', ''child-updown'', ''child-rekey'']"

definition ValidateViciSaEvent :: "ViciPacketView \<Rightarrow> IpsecError option" where
  "ValidateViciSaEvent v =
     (if vw_eType v \<noteq> VICI_PACKET_EVENT then Some IPSEC_ERR_VICI_PROTOCOL
      else if list_ex (\<lambda>n. vw_pucName v = Some n) sa_event_names
      then map_option fst (ParseViciMessage (Some (vw_pucMessage v)) (of_nat (length (vw_pucMessage v)))
             (None :: unit callback option) ())
      else Some IPSEC_ERR_VICI_PROTOCOL)"

text \<open>One packet while a registration is pending: \<open>None\<close> inside keeps waiting.\<close>

definition registration_packet :: "ViciPacketView result \<Rightarrow> (IpsecError option) option" where
  "registration_packet r = (case r of Inl e \<Rightarrow> Some (Some e)
     | Inr v \<Rightarrow>
         if vw_eType v = VICI_PACKET_EVENT_CONFIRM then Some (Some IPSEC_OK)
         else if vw_eType v = VICI_PACKET_EVENT_UNKNOWN then Some (Some IPSEC_ERR_NOT_SUPPORTED)
         else map_option (\<lambda>e. if e = IPSEC_OK then None else Some e) (ValidateViciSaEvent v))"

function register_loop :: "memory \<Rightarrow> transport \<Rightarrow> (IpsecError \<times> transport) exec" where
  "register_loop mem t =
     (case ReceiveViciTransportPacket (mem (length (script t))) t empty_ViciBuffer of
        Blocked \<Rightarrow> Blocked | Fault \<Rightarrow> Fault
      | Ret (e, Response, t1) \<Rightarrow>
          if e \<noteq> IPSEC_OK then exec_bind (lift_option (DestroyViciBuffer Response)) (\<lambda>_. Ret (e, t1))
          else
            (case exec_bind (decode_buffer Response) (\<lambda>r. lift_option (registration_packet r)) of
               Blocked \<Rightarrow> Blocked | Fault \<Rightarrow> Fault
             | Ret answer \<Rightarrow>
                 (case DestroyViciBuffer Response of None \<Rightarrow> Fault
                  | Some _ \<Rightarrow> (case answer of Some e \<Rightarrow> Ret (e, t1) | None \<Rightarrow> register_loop mem t1))))"
  by pat_completeness auto
termination
  by (relation "measure (\<lambda>(mem, t). length (script t))") (auto dest!: Receive_consumes sym [of "Ret _"])

declare register_loop.simps [simp del]

definition RegisterViciSaEvent :: "memory \<Rightarrow> nat \<Rightarrow> bytes \<Rightarrow> transport \<Rightarrow> (IpsecError \<times> transport) exec" where
  "RegisterViciSaEvent mem ullDeadlineMs pcName t =
     exec_bind (lift_option (BuildViciNamedPacket (mem (length (script t))) VICI_PACKET_EVENT_REGISTER
         (Some pcName) None empty_ViciBuffer)) (\<lambda>(e, Request).
       exec_bind (SetViciWaitFrameDeadline ullDeadlineMs t) (\<lambda>t.
         exec_bind (if e \<noteq> IPSEC_OK then Ret (e, t)
                    else on_ok (SendViciTransportPacket t Request) (register_loop mem)) (\<lambda>(e, t).
           exec_bind (lift_option (DestroyViciBuffer Request)) (\<lambda>_. Ret (e, t)))))"

definition SubscribeViciSaEvents :: "memory \<Rightarrow> bool \<Rightarrow> ViciWaiter \<Rightarrow> (IpsecError \<times> ViciWaiter) exec" where
  "SubscribeViciSaEvents mem bChild p =
     exec_bind (SetViciWaitFrameDeadline (wt_ullDeadlineMs p) (wt_EventContext p)) (\<lambda>t.
       exec_bind
         (on_ok (on_ok (ConnectViciTransport t)
            (RegisterViciSaEvent mem (wt_ullDeadlineMs p) (lit (if bChild then ''child-updown'' else ''ike-updown''))))
            (RegisterViciSaEvent mem (wt_ullDeadlineMs p) (lit (if bChild then ''child-rekey'' else ''ike-rekey''))))
         (\<lambda>(e, t).
           if e = IPSEC_ERR_NOT_SUPPORTED
           then Ret (IPSEC_OK, p\<lparr>wt_EventContext := DisconnectViciTransport t, wt_bPolling := True\<rparr>)
           else if e \<noteq> IPSEC_OK then Ret (e, p\<lparr>wt_EventContext := DisconnectViciTransport t\<rparr>)
           else Ret (IPSEC_OK, p\<lparr>wt_EventContext := t\<rparr>)))"

definition VICI_COMPATIBILITY_POLL_MS :: nat where "VICI_COMPATIBILITY_POLL_MS = 250"

function pause_loop :: "nat \<Rightarrow> os_script \<Rightarrow> (IpsecError \<times> os_script) exec" where
  "pause_loop ullLimitMs os =
     (case read_clock os of Blocked \<Rightarrow> Blocked | Fault \<Rightarrow> Fault
      | Ret (ullNowMs, os1) \<Rightarrow>
          if ullLimitMs \<le> ullNowMs then Ret (IPSEC_OK, os1)
          else (case read_poll os1 of Blocked \<Rightarrow> Blocked | Fault \<Rightarrow> Fault
            | Ret (iResult, _, _, err, os2) \<Rightarrow>
                if iResult < 0 \<and> err = EINTR then pause_loop ullLimitMs os2
                else if 0 < iResult then Ret (IPSEC_ERR_CANCELLED, os2)
                else Ret (if iResult = 0 then IPSEC_OK else IPSEC_ERR_VICI_TRANSPORT, os2)))"
  by pat_completeness auto
termination
  by (relation "measure (\<lambda>(l, os). length os)") (auto simp: script_simps dest!: sym [of "Ret _"])

declare pause_loop.simps [simp del]

definition PauseViciWait :: "ViciWaiter \<Rightarrow> (IpsecError \<times> ViciWaiter) exec" where
  "PauseViciWait p =
     exec_bind (read_clock (script (wt_EventContext p))) (\<lambda>(ullNowMs, os).
       let ullLimitMs = (ullNowMs + VICI_COMPATIBILITY_POLL_MS) mod 2 ^ 64
       in exec_bind (pause_loop (min ullLimitMs (wt_ullDeadlineMs p)) os) (\<lambda>(e, os).
            Ret (e, p\<lparr>wt_EventContext := (wt_EventContext p)\<lparr>script := os\<rparr>\<rparr>)))"

definition receive_change :: "memory \<Rightarrow> nat \<Rightarrow> transport \<Rightarrow> (IpsecError \<times> transport) exec" where
  "receive_change mem ullDeadlineMs t =
     on_ok (WaitViciTransportReadable t ullDeadlineMs) (\<lambda>t.
       exec_bind (SetViciWaitFrameDeadline ullDeadlineMs t) (\<lambda>t.
         exec_bind (ReceiveViciTransportPacket (mem (length (script t))) t empty_ViciBuffer) (\<lambda>(e, Packet, t).
           exec_bind
             (if e \<noteq> IPSEC_OK then Ret e
              else exec_bind (decode_buffer Packet) (\<lambda>r. case r of Inl e \<Rightarrow> Ret e | Inr v \<Rightarrow> lift_option (ValidateViciSaEvent v)))
             (\<lambda>e. exec_bind (lift_option (DestroyViciBuffer Packet)) (\<lambda>_. Ret (e, t))))))"

definition ReceiveViciSaChange :: "memory \<Rightarrow> ViciWaiter \<Rightarrow> (IpsecError \<times> ViciWaiter) exec" where
  "ReceiveViciSaChange mem p =
     (if wt_bPolling p then PauseViciWait p
      else exec_bind (receive_change mem (wt_ullDeadlineMs p) (wt_EventContext p)) (\<lambda>(e, t).
        Ret (e, p\<lparr>wt_EventContext := (if e \<noteq> IPSEC_OK then DisconnectViciTransport t else t)\<rparr>)))"

section \<open>Event channels\<close>

lemma conf_path: "conf_of t' = conf_of t \<Longrightarrow> path_ok t' = path_ok t"
  by (simp add: path_ok_def conf_of_fields(1) [of t' t])

lemma Connect_path: "path_ok t \<Longrightarrow> keeps path_ok (ConnectViciTransport t)"
  using Connect_spec [of t] by (auto simp: keeps_def path_ok_def connect_post_def dest!: conf_of_fields(1))

lemma Send_path: "path_ok t \<Longrightarrow> buf_wf b \<Longrightarrow> keeps path_ok (SendViciTransportPacket t b)"
  using Send_spec [of t b] by (auto simp: keeps_def path_ok_def send_post_def dest!: conf_of_fields(1))

lemma Deadline_path: "\<exists>r. SetViciWaitFrameDeadline dl t = r \<and> r \<noteq> Fault \<and> (\<forall>t'. r = Ret t' \<longrightarrow> path_ok t' = path_ok t \<and> iSocket t' = iSocket t)"
  by (auto simp: SetViciWaitFrameDeadline_def exec_bind_Fault exec_bind_Ret Let_def path_ok_def)

lemma Receive_event:
  shows "ReceiveViciTransportPacket heap t empty_ViciBuffer \<noteq> Fault"
    and "ReceiveViciTransportPacket heap t empty_ViciBuffer = Ret (e, b, t') \<Longrightarrow>
      path_ok t' = path_ok t \<and> (\<exists>d. DestroyViciBuffer b = Some d) \<and> (e = IPSEC_OK \<longrightarrow> 0 \<le> iSocket t')
      \<and> (e \<noteq> IPSEC_OK \<longrightarrow> iSocket t' < 0)"
proof -
  show "ReceiveViciTransportPacket heap t empty_ViciBuffer \<noteq> Fault"
    using Receive_spec(1) [OF fresh_empty, of t heap] by (cases "0 \<le> iSocket t") (auto simp: ReceiveViciTransportPacket_def)
  assume r: "ReceiveViciTransportPacket heap t empty_ViciBuffer = Ret (e, b, t')"
  show "path_ok t' = path_ok t \<and> (\<exists>d. DestroyViciBuffer b = Some d) \<and> (e = IPSEC_OK \<longrightarrow> 0 \<le> iSocket t')
      \<and> (e \<noteq> IPSEC_OK \<longrightarrow> iSocket t' < 0)"
  proof (cases "0 \<le> iSocket t")
    case False
    with r show ?thesis by (auto simp: ReceiveViciTransportPacket_def fresh_destroy)
  next
    case True
    from Receive_spec(2) [OF fresh_empty True r] show ?thesis
      using conf_path [of t' t] secret_destroy [of b] fresh_destroy [of b] by (auto split: if_splits)
  qed
qed

lemma Validate_total:
  assumes "length (vw_pucMessage v) \<le> UINT32_MAX"
  shows "\<exists>e. ValidateViciSaEvent v = Some e"
proof -
  let ?m = "vw_pucMessage v"
  have "unat (of_nat (length ?m) :: u32) \<le> length ?m"
    using assms by (simp add: unat_of_nat take_bit_nat_def)
  from Parse_total [OF this, of "None :: unit callback option" "()"] show ?thesis
    by (auto simp: ValidateViciSaEvent_def)
qed

lemma registration_packet_total:
  assumes "\<forall>v. r = Inr v \<longrightarrow> length (vw_pucMessage v) \<le> UINT32_MAX"
  shows "\<exists>a. registration_packet r = Some a"
proof (cases r)
  case (Inr v)
  then obtain e where "ValidateViciSaEvent v = Some e"
    using assms Validate_total by blast
  with Inr show ?thesis by (simp add: registration_packet_def)
qed (simp add: registration_packet_def)

lemma register_loop_spec:
  assumes "path_ok t"
  shows "register_loop mem t \<noteq> Fault \<and> (\<forall>e t'. register_loop mem t = Ret (e, t') \<longrightarrow>
     path_ok t' \<and> (e = IPSEC_OK \<longrightarrow> 0 \<le> iSocket t'))"
  using assms
proof (induction "length (script t)" arbitrary: t rule: less_induct)
  case less
  let ?recv = "ReceiveViciTransportPacket (mem (length (script t))) t empty_ViciBuffer"
  note unf = register_loop.simps [of mem t]
  show ?case
  proof (cases ?recv)
    case (Ret x)
    then obtain e b t1 where r: "?recv = Ret (e, b, t1)" by (cases x) auto
    note post = Receive_event(2) [OF r]
    obtain d where d: "DestroyViciBuffer b = Some d" using post by blast
    show ?thesis
    proof (cases "e = IPSEC_OK")
      case False
      with r d post less.prems show ?thesis by (simp add: unf)
    next
      case True
      obtain v where v: "decode_buffer b = Ret v" "\<forall>w. v = Inr w \<longrightarrow> length (vw_pucMessage w) \<le> UINT32_MAX"
        using Receive_decodes r True by blast
      obtain a where a: "registration_packet v = Some a"
        using registration_packet_total [OF v(2)] by blast
      have small: "length (script t1) < length (script t)"
        using Receive_consumes r True by blast
      show ?thesis
        using less.hyps [OF small] r True d post less.prems v(1) a by (cases a) (auto simp: unf)
    qed
  qed (use Receive_event(1) in \<open>auto simp: unf\<close>)
qed

lemma Register_spec:
  assumes path: "path_ok t"
  shows "RegisterViciSaEvent mem dl name t \<noteq> Fault \<and> (\<forall>e t'. RegisterViciSaEvent mem dl name t = Ret (e, t') \<longrightarrow>
     path_ok t' \<and> (e = IPSEC_OK \<longrightarrow> 0 \<le> iSocket t'))"
proof -
  obtain e p where b: "BuildViciNamedPacket (mem (length (script t))) VICI_PACKET_EVENT_REGISTER (Some name) None
      empty_ViciBuffer = Some (e, p)" "releasable False p"
    using Build_buffers_total [of None "mem (length (script t))" VICI_PACKET_EVENT_REGISTER name]
    by (auto simp: message_wf_def request_sensitive_def)
  obtain d where d: "DestroyViciBuffer p = Some d"
    using Destroy_releasable [OF b(2)] by blast
  have mid: "on_ok (SendViciTransportPacket t1 p) (register_loop mem) \<noteq> Fault \<and>
      (\<forall>e t'. on_ok (SendViciTransportPacket t1 p) (register_loop mem) = Ret (e, t') \<longrightarrow>
        path_ok t' \<and> (e = IPSEC_OK \<longrightarrow> 0 \<le> iSocket t'))" if "path_ok t1" for t1
    using Send_path [OF that releasable_wf [OF b(2)]] register_loop_spec
    by (auto simp: keeps_def on_ok_Fault on_ok_Ret)
  show ?thesis
    using Deadline_path [of dl t] mid path
    by (auto simp: RegisterViciSaEvent_def b(1) d exec_bind_Fault exec_bind_Ret split: if_splits)
qed

lemma subscribe_run:
  assumes "path_ok t"
  shows "runs (\<lambda>(e, t'). path_ok t' \<and> (e = IPSEC_OK \<longrightarrow> 0 \<le> iSocket t'))
    (on_ok (on_ok (ConnectViciTransport t) (RegisterViciSaEvent mem dl a)) (RegisterViciSaEvent mem dl b))"
proof -
  have one: "keeps path_ok (on_ok (ConnectViciTransport t) (RegisterViciSaEvent mem dl a))"
    by (rule keeps_on_ok [OF Connect_path [OF assms]]) (use Register_spec in \<open>auto simp: keeps_def\<close>)
  show ?thesis
    using keeps_no_fault [OF one] keeps_Ret [OF one] Register_spec
    by (auto simp: runs_def on_ok_Fault [of "on_ok _ _"] on_ok_Ret [of "on_ok _ _"])
qed

lemma Disconnect_path [simp]: "path_ok (DisconnectViciTransport t) = path_ok t"
  by (simp add: DisconnectViciTransport_def path_ok_def)

text \<open>What a subscription does, also to a waiter that polls already.\<close>

lemma Subscribe_runs:
  assumes "path_ok (wt_EventContext p)"
  shows "runs (\<lambda>(e, p'). path_ok (wt_EventContext p') \<and> wt_ullDeadlineMs p' = wt_ullDeadlineMs p
        \<and> wt_aiCancelSockets p' = wt_aiCancelSockets p \<and> wt_open p' = wt_open p
        \<and> (if e = IPSEC_OK then \<not> wt_bPolling p \<longrightarrow> wt_bPolling p' = (iSocket (wt_EventContext p') < 0)
           else wt_bPolling p' = wt_bPolling p \<and> iSocket (wt_EventContext p') < 0))
     (SubscribeViciSaEvents mem bChild p)"
    (is "runs ?post _")
  unfolding SubscribeViciSaEvents_def
proof (rule runs_call)
  show "SetViciWaitFrameDeadline (wt_ullDeadlineMs p) (wt_EventContext p) \<noteq> Fault"
    using Deadline_path [of "wt_ullDeadlineMs p" "wt_EventContext p"] by blast
  fix t
  assume "SetViciWaitFrameDeadline (wt_ullDeadlineMs p) (wt_EventContext p) = Ret t"
  then have t: "path_ok t" using Deadline_path [of "wt_ullDeadlineMs p" "wt_EventContext p"] assms by simp
  show "runs ?post (exec_bind
       (on_ok (on_ok (ConnectViciTransport t)
          (RegisterViciSaEvent mem (wt_ullDeadlineMs p) (lit (if bChild then ''child-updown'' else ''ike-updown''))))
          (RegisterViciSaEvent mem (wt_ullDeadlineMs p) (lit (if bChild then ''child-rekey'' else ''ike-rekey''))))
       (\<lambda>(e, t). if e = IPSEC_ERR_NOT_SUPPORTED
           then Ret (IPSEC_OK, p\<lparr>wt_EventContext := DisconnectViciTransport t, wt_bPolling := True\<rparr>)
           else if e \<noteq> IPSEC_OK then Ret (e, p\<lparr>wt_EventContext := DisconnectViciTransport t\<rparr>)
           else Ret (IPSEC_OK, p\<lparr>wt_EventContext := t\<rparr>)))"
    by (rule runs_bind [OF subscribe_run [OF t]]) (auto simp: DisconnectViciTransport_def path_ok_def)
qed

text \<open>
  Subscribing to the events of a wait never faults and ends in one of three states: on success
  with both events registered on an open channel; on success with the compatibility poll, chosen only
  when the daemon answered that it does not know the event, and then without a channel; or with an
  error, without a channel and without the poll. The answers of the daemon, of the system and of the
  allocator are arbitrary.
\<close>

theorem SubscribeViciSaEvents_channel:
  assumes "path_ok (wt_EventContext p)" and "\<not> wt_bPolling p"
  shows "SubscribeViciSaEvents mem bChild p \<noteq> Fault \<and>
     (\<forall>e p'. SubscribeViciSaEvents mem bChild p = Ret (e, p') \<longrightarrow>
        path_ok (wt_EventContext p') \<and> wt_ullDeadlineMs p' = wt_ullDeadlineMs p
        \<and> wt_aiCancelSockets p' = wt_aiCancelSockets p \<and> wt_open p' = wt_open p \<and>
        (if e = IPSEC_OK then wt_bPolling p' = (iSocket (wt_EventContext p') < 0)
         else \<not> wt_bPolling p' \<and> iSocket (wt_EventContext p') < 0))"
proof (rule conjI)
  note run = Subscribe_runs [OF assms(1), of mem bChild]
  then show "SubscribeViciSaEvents mem bChild p \<noteq> Fault" by (simp add: runs_def)
  show "\<forall>e p'. SubscribeViciSaEvents mem bChild p = Ret (e, p') \<longrightarrow>
        path_ok (wt_EventContext p') \<and> wt_ullDeadlineMs p' = wt_ullDeadlineMs p
        \<and> wt_aiCancelSockets p' = wt_aiCancelSockets p \<and> wt_open p' = wt_open p \<and>
        (if e = IPSEC_OK then wt_bPolling p' = (iSocket (wt_EventContext p') < 0)
         else \<not> wt_bPolling p' \<and> iSocket (wt_EventContext p') < 0)"
  proof (intro allI impI)
    fix e p'
    assume "SubscribeViciSaEvents mem bChild p = Ret (e, p')"
    from runs_Ret [OF run this] assms(2) show "path_ok (wt_EventContext p') \<and> wt_ullDeadlineMs p' = wt_ullDeadlineMs p
        \<and> wt_aiCancelSockets p' = wt_aiCancelSockets p \<and> wt_open p' = wt_open p \<and>
        (if e = IPSEC_OK then wt_bPolling p' = (iSocket (wt_EventContext p') < 0)
         else \<not> wt_bPolling p' \<and> iSocket (wt_EventContext p') < 0)" by simp
  qed
qed

theorem SubscribeViciSaEvents_channel_witness:
  "let p = (zero_waiter [])\<lparr>wt_EventContext :=
       idle_transport [AClock (Some (0, 5000000)), ASocket (- 1) EACCES]\<rparr>
   in \<exists>p'. SubscribeViciSaEvents (\<lambda>_ _. None) True p = Ret (IPSEC_ERR_PERMISSION, p')
     \<and> path_ok (wt_EventContext p') \<and> \<not> wt_bPolling p' \<and> iSocket (wt_EventContext p') < 0"
proof -
  let ?p = "(zero_waiter [])\<lparr>wt_EventContext := idle_transport [AClock (Some (0, 5000000)), ASocket (- 1) EACCES]\<rparr>"
  have p: "path_ok (wt_EventContext ?p)" "\<not> wt_bPolling ?p"
    by (simp_all add: zero_waiter_def idle_transport_def path_ok_def IPSEC_VICI_SOCKET_PATH_LENGTH_def)
  have "\<exists>p'. SubscribeViciSaEvents (\<lambda>_ _. None) True ?p = Ret (IPSEC_ERR_PERMISSION, p')"
    by (simp add: SubscribeViciSaEvents_def zero_waiter_def idle_transport_def SetViciWaitFrameDeadline_def read_clock_def
        GetIpsecMonotonicMilliseconds_def ConnectViciTransport_def cstr_def read_socket_def connect_error_def
        close_on_error_def DisconnectViciTransport_def Let_def)
  then obtain p' where run: "SubscribeViciSaEvents (\<lambda>_ _. None) True ?p = Ret (IPSEC_ERR_PERMISSION, p')" ..
  from conjunct2 [OF SubscribeViciSaEvents_channel [OF p], rule_format, OF run] run show ?thesis
    unfolding Let_def by auto
qed

section \<open>Waits begin and end\<close>

lemma unlink_head [simp]: "unlink_waiter w ((w, fd) # xs) = xs"
  by simp

lemma unlink_set: "set (unlink_waiter w xs) \<subseteq> set xs"
  by (induction xs) auto

lemma unlink_distinct: "distinct (map fst xs) \<Longrightarrow> distinct (map fst (unlink_waiter w xs))"
  by (induction xs) (use unlink_set in \<open>auto simp: image_iff\<close>)

lemma unlink_fresh: "distinct (map fst xs) \<Longrightarrow> w \<notin> fst ` set (unlink_waiter w xs)"
  by (induction xs) auto

lemma unlink_keeps: "x \<noteq> w \<Longrightarrow> x \<in> fst ` set (unlink_waiter w xs) \<longleftrightarrow> x \<in> fst ` set xs"
  by (induction xs) auto

text \<open>
  Beginning a wait and ending it leaves the list of waits as it was, and no descriptor behind: when
  beginning fails, for whatever reason, the list is unchanged and the cancellation sockets are closed;
  when it succeeds the wait is entered, is bound to the context's socket path and timeouts and to its
  own cancellation socket, and ending it removes exactly its entry and closes its channel and sockets.
  A context that is closing accepts no wait.
\<close>

theorem Begin_End_ViciWait:
  assumes "BeginViciWait w ctx dl os cs = Ret (e, p, cs')"
  shows "if e = IPSEC_OK
     then \<not> cs_bClosing cs \<and> cs' = cs\<lparr>cs_pWaiters := (w, snd (wt_aiCancelSockets p)) # cs_pWaiters cs\<rparr>
       \<and> wt_open p \<and> wt_ullDeadlineMs p = dl \<and> iTransportCancelFd (wt_EventContext p) = fst (wt_aiCancelSockets p)
       \<and> acSocketPath (wt_EventContext p) = acSocketPath ctx
       \<and> (\<forall>q p' cs''. wt_open q \<longrightarrow> EndViciWait w q cs' = (p', cs'') \<longrightarrow>
            cs'' = cs \<and> \<not> wt_open p' \<and> iSocket (wt_EventContext p') < 0)
     else cs' = cs \<and> \<not> wt_open p"
  using assms
  by (auto simp: BeginViciWait_def exec_bind_Ret Let_def zero_waiter_def zero_transport_def EndViciWait_def
      split: if_splits)

theorem Begin_End_ViciWait_witness:
  "\<exists>p cs'. BeginViciWait 1 (zero_transport []) 9 [ASocketpair 0 5 6, ALock 0]
       \<lparr>cs_bActive = False, cs_bClosing = False, cs_pWaiters = [(3, 8)]\<rparr> = Ret (IPSEC_OK, p, cs')
     \<and> cs_pWaiters cs' = [(1, snd (wt_aiCancelSockets p)), (3, 8)]
     \<and> snd (EndViciWait 1 p cs') = \<lparr>cs_bActive = False, cs_bClosing = False, cs_pWaiters = [(3, 8)]\<rparr>"
proof -
  let ?cs = "\<lparr>cs_bActive = False, cs_bClosing = False, cs_pWaiters = [(3, 8)]\<rparr>"
  obtain p cs' where r: "BeginViciWait 1 (zero_transport []) 9 [ASocketpair 0 5 6, ALock 0] ?cs = Ret (IPSEC_OK, p, cs')"
    by (simp add: BeginViciWait_def read_socketpair_def read_lock_def)
  then show ?thesis
    using Begin_End_ViciWait [OF r] by (cases "EndViciWait 1 p cs'") auto
qed

section \<open>Threads\<close>

text \<open>
  The sections of the code that run under the mutex, as functions of the shared state. A thread takes
  the slot in \<open>AcquireViciCommand\<close> and gives it back at the end of \<open>ExecuteViciCommandUntil\<close>; \<open>BeginViciWait\<close>
  and \<open>EndViciWait\<close> maintain the list; \<open>CloseViciWaits\<close> raises \<open>bClosing\<close>, then sleeps until the list is
  empty and the slot is free.
\<close>

definition take_slot :: "IpsecCommandState \<Rightarrow> IpsecCommandState option" where
  "take_slot cs = (if cs_bActive cs \<or> cs_bClosing cs then None else Some (cs\<lparr>cs_bActive := True\<rparr>))"

definition release_slot :: "IpsecCommandState \<Rightarrow> IpsecCommandState" where
  "release_slot cs = cs\<lparr>cs_bActive := False\<rparr>"

definition enter_wait :: "nat \<Rightarrow> int \<Rightarrow> IpsecCommandState \<Rightarrow> IpsecCommandState option" where
  "enter_wait w fd cs = (if cs_bClosing cs then None else Some (cs\<lparr>cs_pWaiters := (w, fd) # cs_pWaiters cs\<rparr>))"

definition start_close :: "IpsecCommandState \<Rightarrow> IpsecCommandState" where
  "start_close cs = cs\<lparr>cs_bClosing := True\<rparr>"

definition close_waits :: "IpsecCommandState \<Rightarrow> bool" where
  "close_waits cs \<longleftrightarrow> cs_pWaiters cs \<noteq> [] \<or> cs_bActive cs"

datatype close_phase = Running | Draining | Closed

text \<open>\<open>pt_holders\<close> is a ghost: the threads between taking and giving back the slot.\<close>

record protocol =
  pt_cs :: IpsecCommandState
  pt_holders :: "nat set"
  pt_phase :: close_phase

definition protocol_start :: protocol where
  "protocol_start = \<lparr>pt_cs = \<lparr>cs_bActive = False, cs_bClosing = False, cs_pWaiters = []\<rparr>, pt_holders = {}, pt_phase = Running\<rparr>"

inductive thread_step :: "protocol \<Rightarrow> protocol \<Rightarrow> bool" where
  acquire: "take_slot (pt_cs s) = Some cs \<Longrightarrow> thread_step s (s\<lparr>pt_cs := cs, pt_holders := insert t (pt_holders s)\<rparr>)"
| release: "t \<in> pt_holders s \<Longrightarrow>
    thread_step s (s\<lparr>pt_cs := release_slot (pt_cs s), pt_holders := pt_holders s - {t}\<rparr>)"
| begin_wait: "enter_wait w fd (pt_cs s) = Some cs \<Longrightarrow> w \<notin> fst ` set (cs_pWaiters (pt_cs s)) \<Longrightarrow>
    thread_step s (s\<lparr>pt_cs := cs\<rparr>)"
| end_wait: "thread_step s (s\<lparr>pt_cs := (pt_cs s)\<lparr>cs_pWaiters := unlink_waiter w (cs_pWaiters (pt_cs s))\<rparr>\<rparr>)"
| close: "pt_phase s = Running \<Longrightarrow> thread_step s (s\<lparr>pt_cs := start_close (pt_cs s), pt_phase := Draining\<rparr>)"
| drained: "pt_phase s = Draining \<Longrightarrow> \<not> close_waits (pt_cs s) \<Longrightarrow> thread_step s (s\<lparr>pt_phase := Closed\<rparr>)"

inductive_cases thread_stepE: "thread_step s s'"

definition protocol_inv :: "protocol \<Rightarrow> bool" where
  "protocol_inv s \<longleftrightarrow> (if cs_bActive (pt_cs s) then \<exists>t. pt_holders s = {t} else pt_holders s = {})
     \<and> distinct (map fst (cs_pWaiters (pt_cs s)))
     \<and> (pt_phase s \<noteq> Running \<longleftrightarrow> cs_bClosing (pt_cs s))
     \<and> (pt_phase s = Closed \<longrightarrow> \<not> close_waits (pt_cs s))"

lemmas protocol_defs = protocol_inv_def take_slot_def release_slot_def enter_wait_def start_close_def close_waits_def

lemma protocol_inv_step: "thread_step s s' \<Longrightarrow> protocol_inv s \<Longrightarrow> protocol_inv s'"
proof (induction rule: thread_step.induct)
  case (end_wait s w)
  then show ?case
    using unlink_distinct [of "cs_pWaiters (pt_cs s)" w] by (auto simp: protocol_defs)
qed (auto simp: protocol_defs split: if_splits)

lemma protocol_inv_start: "protocol_inv protocol_start"
  by (simp add: protocol_start_def protocol_defs)

lemma protocol_inv_reachable: "thread_step\<^sup>*\<^sup>* protocol_start s \<Longrightarrow> protocol_inv s"
  by (induction rule: rtranclp_induct) (blast intro: protocol_inv_start protocol_inv_step)+

lemma closed_stays: "thread_step s s' \<Longrightarrow> protocol_inv s \<Longrightarrow> pt_phase s = Closed \<Longrightarrow> pt_phase s' = Closed"
  by (induction rule: thread_step.induct) auto



lemma holders_leave:
  assumes "protocol_inv s"
  shows "\<exists>s'. thread_step\<^sup>*\<^sup>* s s' \<and> \<not> cs_bActive (pt_cs s') \<and> pt_phase s' = pt_phase s"
proof (cases "cs_bActive (pt_cs s)")
  case True
  then obtain t where "t \<in> pt_holders s" using assms by (auto simp: protocol_inv_def)
  from release [OF this] show ?thesis
    by (intro exI conjI, rule r_into_rtranclp) (simp_all add: release_slot_def)
qed blast

lemma waits_leave:
  "\<exists>s'. thread_step\<^sup>*\<^sup>* s s' \<and> cs_pWaiters (pt_cs s') = [] \<and> cs_bActive (pt_cs s') = cs_bActive (pt_cs s) \<and> pt_phase s' = pt_phase s"
proof (induction "cs_pWaiters (pt_cs s)" arbitrary: s)
  case (Cons x xs)
  let ?s = "s\<lparr>pt_cs := (pt_cs s)\<lparr>cs_pWaiters := unlink_waiter (fst x) (cs_pWaiters (pt_cs s))\<rparr>\<rparr>"
  have "xs = cs_pWaiters (pt_cs ?s)" using Cons.hyps(2) [symmetric] by simp
  from Cons.hyps(1) [OF this] obtain s' where "thread_step\<^sup>*\<^sup>* ?s s'" "cs_pWaiters (pt_cs s') = []"
    "cs_bActive (pt_cs s') = cs_bActive (pt_cs s)" "pt_phase s' = pt_phase s"
    by auto
  with end_wait [of s "fst x"] show ?case by (blast intro: converse_rtranclp_into_rtranclp)
qed auto

lemma drain:
  assumes "protocol_inv s" and "pt_phase s = Draining"
  shows "\<exists>s'. thread_step\<^sup>*\<^sup>* s s' \<and> pt_phase s' = Closed"
proof -
  obtain s1 where s1: "thread_step\<^sup>*\<^sup>* s s1" "\<not> cs_bActive (pt_cs s1)" "pt_phase s1 = Draining"
    using holders_leave [OF assms(1)] assms(2) by auto
  obtain s2 where s2: "thread_step\<^sup>*\<^sup>* s1 s2" "cs_pWaiters (pt_cs s2) = []" "\<not> cs_bActive (pt_cs s2)" "pt_phase s2 = Draining"
    using waits_leave [of s1] s1 by auto
  have "thread_step s2 (s2\<lparr>pt_phase := Closed\<rparr>)"
    using s2 by (intro drained) (simp_all add: close_waits_def)
  with s1(1) s2(1) show ?thesis
    by (intro exI [of _ "s2\<lparr>pt_phase := Closed\<rparr>"]) (auto intro: rtranclp.rtrancl_into_rtrancl)
qed



section \<open>The slot in the code\<close>

text \<open>
  \<open>AcquireViciCommand\<close> without a cancellation descriptor takes the slot only when it saw it free, as the
  protocol asks. With a descriptor it polls twice, and relies on the second poll to confirm the first:
  a poll that fails counts as a cancellation, and if the next one finds nothing the slot is taken although
  another thread has it.
\<close>

lemma slot_loop_free:
  assumes "slot_loop fd a cl r os = Ret (a', cl', None, os')" and "fd < 0"
  shows "\<not> a' \<or> cl'"
  using assms(1)
proof (induction "length os" arbitrary: a cl r os rule: less_induct)
  case less
  show ?case
  proof (cases "a \<and> \<not> cl")
    case False
    with less.prems show ?thesis by (auto simp: slot_loop.simps [of fd a cl r os])
  next
    case True
    have "IsViciWaitCancelled fd os = Ret (False, os)"
      using assms(2) by (simp add: IsViciWaitCancelled_def)
    then have "(if r = None then (case read_cond_wait os of Blocked \<Rightarrow> Blocked | Fault \<Rightarrow> Fault
         | Ret (r, a, cl, os2) \<Rightarrow> slot_loop fd a cl r os2) else Ret (a, cl, r, os)) = Ret (a', cl', None, os')"
      using less.prems True unfolding slot_loop.simps [of fd a cl r os] by simp
    then obtain r2 a2 cl2 os2 where "os = ACondWait r2 a2 cl2 # os2" "slot_loop fd a2 cl2 r2 os2 = Ret (a', cl', None, os')"
      by (auto simp: read_cond_wait_Ret split: exec.splits if_splits)
    then show ?thesis using less.hyps [of os2 a2 cl2 r2] by simp
  qed
qed

theorem Acquire_free_slot:
  assumes "AcquireViciCommand dl fd c = Ret (IPSEC_OK, c')" and "fd < 0"
  shows "\<exists>os os'. slot_loop fd (bActive c) (bClosing c) None os = Ret (False, False, None, os') \<and> bActive c'"
proof -
  obtain os a os' where l: "slot_loop fd (bActive c) (bClosing c) None os = Ret (a, False, None, os')" "bActive c'"
    using assms(1) unfolding AcquireViciCommand_def Let_def
    by (elim exec_bind_RetE) (auto split: if_splits elim!: exec_bind_RetE)
  with slot_loop_free [OF l(1) assms(2)] show ?thesis by auto
qed

theorem slot_taken_twice:
  "\<exists>c'. AcquireViciCommand 9000 4 ((idle_command [ALock 0, APoll (- 1) 0 0 (EOTHER 12), APoll 0 0 0 EINTR,
       AClock (Some (0, 5000000))])\<lparr>bActive := True\<rparr>) = Ret (IPSEC_OK, c')"
  by (simp add: AcquireViciCommand_def idle_command_def read_lock_def slot_loop.simps IsViciWaitCancelled_def
      read_clock_def GetIpsecMonotonicMilliseconds_def Let_def)

end
