(* ===== verification/Bpf_Program.thy ===== *)
theory Bpf_Program
  imports Protected_Packet
begin

text \<open>
  The classic BPF programs of \<open>src/datapath/protected/application_protected_filter.c\<close> that decide which
  outgoing packets are redirected to the protected TUN device and which are dropped. The programs are
  data of the C code, arrays of \<open>struct sock_filter\<close>; what they mean is given by the interpreter
  \<open>bpf_exec\<close>, the documented semantics of the instructions used (linux/filter.h): a load outside the
  packet ends the program with 0, a jump is relative to the next instruction and only goes forward.
  Loads relative to \<open>SKF_NET_OFF\<close> address the network header; a packet is the list of its bytes from there.
\<close>

section \<open>Instructions\<close>

record sock_filter =
  bpf_code :: nat
  bpf_jt :: nat
  bpf_jf :: nat
  bpf_k :: u32

definition BPF_STMT :: "nat \<Rightarrow> u32 \<Rightarrow> sock_filter" where
  "BPF_STMT c k = \<lparr>bpf_code = c, bpf_jt = 0, bpf_jf = 0, bpf_k = k\<rparr>"

definition BPF_JUMP :: "nat \<Rightarrow> u32 \<Rightarrow> nat \<Rightarrow> nat \<Rightarrow> sock_filter" where
  "BPF_JUMP c k jt jf = \<lparr>bpf_code = c, bpf_jt = jt, bpf_jf = jf, bpf_k = k\<rparr>"

text \<open>The opcodes the programs use, with the numeric values of the kernel's header.\<close>

definition LD_B_ABS :: nat where "LD_B_ABS = 0x30"
definition LD_H_ABS :: nat where "LD_H_ABS = 0x28"
definition LD_W_ABS :: nat where "LD_W_ABS = 0x20"
definition LD_H_IND :: nat where "LD_H_IND = 0x48"
definition LD_W_IND :: nat where "LD_W_IND = 0x40"
definition ALU_AND_K :: nat where "ALU_AND_K = 0x54"
definition ALU_LSH_K :: nat where "ALU_LSH_K = 0x64"
definition JMP_JEQ_K :: nat where "JMP_JEQ_K = 0x15"
definition JMP_JGE_K :: nat where "JMP_JGE_K = 0x35"
definition JMP_JSET_K :: nat where "JMP_JSET_K = 0x45"
definition RET_K :: nat where "RET_K = 0x06"
definition MISC_TAX :: nat where "MISC_TAX = 0x07"

lemmas bpf_opcodes = LD_B_ABS_def LD_H_ABS_def LD_W_ABS_def LD_H_IND_def LD_W_IND_def ALU_AND_K_def
  ALU_LSH_K_def JMP_JEQ_K_def JMP_JGE_K_def JMP_JSET_K_def RET_K_def MISC_TAX_def

definition SKF_NET_OFF :: u32 where "SKF_NET_OFF = 0xfff00000"

text \<open>Big-endian loads of 1, 2 and 4 bytes at an offset from the network header.\<close>

definition load_be :: "bytes \<Rightarrow> nat \<Rightarrow> nat \<Rightarrow> u32 option" where
  "load_be pkt off n = (if off + n \<le> length pkt
     then Some (foldl (\<lambda>w b. push_bit 8 w OR ucast b) 0 (take n (drop off pkt))) else None)"

definition net_load :: "bytes \<Rightarrow> u32 \<Rightarrow> nat \<Rightarrow> u32 option" where
  "net_load pkt k n = load_be pkt (unat (k - SKF_NET_OFF)) n"

text \<open>The interpreter: accumulator, index register and the rest of the program.\<close>

function bpf_exec :: "bytes \<Rightarrow> u32 \<Rightarrow> u32 \<Rightarrow> sock_filter list \<Rightarrow> u32" where
  "bpf_exec pkt A X [] = 0"
| "bpf_exec pkt A X (i # p) =
     (let c = bpf_code i; k = bpf_k i;
          load = (\<lambda>a n. case net_load pkt a n of None \<Rightarrow> 0 | Some v \<Rightarrow> bpf_exec pkt v X p);
          jump = (\<lambda>b. bpf_exec pkt A X (drop (if b then bpf_jt i else bpf_jf i) p))
      in if c = LD_B_ABS then load k 1
         else if c = LD_H_ABS then load k 2
         else if c = LD_W_ABS then load k 4
         else if c = LD_H_IND then load (X + k) 2
         else if c = LD_W_IND then load (X + k) 4
         else if c = ALU_AND_K then bpf_exec pkt (A AND k) X p
         else if c = ALU_LSH_K then bpf_exec pkt (push_bit (unat k) A) X p
         else if c = JMP_JEQ_K then jump (A = k)
         else if c = JMP_JGE_K then jump (A \<ge> k)
         else if c = JMP_JSET_K then jump (A AND k \<noteq> 0)
         else if c = MISC_TAX then bpf_exec pkt A A p
         else if c = RET_K then k
         else 0)"
  by pat_completeness auto
termination
  by (relation "measure (\<lambda>(pkt, A, X, p). length p)") auto

declare bpf_exec.simps(2) [simp del]

section \<open>The programs\<close>

text \<open>An IPv4 address is the 32-bit object \<open>inet_pton\<close> writes: its four bytes in network order.\<close>

definition ReadProtectedApplicationAddress :: "u32 \<Rightarrow> u32" where
  "ReadProtectedApplicationAddress uiAddress =
     (case le32 uiAddress of [a, b, c, d] \<Rightarrow>
        push_bit 24 (ucast a) OR push_bit 16 (ucast b) OR push_bit 8 (ucast c) OR ucast d | _ \<Rightarrow> 0)"

definition raw_program :: "u32 \<Rightarrow> u32 \<Rightarrow> sock_filter list" where
  "raw_program uiLocalAddress uiRemoteAddress = (let uiNet = SKF_NET_OFF in [
     BPF_STMT LD_B_ABS uiNet,
     BPF_STMT ALU_AND_K 0xf0,
     BPF_JUMP JMP_JEQ_K 0x40 0 7,
     BPF_STMT LD_W_ABS (uiNet + 12),
     BPF_JUMP JMP_JEQ_K (ReadProtectedApplicationAddress uiLocalAddress) 0 5,
     BPF_STMT LD_W_ABS (uiNet + 16),
     BPF_JUMP JMP_JEQ_K (ReadProtectedApplicationAddress uiRemoteAddress) 0 3,
     BPF_STMT LD_B_ABS (uiNet + 9),
     BPF_JUMP JMP_JEQ_K 50 0 1,
     BPF_STMT RET_K 0xffffffff,
     BPF_STMT RET_K 0])"

definition udp_program :: "u32 \<Rightarrow> u32 \<Rightarrow> sock_filter list" where
  "udp_program uiLocalAddress uiRemoteAddress = (let uiNet = SKF_NET_OFF in [
     BPF_STMT LD_B_ABS uiNet,
     BPF_STMT ALU_AND_K 0xf0,
     BPF_JUMP JMP_JEQ_K 0x40 0 19,
     BPF_STMT LD_W_ABS (uiNet + 12),
     BPF_JUMP JMP_JEQ_K (ReadProtectedApplicationAddress uiLocalAddress) 0 17,
     BPF_STMT LD_W_ABS (uiNet + 16),
     BPF_JUMP JMP_JEQ_K (ReadProtectedApplicationAddress uiRemoteAddress) 0 15,
     BPF_STMT LD_B_ABS (uiNet + 9),
     BPF_JUMP JMP_JEQ_K 17 0 13,
     BPF_STMT LD_H_ABS (uiNet + 6),
     BPF_JUMP JMP_JSET_K 0x3fff 10 0,
     BPF_STMT LD_B_ABS uiNet,
     BPF_STMT ALU_AND_K 0x0f,
     BPF_STMT ALU_LSH_K 2,
     BPF_STMT MISC_TAX 0,
     BPF_STMT LD_H_IND (uiNet + 2),
     BPF_JUMP JMP_JEQ_K 500 5 0,
     BPF_STMT LD_H_IND (uiNet + 4),
     BPF_JUMP JMP_JGE_K 12 0 2,
     BPF_STMT LD_W_IND (uiNet + 8),
     BPF_JUMP JMP_JEQ_K 0 1 0,
     BPF_STMT RET_K 0xffffffff,
     BPF_STMT RET_K 0])"

definition BuildIpsecProtectedApplicationProgram :: "u32 \<Rightarrow> u32 \<Rightarrow> bool \<Rightarrow> sock_filter list" where
  "BuildIpsecProtectedApplicationProgram uiLocalAddress uiRemoteAddress bUdpDrop =
     (if bUdpDrop then udp_program uiLocalAddress uiRemoteAddress else raw_program uiLocalAddress uiRemoteAddress)"

section \<open>Loads\<close>

lemma net_load_offset: "unat n < 2 ^ 20 \<Longrightarrow> net_load pkt (SKF_NET_OFF + n) w = load_be pkt (unat n) w"
  by (simp add: net_load_def)

lemma load_be_None: "load_be pkt off n = None \<longleftrightarrow> length pkt < off + n"
  by (simp add: load_be_def not_le)

lemma load1: "off < length pkt \<Longrightarrow> load_be pkt off 1 = Some (ucast (pkt ! off))"
  by (simp add: load_be_def take_Suc_conv_app_nth hd_drop_conv_nth take_Suc)

lemma of_de16_u32: "(of_nat (de16 a b) :: u32) = push_bit 8 (ucast a) OR ucast b"
proof -
  have "(of_nat (de16 a b) :: u32) = push_bit 8 (ucast a) + ucast b"
    by (simp add: de16_def push_bit_eq_mult)
  also have "\<dots> = push_bit 8 (ucast a) OR ucast b"
    by (rule disjunctive_add_eq_or) (rule bit_word_eqI, auto simp: bit_simps dest: bit_imp_le_length)
  finally show ?thesis .
qed

lemma take_four: "off + 3 < length xs \<Longrightarrow>
   take 4 (drop off xs) = [xs ! off, xs ! (off + 1), xs ! (off + 2), xs ! (off + 3)]"
  by (intro nth_equalityI) (auto simp: less_Suc_eq numeral_eq_Suc)

lemma load2: "off + 1 < length pkt \<Longrightarrow> load_be pkt off 2 = Some (of_nat (de16 (pkt ! off) (pkt ! (off + 1))))"
proof -
  assume len: "off + 1 < length pkt"
  then have "take 2 (drop off pkt) = [pkt ! off, pkt ! (off + 1)]"
    by (intro nth_equalityI) (auto simp: less_Suc_eq numeral_eq_Suc)
  with len show ?thesis by (simp add: load_be_def of_de16_u32)
qed

lemma load2_at: "j = off + 1 \<Longrightarrow> j < length pkt \<Longrightarrow> load_be pkt off 2 = Some (of_nat (de16 (pkt ! off) (pkt ! j)))"
  by (simp add: load2)

lemma load4: "off + 3 < length pkt \<Longrightarrow>
   load_be pkt off 4 = Some (de32 (pkt ! off) (pkt ! (off + 1)) (pkt ! (off + 2)) (pkt ! (off + 3)))"
  by (simp add: load_be_def take_four de32_def push_bit_or or.assoc)

lemma de32_inject: "de32 a b c d = de32 a' b' c' d' \<longleftrightarrow> a = a' \<and> b = b' \<and> c = c' \<and> d = d'"
  using be32_de32 [of a b c d] be32_de32 [of a' b' c' d'] by (metis list.inject)

text \<open>The comparison with an address compares the four bytes of the header field with the object's bytes.\<close>

lemma address_match: "off + 3 < length pkt \<Longrightarrow>
   de32 (pkt ! off) (pkt ! (off + 1)) (pkt ! (off + 2)) (pkt ! (off + 3)) = ReadProtectedApplicationAddress w
     \<longleftrightarrow> take 4 (drop off pkt) = le32 w"
  by (simp add: ReadProtectedApplicationAddress_def le32_def take_four de32_def [symmetric] de32_inject)

lemma no_marker: "off + 3 < length pkt \<Longrightarrow>
   de32 (pkt ! off) (pkt ! (off + 1)) (pkt ! (off + 2)) (pkt ! (off + 3)) = 0 \<longleftrightarrow> take 4 (drop off pkt) = [0, 0, 0, 0]"
  using de32_inject [of "pkt ! off" "pkt ! (off + 1)" "pkt ! (off + 2)" "pkt ! (off + 3)" 0 0 0 0]
  by (simp add: take_four de32_def)

lemma load4_marker: "off + 3 < length pkt \<Longrightarrow>
   \<exists>m. load_be pkt off 4 = Some m \<and> (m = 0 \<longleftrightarrow> take 4 (drop off pkt) = [0, 0, 0, 0])"
  using load4 no_marker by simp

section \<open>Single instructions\<close>

lemma bpf_step_simps:
  "bpf_exec pkt A X (BPF_STMT LD_B_ABS k # p) = (case net_load pkt k 1 of None \<Rightarrow> 0 | Some v \<Rightarrow> bpf_exec pkt v X p)"
  "bpf_exec pkt A X (BPF_STMT LD_H_ABS k # p) = (case net_load pkt k 2 of None \<Rightarrow> 0 | Some v \<Rightarrow> bpf_exec pkt v X p)"
  "bpf_exec pkt A X (BPF_STMT LD_W_ABS k # p) = (case net_load pkt k 4 of None \<Rightarrow> 0 | Some v \<Rightarrow> bpf_exec pkt v X p)"
  "bpf_exec pkt A X (BPF_STMT LD_H_IND k # p) = (case net_load pkt (X + k) 2 of None \<Rightarrow> 0 | Some v \<Rightarrow> bpf_exec pkt v X p)"
  "bpf_exec pkt A X (BPF_STMT LD_W_IND k # p) = (case net_load pkt (X + k) 4 of None \<Rightarrow> 0 | Some v \<Rightarrow> bpf_exec pkt v X p)"
  "bpf_exec pkt A X (BPF_STMT ALU_AND_K k # p) = bpf_exec pkt (A AND k) X p"
  "bpf_exec pkt A X (BPF_STMT ALU_LSH_K k # p) = bpf_exec pkt (push_bit (unat k) A) X p"
  "bpf_exec pkt A X (BPF_STMT MISC_TAX k # p) = bpf_exec pkt A A p"
  "bpf_exec pkt A X (BPF_STMT RET_K k # p) = k"
  "bpf_exec pkt A X (BPF_JUMP JMP_JEQ_K k jt jf # p) = bpf_exec pkt A X (drop (if A = k then jt else jf) p)"
  "bpf_exec pkt A X (BPF_JUMP JMP_JGE_K k jt jf # p) = bpf_exec pkt A X (drop (if A \<ge> k then jt else jf) p)"
  "bpf_exec pkt A X (BPF_JUMP JMP_JSET_K k jt jf # p) = bpf_exec pkt A X (drop (if A AND k \<noteq> 0 then jt else jf) p)"
  by (simp_all add: bpf_exec.simps(2) BPF_STMT_def BPF_JUMP_def bpf_opcodes)

lemma byte_inject: "(ucast (a :: u8) :: u32) = ucast b \<longleftrightarrow> a = b"
proof -
  have "ucast (ucast x :: u32) = x" for x :: u8
    by (rule bit_word_eqI) (auto simp: bit_simps dest: bit_imp_le_length)
  then show ?thesis by metis
qed

lemma byte_and: "(ucast (b :: u8) :: u32) AND ucast (m :: u8) = ucast (b AND m)"
  by (rule bit_word_eqI) (auto simp: bit_simps)

lemma version_nibble: "(ucast (b :: u8) :: u32) AND 0xf0 = 0x40 \<longleftrightarrow> b AND 0xf0 = 0x40"
  using byte_and [of b "0xf0"] byte_inject [of "b AND 0xf0" "0x40"] by simp

lemma protocol_is: "(ucast (b :: u8) :: u32) = 50 \<longleftrightarrow> b = 50" "(ucast b :: u32) = 17 \<longleftrightarrow> b = 17"
  using byte_inject [of b 50] byte_inject [of b 17] by simp_all

lemma net_load_at:
  "net_load pkt SKF_NET_OFF w = load_be pkt 0 w"
  "net_load pkt (SKF_NET_OFF + 6) w = load_be pkt 6 w"
  "net_load pkt (SKF_NET_OFF + 9) w = load_be pkt 9 w"
  "net_load pkt (SKF_NET_OFF + 12) w = load_be pkt 12 w"
  "net_load pkt (SKF_NET_OFF + 16) w = load_be pkt 16 w"
  by (simp_all add: net_load_def)

text \<open>The indexed loads start behind the IP header, whose length is at most 60 bytes.\<close>

definition ihl_bytes :: "bytes \<Rightarrow> nat" where
  "ihl_bytes pkt = 4 * unat (pkt ! 0 AND 0x0f)"

lemma index_register: "push_bit 2 ((ucast (b :: u8) :: u32) AND 0x0f) = of_nat (4 * unat (b AND 0x0f))"
proof -
  have "(ucast b :: u32) AND 0x0f = ucast (b AND 0x0f)"
    using byte_and [of b "0x0f"] by simp
  then show ?thesis by (simp add: push_bit_eq_mult)
qed

lemma ihl_bytes_bound: "ihl_bytes pkt \<le> 60"
  using ihl_bound [of "pkt ! 0"] by (simp add: ihl_bytes_def)

lemma net_load_ind: "h \<le> 60 \<Longrightarrow> unat n \<le> 60 \<Longrightarrow> net_load pkt (of_nat h + (SKF_NET_OFF + n)) w = load_be pkt (h + unat n) w"
  by (simp add: net_load_def unat_word_ariths unat_of_nat take_bit_nat_def)

section \<open>What the programs select\<close>

text \<open>The packets of a pair of outer addresses, and within them RAW ESP and the UDP that must not leave.\<close>

definition in_pair :: "u32 \<Rightarrow> u32 \<Rightarrow> bytes \<Rightarrow> bool" where
  "in_pair l r pkt \<longleftrightarrow> 20 \<le> length pkt \<and> pkt ! 0 AND 0xf0 = 0x40
     \<and> take 4 (drop 12 pkt) = le32 l \<and> take 4 (drop 16 pkt) = le32 r"

definition raw_esp :: "u32 \<Rightarrow> u32 \<Rightarrow> bytes \<Rightarrow> bool" where
  "raw_esp l r pkt \<longleftrightarrow> in_pair l r pkt \<and> pkt ! 9 = 50"

definition udp_fragment :: "bytes \<Rightarrow> bool" where
  "udp_fragment pkt \<longleftrightarrow> de16 (pkt ! 6) (pkt ! 7) mod 2 ^ 14 \<noteq> 0"

text \<open>With \<open>h\<close> the length of the IP header: the port is not the IKE port, and there is either no room for a
  marker or a marker that is not the zero non-ESP marker.\<close>

definition not_ike :: "bytes \<Rightarrow> bool" where
  "not_ike pkt \<longleftrightarrow> (let h = ihl_bytes pkt in
     h + 6 \<le> length pkt \<and> de16 (pkt ! (h + 2)) (pkt ! (h + 3)) \<noteq> 500 \<and>
     (de16 (pkt ! (h + 4)) (pkt ! (h + 5)) < 12 \<or> h + 12 \<le> length pkt \<and> take 4 (drop (h + 8) pkt) \<noteq> [0, 0, 0, 0]))"

definition udp_stray :: "u32 \<Rightarrow> u32 \<Rightarrow> bytes \<Rightarrow> bool" where
  "udp_stray l r pkt \<longleftrightarrow> in_pair l r pkt \<and> pkt ! 9 = 17 \<and> (udp_fragment pkt \<or> not_ike pkt)"

lemma raw_program_runs: "bpf_exec pkt A X (raw_program l r) = (if raw_esp l r pkt then 0xffffffff else 0)"
proof (cases "20 \<le> length pkt")
  case True
  moreover from True have "pkt \<noteq> []" by auto
  ultimately show ?thesis
    by (simp add: raw_program_def Let_def bpf_step_simps net_load_at load1 [simplified] load4 address_match [of 12, simplified]
        address_match [of 16, simplified] version_nibble protocol_is raw_esp_def in_pair_def del: drop_drop)
next
  case False
  then show ?thesis
    by (simp add: raw_program_def Let_def bpf_step_simps net_load_at load_be_None [THEN iffD2] raw_esp_def in_pair_def
        split: option.split)
qed

lemma half_is: "(of_nat (de16 a b) :: u32) = 500 \<longleftrightarrow> de16 a b = 500"
  "(of_nat (de16 a b) :: u32) AND 0x3fff = 0 \<longleftrightarrow> de16 a b mod 2 ^ 14 = 0"
  "12 \<le> (of_nat (de16 a b) :: u32) \<longleftrightarrow> 12 \<le> de16 a b"
proof -
  have u: "unat (of_nat (de16 a b) :: u32) = de16 a b"
    using de16_bound [of a b] by (simp add: unat_of_nat take_bit_nat_def)
  have eq: "(of_nat (de16 a b) :: u32) = w \<longleftrightarrow> de16 a b = unat w" for w
    using u by (auto simp: word_unat_eq_iff)
  show "(of_nat (de16 a b) :: u32) = 500 \<longleftrightarrow> de16 a b = 500"
    using eq [of 500] by simp
  have "(of_nat (de16 a b) :: u32) AND 0x3fff = take_bit 14 (of_nat (de16 a b))"
    by (simp add: take_bit_eq_mask mask_eq_exp_minus_1)
  also have "\<dots> = of_nat (de16 a b mod 2 ^ 14)"
    by (simp only: take_bit_of_nat take_bit_nat_def)
  finally have m: "(of_nat (de16 a b) :: u32) AND 0x3fff = of_nat (de16 a b mod 2 ^ 14)" .
  have "unat (of_nat (de16 a b mod 2 ^ 14) :: u32) = de16 a b mod 2 ^ 14"
    using mod_less_divisor [of "2 ^ 14" "de16 a b"] by (simp add: unat_of_nat take_bit_nat_def)
  then show "(of_nat (de16 a b) :: u32) AND 0x3fff = 0 \<longleftrightarrow> de16 a b mod 2 ^ 14 = 0"
    unfolding m by (auto simp: word_unat_eq_iff)
  show "12 \<le> (of_nat (de16 a b) :: u32) \<longleftrightarrow> 12 \<le> de16 a b"
    using u by (simp add: word_le_nat_alt)
qed

text \<open>The second half of the UDP program, behind the fragment test.\<close>

lemma marker_part_runs:
  assumes "1 \<le> length pkt"
  shows "bpf_exec pkt A X (drop 11 (udp_program l r)) = (if not_ike pkt then 0xffffffff else 0)"
proof -
  let ?h = "ihl_bytes pkt"
  have h: "?h \<le> 60" by (rule ihl_bytes_bound)
  have x: "push_bit 2 (ucast (pkt ! 0) :: u32) AND 60 = of_nat ?h"
    using index_register [of "pkt ! 0"] by (simp add: ihl_bytes_def)
  from assms have ne: "pkt \<noteq> []" by auto
  have at: "net_load pkt (of_nat ?h + (SKF_NET_OFF + 2)) w = load_be pkt (?h + 2) w"
    "net_load pkt (of_nat ?h + (SKF_NET_OFF + 4)) w = load_be pkt (?h + 4) w"
    "net_load pkt (of_nat ?h + (SKF_NET_OFF + 8)) w = load_be pkt (?h + 8) w" for w
    using net_load_ind [OF h, of 2 pkt w] net_load_ind [OF h, of 4 pkt w] net_load_ind [OF h, of 8 pkt w] by simp_all
  have run: "bpf_exec pkt A X (drop 11 (udp_program l r)) =
      (case load_be pkt (?h + 2) 2 of None \<Rightarrow> 0 | Some port \<Rightarrow> if port = 500 then 0 else
       case load_be pkt (?h + 4) 2 of None \<Rightarrow> 0 | Some len \<Rightarrow> if \<not> 12 \<le> len then 0xffffffff else
       case load_be pkt (?h + 8) 4 of None \<Rightarrow> 0 | Some m \<Rightarrow> if m = 0 then 0 else 0xffffffff)"
    using ne by (simp add: udp_program_def Let_def bpf_step_simps net_load_at load1 [simplified] x at cong: if_cong split: option.split)
  show ?thesis
  proof (cases "?h + 6 \<le> length pkt")
    case True
    then have l: "load_be pkt (?h + 2) 2 = Some (of_nat (de16 (pkt ! (?h + 2)) (pkt ! (?h + 3))))"
      "load_be pkt (?h + 4) 2 = Some (of_nat (de16 (pkt ! (?h + 4)) (pkt ! (?h + 5))))"
      using load2_at [of "?h + 3" "?h + 2" pkt] load2_at [of "?h + 5" "?h + 4" pkt] by simp_all
    show ?thesis
    proof (cases "?h + 12 \<le> length pkt")
      case True
      then obtain m where "load_be pkt (?h + 8) 4 = Some m" "m = 0 \<longleftrightarrow> take 4 (drop (?h + 8) pkt) = [0, 0, 0, 0]"
        using load4_marker [of "?h + 8" pkt] by auto
      with \<open>?h + 6 \<le> length pkt\<close> True show ?thesis
        unfolding run l not_ike_def Let_def by (auto simp: half_is)
    next
      case False
      then have "load_be pkt (?h + 8) 4 = None" by (simp add: load_be_None)
      with \<open>?h + 6 \<le> length pkt\<close> False show ?thesis 
        unfolding run l not_ike_def Let_def by (auto simp: half_is)
    qed
  next
    case False
    then have "load_be pkt (?h + 4) 2 = None" by (simp add: load_be_None)
    with False show ?thesis by (auto simp: run not_ike_def Let_def split: option.split)
  qed
qed

lemma udp_program_runs: "bpf_exec pkt A X (udp_program l r) = (if udp_stray l r pkt then 0xffffffff else 0)"
proof (cases "20 \<le> length pkt")
  case True
  then have ne: "pkt \<noteq> []" and one: "1 \<le> length pkt" by auto
  from True ne show ?thesis
    using marker_part_runs [OF one, of _ X l r]
    by (simp add: udp_program_def Let_def bpf_step_simps(1,2,3,6,9,10,12) net_load_at load1 [simplified] load2 [of 6, simplified]
        load4 address_match [of 12, simplified] address_match [of 16, simplified] version_nibble protocol_is half_is
        udp_stray_def in_pair_def udp_fragment_def)
next
  case False
  then show ?thesis
    by (simp add: udp_program_def Let_def bpf_step_simps net_load_at load_be_None [THEN iffD2] udp_stray_def in_pair_def
        split: option.split)
qed

text \<open>
  C4. The two filters of a peer take exactly the packets they are meant for, on every packet, whatever its
  length and contents. The redirect program accepts exactly the IPv4 packets from the local to the remote
  address whose protocol is ESP. The drop program accepts exactly the UDP packets of the pair that are
  fragments, or that go to another port than 500 and do not carry the zero non-ESP marker of IKE. No packet is
  taken by both, and neither touches a packet of another pair of addresses.
\<close>

theorem filter_programs_exact:
  "bpf_exec pkt 0 0 (BuildIpsecProtectedApplicationProgram l r False) = (if raw_esp l r pkt then 0xffffffff else 0)
   \<and> bpf_exec pkt 0 0 (BuildIpsecProtectedApplicationProgram l r True) = (if udp_stray l r pkt then 0xffffffff else 0)
   \<and> \<not> (raw_esp l r pkt \<and> udp_stray l r pkt)"
proof -
  have "\<not> (raw_esp l r pkt \<and> udp_stray l r pkt)"
    by (auto simp: raw_esp_def udp_stray_def)
  then show ?thesis
    by (simp add: BuildIpsecProtectedApplicationProgram_def raw_program_runs udp_program_runs)
qed

end
