(* ===== verification/Netlink_Wire.thy ===== *)
theory Netlink_Wire
  imports Ipsec_Error
begin

text \<open>
  Netlink messages as bytes: the fields the C code reads and writes through \<open>struct nlmsghdr\<close>, \<open>struct tcmsg\<close> and
  \<open>struct rtattr\<close>, in the byte order of the host, and the alignment macros of the Linux headers.
\<close>

section \<open>Fields of messages\<close>

definition get16 :: "bytes \<Rightarrow> nat \<Rightarrow> nat option" where
  "get16 d off = map_option (\<lambda>xs. de16 (xs ! 1) (xs ! 0)) (rd_bytes d off 2)"

definition get32 :: "bytes \<Rightarrow> nat \<Rightarrow> u32 option" where
  "get32 d off = map_option (\<lambda>xs. de32 (xs ! 3) (xs ! 2) (xs ! 1) (xs ! 0)) (rd_bytes d off 4)"

definition NLMSG_ALIGN :: "nat \<Rightarrow> nat" where
  "NLMSG_ALIGN n = ((n + 3) mod 2 ^ 32) div 4 * 4"

definition RTA_ALIGN :: "nat \<Rightarrow> nat" where
  "RTA_ALIGN n = (n + 3) div 4 * 4"

definition RTA_LENGTH :: "nat \<Rightarrow> nat" where
  "RTA_LENGTH n = 4 + n"

section \<open>Reading what was written\<close>

lemma de16_le16: "n < 65536 \<Longrightarrow> de16 (of_nat (n div 256)) (of_nat n) = n"
  by (simp add: de16_be16)

lemma get16_at: "length p = off \<Longrightarrow> n < 65536 \<Longrightarrow> get16 (p @ le16 n @ r) off = Some n"
  by (simp add: get16_def rd_bytes_def le16_def)

lemma get32_at: "length p = off \<Longrightarrow> get32 (p @ le32 w @ r) off = Some w"
  by (simp add: get32_def rd_bytes_def le32_def de32_be32)

lemma le32_inject: "le32 v = le32 w \<longleftrightarrow> v = w"
proof -
  have "le32 u = rev (be32 u)" for u
    by (simp add: le32_def be32_def)
  then show ?thesis by (simp add: be32_inject)
qed

lemma le16_cong: "n mod 65536 = m mod 65536 \<Longrightarrow> le16 n = le16 m"
proof -
  assume eq: "n mod 65536 = m mod 65536"
  have "(of_nat (k mod 65536) :: u8) = of_nat k" "(of_nat (k mod 65536 div 256) :: u8) = of_nat (k div 256)" for k
  proof -
    have "k mod 65536 mod 256 = k mod 256"
      by (simp add: mod_mod_cancel)
    then show "(of_nat (k mod 65536) :: u8) = of_nat k"
      by (simp add: word_of_nat_eq_iff take_bit_nat_def)
    have "k mod 65536 div 256 = k div 256 mod 256"
      using mod_mult2_eq [of k 256 256] by simp
    then show "(of_nat (k mod 65536 div 256) :: u8) = of_nat (k div 256)"
      by (simp add: word_of_nat_eq_iff take_bit_nat_def)
  qed
  with eq show ?thesis unfolding le16_def by metis
qed

lemma RTA_ALIGN_ge: "n \<le> RTA_ALIGN n"
  unfolding RTA_ALIGN_def by presburger

lemma RTA_ALIGN_dvd: "4 dvd RTA_ALIGN n"
  by (simp add: RTA_ALIGN_def)

end
