(* ===== verification/Tc_Filter.thy ===== *)
theory Tc_Filter
  imports Bpf_Program Netlink_Wire
begin

text \<open>
  The traffic-control requests of \<open>src/datapath/protected/application_protected_filter.c\<close>: building the
  Netlink message that installs or removes one of the two filters of a peer, searching attributes in a reply
  of the kernel, and validating that an installed filter is the one the library would have built. A message
  is the object the C code works on, its bytes with the header at offset 0; the fields the code reads and
  writes through \<open>struct nlmsghdr\<close>, \<open>struct tcmsg\<close> and \<open>struct rtattr\<close> are at their offsets there, in the byte
  order of the host. The numbers of types and flags are those of the Linux headers.
\<close>

section \<open>State\<close>

definition IPSEC_PROTECTED_APPLICATION_PEER_CAPACITY :: nat where "IPSEC_PROTECTED_APPLICATION_PEER_CAPACITY = 256"

record IpsecProtectedApplicationPeer =
  pr_acConnectionName :: bytes
  pr_uiLocalAddress :: u32
  pr_uiRemoteAddress :: u32
  pr_uiFilterHandle :: u32
  pr_bRawFilter :: bool
  pr_bUdpFilter :: bool
  pr_bInUse :: bool

record IpsecProtectedApplicationState =
  ap_iTunFd :: int
  ap_uiTunIndex :: u32
  ap_uiEgressIndex :: u32
  ap_uiLocalAddress :: u32
  ap_uiRemoteAddress :: u32
  ap_uiFilterHandle :: u32
  ap_usPriority :: u16
  ap_bRawFilter :: bool
  ap_bUdpFilter :: bool
  ap_bPeerMutexInitialized :: bool
  ap_aPeers :: "IpsecProtectedApplicationPeer list"
  ap_uiPeerCount :: u32
  ap_acTunName :: bytes
  ap_acEgressName :: bytes

section \<open>Numbers of the interface\<close>

definition IPSEC_PROTECTED_APPLICATION_NETLINK_CAPACITY :: nat where
  "IPSEC_PROTECTED_APPLICATION_NETLINK_CAPACITY = 2048"

definition RTM_NEWTFILTER :: nat where "RTM_NEWTFILTER = 44"
definition RTM_DELTFILTER :: nat where "RTM_DELTFILTER = 45"
definition RTM_GETTFILTER :: nat where "RTM_GETTFILTER = 46"
definition NLM_F_REQUEST :: nat where "NLM_F_REQUEST = 0x1"
definition NLM_F_ACK :: nat where "NLM_F_ACK = 0x4"
definition NLM_F_EXCL :: nat where "NLM_F_EXCL = 0x200"
definition NLM_F_CREATE :: nat where "NLM_F_CREATE = 0x400"
definition CLSACT_EGRESS :: u32 where "CLSACT_EGRESS = 0xfffffff3"
definition TCA_KIND :: nat where "TCA_KIND = 1"
definition TCA_OPTIONS :: nat where "TCA_OPTIONS = 2"
definition TCA_CHAIN :: nat where "TCA_CHAIN = 11"
definition TCA_BPF_ACT :: nat where "TCA_BPF_ACT = 1"
definition TCA_BPF_OPS_LEN :: nat where "TCA_BPF_OPS_LEN = 4"
definition TCA_BPF_OPS :: nat where "TCA_BPF_OPS = 5"
definition TCA_BPF_FLAGS :: nat where "TCA_BPF_FLAGS = 8"
definition TCA_BPF_FLAGS_GEN :: nat where "TCA_BPF_FLAGS_GEN = 9"
definition TCA_ACT_KIND :: nat where "TCA_ACT_KIND = 1"
definition TCA_ACT_OPTIONS :: nat where "TCA_ACT_OPTIONS = 2"
definition TCA_PARMS :: nat where "TCA_PARMS = 2"
definition TCA_CLS_FLAGS_SKIP_HW :: u32 where "TCA_CLS_FLAGS_SKIP_HW = 1"
definition TCA_CLS_FLAGS_SKIP_SW :: u32 where "TCA_CLS_FLAGS_SKIP_SW = 2"
definition TCA_CLS_FLAGS_IN_HW :: u32 where "TCA_CLS_FLAGS_IN_HW = 4"
definition TC_ACT_SHOT :: u32 where "TC_ACT_SHOT = 2"
definition TC_ACT_STOLEN :: u32 where "TC_ACT_STOLEN = 4"
definition TCA_EGRESS_REDIR :: u32 where "TCA_EGRESS_REDIR = 1"

lemmas tc_numbers = RTM_NEWTFILTER_def RTM_DELTFILTER_def RTM_GETTFILTER_def NLM_F_REQUEST_def NLM_F_ACK_def
  NLM_F_EXCL_def NLM_F_CREATE_def CLSACT_EGRESS_def TCA_KIND_def TCA_OPTIONS_def TCA_CHAIN_def TCA_BPF_ACT_def
  TCA_BPF_OPS_LEN_def TCA_BPF_OPS_def TCA_BPF_FLAGS_def TCA_BPF_FLAGS_GEN_def TCA_ACT_KIND_def TCA_ACT_OPTIONS_def
  TCA_PARMS_def TCA_CLS_FLAGS_SKIP_HW_def TCA_CLS_FLAGS_SKIP_SW_def TCA_CLS_FLAGS_IN_HW_def TC_ACT_SHOT_def
  TC_ACT_STOLEN_def TCA_EGRESS_REDIR_def

section \<open>Building a request\<close>

definition AppendProtectedApplicationAttribute :: "bytes \<Rightarrow> nat \<Rightarrow> bytes \<Rightarrow> (IpsecError \<times> nat \<times> bytes) option" where
  "AppendProtectedApplicationAttribute d usType pvData = do {
     nlmsg_len \<leftarrow> get32 d 0;
     let zLength = length pvData;
     let zOffset = NLMSG_ALIGN (unat nlmsg_len);
     let zSize = RTA_LENGTH zLength;
     if zLength > UINT16_MAX - 4 \<or> zOffset > IPSEC_PROTECTED_APPLICATION_NETLINK_CAPACITY
        \<or> RTA_ALIGN zSize > IPSEC_PROTECTED_APPLICATION_NETLINK_CAPACITY - zOffset
     then Some (IPSEC_ERR_BUFFER_TOO_SMALL, 0, d)
     else do {
       d \<leftarrow> write_at d zOffset (le16 zSize @ le16 usType);
       d \<leftarrow> (if 0 < zLength then write_at d (zOffset + 4) pvData else Some d);
       d \<leftarrow> write_at d 0 (le32 (of_nat (zOffset + RTA_ALIGN zSize)));
       Some (IPSEC_OK, zOffset, d) } }"

definition FinishProtectedApplicationNest :: "bytes \<Rightarrow> nat \<Rightarrow> bytes option" where
  "FinishProtectedApplicationNest d zOffset = do {
     nlmsg_len \<leftarrow> get32 d 0;
     write_at d zOffset (le16 (unat nlmsg_len + 2 ^ 64 - zOffset)) }"

definition GetProtectedApplicationFilterInfo :: "IpsecProtectedApplicationState \<Rightarrow> bool \<Rightarrow> u32" where
  "GetProtectedApplicationFilterInfo pState bUdpDrop =
     (let usProtocol = de16 3 0
      in push_bit 16 (ucast (ap_usPriority pState) + (if bUdpDrop then 1 else 0)) OR of_nat usProtocol)"

definition GetProtectedApplicationFilterHandle :: "IpsecProtectedApplicationState \<Rightarrow> u32" where
  "GetProtectedApplicationFilterHandle pState =
     (if ap_uiFilterHandle pState \<noteq> 0 then ap_uiFilterHandle pState else ap_uiTunIndex pState)"

definition filter_program :: "IpsecProtectedApplicationState \<Rightarrow> bool \<Rightarrow> sock_filter list" where
  "filter_program pState bUdpDrop =
     BuildIpsecProtectedApplicationProgram (ap_uiLocalAddress pState) (ap_uiRemoteAddress pState) bUdpDrop"

definition sock_filter_bytes :: "sock_filter \<Rightarrow> bytes" where
  "sock_filter_bytes i = le16 (bpf_code i) @ [of_nat (bpf_jt i), of_nat (bpf_jf i)] @ le32 (bpf_k i)"

text \<open>\<open>struct tc_gact\<close> and \<open>struct tc_mirred\<close>: index, capability, action, two counters, then the target.\<close>

definition tc_gact_bytes :: "u32 \<Rightarrow> bytes" where
  "tc_gact_bytes action = le32 0 @ le32 0 @ le32 action @ le32 0 @ le32 0"

definition tc_mirred_bytes :: "u32 \<Rightarrow> u32 \<Rightarrow> u32 \<Rightarrow> bytes" where
  "tc_mirred_bytes action eaction ifindex = tc_gact_bytes action @ le32 eaction @ le32 ifindex"

definition action_name :: "bool \<Rightarrow> bytes" where
  "action_name bUdpDrop = lit (if bUdpDrop then ''gact'' else ''mirred'') @ [0]"

definition action_parms :: "IpsecProtectedApplicationState \<Rightarrow> bool \<Rightarrow> bytes" where
  "action_parms pState bUdpDrop =
     (if bUdpDrop then tc_gact_bytes TC_ACT_SHOT
      else tc_mirred_bytes TC_ACT_STOLEN TCA_EGRESS_REDIR (ap_uiTunIndex pState))"

definition request_header :: "IpsecProtectedApplicationState \<Rightarrow> bool \<Rightarrow> bool \<Rightarrow> bytes" where
  "request_header pState bUdpDrop bRemove =
     le16 (if bRemove then RTM_DELTFILTER else RTM_NEWTFILTER)
     @ le16 (if bRemove then NLM_F_REQUEST OR NLM_F_ACK
             else NLM_F_REQUEST OR NLM_F_ACK OR NLM_F_CREATE OR NLM_F_EXCL)
     @ le32 0 @ le32 0
     @ [0, 0, 0, 0] @ le32 (ap_uiEgressIndex pState) @ le32 (GetProtectedApplicationFilterHandle pState)
     @ le32 CLSACT_EGRESS @ le32 (GetProtectedApplicationFilterInfo pState bUdpDrop)"

text \<open>The next append only when every one before succeeded.\<close>

definition append_ok ::
  "(IpsecError \<times> nat \<times> bytes) option \<Rightarrow> (nat \<Rightarrow> bytes \<Rightarrow> (IpsecError \<times> bytes) option) \<Rightarrow> (IpsecError \<times> bytes) option" where
  "append_ok r f = (case r of None \<Rightarrow> None
     | Some (e, zOffset, d) \<Rightarrow> if e = IPSEC_OK then f zOffset d else Some (e, d))"

definition BuildIpsecProtectedApplicationFilterRequest ::
  "IpsecProtectedApplicationState \<Rightarrow> bool \<Rightarrow> bool \<Rightarrow> (IpsecError \<times> bytes) option" where
  "BuildIpsecProtectedApplicationFilterRequest pState bUdpDrop bRemove =
     (let aProgram = filter_program pState bUdpDrop; usCount = length aProgram;
          d = le32 36 @ request_header pState bUdpDrop bRemove
              @ replicate (IPSEC_PROTECTED_APPLICATION_NETLINK_CAPACITY - 36) 0
      in if bRemove then Some (IPSEC_OK, d) else
         append_ok (AppendProtectedApplicationAttribute d TCA_KIND (lit ''bpf'' @ [0])) (\<lambda>_ d.
         append_ok (AppendProtectedApplicationAttribute d TCA_OPTIONS []) (\<lambda>zOptions d.
         append_ok (AppendProtectedApplicationAttribute d TCA_BPF_OPS_LEN (le16 usCount)) (\<lambda>_ d.
         append_ok (AppendProtectedApplicationAttribute d TCA_BPF_OPS (concat (map sock_filter_bytes aProgram))) (\<lambda>_ d.
         append_ok (AppendProtectedApplicationAttribute d TCA_BPF_FLAGS_GEN (le32 TCA_CLS_FLAGS_SKIP_HW)) (\<lambda>_ d.
         append_ok (AppendProtectedApplicationAttribute d TCA_BPF_ACT []) (\<lambda>zActions d.
         append_ok (AppendProtectedApplicationAttribute d 1 []) (\<lambda>zAction d.
         append_ok (AppendProtectedApplicationAttribute d TCA_ACT_KIND (action_name bUdpDrop)) (\<lambda>_ d.
         append_ok (AppendProtectedApplicationAttribute d TCA_ACT_OPTIONS []) (\<lambda>zParameters d.
         append_ok (AppendProtectedApplicationAttribute d TCA_PARMS (action_parms pState bUdpDrop)) (\<lambda>_ d. do {
           d \<leftarrow> FinishProtectedApplicationNest d zParameters;
           d \<leftarrow> FinishProtectedApplicationNest d zAction;
           d \<leftarrow> FinishProtectedApplicationNest d zActions;
           d \<leftarrow> FinishProtectedApplicationNest d zOptions;
           Some (IPSEC_OK, d) })))))))))))"

section \<open>Searching attributes\<close>

definition NLA_TYPE_MASK :: nat where "NLA_TYPE_MASK = 0x3fff"

function FindIpsecProtectedApplicationAttribute ::
  "bytes \<Rightarrow> nat \<Rightarrow> bytes option \<Rightarrow> (IpsecError \<times> bytes option) option" where
  "FindIpsecProtectedApplicationAttribute pucData usType pucValue =
     (if length pucData = 0 then Some (IPSEC_OK, pucValue)
      else if length pucData < 4 then Some (IPSEC_ERR_NETLINK_PARSE, pucValue)
      else case (get16 pucData 0, get16 pucData 2) of
        (Some rta_len, Some rta_type) \<Rightarrow>
          (let zStep = RTA_ALIGN rta_len
           in if rta_len < 4 \<or> length pucData < zStep then Some (IPSEC_ERR_NETLINK_PARSE, pucValue)
              else if rta_type AND NLA_TYPE_MASK = usType
              then if pucValue \<noteq> None then Some (IPSEC_ERR_NETLINK_PARSE, pucValue)
                   else case rd_bytes pucData 4 (rta_len - 4) of None \<Rightarrow> None
                     | Some v \<Rightarrow> FindIpsecProtectedApplicationAttribute (drop zStep pucData) usType (Some v)
              else FindIpsecProtectedApplicationAttribute (drop zStep pucData) usType pucValue)
      | _ \<Rightarrow> None)"
  by pat_completeness auto
termination
  by (relation "measure (\<lambda>(d, t, v). length d)") (auto simp: RTA_ALIGN_def)

declare FindIpsecProtectedApplicationAttribute.simps [simp del]

abbreviation "FindAttribute d t \<equiv> FindIpsecProtectedApplicationAttribute d t None"

definition RequireProtectedApplicationAttribute :: "bytes \<Rightarrow> nat \<Rightarrow> (IpsecError \<times> bytes option) option" where
  "RequireProtectedApplicationAttribute pucData usType =
     map_option (\<lambda>(e, v). (if e = IPSEC_OK \<and> v = None then IPSEC_ERR_RESOURCE_CONFLICT else e, v))
       (FindAttribute pucData usType)"

section \<open>Validating an installed filter\<close>

text \<open>The value of a required attribute, or what the caller makes of its absence.\<close>

definition with_required ::
  "bytes \<Rightarrow> nat \<Rightarrow> (IpsecError \<Rightarrow> IpsecError) \<Rightarrow> (bytes \<Rightarrow> IpsecError option) \<Rightarrow> IpsecError option" where
  "with_required d t err f = (case RequireProtectedApplicationAttribute d t of
       None \<Rightarrow> None
     | Some (e, v) \<Rightarrow> if e \<noteq> IPSEC_OK then Some (err e) else case v of None \<Rightarrow> None | Some x \<Rightarrow> f x)"

abbreviation "conflict \<equiv> (\<lambda>_ :: IpsecError. IPSEC_ERR_RESOURCE_CONFLICT)"

text \<open>An optional 32-bit attribute that defaults to 0.\<close>

definition with_optional32 :: "bytes \<Rightarrow> nat \<Rightarrow> (u32 \<Rightarrow> IpsecError option) \<Rightarrow> IpsecError option" where
  "with_optional32 d t f = (case FindAttribute d t of
       None \<Rightarrow> None
     | Some (e, v) \<Rightarrow> if e \<noteq> IPSEC_OK then Some e else case v of None \<Rightarrow> f 0
         | Some x \<Rightarrow> if length x \<noteq> 4 then Some IPSEC_ERR_NETLINK_PARSE else get32 x 0 \<bind> f)"

definition ValidateProtectedApplicationProgramFlags :: "bytes \<Rightarrow> nat \<Rightarrow> IpsecError option" where
  "ValidateProtectedApplicationProgramFlags pucOptions usExpectedCount =
     with_required pucOptions TCA_BPF_OPS_LEN conflict (\<lambda>v.
       if length v \<noteq> 2 then Some IPSEC_ERR_RESOURCE_CONFLICT
       else get16 v 0 \<bind> (\<lambda>usCount.
         if usCount \<noteq> usExpectedCount then Some IPSEC_ERR_RESOURCE_CONFLICT
         else with_optional32 pucOptions TCA_BPF_FLAGS (\<lambda>uiFlags.
           if uiFlags \<noteq> 0 then Some IPSEC_ERR_RESOURCE_CONFLICT
           else with_required pucOptions TCA_BPF_FLAGS_GEN conflict (\<lambda>v.
             if length v \<noteq> 4 then Some IPSEC_ERR_RESOURCE_CONFLICT
             else get32 v 0 \<bind> (\<lambda>uiFlags.
               Some (if uiFlags AND TCA_CLS_FLAGS_SKIP_HW \<noteq> 0
                        \<and> uiFlags AND (TCA_CLS_FLAGS_SKIP_SW OR TCA_CLS_FLAGS_IN_HW) = 0
                     then IPSEC_OK else IPSEC_ERR_RESOURCE_CONFLICT))))))"

text \<open>The check of the parameters of the action: the verdict, and for a redirect its kind and its target.\<close>

definition validate_parms :: "IpsecProtectedApplicationState \<Rightarrow> bool \<Rightarrow> bytes \<Rightarrow> IpsecError option" where
  "validate_parms pState bUdpDrop v =
     (if bUdpDrop \<and> length v = 20
      then get32 v 8 \<bind> (\<lambda>action. Some (if action = TC_ACT_SHOT then IPSEC_OK else IPSEC_ERR_RESOURCE_CONFLICT))
      else if \<not> bUdpDrop \<and> length v = 28
      then get32 v 8 \<bind> (\<lambda>action. get32 v 20 \<bind> (\<lambda>eaction. get32 v 24 \<bind> (\<lambda>ifindex.
             Some (if action = TC_ACT_STOLEN \<and> eaction = TCA_EGRESS_REDIR \<and> ifindex = ap_uiTunIndex pState
                   then IPSEC_OK else IPSEC_ERR_RESOURCE_CONFLICT))))
      else Some IPSEC_ERR_RESOURCE_CONFLICT)"

definition validate_action :: "IpsecProtectedApplicationState \<Rightarrow> bool \<Rightarrow> bytes \<Rightarrow> IpsecError option" where
  "validate_action pState bUdpDrop pucOptions =
     with_required pucOptions TCA_BPF_ACT id (\<lambda>acts.
       with_required acts 1 id (\<lambda>act.
         if RTA_ALIGN (RTA_LENGTH (length act)) \<noteq> length acts then Some IPSEC_ERR_RESOURCE_CONFLICT
         else with_required act TCA_ACT_KIND id (\<lambda>kind.
           if kind \<noteq> action_name bUdpDrop then Some IPSEC_ERR_RESOURCE_CONFLICT
           else with_required act TCA_ACT_OPTIONS id (\<lambda>opts.
             with_required opts TCA_PARMS id (validate_parms pState bUdpDrop)))))"

definition ValidateIpsecProtectedApplicationFilter ::
  "IpsecProtectedApplicationState \<Rightarrow> bytes \<Rightarrow> bool \<Rightarrow> IpsecError option" where
  "ValidateIpsecProtectedApplicationFilter pState d bUdpDrop = do {
     let aProgram = filter_program pState bUdpDrop;
     nlmsg_len \<leftarrow> get32 d 0;
     if unat nlmsg_len < 36 then Some IPSEC_ERR_NETLINK_PARSE
     else do {
       tcm_ifindex \<leftarrow> get32 d 20;
       tcm_handle \<leftarrow> get32 d 24;
       tcm_parent \<leftarrow> get32 d 28;
       tcm_info \<leftarrow> get32 d 32;
       if tcm_ifindex \<noteq> ap_uiEgressIndex pState \<or> tcm_handle \<noteq> GetProtectedApplicationFilterHandle pState
          \<or> CLSACT_EGRESS \<noteq> tcm_parent \<or> tcm_info \<noteq> GetProtectedApplicationFilterInfo pState bUdpDrop
       then Some IPSEC_ERR_RESOURCE_CONFLICT
       else rd_bytes d 36 (unat nlmsg_len - 36) \<bind> (\<lambda>pucData.
         with_required pucData TCA_KIND conflict (\<lambda>kind.
           if kind \<noteq> lit ''bpf'' @ [0] then Some IPSEC_ERR_RESOURCE_CONFLICT
           else with_required pucData TCA_OPTIONS id (\<lambda>pucOptions.
             ValidateProtectedApplicationProgramFlags pucOptions (length aProgram) \<bind> (\<lambda>e.
               if e \<noteq> IPSEC_OK then Some e
               else with_required pucOptions TCA_BPF_OPS conflict (\<lambda>ops.
                 if ops \<noteq> concat (map sock_filter_bytes aProgram) then Some IPSEC_ERR_RESOURCE_CONFLICT
                 else validate_action pState bUdpDrop pucOptions))))) } }"

section \<open>Inspecting a dumped filter\<close>

definition InspectIpsecProtectedApplicationFilterMessage ::
  "IpsecProtectedApplicationState \<Rightarrow> bytes \<Rightarrow> bool \<Rightarrow> u32 \<Rightarrow> (IpsecError \<times> u32) option" where
  "InspectIpsecProtectedApplicationFilterMessage pState d bRequireEmpty uiFilterMask = do {
     nlmsg_len \<leftarrow> get32 d 0;
     nlmsg_type \<leftarrow> get16 d 4;
     if nlmsg_type \<noteq> RTM_NEWTFILTER \<or> unat nlmsg_len < 36 then Some (IPSEC_ERR_NETLINK_PARSE, uiFilterMask)
     else do {
       tcm_ifindex \<leftarrow> get32 d 20;
       tcm_handle \<leftarrow> get32 d 24;
       tcm_parent \<leftarrow> get32 d 28;
       tcm_info \<leftarrow> get32 d 32;
       if tcm_ifindex \<noteq> ap_uiEgressIndex pState \<or> CLSACT_EGRESS \<noteq> tcm_parent then Some (IPSEC_OK, uiFilterMask)
       else if tcm_handle \<noteq> 0 \<and> tcm_handle \<noteq> GetProtectedApplicationFilterHandle pState then Some (IPSEC_OK, uiFilterMask)
       else rd_bytes d 36 (unat nlmsg_len - 36) \<bind> (\<lambda>pucAttributes.
         let bUdp = (drop_bit 16 tcm_info = ucast (ap_usPriority pState) + 1); uiBit = (if bUdp then 2 else 1)
         in (with_required pucAttributes TCA_KIND conflict (\<lambda>kind.
               if kind \<noteq> lit ''bpf'' @ [0] then Some IPSEC_ERR_RESOURCE_CONFLICT
               else with_optional32 pucAttributes TCA_CHAIN (\<lambda>uiChain.
                 if uiChain \<noteq> 0 then Some IPSEC_ERR_RESOURCE_CONFLICT
                 else if tcm_handle = 0
                 then map_option (\<lambda>(e, v). if e = IPSEC_OK \<and> v = None then IPSEC_OK else IPSEC_ERR_RESOURCE_CONFLICT)
                        (FindAttribute pucAttributes TCA_OPTIONS)
                 else if bRequireEmpty then Some IPSEC_ERR_RESOURCE_CONFLICT
                 else if tcm_info \<noteq> GetProtectedApplicationFilterInfo pState bUdp then Some IPSEC_ERR_RESOURCE_CONFLICT
                 else if uiFilterMask AND uiBit \<noteq> 0 then Some IPSEC_ERR_RESOURCE_CONFLICT
                 else ValidateIpsecProtectedApplicationFilter pState d bUdp)))
            \<bind> (\<lambda>e. Some (e, if e = IPSEC_OK \<and> tcm_handle \<noteq> 0 then uiFilterMask OR uiBit else uiFilterMask))) } }"

end
