(* ===== verification/Tc_Request.thy ===== *)
theory Tc_Request
  imports Tc_Filter
begin

text \<open>
  What the requests of \<open>application_protected_filter.c\<close> are: the attribute search is exact with respect to
  sequences of attributes, a built request fits its buffer and is the expected tree of attributes, and the
  validation accepts a built request exactly when it describes the same filter.
\<close>

section \<open>Sequences of attributes\<close>

text \<open>An attribute: its raw type, its value, and the padding behind it.\<close>

type_synonym attribute = "nat \<times> bytes \<times> bytes"

fun attribute_wf :: "attribute \<Rightarrow> bool" where
  "attribute_wf (t, v, pad) \<longleftrightarrow> t < 65536 \<and> 4 + length v < 65536 \<and> length pad = RTA_ALIGN (4 + length v) - (4 + length v)"

fun attribute_bytes :: "attribute \<Rightarrow> bytes" where
  "attribute_bytes (t, v, pad) = le16 (4 + length v) @ le16 t @ v @ pad"

definition attribute_values :: "nat \<Rightarrow> attribute list \<Rightarrow> bytes list" where
  "attribute_values t as = map (fst \<circ> snd) (filter (\<lambda>a. fst a AND NLA_TYPE_MASK = t) as)"

lemma attribute_length: "attribute_wf (t, v, pad) \<Longrightarrow> length (attribute_bytes (t, v, pad)) = RTA_ALIGN (4 + length v)"
  using RTA_ALIGN_ge [of "4 + length v"] by simp

lemma Find_Nil: "FindIpsecProtectedApplicationAttribute [] t found = Some (IPSEC_OK, found)"
  by (subst FindIpsecProtectedApplicationAttribute.simps) simp

lemma Find_attribute:
  assumes "attribute_wf (t, v, pad)"
  shows "FindIpsecProtectedApplicationAttribute (attribute_bytes (t, v, pad) @ r) q found =
    (if t AND NLA_TYPE_MASK = q
     then if found \<noteq> None then Some (IPSEC_ERR_NETLINK_PARSE, found) else FindIpsecProtectedApplicationAttribute r q (Some v)
     else FindIpsecProtectedApplicationAttribute r q found)"
proof -
  let ?d = "attribute_bytes (t, v, pad) @ r"
  have hd: "get16 ?d 0 = Some (4 + length v)" "get16 ?d 2 = Some t"
    using assms get16_at [of "[]" 0 "4 + length v"] get16_at [of "le16 (4 + length v)" 2 t] by simp_all
  have len: "length (attribute_bytes (t, v, pad)) = RTA_ALIGN (4 + length v)"
    by (rule attribute_length [OF assms])
  have val: "rd_bytes ?d 4 (length v) = Some v"
    by (simp add: rd_bytes_def)
  have val': "rd_bytes (le16 (4 + length v) @ le16 t @ v @ pad @ r) 4 (length v) = Some v"
    using val by simp
  have step: "drop (RTA_ALIGN (4 + length v)) ?d = r" "\<not> length ?d < RTA_ALIGN (4 + length v)" "\<not> length ?d < 4" "length ?d \<noteq> 0"
    using len by simp_all
  show ?thesis
    by (subst FindIpsecProtectedApplicationAttribute.simps) (simp only: step hd val if_False prod.case option.case Let_def, simp add: val')
qed

lemma Find_complete:
  assumes "list_all attribute_wf as"
  shows "FindIpsecProtectedApplicationAttribute (concat (map attribute_bytes as)) q found =
    (case (found, attribute_values q as) of
       (None, []) \<Rightarrow> Some (IPSEC_OK, None)
     | (None, [v]) \<Rightarrow> Some (IPSEC_OK, Some v)
     | (None, v # _) \<Rightarrow> Some (IPSEC_ERR_NETLINK_PARSE, Some v)
     | (Some v, []) \<Rightarrow> Some (IPSEC_OK, Some v)
     | (Some v, _) \<Rightarrow> Some (IPSEC_ERR_NETLINK_PARSE, Some v))"
  using assms
proof (induction as arbitrary: found)
  case Nil
  then show ?case by (cases found) (simp_all add: Find_Nil attribute_values_def)
next
  case (Cons a as)
  obtain t v pad where a: "a = (t, v, pad)" by (cases a)
  have wf: "attribute_wf (t, v, pad)" and rest: "list_all attribute_wf as"
    using Cons.prems by (simp_all add: a)
  note ih = Cons.IH [OF rest]
  show ?case
    using Find_attribute [OF wf, of "concat (map attribute_bytes as)" q found] ih
    by (cases found) (auto simp: a attribute_values_def split: list.splits)
qed

text \<open>Whatever the search accepts is a sequence of attributes.\<close>

lemma attribute_front:
  assumes "4 \<le> n" and "RTA_ALIGN n \<le> length d" and "get16 d 0 = Some n" and "get16 d 2 = Some t"
  shows "\<exists>a. attribute_wf (t, a) \<and> attribute_bytes (t, a) = take (RTA_ALIGN n) d \<and> rd_bytes d 4 (n - 4) = Some (fst a)"
proof -
  let ?v = "take (n - 4) (drop 4 d)" and ?pad = "take (RTA_ALIGN n - n) (drop n d)"
  have n: "n \<le> RTA_ALIGN n" "n \<le> length d" "n < 65536" "t < 65536"
    using RTA_ALIGN_ge [of n] assms de16_bound by (auto simp: get16_def rd_bytes_def split: if_splits)
  have four: "take 4 d = le16 n @ le16 t"
  proof -
    have len: "3 < length d" using n assms(1) by simp
    have "n = de16 (d ! 1) (d ! 0)" "t = de16 (d ! 3) (d ! 2)"
      using assms(3,4) len by (simp_all add: get16_def rd_bytes_def)
    moreover have "le16 (de16 x y) = [y, x]" for x y
      using be16_de16 [of x y] by (simp add: be16_def le16_def)
    moreover have "take 4 d = [d ! 0, d ! 1, d ! 2, d ! 3]"
      using take_four [of 0 d] len by (simp add: numeral_eq_Suc)
    ultimately show ?thesis by simp
  qed
  have "take (RTA_ALIGN n) d = take 4 d @ ?v @ ?pad"
  proof -
    have "take n d = take 4 d @ ?v"
      using assms(1) take_add [of 4 "n - 4" d] by simp
    moreover have "take (RTA_ALIGN n) d = take n d @ ?pad"
      using n(1) take_add [of n "RTA_ALIGN n - n" d] by simp
    ultimately show ?thesis by simp
  qed
  then show ?thesis
    using n assms(1,2) four by (intro exI [of _ "(?v, ?pad)"]) (auto simp: rd_bytes_def)
qed

lemma Find_sound:
  "\<exists>e r. FindIpsecProtectedApplicationAttribute d q found = Some (e, r) \<and>
     (e = IPSEC_OK \<longrightarrow> (\<exists>as. list_all attribute_wf as \<and> d = concat (map attribute_bytes as)))"
proof (induction "length d" arbitrary: d found rule: less_induct)
  case less
  consider "d = []" | "d \<noteq> []" "length d < 4" | "4 \<le> length d" by force
  then show ?case
  proof cases
    case 1
    then show ?thesis by (auto simp: Find_Nil intro: exI [of _ "[]"])
  next
    case 2
    then show ?thesis by (subst FindIpsecProtectedApplicationAttribute.simps) simp
  next
    case 3
    then obtain n t where f: "get16 d 0 = Some n" "get16 d 2 = Some t"
      by (simp add: get16_def rd_bytes_def)
    show ?thesis
    proof (cases "n < 4 \<or> length d < RTA_ALIGN n")
      case True
      with f 3 show ?thesis by (subst FindIpsecProtectedApplicationAttribute.simps) (auto simp: Let_def)
    next
      case False
      then obtain v pad where a: "attribute_wf (t, v, pad)" "attribute_bytes (t, v, pad) = take (RTA_ALIGN n) d"
        "rd_bytes d 4 (n - 4) = Some v"
        using attribute_front [OF _ _ f] by fastforce
      then have d: "d = attribute_bytes (t, v, pad) @ drop (RTA_ALIGN n) d"
        by simp
      have more: "\<exists>as. list_all attribute_wf as \<and> d = concat (map attribute_bytes as)"
        if rest: "\<exists>as. list_all attribute_wf as \<and> drop (RTA_ALIGN n) d = concat (map attribute_bytes as)"
      proof -
        from rest obtain as where "list_all attribute_wf as" "drop (RTA_ALIGN n) d = concat (map attribute_bytes as)" by blast
        with a(1) d show ?thesis by (intro exI [of _ "(t, v, pad) # as"]) simp
      qed
      have run: "FindIpsecProtectedApplicationAttribute d q found =
        (if t AND NLA_TYPE_MASK = q
         then if found \<noteq> None then Some (IPSEC_ERR_NETLINK_PARSE, found)
              else FindIpsecProtectedApplicationAttribute (drop (RTA_ALIGN n) d) q (Some v)
         else FindIpsecProtectedApplicationAttribute (drop (RTA_ALIGN n) d) q found)"
        by (subst d) (rule Find_attribute [OF a(1)])
      have "4 \<le> RTA_ALIGN n" using False RTA_ALIGN_ge [of n] by simp
      then have "length (drop (RTA_ALIGN n) d) < length d" using 3 by simp
      note ih = less.hyps [OF this]
      show ?thesis
        using ih [of found] ih [of "Some v"] more unfolding run by (cases "t AND NLA_TYPE_MASK = q"; cases found) auto
    qed
  qed
qed

text \<open>
  C10. The attribute search is exact and safe on every block of bytes the kernel may send. It never reads
  outside the block. It succeeds exactly when the block is a sequence of well-formed attributes that has at
  most one of the wanted type, and then it returns that one's value, or nothing when there is none; the two
  flag bits above the type number are ignored. Anything else, truncated headers, lengths beyond the block or a
  duplicated attribute, is a parse error.
\<close>

theorem FindAttribute_exact:
  "FindAttribute d t \<noteq> None \<and>
   (\<forall>r. FindAttribute d t = Some (IPSEC_OK, r) \<longleftrightarrow>
      (\<exists>as. list_all attribute_wf as \<and> d = concat (map attribute_bytes as)
          \<and> attribute_values t as = (case r of None \<Rightarrow> [] | Some v \<Rightarrow> [v])))"
proof (intro conjI allI)
  show "FindAttribute d t \<noteq> None" using Find_sound [of d t None] by auto
  fix r
  show "FindAttribute d t = Some (IPSEC_OK, r) \<longleftrightarrow>
      (\<exists>as. list_all attribute_wf as \<and> d = concat (map attribute_bytes as)
          \<and> attribute_values t as = (case r of None \<Rightarrow> [] | Some v \<Rightarrow> [v]))"
  proof
    assume run: "FindAttribute d t = Some (IPSEC_OK, r)"
    then obtain as where as: "list_all attribute_wf as" "d = concat (map attribute_bytes as)"
      using Find_sound [of d t None] by auto
    with run Find_complete [OF as(1), of t None]
    have "attribute_values t as = (case r of None \<Rightarrow> [] | Some v \<Rightarrow> [v])"
      by (auto split: list.splits)
    with as show "\<exists>as. list_all attribute_wf as \<and> d = concat (map attribute_bytes as)
          \<and> attribute_values t as = (case r of None \<Rightarrow> [] | Some v \<Rightarrow> [v])" by blast
  next
    assume "\<exists>as. list_all attribute_wf as \<and> d = concat (map attribute_bytes as)
          \<and> attribute_values t as = (case r of None \<Rightarrow> [] | Some v \<Rightarrow> [v])"
    then show "FindAttribute d t = Some (IPSEC_OK, r)"
      using Find_complete [of _ t None] by (auto split: option.splits)
  qed
qed

section \<open>The request under construction\<close>

text \<open>
  A message with the given fixed part (32 bytes behind the length) and body: the length field counts both,
  the rest of the buffer is zero.
\<close>

definition request_is :: "bytes \<Rightarrow> bytes \<Rightarrow> bytes \<Rightarrow> bool" where
  "request_is d h body \<longleftrightarrow> length h = 32 \<and> length body \<le> 2012 \<and> 4 dvd length body
     \<and> d = le32 (of_nat (36 + length body)) @ h @ body @ replicate (2012 - length body) 0"

definition attr :: "nat \<Rightarrow> bytes \<Rightarrow> bytes" where
  "attr t v = le16 (4 + length v) @ le16 t @ v @ replicate (RTA_ALIGN (4 + length v) - (4 + length v)) 0"

lemma attr_length: "length (attr t v) = RTA_ALIGN (4 + length v)"
  using RTA_ALIGN_ge [of "4 + length v"] by (simp add: attr_def)

lemma request_length:
  assumes "request_is d h body"
  shows "length d = 2048" and "get32 d 0 = Some (of_nat (36 + length body))"
    and "unat (of_nat (36 + length body) :: u32) = 36 + length body" and "NLMSG_ALIGN (36 + length body) = 36 + length body"
proof -
  have b: "length body \<le> 2012" "4 dvd length body" using assms by (simp_all add: request_is_def)
  show "length d = 2048" using assms by (auto simp: request_is_def)
  show "get32 d 0 = Some (of_nat (36 + length body))"
    using assms get32_at [of "[]" 0] by (simp add: request_is_def)
  show "unat (of_nat (36 + length body) :: u32) = 36 + length body"
    using b(1) by (simp add: unat_of_nat take_bit_nat_def del: of_nat_add)
  have "4 dvd 36 + length body" using b(2) by simp
  with b(1) show "NLMSG_ALIGN (36 + length body) = 36 + length body"
    unfolding NLMSG_ALIGN_def by auto
qed

lemma Append_request:
  assumes d: "request_is d h body" and room: "length body + RTA_ALIGN (4 + length v) \<le> 2012"
  shows "\<exists>d'. AppendProtectedApplicationAttribute d t v = Some (IPSEC_OK, 36 + length body, d')
     \<and> request_is d' h (body @ attr t v)"
proof -
  let ?n = "36 + length body" and ?s = "RTA_ALIGN (4 + length v)"
  let ?z = "2012 - length body"
  let ?pad = "?s - (4 + length v)"
  have s: "4 + length v \<le> ?s" by (rule RTA_ALIGN_ge)
  have len: "length h = 32" "length body \<le> 2012" using d by (simp_all add: request_is_def)
  have d_eq: "d = (le32 (of_nat ?n) @ h @ body) @ replicate ?z 0" using d by (simp add: request_is_def)
  have z: "replicate ?z (0 :: u8) = replicate 4 0 @ replicate (length v) 0 @ replicate ?pad 0 @ replicate (2012 - (length body + ?s)) 0"
    using room s by (simp add: replicate_add [symmetric])
  have w1: "write_at d ?n (le16 (4 + length v) @ le16 t) =
      Some (le32 (of_nat ?n) @ h @ body @ le16 (4 + length v) @ le16 t @ replicate (length v) 0 @ replicate ?pad 0
        @ replicate (2012 - (length body + ?s)) 0)" (is "_ = Some ?d1")
    unfolding d_eq z using len by (subst write_at_append) auto
  have w2: "write_at ?d1 (?n + 4) v = Some (le32 (of_nat ?n) @ h @ body @ attr t v @ replicate (2012 - (length body + ?s)) 0)"
    (is "_ = Some ?d2")
    using write_at_append [of "le32 (of_nat ?n) @ h @ body @ le16 (4 + length v) @ le16 t" "?n + 4" v
        "replicate (length v) 0 @ replicate ?pad 0 @ replicate (2012 - (length body + ?s)) 0"] len
    by (simp add: attr_def)
  have w2': "(if 0 < length v then write_at ?d1 (?n + 4) v else Some ?d1) = Some ?d2"
    using w2 by (cases "v = []") (simp_all add: attr_def)
  have w3: "write_at ?d2 0 (le32 w) = Some (le32 w @ h @ body @ attr t v @ replicate (2012 - (length body + ?s)) 0)" for w
    using write_at_append [of "[]" 0 "le32 w" ?d2] by simp
  have "AppendProtectedApplicationAttribute d t v = Some (IPSEC_OK, ?n,
      le32 (of_nat (?n + ?s)) @ h @ body @ attr t v @ replicate (2012 - (length body + ?s)) 0)"
    using room s request_length [OF d]
    by (simp only: AppendProtectedApplicationAttribute_def RTA_LENGTH_def Let_def bind.bind_lunit w1 w2' w3
        IPSEC_PROTECTED_APPLICATION_NETLINK_CAPACITY_def if_False) simp
  moreover have "4 dvd length (body @ attr t v)"
    using d RTA_ALIGN_dvd by (simp add: attr_length request_is_def)
  ultimately show ?thesis
    using room len by (simp add: request_is_def attr_length add.assoc)
qed

lemma append_ok_request:
  assumes "request_is d h body" and "length body + RTA_ALIGN (4 + length v) \<le> 2012"
    and "\<And>d'. request_is d' h (body @ attr t v) \<Longrightarrow> \<exists>d''. f (36 + length body) d' = Some (IPSEC_OK, d'') \<and> P d''"
  shows "\<exists>d''. append_ok (AppendProtectedApplicationAttribute d t v) f = Some (IPSEC_OK, d'') \<and> P d''"
  using Append_request [OF assms(1,2), of t] assms(3) by (auto simp: append_ok_def)

definition nest :: "nat \<Rightarrow> bytes \<Rightarrow> bytes" where
  "nest t q = le16 (4 + length q) @ le16 t @ q"

lemma nest_length [simp]: "length (nest t q) = 4 + length q"
  by (simp add: nest_def)

lemma attr_empty: "attr t [] = le16 4 @ le16 t"
  by (simp add: attr_def RTA_ALIGN_def)

lemma Finish_request:
  assumes "request_is d h (p @ le16 x @ le16 t @ q)"
  shows "\<exists>d'. FinishProtectedApplicationNest d (36 + length p) = Some d' \<and> request_is d' h (p @ nest t q)"
proof -
  let ?body = "p @ le16 x @ le16 t @ q"
  let ?l = "le32 (of_nat (36 + length ?body))" and ?z = "replicate (2012 - length ?body) 0"
  have d: "d = (?l @ h @ p) @ le16 x @ le16 t @ q @ ?z" and h: "length h = 32"
    using assms by (simp_all add: request_is_def)
  have field: "le16 (36 + length ?body + 2 ^ 64 - (36 + length p)) = le16 (4 + length q)"
  proof (rule le16_cong)
    have "36 + length ?body + 2 ^ 64 - (36 + length p) = 4 + length q + 65536 * 281474976710656" by simp
    then show "(36 + length ?body + 2 ^ 64 - (36 + length p)) mod 65536 = (4 + length q) mod 65536"
      by (simp only: mod_mult_self2)
  qed
  have "write_at d (36 + length p) (le16 n) = Some ((?l @ h @ p) @ le16 n @ le16 t @ q @ ?z)" for n
    unfolding d using h by (subst write_at_append) simp_all
  then have "FinishProtectedApplicationNest d (36 + length p) = Some ((?l @ h @ p) @ le16 (4 + length q) @ le16 t @ q @ ?z)"
    unfolding FinishProtectedApplicationNest_def
    by (simp only: request_length(2,3) [OF assms] bind.bind_lunit field)
  with assms show ?thesis by (simp add: request_is_def nest_def)
qed

section \<open>The finished request\<close>

definition filter_options :: "IpsecProtectedApplicationState \<Rightarrow> bool \<Rightarrow> bytes" where
  "filter_options s b = (let prog = filter_program s b in
     attr TCA_BPF_OPS_LEN (le16 (length prog)) @ attr TCA_BPF_OPS (concat (map sock_filter_bytes prog))
     @ attr TCA_BPF_FLAGS_GEN (le32 TCA_CLS_FLAGS_SKIP_HW)
     @ nest TCA_BPF_ACT (nest 1 (attr TCA_ACT_KIND (action_name b)
        @ nest TCA_ACT_OPTIONS (attr TCA_PARMS (action_parms s b)))))"

definition filter_body :: "IpsecProtectedApplicationState \<Rightarrow> bool \<Rightarrow> bytes" where
  "filter_body s b = attr TCA_KIND (lit ''bpf'' @ [0]) @ nest TCA_OPTIONS (filter_options s b)"

lemma program_bytes_length:
  "length (filter_program s b) = (if b then 23 else 11)"
  "length (concat (map sock_filter_bytes (filter_program s b))) = (if b then 184 else 88)"
proof -
  have "length (concat (map sock_filter_bytes p)) = 8 * length p" for p
    by (induction p) (simp_all add: sock_filter_bytes_def)
  then show "length (filter_program s b) = (if b then 23 else 11)"
    "length (concat (map sock_filter_bytes (filter_program s b))) = (if b then 184 else 88)"
    by (simp_all add: filter_program_def BuildIpsecProtectedApplicationProgram_def udp_program_def raw_program_def Let_def)
qed

lemma part_lengths:
  "length (action_name b) = (if b then 5 else 7)"
  "length (action_parms s b) = (if b then 20 else 28)"
  "length (request_header s b r) = 32"
  by (simp_all add: action_name_def action_parms_def tc_gact_bytes_def tc_mirred_bytes_def request_header_def)

lemma Finish_nests:
  assumes "request_is d h (A @ attr t1 [] @ B @ attr t2 [] @ attr t3 [] @ C @ attr t4 [] @ D)"
  shows "\<exists>d'. do {
      d \<leftarrow> FinishProtectedApplicationNest d (36 + length (A @ attr t1 [] @ B @ attr t2 [] @ attr t3 [] @ C));
      d \<leftarrow> FinishProtectedApplicationNest d (36 + length (A @ attr t1 [] @ B @ attr t2 []));
      d \<leftarrow> FinishProtectedApplicationNest d (36 + length (A @ attr t1 [] @ B));
      d \<leftarrow> FinishProtectedApplicationNest d (36 + length A);
      Some (IPSEC_OK, d) } = Some (IPSEC_OK, d')
    \<and> request_is d' h (A @ nest t1 (B @ nest t2 (nest t3 (C @ nest t4 D))))"
proof -
  obtain d1 where d1: "FinishProtectedApplicationNest d (36 + length (A @ attr t1 [] @ B @ attr t2 [] @ attr t3 [] @ C)) = Some d1"
    "request_is d1 h ((A @ attr t1 [] @ B @ attr t2 [] @ attr t3 [] @ C) @ nest t4 D)"
    using Finish_request [of d h "A @ attr t1 [] @ B @ attr t2 [] @ attr t3 [] @ C" 4 t4 D] assms
    by (auto simp: attr_empty)
  then obtain d2 where d2: "FinishProtectedApplicationNest d1 (36 + length (A @ attr t1 [] @ B @ attr t2 [])) = Some d2"
    "request_is d2 h ((A @ attr t1 [] @ B @ attr t2 []) @ nest t3 (C @ nest t4 D))"
    using Finish_request [of d1 h "A @ attr t1 [] @ B @ attr t2 []" 4 t3 "C @ nest t4 D"] by (auto simp: attr_empty)
  then obtain d3 where d3: "FinishProtectedApplicationNest d2 (36 + length (A @ attr t1 [] @ B)) = Some d3"
    "request_is d3 h ((A @ attr t1 [] @ B) @ nest t2 (nest t3 (C @ nest t4 D)))"
    using Finish_request [of d2 h "A @ attr t1 [] @ B" 4 t2 "nest t3 (C @ nest t4 D)"] by (auto simp: attr_empty)
  then obtain d4 where "FinishProtectedApplicationNest d3 (36 + length A) = Some d4"
    "request_is d4 h (A @ nest t1 (B @ nest t2 (nest t3 (C @ nest t4 D))))"
    using Finish_request [of d3 h A 4 t1 "B @ nest t2 (nest t3 (C @ nest t4 D))"] by (auto simp: attr_empty)
  with d1 d2 d3 show ?thesis by (simp only: bind.bind_lunit) blast
qed

lemma Build_request:
  "\<exists>d. BuildIpsecProtectedApplicationFilterRequest s b False = Some (IPSEC_OK, d)
     \<and> request_is d (request_header s b False) (filter_body s b)"
proof -
  let ?h = "request_header s b False"
  let ?p = "filter_program s b"
  let ?B = "attr TCA_BPF_OPS_LEN (le16 (length ?p)) @ attr TCA_BPF_OPS (concat (map sock_filter_bytes ?p))
     @ attr TCA_BPF_FLAGS_GEN (le32 TCA_CLS_FLAGS_SKIP_HW)"
  have start: "request_is (le32 36 @ ?h @ replicate (IPSEC_PROTECTED_APPLICATION_NETLINK_CAPACITY - 36) 0) ?h []"
    by (simp add: request_is_def part_lengths IPSEC_PROTECTED_APPLICATION_NETLINK_CAPACITY_def)
  have body: "filter_body s b = attr TCA_KIND (lit ''bpf'' @ [0]) @ nest TCA_OPTIONS (?B @ nest TCA_BPF_ACT
      (nest 1 (attr TCA_ACT_KIND (action_name b) @ nest TCA_ACT_OPTIONS (attr TCA_PARMS (action_parms s b)))))"
    by (simp add: filter_body_def filter_options_def Let_def)
  note lens = part_lengths program_bytes_length attr_length RTA_ALIGN_def
  show ?thesis
    unfolding BuildIpsecProtectedApplicationFilterRequest_def Let_def if_False body
    apply (rule append_ok_request [OF start], simp add: lens)
    apply (erule append_ok_request, simp add: lens)+
    subgoal for d1 d2 d3 d4 d5 d6 d7 d8 d9 d10
      using Finish_nests [of d10 ?h "attr TCA_KIND (lit ''bpf'' @ [0])" TCA_OPTIONS ?B TCA_BPF_ACT 1
          "attr TCA_ACT_KIND (action_name b)" TCA_ACT_OPTIONS "attr TCA_PARMS (action_parms s b)"]
      by (simp only: append_Nil append_assoc)
    done
qed

section \<open>Reading a request back\<close>

lemma Find_attr:
  "t < 65536 \<Longrightarrow> 4 + length v < 65536 \<Longrightarrow> FindIpsecProtectedApplicationAttribute (attr t v @ r) q found =
    (if t AND NLA_TYPE_MASK = q
     then if found \<noteq> None then Some (IPSEC_ERR_NETLINK_PARSE, found) else FindIpsecProtectedApplicationAttribute r q (Some v)
     else FindIpsecProtectedApplicationAttribute r q found)"
  using Find_attribute [of t v "replicate (RTA_ALIGN (4 + length v) - (4 + length v)) 0" r q found]
  by (simp add: attr_def)

lemma nest_attr: "4 dvd length q \<Longrightarrow> nest t q = attr t q"
proof -
  assume "4 dvd length q"
  then have "RTA_ALIGN (4 + length q) = 4 + length q" unfolding RTA_ALIGN_def by auto
  then show ?thesis by (simp add: nest_def attr_def)
qed

lemma Find_last: "t < 65536 \<Longrightarrow> 4 + length v < 65536 \<Longrightarrow> FindIpsecProtectedApplicationAttribute (attr t v) q found =
    (if t AND NLA_TYPE_MASK = q
     then if found \<noteq> None then Some (IPSEC_ERR_NETLINK_PARSE, found) else Some (IPSEC_OK, Some v)
     else Some (IPSEC_OK, found))"
  using Find_attr [of t v "[]" q found] by (simp add: Find_Nil)

lemma with_required_found: "FindAttribute d t = Some (IPSEC_OK, Some v) \<Longrightarrow> with_required d t err f = f v"
  by (simp add: with_required_def RequireProtectedApplicationAttribute_def)

lemma with_optional32_absent: "FindAttribute d t = Some (IPSEC_OK, None) \<Longrightarrow> with_optional32 d t f = f 0"
  by (simp add: with_optional32_def)

definition filter_action :: "IpsecProtectedApplicationState \<Rightarrow> bool \<Rightarrow> bytes" where
  "filter_action s b = attr TCA_ACT_KIND (action_name b) @ attr TCA_ACT_OPTIONS (attr TCA_PARMS (action_parms s b))"

lemma parms_length: "length (attr TCA_PARMS (action_parms s b)) = (if b then 24 else 32)"
  by (simp add: attr_length part_lengths RTA_ALIGN_def)

lemma action_length: "length (filter_action s b) = (if b then 40 else 48)"
  by (simp add: filter_action_def attr_length part_lengths parms_length RTA_ALIGN_def)

lemma options_flat:
  "filter_options s b = attr TCA_BPF_OPS_LEN (le16 (length (filter_program s b)))
     @ attr TCA_BPF_OPS (concat (map sock_filter_bytes (filter_program s b)))
     @ attr TCA_BPF_FLAGS_GEN (le32 TCA_CLS_FLAGS_SKIP_HW) @ attr TCA_BPF_ACT (attr 1 (filter_action s b))"
proof -
  have 1: "nest TCA_ACT_OPTIONS (attr TCA_PARMS (action_parms s b)) = attr TCA_ACT_OPTIONS (attr TCA_PARMS (action_parms s b))"
    by (rule nest_attr) (simp add: attr_length RTA_ALIGN_dvd)
  have 2: "nest 1 (filter_action s b) = attr 1 (filter_action s b)"
    by (rule nest_attr) (simp add: action_length)
  have "nest TCA_BPF_ACT (attr 1 (filter_action s b)) = attr TCA_BPF_ACT (attr 1 (filter_action s b))"
    by (rule nest_attr) (simp add: attr_length RTA_ALIGN_dvd)
  then show ?thesis
    unfolding filter_options_def Let_def 1 filter_action_def [symmetric] 2 by (simp only:)
qed

lemma options_length: "length (filter_options s b) = (if b then 252 else 164)"
  by (simp add: options_flat attr_length program_bytes_length action_length RTA_ALIGN_def)

lemma body_flat: "filter_body s b = attr TCA_KIND (lit ''bpf'' @ [0]) @ attr TCA_OPTIONS (filter_options s b)"
  unfolding filter_body_def by (simp add: nest_attr options_length)

lemma body_length: "length (filter_body s b) = (if b then 264 else 176)"
  by (simp add: body_flat attr_length options_length RTA_ALIGN_def)

lemmas found_simps = Find_attr Find_last NLA_TYPE_MASK_def tc_numbers program_bytes_length part_lengths
  action_length attr_length parms_length options_length RTA_ALIGN_def

lemma body_found:
  "FindAttribute (filter_body s b) TCA_KIND = Some (IPSEC_OK, Some (lit ''bpf'' @ [0]))"
  "FindAttribute (filter_body s b) TCA_OPTIONS = Some (IPSEC_OK, Some (filter_options s b))"
  "FindAttribute (filter_body s b) TCA_CHAIN = Some (IPSEC_OK, None)"
  by (simp_all add: body_flat found_simps)

lemma options_found:
  "FindAttribute (filter_options s b) TCA_BPF_OPS_LEN = Some (IPSEC_OK, Some (le16 (length (filter_program s b))))"
  "FindAttribute (filter_options s b) TCA_BPF_OPS = Some (IPSEC_OK, Some (concat (map sock_filter_bytes (filter_program s b))))"
  "FindAttribute (filter_options s b) TCA_BPF_FLAGS = Some (IPSEC_OK, None)"
  "FindAttribute (filter_options s b) TCA_BPF_FLAGS_GEN = Some (IPSEC_OK, Some (le32 TCA_CLS_FLAGS_SKIP_HW))"
  "FindAttribute (filter_options s b) TCA_BPF_ACT = Some (IPSEC_OK, Some (attr 1 (filter_action s b)))"
  by (simp_all add: options_flat found_simps)

lemma action_found:
  "FindAttribute (attr 1 (filter_action s b)) 1 = Some (IPSEC_OK, Some (filter_action s b))"
  "FindAttribute (filter_action s b) TCA_ACT_KIND = Some (IPSEC_OK, Some (action_name b))"
  "FindAttribute (filter_action s b) TCA_ACT_OPTIONS = Some (IPSEC_OK, Some (attr TCA_PARMS (action_parms s b)))"
  "FindAttribute (attr TCA_PARMS (action_parms s b)) TCA_PARMS = Some (IPSEC_OK, Some (action_parms s b))"
  by (simp_all add: filter_action_def found_simps)

section \<open>Validation of a built request\<close>

text \<open>The filter of a state: everything of the state that determines what the kernel does with packets.\<close>

definition same_filter ::
  "IpsecProtectedApplicationState \<Rightarrow> bool \<Rightarrow> IpsecProtectedApplicationState \<Rightarrow> bool \<Rightarrow> bool" where
  "same_filter s b s' b' \<longleftrightarrow> b = b' \<and> ap_uiEgressIndex s = ap_uiEgressIndex s'
     \<and> GetProtectedApplicationFilterHandle s = GetProtectedApplicationFilterHandle s'
     \<and> ap_usPriority s = ap_usPriority s'
     \<and> ap_uiLocalAddress s = ap_uiLocalAddress s' \<and> ap_uiRemoteAddress s = ap_uiRemoteAddress s'
     \<and> (b \<or> ap_uiTunIndex s = ap_uiTunIndex s')"

lemma ReadAddress_inject: "ReadProtectedApplicationAddress v = ReadProtectedApplicationAddress w \<longleftrightarrow> v = w"
proof -
  have "ReadProtectedApplicationAddress u = de32 (le32 u ! 0) (le32 u ! 1) (le32 u ! 2) (le32 u ! 3)" for u
    by (simp add: ReadProtectedApplicationAddress_def le32_def de32_def)
  then show ?thesis
    using de32_inject le32_inject by (auto simp: le32_def)
qed

lemma filter_bytes_inject:
  "concat (map sock_filter_bytes (filter_program s b)) = concat (map sock_filter_bytes (filter_program s' b)) \<longleftrightarrow>
     ap_uiLocalAddress s = ap_uiLocalAddress s' \<and> ap_uiRemoteAddress s = ap_uiRemoteAddress s'"
  by (simp add: filter_program_def BuildIpsecProtectedApplicationProgram_def udp_program_def raw_program_def Let_def
      sock_filter_bytes_def BPF_STMT_def BPF_JUMP_def le32_inject ReadAddress_inject)

lemma narrow_add: "(ucast (ucast (p :: u16) + c :: u32) :: u16) = p + ucast c"
proof -
  have "(x mod 4294967296) mod 65536 = x mod (65536 :: int)" for x
    by (rule mod_mod_cancel) simp
  then have m: "(x + y mod 4294967296) mod 65536 = (x + y) mod (65536 :: int)" for x y
    using mod_add_right_eq [of x "y mod 4294967296" 65536] mod_add_right_eq [of x y 65536] by simp
  show ?thesis
    by transfer (simp add: take_bit_eq_mod mod_mod_cancel mod_simps m)
qed

lemma info_inject:
  "GetProtectedApplicationFilterInfo s b = GetProtectedApplicationFilterInfo s' b \<longleftrightarrow> ap_usPriority s = ap_usPriority s'"
proof
  let ?c = "if b then 1 else 0 :: u32"
  assume eq: "GetProtectedApplicationFilterInfo s b = GetProtectedApplicationFilterInfo s' b"
  have low: "push_bit 16 x OR (of_nat (de16 3 0)) = push_bit 16 y OR (of_nat (de16 3 0)) \<Longrightarrow> (ucast x :: u16) = ucast y" for x y :: u32
  proof -
    assume e: "push_bit 16 x OR (of_nat (de16 3 0) :: u32) = push_bit 16 y OR of_nat (de16 3 0)"
    have "(ucast (drop_bit 16 (push_bit 16 z OR (of_nat (de16 3 0) :: u32))) :: u16) = ucast z" for z :: u32
      by (rule bit_word_eqI) (auto simp: bit_simps de16_def)
    with e show ?thesis by metis
  qed
  have "(ucast (ucast (ap_usPriority s) + ?c) :: u16) = ucast (ucast (ap_usPriority s') + ?c)"
    by (rule low) (use eq in \<open>simp add: GetProtectedApplicationFilterInfo_def\<close>)
  then show "ap_usPriority s = ap_usPriority s'"
    by (simp add: narrow_add)
qed (simp add: GetProtectedApplicationFilterInfo_def)

lemma header_fields:
  assumes "request_is d (request_header s b r) body"
  shows "get16 d 4 = Some (if r then RTM_DELTFILTER else RTM_NEWTFILTER)"
    and "get32 d 20 = Some (ap_uiEgressIndex s)" and "get32 d 24 = Some (GetProtectedApplicationFilterHandle s)"
    and "get32 d 28 = Some CLSACT_EGRESS" and "get32 d 32 = Some (GetProtectedApplicationFilterInfo s b)"
    and "rd_bytes d 36 (length body) = Some body"
proof -
  let ?l = "le32 (of_nat (36 + length body))"
  let ?t = "le16 (if r then RTM_DELTFILTER else RTM_NEWTFILTER)
     @ le16 (if r then NLM_F_REQUEST OR NLM_F_ACK else NLM_F_REQUEST OR NLM_F_ACK OR NLM_F_CREATE OR NLM_F_EXCL)"
  let ?z = "replicate (2012 - length body) (0 :: u8)"
  have d: "d = ?l @ ?t @ le32 0 @ le32 0 @ [0, 0, 0, 0] @ le32 (ap_uiEgressIndex s) @ le32 (GetProtectedApplicationFilterHandle s)
      @ le32 CLSACT_EGRESS @ le32 (GetProtectedApplicationFilterInfo s b) @ body @ ?z"
    using assms by (simp add: request_is_def request_header_def)
  let ?p = "?l @ ?t @ le32 0 @ le32 0 @ [0, 0, 0, 0]"
  show "get16 d 4 = Some (if r then RTM_DELTFILTER else RTM_NEWTFILTER)"
    unfolding d using get16_at [of ?l 4] by (simp add: tc_numbers)
  show "get32 d 20 = Some (ap_uiEgressIndex s)"
    unfolding d using get32_at [of ?p 20] by simp
  show "get32 d 24 = Some (GetProtectedApplicationFilterHandle s)"
    unfolding d using get32_at [of "?p @ le32 (ap_uiEgressIndex s)" 24] by simp
  show "get32 d 28 = Some CLSACT_EGRESS"
    unfolding d
    using get32_at [of "?p @ le32 (ap_uiEgressIndex s) @ le32 (GetProtectedApplicationFilterHandle s)" 28] by simp
  show "get32 d 32 = Some (GetProtectedApplicationFilterInfo s b)"
    unfolding d
    using get32_at [of "?p @ le32 (ap_uiEgressIndex s) @ le32 (GetProtectedApplicationFilterHandle s) @ le32 CLSACT_EGRESS" 32]
    by simp
  show "rd_bytes d 36 (length body) = Some body"
    unfolding d by (simp add: rd_bytes_def)
qed

lemma parms_validate:
  "validate_parms s' b (action_parms s b) =
     Some (if b \<or> ap_uiTunIndex s = ap_uiTunIndex s' then IPSEC_OK else IPSEC_ERR_RESOURCE_CONFLICT)"
proof -
  have z: "tc_gact_bytes a @ r = (le32 0 @ le32 0) @ le32 a @ (le32 0 @ le32 0 @ r)" for a r
    by (simp add: tc_gact_bytes_def)
  have a: "get32 (tc_gact_bytes a @ r) 8 = Some a" for a r
    unfolding z by (rule get32_at) simp
  have e: "get32 (tc_mirred_bytes a e i) 20 = Some e" "get32 (tc_mirred_bytes a e i) 24 = Some i" for a e i
    using get32_at [of "tc_gact_bytes a" 20 e "le32 i"] get32_at [of "tc_gact_bytes a @ le32 e" 24 i "[]"]
    by (simp_all add: tc_mirred_bytes_def tc_gact_bytes_def)
  show ?thesis
  proof (cases b)
    case True
    then show ?thesis
      using a [of TC_ACT_SHOT "[]"] part_lengths(2) [of s True] by (simp add: validate_parms_def action_parms_def)
  next
    case False
    then show ?thesis
      using a [of TC_ACT_STOLEN] e part_lengths(2) [of s False]
      by (auto simp: validate_parms_def action_parms_def tc_mirred_bytes_def)
  qed
qed

lemma action_name_inject: "action_name b = action_name b' \<longleftrightarrow> b = b'"
  using part_lengths(1) [of b] part_lengths(1) [of b'] by (cases b; cases b') auto

lemma action_validate:
  "validate_action s' b' (filter_options s b) =
     Some (if b = b' \<and> (b \<or> ap_uiTunIndex s = ap_uiTunIndex s') then IPSEC_OK else IPSEC_ERR_RESOURCE_CONFLICT)"
proof -
  have "RTA_ALIGN (RTA_LENGTH (length (filter_action s b))) = length (attr 1 (filter_action s b))"
    by (simp add: RTA_LENGTH_def attr_length)
  then show ?thesis
    unfolding validate_action_def with_required_found [OF options_found(5)] with_required_found [OF action_found(1)]
      with_required_found [OF action_found(2)] with_required_found [OF action_found(3)] with_required_found [OF action_found(4)]
    by (auto simp: action_name_inject parms_validate)
qed

lemma flags_validate:
  "ValidateProtectedApplicationProgramFlags (filter_options s b) n =
     Some (if n = length (filter_program s b) then IPSEC_OK else IPSEC_ERR_RESOURCE_CONFLICT)"
proof -
  have c: "get16 (le16 (length (filter_program s b))) 0 = Some (length (filter_program s b))"
    using get16_at [of "[]" 0 "length (filter_program s b)" "[]"] program_bytes_length(1) [of s b] by simp
  have f: "get32 (le32 w) 0 = Some w" for w
    using get32_at [of "[]" 0 w "[]"] by simp
  show ?thesis
    unfolding ValidateProtectedApplicationProgramFlags_def with_required_found [OF options_found(1)]
      with_optional32_absent [OF options_found(3)] with_required_found [OF options_found(4)] c f
    by (simp add: tc_numbers)
qed

lemma Validate_request:
  assumes "request_is d (request_header s b False) (filter_body s b)"
  shows "ValidateIpsecProtectedApplicationFilter s' d b' =
    Some (if same_filter s b s' b' then IPSEC_OK else IPSEC_ERR_RESOURCE_CONFLICT)"
proof -
  note h = header_fields [OF assms] request_length(2,3) [OF assms]
  have len: "36 + length (filter_body s b) - 36 = length (filter_body s b)" by simp
  have prog: "filter_program s b = filter_program s' b' \<Longrightarrow> b = b'"
    using program_bytes_length(1) [of s b] program_bytes_length(1) [of s' b'] by (cases b; cases b') auto
  show ?thesis
  proof (cases "b = b'")
    case True
    then show ?thesis
      unfolding ValidateIpsecProtectedApplicationFilter_def Let_def h bind.bind_lunit len
        with_required_found [OF body_found(1)] with_required_found [OF body_found(2)] flags_validate
        with_required_found [OF options_found(2)] action_validate
      by (auto simp: filter_bytes_inject info_inject same_filter_def program_bytes_length)
  next
    case False
    then have "length (filter_program s' b') \<noteq> length (filter_program s b)"
      by (simp add: program_bytes_length)
    with False show ?thesis
      unfolding ValidateIpsecProtectedApplicationFilter_def Let_def h bind.bind_lunit len
        with_required_found [OF body_found(1)] with_required_found [OF body_found(2)] flags_validate
      by (auto simp: same_filter_def)
  qed
qed

text \<open>
  C6. The request to install a filter is always built, it fits its buffer, and it identifies its filter
  completely: for every state and either filter, the validation accepts the built request exactly for the
  state and filter it was built from (the same kind of filter, egress interface, handle, priority and
  addresses, and for the redirect the same target interface) and reports a conflict for every other. The
  request to remove a filter names the same interface, handle, parent and priority as the one that installs it.
\<close>

theorem filter_request_exact:
  "\<exists>d d'. BuildIpsecProtectedApplicationFilterRequest s b False = Some (IPSEC_OK, d)
     \<and> length d = IPSEC_PROTECTED_APPLICATION_NETLINK_CAPACITY
     \<and> (\<forall>s' b'. ValidateIpsecProtectedApplicationFilter s' d b' =
          Some (if same_filter s b s' b' then IPSEC_OK else IPSEC_ERR_RESOURCE_CONFLICT))
     \<and> BuildIpsecProtectedApplicationFilterRequest s b True = Some (IPSEC_OK, d')
     \<and> get32 d' 0 = Some 36 \<and> get16 d' 4 = Some RTM_DELTFILTER \<and> take 16 (drop 20 d') = take 16 (drop 20 d)"
proof -
  obtain d where d: "BuildIpsecProtectedApplicationFilterRequest s b False = Some (IPSEC_OK, d)"
    "request_is d (request_header s b False) (filter_body s b)"
    using Build_request by blast
  let ?d' = "le32 36 @ request_header s b True @ replicate (IPSEC_PROTECTED_APPLICATION_NETLINK_CAPACITY - 36) 0"
  have rm: "BuildIpsecProtectedApplicationFilterRequest s b True = Some (IPSEC_OK, ?d')"
    by (simp add: BuildIpsecProtectedApplicationFilterRequest_def Let_def)
  have "request_is ?d' (request_header s b True) []"
    by (simp add: request_is_def part_lengths IPSEC_PROTECTED_APPLICATION_NETLINK_CAPACITY_def)
  note h = header_fields(1) [OF this] request_length(2) [OF this]
  have "take 16 (drop 20 ?d') = take 16 (drop 20 d)"
    using d(2) by (simp add: request_is_def request_header_def)
  with d rm h show ?thesis
    using Validate_request [OF d(2)] request_length(1) [OF d(2)]
    by (auto simp: IPSEC_PROTECTED_APPLICATION_NETLINK_CAPACITY_def)
qed

section \<open>Inspection of a dump\<close>

definition filter_bit :: "bool \<Rightarrow> u32" where
  "filter_bit b = (if b then 2 else 1)"

lemma info_kind:
  assumes "ap_usPriority s \<noteq> 0xffff"
  shows "drop_bit 16 (GetProtectedApplicationFilterInfo s b) = ucast (ap_usPriority s) + (1 :: u32) \<longleftrightarrow> b"
proof -
  have p: "unat (ap_usPriority s) < 65535"
  proof -
    have "unat (ap_usPriority s) \<noteq> unat (0xffff :: u16)"
      using assms word_unat_eq_iff by blast
    with u16_bound [of "ap_usPriority s"] show ?thesis by simp
  qed
  have drop: "drop_bit 16 (push_bit 16 w OR (of_nat (de16 3 0) :: u32)) = w" if "unat w < 65536" for w :: u32
  proof -
    have "w = take_bit 16 w"
      using that by (simp add: word_unat_eq_iff unsigned_take_bit_eq take_bit_nat_def)
    then have "bit w n \<Longrightarrow> n < 16" for n by (metis bit_take_bit_iff)
    then show ?thesis by (intro bit_word_eqI) (auto simp: bit_simps de16_def)
  qed
  have u: "unat (ucast (ap_usPriority s) + (if b then 1 else 0) :: u32) = unat (ap_usPriority s) + (if b then 1 else 0)"
    using p by (auto simp: unat_word_ariths unsigned_ucast_eq take_bit_nat_def)
  have "drop_bit 16 (GetProtectedApplicationFilterInfo s b) = ucast (ap_usPriority s) + (if b then 1 else 0 :: u32)"
    unfolding GetProtectedApplicationFilterInfo_def Let_def using drop u p by (cases b) simp_all
  then show ?thesis by (cases b) simp_all
qed

lemma Inspect_request:
  assumes d: "request_is d (request_header s b False) (filter_body s b)"
    and prio: "ap_usPriority s' \<noteq> 0xffff" and egress: "ap_uiEgressIndex s = ap_uiEgressIndex s'"
    and handle: "GetProtectedApplicationFilterHandle s \<noteq> 0"
  shows "InspectIpsecProtectedApplicationFilterMessage s' d none m = Some
    (if GetProtectedApplicationFilterHandle s \<noteq> GetProtectedApplicationFilterHandle s' then (IPSEC_OK, m)
     else if \<not> none \<and> same_filter s b s' b \<and> m AND filter_bit b = 0 then (IPSEC_OK, m OR filter_bit b)
     else (IPSEC_ERR_RESOURCE_CONFLICT, m))"
proof -
  note h = header_fields [OF d] request_length(2,3) [OF d] if_False
  let ?udp = "drop_bit 16 (GetProtectedApplicationFilterInfo s b) = ucast (ap_usPriority s') + (1 :: u32)"
  have len: "36 + length (filter_body s b) - 36 = length (filter_body s b)" by simp
  have kind: "\<not> same_filter s b s' b \<Longrightarrow> \<not> same_filter s b s' x" for x
    by (simp add: same_filter_def)
  have same: "same_filter s b s' b \<Longrightarrow> ?udp = b \<and> GetProtectedApplicationFilterInfo s b = GetProtectedApplicationFilterInfo s' b"
    using info_kind [OF prio, of b] info_inject [of s b s'] by (auto simp: same_filter_def)
  have run: "InspectIpsecProtectedApplicationFilterMessage s' d none m =
    (if GetProtectedApplicationFilterHandle s \<noteq> GetProtectedApplicationFilterHandle s' then Some (IPSEC_OK, m)
     else let e = if none \<or> GetProtectedApplicationFilterInfo s b \<noteq> GetProtectedApplicationFilterInfo s' ?udp
           \<or> m AND filter_bit ?udp \<noteq> 0 \<or> \<not> same_filter s b s' ?udp then IPSEC_ERR_RESOURCE_CONFLICT else IPSEC_OK
       in Some (e, if e = IPSEC_OK then m OR filter_bit ?udp else m))"
    unfolding InspectIpsecProtectedApplicationFilterMessage_def Let_def h bind.bind_lunit len
      with_required_found [OF body_found(1)] with_optional32_absent [OF body_found(3)] Validate_request [OF d]
    using egress handle by (auto simp: filter_bit_def)
  show ?thesis
    unfolding run Let_def using kind same by (cases "same_filter s b s' b") auto
qed


definition sample_state :: IpsecProtectedApplicationState where
  "sample_state = \<lparr>ap_iTunFd = 3, ap_uiTunIndex = 7, ap_uiEgressIndex = 2, ap_uiLocalAddress = 0x0100000a,
     ap_uiRemoteAddress = 0x0200000a, ap_uiFilterHandle = 0x49500001, ap_usPriority = 32000, ap_bRawFilter = False,
     ap_bUdpFilter = False, ap_bPeerMutexInitialized = True, ap_aPeers = [], ap_uiPeerCount = 0,
     ap_acTunName = [], ap_acEgressName = []\<rparr>"


end
