(* ===== verification/Netlink_Core.thy ===== *)
theory Netlink_Core
  imports Os_Run Netlink_Wire
begin

text \<open>
  The Netlink dump of \<open>src/core/netlink.c\<close>: a request is sent on a fresh socket and the kernel's multi-part
  answer is read datagram by datagram under one deadline. The caller's callback gets every message of the
  answer, cut to its own length; a callback that reads more than that is a fault of the callback. The
  system calls are answered by a script.
\<close>

section \<open>Numbers of the interface\<close>

definition IPSEC_NETLINK_TIMEOUT_MS :: nat where "IPSEC_NETLINK_TIMEOUT_MS = 5000"
definition IPSEC_NETLINK_RECEIVE_LENGTH :: nat where "IPSEC_NETLINK_RECEIVE_LENGTH = 65536"
definition IPSEC_NETLINK_MAX_REQUEST_PAYLOAD :: nat where "IPSEC_NETLINK_MAX_REQUEST_PAYLOAD = 512"
definition NLMSG_ERROR :: nat where "NLMSG_ERROR = 2"
definition NLMSG_DONE :: nat where "NLMSG_DONE = 3"
definition NLM_F_DUMP_INTR :: nat where "NLM_F_DUMP_INTR = 0x10"
definition DUMP_REQUEST_FLAGS :: nat where "DUMP_REQUEST_FLAGS = 0x301"
definition AF_NETLINK :: nat where "AF_NETLINK = 16"
definition NL_POLLIN :: u16 where "NL_POLLIN = 0x01"
definition NL_POLLBAD :: u16 where "NL_POLLBAD = 0x38"
definition EPERM_number :: int where "EPERM_number = 1"
definition ENOENT_number :: int where "ENOENT_number = 2"
definition EINTR_number :: int where "EINTR_number = 4"
definition EAGAIN_number :: int where "EAGAIN_number = 11"
definition EACCES_number :: int where "EACCES_number = 13"
definition EEXIST_number :: int where "EEXIST_number = 17"
definition ENODEV_number :: int where "ENODEV_number = 19"

lemmas errno_numbers = EPERM_number_def ENOENT_number_def EINTR_number_def EAGAIN_number_def EACCES_number_def
  EEXIST_number_def ENODEV_number_def

lemmas netlink_numbers = IPSEC_NETLINK_TIMEOUT_MS_def IPSEC_NETLINK_RECEIVE_LENGTH_def
  IPSEC_NETLINK_MAX_REQUEST_PAYLOAD_def NLMSG_ERROR_def NLMSG_DONE_def NLM_F_DUMP_INTR_def DUMP_REQUEST_FLAGS_def
  AF_NETLINK_def NL_POLLIN_def NL_POLLBAD_def

section \<open>Waiting and sending\<close>

definition MapNetlinkErrno :: "int \<Rightarrow> IpsecError \<Rightarrow> IpsecError" where
  "MapNetlinkErrno iError eDefault =
     (if iError = EACCES_number \<or> iError = EPERM_number then IPSEC_ERR_PERMISSION else eDefault)"

lemma MapNetlinkErrno_not_OK [simp]: "eDefault \<noteq> IPSEC_OK \<Longrightarrow> MapNetlinkErrno i eDefault \<noteq> IPSEC_OK"
  by (simp add: MapNetlinkErrno_def)

function WaitNetlinkData :: "nat \<Rightarrow> os_script \<Rightarrow> (IpsecError \<times> os_script) exec" where
  "WaitNetlinkData ullDeadlineMs os =
     (case read_clock os of Blocked \<Rightarrow> Blocked | Fault \<Rightarrow> Fault
      | Ret (ullNow, os1) \<Rightarrow>
          if ullDeadlineMs \<le> ullNow then Ret (IPSEC_ERR_NETLINK_RECV, os1)
          else (case read_poll os1 of Blocked \<Rightarrow> Blocked | Fault \<Rightarrow> Fault
            | Ret (iResult, revents, _, err, os2) \<Rightarrow>
                if iResult < 0 \<and> errno_number err = EINTR_number
                then (case read_clock os2 of Blocked \<Rightarrow> Blocked | Fault \<Rightarrow> Fault
                  | Ret (ullNow, os3) \<Rightarrow>
                      if ullNow < ullDeadlineMs then WaitNetlinkData ullDeadlineMs os3
                      else Ret (MapNetlinkErrno (errno_number err) IPSEC_ERR_NETLINK_RECV, os3))
                else Ret (if iResult = 0 then IPSEC_ERR_NETLINK_RECV
                          else if iResult < 0 then MapNetlinkErrno (errno_number err) IPSEC_ERR_NETLINK_RECV
                          else if revents AND NL_POLLBAD \<noteq> 0 then IPSEC_ERR_NETLINK_RECV
                          else if revents AND NL_POLLIN \<noteq> 0 then IPSEC_OK
                          else IPSEC_ERR_NETLINK_RECV, os2)))"
  by pat_completeness auto
termination
  by (relation "measure (\<lambda>(dl, os). length os)") (auto simp: script_simps dest!: sym [of "Ret _"])

declare WaitNetlinkData.simps [simp del]

text \<open>The two retry loops around \<open>sendmsg\<close> and \<open>recvmsg\<close>.\<close>

function send_retry :: "nat \<Rightarrow> os_script \<Rightarrow> (int \<times> c_errno \<times> os_script) exec" where
  "send_retry ullDeadlineMs os =
     (case read_send os of Blocked \<Rightarrow> Blocked | Fault \<Rightarrow> Fault
      | Ret (lSentLength, err, os1) \<Rightarrow>
          if lSentLength < 0 \<and> errno_number err = EINTR_number
          then (case read_clock os1 of Blocked \<Rightarrow> Blocked | Fault \<Rightarrow> Fault
            | Ret (ullNow, os2) \<Rightarrow>
                if ullNow < ullDeadlineMs then send_retry ullDeadlineMs os2 else Ret (lSentLength, err, os2))
          else Ret (lSentLength, err, os1))"
  by pat_completeness auto
termination
  by (relation "measure (\<lambda>(dl, os). length os)") (auto simp: script_simps dest!: sym [of "Ret _"])

declare send_retry.simps [simp del]

type_synonym datagram = "int \<times> bytes \<times> bool \<times> nat \<times> nat \<times> u32 \<times> c_errno \<times> os_script"

function recv_retry :: "nat \<Rightarrow> os_script \<Rightarrow> datagram exec" where
  "recv_retry ullDeadlineMs os =
     (case read_recvmsg IPSEC_NETLINK_RECEIVE_LENGTH os of Blocked \<Rightarrow> Blocked | Fault \<Rightarrow> Fault
      | Ret (lReceivedLength, bs, trunc, namelen, family, pid, err, os1) \<Rightarrow>
          if lReceivedLength < 0 \<and> errno_number err = EINTR_number
          then (case read_clock os1 of Blocked \<Rightarrow> Blocked | Fault \<Rightarrow> Fault
            | Ret (ullNow, os2) \<Rightarrow>
                if ullNow < ullDeadlineMs then recv_retry ullDeadlineMs os2
                else Ret (lReceivedLength, bs, trunc, namelen, family, pid, err, os2))
          else Ret (lReceivedLength, bs, trunc, namelen, family, pid, err, os1))"
  by pat_completeness auto
termination
  by (relation "measure (\<lambda>(dl, os). length os)") (auto simp: script_simps dest!: sym [of "Ret _"])

declare recv_retry.simps [simp del]

definition SendNetlinkRequest :: "bytes \<Rightarrow> os_script \<Rightarrow> (IpsecError \<times> os_script) exec" where
  "SendNetlinkRequest pRequest os =
     exec_bind (read_clock os) (\<lambda>(ullNow, os).
       exec_bind (send_retry ((ullNow + IPSEC_NETLINK_TIMEOUT_MS) mod 2 ^ 64) os) (\<lambda>(lSentLength, err, os).
         Ret (if lSentLength < 0 then MapNetlinkErrno (errno_number err) IPSEC_ERR_NETLINK_SEND
              else if lSentLength \<noteq> int (length pRequest) then IPSEC_ERR_NETLINK_SEND
              else IPSEC_OK, os)))"

section \<open>Reading the answer\<close>

definition ProcessNetlinkError :: "bytes \<Rightarrow> IpsecError option" where
  "ProcessNetlinkError msg =
     (if length msg < 16 + 20 then Some IPSEC_ERR_NETLINK_PARSE
      else do {
        error \<leftarrow> get32 msg 16;
        Some (if 0 < sint error \<or> error = 0x80000000 then IPSEC_ERR_NETLINK_PARSE
              else if sint error = 0 then IPSEC_OK
              else MapNetlinkErrno (- sint error) IPSEC_ERR_NETLINK_RECV) })"

text \<open>The branch for \<open>NLMSG_DONE\<close>: whether the dump is complete, and the error its payload may carry.\<close>

definition process_done :: "bytes \<Rightarrow> (IpsecError \<times> bool) option" where
  "process_done msg = do {
     let uiPayloadLength = length msg - 16;
     dumpError \<leftarrow> (if 4 \<le> uiPayloadLength then get32 msg 16 else Some 0);
     Some (if uiPayloadLength \<noteq> 0 \<and> uiPayloadLength < 4 \<or> 0 < sint dumpError \<or> dumpError = 0x80000000
           then (IPSEC_ERR_NETLINK_PARSE, False)
           else if sint dumpError < 0 then (MapNetlinkErrno (- sint dumpError) IPSEC_ERR_NETLINK_RECV, False)
           else (IPSEC_OK, True)) }"

type_synonym 'u netlink_callback = "bytes \<Rightarrow> 'u \<Rightarrow> (IpsecError \<times> 'u) option"

text \<open>One message of a datagram: the outcome, whether the dump is complete, and the caller's data.\<close>

definition dump_message ::
  "u32 \<Rightarrow> 'u netlink_callback option \<Rightarrow> bytes \<Rightarrow> 'u \<Rightarrow> (IpsecError \<times> bool \<times> 'u) option" where
  "dump_message uiSequence cb msg u = do {
     nlmsg_type \<leftarrow> get16 msg 4;
     nlmsg_flags \<leftarrow> get16 msg 6;
     nlmsg_seq \<leftarrow> get32 msg 8;
     if nlmsg_flags AND NLM_F_DUMP_INTR \<noteq> 0 then Some (IPSEC_ERR_NETLINK_RECV, False, u)
     else if uiSequence \<noteq> nlmsg_seq then Some (IPSEC_ERR_NETLINK_PARSE, False, u)
     else if nlmsg_type = NLMSG_DONE then map_option (\<lambda>(e, done). (e, done, u)) (process_done msg)
     else if nlmsg_type = NLMSG_ERROR then map_option (\<lambda>e. (e, False, u)) (ProcessNetlinkError msg)
     else case cb of None \<Rightarrow> Some (IPSEC_OK, False, u)
       | Some f \<Rightarrow> map_option (\<lambda>(e, u). (e, False, u)) (f msg u) }"

text \<open>The messages of a datagram; the third result is what remains unread.\<close>

function dump_messages ::
  "u32 \<Rightarrow> 'u netlink_callback option \<Rightarrow> bytes \<Rightarrow> 'u \<Rightarrow> (IpsecError \<times> bool \<times> nat \<times> 'u) option" where
  "dump_messages uiSequence cb xs u =
     (if length xs < 16 then Some (IPSEC_OK, False, length xs, u)
      else case get32 xs 0 of None \<Rightarrow> None
       | Some nlmsg_len \<Rightarrow>
           if unat nlmsg_len < 16 \<or> length xs < unat nlmsg_len then Some (IPSEC_ERR_NETLINK_PARSE, False, length xs, u)
           else (case dump_message uiSequence cb (take (unat nlmsg_len) xs) u of None \<Rightarrow> None
             | Some (e, bComplete, u) \<Rightarrow>
                 if e = IPSEC_OK \<and> \<not> bComplete
                 then (let uiAlignedLength = NLMSG_ALIGN (unat nlmsg_len)
                       in if uiAlignedLength < unat nlmsg_len \<or> length xs < uiAlignedLength
                          then Some (IPSEC_ERR_NETLINK_PARSE, False, length xs, u)
                          else dump_messages uiSequence cb (drop uiAlignedLength xs) u)
                 else Some (e, bComplete, length xs, u)))"
  by pat_completeness auto
termination
  by (relation "measure (\<lambda>(seq, cb, xs, u). length xs)") auto

declare dump_messages.simps [simp del]

lemma WaitNetlinkData_consumes: "WaitNetlinkData dl os = Ret (e, os') \<Longrightarrow> length os' < length os"
proof (induction dl os rule: WaitNetlinkData.induct)
  case (1 dl os)
  then show ?case
    by (subst (asm) (2) WaitNetlinkData.simps) (fastforce simp: script_simps split: exec.splits if_splits)
qed

lemma recv_retry_consumes: "recv_retry dl os = Ret (r, bs, trunc, namelen, family, pid, err, os') \<Longrightarrow> length os' < length os"
proof (induction dl os rule: recv_retry.induct)
  case (1 dl os)
  then show ?case
    by (subst (asm) (2) recv_retry.simps) (fastforce simp: script_simps split: exec.splits if_splits)
qed

function dump_loop ::
  "u32 \<Rightarrow> 'u netlink_callback option \<Rightarrow> nat \<Rightarrow> nat \<Rightarrow> 'u \<Rightarrow> os_script \<Rightarrow> (IpsecError \<times> 'u \<times> os_script) exec" where
  "dump_loop uiSequence cb ullDeadlineMs uiDatagramCount u os =
     (case WaitNetlinkData ullDeadlineMs os of Blocked \<Rightarrow> Blocked | Fault \<Rightarrow> Fault
      | Ret (e, os1) \<Rightarrow>
          if e \<noteq> IPSEC_OK then Ret (e, u, os1)
          else (case recv_retry ullDeadlineMs os1 of Blocked \<Rightarrow> Blocked | Fault \<Rightarrow> Fault
            | Ret (lReceivedLength, bs, trunc, namelen, family, pid, err, os2) \<Rightarrow>
                if lReceivedLength < 0 then Ret (MapNetlinkErrno (errno_number err) IPSEC_ERR_NETLINK_RECV, u, os2)
                else if lReceivedLength = 0 \<or> trunc \<or> namelen < 12 \<or> family \<noteq> AF_NETLINK \<or> pid \<noteq> 0
                then Ret (IPSEC_ERR_NETLINK_RECV, u, os2)
                else if int UINT32_MAX < lReceivedLength then Ret (IPSEC_ERR_NETLINK_PARSE, u, os2)
                else (case dump_messages uiSequence cb bs u of None \<Rightarrow> Fault
                  | Some (e, bComplete, uiRemainingLength, u) \<Rightarrow>
                      if e \<noteq> IPSEC_OK then Ret (e, u, os2)
                      else if bComplete then Ret (IPSEC_OK, u, os2)
                      else if uiRemainingLength \<noteq> 0 then Ret (IPSEC_ERR_NETLINK_PARSE, u, os2)
                      else if 4096 < Suc uiDatagramCount then Ret (IPSEC_ERR_NETLINK_PARSE, u, os2)
                      else dump_loop uiSequence cb ullDeadlineMs (Suc uiDatagramCount) u os2)))"
  by pat_completeness auto
termination
  by (relation "measure (\<lambda>(seq, cb, dl, n, u, os). length os)")
    (auto dest!: WaitNetlinkData_consumes recv_retry_consumes sym [of "Ret _"])

declare dump_loop.simps [simp del]

definition ReceiveNetlinkDump ::
  "u32 \<Rightarrow> 'u netlink_callback option \<Rightarrow> 'u \<Rightarrow> os_script \<Rightarrow> (IpsecError \<times> 'u \<times> os_script) exec" where
  "ReceiveNetlinkDump uiSequence cb u os =
     exec_bind (read_clock os) (\<lambda>(ullNow, os).
       dump_loop uiSequence cb ((ullNow + IPSEC_NETLINK_TIMEOUT_MS) mod 2 ^ 64) 0 u os)"

definition dump_request :: "nat \<Rightarrow> u32 \<Rightarrow> bytes \<Rightarrow> bytes" where
  "dump_request usMessageType uiSequence pvPayload =
     le32 (of_nat (16 + length pvPayload)) @ le16 usMessageType @ le16 DUMP_REQUEST_FLAGS @ le32 uiSequence @ le32 0 @ pvPayload"

definition ExecuteNetlinkDump ::
  "nat \<Rightarrow> bytes \<Rightarrow> 'u netlink_callback option \<Rightarrow> 'u \<Rightarrow> os_script \<Rightarrow> (IpsecError \<times> 'u \<times> os_script) exec" where
  "ExecuteNetlinkDump usMessageType pvPayload cb u os =
     (if IPSEC_NETLINK_MAX_REQUEST_PAYLOAD < length pvPayload then Ret (IPSEC_ERR_INVALID_ARGUMENT, u, os)
      else exec_bind (read_socket os) (\<lambda>(iSocket, err, os).
        if iSocket < 0 then Ret (MapNetlinkErrno (errno_number err) IPSEC_ERR_NETLINK_SOCKET, u, os)
        else exec_bind (read_bind os) (\<lambda>(iResult, err, os).
          if iResult \<noteq> 0 then Ret (MapNetlinkErrno (errno_number err) IPSEC_ERR_NETLINK_SOCKET, u, os)
          else exec_bind (read_clock os) (\<lambda>(ullNow, os). exec_bind (read_pid os) (\<lambda>(pid, os).
            let uiSequence = xor (of_nat ullNow) pid
            in exec_bind (SendNetlinkRequest (dump_request usMessageType uiSequence pvPayload) os) (\<lambda>(e, os).
                 if e \<noteq> IPSEC_OK then Ret (e, u, os) else ReceiveNetlinkDump uiSequence cb u os))))))"

section \<open>Messages\<close>

text \<open>
  A message and the padding behind it. A message of a dump carries its own length and the sequence number of the
  request, and it does not say that the dump was interrupted.
\<close>

definition framed :: "bytes \<Rightarrow> bool" where
  "framed m \<longleftrightarrow> 16 \<le> length m \<and> length m < 2 ^ 32 \<and> get32 m 0 = Some (of_nat (length m))"

definition padded :: "bytes \<times> bytes \<Rightarrow> bool" where
  "padded mp \<longleftrightarrow> length (snd mp) = NLMSG_ALIGN (length (fst mp)) - length (fst mp)"

definition in_dump :: "u32 \<Rightarrow> bytes \<Rightarrow> bool" where
  "in_dump seq m \<longleftrightarrow> framed m \<and> get32 m 8 = Some seq \<and> (\<exists>f. get16 m 6 = Some f \<and> f AND NLM_F_DUMP_INTR = 0)"

definition is_done :: "bytes \<Rightarrow> bool" where
  "is_done m \<longleftrightarrow> get16 m 4 = Some NLMSG_DONE \<and> process_done m = Some (IPSEC_OK, True)"

definition is_ack :: "bytes \<Rightarrow> bool" where
  "is_ack m \<longleftrightarrow> get16 m 4 = Some NLMSG_ERROR \<and> ProcessNetlinkError m = Some IPSEC_OK"

definition is_data :: "bytes \<Rightarrow> bool" where
  "is_data m \<longleftrightarrow> get16 m 4 \<noteq> Some NLMSG_DONE \<and> get16 m 4 \<noteq> Some NLMSG_ERROR"

text \<open>The callback on every message of a list, as long as it is content.\<close>

fun run_callback :: "'u netlink_callback option \<Rightarrow> bytes list \<Rightarrow> 'u \<Rightarrow> 'u option" where
  "run_callback cb [] u = Some u"
| "run_callback cb (m # ms) u = (case cb of None \<Rightarrow> Some u
     | Some f \<Rightarrow> (case f m u of Some (IPSEC_OK, u') \<Rightarrow> run_callback cb ms u' | _ \<Rightarrow> None))"

definition nl_bytes :: "(bytes \<times> bytes) list \<Rightarrow> bytes" where
  "nl_bytes ms = concat (map (\<lambda>(m, pad). m @ pad) ms)"

definition data_messages :: "(bytes \<times> bytes) list \<Rightarrow> bytes list" where
  "data_messages ms = filter is_data (map fst ms)"

definition dump_part :: "u32 \<Rightarrow> (bytes \<times> bytes) list \<Rightarrow> bool" where
  "dump_part seq ms \<longleftrightarrow> list_all (\<lambda>mp. padded mp \<and> in_dump seq (fst mp) \<and> (is_data (fst mp) \<or> is_ack (fst mp))) ms"

lemma run_callback_append:
  "run_callback cb ms u = Some u' \<Longrightarrow> run_callback cb ms' u' = Some u'' \<Longrightarrow> run_callback cb (ms @ ms') u = Some u''"
proof (induction ms arbitrary: u)
  case (Cons m ms)
  then show ?case
  proof (cases cb)
    case None
    then have "run_callback cb xs v = Some v" for xs v by (cases xs) simp_all
    with Cons.prems show ?thesis by (metis option.inject)
  qed (auto split: option.splits IpsecError.splits)
qed simp

lemma dump_message_OK:
  assumes "framed m" and "dump_message seq cb m u = Some (IPSEC_OK, c, u')"
  shows "in_dump seq m \<and> (if c then is_done m \<and> u' = u
     else (is_data m \<or> is_ack m) \<and> run_callback cb (filter is_data [m]) u = Some u')"
proof -
  have len: "16 \<le> length m" using assms(1) by (simp add: framed_def)
  obtain t f q where g: "get16 m 4 = Some t" "get16 m 6 = Some f" "get32 m 8 = Some q"
    using len by (simp add: get16_def get32_def rd_bytes_def)
  consider "t = NLMSG_DONE" | "t = NLMSG_ERROR" | "t \<noteq> NLMSG_DONE" "t \<noteq> NLMSG_ERROR" by blast
  then show ?thesis
  proof cases
    case 1
    with assms g show ?thesis
      by (auto simp: dump_message_def in_dump_def is_done_def split: if_splits)
        (auto simp: process_done_def Let_def split: if_splits option.splits bind_splits)
  next
    case 2
    then have "\<not> is_data m" using g by (simp add: is_data_def)
    with 2 assms g show ?thesis
      by (auto simp: dump_message_def in_dump_def is_ack_def netlink_numbers split: if_splits)
  next
    case 3
    then have "is_data m" using g by (simp add: is_data_def)
    with 3 assms g show ?thesis
      by (auto simp: dump_message_def in_dump_def split: if_splits option.splits)
  qed
qed

lemma take_framed:
  assumes "16 \<le> unat len" and "unat len \<le> length xs" and "get32 xs 0 = Some len"
  shows "framed (take (unat len) xs)"
proof -
  have "get32 (take (unat len) xs) 0 = get32 xs 0"
    using assms(1,2) by (simp add: get32_def rd_bytes_def)
  with assms show ?thesis
    using u32_bound [of len] by (simp add: framed_def min_absorb2)
qed

lemma dump_messages_OK:
  "dump_messages seq cb xs u = Some (IPSEC_OK, c, r, u') \<Longrightarrow>
   \<exists>ms rest. dump_part seq ms \<and> xs = nl_bytes ms @ rest \<and> run_callback cb (data_messages ms) u = Some u'
     \<and> (if c then \<exists>m junk. rest = m @ junk \<and> in_dump seq m \<and> is_done m else length rest = r)"
proof (induction seq cb xs u rule: dump_messages.induct)
  case (1 seq cb xs u)
  show ?case
  proof (cases "length xs < 16")
    case True
    with "1.prems" have "c = False" "r = length xs" "u' = u"
      by (subst (asm) dump_messages.simps, simp)+
    then show ?thesis
      by (intro exI [of _ "[]"] exI [of _ xs]) (simp add: dump_part_def nl_bytes_def data_messages_def)
  next
    case False
    then obtain len where len: "get32 xs 0 = Some len"
      by (simp add: get32_def rd_bytes_def)
    let ?n = "unat len" let ?m = "take ?n xs" let ?a = "NLMSG_ALIGN ?n"
    from "1.prems" False len have ok: "16 \<le> ?n" "?n \<le> length xs"
      by (subst (asm) dump_messages.simps, simp split: if_splits)+
    obtain e c1 u1 where step: "dump_message seq cb ?m u = Some (e, c1, u1)"
      using "1.prems" False len ok by (subst (asm) dump_messages.simps) (auto split: option.splits)
    note m = dump_message_OK [OF take_framed [OF ok len], of seq cb u c1 u1]
    have run: "dump_messages seq cb xs u = (if e = IPSEC_OK \<and> \<not> c1 then
        if ?a < ?n \<or> length xs < ?a then Some (IPSEC_ERR_NETLINK_PARSE, False, length xs, u1)
        else dump_messages seq cb (drop ?a xs) u1 else Some (e, c1, length xs, u1))"
      using False len ok step by (subst dump_messages.simps) (simp add: Let_def not_less)
    show ?thesis
    proof (cases "e = IPSEC_OK \<and> \<not> c1")
      case True
      with run "1.prems" have al: "?n \<le> ?a" "?a \<le> length xs" and rec: "dump_messages seq cb (drop ?a xs) u1 = Some (IPSEC_OK, c, r, u')"
        by (auto split: if_splits)
      from True m step have one: "in_dump seq ?m" "is_data ?m \<or> is_ack ?m" "run_callback cb (filter is_data [?m]) u = Some u1"
        by (auto split: if_splits)
      obtain ms rest where ih: "dump_part seq ms" "drop ?a xs = nl_bytes ms @ rest"
        "run_callback cb (data_messages ms) u1 = Some u'"
        "if c then \<exists>m junk. rest = m @ junk \<and> in_dump seq m \<and> is_done m else length rest = r"
        using "1.IH" [OF False len _ step refl refl] True al rec ok by (auto simp: not_less)
      let ?mp = "(?m, take (?a - ?n) (drop ?n xs))"
      have "xs = nl_bytes (?mp # ms) @ rest"
        using al ih(2) take_add [of ?n "?a - ?n" xs] append_take_drop_id [of ?a xs] by (simp add: nl_bytes_def)
      moreover have "dump_part seq (?mp # ms)"
        using one ih(1) al ok by (simp add: dump_part_def padded_def)
      moreover have "run_callback cb (data_messages (?mp # ms)) u = Some u'"
        using run_callback_append [OF one(3) ih(3)] by (simp add: data_messages_def split: if_splits)
      ultimately show ?thesis using ih(4) by blast
    next
      case False
      with run "1.prems" have "e = IPSEC_OK" "c1" "c" "u' = u1" by (auto split: if_splits)
      with m step have "in_dump seq ?m" "is_done ?m" "u1 = u" by auto
      then have "\<exists>m junk. xs = m @ junk \<and> in_dump seq m \<and> is_done m"
        by (intro exI [of _ ?m] exI [of _ "drop ?n xs"]) simp
      with \<open>c\<close> \<open>u' = u1\<close> \<open>u1 = u\<close> show ?thesis
        by (intro exI [of _ "[]"] exI [of _ xs]) (simp add: dump_part_def nl_bytes_def data_messages_def)
    qed
  qed
qed

section \<open>Datagrams\<close>

text \<open>What the kernel sent in a part of the script.\<close>

fun datagrams :: "os_script \<Rightarrow> bytes" where
  "datagrams [] = []"
| "datagrams (ARecvmsg r bs trunc namelen family pid err # os) = (if 0 < r then bs else []) @ datagrams os"
| "datagrams (_ # os) = datagrams os"

lemma datagrams_append: "datagrams (xs @ ys) = datagrams xs @ datagrams ys"
  by (induction xs rule: datagrams.induct) auto

text \<open>The part of a script that a run has consumed, and what the kernel sent in it.\<close>

definition took :: "os_script \<Rightarrow> bytes \<Rightarrow> os_script \<Rightarrow> bool" where
  "took os bs os' \<longleftrightarrow> (\<exists>pre. os = pre @ os' \<and> datagrams pre = bs)"

lemma took_refl: "took os [] os"
  by (simp add: took_def)

lemma took_trans: "took os bs os1 \<Longrightarrow> took os1 bs' os2 \<Longrightarrow> took os (bs @ bs') os2"
  unfolding took_def by (metis append.assoc datagrams_append)

lemma took_read [intro]:
  "read_clock os = Ret (n, os') \<Longrightarrow> took os [] os'"
  "read_poll os = Ret (r, v0, v1, err, os') \<Longrightarrow> took os [] os'"
  "read_send os = Ret (r, err, os') \<Longrightarrow> took os [] os'"
  "read_socket os = Ret (r, err, os') \<Longrightarrow> took os [] os'"
  "read_bind os = Ret (r, err, os') \<Longrightarrow> took os [] os'"
  "read_pid os = Ret (pd, os') \<Longrightarrow> took os [] os'"
  unfolding took_def by (auto simp: script_simps intro: exI [of _ "[_]"])

lemma took_silent: "took os [] os1 \<Longrightarrow> took os1 bs os2 \<Longrightarrow> took os bs os2"
  using took_trans by force

lemma WaitNetlinkData_took: "WaitNetlinkData dl os = Ret (e, os') \<Longrightarrow> took os [] os'"
proof (induction dl os rule: WaitNetlinkData.induct)
  case (1 dl os)
  obtain now os1 where c: "read_clock os = Ret (now, os1)"
    using "1.prems" by (subst (asm) WaitNetlinkData.simps) (auto split: exec.splits)
  note t1 = took_read(1) [OF c]
  show ?case
  proof (cases "dl \<le> now")
    case True
    with "1.prems" c t1 show ?thesis by (subst (asm) WaitNetlinkData.simps) auto
  next
    case False
    with "1.prems" c obtain r v0 v1 err os2 where p: "read_poll os1 = Ret (r, v0, v1, err, os2)"
      by (subst (asm) WaitNetlinkData.simps) (auto split: exec.splits)
    note t2 = took_silent [OF t1 took_read(2) [OF p]]
    show ?thesis
    proof (cases "r < 0 \<and> errno_number err = EINTR_number")
      case True
      with "1.prems" c False p obtain now2 os3 where c2: "read_clock os2 = Ret (now2, os3)"
        by (subst (asm) WaitNetlinkData.simps) (auto split: exec.splits)
      note t3 = took_silent [OF t2 took_read(1) [OF c2]]
      have "(if now2 < dl then WaitNetlinkData dl os3
          else Ret (MapNetlinkErrno (errno_number err) IPSEC_ERR_NETLINK_RECV, os3)) = Ret (e, os')"
        using "1.prems" c False p True c2 by (subst (asm) WaitNetlinkData.simps) auto
      moreover have "now2 < dl \<Longrightarrow> WaitNetlinkData dl os3 = Ret (e, os') \<Longrightarrow> took os3 [] os'"
        using "1.IH" [OF c refl _ p refl refl refl refl True c2 refl] False by blast
      ultimately show ?thesis using t3 took_silent by (auto split: if_splits)
    next
      case Fa: False
      with "1.prems" c False p t2 show ?thesis by (subst (asm) WaitNetlinkData.simps) auto
    qed
  qed
qed

lemma took_cons: "took os bs os' \<Longrightarrow> datagrams [a] = [] \<Longrightarrow> took (a # os) bs os'"
  unfolding took_def by (metis append_Cons append_Nil datagrams_append)

lemma took_one: "datagrams [a] = bs \<Longrightarrow> took (a # os) bs os"
  unfolding took_def by (intro exI [of _ "[a]"]) simp

lemma send_retry_took: "send_retry dl os = Ret (r, err, os') \<Longrightarrow> took os [] os'"
proof (induction dl os rule: send_retry.induct)
  case (1 dl os)
  then show ?case
    by (subst (asm) (2) send_retry.simps)
      (auto simp: script_simps split: exec.splits if_splits intro!: took_cons took_refl)
qed

lemma recv_retry_took:
  "recv_retry dl os = Ret (r, bs, trunc, namelen, family, pid, err, os') \<Longrightarrow>
     took os (if 0 < r then bs else []) os' \<and> (0 \<le> r \<longrightarrow> length bs = nat r)"
proof (induction dl os rule: recv_retry.induct)
  case (1 dl os)
  then show ?case
    by (subst (asm) (2) recv_retry.simps)
      (auto simp: script_simps split: exec.splits if_splits intro!: took_one took_cons took_refl)
qed

lemma dump_loop_OK:
  "dump_loop seq cb dl n u os = Ret (IPSEC_OK, u', os') \<Longrightarrow>
   \<exists>ms m junk. took os (nl_bytes ms @ m @ junk) os' \<and> dump_part seq ms \<and> in_dump seq m \<and> is_done m
     \<and> run_callback cb (data_messages ms) u = Some u'"
proof (induction seq cb dl n u os rule: dump_loop.induct)
  case (1 seq cb dl n u os)
  obtain os1 where w: "WaitNetlinkData dl os = Ret (IPSEC_OK, os1)"
    using "1.prems" by (subst (asm) dump_loop.simps) (auto split: exec.splits if_splits)
  obtain r bs trunc namelen family pid err os2 where v: "recv_retry dl os1 = Ret (r, bs, trunc, namelen, family, pid, err, os2)"
    using "1.prems" w by (subst (asm) dump_loop.simps) (auto split: exec.splits)
  have r: "0 < r" "\<not> (r = 0 \<or> trunc \<or> namelen < 12 \<or> family \<noteq> AF_NETLINK \<or> pid \<noteq> 0)" "\<not> int UINT32_MAX < r"
    using "1.prems" w v by (subst (asm) dump_loop.simps, force split: if_splits)+
  have t: "took os bs os2"
    using took_silent [OF WaitNetlinkData_took [OF w]] recv_retry_took [OF v] r(1) by auto
  have nr: "\<not> r < 0" using r(1) by simp
  obtain c rem u1 where d: "dump_messages seq cb bs u = Some (IPSEC_OK, c, rem, u1)"
    using "1.prems" w v r nr by (subst (asm) dump_loop.simps) (auto split: option.splits if_splits)
  obtain ms rest where ms: "dump_part seq ms" "bs = nl_bytes ms @ rest" "run_callback cb (data_messages ms) u = Some u1"
    "if c then \<exists>m junk. rest = m @ junk \<and> in_dump seq m \<and> is_done m else length rest = rem"
    using dump_messages_OK [OF d] by blast
  have run: "dump_loop seq cb dl n u os =
      (if c then Ret (IPSEC_OK, u1, os2)
       else if rem \<noteq> 0 then Ret (IPSEC_ERR_NETLINK_PARSE, u1, os2)
       else if 4096 < Suc n then Ret (IPSEC_ERR_NETLINK_PARSE, u1, os2)
       else dump_loop seq cb dl (Suc n) u1 os2)"
    using w v r nr d by (subst dump_loop.simps) simp
  show ?case
  proof (cases c)
    case True
    with ms(4) obtain m junk where "rest = m @ junk" "in_dump seq m" "is_done m" by auto
    with True ms t run "1.prems" show ?thesis by auto
  next
    case False
    with run "1.prems" have rem: "rem = 0" "\<not> 4096 < Suc n" and rec: "dump_loop seq cb dl (Suc n) u1 os2 = Ret (IPSEC_OK, u', os')"
      by (auto split: if_splits)
    obtain ms' m junk where ih: "took os2 (nl_bytes ms' @ m @ junk) os'" "dump_part seq ms'" "in_dump seq m" "is_done m"
      "run_callback cb (data_messages ms') u1 = Some u'"
      using "1.IH" [OF w refl _ v refl refl refl refl refl refl refl _ _ _ d refl refl refl] nr r rem False rec by auto
    have "rest = []" using ms(4) False rem by simp
    then have "took os (nl_bytes (ms @ ms') @ m @ junk) os'"
      using took_trans [OF t ih(1)] ms(2) by (simp add: nl_bytes_def)
    moreover have "run_callback cb (data_messages (ms @ ms')) u = Some u'"
      using run_callback_append [OF ms(3) ih(5)] by (simp add: data_messages_def)
    moreover have "dump_part seq (ms @ ms')" using ms(1) ih(2) by (simp add: dump_part_def)
    ultimately show ?thesis using ih(3,4) by blast
  qed
qed

section \<open>The dump as a whole\<close>

definition callback_safe :: "'u netlink_callback option \<Rightarrow> bool" where
  "callback_safe cb \<longleftrightarrow> (\<forall>f m u. cb = Some f \<longrightarrow> framed m \<longrightarrow> f m u \<noteq> None)"

lemma dump_message_safe: "callback_safe cb \<Longrightarrow> framed m \<Longrightarrow> dump_message seq cb m u \<noteq> None"
  by (auto simp: dump_message_def framed_def get16_def get32_def rd_bytes_def process_done_def ProcessNetlinkError_def
      callback_safe_def Let_def split: option.splits)

lemma dump_messages_safe: "callback_safe cb \<Longrightarrow> dump_messages seq cb xs u \<noteq> None"
proof (induction seq cb xs u rule: dump_messages.induct)
  case (1 seq cb xs u)
  show ?case
  proof (cases "length xs < 16")
    case True
    then show ?thesis by (subst dump_messages.simps) simp
  next
    case False
    then obtain len where len: "get32 xs 0 = Some len" by (simp add: get32_def rd_bytes_def)
    show ?thesis
    proof (cases "unat len < 16 \<or> length xs < unat len")
      case True
      with False len show ?thesis by (subst dump_messages.simps) auto
    next
      case ok: False
      then obtain e c u1 where s: "dump_message seq cb (take (unat len) xs) u = Some (e, c, u1)"
        using dump_message_safe [OF "1.prems" take_framed [OF _ _ len]] by (metis not_less not_None_eq prod_cases3)
      from "1.IH" [OF False len ok s refl refl _ refl] "1.prems" False len ok s show ?thesis
        by (subst dump_messages.simps) (auto simp: Let_def)
    qed
  qed
qed

lemma WaitNetlinkData_no_fault [simp]: "WaitNetlinkData dl os \<noteq> Fault"
proof (induction dl os rule: WaitNetlinkData.induct)
  case (1 dl os)
  then show ?case by (subst WaitNetlinkData.simps) (auto split: exec.split)
qed

lemma send_retry_no_fault [simp]: "send_retry dl os \<noteq> Fault"
proof (induction dl os rule: send_retry.induct)
  case (1 dl os)
  then show ?case by (subst send_retry.simps) (auto split: exec.split)
qed

lemma recv_retry_no_fault [simp]: "recv_retry dl os \<noteq> Fault"
proof (induction dl os rule: recv_retry.induct)
  case (1 dl os)
  then show ?case by (subst recv_retry.simps) (auto split: exec.split)
qed

lemma dump_loop_no_fault: "callback_safe cb \<Longrightarrow> dump_loop seq cb dl n u os \<noteq> Fault"
proof (induction seq cb dl n u os rule: dump_loop.induct)
  case (1 seq cb dl n u os)
  have safe: "(dump_messages seq cb xs v = None) = False" for xs v
    using dump_messages_safe [OF "1.prems"] by blast
  show ?case
    using "1.IH" "1.prems" by (subst dump_loop.simps) (auto simp: safe split: exec.split option.split)
qed

lemma SendNetlinkRequest_took: "SendNetlinkRequest req os = Ret (e, os') \<Longrightarrow> took os [] os'"
  unfolding SendNetlinkRequest_def
  by (auto simp: exec_bind_Ret intro: took_silent [OF took_read(1)] send_retry_took)

lemma Execute_dump_spec:
  assumes "callback_safe cb"
  shows "ExecuteNetlinkDump t payload cb u os \<noteq> Fault \<and>
    (\<forall>u' os'. ExecuteNetlinkDump t payload cb u os = Ret (IPSEC_OK, u', os') \<longrightarrow>
       (\<exists>seq ms m junk. took os (nl_bytes ms @ m @ junk) os' \<and> dump_part seq ms \<and> in_dump seq m \<and> is_done m
          \<and> run_callback cb (data_messages ms) u = Some u'))"
proof (intro conjI allI impI)
  show "ExecuteNetlinkDump t payload cb u os \<noteq> Fault"
    unfolding ExecuteNetlinkDump_def Let_def SendNetlinkRequest_def ReceiveNetlinkDump_def
    using dump_loop_no_fault [OF assms]
    by (auto simp: exec_bind_Fault split: if_splits)
  fix u' os' assume run: "ExecuteNetlinkDump t payload cb u os = Ret (IPSEC_OK, u', os')"
  then have "\<not> IPSEC_NETLINK_MAX_REQUEST_PAYLOAD < length payload"
    by (auto simp: ExecuteNetlinkDump_def)
  with run obtain fd err os1 r err2 os2 now os3 pd os4 os5 where
    r: "read_socket os = Ret (fd, err, os1)" "read_bind os1 = Ret (r, err2, os2)" "read_clock os2 = Ret (now, os3)"
      "read_pid os3 = Ret (pd, os4)"
      "SendNetlinkRequest (dump_request t (xor (of_nat now) pd) payload) os4 = Ret (IPSEC_OK, os5)"
      "ReceiveNetlinkDump (xor (of_nat now) pd) cb u os5 = Ret (IPSEC_OK, u', os')"
    by (auto simp: ExecuteNetlinkDump_def exec_bind_Ret Let_def split: if_splits)
  obtain now2 os6 where c: "read_clock os5 = Ret (now2, os6)"
    and l: "dump_loop (xor (of_nat now) pd) cb ((now2 + IPSEC_NETLINK_TIMEOUT_MS) mod 2 ^ 64) 0 u os6 = Ret (IPSEC_OK, u', os')"
    using r(6) by (auto simp: ReceiveNetlinkDump_def exec_bind_Ret)
  have "took os [] os6"
    using r(1-5) c by (intro took_silent [OF took_read(4) [OF r(1)]] took_silent [OF took_read(5) [OF r(2)]]
        took_silent [OF took_read(1) [OF r(3)]] took_silent [OF took_read(6) [OF r(4)]]
        took_silent [OF SendNetlinkRequest_took [OF r(5)]] took_read(1))
  with dump_loop_OK [OF l] show "\<exists>seq ms m junk. took os (nl_bytes ms @ m @ junk) os' \<and> dump_part seq ms
      \<and> in_dump seq m \<and> is_done m \<and> run_callback cb (data_messages ms) u = Some u'"
    using took_silent by blast
qed

text \<open>
  C3. A dump is all or nothing. The code never reads outside a datagram or a message, whatever the kernel sends,
  as long as the callback keeps to its message. And when a dump succeeds, the datagrams received on the way are
  a sequence of messages with their own lengths and paddings followed by the kernel's end-of-dump message, every
  one of them answers this request and none says that the dump was interrupted, and the callback was given
  every data message among them exactly once, in order, and accepted each.
\<close>

theorem ExecuteNetlinkDump_complete:
  assumes "callback_safe cb"
  shows "ExecuteNetlinkDump t payload cb u os \<noteq> Fault \<and>
    (\<forall>u' os'. ExecuteNetlinkDump t payload cb u os = Ret (IPSEC_OK, u', os') \<longrightarrow>
       (\<exists>seq ms m junk. took os (nl_bytes ms @ m @ junk) os' \<and> dump_part seq ms \<and> in_dump seq m \<and> is_done m
          \<and> run_callback cb (data_messages ms) u = Some u'))"
  by (rule Execute_dump_spec [OF assms])

definition sample_message :: "nat \<Rightarrow> bytes \<Rightarrow> bytes" where
  "sample_message t payload = le32 (of_nat (16 + length payload)) @ le16 t @ le16 0 @ le32 5 @ le32 0 @ payload"

definition sample_dump :: os_script where
  "sample_dump = [ASocket 3 EINTR, ABind 0 EINTR, AClock (Some (0, 4000000)), APid 1,
     AClock (Some (0, 4000000)), ASend 16 EINTR, AClock (Some (0, 4000000)),
     AClock (Some (0, 4000000)), APoll 1 1 0 EINTR,
     ARecvmsg 40 (sample_message 44 [7, 8, 9, 10] @ sample_message 3 [0, 0, 0, 0]) False 12 16 0 EINTR]"

theorem ExecuteNetlinkDump_complete_witness:
  "\<exists>seq ms m junk. ExecuteNetlinkDump 46 [] (Some (\<lambda>m u. Some (IPSEC_OK, u @ [drop 16 m]))) [] sample_dump
       = Ret (IPSEC_OK, [[7, 8, 9, 10]], [])
     \<and> took sample_dump (nl_bytes ms @ m @ junk) [] \<and> dump_part seq ms \<and> is_done m"
proof -
  let ?cb = "Some (\<lambda>m u. Some (IPSEC_OK, u @ [drop 16 m]))"
  have safe: "callback_safe ?cb" by (simp add: callback_safe_def)
  have run: "ExecuteNetlinkDump 46 [] ?cb [] sample_dump = Ret (IPSEC_OK, [[7, 8, 9, 10]], [])"
    by (simp add: ExecuteNetlinkDump_def sample_dump_def sample_message_def netlink_numbers read_socket_def read_bind_def
        read_clock_def read_pid_def SendNetlinkRequest_def send_retry.simps read_send_def dump_request_def
        ReceiveNetlinkDump_def dump_loop.simps WaitNetlinkData.simps read_poll_def recv_retry.simps read_recvmsg_def
        dump_messages.simps dump_message_def process_done_def get16_def get32_def rd_bytes_def le32_def le16_def de16_def de32_def
        GetIpsecMonotonicMilliseconds_def errno_numbers NLMSG_ALIGN_def Let_def)
  from ExecuteNetlinkDump_complete [OF safe] run show ?thesis by blast
qed

end
