(* ===== verification/Filter_Netlink.thy ===== *)
theory Filter_Netlink
  imports Tc_Request Netlink_Core
begin

text \<open>
  Installing and removing the filters of a peer (\<open>src/datapath/protected/application_protected_netlink.c\<close>).
  The library remembers for each filter whether it may own it in the kernel. What it may own is decided by
  the kernel's side of the exchange, which the model keeps apart from the code's flags: a request that was sent
  completely reaches the kernel, an acknowledgement of the kernel for the request's sequence number says what
  became of it, and as long as no such acknowledgement arrived a creation may have happened and a deletion
  may not.
\<close>

section \<open>The kernel's side\<close>

text \<open>A filter is addressed by interface, handle and priority with protocol.\<close>

type_synonym filter_id = "u32 \<times> u32 \<times> u32"

record kernel =
  k_script :: os_script
  k_may :: "filter_id set"
  k_pending :: "(nat \<times> u32 \<times> filter_id \<times> bool) option"

text \<open>What a request on the wire asks for: its type, its sequence number and the filter it addresses.\<close>

definition request_of :: "bytes \<Rightarrow> (nat \<times> u32 \<times> filter_id) option" where
  "request_of d = do {
     t \<leftarrow> get16 d 4; seq \<leftarrow> get32 d 8; ifindex \<leftarrow> get32 d 20; handle \<leftarrow> get32 d 24; info \<leftarrow> get32 d 32;
     Some (t, seq, (ifindex, handle, info)) }"

text \<open>\<open>sendto\<close> on a Netlink socket is a datagram: it is sent as a whole or not at all.\<close>

definition k_sendto :: "bytes \<Rightarrow> kernel \<Rightarrow> (int \<times> c_errno \<times> kernel) exec" where
  "k_sendto d k = exec_bind (read_send (k_script k)) (\<lambda>(r, err, os).
     let k = k\<lparr>k_script := os\<rparr>
     in if r \<noteq> int (length d) then Ret (r, err, k)
        else (case request_of d of
            None \<Rightarrow> Ret (r, err, k\<lparr>k_pending := None\<rparr>)
          | Some (t, seq, f) \<Rightarrow>
              Ret (r, err, k\<lparr>k_pending := Some (t, seq, f, f \<in> k_may k),
                             k_may := (if t = RTM_NEWTFILTER then insert f (k_may k) else k_may k)\<rparr>)))"

text \<open>
  Whether an acknowledgement with the given error says that the filter of the pending request is not in the
  kernel: a refused creation leaves what was there before, and a deletion that found nothing is as good as one
  that succeeded.
\<close>

definition settles :: "nat \<Rightarrow> bool \<Rightarrow> int \<Rightarrow> bool" where
  "settles t had err \<longleftrightarrow>
     (if t = RTM_NEWTFILTER then err < 0 \<and> \<not> had else err = 0 \<or> err = - ENOENT_number \<or> err = - ENODEV_number)"

definition ack_of :: "bytes \<Rightarrow> (u32 \<times> int) option" where
  "ack_of d = do {
     t \<leftarrow> get16 d 4; seq \<leftarrow> get32 d 8; error \<leftarrow> get32 d 16;
     if t = NLMSG_ERROR then Some (seq, sint error) else None }"

definition kernel_answer :: "int \<Rightarrow> bytes \<Rightarrow> u32 \<Rightarrow> kernel \<Rightarrow> kernel" where
  "kernel_answer r bs pid k = (case (k_pending k, ack_of bs) of
       (Some (t, seq, f, had), Some (seq', e)) \<Rightarrow>
         if 0 \<le> r \<and> pid = 0 \<and> seq' = seq \<and> settles t had e then k\<lparr>k_may := k_may k - {f}\<rparr> else k
     | _ \<Rightarrow> k)"

definition k_recvmsg :: "nat \<Rightarrow> kernel \<Rightarrow> (int \<times> bytes \<times> bool \<times> nat \<times> nat \<times> u32 \<times> c_errno \<times> kernel) exec" where
  "k_recvmsg cap k = exec_bind (read_recvmsg cap (k_script k)) (\<lambda>(r, bs, trunc, namelen, family, pid, err, os).
     Ret (r, bs, trunc, namelen, family, pid, err, kernel_answer r bs pid (k\<lparr>k_script := os\<rparr>)))"

lemma kernel_answer_simps [simp]:
  "k_script (kernel_answer r bs pid k) = k_script k" "k_pending (kernel_answer r bs pid k) = k_pending k"
  by (auto simp: kernel_answer_def split: option.split prod.split)

section \<open>Changing a filter\<close>

definition MapProtectedApplicationNetlinkError :: "int \<Rightarrow> IpsecError" where
  "MapProtectedApplicationNetlinkError iError =
     (if iError = EPERM_number \<or> iError = EACCES_number then IPSEC_ERR_PERMISSION
      else if iError = EEXIST_number then IPSEC_ERR_RESOURCE_CONFLICT
      else if iError = ENOENT_number \<or> iError = ENODEV_number then IPSEC_ERR_INTERFACE_NOT_FOUND
      else IPSEC_ERR_PROTECTED_PATH_UNAVAILABLE)"

definition ACK_CAPACITY :: nat where "ACK_CAPACITY = 4096"

text \<open>The reply once it was received: the result and the ownership flag.\<close>

definition judge_ack :: "u32 \<Rightarrow> bool \<Rightarrow> bool \<Rightarrow> int \<Rightarrow> bytes \<Rightarrow> (IpsecError \<times> bool) option" where
  "judge_ack uiSequence bRemove bOwned lLength bs = do {
     nlmsg_len \<leftarrow> get32 bs 0;
     nlmsg_type \<leftarrow> get16 bs 4;
     nlmsg_seq \<leftarrow> get32 bs 8;
     error \<leftarrow> get32 bs 16;
     Some (if int (unat nlmsg_len) > lLength \<or> unat nlmsg_len < 36 \<or> nlmsg_seq \<noteq> uiSequence \<or> nlmsg_type \<noteq> NLMSG_ERROR
           then (IPSEC_ERR_NETLINK_PARSE, bOwned)
           else if sint error = 0 then (IPSEC_OK, \<not> bRemove)
           else if 0 \<le> sint error \<or> error = 0x80000000 then (IPSEC_ERR_NETLINK_PARSE, bOwned)
           else if \<not> bRemove then (MapProtectedApplicationNetlinkError (- sint error), False)
           else if sint error = - ENOENT_number \<or> sint error = - ENODEV_number then (IPSEC_OK, False)
           else (MapProtectedApplicationNetlinkError (- sint error), bOwned)) }"

function ack_loop :: "nat \<Rightarrow> u32 \<Rightarrow> bool \<Rightarrow> bool \<Rightarrow> kernel \<Rightarrow> (IpsecError \<times> bool \<times> kernel) exec" where
  "ack_loop ullDeadline uiSequence bRemove bOwned k =
     (case read_clock (k_script k) of Blocked \<Rightarrow> Blocked | Fault \<Rightarrow> Fault
      | Ret (ullNow, os1) \<Rightarrow> (case read_poll os1 of Blocked \<Rightarrow> Blocked | Fault \<Rightarrow> Fault
        | Ret (iResult, revents, _, err, os2) \<Rightarrow>
            if iResult < 0 \<and> errno_number err = EINTR_number \<and> ullNow < ullDeadline
            then ack_loop ullDeadline uiSequence bRemove bOwned (k\<lparr>k_script := os2\<rparr>)
            else if iResult \<le> 0 \<or> revents AND NL_POLLIN = 0 then Ret (IPSEC_ERR_NETLINK_RECV, bOwned, k\<lparr>k_script := os2\<rparr>)
            else (case k_recvmsg ACK_CAPACITY (k\<lparr>k_script := os2\<rparr>) of Blocked \<Rightarrow> Blocked | Fault \<Rightarrow> Fault
              | Ret (lLength, bs, trunc, namelen, _, pid, err, k) \<Rightarrow>
                  if lLength < 0 \<and> (errno_number err = EINTR_number \<or> errno_number err = EAGAIN_number) \<and> ullNow < ullDeadline
                  then ack_loop ullDeadline uiSequence bRemove bOwned k
                  else if lLength < 36 \<or> trunc \<or> namelen < 12 \<or> pid \<noteq> 0 then Ret (IPSEC_ERR_NETLINK_PARSE, bOwned, k)
                  else (case judge_ack uiSequence bRemove bOwned lLength bs of None \<Rightarrow> Fault
                    | Some (e, bOwned) \<Rightarrow> Ret (e, bOwned, k)))))"
  by pat_completeness auto

lemma k_recvmsg_consumes:
  "k_recvmsg cap k = Ret (r, bs, trunc, namelen, family, pid, err, k') \<Longrightarrow> length (k_script k') < length (k_script k)"
  by (auto simp: k_recvmsg_def exec_bind_Ret script_simps)

termination ack_loop
  by (relation "measure (\<lambda>(dl, seq, rm, own, k). length (k_script k))")
    (auto simp: script_simps dest!: k_recvmsg_consumes sym [of "Ret _"])

declare ack_loop.simps [simp del]

definition ReceiveProtectedApplicationAck :: "u32 \<Rightarrow> bool \<Rightarrow> bool \<Rightarrow> kernel \<Rightarrow> (IpsecError \<times> bool \<times> kernel) exec" where
  "ReceiveProtectedApplicationAck uiSequence bRemove bOwned k =
     exec_bind (read_clock (k_script k)) (\<lambda>(ullNow, os).
       ack_loop ((ullNow + IPSEC_NETLINK_TIMEOUT_MS) mod 2 ^ 64) uiSequence bRemove bOwned (k\<lparr>k_script := os\<rparr>))"

definition ChangeProtectedApplicationFilter ::
  "IpsecProtectedApplicationState \<Rightarrow> bool \<Rightarrow> bool \<Rightarrow> bool \<Rightarrow> kernel \<Rightarrow> (IpsecError \<times> bool \<times> kernel) exec" where
  "ChangeProtectedApplicationFilter pState bUdpDrop bRemove bOwned k =
     (case BuildIpsecProtectedApplicationFilterRequest pState bUdpDrop bRemove of None \<Rightarrow> Fault
      | Some (e, Request) \<Rightarrow>
          if e \<noteq> IPSEC_OK then Ret (e, bOwned, k)
          else exec_bind (read_socket (k_script k)) (\<lambda>(iSocket, err, os).
            if iSocket < 0 then Ret (MapProtectedApplicationNetlinkError (errno_number err), bOwned, k\<lparr>k_script := os\<rparr>)
            else exec_bind (read_bind os) (\<lambda>(iResult, err, os).
              if iResult \<noteq> 0 then Ret (MapProtectedApplicationNetlinkError (errno_number err), bOwned, k\<lparr>k_script := os\<rparr>)
              else exec_bind (read_clock os) (\<lambda>(ullNow, os).
                let uiSequence = of_nat ullNow
                in exec_bind (lift_option (write_at Request 8 (le32 uiSequence))) (\<lambda>Request.
                   exec_bind (lift_option (get32 Request 0)) (\<lambda>nlmsg_len.
                   exec_bind (lift_option (rd_bytes Request 0 (unat nlmsg_len))) (\<lambda>d.
                   exec_bind (k_sendto d (k\<lparr>k_script := os\<rparr>)) (\<lambda>(lLength, err, k).
                     if lLength < 0 \<or> lLength \<noteq> int (unat nlmsg_len) then Ret (IPSEC_ERR_NETLINK_SEND, bOwned, k)
                     else ReceiveProtectedApplicationAck uiSequence bRemove (\<not> bRemove \<or> bOwned) k))))))))"

section \<open>Inspecting the kernel's filters\<close>

record IpsecProtectedApplicationInspection =
  in_bClsact :: bool
  in_uiFilterMask :: u32

definition RTM_NEWQDISC :: nat where "RTM_NEWQDISC = 36"
definition RTM_GETQDISC :: nat where "RTM_GETQDISC = 38"
definition TCA_EGRESS_BLOCK :: nat where "TCA_EGRESS_BLOCK = 14"

text \<open>The branch for a queueing discipline: \<open>clsact\<close> without a shared egress block is what the filters need.\<close>

definition inspect_qdisc ::
  "bytes \<Rightarrow> IpsecProtectedApplicationInspection \<Rightarrow> (IpsecError \<times> IpsecProtectedApplicationInspection) option" where
  "inspect_qdisc attrs n = (case FindAttribute attrs TCA_KIND of None \<Rightarrow> None
     | Some (e, v) \<Rightarrow>
         if e = IPSEC_OK \<and> v = Some (lit ''clsact'' @ [0])
         then (case FindAttribute attrs TCA_EGRESS_BLOCK of None \<Rightarrow> None
           | Some (e, v) \<Rightarrow>
               if e \<noteq> IPSEC_OK then Some (e, n)
               else (case v of None \<Rightarrow> Some (IPSEC_OK, n\<lparr>in_bClsact := True\<rparr>)
                 | Some x \<Rightarrow>
                     if length x \<noteq> 4 then Some (IPSEC_ERR_NETLINK_PARSE, n)
                     else get32 x 0 \<bind> (\<lambda>uiBlock.
                       if uiBlock \<noteq> 0 then Some (IPSEC_ERR_RESOURCE_CONFLICT, n)
                       else Some (IPSEC_OK, n\<lparr>in_bClsact := True\<rparr>))))
         else Some (e, n))"

definition InspectProtectedApplicationMessage ::
  "IpsecProtectedApplicationState \<Rightarrow> bool \<Rightarrow> IpsecProtectedApplicationInspection netlink_callback" where
  "InspectProtectedApplicationMessage pState bRequireEmpty msg n = do {
     nlmsg_len \<leftarrow> get32 msg 0;
     if unat nlmsg_len < 36 then Some (IPSEC_ERR_NETLINK_PARSE, n)
     else do {
       tcm_ifindex \<leftarrow> get32 msg 20;
       nlmsg_type \<leftarrow> get16 msg 4;
       if tcm_ifindex \<noteq> ap_uiEgressIndex pState then Some (IPSEC_OK, n)
       else if nlmsg_type = RTM_NEWQDISC
       then rd_bytes msg 36 (unat nlmsg_len - 36) \<bind> (\<lambda>attrs. inspect_qdisc attrs n)
       else map_option (\<lambda>(e, m). (e, n\<lparr>in_uiFilterMask := m\<rparr>))
         (InspectIpsecProtectedApplicationFilterMessage pState msg bRequireEmpty (in_uiFilterMask n)) } }"

definition tcmsg_bytes :: "u32 \<Rightarrow> u32 \<Rightarrow> bytes" where
  "tcmsg_bytes ifindex parent = [0, 0, 0, 0] @ le32 ifindex @ le32 0 @ le32 parent @ le32 0"

definition InspectIpsecProtectedApplicationFilters ::
  "IpsecProtectedApplicationState \<Rightarrow> bool \<Rightarrow> kernel \<Rightarrow> (IpsecError \<times> kernel) exec" where
  "InspectIpsecProtectedApplicationFilters pState bRequireEmpty k =
     (let cb = Some (InspectProtectedApplicationMessage pState bRequireEmpty);
          ifindex = ap_uiEgressIndex pState
      in exec_bind (ExecuteNetlinkDump RTM_GETQDISC (tcmsg_bytes ifindex 0) cb
             \<lparr>in_bClsact = False, in_uiFilterMask = 0\<rparr> (k_script k)) (\<lambda>(e, n, os).
         if e = IPSEC_OK \<and> \<not> in_bClsact n then Ret (IPSEC_ERR_PROTECTED_PATH_UNAVAILABLE, k\<lparr>k_script := os\<rparr>)
         else if e \<noteq> IPSEC_OK then Ret (e, k\<lparr>k_script := os\<rparr>)
         else exec_bind (ExecuteNetlinkDump RTM_GETTFILTER (tcmsg_bytes ifindex CLSACT_EGRESS) cb n os) (\<lambda>(e, n, os).
           Ret (if e = IPSEC_OK \<and> \<not> bRequireEmpty \<and> in_uiFilterMask n \<noteq> 3
                then IPSEC_ERR_PROTECTED_PATH_UNAVAILABLE else e, k\<lparr>k_script := os\<rparr>))))"

section \<open>The two filters of a peer\<close>

definition InstallIpsecProtectedApplicationFilters ::
  "IpsecProtectedApplicationState \<Rightarrow> kernel \<Rightarrow> (IpsecError \<times> IpsecProtectedApplicationState \<times> kernel) exec" where
  "InstallIpsecProtectedApplicationFilters pState k =
     exec_bind (InspectIpsecProtectedApplicationFilters pState True k) (\<lambda>(e, k).
       if e \<noteq> IPSEC_OK then Ret (e, pState, k)
       else exec_bind (ChangeProtectedApplicationFilter pState True False (ap_bUdpFilter pState) k) (\<lambda>(e, udp, k).
         let pState = pState\<lparr>ap_bUdpFilter := udp\<rparr>
         in if e \<noteq> IPSEC_OK then Ret (e, pState, k)
            else exec_bind (ChangeProtectedApplicationFilter pState False False (ap_bRawFilter pState) k) (\<lambda>(e, raw, k).
              let pState = pState\<lparr>ap_bRawFilter := raw\<rparr>
              in if e \<noteq> IPSEC_OK then Ret (e, pState, k)
                 else exec_bind (InspectIpsecProtectedApplicationFilters pState False k) (\<lambda>(e, k). Ret (e, pState, k)))))"

definition RemoveIpsecProtectedApplicationFilters ::
  "IpsecProtectedApplicationState \<Rightarrow> kernel \<Rightarrow> (IpsecError \<times> IpsecProtectedApplicationState \<times> kernel) exec" where
  "RemoveIpsecProtectedApplicationFilters pState k =
     exec_bind (if ap_bRawFilter pState
                then exec_bind (ChangeProtectedApplicationFilter pState False True (ap_bRawFilter pState) k)
                       (\<lambda>(e, raw, k). Ret (e, pState\<lparr>ap_bRawFilter := raw\<rparr>, k))
                else Ret (IPSEC_OK, pState, k)) (\<lambda>(eFirst, pState, k).
       if ap_bUdpFilter pState
       then exec_bind (ChangeProtectedApplicationFilter pState True True (ap_bUdpFilter pState) k)
              (\<lambda>(e, udp, k). Ret (if eFirst = IPSEC_OK then e else eFirst, pState\<lparr>ap_bUdpFilter := udp\<rparr>, k))
       else Ret (eFirst, pState, k))"

section \<open>Acknowledgements\<close>

definition filter_id_of :: "IpsecProtectedApplicationState \<Rightarrow> bool \<Rightarrow> filter_id" where
  "filter_id_of s b = (ap_uiEgressIndex s, GetProtectedApplicationFilterHandle s, GetProtectedApplicationFilterInfo s b)"

definition change_type :: "bool \<Rightarrow> nat" where
  "change_type rm = (if rm then RTM_DELTFILTER else RTM_NEWTFILTER)"

lemma judge_ack_sound:
  assumes "judge_ack seq rm own l bs = Some (e, own')" and "had \<longrightarrow> rm"
  shows "(own \<and> \<not> own' \<longrightarrow> (\<exists>err. ack_of bs = Some (seq, err) \<and> settles (change_type rm) had err))
    \<and> (e = IPSEC_OK \<longrightarrow> own' = (\<not> rm) \<and> (rm \<longrightarrow> (\<exists>err. ack_of bs = Some (seq, err) \<and> settles (change_type rm) had err)))"
  using assms
  by (auto simp: judge_ack_def ack_of_def settles_def change_type_def tc_numbers MapProtectedApplicationNetlinkError_def
      bind_eq_Some_conv split: if_splits)

definition ack_post :: "bool \<Rightarrow> filter_id \<Rightarrow> bool \<Rightarrow> kernel \<Rightarrow> IpsecError \<Rightarrow> bool \<Rightarrow> kernel \<Rightarrow> bool" where
  "ack_post rm f own k e own' k' \<longleftrightarrow> k_may k' - {f} = k_may k - {f} \<and> k_may k' \<subseteq> k_may k
     \<and> (own \<and> \<not> own' \<longrightarrow> f \<notin> k_may k') \<and> (e = IPSEC_OK \<longrightarrow> own' = (\<not> rm) \<and> (rm \<longrightarrow> f \<notin> k_may k'))"

lemma kernel_answer_may:
  "k_pending k = Some (t, seq, f, had) \<Longrightarrow> k_may (kernel_answer r bs pid k) - {f} = k_may k - {f}
     \<and> k_may (kernel_answer r bs pid k) \<subseteq> k_may k
     \<and> (0 \<le> r \<and> pid = 0 \<and> ack_of bs = Some (seq, err) \<and> settles t had err \<longrightarrow> f \<notin> k_may (kernel_answer r bs pid k))"
  by (auto simp: kernel_answer_def split: option.splits)

lemma k_recvmsg_Ret:
  "k_recvmsg cap k = Ret (r, bs, trunc, namelen, family, pid, err, k') \<longleftrightarrow>
     (\<exists>os. read_recvmsg cap (k_script k) = Ret (r, bs, trunc, namelen, family, pid, err, os)
        \<and> k' = kernel_answer r bs pid (k\<lparr>k_script := os\<rparr>))"
  by (auto simp: k_recvmsg_def exec_bind_Ret)

lemma k_recvmsg_no_fault [simp]: "k_recvmsg cap k \<noteq> Fault"
  by (simp add: k_recvmsg_def exec_bind_Fault)

lemma ack_post_step:
  assumes "ack_post rm f own k1 e own' k'" and "k_may k1 - {f} = k_may k - {f}" and "k_may k1 \<subseteq> k_may k"
  shows "ack_post rm f own k e own' k'"
  using assms by (auto simp: ack_post_def)

lemma judge_ack_total: "36 \<le> length bs \<Longrightarrow> judge_ack seq rm own l bs \<noteq> None"
  by (simp add: judge_ack_def get32_def get16_def rd_bytes_def)

lemma ack_loop_spec:
  assumes "k_pending k = Some (change_type rm, seq, f, had)" and "had \<longrightarrow> rm"
  shows "ack_loop dl seq rm own k \<noteq> Fault \<and>
    (\<forall>e own' k'. ack_loop dl seq rm own k = Ret (e, own', k') \<longrightarrow> ack_post rm f own k e own' k')"
  using assms
proof (induction dl seq rm own k rule: ack_loop.induct)
  case (1 dl seq rm own k)
  show ?case
  proof (cases "read_clock (k_script k)")
    case Blocked
    then show ?thesis by (subst ack_loop.simps, subst (2) ack_loop.simps) simp
  next
    case Fault
    then show ?thesis by simp
  next
    case (Ret c)
    then obtain now os1 where c: "read_clock (k_script k) = Ret (now, os1)" by (cases c) simp
    show ?thesis
    proof (cases "read_poll os1")
      case Blocked
      with c show ?thesis by (subst ack_loop.simps, subst (2) ack_loop.simps) simp
    next
      case Fault
      then show ?thesis by simp
    next
      case (Ret q)
      then obtain r v0 v1 err os2 where p: "read_poll os1 = Ret (r, v0, v1, err, os2)" by (cases q) auto
      let ?k = "k\<lparr>k_script := os2\<rparr>"
      let ?again = "r < 0 \<and> errno_number err = EINTR_number \<and> now < dl"
      let ?stop = "r \<le> 0 \<or> v0 AND NL_POLLIN = 0"
      have pend: "k_pending ?k = Some (change_type rm, seq, f, had)" using "1.prems" by simp
      consider (again) "?again" | (stop) "\<not> ?again" "?stop" | (recv) "\<not> ?again" "\<not> ?stop" by blast
      then show ?thesis
      proof cases
        case again
        have run: "ack_loop dl seq rm own k = ack_loop dl seq rm own ?k"
          using c p again by (subst ack_loop.simps) simp
        show ?thesis
          unfolding run using "1.IH"(1) [OF c refl p refl refl refl refl again pend "1.prems"(2)] by (auto simp: ack_post_def)
      next
        case stop
        have run: "ack_loop dl seq rm own k = Ret (IPSEC_ERR_NETLINK_RECV, own, ?k)"
          using c p stop by (subst ack_loop.simps) auto
        show ?thesis unfolding run by (simp add: ack_post_def)
      next
        case recv
        show ?thesis
        proof (cases "k_recvmsg ACK_CAPACITY ?k")
          case Blocked
          then have run: "ack_loop dl seq rm own k = Blocked"
            using c p recv by (subst ack_loop.simps) auto
          show ?thesis unfolding run by simp
        next
          case Fault
          then show ?thesis by simp
        next
          case (Ret x)
          then obtain l bs trunc nl fam pid er k2 where
            g: "k_recvmsg ACK_CAPACITY ?k = Ret (l, bs, trunc, nl, fam, pid, er, k2)" by (cases x) auto
          then obtain os3 where os3: "read_recvmsg ACK_CAPACITY os2 = Ret (l, bs, trunc, nl, fam, pid, er, os3)"
            and k2: "k2 = kernel_answer l bs pid (?k\<lparr>k_script := os3\<rparr>)"
            by (auto simp: k_recvmsg_Ret)
          have pend2: "k_pending k2 = Some (change_type rm, seq, f, had)" using "1.prems" by (simp add: k2)
          have may: "k_may k2 - {f} = k_may k - {f}" "k_may k2 \<subseteq> k_may k"
            "0 \<le> l \<and> pid = 0 \<and> ack_of bs = Some (seq, x) \<and> settles (change_type rm) had x \<Longrightarrow> f \<notin> k_may k2" for x
            using kernel_answer_may [of "?k\<lparr>k_script := os3\<rparr>" "change_type rm" seq f had l bs pid x] "1.prems"
            by (auto simp: k2)
          let ?retry = "l < 0 \<and> (errno_number er = EINTR_number \<or> errno_number er = EAGAIN_number) \<and> now < dl"
          let ?bad = "l < 36 \<or> trunc \<or> nl < 12 \<or> pid \<noteq> 0"
          consider (retry) "?retry" | (bad) "\<not> ?retry" "?bad" | (ack) "\<not> ?retry" "\<not> ?bad" by blast
          then show ?thesis
          proof cases
            case retry
            have run: "ack_loop dl seq rm own k = ack_loop dl seq rm own k2"
              using c p recv g retry by (subst ack_loop.simps) auto
            have "ack_loop dl seq rm own k2 \<noteq> Fault \<and>
              (\<forall>e own' k'. ack_loop dl seq rm own k2 = Ret (e, own', k') \<longrightarrow> ack_post rm f own k2 e own' k')"
              using "1.IH"(2) [OF c refl p refl refl refl refl _ _ g refl refl refl refl refl refl refl retry pend2 "1.prems"(2)] recv by auto
            then show ?thesis unfolding run using ack_post_step may by blast
          next
            case bad
            have run: "ack_loop dl seq rm own k = Ret (IPSEC_ERR_NETLINK_PARSE, own, k2)"
              using c p recv g bad by (subst ack_loop.simps) auto
            show ?thesis unfolding run using may by (auto simp: ack_post_def)
          next
            case ack
            then have "36 \<le> length bs" using os3 by (auto simp: script_simps)
            then obtain e own' where j: "judge_ack seq rm own l bs = Some (e, own')"
              using judge_ack_total [of bs seq rm own l] by auto
            have run: "ack_loop dl seq rm own k = Ret (e, own', k2)"
              using c p recv g ack j by (subst ack_loop.simps) auto
            show ?thesis
              unfolding run using judge_ack_sound [OF j "1.prems"(2)] may ack by (auto simp: ack_post_def)
          qed
        qed
      qed
    qed
  qed
qed

section \<open>The request on the wire\<close>

lemma Build_remove:
  "\<exists>d. BuildIpsecProtectedApplicationFilterRequest s b True = Some (IPSEC_OK, d) \<and> request_is d (request_header s b True) []"
proof -
  let ?d = "le32 36 @ request_header s b True @ replicate (IPSEC_PROTECTED_APPLICATION_NETLINK_CAPACITY - 36) 0"
  have "request_is ?d (request_header s b True) []"
    by (simp add: request_is_def part_lengths IPSEC_PROTECTED_APPLICATION_NETLINK_CAPACITY_def)
  then show ?thesis by (auto simp: BuildIpsecProtectedApplicationFilterRequest_def Let_def)
qed

lemma Build_any:
  "\<exists>d body. BuildIpsecProtectedApplicationFilterRequest s b rm = Some (IPSEC_OK, d)
     \<and> request_is d (request_header s b rm) body"
  using Build_remove [of s b] Build_request [of s b] by (cases rm) auto

lemma rd_bytes_prefix: "length x = n \<Longrightarrow> rd_bytes (x @ z) 0 n = Some x"
  by (simp add: rd_bytes_def)

lemma request_on_wire:
  assumes "request_is d (request_header s b rm) body"
  shows "\<exists>d' x. write_at d 8 (le32 q) = Some d' \<and> get32 d' 0 = Some (of_nat (36 + length body))
     \<and> rd_bytes d' 0 (36 + length body) = Some x \<and> length x = 36 + length body
     \<and> request_of x = Some (change_type rm, q, filter_id_of s b)"
proof -
  let ?l = "le32 (of_nat (36 + length body))" and ?z = "replicate (2012 - length body) (0 :: u8)"
  let ?t = "le16 (if rm then RTM_DELTFILTER else RTM_NEWTFILTER)"
  let ?f = "le16 (if rm then NLM_F_REQUEST OR NLM_F_ACK else NLM_F_REQUEST OR NLM_F_ACK OR NLM_F_CREATE OR NLM_F_EXCL)"
  let ?tc = "le32 (ap_uiEgressIndex s) @ le32 (GetProtectedApplicationFilterHandle s)
      @ le32 CLSACT_EGRESS @ le32 (GetProtectedApplicationFilterInfo s b) @ body"
  have d: "d = (?l @ ?t @ ?f) @ le32 0 @ le32 0 @ [0, 0, 0, 0] @ ?tc @ ?z"
    using assms by (simp add: request_is_def request_header_def)
  let ?x = "?l @ ?t @ ?f @ le32 q @ le32 0 @ [0, 0, 0, 0] @ ?tc"
  have w: "write_at d 8 (le32 q) = Some (?x @ ?z)"
    unfolding d by (subst write_at_append) simp_all
  have n: "get32 (?x @ ?z) 0 = Some (of_nat (36 + length body))"
    using get32_at [of "[]" 0] by simp
  have r: "rd_bytes (?x @ ?z) 0 (36 + length body) = Some ?x"
    by (rule rd_bytes_prefix) simp
  have "get16 ?x 4 = Some (change_type rm)"
    using get16_at [of ?l 4] by (simp add: change_type_def tc_numbers)
  moreover have "get32 ?x 8 = Some q"
    using get32_at [of "?l @ ?t @ ?f" 8] by simp
  moreover have "get32 ?x 20 = Some (ap_uiEgressIndex s)"
    using get32_at [of "?l @ ?t @ ?f @ le32 q @ le32 0 @ [0, 0, 0, 0]" 20] by simp
  moreover have "get32 ?x 24 = Some (GetProtectedApplicationFilterHandle s)"
    using get32_at [of "?l @ ?t @ ?f @ le32 q @ le32 0 @ [0, 0, 0, 0] @ le32 (ap_uiEgressIndex s)" 24] by simp
  moreover have "get32 ?x 32 = Some (GetProtectedApplicationFilterInfo s b)"
    using get32_at [of "?l @ ?t @ ?f @ le32 q @ le32 0 @ [0, 0, 0, 0] @ le32 (ap_uiEgressIndex s)
        @ le32 (GetProtectedApplicationFilterHandle s) @ le32 CLSACT_EGRESS" 32] by simp
  ultimately have "request_of ?x = Some (change_type rm, q, filter_id_of s b)"
    unfolding request_of_def filter_id_of_def by (simp only: bind.bind_lunit)
  moreover have "length ?x = 36 + length body" by simp
  ultimately show ?thesis using w n r by blast
qed

lemma k_sendto_Ret:
  assumes "k_sendto d k = Ret (r, err, k')" and "request_of d = Some (t, seq, f)"
  shows "k_may k' - {f} = k_may k - {f}
    \<and> (r = int (length d) \<longrightarrow> k_pending k' = Some (t, seq, f, f \<in> k_may k) \<and> k_may k' = (if t = RTM_NEWTFILTER then insert f (k_may k) else k_may k))
    \<and> (r \<noteq> int (length d) \<longrightarrow> k_may k' = k_may k)"
proof -
  from assms(1) obtain os where "(if r \<noteq> int (length d) then Ret (r, err, k\<lparr>k_script := os\<rparr>)
      else Ret (r, err, k\<lparr>k_script := os, k_pending := Some (t, seq, f, f \<in> k_may k),
        k_may := (if t = RTM_NEWTFILTER then insert f (k_may k) else k_may k)\<rparr>)) = Ret (r, err, k')"
    unfolding k_sendto_def Let_def by (elim exec_bind_RetE) (auto simp: assms(2) split: if_split_asm)
  then show ?thesis by (cases "r = int (length d)") auto
qed

lemma k_sendto_no_fault [simp]: "k_sendto d k \<noteq> Fault"
  by (auto simp: k_sendto_def exec_bind_Fault Let_def split: if_splits option.splits)

text \<open>What a change of one filter does: nothing to other filters, and the flag stays true to the kernel.\<close>

definition change_post :: "bool \<Rightarrow> filter_id \<Rightarrow> bool \<Rightarrow> kernel \<Rightarrow> IpsecError \<Rightarrow> bool \<Rightarrow> kernel \<Rightarrow> bool" where
  "change_post rm f own k e own' k' \<longleftrightarrow> k_may k' - {f} = k_may k - {f}
     \<and> ((f \<in> k_may k \<longrightarrow> own) \<longrightarrow> (f \<in> k_may k' \<longrightarrow> own'))
     \<and> (e = IPSEC_OK \<longrightarrow> own' = (\<not> rm) \<and> (rm \<longrightarrow> f \<notin> k_may k'))"

lemma Receive_ack_spec:
  assumes "k_pending k = Some (change_type rm, seq, f, had)" and "had \<longrightarrow> rm"
  shows "ReceiveProtectedApplicationAck seq rm own k \<noteq> Fault \<and>
    (\<forall>e own' k'. ReceiveProtectedApplicationAck seq rm own k = Ret (e, own', k') \<longrightarrow> ack_post rm f own k e own' k')"
  using ack_loop_spec [of "k\<lparr>k_script := os\<rparr>" rm seq f had for os] assms
  by (fastforce simp: ReceiveProtectedApplicationAck_def exec_bind_Ret exec_bind_Fault ack_post_def)

lemma MapError_not_OK [simp]: "MapProtectedApplicationNetlinkError i \<noteq> IPSEC_OK"
  by (simp add: MapProtectedApplicationNetlinkError_def)

lemma runs_if: "(b \<Longrightarrow> runs Q r) \<Longrightarrow> (\<not> b \<Longrightarrow> runs Q s) \<Longrightarrow> runs Q (if b then r else s)"
  by simp

lemma Change_runs:
  assumes fresh: "filter_id_of s b \<in> k_may k \<longrightarrow> rm"
  shows "runs (\<lambda>(e, own', k'). change_post rm (filter_id_of s b) own k e own' k') (ChangeProtectedApplicationFilter s b rm own k)"
proof -
  let ?f = "filter_id_of s b"
  let ?Q = "\<lambda>(e, own', k'). change_post rm ?f own k e own' k'"
  obtain d body where d: "BuildIpsecProtectedApplicationFilterRequest s b rm = Some (IPSEC_OK, d)"
    "request_is d (request_header s b rm) body"
    using Build_any by blast
  have len: "unat (of_nat (36 + length body) :: u32) = 36 + length body"
    by (rule request_length(3) [OF d(2)])
  have early: "?Q (e, own, k\<lparr>k_script := os\<rparr>)" if "e \<noteq> IPSEC_OK" for e os
    using that by (simp add: change_post_def)
  let ?send = "\<lambda>q os. exec_bind (lift_option (write_at d 8 (le32 q))) (\<lambda>Request.
                   exec_bind (lift_option (get32 Request 0)) (\<lambda>nlmsg_len.
                   exec_bind (lift_option (rd_bytes Request 0 (unat nlmsg_len))) (\<lambda>d.
                   exec_bind (k_sendto d (k\<lparr>k_script := os\<rparr>)) (\<lambda>(lLength, err, k).
                     if lLength < 0 \<or> lLength \<noteq> int (unat nlmsg_len) then Ret (IPSEC_ERR_NETLINK_SEND, own, k)
                     else ReceiveProtectedApplicationAck q rm (\<not> rm \<or> own) k))))"
  have send: "runs ?Q (?send q os)" for q os
  proof -
    obtain d' x where w: "write_at d 8 (le32 q) = Some d'" "get32 d' 0 = Some (of_nat (36 + length body))"
      "rd_bytes d' 0 (36 + length body) = Some x" "length x = 36 + length body"
      "request_of x = Some (change_type rm, q, ?f)"
      using request_on_wire [OF d(2), of q] by blast
    let ?tail = "\<lambda>(l, err :: c_errno, k). if l < 0 \<or> l \<noteq> int (36 + length body) then Ret (IPSEC_ERR_NETLINK_SEND, own, k)
        else ReceiveProtectedApplicationAck q rm (\<not> rm \<or> own) k"
    have run: "?send q os = exec_bind (k_sendto x (k\<lparr>k_script := os\<rparr>)) ?tail"
      by (simp only: w(1-3) lift_option_simps exec_bind_simps len)
    have tail: "runs ?Q (?tail (l, err, k1))" if s: "k_sendto x (k\<lparr>k_script := os\<rparr>) = Ret (l, err, k1)" for l err k1
    proof (cases "l = int (36 + length body)")
      case True
      with k_sendto_Ret [OF s w(5)] w(4) have k1: "k_pending k1 = Some (change_type rm, q, ?f, ?f \<in> k_may k)"
        "k_may k1 = (if rm then k_may k else insert ?f (k_may k))"
        by (auto simp: change_type_def tc_numbers)
      have "runs (\<lambda>(e, own', k'). ack_post rm ?f (\<not> rm \<or> own) k1 e own' k')
          (ReceiveProtectedApplicationAck q rm (\<not> rm \<or> own) k1)"
        using Receive_ack_spec [OF k1(1) fresh] by (auto simp: runs_def)
      then have "runs ?Q (ReceiveProtectedApplicationAck q rm (\<not> rm \<or> own) k1)"
        by (rule runs_mono) (use k1(2) in \<open>auto simp: ack_post_def change_post_def split: if_splits\<close>)
      with True show ?thesis by simp
    next
      case False
      with k_sendto_Ret [OF s w(5)] w(4) show ?thesis by (auto simp: change_post_def)
    qed
    show ?thesis
      unfolding run by (rule runs_call) (use tail in auto)
  qed
  have clock: "runs ?Q (exec_bind (read_clock os) (\<lambda>(now, os). ?send (of_nat now) os))" for os
    by (rule runs_call) (simp, clarify, rule send)
  have bind: "runs ?Q (exec_bind (read_bind os) (\<lambda>(r, err, os). if r \<noteq> 0
      then Ret (MapProtectedApplicationNetlinkError (errno_number err), own, k\<lparr>k_script := os\<rparr>)
      else exec_bind (read_clock os) (\<lambda>(now, os). ?send (of_nat now) os)))" for os
    by (rule runs_call, simp, clarify, rule runs_if) (use clock early in simp_all)
  show ?thesis
    unfolding ChangeProtectedApplicationFilter_def d(1) option.case prod.case Let_def
    by (subst if_not_P, simp, rule runs_call, simp, clarify, rule runs_if) (use bind early in simp_all)
qed

section \<open>Inspections are safe\<close>

text \<open>A computation that stays inside its objects, with one introduction rule per construct.\<close>

definition defined :: "'a option \<Rightarrow> bool" where
  "defined r \<longleftrightarrow> r \<noteq> None"

named_theorems defined_intros \<open>computations that stay inside their objects\<close>

lemma defined_Some [defined_intros]: "defined (Some x)"
  by (simp add: defined_def)

lemma defined_if [defined_intros]: "(b \<Longrightarrow> defined r) \<Longrightarrow> (\<not> b \<Longrightarrow> defined s) \<Longrightarrow> defined (if b then r else s)"
  by simp

lemma defined_bind [defined_intros]: "defined r \<Longrightarrow> (\<And>x. r = Some x \<Longrightarrow> defined (f x)) \<Longrightarrow> defined (r \<bind> f)"
  by (cases r) (auto simp: defined_def)

lemma defined_map [defined_intros]: "defined r \<Longrightarrow> defined (map_option f r)"
  by (simp add: defined_def)

lemma defined_get32 [defined_intros]: "off + 4 \<le> length d \<Longrightarrow> defined (get32 d off)"
  by (simp add: defined_def get32_def rd_bytes_def)

lemma defined_get16 [defined_intros]: "off + 2 \<le> length d \<Longrightarrow> defined (get16 d off)"
  by (simp add: defined_def get16_def rd_bytes_def)

lemma defined_rd_bytes [defined_intros]: "off + n \<le> length d \<Longrightarrow> defined (rd_bytes d off n)"
  by (simp add: defined_def rd_bytes_def)

lemma FindAttribute_total: "\<exists>e v. FindAttribute d t = Some (e, v)"
  using Find_sound [of d t None] by blast

lemma defined_find [defined_intros]: "defined (FindAttribute d t)"
  using FindAttribute_total [of d t] by (auto simp: defined_def)

lemma defined_required [defined_intros]: "(\<And>v. defined (f v)) \<Longrightarrow> defined (with_required d t err f)"
  using FindAttribute_total [of d t]
  by (auto simp: defined_def with_required_def RequireProtectedApplicationAttribute_def split: option.splits)

lemma defined_optional32 [defined_intros]: "(\<And>v. defined (f v)) \<Longrightarrow> defined (with_optional32 d t f)"
  using FindAttribute_total [of d t]
  by (auto simp: defined_def with_optional32_def get32_def rd_bytes_def split: option.splits)

lemma defined_parms [defined_intros]: "defined (validate_parms s b v)"
  unfolding validate_parms_def by (intro defined_intros) auto

lemma defined_action [defined_intros]: "defined (validate_action s b d)"
  unfolding validate_action_def by (intro defined_intros)

lemma defined_flags [defined_intros]: "defined (ValidateProtectedApplicationProgramFlags d n)"
  unfolding ValidateProtectedApplicationProgramFlags_def by (intro defined_intros) auto

lemma defined_validate:
  assumes "get32 d 0 = Some len" and "unat len \<le> length d" and "36 \<le> length d"
  shows "defined (ValidateIpsecProtectedApplicationFilter s d b)"
  unfolding ValidateIpsecProtectedApplicationFilter_def Let_def by (intro defined_intros) (use assms in auto)

lemma defined_inspect:
  assumes "get32 d 0 = Some len" and "unat len \<le> length d" and "36 \<le> length d"
  shows "defined (InspectIpsecProtectedApplicationFilterMessage s d none m)"
  unfolding InspectIpsecProtectedApplicationFilterMessage_def Let_def
  by (intro defined_intros defined_validate [OF assms]) (use assms in auto)

lemma defined_case [defined_intros]:
  "(r = None \<Longrightarrow> defined a) \<Longrightarrow> (\<And>x. r = Some x \<Longrightarrow> defined (f x)) \<Longrightarrow> defined (case r of None \<Rightarrow> a | Some x \<Rightarrow> f x)"
  by (cases r) auto

lemma defined_qdisc [defined_intros]: "defined (inspect_qdisc attrs n)"
proof -
  obtain e v e' v' where "FindAttribute attrs TCA_KIND = Some (e, v)" "FindAttribute attrs TCA_EGRESS_BLOCK = Some (e', v')"
    using FindAttribute_total by metis
  then show ?thesis
    unfolding inspect_qdisc_def by (simp only: option.case prod.case) (intro defined_intros, auto)
qed

lemma inspection_safe: "callback_safe (Some (InspectProtectedApplicationMessage s none))"
proof -
  have "defined (InspectProtectedApplicationMessage s none m n)" if "framed m" for m n
  proof -
    from that have len: "get32 m 0 = Some (of_nat (length m))" "unat (of_nat (length m) :: u32) = length m" "16 \<le> length m"
      by (auto simp: framed_def unat_of_nat take_bit_nat_def)
    show ?thesis
      unfolding InspectProtectedApplicationMessage_def
      by (intro defined_intros defined_inspect [OF len(1)]) (use len in auto)
  qed
  then show ?thesis by (simp add: callback_safe_def defined_def)
qed

lemma Inspect_runs: "runs (\<lambda>(e, k'). k_may k' = k_may k) (InspectIpsecProtectedApplicationFilters s none k)"
proof -
  have dump: "ExecuteNetlinkDump t p (Some (InspectProtectedApplicationMessage s none)) n os \<noteq> Fault" for t p n os
    using Execute_dump_spec [OF inspection_safe [of s none]] by blast
  show ?thesis
    unfolding InspectIpsecProtectedApplicationFilters_def Let_def
    by (rule runs_call [OF dump], clarify, intro runs_if) (auto intro!: runs_call [OF dump])
qed

section \<open>Ownership\<close>

text \<open>
  The flags of a state cover the kernel when no filter of the state can be in the kernel without its flag. What
  an operation on the two filters of a state keeps: only those filters and the two flags change, and the
  flags still cover the kernel.
\<close>

definition covers :: "IpsecProtectedApplicationState \<Rightarrow> kernel \<Rightarrow> bool" where
  "covers s k \<longleftrightarrow> (filter_id_of s False \<in> k_may k \<longrightarrow> ap_bRawFilter s) \<and> (filter_id_of s True \<in> k_may k \<longrightarrow> ap_bUdpFilter s)"

definition own_filters :: "IpsecProtectedApplicationState \<Rightarrow> filter_id set" where
  "own_filters s = {filter_id_of s False, filter_id_of s True}"

definition filters_post ::
  "IpsecProtectedApplicationState \<Rightarrow> kernel \<Rightarrow> IpsecProtectedApplicationState \<Rightarrow> kernel \<Rightarrow> bool" where
  "filters_post s k s' k' \<longleftrightarrow> s' = s\<lparr>ap_bRawFilter := ap_bRawFilter s', ap_bUdpFilter := ap_bUdpFilter s'\<rparr>
     \<and> k_may k' - own_filters s = k_may k - own_filters s \<and> (covers s k \<longrightarrow> covers s' k')"

lemma filter_id_flags [simp]:
  "filter_id_of (s\<lparr>ap_bRawFilter := x\<rparr>) b = filter_id_of s b" "filter_id_of (s\<lparr>ap_bUdpFilter := x\<rparr>) b = filter_id_of s b"
  by (simp_all add: filter_id_of_def GetProtectedApplicationFilterHandle_def GetProtectedApplicationFilterInfo_def)

lemma own_filters_flags [simp]:
  "own_filters (s\<lparr>ap_bRawFilter := x\<rparr>) = own_filters s" "own_filters (s\<lparr>ap_bUdpFilter := x\<rparr>) = own_filters s"
  by (simp_all add: own_filters_def)

lemma filters_post_refl: "k_may k' = k_may k \<Longrightarrow> filters_post s k s k'"
  by (simp add: filters_post_def covers_def)

lemma filters_post_trans: "filters_post s k s1 k1 \<Longrightarrow> filters_post s1 k1 s2 k2 \<Longrightarrow> filters_post s k s2 k2"
proof -
  assume a: "filters_post s k s1 k1" "filters_post s1 k1 s2 k2"
  obtain r u where s1: "s1 = s\<lparr>ap_bRawFilter := r, ap_bUdpFilter := u\<rparr>"
    using a(1) unfolding filters_post_def by blast
  obtain r' u' where "s2 = s1\<lparr>ap_bRawFilter := r', ap_bUdpFilter := u'\<rparr>"
    using a(2) unfolding filters_post_def by blast
  moreover have "k_may k2 - own_filters s = k_may k - own_filters s" "covers s k \<longrightarrow> covers s2 k2"
    using a s1 by (simp_all add: filters_post_def)
  ultimately show ?thesis unfolding filters_post_def s1 by simp
qed

lemma info_distinct: "filter_id_of s False \<noteq> filter_id_of s True"
proof
  assume "filter_id_of s False = filter_id_of s True"
  then have eq: "GetProtectedApplicationFilterInfo s False = GetProtectedApplicationFilterInfo s True"
    by (simp add: filter_id_of_def)
  have b: "bit (GetProtectedApplicationFilterInfo s b) 16 \<longleftrightarrow> bit (ucast (ap_usPriority s) + (if b then 1 else 0 :: u32)) 0" for b
    by (simp add: GetProtectedApplicationFilterInfo_def Let_def bit_simps de16_def)
  have "even (ucast (ap_usPriority s) :: u32) \<longleftrightarrow> even (ucast (ap_usPriority s) + 1 :: u32)"
    using b [of False] b [of True] eq by (simp add: bit_0)
  then show False by (simp only: even_plus_one_iff) blast
qed

lemma change_other:
  assumes "change_post rm f own k e own' k'" and "g \<noteq> f"
  shows "g \<in> k_may k' \<longleftrightarrow> g \<in> k_may k" and "k_may k' - {f, g} = k_may k - {f, g}"
proof -
  have eq: "k_may k' - {f} = k_may k - {f}" using assms(1) by (simp add: change_post_def)
  have in': "x \<in> k_may k' \<longleftrightarrow> x \<in> k_may k" if "x \<noteq> f" for x
    using that eq by (metis Diff_iff singletonD)
  from in' [OF assms(2)] show "g \<in> k_may k' \<longleftrightarrow> g \<in> k_may k" .
  show "k_may k' - {f, g} = k_may k - {f, g}" by (rule set_eqI) (use in' in blast)
qed

lemma fresh_raw: "covers s k \<and> \<not> ap_bRawFilter s \<or> rm \<Longrightarrow> filter_id_of s False \<in> k_may k \<longrightarrow> rm"
  by (auto simp: covers_def)

lemma fresh_udp: "covers s k \<and> \<not> ap_bUdpFilter s \<or> rm \<Longrightarrow> filter_id_of s True \<in> k_may k \<longrightarrow> rm"
  by (auto simp: covers_def)

lemma Change_raw:
  assumes "covers s k \<and> \<not> ap_bRawFilter s \<or> rm"
  shows "runs (\<lambda>(e, own', k'). filters_post s k (s\<lparr>ap_bRawFilter := own'\<rparr>) k' \<and> (e = IPSEC_OK \<longrightarrow> own' = (\<not> rm)))
     (ChangeProtectedApplicationFilter s False rm (ap_bRawFilter s) k)"
proof (rule runs_mono [OF Change_runs [OF fresh_raw [OF assms]]], clarify)
  fix e own' k' assume post: "change_post rm (filter_id_of s False) (ap_bRawFilter s) k e own' k'"
  note other = change_other [OF post info_distinct [of s, symmetric]]
  show "filters_post s k (s\<lparr>ap_bRawFilter := own'\<rparr>) k' \<and> (e = IPSEC_OK \<longrightarrow> own' = (\<not> rm))"
    using post other by (simp add: filters_post_def covers_def own_filters_def change_post_def)
qed

lemma Change_udp:
  assumes "covers s k \<and> \<not> ap_bUdpFilter s \<or> rm"
  shows "runs (\<lambda>(e, own', k'). filters_post s k (s\<lparr>ap_bUdpFilter := own'\<rparr>) k' \<and> (e = IPSEC_OK \<longrightarrow> own' = (\<not> rm)))
     (ChangeProtectedApplicationFilter s True rm (ap_bUdpFilter s) k)"
proof (rule runs_mono [OF Change_runs [OF fresh_udp [OF assms]]], clarify)
  fix e own' k' assume post: "change_post rm (filter_id_of s True) (ap_bUdpFilter s) k e own' k'"
  note other = change_other [OF post info_distinct [of s]]
  show "filters_post s k (s\<lparr>ap_bUdpFilter := own'\<rparr>) k' \<and> (e = IPSEC_OK \<longrightarrow> own' = (\<not> rm))"
    using post other by (simp add: filters_post_def covers_def own_filters_def change_post_def insert_commute)
qed

definition installed :: "IpsecProtectedApplicationState \<Rightarrow> bool" where
  "installed s \<longleftrightarrow> ap_bRawFilter s \<and> ap_bUdpFilter s"

definition absent :: "IpsecProtectedApplicationState \<Rightarrow> bool" where
  "absent s \<longleftrightarrow> \<not> ap_bRawFilter s \<and> \<not> ap_bUdpFilter s"

lemma installed_raw: "ap_bUdpFilter s \<Longrightarrow> installed (s\<lparr>ap_bRawFilter := True\<rparr>)"
  by (simp add: installed_def)

lemma removed_filters: "covers s' k' \<Longrightarrow> absent s' \<Longrightarrow> filters_post s k s' k' \<Longrightarrow> own_filters s \<inter> k_may k' = {}"
proof -
  assume a: "covers s' k'" "absent s'" "filters_post s k s' k'"
  then have "filter_id_of s' b = filter_id_of s b" for b
    unfolding filters_post_def by (metis filter_id_flags)
  with a(1,2) show ?thesis by (simp add: covers_def absent_def own_filters_def)
qed

lemma Install_runs:
  assumes start: "covers s k" "absent s"
  shows "runs (\<lambda>(e, s', k'). filters_post s k s' k' \<and> (e = IPSEC_OK \<longrightarrow> installed s')) (InstallIpsecProtectedApplicationFilters s k)"
proof -
  let ?P = "\<lambda>(e, s', k'). filters_post s k s' k' \<and> (e = IPSEC_OK \<longrightarrow> installed s')"
  let ?last = "\<lambda>s2 k2. exec_bind (InspectIpsecProtectedApplicationFilters s2 False k2) (\<lambda>(e, k). Ret (e, s2, k))"
  let ?raw = "\<lambda>s1 k1. exec_bind (ChangeProtectedApplicationFilter s1 False False (ap_bRawFilter s1) k1) (\<lambda>(e, raw, k).
      if e \<noteq> IPSEC_OK then Ret (e, s1\<lparr>ap_bRawFilter := raw\<rparr>, k) else ?last (s1\<lparr>ap_bRawFilter := raw\<rparr>) k)"
  have last: "runs ?P (?last s2 k2)" if "filters_post s k s2 k2" "installed s2" for s2 k2
    by (rule runs_bind [OF Inspect_runs]) (use that filters_post_trans [OF that(1) filters_post_refl] in auto)
  have raw: "runs ?P (?raw s1 k1)" if "filters_post s k s1 k1" "ap_bUdpFilter s1" "\<not> ap_bRawFilter s1" for s1 k1
  proof -
    have cov: "covers s1 k1 \<and> \<not> ap_bRawFilter s1 \<or> False" using start that unfolding filters_post_def by blast
    show ?thesis
      by (rule runs_bind [OF Change_raw [OF cov]], clarify, rule runs_if)
        (use that filters_post_trans [OF that(1)] in \<open>auto intro!: last installed_raw\<close>)
  qed
  have udp: "runs ?P (exec_bind (ChangeProtectedApplicationFilter s True False (ap_bUdpFilter s) k1) (\<lambda>(e, udp, k).
      if e \<noteq> IPSEC_OK then Ret (e, s\<lparr>ap_bUdpFilter := udp\<rparr>, k) else ?raw (s\<lparr>ap_bUdpFilter := udp\<rparr>) k))"
    if k1: "k_may k1 = k_may k" for k1
  proof -
    have cov: "covers s k1 \<and> \<not> ap_bUdpFilter s \<or> False" using start k1 by (simp add: covers_def absent_def)
    show ?thesis
    proof (rule runs_bind [OF Change_udp [OF cov]], clarify, rule runs_if)
      fix e u k2 assume "filters_post s k1 (s\<lparr>ap_bUdpFilter := u\<rparr>) k2" and own: "e = IPSEC_OK \<longrightarrow> u = (\<not> False)"
      then have post: "filters_post s k (s\<lparr>ap_bUdpFilter := u\<rparr>) k2"
        using filters_post_trans [OF filters_post_refl [OF k1]] by blast
      then show "e \<noteq> IPSEC_OK \<Longrightarrow> runs ?P (Ret (e, s\<lparr>ap_bUdpFilter := u\<rparr>, k2))" by simp
      show "\<not> e \<noteq> IPSEC_OK \<Longrightarrow> runs ?P (?raw (s\<lparr>ap_bUdpFilter := u\<rparr>) k2)"
        using own start by (intro raw post) (simp_all add: absent_def)
    qed
  qed
  show ?thesis
    unfolding InstallIpsecProtectedApplicationFilters_def Let_def
    by (rule runs_bind [OF Inspect_runs], clarify, rule runs_if) (use udp in \<open>auto intro: filters_post_refl\<close>)
qed

lemma Remove_runs:
  "runs (\<lambda>(e, s', k'). filters_post s k s' k' \<and> (e = IPSEC_OK \<longrightarrow> absent s')) (RemoveIpsecProtectedApplicationFilters s k)"
proof -
  let ?P = "\<lambda>(e, s', k'). filters_post s k s' k' \<and> (e = IPSEC_OK \<longrightarrow> absent s')"
  let ?raw = "if ap_bRawFilter s
      then exec_bind (ChangeProtectedApplicationFilter s False True (ap_bRawFilter s) k)
             (\<lambda>(e, raw, k). Ret (e, s\<lparr>ap_bRawFilter := raw\<rparr>, k))
      else Ret (IPSEC_OK, s, k)"
  let ?udp = "\<lambda>(e1, s1, k1). if ap_bUdpFilter s1
       then exec_bind (ChangeProtectedApplicationFilter s1 True True (ap_bUdpFilter s1) k1)
              (\<lambda>(e, udp, k). Ret (if e1 = IPSEC_OK then e else e1, s1\<lparr>ap_bUdpFilter := udp\<rparr>, k))
       else Ret (e1, s1, k1)"
  have raw: "runs (\<lambda>(e, s', k'). filters_post s k s' k' \<and> (e = IPSEC_OK \<longrightarrow> \<not> ap_bRawFilter s')) ?raw"
    by (rule runs_if, rule runs_bind [OF Change_raw [OF disjI2]]) (auto intro: filters_post_refl)
  have udp: "runs ?P (?udp (e1, s1, k1))" if "filters_post s k s1 k1" "e1 = IPSEC_OK \<longrightarrow> \<not> ap_bRawFilter s1" for e1 s1 k1
    unfolding prod.case
    by (rule runs_if, rule runs_bind [OF Change_udp [OF disjI2]])
      (use that filters_post_trans [OF that(1)] in \<open>auto simp: absent_def\<close>)
  show ?thesis
    unfolding RemoveIpsecProtectedApplicationFilters_def
    by (rule runs_bind [OF raw]) (use udp in auto)
qed

text \<open>
  C18. No filter of a peer is ever in the kernel without its ownership flag. Starting from flags that cover the
  kernel, installing the pair of filters never faults and whatever the kernel answers, loses or delays, every
  filter of the state that may be in the kernel has its flag set afterwards, no filter of another peer is
  touched, and success means that both filters are owned. Removing the pair gives the same, and success means
  that both flags are clear and neither filter can be in the kernel.
\<close>

theorem filters_owned:
  assumes "covers s k"
  shows "(absent s \<longrightarrow> runs (\<lambda>(e, s', k'). covers s' k' \<and> k_may k' - own_filters s = k_may k - own_filters s
            \<and> (e = IPSEC_OK \<longrightarrow> installed s')) (InstallIpsecProtectedApplicationFilters s k))
    \<and> runs (\<lambda>(e, s', k'). covers s' k' \<and> k_may k' - own_filters s = k_may k - own_filters s
            \<and> (e = IPSEC_OK \<longrightarrow> absent s' \<and> own_filters s \<inter> k_may k' = {})) (RemoveIpsecProtectedApplicationFilters s k)"
proof (intro conjI impI)
  assume "absent s"
  show "runs (\<lambda>(e, s', k'). covers s' k' \<and> k_may k' - own_filters s = k_may k - own_filters s
      \<and> (e = IPSEC_OK \<longrightarrow> installed s')) (InstallIpsecProtectedApplicationFilters s k)"
    by (rule runs_mono [OF Install_runs [OF assms \<open>absent s\<close>]]) (use assms in \<open>auto simp: filters_post_def\<close>)
next
  show "runs (\<lambda>(e, s', k'). covers s' k' \<and> k_may k' - own_filters s = k_may k - own_filters s
      \<and> (e = IPSEC_OK \<longrightarrow> absent s' \<and> own_filters s \<inter> k_may k' = {})) (RemoveIpsecProtectedApplicationFilters s k)"
  proof (rule runs_mono [OF Remove_runs], clarify)
    fix e s' k' assume post: "filters_post s k s' k'" and ok: "e = IPSEC_OK \<longrightarrow> absent s'"
    then have "covers s' k'" "k_may k' - own_filters s = k_may k - own_filters s"
      using assms by (simp_all add: filters_post_def)
    then show "covers s' k' \<and> k_may k' - own_filters s = k_may k - own_filters s
        \<and> (e = IPSEC_OK \<longrightarrow> absent s' \<and> own_filters s \<inter> k_may k' = {})"
      using removed_filters [OF _ _ post] ok by blast
  qed
qed

definition sample_ack :: bytes where
  "sample_ack = le32 36 @ le16 2 @ le16 0 @ le32 5 @ le32 0 @ le32 0 @ replicate 16 0"

definition sample_kernel :: "filter_id set \<Rightarrow> kernel" where
  "sample_kernel M = \<lparr>k_script = [ASocket 3 EINTR, ABind 0 EINTR, AClock (Some (0, 5000000)), ASend 36 EINTR,
       AClock (Some (0, 5000000)), AClock (Some (0, 5000000)), APoll 1 1 0 EINTR, ARecvmsg 36 sample_ack False 12 16 0 EINTR],
     k_may = M, k_pending = None\<rparr>"

lemma sample_ack_simps:
  "get32 sample_ack 0 = Some 36" "get16 sample_ack 4 = Some 2" "get32 sample_ack 8 = Some 5" "get32 sample_ack 16 = Some 0"
  "length sample_ack = 36"
  by (simp_all add: sample_ack_def get32_def get16_def rd_bytes_def le32_def le16_def de32_def de16_def)

lemma Remove_once:
  assumes "ap_bRawFilter s" and "\<not> ap_bUdpFilter s"
  shows "\<exists>k'. RemoveIpsecProtectedApplicationFilters s (sample_kernel M) = Ret (IPSEC_OK, s\<lparr>ap_bRawFilter := False\<rparr>, k')
    \<and> k_may k' = M - {filter_id_of s False}"
proof -
  obtain d where d: "BuildIpsecProtectedApplicationFilterRequest s False True = Some (IPSEC_OK, d)"
    "request_is d (request_header s False True) []"
    using Build_remove by blast
  obtain d' x where w: "write_at d 8 (le32 5) = Some d'" "get32 d' 0 = Some 36" "rd_bytes d' 0 36 = Some x" "length x = 36"
    "request_of x = Some (RTM_DELTFILTER, 5, filter_id_of s False)"
    using request_on_wire [OF d(2), of 5] by (auto simp: change_type_def)
  show ?thesis
    using w assms
    by (simp add: RemoveIpsecProtectedApplicationFilters_def ChangeProtectedApplicationFilter_def d(1) Let_def
        sample_kernel_def read_socket_def read_bind_def read_clock_def read_poll_def read_send_def read_recvmsg_def
        k_sendto_def k_recvmsg_def ReceiveProtectedApplicationAck_def ack_loop.simps judge_ack_def sample_ack_simps
        kernel_answer_def ack_of_def settles_def ACK_CAPACITY_def GetIpsecMonotonicMilliseconds_def tc_numbers netlink_numbers)
qed

theorem filters_owned_witness:
  "\<exists>s k s' k'. covers s k \<and> ap_bRawFilter s \<and> filter_id_of s False \<in> k_may k
     \<and> RemoveIpsecProtectedApplicationFilters s k = Ret (IPSEC_OK, s', k') \<and> absent s' \<and> k_may k' = {}"
proof -
  let ?s = "sample_state\<lparr>ap_bRawFilter := True\<rparr>" and ?k = "sample_kernel {filter_id_of sample_state False}"
  have cov: "covers ?s ?k"
    using info_distinct [of sample_state] by (simp add: covers_def sample_kernel_def)
  have s: "ap_bRawFilter ?s" "\<not> ap_bUdpFilter ?s" by (simp_all add: sample_state_def)
  obtain k' where r: "RemoveIpsecProtectedApplicationFilters ?s ?k = Ret (IPSEC_OK, ?s\<lparr>ap_bRawFilter := False\<rparr>, k')"
    and k': "k_may k' = {}"
    using Remove_once [OF s, of "{filter_id_of sample_state False}"] by auto
  have "absent (?s\<lparr>ap_bRawFilter := False\<rparr>)"
    using filters_owned [OF cov] r by (simp add: runs_def)
  moreover have "filter_id_of ?s False \<in> k_may ?k" by (simp add: sample_kernel_def)
  ultimately show ?thesis using cov s(1) r k' by blast
qed

end
