(* ===== verification/Ipsec_Config.thy ===== *)
theory Ipsec_Config
  imports Ipsec_Error
begin

text \<open>
  The configuration of a connection as the caller of the library passes it (\<open>src/include/ipsec_types.h\<close>), and
  the reading of IPv4 addresses in it. A string is the list of its bytes up to the terminator or more, a list
  view is an array of possibly NULL strings with a count that the caller vouches for: an index outside the array is
  undefined behaviour.
\<close>

section \<open>Data\<close>

definition IPSEC_NAME_LENGTH :: nat where "IPSEC_NAME_LENGTH = 64"
definition IPSEC_ID_LENGTH :: nat where "IPSEC_ID_LENGTH = 128"

text \<open>An enumeration field may hold a number that is no enumerator; the library checks some of them.\<close>

datatype IpsecMode = IPSEC_MODE_TUNNEL | IPSEC_MODE_TRANSPORT | IPSEC_MODE_BEET | IPSEC_MODE_UNKNOWN | mode_number nat

datatype IpsecAuthMethod = IPSEC_AUTH_PSK | IPSEC_AUTH_CERTIFICATE | IPSEC_AUTH_EAP | auth_number nat

datatype IpsecEsnMode = IPSEC_ESN_AUTO | IPSEC_ESN_DISABLED | IPSEC_ESN_ENABLED | esn_number nat

datatype IpsecPacketPathMode = IPSEC_PACKET_PATH_SYSTEM | IPSEC_PACKET_PATH_APPLICATION | packet_path_number nat

record IpsecStringListView =
  sl_ppcItems :: "bytes option list option"
  sl_uiCount :: u32

record IpsecConnectionConfig =
  cc_uiStructSize :: nat
  cc_pcName :: "bytes option"
  cc_pcChildName :: "bytes option"
  cc_LocalAddresses :: IpsecStringListView
  cc_RemoteAddresses :: IpsecStringListView
  cc_eLocalAuth :: IpsecAuthMethod
  cc_eRemoteAuth :: IpsecAuthMethod
  cc_pcLocalId :: "bytes option"
  cc_pcRemoteId :: "bytes option"
  cc_IkeProposals :: IpsecStringListView
  cc_EspProposals :: IpsecStringListView
  cc_LocalTrafficSelectors :: IpsecStringListView
  cc_RemoteTrafficSelectors :: IpsecStringListView
  cc_eMode :: IpsecMode
  cc_eEsn :: IpsecEsnMode
  cc_bEnablePfs :: bool
  cc_bEnableMobike :: bool
  cc_bEnableFragmentation :: bool
  cc_bForceUdpEncapsulation :: bool
  cc_bForceChildlessIke :: bool
  cc_uiDpdDelayMs :: u32
  cc_uiDpdTimeoutMs :: u32
  cc_ullIkeRekeyTimeMs :: u64
  cc_ullIkeLifetimeMs :: u64
  cc_ullChildRekeyTimeMs :: u64
  cc_ullChildLifetimeMs :: u64

text \<open>The size of the structure on the LP64 targets.\<close>

definition connection_config_size :: nat where
  "connection_config_size = 200"

text \<open>\<open>pList->ppcItems[uiIndex]\<close>\<close>

definition list_item :: "IpsecStringListView \<Rightarrow> nat \<Rightarrow> bytes option option" where
  "list_item l i = (case sl_ppcItems l of None \<Rightarrow> None | Some xs \<Rightarrow> if i < length xs then Some (xs ! i) else None)"

text \<open>What the caller of the library vouches for: the array has as many elements as the count says.\<close>

definition list_ok :: "IpsecStringListView \<Rightarrow> bool" where
  "list_ok l \<longleftrightarrow> (case sl_ppcItems l of None \<Rightarrow> True | Some xs \<Rightarrow> unat (sl_uiCount l) \<le> length xs)"

section \<open>IPv4 addresses\<close>

text \<open>
  \<open>inet_pton (AF_INET, ...)\<close>: four decimal numbers up to 255 without leading zeros, separated by dots. The result is
  in network byte order, which the host reads with the first octet in the low byte.
\<close>

fun split_dots :: "bytes \<Rightarrow> bytes \<Rightarrow> bytes list" where
  "split_dots acc [] = [rev acc]"
| "split_dots acc (c # cs) = (if c = 46 then rev acc # split_dots [] cs else split_dots (c # acc) cs)"

definition digits_value :: "bytes \<Rightarrow> nat" where
  "digits_value ds = foldl (\<lambda>n d. n * 10 + (unat d - 48)) 0 ds"

definition octet :: "bytes \<Rightarrow> u8 option" where
  "octet ds = (if ds \<noteq> [] \<and> length ds \<le> 3 \<and> list_all (\<lambda>d. 48 \<le> d \<and> d \<le> 57) ds \<and> (hd ds = 48 \<longrightarrow> length ds = 1)
        \<and> digits_value ds \<le> 255
      then Some (of_nat (digits_value ds)) else None)"

definition inet_pton :: "bytes \<Rightarrow> u32 option" where
  "inet_pton s = (case split_dots [] (cstr s) of
       [a, b, c, d] \<Rightarrow> (case (octet a, octet b, octet c, octet d) of
           (Some w, Some x, Some y, Some z) \<Rightarrow> Some (de32 z y x w) | _ \<Rightarrow> None)
     | _ \<Rightarrow> None)"

definition ntohl :: "u32 \<Rightarrow> u32" where
  "ntohl w = (case le32 w of [a, b, c, d] \<Rightarrow> de32 a b c d | _ \<Rightarrow> 0)"

section \<open>A sample configuration\<close>

definition sample_list :: "string \<Rightarrow> IpsecStringListView" where
  "sample_list s = \<lparr>sl_ppcItems = Some [Some (lit s)], sl_uiCount = 1\<rparr>"

definition sample_config :: IpsecConnectionConfig where
  "sample_config = \<lparr>cc_uiStructSize = connection_config_size, cc_pcName = Some (lit ''gw''), cc_pcChildName = Some (lit ''net''),
     cc_LocalAddresses = sample_list ''10.0.0.1'', cc_RemoteAddresses = sample_list ''10.0.0.2'',
     cc_eLocalAuth = IPSEC_AUTH_PSK, cc_eRemoteAuth = IPSEC_AUTH_PSK, cc_pcLocalId = Some (lit ''a''), cc_pcRemoteId = Some (lit ''b''),
     cc_IkeProposals = sample_list ''aes128-sha256-modp2048'', cc_EspProposals = sample_list ''aes128-sha256'',
     cc_LocalTrafficSelectors = sample_list ''10.1.0.0/16'', cc_RemoteTrafficSelectors = sample_list ''10.2.0.0/16'',
     cc_eMode = IPSEC_MODE_TUNNEL, cc_eEsn = IPSEC_ESN_AUTO, cc_bEnablePfs = False, cc_bEnableMobike = False,
     cc_bEnableFragmentation = True, cc_bForceUdpEncapsulation = False, cc_bForceChildlessIke = False,
     cc_uiDpdDelayMs = 0, cc_uiDpdTimeoutMs = 0, cc_ullIkeRekeyTimeMs = 0, cc_ullIkeLifetimeMs = 0,
     cc_ullChildRekeyTimeMs = 0, cc_ullChildLifetimeMs = 0\<rparr>"

end
