(* ===== verification/Peer_Registry.thy ===== *)
theory Peer_Registry
  imports Filter_Netlink Ipsec_Config
begin

text \<open>
  The registry of protected peers (\<open>src/datapath/protected/application_protected_path.c\<close>): registering the address
  pair of a connection with its two filters, unregistering it, looking pairs up, inspecting the filters of
  all peers and taking the registry down. The registry is the array of the C structure. Log messages are left
  out; the mutex is taken by every operation for its whole length and only its failure to lock is modelled.
\<close>

section \<open>State\<close>

text \<open>The parts of \<open>IpsecContext_t\<close> the protected path works on.\<close>

record path_context =
  px_eProtectedPacketPath :: IpsecPacketPathMode
  px_bInitialized :: bool
  px_pApplicationState :: "IpsecProtectedApplicationState option"

definition IPSEC_PROTECTED_APPLICATION_HANDLE_BASE :: u32 where
  "IPSEC_PROTECTED_APPLICATION_HANDLE_BASE = 0x49500000"

definition zero_peer :: IpsecProtectedApplicationPeer where
  "zero_peer = \<lparr>pr_acConnectionName = replicate IPSEC_NAME_LENGTH 0, pr_uiLocalAddress = 0, pr_uiRemoteAddress = 0,
     pr_uiFilterHandle = 0, pr_bRawFilter = False, pr_bUdpFilter = False, pr_bInUse = False\<rparr>"

lemma zero_peer_free [simp]: "\<not> pr_bInUse zero_peer"
  by (simp add: zero_peer_def)

definition k_lock :: "kernel \<Rightarrow> (int \<times> kernel) exec" where
  "k_lock k = exec_bind (read_lock (k_script k)) (\<lambda>(r, os). Ret (r, k\<lparr>k_script := os\<rparr>))"

definition k_calloc :: "kernel \<Rightarrow> (bool \<times> kernel) exec" where
  "k_calloc k = exec_bind (read_calloc (k_script k)) (\<lambda>(ok, os). Ret (ok, k\<lparr>k_script := os\<rparr>))"

section \<open>One peer\<close>

definition IsProtectedApplicationAddressValid :: "u32 \<Rightarrow> bool" where
  "IsProtectedApplicationAddressValid uiAddress \<longleftrightarrow> uiAddress \<noteq> 0 \<and> ntohl uiAddress < 0xe0000000"

definition BuildProtectedApplicationFilterState ::
  "IpsecProtectedApplicationState \<Rightarrow> IpsecProtectedApplicationPeer \<Rightarrow> IpsecProtectedApplicationState" where
  "BuildProtectedApplicationFilterState pState pPeer =
     \<lparr>ap_iTunFd = ap_iTunFd pState, ap_uiTunIndex = ap_uiTunIndex pState, ap_uiEgressIndex = ap_uiEgressIndex pState,
      ap_uiLocalAddress = pr_uiLocalAddress pPeer, ap_uiRemoteAddress = pr_uiRemoteAddress pPeer,
      ap_uiFilterHandle = pr_uiFilterHandle pPeer, ap_usPriority = ap_usPriority pState,
      ap_bRawFilter = pr_bRawFilter pPeer, ap_bUdpFilter = pr_bUdpFilter pPeer, ap_bPeerMutexInitialized = False,
      ap_aPeers = replicate IPSEC_PROTECTED_APPLICATION_PEER_CAPACITY zero_peer, ap_uiPeerCount = 0,
      ap_acTunName = ap_acTunName pState, ap_acEgressName = ap_acEgressName pState\<rparr>"

text \<open>\<open>None\<close> is an array that does not have the element its count promises.\<close>

definition ParseProtectedApplicationPeer :: "IpsecConnectionConfig option \<Rightarrow> (IpsecError \<times> u32 \<times> u32) option" where
  "ParseProtectedApplicationPeer pConfig = (case pConfig of None \<Rightarrow> Some (IPSEC_ERR_INVALID_ARGUMENT, 0, 0)
     | Some c \<Rightarrow> (case cc_pcName c of None \<Rightarrow> Some (IPSEC_ERR_INVALID_ARGUMENT, 0, 0)
       | Some pcName \<Rightarrow>
           if sl_uiCount (cc_LocalAddresses c) \<noteq> 1 \<or> sl_uiCount (cc_RemoteAddresses c) \<noteq> 1
              \<or> sl_ppcItems (cc_LocalAddresses c) = None \<or> sl_ppcItems (cc_RemoteAddresses c) = None
           then Some (IPSEC_ERR_INVALID_ARGUMENT, 0, 0)
           else do {
             pcLocal \<leftarrow> list_item (cc_LocalAddresses c) 0;
             case pcLocal of None \<Rightarrow> Some (IPSEC_ERR_INVALID_ARGUMENT, 0, 0)
             | Some pcLocal \<Rightarrow> do {
                 pcRemote \<leftarrow> list_item (cc_RemoteAddresses c) 0;
                 case pcRemote of None \<Rightarrow> Some (IPSEC_ERR_INVALID_ARGUMENT, 0, 0)
                 | Some pcRemote \<Rightarrow>
                     (let zNameLength = strnlen pcName IPSEC_NAME_LENGTH
                      in if zNameLength = 0 \<or> IPSEC_NAME_LENGTH \<le> zNameLength then Some (IPSEC_ERR_NOT_SUPPORTED, 0, 0)
                         else case inet_pton pcLocal of None \<Rightarrow> Some (IPSEC_ERR_NOT_SUPPORTED, 0, 0)
                           | Some uiLocal \<Rightarrow> (case inet_pton pcRemote of None \<Rightarrow> Some (IPSEC_ERR_NOT_SUPPORTED, uiLocal, 0)
                             | Some uiRemote \<Rightarrow>
                                 if \<not> IsProtectedApplicationAddressValid uiLocal \<or> \<not> IsProtectedApplicationAddressValid uiRemote
                                    \<or> uiLocal = uiRemote
                                 then Some (IPSEC_ERR_NOT_SUPPORTED, uiLocal, uiRemote)
                                 else Some (IPSEC_OK, uiLocal, uiRemote))) } }))"

type_synonym peer_change =
  "IpsecProtectedApplicationState \<Rightarrow> IpsecProtectedApplicationPeer \<Rightarrow> kernel \<Rightarrow> (IpsecError \<times> IpsecProtectedApplicationPeer \<times> kernel) exec"

definition InstallProtectedApplicationPeer :: peer_change where
  "InstallProtectedApplicationPeer pState pPeer k = exec_bind (k_calloc k) (\<lambda>(ok, k).
     if \<not> ok then Ret (IPSEC_ERR_NO_MEMORY, pPeer, k)
     else exec_bind (InstallIpsecProtectedApplicationFilters (BuildProtectedApplicationFilterState pState pPeer) k) (\<lambda>(e, f, k).
       Ret (e, pPeer\<lparr>pr_bRawFilter := ap_bRawFilter f, pr_bUdpFilter := ap_bUdpFilter f\<rparr>, k)))"

definition RemoveProtectedApplicationPeer :: peer_change where
  "RemoveProtectedApplicationPeer pState pPeer k = exec_bind (k_calloc k) (\<lambda>(ok, k).
     if \<not> ok then Ret (IPSEC_ERR_NO_MEMORY, pPeer, k)
     else exec_bind (RemoveIpsecProtectedApplicationFilters (BuildProtectedApplicationFilterState pState pPeer) k) (\<lambda>(e, f, k).
       Ret (e, pPeer\<lparr>pr_bRawFilter := ap_bRawFilter f, pr_bUdpFilter := ap_bUdpFilter f\<rparr>, k)))"

section \<open>The registry\<close>

text \<open>
  The operations are written over the two peer changes they call, so that what they rely on can be stated as
  laws; the library's own are the instances for the functions above.
\<close>

text \<open>The search of \<open>RegisterIpsecProtectedPeerInternal\<close>: the error so far and the first free index.\<close>

fun register_scan ::
  "bytes \<Rightarrow> u32 \<Rightarrow> u32 \<Rightarrow> nat \<Rightarrow> nat option \<Rightarrow> IpsecProtectedApplicationPeer list \<Rightarrow> IpsecError \<times> nat option" where
  "register_scan pcName l r i uiFree [] = (IPSEC_ERR_BUFFER_TOO_SMALL, uiFree)"
| "register_scan pcName l r i uiFree (p # ps) =
     (if \<not> pr_bInUse p \<and> uiFree = None then register_scan pcName l r (Suc i) (Some i) ps
      else if pr_bInUse p \<and> cstr (pr_acConnectionName p) = cstr pcName
      then (if l = pr_uiLocalAddress p \<and> r = pr_uiRemoteAddress p then IPSEC_OK else IPSEC_ERR_RESOURCE_CONFLICT, uiFree)
      else register_scan pcName l r (Suc i) uiFree ps)"

text \<open>The slot filled in for a new peer.\<close>

definition new_peer :: "bytes \<Rightarrow> u32 \<Rightarrow> u32 \<Rightarrow> nat \<Rightarrow> IpsecProtectedApplicationPeer option" where
  "new_peer pcName l r uiFree = map_option (\<lambda>nm. zero_peer\<lparr>pr_acConnectionName := nm, pr_uiLocalAddress := l,
       pr_uiRemoteAddress := r, pr_uiFilterHandle := IPSEC_PROTECTED_APPLICATION_HANDLE_BASE OR (of_nat uiFree + 1)\<rparr>)
     (write_at (pr_acConnectionName zero_peer) 0 (cstr pcName @ [0]))"

definition set_peer :: "IpsecProtectedApplicationState \<Rightarrow> nat \<Rightarrow> IpsecProtectedApplicationPeer \<Rightarrow> IpsecProtectedApplicationState" where
  "set_peer pState i p = pState\<lparr>ap_aPeers := (ap_aPeers pState)[i := p]\<rparr>"

definition register_new :: "peer_change \<Rightarrow> peer_change \<Rightarrow> bytes \<Rightarrow> u32 \<Rightarrow> u32 \<Rightarrow> nat
  \<Rightarrow> IpsecProtectedApplicationState \<Rightarrow> kernel \<Rightarrow> (IpsecError \<times> bool \<times> IpsecProtectedApplicationState \<times> kernel) exec" where
  "register_new install remove pcName l r uiFree pState k =
     exec_bind (lift_option (new_peer pcName l r uiFree)) (\<lambda>pPeer.
       exec_bind (install pState pPeer k) (\<lambda>(eError, pPeer, k).
         if eError = IPSEC_OK
         then Ret (eError, True, (set_peer pState uiFree (pPeer\<lparr>pr_bInUse := True\<rparr>))\<lparr>ap_uiPeerCount := ap_uiPeerCount pState + 1\<rparr>, k)
         else exec_bind (remove pState pPeer k) (\<lambda>(eCleanupError, pPeer, k).
           if eCleanupError = IPSEC_OK then Ret (eError, False, set_peer pState uiFree zero_peer, k)
           else Ret (eError, True,
             (set_peer pState uiFree (pPeer\<lparr>pr_bInUse := True\<rparr>))\<lparr>ap_uiPeerCount := ap_uiPeerCount pState + 1\<rparr>, k))))"

text \<open>The part under the mutex.\<close>

definition register_slot :: "peer_change \<Rightarrow> peer_change \<Rightarrow> bytes \<Rightarrow> u32 \<Rightarrow> u32
  \<Rightarrow> IpsecProtectedApplicationState \<Rightarrow> kernel \<Rightarrow> ((IpsecError \<times> bool) \<times> IpsecProtectedApplicationState \<times> kernel) exec" where
  "register_slot install remove pcName l r pState k =
     (let (eError, uiFreeIndex) = register_scan pcName l r 0 None (ap_aPeers pState)
      in if eError = IPSEC_ERR_BUFFER_TOO_SMALL \<and> uiFreeIndex \<noteq> None
         then exec_bind (register_new install remove pcName l r (the uiFreeIndex) pState k) (\<lambda>(e, added, pState, k). Ret ((e, added), pState, k))
         else Ret ((eError, False), pState, k))"

text \<open>A call that needs the registry and its mutex.\<close>

definition with_registry ::
  "path_context \<Rightarrow> 'a \<Rightarrow> (IpsecError \<Rightarrow> 'a) \<Rightarrow> kernel \<Rightarrow> (IpsecProtectedApplicationState \<Rightarrow> kernel \<Rightarrow> ('a \<times> IpsecProtectedApplicationState \<times> kernel) exec)
     \<Rightarrow> ('a \<times> path_context \<times> kernel) exec" where
  "with_registry cx unavailable failed k f = (case px_pApplicationState cx of
       None \<Rightarrow> Ret (unavailable, cx, k)
     | Some pState \<Rightarrow>
         if \<not> ap_bPeerMutexInitialized pState then Ret (unavailable, cx, k)
         else exec_bind (k_lock k) (\<lambda>(r, k).
           if r \<noteq> 0 then Ret (failed IPSEC_ERR_INTERNAL, cx, k)
           else exec_bind (f pState k) (\<lambda>(x, pState, k). Ret (x, cx\<lparr>px_pApplicationState := Some pState\<rparr>, k))))"

definition register_peer :: "peer_change \<Rightarrow> peer_change \<Rightarrow> path_context \<Rightarrow> IpsecConnectionConfig option \<Rightarrow> kernel
  \<Rightarrow> ((IpsecError \<times> bool) \<times> path_context \<times> kernel) exec" where
  "register_peer install remove cx pConfig k =
     (if px_eProtectedPacketPath cx \<noteq> IPSEC_PACKET_PATH_APPLICATION then Ret ((IPSEC_OK, False), cx, k)
      else exec_bind (lift_option (ParseProtectedApplicationPeer pConfig)) (\<lambda>(eError, l, r).
        if eError \<noteq> IPSEC_OK then Ret ((eError, False), cx, k)
        else exec_bind (lift_option (pConfig \<bind> cc_pcName)) (\<lambda>pcName.
          with_registry cx (IPSEC_ERR_PROTECTED_PATH_UNAVAILABLE, False) (\<lambda>e. (e, False)) k
            (register_slot install remove pcName l r))))"

text \<open>The loop of \<open>UnregisterIpsecProtectedPeerInternal\<close>: the index of the peer with the name.\<close>

fun find_peer :: "bytes \<Rightarrow> nat \<Rightarrow> IpsecProtectedApplicationPeer list \<Rightarrow> nat option" where
  "find_peer pcName i [] = None"
| "find_peer pcName i (p # ps) =
     (if pr_bInUse p \<and> cstr (pr_acConnectionName p) = cstr pcName then Some i else find_peer pcName (Suc i) ps)"

definition unregister_peer :: "peer_change \<Rightarrow> path_context \<Rightarrow> bytes option \<Rightarrow> kernel \<Rightarrow> (IpsecError \<times> path_context \<times> kernel) exec" where
  "unregister_peer remove cx pcConnectionName k = (case pcConnectionName of
       None \<Rightarrow> Ret (IPSEC_ERR_INVALID_ARGUMENT, cx, k)
     | Some pcName \<Rightarrow>
         if px_eProtectedPacketPath cx \<noteq> IPSEC_PACKET_PATH_APPLICATION then Ret (IPSEC_OK, cx, k)
         else with_registry cx IPSEC_ERR_PROTECTED_PATH_UNAVAILABLE id k (\<lambda>pState k.
           case find_peer pcName 0 (ap_aPeers pState) of None \<Rightarrow> Ret (IPSEC_OK, pState, k)
           | Some i \<Rightarrow> exec_bind (remove pState (ap_aPeers pState ! i) k) (\<lambda>(e, pPeer, k).
               if e = IPSEC_OK
               then Ret (e, (set_peer pState i zero_peer)\<lparr>ap_uiPeerCount := ap_uiPeerCount pState - 1\<rparr>, k)
               else Ret (e, set_peer pState i pPeer, k))))"

definition RegisterIpsecProtectedPeerInternal ::
  "path_context \<Rightarrow> IpsecConnectionConfig option \<Rightarrow> kernel \<Rightarrow> ((IpsecError \<times> bool) \<times> path_context \<times> kernel) exec" where
  "RegisterIpsecProtectedPeerInternal = register_peer InstallProtectedApplicationPeer RemoveProtectedApplicationPeer"

definition UnregisterIpsecProtectedPeerInternal ::
  "path_context \<Rightarrow> bytes option \<Rightarrow> kernel \<Rightarrow> (IpsecError \<times> path_context \<times> kernel) exec" where
  "UnregisterIpsecProtectedPeerInternal = unregister_peer RemoveProtectedApplicationPeer"

text \<open>The two searches by address pair.\<close>

definition match_pair :: "u32 \<Rightarrow> u32 \<Rightarrow> IpsecProtectedApplicationPeer list \<Rightarrow> bool" where
  "match_pair l r ps = list_ex (\<lambda>p. pr_bInUse p \<and> l = pr_uiLocalAddress p \<and> r = pr_uiRemoteAddress p) ps"

definition MatchIpsecProtectedPeerInternal ::
  "path_context \<Rightarrow> bytes option \<Rightarrow> bytes option \<Rightarrow> kernel \<Rightarrow> (bool \<times> path_context \<times> kernel) exec" where
  "MatchIpsecProtectedPeerInternal cx pcLocal pcRemote k =
     (case (pcLocal \<bind> inet_pton, pcRemote \<bind> inet_pton) of
        (Some l, Some r) \<Rightarrow> with_registry cx False (\<lambda>e. False) k (\<lambda>pState k. Ret (match_pair l r (ap_aPeers pState), pState, k))
      | _ \<Rightarrow> Ret (False, cx, k))"

definition IsProtectedApplicationPacketInScope ::
  "IpsecProtectedApplicationState \<Rightarrow> u32 \<Rightarrow> u32 \<Rightarrow> bool \<Rightarrow> kernel \<Rightarrow> (bool \<times> kernel) exec" where
  "IsProtectedApplicationPacketInScope pState uiSource uiDestination bInbound k =
     (if \<not> ap_bPeerMutexInitialized pState then Ret (False, k)
      else exec_bind (k_lock k) (\<lambda>(r, k).
        if r \<noteq> 0 then Ret (False, k)
        else Ret (list_ex (\<lambda>p. pr_bInUse p \<and> uiSource = (if bInbound then pr_uiRemoteAddress p else pr_uiLocalAddress p)
               \<and> uiDestination = (if bInbound then pr_uiLocalAddress p else pr_uiRemoteAddress p)) (ap_aPeers pState), k)))"

definition ValidateProtectedApplicationScope ::
  "IpsecProtectedApplicationState \<Rightarrow> IpsecProtectedPacket \<Rightarrow> bool \<Rightarrow> kernel \<Rightarrow> (IpsecError \<times> kernel) exec" where
  "ValidateProtectedApplicationScope pState pPacket bInbound k =
     exec_bind (lift_option (ValidateIpsecProtectedPacket (Some pPacket))) (\<lambda>eError.
       if eError \<noteq> IPSEC_OK then Ret (eError, k)
       else exec_bind (lift_option (pp_pucData pPacket)) (\<lambda>d.
         exec_bind (lift_option (get32 d 12)) (\<lambda>uiSource.
         exec_bind (lift_option (get32 d 16)) (\<lambda>uiDestination.
         exec_bind (IsProtectedApplicationPacketInScope pState uiSource uiDestination bInbound k) (\<lambda>(b, k).
           Ret (if \<not> b then IPSEC_ERR_PACKET_INVALID else IPSEC_OK, k))))))"

text \<open>The loop of \<open>InspectProtectedApplicationPeerFilters\<close>.\<close>

fun inspect_peers ::
  "IpsecProtectedApplicationState \<Rightarrow> IpsecProtectedApplicationPeer list \<Rightarrow> kernel \<Rightarrow> (IpsecError \<times> kernel) exec" where
  "inspect_peers pState [] k = Ret (IPSEC_OK, k)"
| "inspect_peers pState (p # ps) k =
     (if pr_bInUse p
      then exec_bind (InspectIpsecProtectedApplicationFilters (BuildProtectedApplicationFilterState pState p) False k)
             (\<lambda>(e, k). if e = IPSEC_OK then inspect_peers pState ps k else Ret (e, k))
      else inspect_peers pState ps k)"

definition InspectProtectedApplicationPeerFilters :: "IpsecProtectedApplicationState \<Rightarrow> kernel \<Rightarrow> (IpsecError \<times> kernel) exec" where
  "InspectProtectedApplicationPeerFilters pState k =
     (if \<not> ap_bPeerMutexInitialized pState then Ret (IPSEC_ERR_INTERNAL, k)
      else exec_bind (k_lock k) (\<lambda>(r, k).
        if r \<noteq> 0 then Ret (IPSEC_ERR_INTERNAL, k)
        else exec_bind (k_calloc k) (\<lambda>(ok, k).
          if \<not> ok then Ret (IPSEC_ERR_NO_MEMORY, k) else inspect_peers pState (ap_aPeers pState) k)))"

text \<open>
  The cleanup loop of \<open>DeinitializeApplicationProtectedPath\<close> over the slots; every slot that was in use is erased,
  also when its filters could not be removed.
\<close>

fun remove_peers :: "peer_change \<Rightarrow> IpsecProtectedApplicationState \<Rightarrow> IpsecProtectedApplicationPeer list \<Rightarrow> kernel
  \<Rightarrow> (IpsecProtectedApplicationPeer list \<times> kernel) exec" where
  "remove_peers remove pState [] k = Ret ([], k)"
| "remove_peers remove pState (p # ps) k =
     exec_bind (if pr_bInUse p then exec_bind (remove pState p k) (\<lambda>(e, p', k). Ret (zero_peer, k)) else Ret (p, k)) (\<lambda>(q, k).
       exec_bind (remove_peers remove pState ps k) (\<lambda>(qs, k). Ret (q # qs, k)))"

definition DestroyIpsecProtectedApplicationEndpoint ::
  "IpsecProtectedApplicationState \<Rightarrow> kernel \<Rightarrow> (IpsecProtectedApplicationState \<times> kernel) exec" where
  "DestroyIpsecProtectedApplicationEndpoint pState k =
     exec_bind (RemoveIpsecProtectedApplicationFilters pState k) (\<lambda>(e, pState, k).
       Ret (if 0 \<le> ap_iTunFd pState then pState\<lparr>ap_iTunFd := - 1\<rparr> else pState, k))"

definition DeinitializeApplicationProtectedPath :: "path_context \<Rightarrow> kernel \<Rightarrow> (path_context \<times> kernel) exec" where
  "DeinitializeApplicationProtectedPath cx k = (case px_pApplicationState cx of None \<Rightarrow> Ret (cx, k)
     | Some pState \<Rightarrow>
         exec_bind (if ap_bPeerMutexInitialized pState
             then exec_bind (k_lock k) (\<lambda>(r, k).
               if r = 0
               then exec_bind (remove_peers RemoveProtectedApplicationPeer pState (ap_aPeers pState) k) (\<lambda>(ps, k).
                      Ret (pState\<lparr>ap_aPeers := ps, ap_uiPeerCount := 0\<rparr>, k))
               else Ret (pState, k))
             else Ret (pState, k)) (\<lambda>(pState, k).
           exec_bind (DestroyIpsecProtectedApplicationEndpoint pState k) (\<lambda>(pState, k).
             Ret (cx\<lparr>px_pApplicationState := None\<rparr>, k))))"

section \<open>Filters of a slot\<close>

definition slot_handle :: "nat \<Rightarrow> u32" where
  "slot_handle i = IPSEC_PROTECTED_APPLICATION_HANDLE_BASE OR (of_nat i + 1)"

lemma slot_handle_low: "i < 256 \<Longrightarrow> take_bit 20 (slot_handle i) = of_nat (Suc i)"
proof -
  assume i: "i < 256"
  have "take_bit 20 (of_nat (Suc i) :: u32) = of_nat (Suc i)"
    using i by (simp add: take_bit_of_nat take_bit_nat_eq_self del: of_nat_Suc)
  then show ?thesis
    unfolding slot_handle_def IPSEC_PROTECTED_APPLICATION_HANDLE_BASE_def take_bit_or by (simp add: add.commute)
qed

lemma slot_handle_inj: "i < 256 \<Longrightarrow> j < 256 \<Longrightarrow> slot_handle i = slot_handle j \<longleftrightarrow> i = j"
proof -
  assume ij: "i < 256" "j < 256"
  have "i = j" if "slot_handle i = slot_handle j"
  proof -
    from that have "(of_nat (Suc i) :: u32) = of_nat (Suc j)"
      using slot_handle_low [OF ij(1)] slot_handle_low [OF ij(2)] by simp
    then have "unat (of_nat (Suc i) :: u32) = unat (of_nat (Suc j) :: u32)" by simp
    with ij show ?thesis by (simp add: unat_of_nat take_bit_nat_def del: of_nat_Suc)
  qed
  then show ?thesis by blast
qed

lemma slot_handle_nonzero: "i < 256 \<Longrightarrow> slot_handle i \<noteq> 0"
proof
  assume i: "i < 256" and "slot_handle i = 0"
  then have "unat (of_nat (Suc i) :: u32) = 0" using slot_handle_low [OF i] by simp
  with i show False by (simp add: unat_of_nat take_bit_nat_def del: of_nat_Suc)
qed

abbreviation filter_state where "filter_state \<equiv> BuildProtectedApplicationFilterState"

lemma filter_state_simps [simp]:
  "ap_bRawFilter (filter_state st p) = pr_bRawFilter p" "ap_bUdpFilter (filter_state st p) = pr_bUdpFilter p"
  "filter_state (st\<lparr>ap_aPeers := ps\<rparr>) p = filter_state st p" "filter_state (st\<lparr>ap_uiPeerCount := n\<rparr>) p = filter_state st p"
  by (simp_all add: BuildProtectedApplicationFilterState_def)

lemma filter_state_flags:
  "filter_state st (p\<lparr>pr_bRawFilter := r, pr_bUdpFilter := u\<rparr>) = (filter_state st p)\<lparr>ap_bRawFilter := r, ap_bUdpFilter := u\<rparr>"
  by (simp add: BuildProtectedApplicationFilterState_def)

lemma filter_state_in_use [simp]: "filter_state st (p\<lparr>pr_bInUse := b\<rparr>) = filter_state st p"
  by (simp add: BuildProtectedApplicationFilterState_def)

text \<open>The filters of a peer are determined by its handle.\<close>

lemma filter_id_handle: "pr_uiFilterHandle p = pr_uiFilterHandle q \<Longrightarrow> filter_id_of (filter_state st p) b = filter_id_of (filter_state st q) b"
  by (simp add: filter_id_of_def BuildProtectedApplicationFilterState_def GetProtectedApplicationFilterHandle_def
      GetProtectedApplicationFilterInfo_def)

lemma own_filters_handle:
  "pr_uiFilterHandle p = pr_uiFilterHandle q \<Longrightarrow> own_filters (filter_state st p) = own_filters (filter_state st q)"
  by (simp add: own_filters_def filter_id_handle [of p q])

lemma own_filters_disjoint:
  assumes "i < 256" "j < 256" "i \<noteq> j" "pr_uiFilterHandle p = slot_handle i" "pr_uiFilterHandle q = slot_handle j"
  shows "own_filters (filter_state st p) \<inter> own_filters (filter_state st q) = {}"
  using assms slot_handle_nonzero [of i] slot_handle_nonzero [of j] slot_handle_inj [of i j]
  by (auto simp: own_filters_def filter_id_of_def GetProtectedApplicationFilterHandle_def BuildProtectedApplicationFilterState_def)

text \<open>The filters of a peer it holds itself responsible for.\<close>

definition flagged :: "IpsecProtectedApplicationState \<Rightarrow> IpsecProtectedApplicationPeer \<Rightarrow> filter_id set" where
  "flagged st p = (if pr_bRawFilter p then {filter_id_of (filter_state st p) False} else {})
     \<union> (if pr_bUdpFilter p then {filter_id_of (filter_state st p) True} else {})"

lemma flagged_simps [simp]:
  "flagged (st\<lparr>ap_aPeers := ps\<rparr>) p = flagged st p" "flagged (st\<lparr>ap_uiPeerCount := n\<rparr>) p = flagged st p"
  "flagged st (p\<lparr>pr_bInUse := b\<rparr>) = flagged st p"
  by (simp_all add: flagged_def)

lemma flagged_own: "flagged st p \<subseteq> own_filters (filter_state st p)"
  by (auto simp: flagged_def own_filters_def)

lemma covers_flagged: "covers (filter_state st p) k \<longleftrightarrow> k_may k \<inter> own_filters (filter_state st p) \<subseteq> flagged st p"
  using info_distinct [of "filter_state st p"] by (auto simp: covers_def own_filters_def flagged_def)

section \<open>What a change of one peer's filters promises\<close>

definition peer_post ::
  "IpsecProtectedApplicationState \<Rightarrow> IpsecProtectedApplicationPeer \<Rightarrow> kernel \<Rightarrow> IpsecProtectedApplicationPeer \<Rightarrow> kernel \<Rightarrow> bool" where
  "peer_post st p k p' k' \<longleftrightarrow> (\<exists>r u. p' = p\<lparr>pr_bRawFilter := r, pr_bUdpFilter := u\<rparr>)
     \<and> k_may k' - own_filters (filter_state st p) = k_may k - own_filters (filter_state st p)
     \<and> (k_may k \<inter> own_filters (filter_state st p) \<subseteq> flagged st p
        \<longrightarrow> k_may k' \<inter> own_filters (filter_state st p) \<subseteq> flagged st p')"

locale filter_driver =
  fixes install remove :: peer_change
  assumes install_law: "k_may k \<inter> own_filters (filter_state st p) = {} \<Longrightarrow> \<not> pr_bRawFilter p \<Longrightarrow> \<not> pr_bUdpFilter p \<Longrightarrow>
      runs (\<lambda>(e, p', k'). peer_post st p k p' k' \<and> (e = IPSEC_OK \<longrightarrow> pr_bRawFilter p' \<and> pr_bUdpFilter p')) (install st p k)"
    and remove_law:
      "runs (\<lambda>(e, p', k'). peer_post st p k p' k' \<and> (e = IPSEC_OK \<longrightarrow> \<not> pr_bRawFilter p' \<and> \<not> pr_bUdpFilter p')) (remove st p k)"

lemma filters_peer_post:
  assumes "filters_post (filter_state st p) k f k'"
  shows "peer_post st p k (p\<lparr>pr_bRawFilter := ap_bRawFilter f, pr_bUdpFilter := ap_bUdpFilter f\<rparr>) k'"
proof -
  let ?p = "p\<lparr>pr_bRawFilter := ap_bRawFilter f, pr_bUdpFilter := ap_bUdpFilter f\<rparr>"
  have f: "filter_state st ?p = f"
    using assms unfolding filters_post_def filter_state_flags by simp
  have "own_filters (filter_state st ?p) = own_filters (filter_state st p)"
    by (rule own_filters_handle) simp
  moreover have "covers (filter_state st p) k \<longrightarrow> covers (filter_state st ?p) k'"
    using assms by (simp add: f filters_post_def)
  ultimately show ?thesis
    using assms unfolding peer_post_def covers_flagged by (auto simp: filters_post_def)
qed

lemma peer_post_refl: "k_may k' = k_may k \<Longrightarrow> peer_post st p k p k'"
proof -
  have "p = p\<lparr>pr_bRawFilter := pr_bRawFilter p, pr_bUdpFilter := pr_bUdpFilter p\<rparr>" by simp
  then have "\<exists>r u. p = p\<lparr>pr_bRawFilter := r, pr_bUdpFilter := u\<rparr>" by blast
  then show "k_may k' = k_may k \<Longrightarrow> peer_post st p k p k'" by (simp add: peer_post_def)
qed

lemma k_calloc_runs: "runs (\<lambda>(ok, k'). k_may k' = k_may k) (k_calloc k)"
  unfolding k_calloc_def by (rule runs_call) auto

lemma k_lock_runs: "runs (\<lambda>(r, k'). k_may k' = k_may k) (k_lock k)"
  unfolding k_lock_def by (rule runs_call) auto

lemma peer_post_may: "k_may k1 = k_may k \<Longrightarrow> peer_post st p k1 p' k' \<Longrightarrow> peer_post st p k p' k'"
  by (simp add: peer_post_def)

lemma peer_change_runs:
  assumes r: "\<And>k1. k_may k1 = k_may k \<Longrightarrow>
      runs (\<lambda>(e, f, k'). filters_post (filter_state st p) k1 f k' \<and> (e = IPSEC_OK \<longrightarrow> R (ap_bRawFilter f) (ap_bUdpFilter f))) (r k1)"
  shows "runs (\<lambda>(e, p', k'). peer_post st p k p' k' \<and> (e = IPSEC_OK \<longrightarrow> R (pr_bRawFilter p') (pr_bUdpFilter p')))
    (exec_bind (k_calloc k) (\<lambda>(ok, k). if \<not> ok then Ret (IPSEC_ERR_NO_MEMORY, p, k)
       else exec_bind (r k) (\<lambda>(e, f, k). Ret (e, p\<lparr>pr_bRawFilter := ap_bRawFilter f, pr_bUdpFilter := ap_bUdpFilter f\<rparr>, k))))"
  (is "runs ?Q _")
proof -
  have "runs ?Q (exec_bind (r k1) (\<lambda>(e, f, k). Ret (e, p\<lparr>pr_bRawFilter := ap_bRawFilter f, pr_bUdpFilter := ap_bUdpFilter f\<rparr>, k)))"
    if k1: "k_may k1 = k_may k" for k1
  proof (rule runs_bind [OF r [OF k1]], clarify)
    fix e f k' assume "filters_post (filter_state st p) k1 f k'" "e = IPSEC_OK \<longrightarrow> R (ap_bRawFilter f) (ap_bUdpFilter f)"
    then show "runs ?Q (Ret (e, p\<lparr>pr_bRawFilter := ap_bRawFilter f, pr_bUdpFilter := ap_bUdpFilter f\<rparr>, k'))"
      using peer_post_may [OF k1 filters_peer_post] by simp
  qed
  then show ?thesis
    by (intro runs_bind [OF k_calloc_runs]) (auto intro: peer_post_refl)
qed

interpretation tc: filter_driver InstallProtectedApplicationPeer RemoveProtectedApplicationPeer
proof
  fix k :: kernel and st p
  assume free: "k_may k \<inter> own_filters (filter_state st p) = {}" "\<not> pr_bRawFilter p" "\<not> pr_bUdpFilter p"
  have "covers (filter_state st p) k1" "absent (filter_state st p)" if "k_may k1 = k_may k" for k1
    using free that by (simp_all add: covers_flagged absent_def)
  then show "runs (\<lambda>(e, p', k'). peer_post st p k p' k' \<and> (e = IPSEC_OK \<longrightarrow> pr_bRawFilter p' \<and> pr_bUdpFilter p'))
      (InstallProtectedApplicationPeer st p k)"
    unfolding InstallProtectedApplicationPeer_def
    by (intro peer_change_runs [where R = "(\<and>)"] Install_runs [unfolded installed_def])
next
  fix st p and k :: kernel
  show "runs (\<lambda>(e, p', k'). peer_post st p k p' k' \<and> (e = IPSEC_OK \<longrightarrow> \<not> pr_bRawFilter p' \<and> \<not> pr_bUdpFilter p'))
      (RemoveProtectedApplicationPeer st p k)"
    unfolding RemoveProtectedApplicationPeer_def
    by (intro peer_change_runs [where R = "\<lambda>r u. \<not> r \<and> \<not> u"] Remove_runs [unfolded absent_def])
qed

section \<open>The invariant of the registry\<close>

definition names :: "bytes \<Rightarrow> IpsecProtectedApplicationPeer \<Rightarrow> bool" where
  "names n p \<longleftrightarrow> pr_bInUse p \<and> cstr (pr_acConnectionName p) = n"

definition slot_ok :: "nat \<Rightarrow> IpsecProtectedApplicationPeer \<Rightarrow> bool" where
  "slot_ok i p \<longleftrightarrow> (if pr_bInUse p
     then pr_uiFilterHandle p = slot_handle i \<and> length (pr_acConnectionName p) = IPSEC_NAME_LENGTH \<and> 0 \<in> set (pr_acConnectionName p)
     else p = zero_peer)"

definition unique_names :: "IpsecProtectedApplicationPeer list \<Rightarrow> bool" where
  "unique_names ps \<longleftrightarrow> (\<forall>i < length ps. \<forall>j < length ps. \<forall>n. names n (ps ! i) \<and> names n (ps ! j) \<longrightarrow> i = j)"

definition in_use :: "IpsecProtectedApplicationPeer list \<Rightarrow> nat" where
  "in_use ps = length (filter pr_bInUse ps)"

definition registry_inv :: "IpsecProtectedApplicationState \<Rightarrow> kernel \<Rightarrow> bool" where
  "registry_inv st k \<longleftrightarrow> length (ap_aPeers st) = 256 \<and> (\<forall>i < 256. slot_ok i (ap_aPeers st ! i)) \<and> unique_names (ap_aPeers st)
     \<and> ap_uiPeerCount st = of_nat (in_use (ap_aPeers st))
     \<and> k_may k \<subseteq> (\<Union>p \<in> {p \<in> set (ap_aPeers st). pr_bInUse p}. flagged st p)"

lemma in_use_update:
  "i < length ps \<Longrightarrow> in_use (ps[i := p]) + (if pr_bInUse (ps ! i) then 1 else 0) = in_use ps + (if pr_bInUse p then 1 else 0)"
proof (induction ps arbitrary: i)
  case (Cons q qs)
  then show ?case by (cases i) (auto simp: in_use_def)
qed simp

lemma unique_namesD:
  "unique_names ps \<Longrightarrow> i < length ps \<Longrightarrow> j < length ps \<Longrightarrow> names n (ps ! i) \<Longrightarrow> names n (ps ! j) \<Longrightarrow> i = j"
  by (auto simp: unique_names_def)

lemma unique_names_update:
  assumes u: "unique_names ps" and i: "i < length ps"
    and nm: "\<And>n j. names n p \<Longrightarrow> j < length ps \<Longrightarrow> j \<noteq> i \<Longrightarrow> \<not> names n (ps ! j)"
  shows "unique_names (ps[i := p])"
  unfolding unique_names_def
proof (intro allI impI)
  fix a b n assume ab: "a < length (ps[i := p])" "b < length (ps[i := p])" "names n (ps[i := p] ! a) \<and> names n (ps[i := p] ! b)"
  show "a = b"
  proof (cases "a = i \<or> b = i")
    case True
    then show ?thesis using ab nm i by (metis length_list_update nth_list_update_eq nth_list_update_neq)
  next
    case False
    then show ?thesis using ab unique_namesD [OF u, of a b n] by simp
  qed
qed

lemma slot_handle_of: "slot_ok i p \<Longrightarrow> pr_bInUse p \<Longrightarrow> pr_uiFilterHandle p = slot_handle i"
  by (simp add: slot_ok_def)

text \<open>The filters of a slot are in the kernel only as far as its peer says so.\<close>

lemma may_of_slot:
  assumes inv: "registry_inv st k" and i: "i < 256" and q: "pr_uiFilterHandle q = slot_handle i"
  shows "k_may k \<inter> own_filters (filter_state st q) \<subseteq> (if pr_bInUse (ap_aPeers st ! i) then flagged st (ap_aPeers st ! i) else {})"
proof
  fix f assume f: "f \<in> k_may k \<inter> own_filters (filter_state st q)"
  then obtain p where p: "p \<in> set (ap_aPeers st)" "pr_bInUse p" "f \<in> flagged st p"
    using inv unfolding registry_inv_def by blast
  then obtain j where j: "j < 256" "p = ap_aPeers st ! j"
    using inv by (auto simp: registry_inv_def in_set_conv_nth)
  then have "pr_uiFilterHandle p = slot_handle j"
    using inv p(2) by (intro slot_handle_of) (simp_all add: registry_inv_def)
  moreover have "f \<in> own_filters (filter_state st p)" using p(3) flagged_own by blast
  ultimately have "j = i" using own_filters_disjoint [OF i j(1) _ q, of p st] f by blast
  with p j show "f \<in> (if pr_bInUse (ap_aPeers st ! i) then flagged st (ap_aPeers st ! i) else {})" by simp
qed

text \<open>Replacing the peer of one slot keeps the invariant when the kernel changed at most in the filters of that slot.\<close>

lemma registry_inv_update:
  assumes inv: "registry_inv st k" and i: "i < 256" and q: "pr_uiFilterHandle q = slot_handle i"
    and others: "k_may k' - own_filters (filter_state st q) = k_may k - own_filters (filter_state st q)"
    and own: "k_may k' \<inter> own_filters (filter_state st q) \<subseteq> (if pr_bInUse p then flagged st p else {})"
    and p: "slot_ok i p" and nm: "\<And>n j. names n p \<Longrightarrow> j < 256 \<Longrightarrow> j \<noteq> i \<Longrightarrow> \<not> names n (ap_aPeers st ! j)"
    and c: "c = of_nat (in_use ((ap_aPeers st)[i := p]))"
  shows "registry_inv ((set_peer st i p)\<lparr>ap_uiPeerCount := c\<rparr>) k'"
proof -
  let ?ps = "(ap_aPeers st)[i := p]"
  have len: "length (ap_aPeers st) = 256" using inv by (simp add: registry_inv_def)
  have "slot_ok j (?ps ! j)" if "j < 256" for j
    using inv p i that by (cases "j = i") (simp_all add: registry_inv_def)
  moreover have "unique_names ?ps"
    using inv i nm len by (intro unique_names_update) (auto simp: registry_inv_def)
  moreover have "k_may k' \<subseteq> (\<Union>p \<in> {p \<in> set ?ps. pr_bInUse p}. flagged st p)"
  proof
    fix f assume f: "f \<in> k_may k'"
    show "f \<in> (\<Union>p \<in> {p \<in> set ?ps. pr_bInUse p}. flagged st p)"
    proof (cases "f \<in> own_filters (filter_state st q)")
      case True
      with f own have "pr_bInUse p" "f \<in> flagged st p" by (auto split: if_splits)
      moreover have "p \<in> set ?ps" using i len by (simp add: set_update_memI)
      ultimately show ?thesis by blast
    next
      case False
      with f others have "f \<in> k_may k" by blast
      then obtain p' where p': "p' \<in> set (ap_aPeers st)" "pr_bInUse p'" "f \<in> flagged st p'"
        using inv unfolding registry_inv_def by blast
      then obtain j where j: "j < 256" "p' = ap_aPeers st ! j" using len by (auto simp: in_set_conv_nth)
      have "j \<noteq> i"
      proof
        assume "j = i"
        then have "pr_uiFilterHandle p' = pr_uiFilterHandle q"
          using inv p' j q by (simp add: registry_inv_def slot_handle_of)
        then have "own_filters (filter_state st p') = own_filters (filter_state st q)" by (rule own_filters_handle)
        with False p'(3) flagged_own show False by blast
      qed
      then have "p' \<in> set ?ps" using j len by (metis length_list_update nth_list_update_neq nth_mem)
      with p' show ?thesis by blast
    qed
  qed
  ultimately show ?thesis using len c by (simp add: registry_inv_def set_peer_def)
qed

section \<open>The registry as a map\<close>

definition pair :: "IpsecProtectedApplicationPeer \<Rightarrow> u32 \<times> u32" where
  "pair p = (pr_uiLocalAddress p, pr_uiRemoteAddress p)"

definition lookup :: "IpsecProtectedApplicationPeer list \<Rightarrow> bytes \<rightharpoonup> u32 \<times> u32" where
  "lookup ps n = map_option pair (List.find (names n) ps)"

definition registry_map :: "IpsecProtectedApplicationState \<Rightarrow> bytes \<rightharpoonup> u32 \<times> u32" where
  "registry_map st = lookup (ap_aPeers st)"

lemma lookup_None: "lookup ps n = None \<longleftrightarrow> (\<forall>p \<in> set ps. \<not> names n p)"
  by (auto simp: lookup_def find_None_iff)

lemma lookup_Some:
  assumes "unique_names ps"
  shows "lookup ps n = Some v \<longleftrightarrow> (\<exists>j < length ps. names n (ps ! j) \<and> v = pair (ps ! j))"
proof
  show "lookup ps n = Some v \<Longrightarrow> \<exists>j < length ps. names n (ps ! j) \<and> v = pair (ps ! j)"
    by (auto simp: lookup_def find_Some_iff)
next
  assume "\<exists>j < length ps. names n (ps ! j) \<and> v = pair (ps ! j)"
  then obtain j where j: "j < length ps" "names n (ps ! j)" "v = pair (ps ! j)" by blast
  then obtain x where x: "List.find (names n) ps = Some x"
    using find_None_iff [of "names n" ps] nth_mem [of j ps] by (metis not_None_eq)
  then obtain i where "i < length ps" "names n (ps ! i)" "x = ps ! i" by (auto simp: find_Some_iff)
  with unique_namesD [OF assms] j x show "lookup ps n = Some v" by (auto simp: lookup_def)
qed

lemma lookup_update:
  assumes u: "unique_names ps" "unique_names (ps[i := p])" and i: "i < length ps"
  shows "lookup (ps[i := p]) n = (if names n p then Some (pair p) else if names n (ps ! i) then None else lookup ps n)"
proof -
  consider (new) "names n p" | (old) "\<not> names n p" "names n (ps ! i)" | (other) "\<not> names n p" "\<not> names n (ps ! i)" by blast
  then show ?thesis
  proof cases
    case new
    then have "lookup (ps[i := p]) n = Some (pair p)"
      using i unfolding lookup_Some [OF u(2)] by (intro exI [of _ i]) simp
    with new show ?thesis by simp
  next
    case old
    have "\<not> names n (ps[i := p] ! j)" if "j < length ps" for j
      using old i that unique_namesD [OF u(1) i, of j n] by (cases "j = i") auto
    then have "lookup (ps[i := p]) n = None" by (auto simp: lookup_None in_set_conv_nth)
    with old show ?thesis by simp
  next
    case other
    have "(j < length ps \<and> names n (ps[i := p] ! j) \<and> v = pair (ps[i := p] ! j)) \<longleftrightarrow> (j < length ps \<and> names n (ps ! j) \<and> v = pair (ps ! j))" for j v
      using other i by (cases "j = i") auto
    then have "lookup (ps[i := p]) n = Some v \<longleftrightarrow> lookup ps n = Some v" for v
      unfolding lookup_Some [OF u(1)] lookup_Some [OF u(2)] by simp
    then have "lookup (ps[i := p]) n = lookup ps n" by (metis option.exhaust)
    with other show ?thesis by simp
  qed
qed

lemma lookup_ran:
  assumes "unique_names ps"
  shows "match_pair l r ps \<longleftrightarrow> (l, r) \<in> ran (lookup ps)"
proof -
  have "match_pair l r ps \<longleftrightarrow> (\<exists>j < length ps. pr_bInUse (ps ! j) \<and> (l, r) = pair (ps ! j))"
    by (auto simp: match_pair_def list_ex_length pair_def)
  also have "\<dots> \<longleftrightarrow> (\<exists>n. \<exists>j < length ps. names n (ps ! j) \<and> (l, r) = pair (ps ! j))"
    by (auto simp: names_def)
  finally show ?thesis by (simp add: ran_def lookup_Some [OF assms])
qed

text \<open>The two searches by name.\<close>

lemma find_peer_spec:
  "(case find_peer n i ps of None \<Rightarrow> \<forall>p \<in> set ps. \<not> names (cstr n) p | Some j \<Rightarrow> \<exists>m < length ps. j = i + m \<and> names (cstr n) (ps ! m))"
proof (induction ps arbitrary: i)
  case (Cons p ps)
  show ?case
  proof (cases "names (cstr n) p")
    case True
    then show ?thesis by (auto simp: names_def)
  next
    case False
    then have "find_peer n i (p # ps) = find_peer n (Suc i) ps" by (auto simp: names_def)
    with Cons.IH [of "Suc i"] False show ?thesis by (fastforce split: option.splits)
  qed
qed simp

lemma register_scan_spec:
  "(case register_scan n l r i f ps of (e, f') \<Rightarrow>
      (\<exists>p \<in> set ps. names (cstr n) p \<and> e = (if pair p = (l, r) then IPSEC_OK else IPSEC_ERR_RESOURCE_CONFLICT))
    \<or> e = IPSEC_ERR_BUFFER_TOO_SMALL \<and> (\<forall>p \<in> set ps. \<not> names (cstr n) p)
      \<and> (case f' of None \<Rightarrow> f = None \<and> (\<forall>p \<in> set ps. pr_bInUse p)
         | Some j \<Rightarrow> f = Some j \<or> (\<exists>m < length ps. j = i + m \<and> \<not> pr_bInUse (ps ! m))))"
proof (induction ps arbitrary: i f)
  case (Cons p ps)
  consider (free) "\<not> pr_bInUse p" "f = None" | (found) "names (cstr n) p"
    | (next') "\<not> names (cstr n) p" "\<not> (\<not> pr_bInUse p \<and> f = None)" by blast
  then show ?case
  proof cases
    case free
    then show ?thesis using Cons.IH [where i = "Suc i" and f = "Some i"] by (fastforce simp: names_def split: option.splits)
  next
    case found
    then show ?thesis by (auto simp: names_def pair_def)
  next
    case next'
    then have "register_scan n l r i f (p # ps) = register_scan n l r (Suc i) f ps" by (auto simp: names_def)
    then show ?thesis using Cons.IH [where i = "Suc i" and f = f] next' by (fastforce split: option.splits)
  qed
qed (auto split: option.split)

section \<open>Changing one slot\<close>

lemma peer_post_trans:
  assumes "peer_post st p k p1 k1" and "peer_post st p1 k1 p2 k2"
  shows "peer_post st p k p2 k2"
proof -
  obtain r u where p1: "p1 = p\<lparr>pr_bRawFilter := r, pr_bUdpFilter := u\<rparr>" using assms(1) by (auto simp: peer_post_def)
  obtain r' u' where p2: "p2 = p1\<lparr>pr_bRawFilter := r', pr_bUdpFilter := u'\<rparr>" using assms(2) by (auto simp: peer_post_def)
  have own: "own_filters (filter_state st p1) = own_filters (filter_state st p)"
    by (rule own_filters_handle) (simp add: p1)
  have "\<exists>r u. p2 = p\<lparr>pr_bRawFilter := r, pr_bUdpFilter := u\<rparr>"
    by (rule exI [of _ r'], rule exI [of _ u']) (simp add: p1 p2)
  with assms show ?thesis unfolding peer_post_def own by simp
qed

lemma peer_post_same:
  assumes "peer_post st p k p' k'"
  shows "pr_uiFilterHandle p' = pr_uiFilterHandle p" "pr_acConnectionName p' = pr_acConnectionName p" "pr_bInUse p' = pr_bInUse p"
    "pair p' = pair p" "names n p' = names n p"
    "k_may k' - own_filters (filter_state st p) = k_may k - own_filters (filter_state st p)"
    "k_may k \<inter> own_filters (filter_state st p) \<subseteq> flagged st p \<Longrightarrow> k_may k' \<inter> own_filters (filter_state st p) \<subseteq> flagged st p'"
proof -
  obtain r u where p': "p' = p\<lparr>pr_bRawFilter := r, pr_bUdpFilter := u\<rparr>" using assms unfolding peer_post_def by blast
  show "pr_uiFilterHandle p' = pr_uiFilterHandle p" "pr_acConnectionName p' = pr_acConnectionName p" "pr_bInUse p' = pr_bInUse p"
    "pair p' = pair p" "names n p' = names n p"
    by (simp_all add: p' pair_def names_def)
  show "k_may k' - own_filters (filter_state st p) = k_may k - own_filters (filter_state st p)"
    using assms unfolding peer_post_def by blast
  show "k_may k \<inter> own_filters (filter_state st p) \<subseteq> flagged st p \<Longrightarrow> k_may k' \<inter> own_filters (filter_state st p) \<subseteq> flagged st p'"
    using assms unfolding peer_post_def by blast
qed

lemma registry_inv_simps:
  assumes "registry_inv st k"
  shows "length (ap_aPeers st) = 256" "i < 256 \<Longrightarrow> slot_ok i (ap_aPeers st ! i)" "unique_names (ap_aPeers st)"
    "ap_uiPeerCount st = of_nat (in_use (ap_aPeers st))"
  using assms by (simp_all add: registry_inv_def)

text \<open>A slot that was free takes a new peer.\<close>

lemma slot_filled:
  assumes inv: "registry_inv st k" and i: "i < 256" and free: "\<not> pr_bInUse (ap_aPeers st ! i)"
    and new: "\<forall>p \<in> set (ap_aPeers st). \<not> names n p"
    and q: "pr_uiFilterHandle q = slot_handle i" "length (pr_acConnectionName q) = IPSEC_NAME_LENGTH" "0 \<in> set (pr_acConnectionName q)"
      "cstr (pr_acConnectionName q) = n"
    and post: "peer_post st q k p k'"
  defines "st' \<equiv> (set_peer st i (p\<lparr>pr_bInUse := True\<rparr>))\<lparr>ap_uiPeerCount := ap_uiPeerCount st + 1\<rparr>"
  shows "registry_inv st' k' \<and> registry_map st' = (registry_map st)(n \<mapsto> pair q) \<and> p\<lparr>pr_bInUse := True\<rparr> \<in> set (ap_aPeers st')"
proof -
  let ?p = "p\<lparr>pr_bInUse := True\<rparr>" and ?ps = "ap_aPeers st"
  note inv' = registry_inv_simps [OF inv] and same = peer_post_same [OF post]
  have nm: "names m ?p \<longleftrightarrow> m = n" for m using same(2) q(4) by (auto simp: names_def)
  have others: "\<not> names m (?ps ! j)" if "names m ?p" "j < 256" for m j
    using new that inv'(1) nm by auto
  have c: "ap_uiPeerCount st + 1 = of_nat (in_use (?ps[i := ?p]))"
    using in_use_update [of i ?ps ?p] i free inv' by simp
  have "k_may k \<inter> own_filters (filter_state st q) \<subseteq> flagged st q"
    using may_of_slot [OF inv i q(1)] free by simp
  then have own: "k_may k' \<inter> own_filters (filter_state st q) \<subseteq> (if pr_bInUse ?p then flagged st ?p else {})"
    using same(7) by simp
  have "registry_inv st' k'"
    unfolding st'_def
    by (rule registry_inv_update [OF inv i q(1) same(6) own _ _ c])
      (use same q others in \<open>auto simp: slot_ok_def\<close>)
  moreover have "registry_map st' = (registry_map st)(n \<mapsto> pair q)"
  proof
    fix m
    have u: "unique_names (?ps[i := ?p])"
      using inv' i others by (intro unique_names_update) auto
    have "\<not> names m (?ps ! i)" using free by (simp add: names_def)
    with lookup_update [OF inv'(3) u, of m] i inv'(1) nm same(4)
    show "registry_map st' m = ((registry_map st)(n \<mapsto> pair q)) m"
      by (simp add: registry_map_def st'_def set_peer_def pair_def)
  qed
  moreover have "?p \<in> set (ap_aPeers st')" using i inv'(1) by (simp add: st'_def set_peer_def set_update_memI)
  ultimately show ?thesis by blast
qed

text \<open>A slot whose filters are gone is erased.\<close>

lemma slot_cleared:
  assumes inv: "registry_inv st k" and i: "i < 256" and q: "pr_uiFilterHandle q = slot_handle i"
    and start: "k_may k \<inter> own_filters (filter_state st q) \<subseteq> flagged st q"
    and post: "peer_post st q k p k'" and gone: "\<not> pr_bRawFilter p" "\<not> pr_bUdpFilter p"
    and c: "c = of_nat (in_use ((ap_aPeers st)[i := zero_peer]))"
  shows "registry_inv ((set_peer st i zero_peer)\<lparr>ap_uiPeerCount := c\<rparr>) k'"
    and "registry_map ((set_peer st i zero_peer)\<lparr>ap_uiPeerCount := c\<rparr>)
      = (\<lambda>m. if names m (ap_aPeers st ! i) then None else registry_map st m)"
proof -
  note inv' = registry_inv_simps [OF inv] and same = peer_post_same [OF post]
  have z: "\<not> pr_bInUse zero_peer" by (simp add: zero_peer_def)
  have "flagged st p = {}" using gone by (simp add: flagged_def)
  then have own: "k_may k' \<inter> own_filters (filter_state st q) \<subseteq> (if pr_bInUse zero_peer then flagged st zero_peer else {})"
    using same(7) [OF start] by simp
  show "registry_inv ((set_peer st i zero_peer)\<lparr>ap_uiPeerCount := c\<rparr>) k'"
    by (rule registry_inv_update [OF inv i q same(6) own _ _ c]) (use z in \<open>auto simp: slot_ok_def names_def\<close>)
  have u: "unique_names ((ap_aPeers st)[i := zero_peer])"
    using inv' i z by (intro unique_names_update) (auto simp: names_def)
  show "registry_map ((set_peer st i zero_peer)\<lparr>ap_uiPeerCount := c\<rparr>)
      = (\<lambda>m. if names m (ap_aPeers st ! i) then None else registry_map st m)"
    using lookup_update [OF inv'(3) u] i inv'(1) z by (auto simp: registry_map_def set_peer_def names_def)
qed

text \<open>A peer keeps its slot with new flags.\<close>

lemma slot_kept:
  assumes inv: "registry_inv st k" and i: "i < 256" and use: "pr_bInUse (ap_aPeers st ! i)"
    and post: "peer_post st (ap_aPeers st ! i) k p k'"
  shows "registry_inv (set_peer st i p) k'" and "registry_map (set_peer st i p) = registry_map st"
proof -
  note inv' = registry_inv_simps [OF inv] and same = peer_post_same [OF post]
  let ?q = "ap_aPeers st ! i"
  have q: "pr_uiFilterHandle ?q = slot_handle i" using inv'(2) [OF i] use by (rule slot_handle_of)
  have nm: "\<not> names m (ap_aPeers st ! j)" if "names m p" "j < 256" "j \<noteq> i" for m j
    using that same(5) unique_namesD [OF inv'(3), of i j m] i inv'(1) by auto
  have own: "k_may k' \<inter> own_filters (filter_state st ?q) \<subseteq> (if pr_bInUse p then flagged st p else {})"
    using same(7) may_of_slot [OF inv i q] use same(3) by simp
  have c: "ap_uiPeerCount st = of_nat (in_use ((ap_aPeers st)[i := p]))"
    using in_use_update [of i "ap_aPeers st" p] i use inv' same(3) by simp
  have "registry_inv ((set_peer st i p)\<lparr>ap_uiPeerCount := ap_uiPeerCount st\<rparr>) k'"
    by (rule registry_inv_update [OF inv i q same(6) own _ _ c])
      (use inv'(2) [OF i] same use nm in \<open>auto simp: slot_ok_def\<close>)
  then show "registry_inv (set_peer st i p) k'" by (simp add: set_peer_def)
  have u: "unique_names ((ap_aPeers st)[i := p])"
    using inv' i nm by (intro unique_names_update) auto
  have "registry_map (set_peer st i p) m = registry_map st m" for m
    using lookup_update [OF inv'(3) u, of m] i inv'(1) same lookup_Some [OF inv'(3), of m "pair ?q"]
    by (auto simp: registry_map_def set_peer_def)
  then show "registry_map (set_peer st i p) = registry_map st" by blast
qed

section \<open>The abstract registry\<close>

text \<open>
  What the callers of the library see is a finite map from connection names to address pairs. Registering adds
  an entry, confirms an equal one, or leaves the map alone; \<open>added\<close> says whether an entry was made, also when the
  call failed.
\<close>

definition register_spec ::
  "(bytes \<rightharpoonup> u32 \<times> u32) \<Rightarrow> bytes \<Rightarrow> u32 \<times> u32 \<Rightarrow> IpsecError \<Rightarrow> bool \<Rightarrow> (bytes \<rightharpoonup> u32 \<times> u32) \<Rightarrow> bool" where
  "register_spec m n a e added m' \<longleftrightarrow>
     (if added then m n = None \<and> m' = m(n \<mapsto> a) else m' = m \<and> (e = IPSEC_OK \<longrightarrow> m n = Some a))"

definition registers ::
  "(bytes \<rightharpoonup> u32 \<times> u32) \<Rightarrow> IpsecConnectionConfig \<Rightarrow> IpsecError \<Rightarrow> bool \<Rightarrow> (bytes \<rightharpoonup> u32 \<times> u32) \<Rightarrow> bool" where
  "registers m c e added m' \<longleftrightarrow> (case (ParseProtectedApplicationPeer (Some c), cc_pcName c) of
       (Some (IPSEC_OK, l, r), Some n) \<Rightarrow> register_spec m (cstr n) (l, r) e added m'
     | _ \<Rightarrow> e \<noteq> IPSEC_OK \<and> \<not> added \<and> m' = m)"

definition unregister_spec :: "(bytes \<rightharpoonup> u32 \<times> u32) \<Rightarrow> bytes \<Rightarrow> IpsecError \<Rightarrow> (bytes \<rightharpoonup> u32 \<times> u32) \<Rightarrow> bool" where
  "unregister_spec m n e m' \<longleftrightarrow> m' = (if e = IPSEC_OK then m(n := None) else m)"

text \<open>The concrete state that stands for a map.\<close>

definition represents :: "path_context \<Rightarrow> kernel \<Rightarrow> (bytes \<rightharpoonup> u32 \<times> u32) \<Rightarrow> bool" where
  "represents cx k m \<longleftrightarrow> px_eProtectedPacketPath cx = IPSEC_PACKET_PATH_APPLICATION
     \<and> (case px_pApplicationState cx of None \<Rightarrow> False
        | Some st \<Rightarrow> ap_bPeerMutexInitialized st \<and> registry_inv st k \<and> registry_map st = m)"

lemma registry_inv_may: "k_may k1 = k_may k \<Longrightarrow> registry_inv st k1 = registry_inv st k"
  by (simp add: registry_inv_def)

lemma representsE:
  assumes "represents cx k m"
  obtains st where "px_eProtectedPacketPath cx = IPSEC_PACKET_PATH_APPLICATION" "px_pApplicationState cx = Some st"
    "ap_bPeerMutexInitialized st" "registry_inv st k" "registry_map st = m"
  using assms by (auto simp: represents_def split: option.splits)

lemma represents_may: "represents cx k m \<Longrightarrow> k_may k1 = k_may k \<Longrightarrow> represents cx k1 m"
  using registry_inv_may [of k1 k] by (auto simp: represents_def split: option.splits)

lemma represents_script [simp]: "represents cx (k\<lparr>k_script := os\<rparr>) m = represents cx k m"
  using represents_may [of cx k m "k\<lparr>k_script := os\<rparr>"] represents_may [of cx "k\<lparr>k_script := os\<rparr>" m k] by auto

lemma Parse_peer_total:
  assumes "list_ok (cc_LocalAddresses c)" and "list_ok (cc_RemoteAddresses c)"
  shows "ParseProtectedApplicationPeer (Some c) \<noteq> None"
  using assms
  by (auto simp: ParseProtectedApplicationPeer_def list_ok_def list_item_def Let_def split: option.splits)

lemma Parse_peer_name:
  assumes "ParseProtectedApplicationPeer (Some c) = Some (IPSEC_OK, l, r)"
  obtains n where "cc_pcName c = Some n" "strlen n < IPSEC_NAME_LENGTH"
proof -
  from assms obtain n where n: "cc_pcName c = Some n"
    by (auto simp: ParseProtectedApplicationPeer_def split: option.splits)
  have "\<not> IPSEC_NAME_LENGTH \<le> strnlen n IPSEC_NAME_LENGTH"
    using assms n by (auto simp: ParseProtectedApplicationPeer_def Let_def bind_eq_Some_conv split: option.splits if_splits)
  then have "strlen n < IPSEC_NAME_LENGTH" by (simp add: strnlen_def)
  with n that show ?thesis by blast
qed

lemma new_peer_spec:
  assumes "strlen n < IPSEC_NAME_LENGTH"
  obtains q where "new_peer n l r i = Some q" "pr_uiFilterHandle q = slot_handle i"
    "length (pr_acConnectionName q) = IPSEC_NAME_LENGTH" "0 \<in> set (pr_acConnectionName q)" "cstr (pr_acConnectionName q) = cstr n"
    "pair q = (l, r)" "\<not> pr_bRawFilter q" "\<not> pr_bUdpFilter q"
proof -
  have w: "write_at (replicate IPSEC_NAME_LENGTH 0) 0 (cstr n @ [0]) = Some (cstr n @ 0 # replicate (63 - strlen n) 0)"
    using assms by (simp add: zero_peer_def write_at_def IPSEC_NAME_LENGTH_def strlen_def)
  have "length (cstr n @ 0 # replicate (63 - strlen n) (0 :: u8)) = IPSEC_NAME_LENGTH"
    using assms by (simp add: IPSEC_NAME_LENGTH_def strlen_def)
  moreover have "cstr (cstr n @ 0 # replicate (63 - strlen n) 0) = cstr n"
    by (simp add: cstr_terminated)
  ultimately show ?thesis
    using that [of "zero_peer\<lparr>pr_acConnectionName := cstr n @ 0 # replicate (63 - strlen n) 0, pr_uiLocalAddress := l,
       pr_uiRemoteAddress := r, pr_uiFilterHandle := slot_handle i\<rparr>"]
    by (simp add: new_peer_def w slot_handle_def pair_def zero_peer_def)
qed

lemma with_registry_runs:
  assumes st: "px_pApplicationState cx = Some st" "ap_bPeerMutexInitialized st"
    and failed: "\<And>k1. k_may k1 = k_may k \<Longrightarrow> Q (failed IPSEC_ERR_INTERNAL) cx k1"
    and f: "\<And>k1. k_may k1 = k_may k \<Longrightarrow> runs (\<lambda>(x, st', k'). Q x (cx\<lparr>px_pApplicationState := Some st'\<rparr>) k') (f st k1)"
  shows "runs (\<lambda>(x, cx', k'). Q x cx' k') (with_registry cx u failed k f)"
proof -
  have locked: "runs (\<lambda>(x, cx', k'). Q x cx' k')
      (exec_bind (f st k1) (\<lambda>(x, pState, k). Ret (x, cx\<lparr>px_pApplicationState := Some pState\<rparr>, k)))" if "k_may k1 = k_may k" for k1
    by (rule runs_bind [OF f [OF that]]) auto
  show ?thesis
    unfolding with_registry_def st option.case if_not_P [OF not_not [THEN iffD2, OF st(2)]]
    by (rule runs_bind [OF k_lock_runs], clarify, rule runs_if) (use failed locked in simp_all)
qed

context filter_driver
begin

lemma register_new_runs:
  assumes inv: "registry_inv st k" and i: "i < 256" and free: "\<not> pr_bInUse (ap_aPeers st ! i)"
    and new: "\<forall>p \<in> set (ap_aPeers st). \<not> names (cstr n) p" and n: "strlen n < IPSEC_NAME_LENGTH"
  shows "runs (\<lambda>(e, added, st', k'). registry_inv st' k' \<and> ap_bPeerMutexInitialized st' = ap_bPeerMutexInitialized st
      \<and> registry_map st' = (if added then (registry_map st)(cstr n \<mapsto> (l, r)) else registry_map st)
      \<and> (e = IPSEC_OK \<longrightarrow> added)) (register_new install remove n l r i st k)" (is "runs ?Q _")
proof -
  obtain q where q: "new_peer n l r i = Some q" "pr_uiFilterHandle q = slot_handle i"
    "length (pr_acConnectionName q) = IPSEC_NAME_LENGTH" "0 \<in> set (pr_acConnectionName q)" "cstr (pr_acConnectionName q) = cstr n"
    "pair q = (l, r)" "\<not> pr_bRawFilter q" "\<not> pr_bUdpFilter q"
    by (rule new_peer_spec [OF n])
  have none: "k_may k \<inter> own_filters (filter_state st q) = {}"
    using may_of_slot [OF inv i q(2)] free by simp
  have filled: "?Q (e, True, (set_peer st i (p\<lparr>pr_bInUse := True\<rparr>))\<lparr>ap_uiPeerCount := ap_uiPeerCount st + 1\<rparr>, k')"
    if "peer_post st q k p k'" for p k' e
    using slot_filled [OF inv i free new q(2-5) that] q(6) by (simp add: set_peer_def)
  have cleared: "?Q (e, False, set_peer st i zero_peer, k')"
    if "peer_post st q k p k'" "\<not> pr_bRawFilter p" "\<not> pr_bUdpFilter p" "e \<noteq> IPSEC_OK" for p k' e
  proof -
    have c: "ap_uiPeerCount st = of_nat (in_use ((ap_aPeers st)[i := zero_peer]))"
      using in_use_update [of i "ap_aPeers st" zero_peer] i free registry_inv_simps [OF inv] by (simp add: zero_peer_def)
    have start: "k_may k \<inter> own_filters (filter_state st q) \<subseteq> flagged st q" using none by simp
    from slot_cleared [OF inv i q(2) start that(1-3) c] free that(4) show ?thesis
      by (simp add: set_peer_def names_def)
  qed
  have rollback: "runs ?Q (exec_bind (remove st p k1) (\<lambda>(e', p, k). if e' = IPSEC_OK then Ret (e, False, set_peer st i zero_peer, k)
      else Ret (e, True, (set_peer st i (p\<lparr>pr_bInUse := True\<rparr>))\<lparr>ap_uiPeerCount := ap_uiPeerCount st + 1\<rparr>, k)))"
    if p: "peer_post st q k p k1" "e \<noteq> IPSEC_OK" for e p k1
  proof (rule runs_bind [OF remove_law], clarify)
    fix e' p' k' assume post: "peer_post st p k1 p' k'" and ok: "e' = IPSEC_OK \<longrightarrow> \<not> pr_bRawFilter p' \<and> \<not> pr_bUdpFilter p'"
    note post' = peer_post_trans [OF p(1) post]
    show "runs ?Q (if e' = IPSEC_OK then Ret (e, False, set_peer st i zero_peer, k')
        else Ret (e, True, (set_peer st i (p'\<lparr>pr_bInUse := True\<rparr>))\<lparr>ap_uiPeerCount := ap_uiPeerCount st + 1\<rparr>, k'))"
      by (rule runs_if) (simp_all only: runs_simps cleared [OF post' _ _ p(2)] filled [OF post'] ok simp_thms)
  qed
  show ?thesis
    unfolding register_new_def q(1) lift_option_simps exec_bind_simps
  proof (rule runs_bind [OF install_law [OF none q(7,8)]], clarify, rule runs_if)
    fix e p k' assume post: "peer_post st q k p k'"
    show "runs ?Q (Ret (e, True, (set_peer st i (p\<lparr>pr_bInUse := True\<rparr>))\<lparr>ap_uiPeerCount := ap_uiPeerCount st + 1\<rparr>, k'))"
      by (simp only: runs_simps filled [OF post])
    show "e \<noteq> IPSEC_OK \<Longrightarrow> runs ?Q (exec_bind (remove st p k') (\<lambda>(e', p, k). if e' = IPSEC_OK then Ret (e, False, set_peer st i zero_peer, k)
      else Ret (e, True, (set_peer st i (p\<lparr>pr_bInUse := True\<rparr>))\<lparr>ap_uiPeerCount := ap_uiPeerCount st + 1\<rparr>, k)))"
      by (rule rollback [OF post])
  qed
qed

lemma register_locked:
  assumes st: "registry_inv st k" and n: "strlen n < IPSEC_NAME_LENGTH"
  shows "runs (\<lambda>((e, added), st', k'). ap_bPeerMutexInitialized st' = ap_bPeerMutexInitialized st \<and> registry_inv st' k'
      \<and> register_spec (registry_map st) (cstr n) (l, r) e added (registry_map st'))
    (register_slot install remove n l r st k)" (is "runs ?Q ?run")
proof -
  note inv = registry_inv_simps [OF st]
  obtain e f where scan: "register_scan n l r 0 None (ap_aPeers st) = (e, f)" by fastforce
  note found = register_scan_spec [where n = n and l = l and r = r and i = 0 and f = None and ps = "ap_aPeers st", unfolded scan, simplified]
  show ?thesis
  proof (cases "\<forall>p \<in> set (ap_aPeers st). \<not> names (cstr n) p")
    case False
    then obtain p where p: "p \<in> set (ap_aPeers st)" "names (cstr n) p"
      "e = (if pair p = (l, r) then IPSEC_OK else IPSEC_ERR_RESOURCE_CONFLICT)"
      using found by blast
    then have "registry_map st (cstr n) = Some (pair p)"
      by (auto simp: registry_map_def lookup_Some [OF inv(3)] in_set_conv_nth)
    moreover have "?run = Ret ((e, False), st, k)" using p(3) by (simp add: register_slot_def scan)
    ultimately show ?thesis using p(3) st by (simp add: register_spec_def)
  next
    case True
    then have e: "e = IPSEC_ERR_BUFFER_TOO_SMALL" using found by blast
    show ?thesis
    proof (cases f)
      case None
      with e st show ?thesis by (simp add: register_slot_def scan register_spec_def)
    next
      case (Some i)
      with found True inv(1) have i: "i < 256" "\<not> pr_bInUse (ap_aPeers st ! i)" by auto
      have "registry_map st (cstr n) = None" using True by (simp add: registry_map_def lookup_None)
      then have "runs ?Q (exec_bind (register_new install remove n l r i st k) (\<lambda>(e, added, st, k). Ret ((e, added), st, k)))"
        by (intro runs_bind [OF register_new_runs [OF st i True n]]) (auto simp: register_spec_def)
      then show ?thesis using e Some by (simp add: register_slot_def scan)
    qed
  qed
qed

lemma register_peer_runs:
  assumes rep: "represents cx k m" and l: "list_ok (cc_LocalAddresses c)" "list_ok (cc_RemoteAddresses c)"
  shows "runs (\<lambda>((e, added), cx', k'). \<exists>m'. represents cx' k' m' \<and> registers m c e added m')
    (register_peer install remove cx (Some c) k)" (is "runs ?Q _")
proof -
  from rep obtain st where st: "px_eProtectedPacketPath cx = IPSEC_PACKET_PATH_APPLICATION" "px_pApplicationState cx = Some st"
    "ap_bPeerMutexInitialized st" "registry_inv st k" "registry_map st = m" by (rule representsE)
  obtain e a b where parse: "ParseProtectedApplicationPeer (Some c) = Some (e, a, b)"
    using Parse_peer_total [OF l] by auto
  show ?thesis
  proof (cases "e = IPSEC_OK")
    case False
    then have "registers m c e False m" by (cases e) (simp_all add: registers_def parse)
    with False rep show ?thesis by (auto simp: register_peer_def st(1) parse)
  next
    case True
    then obtain n where n: "cc_pcName c = Some n" "strlen n < IPSEC_NAME_LENGTH"
      using parse Parse_peer_name by blast
    have spec: "registers m c e' added m' = register_spec m (cstr n) (a, b) e' added m'" for e' added m'
      using parse True n by (simp add: registers_def)
    let ?R = "\<lambda>x cx' k'. \<exists>m'. represents cx' k' m' \<and> registers m c (fst x) (snd x) m'"
    have "runs (\<lambda>(x, cx', k'). ?R x cx' k')
      (with_registry cx u (\<lambda>e. (e, False)) k (register_slot install remove n a b))" for u
    proof (rule with_registry_runs [OF st(2,3)])
      fix k1 :: kernel assume k1: "k_may k1 = k_may k"
      have "represents cx k1 m" by (rule represents_may [OF rep k1])
      then show "?R (IPSEC_ERR_INTERNAL, False) cx k1"
        by (auto simp: spec register_spec_def)
      have "registry_inv st k1" using st(4) k1 by (simp add: registry_inv_may [OF k1])
      note run = register_locked [OF this n(2), of a b]
      show "runs (\<lambda>(x, st', k'). ?R x (cx\<lparr>px_pApplicationState := Some st'\<rparr>) k')
          (register_slot install remove n a b st k1)"
        by (rule runs_mono [OF run]) (auto simp: represents_def st spec)
    qed
    then show ?thesis
      unfolding register_peer_def using st(1) parse True n(1) by (simp add: case_prod_unfold)
  qed
qed

lemma unregister_peer_runs:
  assumes rep: "represents cx k m"
  shows "runs (\<lambda>(e, cx', k'). \<exists>m'. represents cx' k' m' \<and> unregister_spec m (cstr n) e m') (unregister_peer remove cx (Some n) k)"
proof -
  from rep obtain st where st: "px_eProtectedPacketPath cx = IPSEC_PACKET_PATH_APPLICATION" "px_pApplicationState cx = Some st"
    "ap_bPeerMutexInitialized st" "registry_inv st k" "registry_map st = m" by (rule representsE)
  note inv = registry_inv_simps [OF st(4)]
  show ?thesis
    unfolding unregister_peer_def option.case st(1) simp_thms if_False
  proof (rule with_registry_runs [OF st(2,3)])
    fix k1 :: kernel assume k1: "k_may k1 = k_may k"
    show "\<exists>m'. represents cx k1 m' \<and> unregister_spec m (cstr n) (id IPSEC_ERR_INTERNAL) m'"
      using represents_may [OF rep k1] by (auto simp: unregister_spec_def)
    have inv1: "registry_inv st k1" using st(4) k1 by (simp add: registry_inv_may [OF k1])
    let ?Q = "\<lambda>(e, st', k'). \<exists>m'. represents (cx\<lparr>px_pApplicationState := Some st'\<rparr>) k' m' \<and> unregister_spec m (cstr n) e m'"
    note found = find_peer_spec [where n = n and i = 0 and ps = "ap_aPeers st"]
    show "runs ?Q (case find_peer n 0 (ap_aPeers st) of None \<Rightarrow> Ret (IPSEC_OK, st, k1)
        | Some i \<Rightarrow> exec_bind (remove st (ap_aPeers st ! i) k1) (\<lambda>(e, p, k).
            if e = IPSEC_OK then Ret (e, (set_peer st i zero_peer)\<lparr>ap_uiPeerCount := ap_uiPeerCount st - 1\<rparr>, k)
            else Ret (e, set_peer st i p, k)))"
    proof (cases "find_peer n 0 (ap_aPeers st)")
      case None
      then have "m (cstr n) = None" using found st(5) by (auto simp: registry_map_def lookup_None)
      then have "m(cstr n := None) = m" by auto
      with None inv1 st show ?thesis by (simp add: represents_def unregister_spec_def)
    next
      case (Some i)
      with found inv(1) have i: "i < 256" "names (cstr n) (ap_aPeers st ! i)" by auto
      let ?q = "ap_aPeers st ! i"
      have use: "pr_bInUse ?q" using i(2) by (simp add: names_def)
      have q: "pr_uiFilterHandle ?q = slot_handle i" using inv(2) [OF i(1)] use by (rule slot_handle_of)
      have start: "k_may k1 \<inter> own_filters (filter_state st ?q) \<subseteq> flagged st ?q" using may_of_slot [OF inv1 i(1) q] use by simp
      have c: "ap_uiPeerCount st - 1 = of_nat (in_use ((ap_aPeers st)[i := zero_peer]))"
      proof -
        have "in_use (ap_aPeers st) = Suc (in_use ((ap_aPeers st)[i := zero_peer]))"
          using in_use_update [of i "ap_aPeers st" zero_peer] i(1) use inv(1) by simp
        then show ?thesis by (simp add: inv(4))
      qed
      have "runs ?Q (exec_bind (remove st ?q k1) (\<lambda>(e, p, k).
            if e = IPSEC_OK then Ret (e, (set_peer st i zero_peer)\<lparr>ap_uiPeerCount := ap_uiPeerCount st - 1\<rparr>, k)
            else Ret (e, set_peer st i p, k)))"
      proof (rule runs_bind [OF remove_law], clarify, rule runs_if)
        fix e p k' assume post: "peer_post st ?q k1 p k'"
        assume "e = IPSEC_OK \<longrightarrow> \<not> pr_bRawFilter p \<and> \<not> pr_bUdpFilter p" "e = IPSEC_OK"
        then have "\<not> pr_bRawFilter p" "\<not> pr_bUdpFilter p" by auto
        note cleared = slot_cleared [OF inv1 i(1) q start post this c]
        have "(\<lambda>m'. if names m' ?q then None else registry_map st m') = m(cstr n := None)"
          using i(2) st(5) by (auto simp: names_def)
        with cleared st \<open>e = IPSEC_OK\<close> show "runs ?Q (Ret (e, (set_peer st i zero_peer)\<lparr>ap_uiPeerCount := ap_uiPeerCount st - 1\<rparr>, k'))"
          by (auto simp: represents_def unregister_spec_def set_peer_def)
      next
        fix e p k' assume post: "peer_post st ?q k1 p k'" and "e \<noteq> IPSEC_OK"
        with slot_kept [OF inv1 i(1) use post] st show "runs ?Q (Ret (e, set_peer st i p, k'))"
          by (auto simp: represents_def unregister_spec_def set_peer_def)
      qed
      with Some show ?thesis by simp
    qed
  qed
qed

end

section \<open>Properties of the registry\<close>

lemma match_represents:
  assumes "represents cx k m"
  shows "k_lock k = Ret (0, k1) \<Longrightarrow> MatchIpsecProtectedPeerInternal cx (Some a) (Some b) k
    = Ret (case (inet_pton a, inet_pton b) of (Some l, Some r) \<Rightarrow> (l, r) \<in> ran m | _ \<Rightarrow> False, cx,
        if inet_pton a = None \<or> inet_pton b = None then k else k1)"
proof -
  from assms obtain st where st: "px_pApplicationState cx = Some st" "ap_bPeerMutexInitialized st" "registry_inv st k"
    "registry_map st = m" by (rule representsE)
  have "cx\<lparr>px_pApplicationState := Some st\<rparr> = cx" using st(1) by simp
  moreover have "match_pair l r (ap_aPeers st) \<longleftrightarrow> (l, r) \<in> ran m" for l r
    using lookup_ran [OF registry_inv_simps(3) [OF st(3)]] st(4) by (simp add: registry_map_def)
  ultimately show "k_lock k = Ret (0, k1) \<Longrightarrow> MatchIpsecProtectedPeerInternal cx (Some a) (Some b) k
    = Ret (case (inet_pton a, inet_pton b) of (Some l, Some r) \<Rightarrow> (l, r) \<in> ran m | _ \<Rightarrow> False, cx,
        if inet_pton a = None \<or> inet_pton b = None then k else k1)"
    by (simp add: MatchIpsecProtectedPeerInternal_def with_registry_def st(1,2) split: option.split)
qed

text \<open>
  C11. The registry refines a map from connection names to address pairs. In every state that represents such a
  map, registering a connection, whatever the system answers, does not fault and ends in a state that represents
  the map the abstract operation gives for the reported error and the \<open>added\<close> flag: an entry for a name that had
  none, the same map with the success of an equal entry, or the same map with an error. Unregistering removes
  exactly the entry of the name when it reports success and nothing otherwise, and matching a pair of
  addresses with the mutex taken answers whether the map holds the pair.
\<close>

theorem registry_refines:
  assumes "represents cx k m" and "list_ok (cc_LocalAddresses c)" and "list_ok (cc_RemoteAddresses c)"
  shows "runs (\<lambda>((e, added), cx', k'). \<exists>m'. represents cx' k' m' \<and> registers m c e added m')
      (RegisterIpsecProtectedPeerInternal cx (Some c) k)
    \<and> runs (\<lambda>(e, cx', k'). \<exists>m'. represents cx' k' m' \<and> unregister_spec m (cstr n) e m')
      (UnregisterIpsecProtectedPeerInternal cx (Some n) k)
    \<and> (\<forall>k1 l r. k_lock k = Ret (0, k1) \<and> inet_pton a = Some l \<and> inet_pton b = Some r \<longrightarrow>
         MatchIpsecProtectedPeerInternal cx (Some a) (Some b) k = Ret ((l, r) \<in> ran m, cx, k1))"
  unfolding RegisterIpsecProtectedPeerInternal_def UnregisterIpsecProtectedPeerInternal_def
  using tc.register_peer_runs [OF assms] tc.unregister_peer_runs [OF assms(1)] match_represents [OF assms(1)]
  by simp

text \<open>The path as \<open>InitializeApplicationProtectedPath\<close> leaves it: every slot zero, no peer, the mutex initialised.\<close>

definition fresh_path :: "path_context \<Rightarrow> bool" where
  "fresh_path cx \<longleftrightarrow> px_eProtectedPacketPath cx = IPSEC_PACKET_PATH_APPLICATION
     \<and> (case px_pApplicationState cx of None \<Rightarrow> False
        | Some st \<Rightarrow> ap_bPeerMutexInitialized st \<and> ap_aPeers st = replicate 256 zero_peer \<and> ap_uiPeerCount st = 0)"

lemma fresh_represents: "fresh_path cx \<Longrightarrow> k_may k = {} \<Longrightarrow> represents cx k Map.empty"
  by (auto simp: fresh_path_def represents_def registry_inv_def registry_map_def slot_ok_def unique_names_def names_def
      in_use_def lookup_None zero_peer_def split: option.splits)

text \<open>
  The runs of the path: registrations and removals of any connections in any order. Between two calls the
  environment chooses what the system will answer to the next one.
\<close>

inductive path_reach :: "path_context \<Rightarrow> kernel \<Rightarrow> bool" where
  start: "fresh_path cx \<Longrightarrow> k_may k = {} \<Longrightarrow> path_reach cx k"
| register: "path_reach cx k \<Longrightarrow> list_ok (cc_LocalAddresses c) \<Longrightarrow> list_ok (cc_RemoteAddresses c) \<Longrightarrow>
    RegisterIpsecProtectedPeerInternal cx (Some c) k = Ret (x, cx', k') \<Longrightarrow> path_reach cx' (k'\<lparr>k_script := os\<rparr>)"
| unregister: "path_reach cx k \<Longrightarrow> UnregisterIpsecProtectedPeerInternal cx (Some n) k = Ret (e, cx', k') \<Longrightarrow>
    path_reach cx' (k'\<lparr>k_script := os\<rparr>)"

lemma path_reach_represents: "path_reach cx k \<Longrightarrow> \<exists>m. represents cx k m"
proof (induction rule: path_reach.induct)
  case (start cx k)
  then show ?case using fresh_represents by blast
next
  case (register cx k c x cx' k' os)
  from register.IH obtain m where m: "represents cx k m" ..
  have "\<exists>m'. represents cx' k' m'"
    using runs_Ret [OF tc.register_peer_runs [OF m register.hyps(2,3)]] register.hyps(4)
    unfolding RegisterIpsecProtectedPeerInternal_def by (cases x) fastforce
  then show ?case by simp
next
  case (unregister cx k n e cx' k' os)
  from unregister.IH obtain m where m: "represents cx k m" ..
  have "\<exists>m'. represents cx' k' m'"
    using runs_Ret [OF tc.unregister_peer_runs [OF m]] unregister.hyps(2)
    unfolding UnregisterIpsecProtectedPeerInternal_def by fastforce
  then show ?case by simp
qed

text \<open>
  C12. No filter is ever orphaned. After any sequence of registrations and removals with any answers of the
  kernel, the allocator and the mutex, every filter that may be in the kernel belongs to a registered peer that
  has the flag of that filter set, so that unregistering it or taking the path down removes the filter; the
  handles of two registered peers differ, no name is registered twice, and the peer count is exact.
\<close>

theorem no_orphaned_filter:
  assumes "path_reach cx k" and "px_pApplicationState cx = Some st"
  shows "(\<forall>f. f \<in> k_may k \<longrightarrow> (\<exists>i < 256. pr_bInUse (ap_aPeers st ! i) \<and> f \<in> flagged st (ap_aPeers st ! i)))
    \<and> (\<forall>i < 256. \<forall>j < 256. i \<noteq> j \<and> pr_bInUse (ap_aPeers st ! i) \<and> pr_bInUse (ap_aPeers st ! j) \<longrightarrow>
         pr_uiFilterHandle (ap_aPeers st ! i) \<noteq> pr_uiFilterHandle (ap_aPeers st ! j)
         \<and> cstr (pr_acConnectionName (ap_aPeers st ! i)) \<noteq> cstr (pr_acConnectionName (ap_aPeers st ! j)))
    \<and> ap_uiPeerCount st = of_nat (length (filter pr_bInUse (ap_aPeers st)))"
proof -
  obtain m where "represents cx k m" using path_reach_represents [OF assms(1)] ..
  then have inv: "registry_inv st k" using assms(2) by (auto simp: represents_def)
  note inv' = registry_inv_simps [OF inv]
  have "\<exists>i < 256. pr_bInUse (ap_aPeers st ! i) \<and> f \<in> flagged st (ap_aPeers st ! i)" if "f \<in> k_may k" for f
  proof -
    have "\<exists>p \<in> set (ap_aPeers st). pr_bInUse p \<and> f \<in> flagged st p" using inv that unfolding registry_inv_def by blast
    then show ?thesis using inv'(1) by (auto simp: in_set_conv_nth)
  qed
  moreover have "pr_uiFilterHandle (ap_aPeers st ! i) \<noteq> pr_uiFilterHandle (ap_aPeers st ! j)"
    "cstr (pr_acConnectionName (ap_aPeers st ! i)) \<noteq> cstr (pr_acConnectionName (ap_aPeers st ! j))"
    if "i < 256" "j < 256" "i \<noteq> j" "pr_bInUse (ap_aPeers st ! i)" "pr_bInUse (ap_aPeers st ! j)" for i j
    using that slot_handle_of [OF inv'(2)] slot_handle_inj [of i j] unique_namesD [OF inv'(3), of i j] inv'(1)
    by (auto simp: names_def)
  ultimately show ?thesis using inv'(4) by (simp add: in_use_def)
qed

section \<open>Concrete runs\<close>

definition sample_path :: path_context where
  "sample_path = \<lparr>px_eProtectedPacketPath = IPSEC_PACKET_PATH_APPLICATION, px_bInitialized = True,
     px_pApplicationState = Some (sample_state\<lparr>ap_aPeers := replicate 256 zero_peer\<rparr>)\<rparr>"

definition idle_kernel :: "os_script \<Rightarrow> kernel" where
  "idle_kernel os = \<lparr>k_script = os, k_may = {}, k_pending = None\<rparr>"

lemma sample_fresh: "fresh_path sample_path"
  by (simp add: fresh_path_def sample_path_def sample_state_def)

lemma sample_parse: "ParseProtectedApplicationPeer (Some sample_config) = Some (IPSEC_OK, 0x0100000a, 0x0200000a)"
  by (simp add: ParseProtectedApplicationPeer_def sample_config_def sample_list_def list_item_def Let_def strnlen_def strlen_def
      lit_def cstr_def IPSEC_NAME_LENGTH_def inet_pton_def octet_def digits_value_def de32_def
      IsProtectedApplicationAddressValid_def ntohl_def le32_def)

lemma sample_name: "cc_pcName sample_config = Some (lit ''gw'')"
  by (simp add: sample_config_def)

lemma register_scan_zeros [simp]:
  "register_scan n l r i (Some f) (replicate m zero_peer) = (IPSEC_ERR_BUFFER_TOO_SMALL, Some f)"
  by (induction m arbitrary: i) simp_all

definition stuck_peer :: IpsecProtectedApplicationPeer where
  "stuck_peer = zero_peer\<lparr>pr_acConnectionName := lit ''gw'' @ 0 # replicate 61 0, pr_uiLocalAddress := 0x0100000a,
     pr_uiRemoteAddress := 0x0200000a, pr_uiFilterHandle := slot_handle 0, pr_bInUse := True\<rparr>"

definition stuck_path :: path_context where
  "stuck_path = sample_path\<lparr>px_pApplicationState :=
     Some (sample_state\<lparr>ap_aPeers := stuck_peer # replicate 255 zero_peer, ap_uiPeerCount := 1\<rparr>)\<rparr>"

lemma replicate_256: "replicate 256 x = x # replicate 255 x"
  using replicate_Suc [of 255 x] by simp

lemmas registry_run_simps = RegisterIpsecProtectedPeerInternal_def UnregisterIpsecProtectedPeerInternal_def register_peer_def
  unregister_peer_def register_slot_def register_new_def with_registry_def InstallProtectedApplicationPeer_def
  RemoveProtectedApplicationPeer_def k_lock_def k_calloc_def read_lock_def read_calloc_def idle_kernel_def sample_parse
  set_peer_def Let_def

lemma sample_new_peer: "new_peer (lit ''gw'') 0x0100000a 0x0200000a 0 = Some (stuck_peer\<lparr>pr_bInUse := False\<rparr>)"
  by (simp add: new_peer_def write_at_def zero_peer_def IPSEC_NAME_LENGTH_def stuck_peer_def slot_handle_def lit_def cstr_def)

lemma stuck_name: "cstr (pr_acConnectionName stuck_peer) = cstr (lit ''gw'')" "pr_bInUse stuck_peer"
  "stuck_peer\<lparr>pr_bInUse := True\<rparr> = stuck_peer"
  by (simp_all add: stuck_peer_def lit_def cstr_def)

lemma sample_register:
  "RegisterIpsecProtectedPeerInternal sample_path (Some sample_config) (idle_kernel (ALock 0 # ACalloc False # ACalloc False # os))
     = Ret ((IPSEC_ERR_NO_MEMORY, True), stuck_path, idle_kernel os)"
  by (simp add: registry_run_simps sample_path_def stuck_path_def sample_name sample_new_peer sample_state_def replicate_256 stuck_name(3))

lemma stuck_unregister:
  "UnregisterIpsecProtectedPeerInternal stuck_path (Some (lit ''gw'')) (idle_kernel (ALock 0 # ACalloc False # os))
     = Ret (IPSEC_ERR_NO_MEMORY, stuck_path, idle_kernel os)"
  by (simp add: registry_run_simps stuck_path_def sample_path_def sample_state_def stuck_name)

lemma stuck_register:
  "RegisterIpsecProtectedPeerInternal stuck_path (Some sample_config) (idle_kernel (ALock 0 # os))
     = Ret ((IPSEC_OK, False), stuck_path, idle_kernel os)"
  by (simp add: registry_run_simps stuck_path_def sample_path_def sample_state_def sample_name stuck_name)
    (simp add: stuck_peer_def)

theorem registry_refines_witness:
  "\<exists>m'. RegisterIpsecProtectedPeerInternal sample_path (Some sample_config)
        (idle_kernel [ALock 0, ACalloc False, ACalloc False]) = Ret ((IPSEC_ERR_NO_MEMORY, True), stuck_path, idle_kernel [])
     \<and> represents stuck_path (idle_kernel []) m' \<and> m' = [lit ''gw'' \<mapsto> (0x0100000a, 0x0200000a)]"
proof -
  have rep: "represents sample_path (idle_kernel [ALock 0, ACalloc False, ACalloc False]) Map.empty"
    by (rule fresh_represents [OF sample_fresh]) (simp add: idle_kernel_def)
  have l: "list_ok (cc_LocalAddresses sample_config)" "list_ok (cc_RemoteAddresses sample_config)"
    by (simp_all add: sample_config_def sample_list_def list_ok_def)
  have "\<exists>m'. represents stuck_path (idle_kernel []) m' \<and> registers Map.empty sample_config IPSEC_ERR_NO_MEMORY True m'"
    using registry_refines [OF rep l] sample_register [of "[]"] by (simp add: runs_def)
  moreover have "cstr (lit ''gw'') = lit ''gw''" by (simp add: lit_def)
  ultimately show ?thesis
    using sample_register [of "[]"] by (simp add: registers_def sample_parse register_spec_def sample_name)
qed

theorem no_orphaned_filter_witness:
  "path_reach stuck_path (idle_kernel []) \<and>
   (\<exists>st. px_pApplicationState stuck_path = Some st \<and> ap_uiPeerCount st = of_nat (length (filter pr_bInUse (ap_aPeers st)))
     \<and> length (filter pr_bInUse (ap_aPeers st)) = 1)"
proof -
  have "path_reach sample_path (idle_kernel [ALock 0, ACalloc False, ACalloc False])"
    by (rule path_reach.start [OF sample_fresh]) (simp add: idle_kernel_def)
  then have "path_reach stuck_path ((idle_kernel [])\<lparr>k_script := []\<rparr>)"
    by (rule path_reach.register [OF _ _ _ sample_register]) (simp_all add: sample_config_def sample_list_def list_ok_def)
  then have r: "path_reach stuck_path (idle_kernel [])" by (simp add: idle_kernel_def)
  obtain st where st: "px_pApplicationState stuck_path = Some st" by (simp add: stuck_path_def)
  from no_orphaned_filter [OF r st] have "ap_uiPeerCount st = of_nat (length (filter pr_bInUse (ap_aPeers st)))" by blast
  moreover have "length (filter pr_bInUse (ap_aPeers st)) = 1"
    using st stuck_name(2) by (auto simp: stuck_path_def)
  ultimately show ?thesis using r st by blast
qed

text \<open>
  A registration that failed and could not be rolled back stays in the registry, and the next registration of
  the same connection takes it for a complete one: it reports success although neither filter is installed. The
  run: the allocator fails for the installation, for its rollback and for the removal the caller of the failed
  registration attempts, then a second registration is answered with success.
\<close>

theorem registered_without_filters:
  "\<exists>cx1 cx2 cx3 k1 k2 k3 st. RegisterIpsecProtectedPeerInternal sample_path (Some sample_config)
        (idle_kernel [ALock 0, ACalloc False, ACalloc False, ALock 0, ACalloc False, ALock 0]) = Ret ((IPSEC_ERR_NO_MEMORY, True), cx1, k1)
     \<and> UnregisterIpsecProtectedPeerInternal cx1 (Some (lit ''gw'')) k1 = Ret (IPSEC_ERR_NO_MEMORY, cx2, k2)
     \<and> RegisterIpsecProtectedPeerInternal cx2 (Some sample_config) k2 = Ret ((IPSEC_OK, False), cx3, k3)
     \<and> k_may k3 = {} \<and> px_pApplicationState cx3 = Some st \<and> \<not> pr_bRawFilter (ap_aPeers st ! 0) \<and> \<not> pr_bUdpFilter (ap_aPeers st ! 0)"
proof -
  have "k_may (idle_kernel []) = {}" by (simp add: idle_kernel_def)
  moreover have "\<exists>st. px_pApplicationState stuck_path = Some st \<and> \<not> pr_bRawFilter (ap_aPeers st ! 0) \<and> \<not> pr_bUdpFilter (ap_aPeers st ! 0)"
    by (simp add: stuck_path_def stuck_peer_def zero_peer_def)
  ultimately show ?thesis using sample_register stuck_unregister stuck_register by blast
qed

end
