(* ===== verification/Vici_Collector.thy ===== *)
theory Vici_Collector
  imports Vici_Parser
begin

text \<open>
  The contract between the VICI parser (\<open>src/ike/vici/vici_parser.c\<close>) and the callbacks that collect an
  event into a structure. A callback is C code: a read or write outside an array is the value \<open>None\<close>. The
  locale below takes one callback, an invariant of its state and a view of it, and carries what the
  callback promises of one element over to whole messages, whatever bytes the daemon sent.
\<close>

text \<open>
  The callback as the parser calls it. Undefined behaviour in the callback is the state \<open>None\<close>, which no later call
  leaves.
\<close>

definition guarded :: "(ViciElement \<Rightarrow> 's \<Rightarrow> (IpsecError \<times> 's) option) \<Rightarrow> 's option callback" where
  "guarded f el s = (case s \<bind> f el of
       None \<Rightarrow> (IPSEC_ERR_INTERNAL, None) | Some (e, s') \<Rightarrow> (e, Some s'))"

definition collect_message :: "(ViciElement \<Rightarrow> 's \<Rightarrow> (IpsecError \<times> 's) option) \<Rightarrow> bytes \<Rightarrow> 's \<Rightarrow> (IpsecError \<times> 's) option" where
  "collect_message f msg s =
     ParseViciMessage (Some msg) (of_nat (length msg)) (Some (guarded f)) (Some s) \<bind> (\<lambda>(e, s').
       s' \<bind> (\<lambda>s'. Some (e, s')))"

text \<open>The elements the parser shows: in an allowed place, with the texts their type has.\<close>

definition shown :: "ViciElement \<Rightarrow> bool" where
  "shown ev \<longleftrightarrow> (\<exists>d lo el. d \<le> VICI_MAX_SECTION_DEPTH \<and> elem_ok el \<and> elem_allowed d lo el \<and> ev = elem_event d el)"

lemma shown_events:
  "elems_wf d lo els \<Longrightarrow> d \<le> VICI_MAX_SECTION_DEPTH \<Longrightarrow> list_all shown (elem_events d els)"
proof (induction els arbitrary: d lo)
  case (Cons el els)
  have "next_depth d el \<le> VICI_MAX_SECTION_DEPTH"
    using Cons.prems by (cases el; simp)
  moreover have "shown (elem_event d el)"
    using Cons.prems by (auto simp: shown_def)
  ultimately show ?case using Cons by auto
qed simp

lemma shown_cases:
  assumes "shown ev"
  obtains (section_start) d n where "ev = elem_event d (SectionStart n)" "d < VICI_MAX_SECTION_DEPTH" "name_ok n"
    | (section_end) d where "ev = elem_event d SectionEnd" "0 < d" "d \<le> VICI_MAX_SECTION_DEPTH"
    | (key_value) d n v where "ev = elem_event d (KeyValue n v)" "name_ok n" "value_ok v"
    | (list_start) d n where "ev = elem_event d (ListStart n)" "name_ok n"
    | (list_item) d v where "ev = elem_event d (ListItem v)" "value_ok v"
    | (list_end) d where "ev = elem_event d ListEnd"
proof -
  obtain d lo el where "d \<le> VICI_MAX_SECTION_DEPTH" "elem_ok el" "elem_allowed d lo el" "ev = elem_event d el"
    using assms by (auto simp: shown_def)
  then show thesis by (cases el) (auto intro: that)
qed

text \<open>The events a message stands for, when it is balanced.\<close>

definition message_events :: "bytes \<Rightarrow> ViciElement list \<Rightarrow> bool" where
  "message_events msg evs \<longleftrightarrow> (\<exists>els. elems_wf 0 False els \<and> elems_closed 0 False els \<and> msg = encode_elems els \<and> evs = elem_events 0 els)"

locale message_collector =
  fixes step :: "ViciElement \<Rightarrow> 's \<Rightarrow> (IpsecError \<times> 's) option"
    and inv :: "'s \<Rightarrow> bool"
    and view :: "'s \<Rightarrow> 'v"
    and view_step :: "ViciElement \<Rightarrow> 'v \<Rightarrow> 'v"
  assumes step_safe: "shown ev \<Longrightarrow> inv s \<Longrightarrow> \<exists>e s'. step ev s = Some (e, s') \<and> inv s' \<and> (e = IPSEC_OK \<longrightarrow> view s' = view_step ev (view s))"
begin

lemma guarded_run:
  assumes "list_all shown evs" and "inv s" and "run_events (Some (guarded step)) evs (Some s) = (e, t)"
  shows "\<exists>s'. t = Some s' \<and> inv s' \<and> (e = IPSEC_OK \<longrightarrow> view s' = fold view_step evs (view s))"
  using assms
proof (induction evs arbitrary: s)
  case (Cons ev evs)
  then obtain e1 s1 where s: "step ev s = Some (e1, s1)" "inv s1" "e1 = IPSEC_OK \<longrightarrow> view s1 = view_step ev (view s)"
    using step_safe [of ev s] by auto
  show ?case
  proof (cases "e1 = IPSEC_OK")
    case True
    with Cons.prems s Cons.IH [of s1] show ?thesis by (simp add: run_callback_def guarded_def)
  next
    case False
    with Cons.prems s show ?thesis by (auto simp: run_callback_def guarded_def)
  qed
qed auto

lemma collect_safe:
  assumes "length msg < 2 ^ 32" and "inv s"
  shows "\<exists>e s'. collect_message step msg s = Some (e, s') \<and> inv s'
     \<and> (e = IPSEC_OK \<longrightarrow> (\<exists>evs. message_events msg evs \<and> view s' = fold view_step evs (view s)))"
proof -
  have len: "unat (of_nat (length msg) :: u32) = length msg"
    using assms(1) by (simp add: unat_of_nat take_bit_nat_def)
  then obtain e t where p: "parse_loop (Some (guarded step)) msg (of_nat (length msg)) 0 0 False (Some s) = Some (e, t)"
    "parse_outcome (Some (guarded step)) msg 0 False (Some s) e t"
    using parse_loop_sound [of "of_nat (length msg)" msg 0 "Some (guarded step)" 0 False "Some s"]
    by (auto simp: window_def)
  then obtain els r e1 where els: "elems_wf 0 False els" "msg = encode_elems els @ r"
    "run_events (Some (guarded step)) (elem_events 0 els) (Some s) = (e1, t)"
    "e = IPSEC_OK \<longrightarrow> e1 = IPSEC_OK \<and> r = [] \<and> elems_closed 0 False els"
    unfolding parse_outcome_def by blast
  from guarded_run [OF shown_events [OF els(1)] assms(2) els(3)]
  obtain s' where "t = Some s'" "inv s'" "e1 = IPSEC_OK \<longrightarrow> view s' = fold view_step (elem_events 0 els) (view s)"
    by auto
  with p(1) els show ?thesis
    by (auto simp: collect_message_def ParseViciMessage_def message_events_def)
qed

end

end
