(* ===== verification/Vici_Connection.thy ===== *)
theory Vici_Connection
  imports Vici_Parser Vici_Command Ipsec_Config
begin

text \<open>
  Connections (\<open>src/ike/vici/vici_connection.c\<close>): validating the configuration of a connection, writing it as the
  message of \<open>load-conn\<close>, loading and unloading it, and collecting the connections the daemon lists. As
  elsewhere \<open>None\<close> is undefined behaviour, here the use of an array element the caller did not provide or of a NULL
  string.
\<close>

section \<open>Validation\<close>

definition IPSEC_VICI_MAX_LIST_ITEMS :: nat where "IPSEC_VICI_MAX_LIST_ITEMS = 64"
definition IPSEC_VICI_MAX_INPUT_LENGTH :: nat where "IPSEC_VICI_MAX_INPUT_LENGTH = 1024"

text \<open>The loop over the characters; the string ends at its first zero byte.\<close>

fun name_characters :: "bytes \<Rightarrow> IpsecError" where
  "name_characters [] = IPSEC_OK"
| "name_characters (x # xs) =
     (if x = 0 then IPSEC_OK
      else if x < 0x21 \<or> 0x7e < x \<or> x = 123 \<or> x = 125 then IPSEC_ERR_INVALID_ARGUMENT
      else name_characters xs)"

definition ValidateConnectionName :: "bytes option \<Rightarrow> IpsecError" where
  "ValidateConnectionName pcName = (case pcName of None \<Rightarrow> IPSEC_ERR_INVALID_ARGUMENT
     | Some s \<Rightarrow>
         (let zLength = strnlen s IPSEC_NAME_LENGTH
          in if zLength = 0 \<or> IPSEC_NAME_LENGTH \<le> zLength \<or> UINT8_MAX < zLength then IPSEC_ERR_INVALID_ARGUMENT
             else name_characters s))"

text \<open>The items from index \<open>i\<close> on, \<open>n\<close> of them.\<close>

fun validate_items :: "IpsecStringListView \<Rightarrow> nat \<Rightarrow> nat \<Rightarrow> IpsecError option" where
  "validate_items pList i 0 = Some IPSEC_OK"
| "validate_items pList i (Suc n) = list_item pList i \<bind> (\<lambda>it. case it of None \<Rightarrow> Some IPSEC_ERR_INVALID_ARGUMENT
     | Some s \<Rightarrow>
         (let zLength = strnlen s (IPSEC_VICI_MAX_INPUT_LENGTH + 1)
          in if zLength = 0 \<or> IPSEC_VICI_MAX_INPUT_LENGTH < zLength \<or> UINT16_MAX < zLength then Some IPSEC_ERR_INVALID_ARGUMENT
             else validate_items pList (Suc i) n))"

definition ValidateConnectionList :: "IpsecStringListView \<Rightarrow> bool \<Rightarrow> IpsecError option" where
  "ValidateConnectionList pList bRequired =
     (let uiCount = unat (sl_uiCount pList)
      in if IPSEC_VICI_MAX_LIST_ITEMS < uiCount \<or> (bRequired \<and> uiCount = 0) \<or> (0 < uiCount \<and> sl_ppcItems pList = None)
         then Some IPSEC_ERR_INVALID_ARGUMENT
         else validate_items pList 0 uiCount)"

text \<open>
  Whether one of the parts of a proposal between its hyphens is the token. The cursor stops at the end of the
  string, so an empty last part is not looked at.
\<close>

function proposal_parts :: "bytes \<Rightarrow> bytes \<Rightarrow> bool" where
  "proposal_parts pcToken pcCursor =
     (if pcCursor = [] then False
      else let part = takeWhile (\<lambda>c. c \<noteq> 45) pcCursor; rest = dropWhile (\<lambda>c. c \<noteq> 45) pcCursor
           in if part = pcToken then True
              else if rest = [] then False
              else proposal_parts pcToken (tl rest))"
  by pat_completeness auto
termination proposal_parts
proof (relation "measure (\<lambda>(t, s). length s)", goal_cases)
  case (2 t s x y)
  have "length (dropWhile (\<lambda>c. c \<noteq> 45) s) \<le> length s" by (rule length_dropWhile_le)
  with 2 show ?case by (cases "dropWhile (\<lambda>c. c \<noteq> 45) s") auto
qed simp

fun any_item :: "(bytes \<Rightarrow> bool) \<Rightarrow> IpsecStringListView \<Rightarrow> nat \<Rightarrow> nat \<Rightarrow> bool option" where
  "any_item P pList i 0 = Some False"
| "any_item P pList i (Suc n) = list_item pList i \<bind> (\<lambda>it. case it of None \<Rightarrow> None
     | Some s \<Rightarrow> if P (cstr s) then Some True else any_item P pList (Suc i) n)"

definition ContainsConnectionProposalToken :: "IpsecStringListView \<Rightarrow> bytes \<Rightarrow> bool option" where
  "ContainsConnectionProposalToken pList pcToken = any_item (proposal_parts pcToken) pList 0 (unat (sl_uiCount pList))"

definition strstr :: "bytes \<Rightarrow> bytes \<Rightarrow> bool" where
  "strstr s t \<longleftrightarrow> list_ex (\<lambda>i. take (length t) (drop i s) = t) [0..<Suc (length s)]"

definition ContainsConnectionPfsToken :: "IpsecStringListView \<Rightarrow> bool option" where
  "ContainsConnectionPfsToken pList =
     any_item (\<lambda>s. strstr s (lit ''-modp'') \<or> strstr s (lit ''-ecp'') \<or> strstr s (lit ''-curve'')) pList 0 (unat (sl_uiCount pList))"

text \<open>The next check only when every one before succeeded.\<close>

definition and_then :: "IpsecError option \<Rightarrow> IpsecError option \<Rightarrow> IpsecError option" where
  "and_then r s = r \<bind> (\<lambda>e. if e = IPSEC_OK then s else Some e)"

definition validate_head :: "IpsecConnectionConfig \<Rightarrow> IpsecError" where
  "validate_head c =
     (let zLocalIdLength = (case cc_pcLocalId c of None \<Rightarrow> 0 | Some s \<Rightarrow> strnlen s IPSEC_ID_LENGTH);
          zRemoteIdLength = (case cc_pcRemoteId c of None \<Rightarrow> 0 | Some s \<Rightarrow> strnlen s IPSEC_ID_LENGTH);
          e = (if cc_uiStructSize c \<noteq> connection_config_size \<or> cc_pcLocalId c = None \<or> cc_pcRemoteId c = None
                  \<or> zLocalIdLength = 0 \<or> zRemoteIdLength = 0 \<or> IPSEC_ID_LENGTH \<le> zLocalIdLength \<or> IPSEC_ID_LENGTH \<le> zRemoteIdLength
                  \<or> \<not> (cc_eMode c = IPSEC_MODE_TUNNEL \<or> cc_eMode c = IPSEC_MODE_TRANSPORT)
                  \<or> \<not> (cc_eEsn c = IPSEC_ESN_AUTO \<or> cc_eEsn c = IPSEC_ESN_DISABLED \<or> cc_eEsn c = IPSEC_ESN_ENABLED)
               then IPSEC_ERR_INVALID_ARGUMENT else ValidateConnectionName (cc_pcName c))
      in if e = IPSEC_OK \<and> (cc_eLocalAuth c \<noteq> IPSEC_AUTH_PSK \<or> cc_eRemoteAuth c \<noteq> IPSEC_AUTH_PSK)
         then IPSEC_ERR_NOT_SUPPORTED else e)"

text \<open>The intent of the flags has to be visible in the proposals.\<close>

definition validate_intent :: "IpsecConnectionConfig \<Rightarrow> IpsecError option" where
  "validate_intent c = do {
     esn \<leftarrow> (if cc_eEsn c = IPSEC_ESN_ENABLED then ContainsConnectionProposalToken (cc_EspProposals c) (lit ''esn'') else Some True);
     if \<not> esn then Some IPSEC_ERR_INVALID_ARGUMENT
     else do {
       noesn \<leftarrow> (if cc_eEsn c = IPSEC_ESN_DISABLED then ContainsConnectionProposalToken (cc_EspProposals c) (lit ''noesn'') else Some True);
       if \<not> noesn then Some IPSEC_ERR_INVALID_ARGUMENT
       else do {
         pfs \<leftarrow> (if cc_bEnablePfs c then ContainsConnectionPfsToken (cc_EspProposals c) else Some True);
         Some (if \<not> pfs then IPSEC_ERR_INVALID_ARGUMENT else IPSEC_OK) } } }"

definition ValidateViciConnectionConfigInternal :: "IpsecConnectionConfig option \<Rightarrow> IpsecError option" where
  "ValidateViciConnectionConfigInternal pConfig = (case pConfig of None \<Rightarrow> Some IPSEC_ERR_INVALID_ARGUMENT
     | Some c \<Rightarrow>
         and_then (Some (validate_head c)) (
         and_then (Some (ValidateConnectionName (cc_pcChildName c))) (
         and_then (ValidateConnectionList (cc_LocalAddresses c) True) (
         and_then (ValidateConnectionList (cc_RemoteAddresses c) True) (
         and_then (ValidateConnectionList (cc_IkeProposals c) True) (
         and_then (ValidateConnectionList (cc_EspProposals c) True) (
         and_then (ValidateConnectionList (cc_LocalTrafficSelectors c) True) (
         and_then (ValidateConnectionList (cc_RemoteTrafficSelectors c) True) (validate_intent c)))))))))"

section \<open>The message of a connection\<close>

fun add_list_items :: "heap \<Rightarrow> IpsecStringListView \<Rightarrow> nat \<Rightarrow> nat \<Rightarrow> ViciBuffer \<Rightarrow> buffer_result" where
  "add_list_items heap pList i 0 b = Some (IPSEC_OK, b)"
| "add_list_items heap pList i (Suc n) b = list_item pList i \<bind> (\<lambda>it.
     then_ok (AddViciListItemString heap b it) (\<lambda>b. add_list_items heap pList (Suc i) n b))"

definition AddConnectionList :: "heap \<Rightarrow> ViciBuffer \<Rightarrow> bytes \<Rightarrow> IpsecStringListView \<Rightarrow> buffer_result" where
  "AddConnectionList heap b pcName pList =
     then_ok (AddViciListStart heap b (Some pcName)) (\<lambda>b.
     then_ok (add_list_items heap pList 0 (unat (sl_uiCount pList)) b) (\<lambda>b.
     AddViciListEnd heap b))"

text \<open>The text \<open>snprintf\<close> would write, and its length.\<close>

definition duration_seconds :: "nat \<Rightarrow> bytes" where
  "duration_seconds ullSeconds = show_nat ullSeconds @ lit ''s''"

definition AddConnectionDuration :: "heap \<Rightarrow> ViciBuffer \<Rightarrow> bytes \<Rightarrow> nat \<Rightarrow> buffer_result" where
  "AddConnectionDuration heap b pcName ullMilliseconds =
     (if 0 < ullMilliseconds
      then if UINT64_MAX - 999 < ullMilliseconds then Some (IPSEC_ERR_BUFFER_TOO_SMALL, b)
           else let acDuration = duration_seconds ((ullMilliseconds + 999) div 1000)
                in if 32 \<le> length acDuration then Some (IPSEC_ERR_BUFFER_TOO_SMALL, b)
                   else AddViciKeyValueString heap b (Some pcName) (Some acDuration)
      else Some (IPSEC_OK, b))"

text \<open>The writers of the message in their order.\<close>

definition ike_writers :: "heap \<Rightarrow> IpsecConnectionConfig \<Rightarrow> (ViciBuffer \<Rightarrow> buffer_result) list" where
  "ike_writers heap c =
     (let section = (\<lambda>n b. AddViciSectionStart heap b n);
          close = AddViciSectionEnd heap;
          pair = (\<lambda>k v b. AddViciKeyValueString heap b (Some (lit k)) v);
          items = (\<lambda>k l b. AddConnectionList heap b (lit k) l);
          time = (\<lambda>k ms b. AddConnectionDuration heap b (lit k) ms);
          flag = (\<lambda>v. if v then Some (lit ''yes'') else Some (lit ''no''))
      in [section (cc_pcName c),
          pair ''version'' (Some (lit ''2'')),
          items ''local_addrs'' (cc_LocalAddresses c),
          items ''remote_addrs'' (cc_RemoteAddresses c),
          items ''proposals'' (cc_IkeProposals c),
          pair ''mobike'' (flag (cc_bEnableMobike c)),
          pair ''fragmentation'' (flag (cc_bEnableFragmentation c)),
          pair ''encap'' (flag (cc_bForceUdpEncapsulation c)),
          pair ''childless'' (if cc_bForceChildlessIke c then Some (lit ''force'') else Some (lit ''allow'')),
          time ''dpd_delay'' (unat (cc_uiDpdDelayMs c)),
          time ''dpd_timeout'' (unat (cc_uiDpdTimeoutMs c)),
          time ''rekey_time'' (unat (cc_ullIkeRekeyTimeMs c)),
          time ''reauth_time'' (unat (cc_ullIkeLifetimeMs c)),
          section (Some (lit ''local'')), pair ''auth'' (Some (lit ''psk'')), pair ''id'' (cc_pcLocalId c), close,
          section (Some (lit ''remote'')), pair ''auth'' (Some (lit ''psk'')), pair ''id'' (cc_pcRemoteId c), close])"

definition child_writers :: "heap \<Rightarrow> IpsecConnectionConfig \<Rightarrow> (ViciBuffer \<Rightarrow> buffer_result) list" where
  "child_writers heap c =
     (let section = (\<lambda>n b. AddViciSectionStart heap b n);
          close = AddViciSectionEnd heap;
          pair = (\<lambda>k v b. AddViciKeyValueString heap b (Some (lit k)) v);
          items = (\<lambda>k l b. AddConnectionList heap b (lit k) l);
          time = (\<lambda>k ms b. AddConnectionDuration heap b (lit k) ms)
      in [section (Some (lit ''children'')),
          section (cc_pcChildName c),
          items ''local_ts'' (cc_LocalTrafficSelectors c),
          items ''remote_ts'' (cc_RemoteTrafficSelectors c),
          pair ''mode'' (if cc_eMode c = IPSEC_MODE_TUNNEL then Some (lit ''tunnel'') else Some (lit ''transport'')),
          items ''esp_proposals'' (cc_EspProposals c),
          pair ''start_action'' (Some (lit ''none'')),
          pair ''close_action'' (Some (lit ''none'')),
          pair ''dpd_action'' (Some (lit ''clear'')),
          time ''rekey_time'' (unat (cc_ullChildRekeyTimeMs c)),
          time ''life_time'' (unat (cc_ullChildLifetimeMs c)),
          close, close, close])"

definition connection_writers :: "heap \<Rightarrow> IpsecConnectionConfig \<Rightarrow> (ViciBuffer \<Rightarrow> buffer_result) list" where
  "connection_writers heap c = ike_writers heap c @ child_writers heap c"

lemmas connection_writer_defs = connection_writers_def ike_writers_def child_writers_def

fun run_writers :: "(ViciBuffer \<Rightarrow> buffer_result) list \<Rightarrow> ViciBuffer \<Rightarrow> buffer_result" where
  "run_writers [] b = Some (IPSEC_OK, b)"
| "run_writers (w # ws) b = then_ok (w b) (run_writers ws)"

definition BuildConnectionMessage :: "heap \<Rightarrow> IpsecConnectionConfig \<Rightarrow> ViciBuffer \<Rightarrow> buffer_result" where
  "BuildConnectionMessage heap c b =
     (case then_ok (InitializeViciBuffer heap b 2048 False) (run_writers (connection_writers heap c)) of
        None \<Rightarrow> None
      | Some (e, b) \<Rightarrow> if e \<noteq> IPSEC_OK then map_option (\<lambda>b. (e, b)) (DestroyViciBuffer b) else Some (e, b))"

section \<open>What the message should be\<close>

text \<open>The elements of the message of \<open>load-conn\<close> for a configuration.\<close>

fun texts_from :: "IpsecStringListView \<Rightarrow> nat \<Rightarrow> nat \<Rightarrow> bytes list" where
  "texts_from l i 0 = []"
| "texts_from l i (Suc n) = (case list_item l i of Some (Some s) \<Rightarrow> cstr s | _ \<Rightarrow> []) # texts_from l (Suc i) n"

definition list_texts :: "IpsecStringListView \<Rightarrow> bytes list" where
  "list_texts l = texts_from l 0 (unat (sl_uiCount l))"

definition list_elems :: "string \<Rightarrow> IpsecStringListView \<Rightarrow> vici_elem list" where
  "list_elems k l = ListStart (lit k) # map ListItem (list_texts l) @ [ListEnd]"

definition duration_elems :: "string \<Rightarrow> nat \<Rightarrow> vici_elem list" where
  "duration_elems k ms = (if ms = 0 then [] else [KeyValue (lit k) (duration_seconds ((ms + 999) div 1000))])"

definition pair_elem :: "string \<Rightarrow> string \<Rightarrow> vici_elem" where
  "pair_elem k v = KeyValue (lit k) (lit v)"

definition connection_elems :: "IpsecConnectionConfig \<Rightarrow> vici_elem list" where
  "connection_elems c =
     (let text = (\<lambda>s. case s of None \<Rightarrow> [] | Some t \<Rightarrow> cstr t);
          yes = (\<lambda>b. if b then ''yes'' else ''no'')
      in concat [
        [SectionStart (text (cc_pcName c)), pair_elem ''version'' ''2''],
        list_elems ''local_addrs'' (cc_LocalAddresses c),
        list_elems ''remote_addrs'' (cc_RemoteAddresses c),
        list_elems ''proposals'' (cc_IkeProposals c),
        [pair_elem ''mobike'' (yes (cc_bEnableMobike c)), pair_elem ''fragmentation'' (yes (cc_bEnableFragmentation c)),
         pair_elem ''encap'' (yes (cc_bForceUdpEncapsulation c)),
         pair_elem ''childless'' (if cc_bForceChildlessIke c then ''force'' else ''allow'')],
        duration_elems ''dpd_delay'' (unat (cc_uiDpdDelayMs c)),
        duration_elems ''dpd_timeout'' (unat (cc_uiDpdTimeoutMs c)),
        duration_elems ''rekey_time'' (unat (cc_ullIkeRekeyTimeMs c)),
        duration_elems ''reauth_time'' (unat (cc_ullIkeLifetimeMs c)),
        [SectionStart (lit ''local''), pair_elem ''auth'' ''psk'', KeyValue (lit ''id'') (text (cc_pcLocalId c)), SectionEnd],
        [SectionStart (lit ''remote''), pair_elem ''auth'' ''psk'', KeyValue (lit ''id'') (text (cc_pcRemoteId c)), SectionEnd],
        [SectionStart (lit ''children''), SectionStart (text (cc_pcChildName c))],
        list_elems ''local_ts'' (cc_LocalTrafficSelectors c),
        list_elems ''remote_ts'' (cc_RemoteTrafficSelectors c),
        [pair_elem ''mode'' (if cc_eMode c = IPSEC_MODE_TUNNEL then ''tunnel'' else ''transport'')],
        list_elems ''esp_proposals'' (cc_EspProposals c),
        [pair_elem ''start_action'' ''none'', pair_elem ''close_action'' ''none'', pair_elem ''dpd_action'' ''clear''],
        duration_elems ''rekey_time'' (unat (cc_ullChildRekeyTimeMs c)),
        duration_elems ''life_time'' (unat (cc_ullChildLifetimeMs c)),
        [SectionEnd, SectionEnd, SectionEnd]])"

text \<open>A duration of at most this many milliseconds can be rounded up to seconds in 64 bits.\<close>

definition durations_ok :: "IpsecConnectionConfig \<Rightarrow> bool" where
  "durations_ok c \<longleftrightarrow> list_all (\<lambda>ms. ms \<le> UINT64_MAX - 999)
     [unat (cc_ullIkeRekeyTimeMs c), unat (cc_ullIkeLifetimeMs c), unat (cc_ullChildRekeyTimeMs c), unat (cc_ullChildLifetimeMs c)]"

section \<open>What validation guarantees\<close>

definition list_valid :: "IpsecStringListView \<Rightarrow> bool" where
  "list_valid l \<longleftrightarrow> unat (sl_uiCount l) \<le> 64
     \<and> (\<forall>i < unat (sl_uiCount l). \<exists>s. list_item l i = Some (Some s) \<and> 0 < strlen s \<and> strlen s \<le> 1024)"

lemma and_then_OK: "and_then r s = Some IPSEC_OK \<longleftrightarrow> r = Some IPSEC_OK \<and> s = Some IPSEC_OK"
  by (auto simp: and_then_def bind_eq_Some_conv split: if_splits)

lemma validate_items_OK:
  "validate_items l i n = Some IPSEC_OK \<Longrightarrow> j < n \<Longrightarrow>
     \<exists>s. list_item l (i + j) = Some (Some s) \<and> 0 < strlen s \<and> strlen s \<le> 1024"
proof (induction n arbitrary: i j)
  case (Suc n)
  from Suc.prems(1) obtain s where s: "list_item l i = Some (Some s)" "0 < strlen s" "strlen s \<le> 1024"
    and rest: "validate_items l (Suc i) n = Some IPSEC_OK"
    by (auto simp: bind_eq_Some_conv Let_def strnlen_def IPSEC_VICI_MAX_INPUT_LENGTH_def split: option.splits if_splits)
  show ?case
  proof (cases j)
    case 0
    with s show ?thesis by simp
  next
    case (Suc j')
    with Suc.IH [OF rest, of j'] Suc.prems(2) show ?thesis by simp
  qed
qed simp

lemma ValidateConnectionList_OK: "ValidateConnectionList l b = Some IPSEC_OK \<Longrightarrow> list_valid l"
  using validate_items_OK [of l 0 "unat (sl_uiCount l)"]
  by (auto simp: ValidateConnectionList_def list_valid_def Let_def IPSEC_VICI_MAX_LIST_ITEMS_def split: if_splits)

lemma ValidateConnectionName_OK:
  "ValidateConnectionName p = IPSEC_OK \<Longrightarrow> \<exists>s. p = Some s \<and> 0 < strlen s \<and> strlen s < 64"
  by (auto simp: ValidateConnectionName_def Let_def strnlen_def IPSEC_NAME_LENGTH_def split: option.splits if_splits)

definition config_valid :: "IpsecConnectionConfig \<Rightarrow> bool" where
  "config_valid c \<longleftrightarrow> (\<exists>n ch l r. cc_pcName c = Some n \<and> cc_pcChildName c = Some ch \<and> cc_pcLocalId c = Some l \<and> cc_pcRemoteId c = Some r
     \<and> 0 < strlen n \<and> strlen n < 64 \<and> 0 < strlen ch \<and> strlen ch < 64 \<and> strlen l < 128 \<and> strlen r < 128)
     \<and> list_valid (cc_LocalAddresses c) \<and> list_valid (cc_RemoteAddresses c) \<and> list_valid (cc_IkeProposals c)
     \<and> list_valid (cc_EspProposals c) \<and> list_valid (cc_LocalTrafficSelectors c) \<and> list_valid (cc_RemoteTrafficSelectors c)"

lemma config_lists:
  assumes "config_valid c"
  shows "list_valid (cc_LocalAddresses c)" "list_valid (cc_RemoteAddresses c)" "list_valid (cc_IkeProposals c)"
    "list_valid (cc_EspProposals c)" "list_valid (cc_LocalTrafficSelectors c)" "list_valid (cc_RemoteTrafficSelectors c)"
  using assms by (simp_all add: config_valid_def)

lemma config_times:
  assumes "durations_ok c"
  shows "unat (cc_ullIkeRekeyTimeMs c) \<le> UINT64_MAX - 999" "unat (cc_ullIkeLifetimeMs c) \<le> UINT64_MAX - 999"
    "unat (cc_ullChildRekeyTimeMs c) \<le> UINT64_MAX - 999" "unat (cc_ullChildLifetimeMs c) \<le> UINT64_MAX - 999"
  using assms by (simp_all add: durations_ok_def)

lemma validate_head_OK:
  assumes "validate_head c = IPSEC_OK"
  shows "\<exists>n l r. cc_pcName c = Some n \<and> cc_pcLocalId c = Some l \<and> cc_pcRemoteId c = Some r
     \<and> 0 < strlen n \<and> strlen n < 64 \<and> strlen l < 128 \<and> strlen r < 128"
proof -
  have n: "ValidateConnectionName (cc_pcName c) = IPSEC_OK"
    using assms by (auto simp: validate_head_def Let_def split: if_splits)
  obtain l r where "cc_pcLocalId c = Some l" "cc_pcRemoteId c = Some r" "strlen l < 128" "strlen r < 128"
    using assms by (auto simp: validate_head_def Let_def strnlen_def IPSEC_ID_LENGTH_def split: if_splits option.splits)
  with ValidateConnectionName_OK [OF n] show ?thesis by blast
qed

lemma Validate_config_OK:
  assumes "ValidateViciConnectionConfigInternal (Some c) = Some IPSEC_OK"
  shows "config_valid c"
proof -
  have "validate_head c = IPSEC_OK" and ch: "ValidateConnectionName (cc_pcChildName c) = IPSEC_OK"
    and lists: "list_valid (cc_LocalAddresses c)" "list_valid (cc_RemoteAddresses c)" "list_valid (cc_IkeProposals c)"
      "list_valid (cc_EspProposals c)" "list_valid (cc_LocalTrafficSelectors c)" "list_valid (cc_RemoteTrafficSelectors c)"
    using assms by (auto simp: ValidateViciConnectionConfigInternal_def and_then_OK intro: ValidateConnectionList_OK)
  from validate_head_OK [OF this(1)] ValidateConnectionName_OK [OF ch] lists show ?thesis
    unfolding config_valid_def by auto
qed

section \<open>Writers and elements\<close>

definition writes :: "heap \<Rightarrow> (ViciBuffer \<Rightarrow> buffer_result) \<Rightarrow> vici_elem list \<Rightarrow> bool" where
  "writes heap w els \<longleftrightarrow> (\<forall>b. w b = add_elements heap b els)"

named_theorems writes_intros \<open>what a writer writes\<close>

lemma add_elements_append: "add_elements heap b (xs @ ys) = then_ok (add_elements heap b xs) (\<lambda>b. add_elements heap b ys)"
  by (induction xs arbitrary: b) (simp_all add: then_ok_assoc)

lemma then_ok_OK_id: "then_ok r (\<lambda>b. Some (IPSEC_OK, b)) = r"
  by (auto simp: then_ok_def split: option.splits)

lemma writes_run_Nil [writes_intros]: "writes heap (run_writers []) []"
  by (simp add: writes_def)

lemma writes_run_Cons [writes_intros]:
  "writes heap w xs \<Longrightarrow> writes heap (run_writers ws) ys \<Longrightarrow> writes heap (run_writers (w # ws)) (xs @ ys)"
proof -
  assume w: "writes heap w xs" and ws: "writes heap (run_writers ws) ys"
  from ws have "run_writers ws = (\<lambda>b. add_elements heap b ys)" by (auto simp: writes_def)
  with w show ?thesis by (simp add: writes_def add_elements_append)
qed

lemma Name_cstr: "AppendViciName heap b (Some (cstr n)) = AppendViciName heap b (Some n)"
  by (simp add: AppendViciName_emits)

lemma writes_section [writes_intros]: "p = Some n \<Longrightarrow> writes heap (\<lambda>b. AddViciSectionStart heap b p) [SectionStart (cstr n)]"
  by (simp add: writes_def then_ok_OK_id AddViciSectionStart_def Name_cstr)

lemma writes_end [writes_intros]: "writes heap (AddViciSectionEnd heap) [SectionEnd]"
  by (simp add: writes_def then_ok_OK_id)

lemma Append_cstr: "AppendViciBuffer heap b (Some s) (strlen s) = AppendViciBuffer heap b (Some (cstr s)) (strlen s)"
  using Append_take [of "strlen s" s heap b] strlen_le [of s] by (simp add: take_strlen)

lemma writes_pair [writes_intros]:
  "p = Some v \<Longrightarrow> strlen v \<le> UINT16_MAX \<Longrightarrow> writes heap (\<lambda>b. AddViciKeyValueString heap b (Some k) p) [KeyValue k (cstr v)]"
  by (simp add: writes_def then_ok_OK_id AddViciKeyValueString_def AddViciKeyValue_def strnlen_def Let_def Append_cstr)
    (simp add: strlen_def)

lemma writes_item: "strlen v \<le> UINT16_MAX \<Longrightarrow> AddViciListItemString heap b (Some v) = add_element heap b (ListItem (cstr v))"
  by (simp add: AddViciListItemString_def AddViciListItem_def strnlen_def Let_def Append_cstr) (simp add: strlen_def)

lemma add_list_items_elements:
  assumes "\<forall>j < n. \<exists>s. list_item l (i + j) = Some (Some s) \<and> strlen s \<le> UINT16_MAX"
  shows "add_list_items heap l i n b = add_elements heap b (map ListItem (texts_from l i n))"
  using assms
proof (induction n arbitrary: i b)
  case (Suc n)
  obtain s where s: "list_item l i = Some (Some s)" "strlen s \<le> UINT16_MAX" using Suc.prems by force
  have "\<forall>j < n. \<exists>s. list_item l (Suc i + j) = Some (Some s) \<and> strlen s \<le> UINT16_MAX"
    using Suc.prems by (metis Suc_less_eq add_Suc_shift)
  then have "add_list_items heap l (Suc i) n = (\<lambda>b. add_elements heap b (map ListItem (texts_from l (Suc i) n)))"
    using Suc.IH by blast
  with s show ?case by (simp add: writes_item del: add_element.simps)
qed simp

lemma writes_list [writes_intros]: "list_valid l \<Longrightarrow> writes heap (\<lambda>b. AddConnectionList heap b (lit k) l) (list_elems k l)"
  unfolding writes_def AddConnectionList_def list_elems_def list_texts_def
  by (subst add_list_items_elements) (fastforce simp: list_valid_def, simp add: add_elements_append then_ok_assoc then_ok_OK_id)

lemma duration_length: "n < 2 ^ 64 \<Longrightarrow> length (duration_seconds n) < 32 \<and> 0 \<notin> set (duration_seconds n)"
  using show_nat_length [of n 20] by (simp add: duration_seconds_def lit_def)

lemma duration_text_bound:
  assumes "ms \<le> UINT64_MAX - 999"
  shows "length (duration_seconds ((ms + 999) div 1000)) < 32" "0 \<notin> set (duration_seconds ((ms + 999) div 1000))"
proof -
  have "(ms + 999) div 1000 < 2 ^ 64" using assms by simp
  from duration_length [OF this] show "length (duration_seconds ((ms + 999) div 1000)) < 32"
    "0 \<notin> set (duration_seconds ((ms + 999) div 1000))" by auto
qed

lemma writes_duration [writes_intros]:
  assumes "ms \<le> UINT64_MAX - 999"
  shows "writes heap (\<lambda>b. AddConnectionDuration heap b (lit k) ms) (duration_elems k ms)"
proof (cases "ms = 0")
  case True
  then show ?thesis by (simp add: writes_def AddConnectionDuration_def duration_elems_def)
next
  case False
  let ?d = "duration_seconds ((ms + 999) div 1000)"
  note d = duration_text_bound [OF assms]
  have "AddConnectionDuration heap b (lit k) ms = AddViciKeyValueString heap b (Some (lit k)) (Some ?d)" for b
    using False assms d by (simp add: AddConnectionDuration_def Let_def)
  moreover have "writes heap (\<lambda>b. AddViciKeyValueString heap b (Some (lit k)) (Some ?d)) [KeyValue (lit k) (cstr ?d)]"
    using d by (intro writes_pair) simp_all
  ultimately show ?thesis using False d by (simp add: duration_elems_def writes_def)
qed

lemma writes_eq: "writes heap w xs \<Longrightarrow> xs = ys \<Longrightarrow> writes heap w ys"
  by simp

lemma writes_literal [writes_intros]:
  "p = Some (lit v) \<Longrightarrow> 0 \<notin> set (lit v) \<Longrightarrow> length v \<le> UINT16_MAX \<Longrightarrow>
     writes heap (\<lambda>b. AddViciKeyValueString heap b (Some (lit k)) p) [pair_elem k v]"
  using writes_pair [of p "lit v" heap "lit k"] by (simp add: pair_elem_def)

lemma writes_named [writes_intros]:
  "0 \<notin> set (lit n) \<Longrightarrow> writes heap (\<lambda>b. AddViciSectionStart heap b (Some (lit n))) [SectionStart (lit n)]"
  using writes_section [of "Some (lit n)" "lit n" heap] by simp

lemma u32_duration: "unat (w :: u32) \<le> UINT64_MAX - 999"
  using u32_bound [of w] by simp

lemma connection_writes:
  assumes v: "config_valid c" and d: "durations_ok c"
  shows "writes heap (run_writers (connection_writers heap c)) (connection_elems c)"
proof -
  from v obtain n ch l r where n: "cc_pcName c = Some n" and ch: "cc_pcChildName c = Some ch"
    and l: "cc_pcLocalId c = Some l" and r: "cc_pcRemoteId c = Some r"
    and len: "strlen l \<le> UINT16_MAX" "strlen r \<le> UINT16_MAX"
    by (auto simp: config_valid_def)
  note lists = config_lists [OF v]
  note times = config_times [OF d]
  have flag: "writes heap (\<lambda>b. AddViciKeyValueString heap b (Some (lit k)) (if x then Some (lit s) else Some (lit t))) [pair_elem k (if x then s else t)]"
    if "0 \<notin> set (lit s)" "0 \<notin> set (lit t)" "length s \<le> UINT16_MAX" "length t \<le> UINT16_MAX" for k x s t
    using that by (intro writes_literal) simp_all
  note rules = writes_run_Cons writes_run_Nil writes_end writes_section [OF n] writes_section [OF ch]
    writes_pair [OF l len(1)] writes_pair [OF r len(2)] lists [THEN writes_list] times [THEN writes_duration]
    writes_duration [OF u32_duration] flag writes_literal [OF refl] writes_named
  show ?thesis
    unfolding connection_writer_defs Let_def append_Cons append_Nil
    by (rule writes_eq, (rule rules | (simp add: lit_def; fail))+) (simp add: connection_elems_def n ch l r)
qed

section \<open>The message is balanced and fits\<close>

lemma texts_valid:
  assumes "\<forall>j < n. \<exists>s. list_item l (i + j) = Some (Some s) \<and> strlen s \<le> 1024"
  shows "length (texts_from l i n) = n" "\<forall>t \<in> set (texts_from l i n). length t \<le> 1024"
proof -
  have "length (texts_from l i n) = n \<and> (\<forall>t \<in> set (texts_from l i n). length t \<le> 1024)"
    using assms
  proof (induction n arbitrary: i)
    case (Suc n)
    obtain s where s: "list_item l i = Some (Some s)" "strlen s \<le> 1024" using Suc.prems by force
    have "\<forall>j < n. \<exists>s. list_item l (Suc i + j) = Some (Some s) \<and> strlen s \<le> 1024"
      using Suc.prems by (metis Suc_less_eq add_Suc_shift)
    from Suc.IH [OF this] s show ?case by (simp add: strlen_def)
  qed simp
  then show "length (texts_from l i n) = n" "\<forall>t \<in> set (texts_from l i n). length t \<le> 1024" by blast+
qed

lemma list_texts_valid:
  assumes "list_valid l"
  shows "length (list_texts l) \<le> 64" "\<forall>t \<in> set (list_texts l). length t \<le> 1024"
proof -
  have "\<forall>j < unat (sl_uiCount l). \<exists>s. list_item l (0 + j) = Some (Some s) \<and> strlen s \<le> 1024"
    using assms by (auto simp: list_valid_def)
  from texts_valid [OF this] assms show "length (list_texts l) \<le> 64" "\<forall>t \<in> set (list_texts l). length t \<le> 1024"
    by (simp_all add: list_texts_def list_valid_def)
qed

lemma items_wf: "\<forall>t \<in> set ts. length t \<le> 1024 \<Longrightarrow> elems_wf d True (map ListItem ts @ rest) = elems_wf d True rest"
  by (induction ts) (auto simp: value_ok_def)

lemma items_closed: "elems_closed d lo (map ListItem ts @ rest) = elems_closed d lo rest"
  by (induction ts) auto

named_theorems shape_simps \<open>groups of elements that keep depth and list flag\<close>

lemma list_wf [shape_simps]:
  "list_valid l \<Longrightarrow> name_ok (lit k) \<Longrightarrow> elems_wf d False (list_elems k l @ rest) = elems_wf d False rest"
  using items_wf [OF list_texts_valid(2), of l d "ListEnd # rest"] by (simp add: list_elems_def)

lemma list_closed [shape_simps]: "elems_closed d lo (list_elems k l @ rest) = elems_closed d False rest"
  using items_closed [of d True "list_texts l" "ListEnd # rest"] by (simp add: list_elems_def)

lemma duration_wf [shape_simps]:
  "ms \<le> UINT64_MAX - 999 \<Longrightarrow> name_ok (lit k) \<Longrightarrow> elems_wf d False (duration_elems k ms @ rest) = elems_wf d False rest"
  using duration_text_bound(1) [of ms] by (simp add: duration_elems_def value_ok_def)

lemma duration_closed [shape_simps]: "elems_closed d lo (duration_elems k ms @ rest) = elems_closed d lo rest"
  by (simp add: duration_elems_def)

lemma pair_ok [shape_simps]: "elem_ok (pair_elem k v) = (name_ok (lit k) \<and> value_ok (lit v))"
  "elem_allowed d lo (pair_elem k v) = (\<not> lo)" "next_depth d (pair_elem k v) = d" "next_list lo (pair_elem k v) = lo"
  by (simp_all add: pair_elem_def)

lemma connection_balanced:
  assumes v: "config_valid c" and d: "durations_ok c"
  shows "elems_wf 0 False (connection_elems c)" "elems_closed 0 False (connection_elems c)"
proof -
  from v obtain n ch l r where n: "cc_pcName c = Some n" and ch: "cc_pcChildName c = Some ch"
    and l: "cc_pcLocalId c = Some l" and r: "cc_pcRemoteId c = Some r"
    and len: "0 < strlen n" "strlen n < 64" "0 < strlen ch" "strlen ch < 64" "strlen l < 128" "strlen r < 128"
    by (auto simp: config_valid_def)
  have names: "name_ok (cstr n)" "name_ok (cstr ch)" "value_ok (cstr l)" "value_ok (cstr r)"
    using len by (auto simp: name_ok_def value_ok_def strlen_def)
  have literals: "name_ok (lit k)" if "k \<noteq> []" "length k \<le> UINT8_MAX" for k
    using that by (auto simp: name_ok_def lit_def)
  have texts: "value_ok (lit k)" if "length k \<le> UINT16_MAX" for k
    using that by (simp add: value_ok_def)
  note lists = config_lists [OF v]
  note times = config_times [OF d]
  show "elems_wf 0 False (connection_elems c)"
    using u32_duration [of "cc_uiDpdDelayMs c"] u32_duration [of "cc_uiDpdTimeoutMs c"] times
    by (simp add: connection_elems_def n ch l r shape_simps names literals texts lists VICI_MAX_SECTION_DEPTH_def)
  show "elems_closed 0 False (connection_elems c)"
    by (simp add: connection_elems_def Let_def shape_simps split del: if_split)
qed

lemma c_names:
  "elem_c_name (pair_elem k v) = (0 \<notin> set (lit k))" "elem_c_name (SectionStart n) = (0 \<notin> set n)"
  "elem_c_name (KeyValue n x) = (0 \<notin> set n)" "elem_c_name SectionEnd"
  "list_all elem_c_name (list_elems k l) = (0 \<notin> set (lit k))" "0 \<notin> set (lit k) \<Longrightarrow> list_all elem_c_name (duration_elems k ms)"
  by (auto simp: elem_c_name_def pair_elem_def list_elems_def duration_elems_def list_all_iff)

lemma connection_c_names: "list_all elem_c_name (connection_elems c)"
proof -
  have txt0: "0 \<notin> set (case p of None \<Rightarrow> [] | Some t \<Rightarrow> cstr t)" for p by (simp split: option.split)
  have literal: "0 \<notin> set (lit k)" if "\<forall>ch \<in> set k. (of_char ch :: u8) \<noteq> 0" for k
    using that by (auto simp: lit_def)
  show ?thesis by (simp add: connection_elems_def Let_def c_names txt0 literal split del: if_split)
qed

definition elems_size :: "vici_elem list \<Rightarrow> nat" where
  "elems_size els = length (encode_elems els)"

lemma elems_size_simps [simp]:
  "elems_size [] = 0" "elems_size (el # els) = length (elem_bytes el) + elems_size els"
  "elems_size (xs @ ys) = elems_size xs + elems_size ys"
  by (simp_all add: elems_size_def encode_elems_def)

lemma items_size: "\<forall>t \<in> set ts. length t \<le> 1024 \<Longrightarrow> elems_size (map ListItem ts) \<le> 1027 * length ts"
  by (induction ts) (auto simp: elem_bytes_def value_parts_def)

lemma list_size:
  assumes "list_valid l"
  shows "elems_size (list_elems k l) \<le> 65731 + length k"
proof -
  have "elems_size (map ListItem (list_texts l)) \<le> 1027 * 64"
    using items_size [OF list_texts_valid(2) [OF assms]] list_texts_valid(1) [OF assms] by linarith
  then show ?thesis by (simp add: list_elems_def elem_bytes_def name_parts_def)
qed

lemma duration_size: "ms \<le> UINT64_MAX - 999 \<Longrightarrow> elems_size (duration_elems k ms) \<le> 36 + length k"
  using duration_text_bound(1) [of ms] by (simp add: duration_elems_def elem_bytes_def name_parts_def value_parts_def)

lemma pair_size: "length (elem_bytes (pair_elem k v)) = 4 + length k + length v"
  by (simp add: pair_elem_def elem_bytes_def name_parts_def value_parts_def)

lemma connection_fits:
  assumes v: "config_valid c" and d: "durations_ok c"
  shows "elems_size (connection_elems c) \<le> VICI_MAX_SEGMENT_LENGTH"
proof -
  from v obtain n ch l r where n: "cc_pcName c = Some n" and ch: "cc_pcChildName c = Some ch"
    and l: "cc_pcLocalId c = Some l" and r: "cc_pcRemoteId c = Some r"
    and len: "length (cstr n) < 64" "length (cstr ch) < 64" "length (cstr l) < 128" "length (cstr r) < 128"
    by (auto simp: config_valid_def strlen_def)
  note lists = config_lists [OF v]
  note sizes = list_size [OF lists(1), of "''local_addrs''"] list_size [OF lists(2), of "''remote_addrs''"]
    list_size [OF lists(3), of "''proposals''"] list_size [OF lists(4), of "''esp_proposals''"]
    list_size [OF lists(5), of "''local_ts''"] list_size [OF lists(6), of "''remote_ts''"]
  note times = config_times [OF d]
  note durations = duration_size [OF u32_duration, of "''dpd_delay''" "cc_uiDpdDelayMs c"]
    duration_size [OF u32_duration, of "''dpd_timeout''" "cc_uiDpdTimeoutMs c"]
    duration_size [OF times(1), of "''rekey_time''"] duration_size [OF times(2), of "''reauth_time''"]
    duration_size [OF times(3), of "''rekey_time''"] duration_size [OF times(4), of "''life_time''"]
  have literals: "length (elem_bytes (SectionStart m)) = 2 + length m" "length (elem_bytes SectionEnd) = 1"
    "length (elem_bytes (KeyValue (lit k) m)) = 4 + length k + length m" for m k
    by (simp_all add: elem_bytes_def name_parts_def value_parts_def)
  have flags: "length (if b then s else t) \<le> max (length s) (length t)" for b and s t :: string by simp
  show ?thesis
    using sizes durations len
    by (simp add: connection_elems_def n ch l r literals pair_size)
qed

section \<open>The message is always defined\<close>

definition writer_total :: "(ViciBuffer \<Rightarrow> buffer_result) \<Rightarrow> bool" where
  "writer_total w \<longleftrightarrow> (\<forall>b. buf_wf b \<longrightarrow> (\<exists>e b'. w b = Some (e, b') \<and> buf_wf b'))"

lemma emit_wf: "buf_wf b \<Longrightarrow> \<exists>e b'. vici_emit heap b xs = Some (e, b') \<and> buf_wf b'"
  using vb.emit_law [of b heap xs] by blast

lemma name_wf: "buf_wf b \<Longrightarrow> \<exists>e b'. AppendViciName heap b (Some n) = Some (e, b') \<and> buf_wf b'"
  using vb.emit_all_inv [of b heap] by (simp add: AppendViciName_emits)

lemma byte_wf: "buf_wf b \<Longrightarrow> \<exists>e b'. AppendViciByte heap b v = Some (e, b') \<and> buf_wf b'"
  unfolding AppendViciByte_emit by (rule emit_wf)

lemma half_wf: "buf_wf b \<Longrightarrow> \<exists>e b'. AppendViciBuffer heap b (Some (be16 n)) 2 = Some (e, b') \<and> buf_wf b'"
  unfolding be16_emit by (rule emit_wf)

lemma add_element_wf: "buf_wf b \<Longrightarrow> \<exists>e b'. add_element heap b el = Some (e, b') \<and> buf_wf b'"
  by (cases el) (auto simp: writer_defs intro!: then_ok_inv emit_wf byte_wf half_wf name_wf)

lemma add_elements_wf: "buf_wf b \<Longrightarrow> \<exists>e b'. add_elements heap b els = Some (e, b') \<and> buf_wf b'"
proof (induction els arbitrary: b)
  case (Cons el els)
  show ?case by (simp, rule then_ok_inv [OF add_element_wf [OF Cons.prems] Cons.IH])
qed simp

lemma writes_total: "writes heap w els \<Longrightarrow> writer_total w"
  using add_elements_wf by (simp add: writes_def writer_total_def)

lemma duration_total: "writer_total (\<lambda>b. AddConnectionDuration heap b (lit k) ms)"
proof (cases "ms \<le> UINT64_MAX - 999")
  case True
  then show ?thesis by (rule writes_total [OF writes_duration])
next
  case False
  then show ?thesis by (simp add: writer_total_def AddConnectionDuration_def)
qed

lemma run_writers_total: "list_all writer_total ws \<Longrightarrow> writer_total (run_writers ws)"
proof (induction ws)
  case (Cons w ws)
  then have "writer_total w" "writer_total (run_writers ws)" by simp_all
  then show ?case unfolding writer_total_def by (metis (no_types, lifting) run_writers.simps(2) then_ok_inv)
qed (simp add: writer_total_def)

lemma connection_writers_total:
  assumes v: "config_valid c"
  shows "writer_total (run_writers (connection_writers heap c))"
proof (rule run_writers_total)
  from v obtain n ch l r where n: "cc_pcName c = Some n" and ch: "cc_pcChildName c = Some ch"
    and l: "cc_pcLocalId c = Some l" and r: "cc_pcRemoteId c = Some r"
    and len: "strlen l \<le> UINT16_MAX" "strlen r \<le> UINT16_MAX"
    by (auto simp: config_valid_def)
  have named: "writer_total (\<lambda>b. AddViciSectionStart heap b (Some m))" for m
    by (rule writes_total [OF writes_section [OF refl]])
  have pair: "writer_total (\<lambda>b. AddViciKeyValueString heap b (Some k) (Some t))" if "strlen t \<le> UINT16_MAX" for k t
    by (rule writes_total [OF writes_pair [OF refl that]])
  have small: "strlen (lit t) \<le> UINT16_MAX" if "length t \<le> UINT16_MAX" for t
    using that strlen_le [of "lit t"] by simp
  note lists = config_lists [OF v, THEN writes_list, THEN writes_total]
  show "list_all writer_total (connection_writers heap c)"
    by (simp add: connection_writer_defs Let_def n ch l r named pair small len lists writes_total [OF writes_end] duration_total)
qed

lemma run_writers_OK:
  "run_writers ws b = Some (IPSEC_OK, b') \<Longrightarrow> w \<in> set ws \<Longrightarrow> \<exists>b1 b2. w b1 = Some (IPSEC_OK, b2)"
proof (induction ws arbitrary: b)
  case (Cons w' ws)
  from Cons.prems(1) obtain b1 where "w' b = Some (IPSEC_OK, b1)" "run_writers ws b1 = Some (IPSEC_OK, b')"
    by (auto simp: then_ok_def split: option.splits if_splits)
  with Cons.IH Cons.prems(2) show ?case by auto
qed simp

lemma written_durations:
  assumes "run_writers (connection_writers heap c) b = Some (IPSEC_OK, b')"
  shows "durations_ok c"
proof -
  have time: "ms \<le> UINT64_MAX - 999" if "(\<lambda>b. AddConnectionDuration heap b (lit k) ms) \<in> set (connection_writers heap c)" for k ms
    using run_writers_OK [OF assms that] by (auto simp: AddConnectionDuration_def split: if_splits)
  have mem: "(\<lambda>b. AddConnectionDuration heap b (lit ''rekey_time'') (unat (cc_ullIkeRekeyTimeMs c))) \<in> set (connection_writers heap c)"
    "(\<lambda>b. AddConnectionDuration heap b (lit ''reauth_time'') (unat (cc_ullIkeLifetimeMs c))) \<in> set (connection_writers heap c)"
    "(\<lambda>b. AddConnectionDuration heap b (lit ''rekey_time'') (unat (cc_ullChildRekeyTimeMs c))) \<in> set (connection_writers heap c)"
    "(\<lambda>b. AddConnectionDuration heap b (lit ''life_time'') (unat (cc_ullChildLifetimeMs c))) \<in> set (connection_writers heap c)"
    by (simp_all add: connection_writer_defs Let_def)
  show ?thesis using mem [THEN time] by (simp add: durations_ok_def)
qed

lemma Initialize_any:
  assumes "n \<le> VICI_MAX_SEGMENT_LENGTH"
  shows "\<exists>e b0. InitializeViciBuffer heap b n s = Some (e, b0) \<and> buf_wf b0 \<and> buf_content b0 = [] \<and> (heap_total heap \<longrightarrow> e = IPSEC_OK)"
proof -
  let ?b = "empty_ViciBuffer\<lparr>bSensitive := s, released := released b\<rparr>"
  have wf: "buf_wf ?b" "buf_content ?b = []" by (simp_all add: buf_wf_def buf_content_def empty_ViciBuffer_def)
  have "heap_total heap \<Longrightarrow> \<exists>b0. ReserveViciBuffer heap ?b n = Some (IPSEC_OK, b0)"
    using Reserve_OK [OF wf(1)] assms by (simp add: empty_ViciBuffer_def)
  with Reserve_total [OF wf(1), of heap n] wf(2) assms show ?thesis
    by (auto simp: InitializeViciBuffer_def reserve_post_def)
qed

lemma connection_parts:
  assumes v: "config_valid c" and d: "durations_ok c"
  shows "run_writers (connection_writers heap c) b = emit_all (vici_emit heap) b (concat (map elem_parts (connection_elems c)))"
proof -
  have "\<forall>el \<in> set (connection_elems c). elem_ok el \<and> elem_c_name el"
    using elems_wf_ok [OF connection_balanced(1) [OF v d]] connection_c_names [of c] by (auto simp: list_all_iff)
  with connection_writes [OF v d] show ?thesis by (simp add: writes_def add_elements_parts)
qed

lemma connection_message:
  assumes v: "config_valid c" and b: "buf_wf b" "buf_content b = []"
    and run: "run_writers (connection_writers heap c) b = Some (IPSEC_OK, b')"
  shows "durations_ok c" "buf_content b' = encode_elems (connection_elems c)"
proof -
  show d: "durations_ok c" by (rule written_durations [OF run])
  from run show "buf_content b' = encode_elems (connection_elems c)"
    unfolding connection_parts [OF v d] using vb.emit_all_sound(4) [OF b(1)] b(2)
    by (simp add: concat_elem_parts encode_elems_def)
qed

lemma connection_message_fits:
  assumes v: "config_valid c" and d: "durations_ok c" and b: "buf_wf b" "buf_content b = []" and heap: "heap_total heap"
  shows "\<exists>b'. run_writers (connection_writers heap c) b = Some (IPSEC_OK, b')"
proof -
  have "length (concat (concat (map elem_parts (connection_elems c)))) \<le> VICI_MAX_SEGMENT_LENGTH"
    using connection_fits [OF v d] by (simp only: concat_elem_parts elems_size_def encode_elems_def)
  then show ?thesis
    unfolding connection_parts [OF v d] using b heap
    by (intro tb.emit_all_fits) (simp_all add: total_heap_inv_def)
qed

text \<open>
  C24. A validated configuration is always encoded as it should be. Building the message is defined for every
  allocator; it can fail only for lack of memory or because one of the four 64-bit times cannot be
  rounded up to seconds, since the bounds the validation puts on names, identities and lists keep the message within a
  segment; a failure leaves no buffer behind. The message that was built is exactly the encoding of the
  elements of the configuration, and a reader of the message sees exactly these elements, at their depths.
\<close>

theorem BuildConnectionMessage_exact:
  assumes "ValidateViciConnectionConfigInternal (Some c) = Some IPSEC_OK"
  shows "\<exists>e b'. BuildConnectionMessage heap c b = Some (e, b')
     \<and> (heap_total heap \<and> durations_ok c \<longrightarrow> e = IPSEC_OK) \<and> (e \<noteq> IPSEC_OK \<longrightarrow> pucData b' = None)
     \<and> (e = IPSEC_OK \<longrightarrow> durations_ok c \<and> buf_wf b' \<and> buf_content b' = encode_elems (connection_elems c)
          \<and> ParseViciMessage (pucData b') (of_nat (uiLength b')) cb s = Some (run_events cb (elem_events 0 (connection_elems c)) s))"
proof -
  note v = Validate_config_OK [OF assms]
  obtain e0 b0 where b0: "InitializeViciBuffer heap b 2048 False = Some (e0, b0)" "buf_wf b0" "buf_content b0 = []"
    "heap_total heap \<longrightarrow> e0 = IPSEC_OK"
    using Initialize_any [of 2048 heap b False] by auto
  obtain e b1 where b1: "then_ok (InitializeViciBuffer heap b 2048 False) (run_writers (connection_writers heap c)) = Some (e, b1)"
    "buf_wf b1"
    using connection_writers_total [OF v, of heap] b0(1,2) by (cases "e0 = IPSEC_OK") (auto simp: writer_total_def)
  have ok: "durations_ok c \<and> buf_content b1 = encode_elems (connection_elems c)" if e: "e = IPSEC_OK"
  proof -
    have "e0 = IPSEC_OK" using b1(1) b0(1) e by (cases "e0 = IPSEC_OK") auto
    then have "run_writers (connection_writers heap c) b0 = Some (IPSEC_OK, b1)" using b1(1) b0(1) e by simp
    from connection_message [OF v b0(2,3) this] show ?thesis by blast
  qed
  have total: "e = IPSEC_OK" if h: "heap_total heap" and d: "durations_ok c"
  proof -
    have "InitializeViciBuffer heap b 2048 False = Some (IPSEC_OK, b0)" using b0(1,4) h by simp
    moreover obtain b' where "run_writers (connection_writers heap c) b0 = Some (IPSEC_OK, b')"
      using connection_message_fits [OF v d b0(2,3) h] by blast
    ultimately show ?thesis using b1(1) by simp
  qed
  obtain b2 where b2: "DestroyViciBuffer b1 = Some b2" "pucData b2 = None"
    using Destroy_total [OF b1(2)] by (auto simp: DestroyViciBuffer_def empty_ViciBuffer_def split: option.splits if_splits)
  show ?thesis
  proof (cases "e = IPSEC_OK")
    case True
    with ok have parse: "ParseViciMessage (pucData b1) (of_nat (uiLength b1)) cb s = Some (run_events cb (elem_events 0 (connection_elems c)) s)"
      using connection_balanced [OF v] b1(2) by (intro written_parses) auto
    have "BuildConnectionMessage heap c b = Some (IPSEC_OK, b1)" using b1(1) True by (simp add: BuildConnectionMessage_def)
    with True ok parse b1(2) show ?thesis by blast
  next
    case False
    then have "BuildConnectionMessage heap c b = Some (e, b2)" using b1(1) b2 by (simp add: BuildConnectionMessage_def)
    with False total b2 show ?thesis by blast
  qed
qed

lemma sample_valid: "ValidateViciConnectionConfigInternal (Some sample_config) = Some IPSEC_OK"
proof -
  have list: "ValidateConnectionList (sample_list s) True = Some IPSEC_OK" if "0 < strlen (lit s)" "strlen (lit s) \<le> 1024" for s
    using that by (simp add: ValidateConnectionList_def sample_list_def list_item_def Let_def IPSEC_VICI_MAX_LIST_ITEMS_def
        IPSEC_VICI_MAX_INPUT_LENGTH_def strnlen_def)
  have "validate_head sample_config = IPSEC_OK" "ValidateConnectionName (cc_pcChildName sample_config) = IPSEC_OK"
    "validate_intent sample_config = Some IPSEC_OK"
    by (simp_all add: validate_head_def validate_intent_def ValidateConnectionName_def sample_config_def Let_def
        IPSEC_ID_LENGTH_def IPSEC_NAME_LENGTH_def strnlen_def strlen_def cstr_def lit_def)
  then show ?thesis
    by (simp add: ValidateViciConnectionConfigInternal_def and_then_def sample_config_def list strlen_def cstr_def lit_def)
qed

theorem BuildConnectionMessage_exact_witness:
  "\<exists>b'. BuildConnectionMessage (\<lambda>n. Some []) sample_config empty_ViciBuffer = Some (IPSEC_OK, b')
     \<and> buf_content b' = encode_elems (connection_elems sample_config) \<and> length (connection_elems sample_config) = 41"
proof -
  obtain e b' where b': "BuildConnectionMessage (\<lambda>n. Some []) sample_config empty_ViciBuffer = Some (e, b')"
    "heap_total (\<lambda>n. Some []) \<and> durations_ok sample_config \<longrightarrow> e = IPSEC_OK"
    "e = IPSEC_OK \<longrightarrow> buf_content b' = encode_elems (connection_elems sample_config)"
    using BuildConnectionMessage_exact [OF sample_valid, of "\<lambda>n. Some []" empty_ViciBuffer "None :: unit callback option" "()"] by blast
  have "durations_ok sample_config" "heap_total (\<lambda>n. Some [])"
    by (simp_all add: durations_ok_def sample_config_def heap_total_def)
  moreover have "length (connection_elems sample_config) = 41"
    by (simp add: connection_elems_def sample_config_def list_elems_def list_texts_def duration_elems_def sample_list_def Let_def)
  ultimately show ?thesis using b' by simp
qed

end
