(* ===== verification/Vici_Request.thy ===== *)
theory Vici_Request
  imports Vici_Collector Vici_Connection Core_Util
begin

text \<open>
  What the users of VICI commands share (\<open>src/ike/vici/vici_connection.c\<close>, \<open>vici_credential.c\<close>, \<open>vici_sa.c\<close>): the state
  between commands, one request from the building of its message to the destruction of its buffer, and
  the messages of a sensitive buffer.
\<close>

section \<open>Requests\<close>

text \<open>Between commands the transport has no deadline and no cancellation descriptor.\<close>

definition idle :: "command \<Rightarrow> bool" where
  "idle c \<longleftrightarrow> path_ok c \<and> ullCommandDeadlineMs c = 0 \<and> iTransportCancelFd c = - 1"

lemma idle_script [simp]: "idle (c\<lparr>script := os\<rparr>) = idle c"
  by (simp add: idle_def)

lemma idle_freed [simp]: "idle (c\<lparr>freed := xs\<rparr>) = idle c"
  by (simp add: idle_def)

lemma Execute_idle:
  assumes "idle c" and "message_wf req" and "callback_keeps W P ecb" and "callback_keeps W P rcb" and "W u" and "P u"
  shows "runs (\<lambda>(e, res, u', c'). idle c' \<and> W u' \<and> (e = IPSEC_OK \<longrightarrow> P u') \<and> (request_sensitive req \<longrightarrow> discreet name c e res c'))
    (ExecuteViciCommandUntil mem cmd req name ecb rcb u dl fd c)"
proof -
  have c: "path_ok c" "ullCommandDeadlineMs c = 0" "iTransportCancelFd c = - 1" using assms(1) by (simp_all add: idle_def)
  let ?r = "ExecuteViciCommandUntil mem cmd req name ecb rcb u dl fd c"
  have "idle c' \<and> W u' \<and> (e = IPSEC_OK \<longrightarrow> P u') \<and> (request_sensitive req \<longrightarrow> discreet name c e res c')"
    if "?r = Ret (e, res, u', c')" for e res u' c'
    using Execute_releases [OF c assms(2-6) that] Execute_user [OF c(1) assms(2-6) that]
      sensitive_run [OF c(1) assms(2-6) _ that] by (auto simp: idle_def)
  with Execute_no_fault [OF c(1) assms(2-6)] show ?thesis
    by (auto simp: runs_def)
qed

text \<open>What a request with a secret leaves behind: the library's own texts and blank blocks only.\<close>

definition hushed :: "command \<Rightarrow> IpsecError \<Rightarrow> command \<Rightarrow> bool" where
  "hushed c e c' \<longleftrightarrow> (e \<noteq> IPSEC_OK \<longrightarrow> Last c' = Last c \<or> cstr (dg_acMessage (Last c')) = lit (GetIpsecErrorString e))
     \<and> (\<exists>new. logged c' = new @ logged c \<and> (\<forall>(_, m) \<in> set new. cstr m = lit (GetIpsecErrorString IPSEC_ERR_VICI_COMMAND)))
     \<and> (\<exists>blocks. freed c' = blocks @ freed c \<and> blank blocks)"

lemma hushed_refl [simp]: "hushed c e c"
  by (simp add: hushed_def)

lemma discreet_hushed: "discreet None c e res c' \<Longrightarrow> hushed c e c'"
  by (auto simp: discreet_def hushed_def blank_def)

lemma hushed_freed: "hushed c e c' \<Longrightarrow> blank xs \<Longrightarrow> hushed c e (c'\<lparr>freed := xs @ freed c'\<rparr>)"
  by (auto simp: hushed_def)

text \<open>One request: sent when its message could be built, and its buffer destroyed in any case.\<close>

lemma request_runs:
  assumes c: "idle c" and b: "held s b"
  shows "runs (\<lambda>(e, c'). idle c' \<and> (s \<longrightarrow> hushed c e c'))
    (exec_bind (if e0 = IPSEC_OK
        then exec_bind (ExecuteViciCommand mem cmd (Some b) None None None () c) (\<lambda>(e, _, _, c). Ret (e, c))
        else Ret (e0, c)) (\<lambda>(e, c). exec_bind (destroy_local b c) (\<lambda>c. Ret (e, c))))"
proof -
  have wf: "message_wf (Some b)" "request_sensitive (Some b) = s"
    using b by (simp_all add: message_wf_def held_def request_sensitive_def)
  have run: "runs (\<lambda>(e, res, u, c'). idle c' \<and> (s \<longrightarrow> discreet None c e res c')) (ExecuteViciCommand mem cmd (Some b) None None None () c)"
    using Execute_idle [where W = "\<lambda>_. True" and P = "\<lambda>_. True" and u = "()", OF c wf(1) no_callback_keeps no_callback_keeps] wf(2)
    by (simp add: ExecuteViciCommand_def)
  have sent: "runs (\<lambda>(e, c'). idle c' \<and> (s \<longrightarrow> hushed c e c'))
      (if e0 = IPSEC_OK then exec_bind (ExecuteViciCommand mem cmd (Some b) None None None () c) (\<lambda>(e, _, _, c). Ret (e, c))
       else Ret (e0, c))"
    using c by (auto intro!: runs_bind [OF run] intro: discreet_hushed)
  show ?thesis
  proof (rule runs_bind [OF sent], clarify)
    fix e c1
    assume c1: "idle c1" "s \<longrightarrow> hushed c e c1"
    obtain d where "DestroyViciBuffer b = Some d" "s \<longrightarrow> blank (released d)"
      using Destroy_releasable [OF held_releasable [OF b]] by blast
    with c1 show "runs (\<lambda>(e, c'). idle c' \<and> (s \<longrightarrow> hushed c e c')) (exec_bind (destroy_local b c1) (\<lambda>c. Ret (e, c)))"
      by (auto simp: destroy_local_def intro: hushed_freed)
  qed
qed

section \<open>Messages\<close>

lemma Initialize_held_any:
  assumes "n \<le> VICI_MAX_SEGMENT_LENGTH"
  shows "\<exists>e b. InitializeViciBuffer heap empty_ViciBuffer n s = Some (e, b) \<and> held s b"
proof -
  let ?b = "empty_ViciBuffer\<lparr>bSensitive := s, released := released empty_ViciBuffer\<rparr>"
  have "buf_wf ?b" "bSensitive ?b = s" "blank (released ?b)"
    by (simp_all add: buf_wf_def empty_ViciBuffer_def)
  with Reserve_total [of ?b heap n] assms show ?thesis
    by (auto simp: InitializeViciBuffer_def reserve_post_def held_def secret_safe_def)
qed

lemma emit_held: "held s b \<Longrightarrow> \<exists>e b'. vici_emit heap b xs = Some (e, b') \<and> held s b'"
  using hb.emit_law [of s b heap xs] by blast

lemma name_held: "held s b \<Longrightarrow> \<exists>e b'. AppendViciName heap b (Some n) = Some (e, b') \<and> held s b'"
  using hb.emit_all_inv [of s b heap] by (simp add: AppendViciName_emits)

lemma byte_held: "held s b \<Longrightarrow> \<exists>e b'. AppendViciByte heap b v = Some (e, b') \<and> held s b'"
  unfolding AppendViciByte_emit by (rule emit_held)

lemma half_held: "held s b \<Longrightarrow> \<exists>e b'. AppendViciBuffer heap b (Some (be16 n)) 2 = Some (e, b') \<and> held s b'"
  unfolding be16_emit by (rule emit_held)

lemma add_element_held: "held s b \<Longrightarrow> \<exists>e b'. add_element heap b el = Some (e, b') \<and> held s b'"
  by (cases el) (auto simp: writer_defs intro!: then_ok_inv emit_held byte_held half_held name_held)

lemma add_elements_held: "held s b \<Longrightarrow> \<exists>e b'. add_elements heap b els = Some (e, b') \<and> held s b'"
proof (induction els arbitrary: b)
  case (Cons el els)
  show ?case by (simp, rule then_ok_inv [OF add_element_held [OF Cons.prems] Cons.IH])
qed simp

lemma message_held:
  assumes "writes heap w els" and "n \<le> VICI_MAX_SEGMENT_LENGTH"
  shows "\<exists>e b. then_ok (InitializeViciBuffer heap empty_ViciBuffer n s) w = Some (e, b) \<and> held s b"
  using assms(1) by (intro then_ok_inv [OF Initialize_held_any [OF assms(2)]]) (simp add: writes_def add_elements_held)

lemma writes_Nothing: "writes heap (\<lambda>b. Some (IPSEC_OK, b)) []"
  by (simp add: writes_def)

lemma writes_data:
  assumes "n \<le> length d"
  shows "writes heap (\<lambda>b. AddViciKeyValue heap b (Some k) (Some d) n) [KeyValue k (take n d)]"
  using assms by (simp add: writes_def then_ok_OK_id AddViciKeyValue_def Append_take [OF assms])

lemma runs_lock: "(\<And>r os. runs Q (f (r, os))) \<Longrightarrow> runs Q (exec_bind (read_lock os0) f)"
  by (rule runs_call) auto

definition IPSEC_SELECTOR_LIST_LENGTH :: nat where "IPSEC_SELECTOR_LIST_LENGTH = 512"


section \<open>Text fields of collected structures\<close>

text \<open>The two ways text gets into a field: the array afterwards and the error.\<close>

definition value_length :: "bytes option \<Rightarrow> nat" where
  "value_length v = (case v of None \<Rightarrow> 0 | Some x \<Rightarrow> length x)"

definition copy_field :: "nat \<Rightarrow> bytes option \<Rightarrow> bytes \<Rightarrow> (IpsecError \<times> bytes) option" where
  "copy_field n v dst = CopyIpsecString (Some dst) n v (value_length v) \<bind> (\<lambda>(e, d). d \<bind> (\<lambda>d. Some (e, d)))"

definition append_sep :: "nat \<Rightarrow> bytes \<Rightarrow> bytes option \<Rightarrow> bytes \<Rightarrow> (IpsecError \<times> bytes) option" where
  "append_sep n sep v dst = AppendIpsecText (Some dst) n v (value_length v) (Some sep)
     \<bind> (\<lambda>(e, d). d \<bind> (\<lambda>d. Some (e, d)))"

definition text_ok :: "nat \<Rightarrow> bytes \<Rightarrow> bool" where
  "text_ok n t \<longleftrightarrow> length t = n \<and> strlen t < n"

lemma cstr_append: "0 \<notin> set a \<Longrightarrow> cstr (a @ b) = a @ cstr b"
  unfolding cstr_def by (rule takeWhile_append2) auto

lemma copy_field_ok:
  assumes "length dst = n" and "0 < n"
  shows "\<exists>e t. copy_field n (Some v) dst = Some (e, t) \<and> text_ok n t \<and> (e = IPSEC_OK \<longrightarrow> cstr t = cstr v)"
proof -
  obtain e t where "CopyIpsecString (Some dst) n (Some v) (length v) = Some (e, Some t)" "length t = length dst"
    "if length v < n then e = IPSEC_OK \<and> cstr t = cstr (take (length v) v) \<and> strlen t \<le> length v
     else e = IPSEC_ERR_BUFFER_TOO_SMALL \<and> cstr t = []"
    using CopyIpsecString_spec [of n dst "length v" v] assms by auto
  with assms show ?thesis
    by (auto simp: copy_field_def value_length_def text_ok_def strlen_def split: if_splits)
qed

lemma append_sep_ok:
  assumes "text_ok n dst"
  shows "\<exists>e t. append_sep n sep (Some v) dst = Some (e, t) \<and> text_ok n t
     \<and> (e = IPSEC_OK \<longrightarrow> cstr t = (if cstr dst = [] then cstr v else cstr dst @ cstr sep @ cstr v))"
proof -
  let ?sp = "if strlen dst = 0 then [] else cstr sep"
  have dst: "strlen dst < n" "n \<le> length dst" using assms by (simp_all add: text_ok_def)
  obtain e t where t: "AppendIpsecText (Some dst) n (Some v) (length v) (Some sep) = Some (e, Some t)"
      "length t = length dst" "strlen t < n"
    using Append_text_safe [OF dst order_refl] by blast
  have "cstr t = (if cstr dst = [] then cstr v else cstr dst @ cstr sep @ cstr v)" if "e = IPSEC_OK"
  proof (cases "strlen dst + length ?sp + length v < n")
    case True
    then have "t = cstr dst @ ?sp @ v @ 0 # drop (strlen dst + length ?sp + length v + 1) dst"
      using Append_text_fits [OF dst order_refl refl True] t(1) by simp
    then show ?thesis by (auto simp: strlen_def cstr_append cstr_terminated)
  next
    case False
    then show ?thesis using Append_text_full [OF dst(1) order_refl refl False] t(1) that by simp
  qed
  with t assms show ?thesis
    by (auto simp: append_sep_def value_length_def text_ok_def)
qed

lemma zero_text_ok: "0 < n \<Longrightarrow> text_ok n (replicate n 0)" "cstr (replicate n 0) = []"
  by (cases n; simp add: text_ok_def strlen_def cstr_def)+

lemma cleared_text:
  assumes "text_ok n x"
  obtains t where "write_at x 0 [0] = Some t" "text_ok n t" "cstr t = []"
proof (cases x)
  case Nil
  with assms show thesis by (auto simp: text_ok_def)
next
  case (Cons b r)
  then have "write_at x 0 [0] = Some (0 # r)" by (simp add: write_at_def)
  then show thesis using that assms Cons by (simp add: text_ok_def strlen_def cstr_def)
qed

text \<open>The names of the open sections.\<close>

lemma texts_update: "list_all (text_ok n) xs \<Longrightarrow> text_ok n t \<Longrightarrow> list_all (text_ok n) (xs[d := t])"
  using set_update_subset_insert [of xs d t] by (auto simp: list_all_iff)

lemma copy_into_texts:
  assumes "list_all (text_ok n) xs" and "d < length xs"
  shows "\<exists>e t. copy_field n (Some v) (xs ! d) = Some (e, t) \<and> list_all (text_ok n) (xs[d := t]) \<and> (e = IPSEC_OK \<longrightarrow> cstr t = cstr v)"
proof -
  have "text_ok n (xs ! d)" using assms by (simp add: list_all_length)
  then have "length (xs ! d) = n" "0 < n" by (auto simp: text_ok_def)
  from copy_field_ok [OF this, of v] texts_update [OF assms(1)] show ?thesis by blast
qed

text \<open>A change of the last element of a list.\<close>

definition on_last :: "('a \<Rightarrow> 'a) \<Rightarrow> 'a list \<Rightarrow> 'a list" where
  "on_last g xs = (if xs = [] then [] else butlast xs @ [g (last xs)])"

lemma on_last_ident: "on_last (\<lambda>c. c) cs = cs"
  by (simp add: on_last_def)

lemma on_last_empty [simp]: "on_last g [] = []"
  by (simp add: on_last_def)

definition seconds_ms :: "bytes \<Rightarrow> nat" where
  "seconds_ms v = fst (strtoull (cstr v) 10) * 1000"

lemma Uint64_text:
  "\<exists>e x. ParseIpsecUint64 (Some v) (length v) (Some old) 10 = Some (e, Some x)
     \<and> (if e = IPSEC_OK then x = fst (strtoull (cstr v) 10) else x = old)"
  by (cases "strtoull (cstr v) 10", cases "v = [] \<or> 64 \<le> length v")
     (auto simp: ParseIpsecUint64_def ParseIpsecUnsigned_def rd_bytes_def Let_def)

end
