(* ===== verification/Vici_Connection_List.thy ===== *)
theory Vici_Connection_List
  imports Vici_Request
begin

text \<open>
  The list of connections the daemon knows and the commands that load and unload one (second half of
  \<open>src/ike/vici/vici_connection.c\<close>, and \<open>GetIpsecLastDiagnostic\<close> of \<open>src/core/context.c\<close>). The daemon answers \<open>list-conns\<close>
  with one event per connection; a callback collects the fields of the public structure from the elements of
  each event. The list is the array of the C structure; the array grows by \<open>realloc\<close>, which the allocator
  \<open>alloc\<close> may refuse by size.
\<close>

section \<open>Collecting\<close>

record IpsecConnectionInfo =
  ci_acName :: bytes
  ci_acLocalAddresses :: bytes
  ci_acRemoteAddresses :: bytes
  ci_acLocalId :: bytes
  ci_acRemoteId :: bytes
  ci_acChildNames :: bytes
  ci_ullRekeyTimeMs :: nat
  ci_ullReauthTimeMs :: nat

lemmas length_defs = IPSEC_NAME_LENGTH_def IPSEC_ID_LENGTH_def IPSEC_SELECTOR_LIST_LENGTH_def

definition zero_info :: IpsecConnectionInfo where
  "zero_info = \<lparr>ci_acName = replicate IPSEC_NAME_LENGTH 0, ci_acLocalAddresses = replicate IPSEC_SELECTOR_LIST_LENGTH 0,
     ci_acRemoteAddresses = replicate IPSEC_SELECTOR_LIST_LENGTH 0, ci_acLocalId = replicate IPSEC_ID_LENGTH 0,
     ci_acRemoteId = replicate IPSEC_ID_LENGTH 0, ci_acChildNames = replicate IPSEC_SELECTOR_LIST_LENGTH 0,
     ci_ullRekeyTimeMs = 0, ci_ullReauthTimeMs = 0\<rparr>"

text \<open>The size of the structure on the LP64 targets.\<close>

definition connection_info_size :: nat where "connection_info_size = 1872"

text \<open>\<open>pCurrent\<close> is NULL or points to an element of the array; it is kept as the index.\<close>

record ConnectionCollector =
  co_pList :: "IpsecConnectionInfo list"
  co_pCurrent :: "nat option"
  co_aacSections :: "bytes list"
  co_acListName :: bytes

definition empty_collector :: ConnectionCollector where
  "empty_collector = \<lparr>co_pList = [], co_pCurrent = None,
     co_aacSections = replicate VICI_MAX_SECTION_DEPTH (replicate IPSEC_NAME_LENGTH 0),
     co_acListName = replicate IPSEC_NAME_LENGTH 0\<rparr>"

definition MatchConnectionText :: "bytes option \<Rightarrow> bytes \<Rightarrow> bool" where
  "MatchConnectionText pucText pcExpected = (case pucText of None \<Rightarrow> False
     | Some t \<Rightarrow> length pcExpected = length t \<and> t = pcExpected)"

text \<open>\<open>strncmp\<close> of the section with the name, and the character after it.\<close>

definition MatchConnectionAuthSection :: "bytes \<Rightarrow> bytes \<Rightarrow> bool" where
  "MatchConnectionAuthSection pcSection pcExpected =
     (let t = cstr pcSection; n = length pcExpected
      in take n t = pcExpected \<and> (length t = n \<or> t ! n = 45))"

definition AppendConnectionInfo :: "heap \<Rightarrow> ConnectionCollector \<Rightarrow> IpsecError \<times> ConnectionCollector" where
  "AppendConnectionInfo alloc co =
     (let uiCount = length (co_pList co)
      in if uiCount = UINT32_MAX then (IPSEC_ERR_NO_MEMORY, co)
         else case CalculateIpsecArraySize (of_nat (uiCount + 1)) connection_info_size (Some 0) of
           (True, Some zAllocationSize) \<Rightarrow>
             (if alloc zAllocationSize = None then (IPSEC_ERR_NO_MEMORY, co)
              else (IPSEC_OK, co\<lparr>co_pList := co_pList co @ [zero_info], co_pCurrent := Some uiCount\<rparr>))
         | _ \<Rightarrow> (IPSEC_ERR_NO_MEMORY, co))"

definition append_field :: "bytes option \<Rightarrow> bytes \<Rightarrow> (IpsecError \<times> bytes) option" where
  "append_field = append_sep IPSEC_SELECTOR_LIST_LENGTH (lit '','')"

definition ParseConnectionSeconds :: "bytes option \<Rightarrow> nat \<Rightarrow> (IpsecError \<times> nat) option" where
  "ParseConnectionSeconds pucValue ullMilliseconds =
     ParseIpsecUint64 pucValue (value_length pucValue) (Some 0) 10 \<bind> (\<lambda>(eError, ullSeconds).
       if eError = IPSEC_OK \<and> UINT64_MAX div 1000 < the ullSeconds then Some (IPSEC_ERR_VICI_PROTOCOL, ullMilliseconds)
       else if eError = IPSEC_OK then Some (eError, the ullSeconds * 1000 mod 2 ^ 64)
       else Some (eError, ullMilliseconds))"

text \<open>A change of one field of the current connection.\<close>

definition on_current ::
  "ConnectionCollector \<Rightarrow> nat \<Rightarrow> ('f \<Rightarrow> (IpsecError \<times> 'f) option) \<Rightarrow> (IpsecConnectionInfo \<Rightarrow> 'f)
     \<Rightarrow> ('f \<Rightarrow> IpsecConnectionInfo \<Rightarrow> IpsecConnectionInfo) \<Rightarrow> (IpsecError \<times> ConnectionCollector) option" where
  "on_current co i change get put =
     (if i < length (co_pList co)
      then change (get (co_pList co ! i)) \<bind> (\<lambda>(e, f). Some (e, co\<lparr>co_pList := (co_pList co)[i := put f (co_pList co ! i)]\<rparr>))
      else None)"

text \<open>\<open>CollectConnectionElement\<close>, by the type of the element.\<close>

definition collect_section_start ::
  "heap \<Rightarrow> ViciElement \<Rightarrow> ConnectionCollector \<Rightarrow> (IpsecError \<times> ConnectionCollector) option" where
  "collect_section_start alloc el co =
     (let uiIndex = el_uiDepth el - 1
      in if el_uiDepth el = 0 \<or> length (co_aacSections co) \<le> uiIndex then None
         else copy_field IPSEC_NAME_LENGTH (el_pucName el) (co_aacSections co ! uiIndex) \<bind> (\<lambda>(eError, t).
           let co = co\<lparr>co_aacSections := (co_aacSections co)[uiIndex := t]\<rparr>
           in if eError = IPSEC_OK \<and> el_uiDepth el = 1
              then (case AppendConnectionInfo alloc co of (eError, co) \<Rightarrow>
                if eError = IPSEC_OK
                then co_pCurrent co \<bind> (\<lambda>i. on_current co i (copy_field IPSEC_NAME_LENGTH (el_pucName el)) ci_acName (\<lambda>t n. n\<lparr>ci_acName := t\<rparr>))
                else Some (eError, co))
              else if eError = IPSEC_OK \<and> el_uiDepth el = 3 \<and> cstr (co_aacSections co ! 1) = lit ''children''
              then (case co_pCurrent co of None \<Rightarrow> Some (eError, co)
                | Some i \<Rightarrow> on_current co i (append_field (el_pucName el)) ci_acChildNames (\<lambda>t n. n\<lparr>ci_acChildNames := t\<rparr>))
              else Some (eError, co)))"

definition collect_section_end :: "ViciElement \<Rightarrow> ConnectionCollector \<Rightarrow> (IpsecError \<times> ConnectionCollector) option" where
  "collect_section_end el co =
     (if 0 < el_uiDepth el \<and> el_uiDepth el \<le> VICI_MAX_SECTION_DEPTH
      then if el_uiDepth el - 1 < length (co_aacSections co)
           then write_at (co_aacSections co ! (el_uiDepth el - 1)) 0 [0] \<bind> (\<lambda>t.
                  Some (IPSEC_OK, co\<lparr>co_aacSections := (co_aacSections co)[el_uiDepth el - 1 := t]\<rparr>))
           else None
      else Some (IPSEC_ERR_VICI_PROTOCOL, co))"

definition collect_list_item :: "ViciElement \<Rightarrow> ConnectionCollector \<Rightarrow> nat \<Rightarrow> (IpsecError \<times> ConnectionCollector) option" where
  "collect_list_item el co i =
     (if cstr (co_acListName co) = lit ''local_addrs''
      then on_current co i (append_field (el_pucValue el)) ci_acLocalAddresses (\<lambda>t n. n\<lparr>ci_acLocalAddresses := t\<rparr>)
      else if cstr (co_acListName co) = lit ''remote_addrs''
      then on_current co i (append_field (el_pucValue el)) ci_acRemoteAddresses (\<lambda>t n. n\<lparr>ci_acRemoteAddresses := t\<rparr>)
      else Some (IPSEC_OK, co))"

definition collect_key_value :: "ViciElement \<Rightarrow> ConnectionCollector \<Rightarrow> nat \<Rightarrow> (IpsecError \<times> ConnectionCollector) option" where
  "collect_key_value el co i =
     (if el_uiDepth el = 1 \<and> MatchConnectionText (el_pucName el) (lit ''rekey_time'')
      then on_current co i (ParseConnectionSeconds (el_pucValue el)) ci_ullRekeyTimeMs (\<lambda>t n. n\<lparr>ci_ullRekeyTimeMs := t\<rparr>)
      else if el_uiDepth el = 1 \<and> MatchConnectionText (el_pucName el) (lit ''reauth_time'')
      then on_current co i (ParseConnectionSeconds (el_pucValue el)) ci_ullReauthTimeMs (\<lambda>t n. n\<lparr>ci_ullReauthTimeMs := t\<rparr>)
      else if el_uiDepth el = 2 \<and> MatchConnectionText (el_pucName el) (lit ''id'') \<and> MatchConnectionAuthSection (co_aacSections co ! 1) (lit ''local'')
      then on_current co i (copy_field IPSEC_ID_LENGTH (el_pucValue el)) ci_acLocalId (\<lambda>t n. n\<lparr>ci_acLocalId := t\<rparr>)
      else if el_uiDepth el = 2 \<and> MatchConnectionText (el_pucName el) (lit ''id'') \<and> MatchConnectionAuthSection (co_aacSections co ! 1) (lit ''remote'')
      then on_current co i (copy_field IPSEC_ID_LENGTH (el_pucValue el)) ci_acRemoteId (\<lambda>t n. n\<lparr>ci_acRemoteId := t\<rparr>)
      else Some (IPSEC_OK, co))"

definition CollectConnectionElement ::
  "heap \<Rightarrow> ViciElement \<Rightarrow> ConnectionCollector \<Rightarrow> (IpsecError \<times> ConnectionCollector) option" where
  "CollectConnectionElement alloc el co = (case el_eType el of
       SECTION_START \<Rightarrow> collect_section_start alloc el co
     | SECTION_END \<Rightarrow> collect_section_end el co
     | LIST_START \<Rightarrow> copy_field IPSEC_NAME_LENGTH (el_pucName el) (co_acListName co) \<bind> (\<lambda>(e, t). Some (e, co\<lparr>co_acListName := t\<rparr>))
     | LIST_END \<Rightarrow> write_at (co_acListName co) 0 [0] \<bind> (\<lambda>t. Some (IPSEC_OK, co\<lparr>co_acListName := t\<rparr>))
     | LIST_ITEM \<Rightarrow> (case co_pCurrent co of None \<Rightarrow> Some (IPSEC_OK, co)
         | Some i \<Rightarrow> if el_uiDepth el = 1 then collect_list_item el co i else Some (IPSEC_OK, co))
     | KEY_VALUE \<Rightarrow> (case co_pCurrent co of None \<Rightarrow> Some (IPSEC_OK, co) | Some i \<Rightarrow> collect_key_value el co i))"

definition CollectConnectionEvent :: "heap \<Rightarrow> ConnectionCollector message_callback" where
  "CollectConnectionEvent alloc = collect_message (CollectConnectionElement alloc)"

section \<open>Commands\<close>

definition LoadViciConnectionInternal ::
  "memory \<Rightarrow> IpsecConnectionConfig option \<Rightarrow> command \<Rightarrow> (IpsecError \<times> command) exec" where
  "LoadViciConnectionInternal mem pConfig c =
     exec_bind (lift_option (ValidateViciConnectionConfigInternal pConfig)) (\<lambda>eError.
       if eError \<noteq> IPSEC_OK then Ret (eError, c)
       else exec_bind (lift_option (pConfig \<bind> (\<lambda>cfg. BuildConnectionMessage (heap_now mem c) cfg empty_ViciBuffer))) (\<lambda>(eError, Message).
         exec_bind (if eError = IPSEC_OK
             then exec_bind (ExecuteViciCommand mem (lit ''load-conn'') (Some Message) None None None () c) (\<lambda>(e, _, _, c). Ret (e, c))
             else Ret (eError, c)) (\<lambda>(eError, c).
           exec_bind (destroy_local Message c) (\<lambda>c. Ret (eError, c)))))"

text \<open>The connections, or an empty list with the error.\<close>

definition GetIpsecConnections :: "memory \<Rightarrow> heap \<Rightarrow> command \<Rightarrow> (IpsecError \<times> IpsecConnectionInfo list \<times> command) exec" where
  "GetIpsecConnections mem alloc c =
     exec_bind (lift_option (InitializeViciBuffer (heap_now mem c) empty_ViciBuffer 1 False)) (\<lambda>(eError, Request).
       exec_bind (if eError = IPSEC_OK
           then exec_bind (ExecuteViciCommand mem (lit ''list-conns'') (Some Request) (Some (lit ''list-conn''))
                  (Some (CollectConnectionEvent alloc)) None empty_collector c) (\<lambda>(e, _, co, c). Ret (e, co_pList co, c))
           else Ret (eError, [], c)) (\<lambda>(eError, List, c).
         exec_bind (destroy_local Request c) (\<lambda>c. Ret (eError, if eError \<noteq> IPSEC_OK then [] else List, c))))"

definition GetIpsecLastDiagnostic :: "command \<Rightarrow> (IpsecError \<times> IpsecDiagnostic \<times> command) exec" where
  "GetIpsecLastDiagnostic c = exec_bind (read_lock (script c)) (\<lambda>(r, os).
     if r \<noteq> 0 then Ret (IPSEC_ERR_INTERNAL, Last c, c\<lparr>script := os\<rparr>) else Ret (IPSEC_OK, Last c, c\<lparr>script := os\<rparr>))"

text \<open>After the daemon refused to unload: is the connection there at all?\<close>

definition confirm_unload :: "memory \<Rightarrow> heap \<Rightarrow> bytes \<Rightarrow> command \<Rightarrow> (IpsecError \<times> command) exec" where
  "confirm_unload mem alloc pcName c =
     exec_bind (GetIpsecLastDiagnostic c) (\<lambda>(eSaved, UnloadDiagnostic, c).
     exec_bind (GetIpsecConnections mem alloc c) (\<lambda>(eQuery, List, c).
       if eQuery = IPSEC_OK \<and> \<not> list_ex (\<lambda>n. cstr pcName = cstr (ci_acName n)) List then Ret (IPSEC_OK, c)
       else if eQuery \<noteq> IPSEC_OK then Ret (eQuery, c)
       else if eSaved = IPSEC_OK
       then exec_bind (read_lock (script c)) (\<lambda>(r, os).
              Ret (IPSEC_ERR_VICI_COMMAND, if r = 0 then c\<lparr>script := os, Last := UnloadDiagnostic\<rparr> else c\<lparr>script := os\<rparr>))
       else Ret (IPSEC_ERR_VICI_COMMAND, c)))"

definition UnloadViciConnectionInternal ::
  "memory \<Rightarrow> heap \<Rightarrow> bytes option \<Rightarrow> command \<Rightarrow> (IpsecError \<times> command) exec" where
  "UnloadViciConnectionInternal mem alloc pcName c =
     (let eError = ValidateConnectionName pcName
      in if eError \<noteq> IPSEC_OK then Ret (eError, c)
         else exec_bind (lift_option (then_ok (InitializeViciBuffer (heap_now mem c) empty_ViciBuffer 64 False)
             (\<lambda>b. AddViciKeyValueString (heap_now mem c) b (Some (lit ''name'')) pcName))) (\<lambda>(eError, Message).
           exec_bind (if eError = IPSEC_OK
               then exec_bind (ExecuteViciCommand mem (lit ''unload-conn'') (Some Message) None None None () c) (\<lambda>(e, _, _, c).
                      if e = IPSEC_ERR_VICI_COMMAND
                      then exec_bind (lift_option pcName) (\<lambda>n. confirm_unload mem alloc n c)
                      else Ret (e, c))
               else Ret (eError, c)) (\<lambda>(eError, c).
             exec_bind (destroy_local Message c) (\<lambda>c. Ret (eError, c)))))"

section \<open>What the collector computes\<close>

text \<open>
  The reference: the same structure with texts for the arrays. The current connection is the last one.
\<close>

record connection_view =
  cv_name :: bytes
  cv_local_addrs :: bytes
  cv_remote_addrs :: bytes
  cv_local_id :: bytes
  cv_remote_id :: bytes
  cv_children :: bytes
  cv_rekey :: nat
  cv_reauth :: nat

definition info_view :: "IpsecConnectionInfo \<Rightarrow> connection_view" where
  "info_view n = \<lparr>cv_name = cstr (ci_acName n), cv_local_addrs = cstr (ci_acLocalAddresses n),
     cv_remote_addrs = cstr (ci_acRemoteAddresses n), cv_local_id = cstr (ci_acLocalId n), cv_remote_id = cstr (ci_acRemoteId n),
     cv_children = cstr (ci_acChildNames n), cv_rekey = ci_ullRekeyTimeMs n, cv_reauth = ci_ullReauthTimeMs n\<rparr>"

definition new_connection :: "bytes \<Rightarrow> connection_view" where
  "new_connection n = \<lparr>cv_name = cstr n, cv_local_addrs = [], cv_remote_addrs = [], cv_local_id = [], cv_remote_id = [],
     cv_children = [], cv_rekey = 0, cv_reauth = 0\<rparr>"

definition joined :: "bytes \<Rightarrow> bytes \<Rightarrow> bytes" where
  "joined v s = (if s = [] then cstr v else s @ lit '','' @ cstr v)"

text \<open>A key of the connection or of one of its authentication sections.\<close>

definition note_key :: "nat \<Rightarrow> bytes \<Rightarrow> bytes \<Rightarrow> bytes \<Rightarrow> connection_view \<Rightarrow> connection_view" where
  "note_key d auth n v c =
     (if d = 1 \<and> n = lit ''rekey_time'' then c\<lparr>cv_rekey := seconds_ms v\<rparr>
      else if d = 1 \<and> n = lit ''reauth_time'' then c\<lparr>cv_reauth := seconds_ms v\<rparr>
      else if d = 2 \<and> n = lit ''id'' \<and> MatchConnectionAuthSection auth (lit ''local'') then c\<lparr>cv_local_id := cstr v\<rparr>
      else if d = 2 \<and> n = lit ''id'' \<and> MatchConnectionAuthSection auth (lit ''remote'') then c\<lparr>cv_remote_id := cstr v\<rparr>
      else c)"

definition note_item :: "nat \<Rightarrow> bytes \<Rightarrow> bytes \<Rightarrow> connection_view \<Rightarrow> connection_view" where
  "note_item d l v c =
     (if d = 1 \<and> l = lit ''local_addrs'' then c\<lparr>cv_local_addrs := joined v (cv_local_addrs c)\<rparr>
      else if d = 1 \<and> l = lit ''remote_addrs'' then c\<lparr>cv_remote_addrs := joined v (cv_remote_addrs c)\<rparr>
      else c)"

text \<open>The connections so far, the names of the open sections and of the open list.\<close>

type_synonym collected = "connection_view list \<times> bytes list \<times> bytes"

fun note_element :: "ViciElement \<Rightarrow> collected \<Rightarrow> collected" where
  "note_element ev (cs, secs, l) =
     (let d = el_uiDepth ev; n = the (el_pucName ev); v = the (el_pucValue ev)
      in case el_eType ev of
           SECTION_START \<Rightarrow> (let secs = secs[d - 1 := cstr n]
             in (if d = 1 then cs @ [new_connection n]
                 else if d = 3 \<and> secs ! 1 = lit ''children'' then on_last (\<lambda>c. c\<lparr>cv_children := joined n (cv_children c)\<rparr>) cs
                 else cs, secs, l))
         | SECTION_END \<Rightarrow> (cs, secs[d - 1 := []], l)
         | KEY_VALUE \<Rightarrow> (on_last (note_key d (secs ! 1) n v) cs, secs, l)
         | LIST_START \<Rightarrow> (cs, secs, cstr n)
         | LIST_ITEM \<Rightarrow> (on_last (note_item d l v) cs, secs, l)
         | LIST_END \<Rightarrow> (cs, secs, []))"

definition info_ok :: "IpsecConnectionInfo \<Rightarrow> bool" where
  "info_ok n \<longleftrightarrow> text_ok IPSEC_NAME_LENGTH (ci_acName n) \<and> text_ok IPSEC_SELECTOR_LIST_LENGTH (ci_acLocalAddresses n)
     \<and> text_ok IPSEC_SELECTOR_LIST_LENGTH (ci_acRemoteAddresses n) \<and> text_ok IPSEC_ID_LENGTH (ci_acLocalId n)
     \<and> text_ok IPSEC_ID_LENGTH (ci_acRemoteId n) \<and> text_ok IPSEC_SELECTOR_LIST_LENGTH (ci_acChildNames n)
     \<and> ci_ullRekeyTimeMs n \<le> UINT64_MAX \<and> ci_ullReauthTimeMs n \<le> UINT64_MAX"

definition collector_ok :: "ConnectionCollector \<Rightarrow> bool" where
  "collector_ok co \<longleftrightarrow> length (co_aacSections co) = VICI_MAX_SECTION_DEPTH
     \<and> list_all (text_ok IPSEC_NAME_LENGTH) (co_aacSections co) \<and> text_ok IPSEC_NAME_LENGTH (co_acListName co)
     \<and> list_all info_ok (co_pList co)
     \<and> co_pCurrent co = (if co_pList co = [] then None else Some (length (co_pList co) - 1))"

definition collected_view :: "ConnectionCollector \<Rightarrow> collected" where
  "collected_view co = (map info_view (co_pList co), map cstr (co_aacSections co), cstr (co_acListName co))"

subsection \<open>Fields\<close>

lemma append_field_ok:
  assumes "text_ok IPSEC_SELECTOR_LIST_LENGTH dst"
  shows "\<exists>e t. append_field (Some v) dst = Some (e, t) \<and> text_ok IPSEC_SELECTOR_LIST_LENGTH t
     \<and> (e = IPSEC_OK \<longrightarrow> cstr t = joined v (cstr dst))"
proof -
  have "cstr (lit '','') = lit '',''" by (rule cstr_id) (simp add: lit_def)
  then show ?thesis
    using append_sep_ok [OF assms, of "lit '',''" v] by (simp only: append_field_def joined_def)
qed

lemma ParseConnectionSeconds_ok:
  assumes "ms \<le> UINT64_MAX"
  shows "\<exists>e t. ParseConnectionSeconds (Some v) ms = Some (e, t) \<and> t \<le> UINT64_MAX \<and> (e = IPSEC_OK \<longrightarrow> t = seconds_ms v)"
proof -
  have small: "x * 1000 < 2 ^ 64" if "\<not> UINT64_MAX div 1000 < x" for x
    using that by simp
  have "\<exists>e x. ParseIpsecUint64 (Some v) (length v) (Some 0) 10 = Some (e, Some x) \<and> (e = IPSEC_OK \<longrightarrow> x = fst (strtoull (cstr v) 10))"
    by (cases "strtoull (cstr v) 10", cases "v = [] \<or> 64 \<le> length v")
       (auto simp: ParseIpsecUint64_def ParseIpsecUnsigned_def rd_bytes_def Let_def)
  then obtain e x where "ParseIpsecUint64 (Some v) (length v) (Some 0) 10 = Some (e, Some x)"
    "e = IPSEC_OK \<longrightarrow> x = fst (strtoull (cstr v) 10)" by blast
  then show ?thesis
    using assms small [of x] by (auto simp: ParseConnectionSeconds_def value_length_def seconds_ms_def)
qed

lemma zero_info_ok: "info_ok zero_info"
  by (simp add: info_ok_def zero_info_def zero_text_ok length_defs)

lemma zero_info_view: "info_view zero_info = new_connection []"
  by (simp add: info_view_def zero_info_def zero_text_ok new_connection_def cstr_def)

subsection \<open>Steps\<close>

text \<open>What a handler promises: it returns, keeps the invariant, and on success makes the view \<open>v\<close>.\<close>

definition collects :: "(IpsecError \<times> ConnectionCollector) option \<Rightarrow> collected \<Rightarrow> bool" where
  "collects r v \<longleftrightarrow> (\<exists>e co. r = Some (e, co) \<and> collector_ok co \<and> (e = IPSEC_OK \<longrightarrow> collected_view co = v))"

lemma collects_same: "collector_ok co \<Longrightarrow> collected_view co = v \<Longrightarrow> collects (Some (e, co)) v"
  by (auto simp: collects_def)

definition change_ok ::
  "('f \<Rightarrow> (IpsecError \<times> 'f) option) \<Rightarrow> (IpsecConnectionInfo \<Rightarrow> 'f) \<Rightarrow> ('f \<Rightarrow> IpsecConnectionInfo \<Rightarrow> IpsecConnectionInfo)
     \<Rightarrow> (connection_view \<Rightarrow> connection_view) \<Rightarrow> bool" where
  "change_ok change get put g \<longleftrightarrow> (\<forall>n. info_ok n \<longrightarrow> (\<exists>e f. change (get n) = Some (e, f) \<and> info_ok (put f n)
     \<and> (e = IPSEC_OK \<longrightarrow> info_view (put f n) = g (info_view n))))"

lemma on_current_collects:
  assumes change: "change_ok change get put g"
    and ok: "collector_ok co" and i: "co_pCurrent co = Some i" and v: "collected_view co = (cs, secs, l)"
  shows "collects (on_current co i change get put) (on_last g cs, secs, l)"
proof (cases "co_pList co" rule: rev_cases)
  case Nil
  with ok i show ?thesis by (simp add: collector_ok_def)
next
  case (snoc ns n)
  with ok i have n: "i = length ns" "info_ok n" by (simp_all add: collector_ok_def)
  from change n(2) obtain e f where "change (get n) = Some (e, f)" "info_ok (put f n)"
    "e = IPSEC_OK \<longrightarrow> info_view (put f n) = g (info_view n)" unfolding change_ok_def by blast
  with ok v snoc n show ?thesis
    by (auto simp: collects_def on_current_def collector_ok_def collected_view_def on_last_def)
qed

lemma no_current: "collector_ok co \<Longrightarrow> co_pCurrent co = None \<Longrightarrow> fst (collected_view co) = []"
  by (auto simp: collector_ok_def collected_view_def split: if_splits)

text \<open>The changes of single fields.\<close>

lemma append_changes:
  "change_ok (append_field (Some v)) ci_acLocalAddresses (\<lambda>t n. n\<lparr>ci_acLocalAddresses := t\<rparr>) (\<lambda>c. c\<lparr>cv_local_addrs := joined v (cv_local_addrs c)\<rparr>)"
  "change_ok (append_field (Some v)) ci_acRemoteAddresses (\<lambda>t n. n\<lparr>ci_acRemoteAddresses := t\<rparr>) (\<lambda>c. c\<lparr>cv_remote_addrs := joined v (cv_remote_addrs c)\<rparr>)"
  "change_ok (append_field (Some v)) ci_acChildNames (\<lambda>t n. n\<lparr>ci_acChildNames := t\<rparr>) (\<lambda>c. c\<lparr>cv_children := joined v (cv_children c)\<rparr>)"
  unfolding change_ok_def info_ok_def info_view_def using append_field_ok [where v = v] by fastforce+

lemma copy_changes:
  "change_ok (copy_field IPSEC_NAME_LENGTH (Some v)) ci_acName (\<lambda>t n. n\<lparr>ci_acName := t\<rparr>) (\<lambda>c. c\<lparr>cv_name := cstr v\<rparr>)"
  "change_ok (copy_field IPSEC_ID_LENGTH (Some v)) ci_acLocalId (\<lambda>t n. n\<lparr>ci_acLocalId := t\<rparr>) (\<lambda>c. c\<lparr>cv_local_id := cstr v\<rparr>)"
  "change_ok (copy_field IPSEC_ID_LENGTH (Some v)) ci_acRemoteId (\<lambda>t n. n\<lparr>ci_acRemoteId := t\<rparr>) (\<lambda>c. c\<lparr>cv_remote_id := cstr v\<rparr>)"
proof -
  have copy: "\<exists>e t. copy_field n (Some v) dst = Some (e, t) \<and> text_ok n t \<and> (e = IPSEC_OK \<longrightarrow> cstr t = cstr v)"
    if "text_ok n dst" for n dst
    using copy_field_ok [of dst n v] that by (auto simp: text_ok_def)
  show "change_ok (copy_field IPSEC_NAME_LENGTH (Some v)) ci_acName (\<lambda>t n. n\<lparr>ci_acName := t\<rparr>) (\<lambda>c. c\<lparr>cv_name := cstr v\<rparr>)"
    "change_ok (copy_field IPSEC_ID_LENGTH (Some v)) ci_acLocalId (\<lambda>t n. n\<lparr>ci_acLocalId := t\<rparr>) (\<lambda>c. c\<lparr>cv_local_id := cstr v\<rparr>)"
    "change_ok (copy_field IPSEC_ID_LENGTH (Some v)) ci_acRemoteId (\<lambda>t n. n\<lparr>ci_acRemoteId := t\<rparr>) (\<lambda>c. c\<lparr>cv_remote_id := cstr v\<rparr>)"
    unfolding change_ok_def info_ok_def info_view_def using copy by fastforce+
qed

lemma seconds_changes:
  "change_ok (ParseConnectionSeconds (Some v)) ci_ullRekeyTimeMs (\<lambda>t n. n\<lparr>ci_ullRekeyTimeMs := t\<rparr>) (\<lambda>c. c\<lparr>cv_rekey := seconds_ms v\<rparr>)"
  "change_ok (ParseConnectionSeconds (Some v)) ci_ullReauthTimeMs (\<lambda>t n. n\<lparr>ci_ullReauthTimeMs := t\<rparr>) (\<lambda>c. c\<lparr>cv_reauth := seconds_ms v\<rparr>)"
  unfolding change_ok_def info_ok_def info_view_def using ParseConnectionSeconds_ok [where v = v] by fastforce+

text \<open>The handlers.\<close>

lemma note_item_other: "d \<noteq> 1 \<Longrightarrow> note_item d l v = (\<lambda>c. c)"
  by (simp add: note_item_def fun_eq_iff)

lemma list_item_collects:
  assumes "collector_ok co" and "co_pCurrent co = Some i" and "collected_view co = (cs, secs, l)"
  shows "collects (collect_list_item (elem_event 1 (ListItem v)) co i) (on_last (note_item 1 l v) cs, secs, l)"
proof -
  have l: "cstr (co_acListName co) = l" using assms(3) by (simp add: collected_view_def)
  note ch = append_changes [THEN on_current_collects, OF assms, of v]
  show ?thesis
    using ch(1,2) collects_same [OF assms(1,3)] unfolding note_item_def collect_list_item_def l by (auto simp: on_last_ident)
qed

lemma key_value_collects:
  assumes "collector_ok co" and "co_pCurrent co = Some i" and "collected_view co = (cs, secs, l)"
  shows "collects (collect_key_value (elem_event d (KeyValue n v)) co i) (on_last (note_key d (secs ! 1) n v) cs, secs, l)"
proof -
  have m: "MatchConnectionText (Some n) t = (n = t)" for t
    by (auto simp: MatchConnectionText_def)
  have a: "MatchConnectionAuthSection (cstr t) x = MatchConnectionAuthSection t x" for t x
    by (simp add: MatchConnectionAuthSection_def)
  have s: "secs ! 1 = cstr (co_aacSections co ! 1)"
    using assms(1,3) by (auto simp: collected_view_def collector_ok_def VICI_MAX_SECTION_DEPTH_def)
  note ch = copy_changes [THEN on_current_collects, OF assms, of v] seconds_changes [THEN on_current_collects, OF assms, of v]
  show ?thesis
    unfolding note_key_def collect_key_value_def s a using ch(2-5) collects_same [OF assms(1,3)] by (auto simp: on_last_ident m)
qed

text \<open>A section starts: its name is kept, and at the top it is a new connection.\<close>

lemma named_section:
  assumes "collector_ok co" and "d < VICI_MAX_SECTION_DEPTH"
  obtains e t where "copy_field IPSEC_NAME_LENGTH (Some n) (co_aacSections co ! d) = Some (e, t)"
    "collector_ok (co\<lparr>co_aacSections := (co_aacSections co)[d := t]\<rparr>)" "e = IPSEC_OK \<longrightarrow> cstr t = cstr n"
proof -
  have len: "length (co_aacSections co) = VICI_MAX_SECTION_DEPTH" and all: "\<forall>t \<in> set (co_aacSections co). text_ok IPSEC_NAME_LENGTH t"
    using assms(1) by (simp_all add: collector_ok_def list_all_iff)
  have "text_ok IPSEC_NAME_LENGTH (co_aacSections co ! d)"
    using all len assms(2) by simp
  then obtain e t where t: "copy_field IPSEC_NAME_LENGTH (Some n) (co_aacSections co ! d) = Some (e, t)"
    "text_ok IPSEC_NAME_LENGTH t" "e = IPSEC_OK \<longrightarrow> cstr t = cstr n"
    using copy_field_ok [of "co_aacSections co ! d" IPSEC_NAME_LENGTH n] by (auto simp: text_ok_def)
  moreover have "\<forall>x \<in> set ((co_aacSections co)[d := t]). text_ok IPSEC_NAME_LENGTH x"
    using t(2) all set_update_subset_insert [of "co_aacSections co" d t] by blast
  ultimately show thesis
    using assms(1) that by (simp add: collector_ok_def list_all_iff)
qed

lemma append_connection:
  assumes "collector_ok co" and "collected_view co = (cs, secs, l)" and "AppendConnectionInfo alloc co = (e, co1)"
  shows "collector_ok co1" and "e = IPSEC_OK \<Longrightarrow> collected_view co1 = (cs @ [new_connection []], secs, l) \<and> co_pCurrent co1 = Some (length (co_pList co))"
  using assms
  by (auto simp: AppendConnectionInfo_def Let_def collector_ok_def collected_view_def zero_info_ok zero_info_view
      split: if_splits prod.splits bool.splits option.splits)

lemma section_start_collects:
  assumes ok: "collector_ok co" and d: "d < VICI_MAX_SECTION_DEPTH"
  shows "collects (collect_section_start alloc (elem_event d (SectionStart n)) co)
     (note_element (elem_event d (SectionStart n)) (collected_view co))"
proof -
  obtain e t where t: "copy_field IPSEC_NAME_LENGTH (Some n) (co_aacSections co ! d) = Some (e, t)"
    "collector_ok (co\<lparr>co_aacSections := (co_aacSections co)[d := t]\<rparr>)" "e = IPSEC_OK \<longrightarrow> cstr t = cstr n"
    by (rule named_section [OF ok d])
  let ?co = "co\<lparr>co_aacSections := (co_aacSections co)[d := t]\<rparr>"
  obtain cs secs l where v: "collected_view co = (cs, secs, l)" by (cases "collected_view co")
  have len: "length (co_aacSections co) = VICI_MAX_SECTION_DEPTH" using ok by (simp add: collector_ok_def)
  have v1: "collected_view ?co = (cs, secs[d := cstr n], l)" if "e = IPSEC_OK"
    using v t(3) that by (auto simp: collected_view_def map_update)
  have s1: "cstr ((co_aacSections co)[d := t] ! 1) = secs[d := cstr n] ! 1" if "e = IPSEC_OK"
  proof -
    have "secs[d := cstr n] = map cstr ((co_aacSections co)[d := t])"
      using v1 [OF that] by (simp add: collected_view_def)
    then show ?thesis using len by (simp add: VICI_MAX_SECTION_DEPTH_def)
  qed
  obtain e2 co2 where a: "AppendConnectionInfo alloc ?co = (e2, co2)" by force
  show ?thesis
  proof (cases "e = IPSEC_OK")
    case False
    with t len d show ?thesis by (auto simp: collect_section_start_def collects_def)
  next
    case True
    consider "d = 0" | "d = 2" "secs[d := cstr n] ! 1 = lit ''children''" | "d \<noteq> 0" "\<not> (d = 2 \<and> secs[d := cstr n] ! 1 = lit ''children'')" by blast
    then show ?thesis
    proof cases
      case 1
      note a2 = append_connection [OF t(2) v1 [OF True] a]
      have "collects (on_current co2 (length (co_pList co)) (copy_field IPSEC_NAME_LENGTH (Some n)) ci_acName (\<lambda>t n. n\<lparr>ci_acName := t\<rparr>))
          (on_last (\<lambda>c. c\<lparr>cv_name := cstr n\<rparr>) (cs @ [new_connection []]), secs[d := cstr n], l)" if "e2 = IPSEC_OK"
        using on_current_collects [OF copy_changes(1) a2(1)] a2(2) [OF that] by simp
      with 1 True t(1) len a a2 v d show ?thesis
        by (auto simp: collect_section_start_def collects_def on_last_def new_connection_def Let_def cstr_def)
    next
      case 2
      show ?thesis
      proof (cases "co_pCurrent co")
        case None
        with 2 True t len v v1 s1 no_current [OF ok None] d show ?thesis
          by (auto simp: collect_section_start_def collects_def)
      next
        case (Some i)
        then have "co_pCurrent ?co = Some i" by simp
        note on_current_collects [OF append_changes(3) t(2) this v1 [OF True], of n]
        with 2 True t(1) len v s1 Some d show ?thesis by (simp add: collect_section_start_def)
      qed
    next
      case 3
      with True t len v v1 s1 d show ?thesis
        by (cases "d = 2") (auto simp: collect_section_start_def collects_def Let_def)
    qed
  qed
qed

lemma section_end_collects:
  assumes ok: "collector_ok co" and d: "0 < d" "d \<le> VICI_MAX_SECTION_DEPTH"
  shows "collects (collect_section_end (elem_event d SectionEnd) co) (note_element (elem_event d SectionEnd) (collected_view co))"
proof -
  have all: "length (co_aacSections co) = VICI_MAX_SECTION_DEPTH" "\<forall>t \<in> set (co_aacSections co). text_ok IPSEC_NAME_LENGTH t"
    using ok by (simp_all add: collector_ok_def list_all_iff)
  have "text_ok IPSEC_NAME_LENGTH (co_aacSections co ! (d - 1))"
    using all d by simp
  then obtain t where t: "write_at (co_aacSections co ! (d - 1)) 0 [0] = Some t" "text_ok IPSEC_NAME_LENGTH t" "cstr t = []"
    by (rule cleared_text)
  have "\<forall>x \<in> set ((co_aacSections co)[d - 1 := t]). text_ok IPSEC_NAME_LENGTH x"
    using t(2) all(2) set_update_subset_insert [of "co_aacSections co" "d - 1" t] by blast
  with ok all t d show ?thesis
    by (auto simp: collect_section_end_def collects_def collector_ok_def collected_view_def list_all_iff map_update)
qed

lemma element_collects:
  assumes "shown ev" and ok: "collector_ok co"
  shows "collects (CollectConnectionElement alloc ev co) (note_element ev (collected_view co))"
  using assms(1)
proof (cases rule: shown_cases)
  case (section_start d n)
  then show ?thesis using section_start_collects [OF ok, of d alloc n] by (simp add: CollectConnectionElement_def)
next
  case (section_end d)
  then show ?thesis using section_end_collects [OF ok, of d] by (simp add: CollectConnectionElement_def)
next
  case (key_value d n v)
  obtain cs secs l where v: "collected_view co = (cs, secs, l)" by (cases "collected_view co")
  show ?thesis
  proof (cases "co_pCurrent co")
    case None
    with key_value v no_current [OF ok None] ok show ?thesis by (auto simp: CollectConnectionElement_def collects_def)
  next
    case (Some i)
    with key_value v key_value_collects [OF ok Some v, of d n v] show ?thesis by (simp add: CollectConnectionElement_def)
  qed
next
  case (list_start d n)
  obtain e t where "copy_field IPSEC_NAME_LENGTH (Some n) (co_acListName co) = Some (e, t)"
    "text_ok IPSEC_NAME_LENGTH t" "e = IPSEC_OK \<longrightarrow> cstr t = cstr n"
    using copy_field_ok [of "co_acListName co" IPSEC_NAME_LENGTH n] ok by (auto simp: collector_ok_def text_ok_def)
  with list_start ok show ?thesis
    by (auto simp: CollectConnectionElement_def collects_def collector_ok_def collected_view_def)
next
  case (list_item d v)
  obtain cs secs l where v: "collected_view co = (cs, secs, l)" by (cases "collected_view co")
  show ?thesis
  proof (cases "co_pCurrent co")
    case None
    with list_item v no_current [OF ok None] ok show ?thesis by (auto simp: CollectConnectionElement_def collects_def)
  next
    case (Some i)
    with list_item v list_item_collects [OF ok Some v, of v] ok show ?thesis
      by (cases "d = 1") (auto simp: CollectConnectionElement_def collects_def note_item_other on_last_ident)
  qed
next
  case (list_end d)
  have "text_ok IPSEC_NAME_LENGTH (co_acListName co)" using ok by (simp add: collector_ok_def)
  then obtain t where "write_at (co_acListName co) 0 [0] = Some t" "text_ok IPSEC_NAME_LENGTH t" "cstr t = []"
    by (rule cleared_text)
  with list_end ok show ?thesis
    by (auto simp: CollectConnectionElement_def collects_def collector_ok_def collected_view_def)
qed

interpretation conns: message_collector "CollectConnectionElement alloc" collector_ok collected_view note_element for alloc
  by unfold_locales (use element_collects in \<open>force simp: collects_def\<close>)

text \<open>
  C25. Whatever bytes the daemon sends as a \<open>list-conn\<close> event, \<open>CollectConnectionEvent\<close> returns without
  touching memory outside its arrays, and leaves every text terminated inside its array. When it succeeds, the
  message is a balanced sequence of elements and the connections collected are those of the reference \<open>note_element\<close>:
  one per section at the top level, in the order of the message, with the values of that section.
\<close>

theorem CollectConnectionEvent_exact:
  assumes "collector_ok co" and "length msg < 2 ^ 32"
  shows "\<exists>e co'. CollectConnectionEvent alloc msg co = Some (e, co') \<and> collector_ok co'
     \<and> (e = IPSEC_OK \<longrightarrow> (\<exists>evs. message_events msg evs \<and> collected_view co' = fold note_element evs (collected_view co)))"
  unfolding CollectConnectionEvent_def by (rule conns.collect_safe [OF assms(2,1)])

lemma empty_collector_ok: "collector_ok empty_collector"
  by (simp add: collector_ok_def empty_collector_def zero_text_ok length_defs list_all_iff)

theorem CollectConnectionEvent_exact_witness:
  "collector_ok empty_collector \<and>
   (\<exists>e co'. CollectConnectionEvent (\<lambda>n. Some []) [1, 1, 97, 3, 2, 105, 100, 0, 1, 98, 2] empty_collector = Some (e, co') \<and> collector_ok co'
     \<and> (e = IPSEC_OK \<longrightarrow> (\<exists>evs. message_events [1, 1, 97, 3, 2, 105, 100, 0, 1, 98, 2] evs
          \<and> collected_view co' = fold note_element evs (collected_view empty_collector))))"
  using CollectConnectionEvent_exact [OF empty_collector_ok, of "[1, 1, 97, 3, 2, 105, 100, 0, 1, 98, 2]" "\<lambda>n. Some []"] empty_collector_ok by simp

end
