(* ===== verification/Vici_Credential.thy ===== *)
theory Vici_Credential
  imports Vici_Connection_List
begin

text \<open>
  Pre-shared keys, \<open>src/ike/vici/vici_credential.c\<close>: the checks of a key, the \<open>load-shared\<close> and \<open>unload-shared\<close> commands,
  and the registry of the identifiers this context loaded. The registry is a linked list in C and a list of
  the identifier arrays here, first node first. The mutex is locked through the script of system answers; unlocking
  cannot fail.
\<close>

section \<open>Keys\<close>

definition IPSEC_PSK_MAX_LENGTH :: nat where "IPSEC_PSK_MAX_LENGTH = 65535"
definition IPSEC_PSK_MAX_OWNERS :: nat where "IPSEC_PSK_MAX_OWNERS = 32"
definition IPSEC_PSK_ID_CAPACITY :: nat where "IPSEC_PSK_ID_CAPACITY = 256"

record IpsecPsk =
  pk_uiStructSize :: nat
  pk_pcId :: "bytes option"
  pk_pucData :: "bytes option"
  pk_uiDataLength :: u32
  pk_Owners :: IpsecStringListView

text \<open>The size of the structure on the LP64 targets.\<close>

definition psk_size :: nat where "psk_size = 48"

definition ValidateIpsecPskId :: "bytes option \<Rightarrow> IpsecError" where
  "ValidateIpsecPskId pcCredentialId = (case pcCredentialId of None \<Rightarrow> IPSEC_ERR_INVALID_ARGUMENT
     | Some s \<Rightarrow> let zLength = strnlen s 256
         in if zLength = 0 \<or> 255 < zLength then IPSEC_ERR_INVALID_ARGUMENT else IPSEC_OK)"

fun validate_owners :: "IpsecStringListView \<Rightarrow> nat \<Rightarrow> nat \<Rightarrow> IpsecError option" where
  "validate_owners l i 0 = Some IPSEC_OK"
| "validate_owners l i (Suc n) = list_item l i \<bind> (\<lambda>it. case it of
     None \<Rightarrow> Some IPSEC_ERR_INVALID_ARGUMENT
   | Some s \<Rightarrow> let zLength = strnlen s (UINT16_MAX + 1)
       in if zLength = 0 \<or> UINT16_MAX < zLength then Some IPSEC_ERR_INVALID_ARGUMENT
          else validate_owners l (Suc i) n)"

definition ValidateIpsecPsk :: "IpsecPsk option \<Rightarrow> IpsecError option" where
  "ValidateIpsecPsk pPsk = (case pPsk of None \<Rightarrow> Some IPSEC_ERR_INVALID_ARGUMENT
     | Some p \<Rightarrow>
         if pk_uiStructSize p \<noteq> psk_size \<or> pk_pucData p = None \<or> pk_uiDataLength p = 0
            \<or> IPSEC_PSK_MAX_LENGTH < unat (pk_uiDataLength p) \<or> IPSEC_PSK_MAX_OWNERS < unat (sl_uiCount (pk_Owners p))
            \<or> (0 < sl_uiCount (pk_Owners p) \<and> sl_ppcItems (pk_Owners p) = None)
         then Some IPSEC_ERR_INVALID_ARGUMENT
         else let eError = (case pk_pcId p of None \<Rightarrow> IPSEC_OK | Some s \<Rightarrow> ValidateIpsecPskId (Some s))
           in if eError \<noteq> IPSEC_OK then Some eError
              else validate_owners (pk_Owners p) 0 (unat (sl_uiCount (pk_Owners p))))"

section \<open>Commands\<close>

definition UnloadIpsecPskInternal :: "memory \<Rightarrow> bytes option \<Rightarrow> command \<Rightarrow> (IpsecError \<times> command) exec" where
  "UnloadIpsecPskInternal mem pcCredentialId c =
     (let eError = ValidateIpsecPskId pcCredentialId
      in if eError \<noteq> IPSEC_OK then Ret (eError, c)
         else exec_bind (lift_option (then_ok (InitializeViciBuffer (heap_now mem c) empty_ViciBuffer 64 False)
             (\<lambda>b. AddViciKeyValueString (heap_now mem c) b (Some (lit ''id'')) pcCredentialId))) (\<lambda>(eError, Message).
           exec_bind (if eError = IPSEC_OK
               then exec_bind (ExecuteViciCommand mem (lit ''unload-shared'') (Some Message) None None None () c) (\<lambda>(e, _, _, c). Ret (e, c))
               else Ret (eError, c)) (\<lambda>(eError, c).
             exec_bind (destroy_local Message c) (\<lambda>c. Ret (eError, c)))))"

text \<open>The writers of the \<open>load-shared\<close> message in their order.\<close>

definition psk_writers :: "heap \<Rightarrow> IpsecPsk \<Rightarrow> (ViciBuffer \<Rightarrow> buffer_result) list" where
  "psk_writers heap p =
     [\<lambda>b. if pk_pcId p \<noteq> None then AddViciKeyValueString heap b (Some (lit ''id'')) (pk_pcId p) else Some (IPSEC_OK, b),
      \<lambda>b. AddViciKeyValueString heap b (Some (lit ''type'')) (Some (lit ''IKE'')),
      \<lambda>b. AddViciKeyValue heap b (Some (lit ''data'')) (pk_pucData p) (unat (pk_uiDataLength p)),
      \<lambda>b. AddViciListStart heap b (Some (lit ''owners'')),
      \<lambda>b. add_list_items heap (pk_Owners p) 0 (unat (sl_uiCount (pk_Owners p))) b,
      AddViciListEnd heap]"

definition psk_message :: "heap \<Rightarrow> IpsecPsk \<Rightarrow> buffer_result" where
  "psk_message heap p =
     then_ok (InitializeViciBuffer heap empty_ViciBuffer (unat (pk_uiDataLength p) + 256) True) (run_writers (psk_writers heap p))"

definition LoadIpsecPskInternal :: "memory \<Rightarrow> IpsecPsk option \<Rightarrow> command \<Rightarrow> (IpsecError \<times> command) exec" where
  "LoadIpsecPskInternal mem pPsk c =
     exec_bind (lift_option (ValidateIpsecPsk pPsk)) (\<lambda>eError.
       if eError \<noteq> IPSEC_OK then Ret (eError, c)
       else exec_bind (lift_option (pPsk \<bind> psk_message (heap_now mem c))) (\<lambda>(eError, Message).
         exec_bind (if eError = IPSEC_OK
             then exec_bind (ExecuteViciCommand mem (lit ''load-shared'') (Some Message) None None None () c) (\<lambda>(e, _, _, c). Ret (e, c))
             else Ret (eError, c)) (\<lambda>(eError, c).
           exec_bind (destroy_local Message c) (\<lambda>c. Ret (eError, c)))))"

definition ClearAllViciCredentialsInternal :: "memory \<Rightarrow> command \<Rightarrow> (IpsecError \<times> command) exec" where
  "ClearAllViciCredentialsInternal mem c =
     exec_bind (lift_option (InitializeViciBuffer (heap_now mem c) empty_ViciBuffer 1 False)) (\<lambda>(eError, Message).
       exec_bind (if eError = IPSEC_OK
           then exec_bind (ExecuteViciCommand mem (lit ''clear-creds'') (Some Message) None None None () c) (\<lambda>(e, _, _, c). Ret (e, c))
           else Ret (eError, c)) (\<lambda>(eError, c).
         exec_bind (destroy_local Message c) (\<lambda>c. Ret (eError, c))))"

section \<open>The registry\<close>

record IpsecCredentialState =
  cr_bMutexInitialized :: bool
  cr_bAnonymousLoaded :: bool
  cr_pOwned :: "bytes list"

text \<open>The node with the identifier, by its position in the list; the unlink location is the same position.\<close>

fun FindOwnedIpsecCredential :: "bytes list \<Rightarrow> bytes \<Rightarrow> nat option" where
  "FindOwnedIpsecCredential [] pcCredentialId = None"
| "FindOwnedIpsecCredential (acId # r) pcCredentialId =
     (if cstr acId = cstr pcCredentialId then Some 0 else map_option Suc (FindOwnedIpsecCredential r pcCredentialId))"

text \<open>A new node: \<open>calloc\<close> and the copy of the identifier with its terminator.\<close>

definition new_credential :: "bytes \<Rightarrow> bytes option" where
  "new_credential pcId = write_at (replicate IPSEC_PSK_ID_CAPACITY 0) 0 (cstr pcId @ [0])"

definition allocate_credential :: "bytes option \<Rightarrow> command \<Rightarrow> (IpsecError \<times> bytes option \<times> command) exec" where
  "allocate_credential pcId c = (case pcId of None \<Rightarrow> Ret (IPSEC_OK, None, c)
     | Some s \<Rightarrow> exec_bind (read_calloc (script c)) (\<lambda>(ok, os).
         if \<not> ok then Ret (IPSEC_ERR_NO_MEMORY, None, c\<lparr>script := os\<rparr>)
         else exec_bind (lift_option (new_credential s)) (\<lambda>acId. Ret (IPSEC_OK, Some acId, c\<lparr>script := os\<rparr>))))"

type_synonym credentials = "IpsecCredentialState \<times> command"

definition record_credential :: "bytes option \<Rightarrow> bytes option \<Rightarrow> IpsecCredentialState \<Rightarrow> IpsecCredentialState" where
  "record_credential pcId pNew cr = (case pcId of
       None \<Rightarrow> cr\<lparr>cr_bAnonymousLoaded := True\<rparr>
     | Some s \<Rightarrow> if FindOwnedIpsecCredential (cr_pOwned cr) s = None
                 then (case pNew of None \<Rightarrow> cr | Some acId \<Rightarrow> cr\<lparr>cr_pOwned := acId # cr_pOwned cr\<rparr>)
                 else cr)"

definition AddIpsecPsk :: "memory \<Rightarrow> IpsecPsk option \<Rightarrow> credentials \<Rightarrow> (IpsecError \<times> credentials) exec" where
  "AddIpsecPsk mem pPsk = (\<lambda>(cr, c).
     if \<not> cr_bMutexInitialized cr then Ret (IPSEC_ERR_INVALID_ARGUMENT, cr, c)
     else exec_bind (lift_option (ValidateIpsecPsk pPsk)) (\<lambda>eError.
       if eError \<noteq> IPSEC_OK then Ret (eError, cr, c)
       else exec_bind (lift_option pPsk) (\<lambda>p.
         exec_bind (allocate_credential (pk_pcId p) c) (\<lambda>(eError, pNew, c).
           if eError \<noteq> IPSEC_OK then Ret (eError, cr, c)
           else exec_bind (read_lock (script c)) (\<lambda>(r, os).
             if r \<noteq> 0 then Ret (IPSEC_ERR_INTERNAL, cr, c\<lparr>script := os\<rparr>)
             else exec_bind (LoadIpsecPskInternal mem (Some p) (c\<lparr>script := os\<rparr>)) (\<lambda>(eError, c).
               Ret (eError, if eError = IPSEC_OK then record_credential (pk_pcId p) pNew cr else cr, c)))))))"

definition unlink_credential :: "bytes \<Rightarrow> IpsecCredentialState \<Rightarrow> IpsecCredentialState" where
  "unlink_credential s cr = (case FindOwnedIpsecCredential (cr_pOwned cr) s of None \<Rightarrow> cr
     | Some i \<Rightarrow> cr\<lparr>cr_pOwned := take i (cr_pOwned cr) @ drop (Suc i) (cr_pOwned cr)\<rparr>)"

definition RemoveIpsecPsk :: "memory \<Rightarrow> bytes option \<Rightarrow> credentials \<Rightarrow> (IpsecError \<times> credentials) exec" where
  "RemoveIpsecPsk mem pcCredentialId = (\<lambda>(cr, c).
     if \<not> cr_bMutexInitialized cr then Ret (IPSEC_ERR_INVALID_ARGUMENT, cr, c)
     else let eError = ValidateIpsecPskId pcCredentialId
       in if eError \<noteq> IPSEC_OK then Ret (eError, cr, c)
          else exec_bind (lift_option pcCredentialId) (\<lambda>s.
            exec_bind (read_lock (script c)) (\<lambda>(r, os).
              if r \<noteq> 0 then Ret (IPSEC_ERR_INTERNAL, cr, c\<lparr>script := os\<rparr>)
              else exec_bind (UnloadIpsecPskInternal mem (Some s) (c\<lparr>script := os\<rparr>)) (\<lambda>(eError, c).
                Ret (eError, if eError = IPSEC_OK then unlink_credential s cr else cr, c)))))"

fun clear_owned :: "memory \<Rightarrow> bytes list \<Rightarrow> command \<Rightarrow> (IpsecError \<times> bytes list \<times> command) exec" where
  "clear_owned mem [] c = Ret (IPSEC_OK, [], c)"
| "clear_owned mem (acId # r) c = exec_bind (UnloadIpsecPskInternal mem (Some acId) c) (\<lambda>(eError, c).
     if eError = IPSEC_OK then clear_owned mem r c else Ret (eError, acId # r, c))"

definition ClearIpsecContextCredentials :: "memory \<Rightarrow> credentials \<Rightarrow> (IpsecError \<times> credentials) exec" where
  "ClearIpsecContextCredentials mem = (\<lambda>(cr, c).
     if \<not> cr_bMutexInitialized cr then Ret (IPSEC_ERR_INVALID_ARGUMENT, cr, c)
     else exec_bind (read_lock (script c)) (\<lambda>(r, os).
       if r \<noteq> 0 then Ret (IPSEC_ERR_INTERNAL, cr, c\<lparr>script := os\<rparr>)
       else exec_bind (clear_owned mem (cr_pOwned cr) (c\<lparr>script := os\<rparr>)) (\<lambda>(eError, left, c).
         Ret (if eError = IPSEC_OK \<and> cr_bAnonymousLoaded cr then IPSEC_ERR_NOT_SUPPORTED else eError,
              cr\<lparr>cr_pOwned := left\<rparr>, c))))"

definition FreeOwnedIpsecCredentials :: "IpsecCredentialState \<Rightarrow> IpsecCredentialState" where
  "FreeOwnedIpsecCredentials cr = cr\<lparr>cr_pOwned := []\<rparr>"

definition ClearAllIpsecDaemonCredentials :: "memory \<Rightarrow> credentials \<Rightarrow> (IpsecError \<times> credentials) exec" where
  "ClearAllIpsecDaemonCredentials mem = (\<lambda>(cr, c).
     if \<not> cr_bMutexInitialized cr then Ret (IPSEC_ERR_INVALID_ARGUMENT, cr, c)
     else exec_bind (read_lock (script c)) (\<lambda>(r, os).
       if r \<noteq> 0 then Ret (IPSEC_ERR_INTERNAL, cr, c\<lparr>script := os\<rparr>)
       else exec_bind (ClearAllViciCredentialsInternal mem (c\<lparr>script := os\<rparr>)) (\<lambda>(eError, c).
         Ret (eError, if eError = IPSEC_OK then (FreeOwnedIpsecCredentials cr)\<lparr>cr_bAnonymousLoaded := False\<rparr> else cr, c))))"

definition ClearIpsecCredentials :: "memory \<Rightarrow> credentials \<Rightarrow> (IpsecError \<times> credentials) exec" where
  "ClearIpsecCredentials mem = ClearAllIpsecDaemonCredentials mem"

text \<open>The mutex of a new context, and the end of the registry with its context.\<close>

definition InitializeIpsecCredentialState :: "int \<Rightarrow> IpsecCredentialState \<Rightarrow> IpsecError \<times> IpsecCredentialState" where
  "InitializeIpsecCredentialState iMutexInit cr =
     (if iMutexInit \<noteq> 0 then (IPSEC_ERR_INTERNAL, cr) else (IPSEC_OK, cr\<lparr>cr_bMutexInitialized := True\<rparr>))"

definition DestroyIpsecCredentialState :: "IpsecCredentialState \<Rightarrow> IpsecCredentialState" where
  "DestroyIpsecCredentialState cr =
     (if cr_bMutexInitialized cr
      then (FreeOwnedIpsecCredentials cr)\<lparr>cr_bMutexInitialized := False, cr_bAnonymousLoaded := False\<rparr> else cr)"

section \<open>Messages\<close>

text \<open>The elements of the message of \<open>load-shared\<close>.\<close>

definition psk_elems :: "IpsecPsk \<Rightarrow> vici_elem list" where
  "psk_elems p = (case pk_pcId p of None \<Rightarrow> [] | Some s \<Rightarrow> [KeyValue (lit ''id'') (cstr s)])
     @ [KeyValue (lit ''type'') (lit ''IKE''), KeyValue (lit ''data'') (take (unat (pk_uiDataLength p)) (the (pk_pucData p)))]
     @ list_elems ''owners'' (pk_Owners p)"

text \<open>What the caller vouches for: the key has as many bytes as it says, and the owners as many texts.\<close>

definition psk_memory :: "IpsecPsk \<Rightarrow> bool" where
  "psk_memory p \<longleftrightarrow> (\<forall>d. pk_pucData p = Some d \<longrightarrow> unat (pk_uiDataLength p) \<le> length d) \<and> list_ok (pk_Owners p)"

lemma validate_owners_OK:
  "validate_owners l i n = Some IPSEC_OK \<Longrightarrow> j < n \<Longrightarrow>
     \<exists>s. list_item l (i + j) = Some (Some s) \<and> 0 < strlen s \<and> strlen s \<le> UINT16_MAX"
proof (induction n arbitrary: i j)
  case (Suc n)
  from Suc.prems(1) obtain s where s: "list_item l i = Some (Some s)" "0 < strlen s" "strlen s \<le> UINT16_MAX"
    and rest: "validate_owners l (Suc i) n = Some IPSEC_OK"
    by (auto simp: bind_eq_Some_conv Let_def strnlen_def split: option.splits if_splits)
  show ?case
  proof (cases j)
    case 0
    with s show ?thesis by simp
  next
    case (Suc j')
    with Suc.IH [OF rest, of j'] Suc.prems(2) show ?thesis by simp
  qed
qed simp

lemma validate_owners_total:
  assumes "list_ok l" and "i + n \<le> unat (sl_uiCount l)" and "n = 0 \<or> sl_ppcItems l \<noteq> None"
  shows "\<exists>e. validate_owners l i n = Some e"
  using assms
proof (induction n arbitrary: i)
  case (Suc n)
  then obtain xs where xs: "sl_ppcItems l = Some xs" by auto
  with Suc.prems have "list_item l i = Some (xs ! i)" by (auto simp: list_item_def list_ok_def)
  with Suc.IH [of "Suc i"] Suc.prems show ?case by (cases "xs ! i") (simp_all add: Let_def)
qed simp

definition psk_valid :: "IpsecPsk \<Rightarrow> bool" where
  "psk_valid p \<longleftrightarrow> pk_pucData p \<noteq> None \<and> unat (pk_uiDataLength p) \<le> UINT16_MAX
     \<and> (\<forall>s. pk_pcId p = Some s \<longrightarrow> 0 < strlen s \<and> strlen s \<le> 255)
     \<and> (\<forall>j < unat (sl_uiCount (pk_Owners p)). \<exists>s. list_item (pk_Owners p) j = Some (Some s) \<and> strlen s \<le> UINT16_MAX)"

lemma ValidateIpsecPskId_OK: "ValidateIpsecPskId q = IPSEC_OK \<longleftrightarrow> (\<exists>s. q = Some s \<and> 0 < strlen s \<and> strlen s \<le> 255)"
  by (auto simp: ValidateIpsecPskId_def strnlen_def Let_def split: option.splits if_splits)

lemma ValidateIpsecPsk_OK:
  assumes "ValidateIpsecPsk (Some p) = Some IPSEC_OK"
  shows "psk_valid p"
  using assms validate_owners_OK [of "pk_Owners p" 0 "unat (sl_uiCount (pk_Owners p))"] ValidateIpsecPskId_OK
  by (fastforce simp: ValidateIpsecPsk_def psk_valid_def Let_def IPSEC_PSK_MAX_LENGTH_def split: if_splits option.splits)

lemma ValidateIpsecPsk_total: "psk_memory p \<Longrightarrow> \<exists>e. ValidateIpsecPsk (Some p) = Some e"
  using validate_owners_total [of "pk_Owners p" 0 "unat (sl_uiCount (pk_Owners p))"]
  by (auto simp: ValidateIpsecPsk_def psk_memory_def Let_def word_gt_0 split: option.splits)

lemma psk_writes:
  assumes v: "psk_valid p" and m: "psk_memory p"
  shows "writes heap (run_writers (psk_writers heap p)) (psk_elems p)"
proof -
  obtain d where d: "pk_pucData p = Some d" "unat (pk_uiDataLength p) \<le> length d"
    using v m by (auto simp: psk_valid_def psk_memory_def)
  have id: "writes heap (\<lambda>b. if pk_pcId p \<noteq> None then AddViciKeyValueString heap b (Some (lit ''id'')) (pk_pcId p) else Some (IPSEC_OK, b))
      (case pk_pcId p of None \<Rightarrow> [] | Some s \<Rightarrow> [KeyValue (lit ''id'') (cstr s)])"
    using v by (cases "pk_pcId p") (auto simp: psk_valid_def intro: writes_Nothing writes_pair)
  have owners: "writes heap (\<lambda>b. add_list_items heap (pk_Owners p) 0 (unat (sl_uiCount (pk_Owners p))) b)
      (map ListItem (list_texts (pk_Owners p)))"
    using v by (simp add: writes_def psk_valid_def list_texts_def add_list_items_elements)
  have list: "writes heap (\<lambda>b. AddViciListStart heap b (Some (lit ''owners''))) [ListStart (lit ''owners'')]" "writes heap (AddViciListEnd heap) [ListEnd]"
    by (simp_all add: writes_def then_ok_OK_id)
  have type: "writes heap (\<lambda>b. AddViciKeyValueString heap b (Some (lit ''type'')) (Some (lit ''IKE''))) [KeyValue (lit ''type'') (lit ''IKE'')]"
    using writes_literal [OF refl, of "''IKE''" heap "''type''"] by (simp add: pair_elem_def lit_def)
  show ?thesis
    unfolding psk_writers_def
    by (rule writes_eq, (rule writes_run_Cons writes_run_Nil id type owners list writes_data [OF d(2), folded d(1)])+)
       (simp add: psk_elems_def list_elems_def d)
qed

lemma psk_elems_ok:
  assumes "psk_valid p"
  shows "\<forall>el \<in> set (psk_elems p). elem_ok el \<and> elem_c_name el"
proof -
  have "length t \<le> UINT16_MAX" if "t \<in> set (list_texts (pk_Owners p))" for t
  proof -
    have "t \<in> set (texts_from l i n) \<Longrightarrow> \<forall>j < n. \<exists>s. list_item l (i + j) = Some (Some s) \<and> strlen s \<le> UINT16_MAX \<Longrightarrow> length t \<le> UINT16_MAX" for l i n
    proof (induction n arbitrary: i)
      case (Suc n)
      obtain s where "list_item l i = Some (Some s)" "strlen s \<le> UINT16_MAX" using Suc.prems(2) by force
      moreover have "\<forall>j < n. \<exists>s. list_item l (Suc i + j) = Some (Some s) \<and> strlen s \<le> UINT16_MAX"
        using Suc.prems(2) by (metis Suc_less_eq add_Suc_shift)
      ultimately show ?case using Suc.IH [of "Suc i"] Suc.prems(1) by (auto simp: strlen_def)
    qed simp
    from this [of "pk_Owners p" 0] that assms show ?thesis by (simp add: list_texts_def psk_valid_def)
  qed
  moreover have "length (cstr s) \<le> UINT16_MAX" if "pk_pcId p = Some s" for s
    using assms that by (fastforce simp: psk_valid_def strlen_def)
  ultimately show ?thesis
    using assms by (auto simp: psk_elems_def list_elems_def psk_valid_def name_ok_def value_ok_def elem_c_name_def strlen_def lit_def
        split: option.splits)
qed

lemma psk_message_held:
  assumes "psk_valid p" and "psk_memory p"
  shows "\<exists>e b. psk_message heap p = Some (e, b) \<and> held True b"
proof -
  have "unat (pk_uiDataLength p) + 256 \<le> VICI_MAX_SEGMENT_LENGTH" using assms(1) by (simp add: psk_valid_def)
  from message_held [OF psk_writes [OF assms] this] show ?thesis by (simp add: psk_message_def)
qed

lemma psk_message_content:
  assumes "psk_valid p" and "psk_memory p" and "psk_message heap p = Some (IPSEC_OK, b)"
  shows "buf_content b = encode_elems (psk_elems p)"
proof -
  have "unat (pk_uiDataLength p) + 256 \<le> VICI_MAX_SEGMENT_LENGTH" using assms(1) by (simp add: psk_valid_def)
  then obtain e b0 where b0: "InitializeViciBuffer heap empty_ViciBuffer (unat (pk_uiDataLength p) + 256) True = Some (e, b0)"
    "buf_wf b0" "buf_content b0 = []"
    using Initialize_any [of "unat (pk_uiDataLength p) + 256" heap empty_ViciBuffer True] by blast
  with assms(3) have "run_writers (psk_writers heap p) b0 = Some (IPSEC_OK, b)"
    by (auto simp: psk_message_def then_ok_def split: if_splits)
  then have "emit_all (vici_emit heap) b0 (concat (map elem_parts (psk_elems p))) = Some (IPSEC_OK, b)"
    using psk_writes [OF assms(1,2)] add_elements_parts [OF psk_elems_ok [OF assms(1)]] by (simp add: writes_def)
  then show ?thesis
    using vb.emit_all_sound(4) [OF b0(2)] b0(3) by (simp add: concat_elem_parts encode_elems_def)
qed

lemma LoadIpsecPsk_runs:
  assumes "idle c" and "psk_memory p"
  shows "runs (\<lambda>(e, c'). idle c' \<and> hushed c e c' \<and> (e = IPSEC_OK \<longrightarrow> psk_valid p)) (LoadIpsecPskInternal mem (Some p) c)"
proof -
  obtain e0 where e0: "ValidateIpsecPsk (Some p) = Some e0" using ValidateIpsecPsk_total [OF assms(2)] by blast
  show ?thesis
  proof (cases "e0 = IPSEC_OK")
    case False
    with e0 assms show ?thesis by (simp add: LoadIpsecPskInternal_def)
  next
    case True
    with e0 have v: "psk_valid p" by (simp add: ValidateIpsecPsk_OK)
    obtain e b where b: "psk_message (heap_now mem c) p = Some (e, b)" "held True b"
      using psk_message_held [OF v assms(2)] by blast
    from request_runs [OF assms(1) b(2), of e mem "lit ''load-shared''"] True e0 b(1) v show ?thesis
      by (auto simp: LoadIpsecPskInternal_def elim!: runs_mono)
  qed
qed


section \<open>The registry is a set of identifiers\<close>

definition owned_ids :: "IpsecCredentialState \<Rightarrow> bytes list" where
  "owned_ids cr = map cstr (cr_pOwned cr)"

definition credentials_ok :: "IpsecCredentialState \<Rightarrow> bool" where
  "credentials_ok cr \<longleftrightarrow> distinct (owned_ids cr)
     \<and> list_all (\<lambda>a. length a = IPSEC_PSK_ID_CAPACITY \<and> 0 < strlen a \<and> strlen a \<le> 255) (cr_pOwned cr)"

lemma Find_None: "FindOwnedIpsecCredential xs s = None \<longleftrightarrow> cstr s \<notin> set (map cstr xs)"
  by (induction xs) auto

lemma Find_Some:
  assumes "FindOwnedIpsecCredential xs s = Some i" and "distinct (map cstr xs)"
  shows "i < length xs" "map cstr (take i xs @ drop (Suc i) xs) = filter (\<lambda>a. a \<noteq> cstr s) (map cstr xs)"
    "set (take i xs @ drop (Suc i) xs) \<subseteq> set xs"
  using assms
proof (induction xs arbitrary: i)
  case (Cons x xs)
  { case 1 then show ?case using Cons.IH(1) by (auto split: if_splits) }
  { case 2
    show ?case
    proof (cases "cstr x = cstr s")
      case True
      with 2 have "filter (\<lambda>a. a \<noteq> cstr s) (map cstr xs) = map cstr xs" by (intro filter_True) (auto, metis imageI)
      with 2 True show ?thesis by auto
    next
      case False
      with 2 Cons.IH(2) show ?thesis by auto
    qed }
  { case 3 then show ?case by (auto split: if_splits dest: in_set_takeD in_set_dropD) }
qed simp_all

lemma new_credential_ok:
  assumes "0 < strlen s" and "strlen s \<le> 255"
  obtains a where "new_credential s = Some a" "length a = IPSEC_PSK_ID_CAPACITY" "cstr a = cstr s"
proof -
  let ?a = "cstr s @ [0] @ drop (strlen s + 1) (replicate IPSEC_PSK_ID_CAPACITY (0 :: u8))"
  have "new_credential s = Some ?a"
    using assms by (simp add: new_credential_def write_at_def IPSEC_PSK_ID_CAPACITY_def strlen_def)
  moreover have "length ?a = IPSEC_PSK_ID_CAPACITY"
    using assms by (simp add: IPSEC_PSK_ID_CAPACITY_def strlen_def)
  moreover have "cstr ?a = cstr s" by (simp add: cstr_terminated)
  ultimately show thesis by (rule that)
qed

text \<open>The operations on the registry and what each may do to the set of identifiers, by its result.\<close>

datatype credential_op = Add_Psk IpsecPsk | Remove_Psk "bytes option" | Clear_Context | Clear_Daemon

fun run_credential_op :: "memory \<Rightarrow> credential_op \<Rightarrow> credentials \<Rightarrow> (IpsecError \<times> credentials) exec" where
  "run_credential_op mem (Add_Psk p) = AddIpsecPsk mem (Some p)"
| "run_credential_op mem (Remove_Psk i) = RemoveIpsecPsk mem i"
| "run_credential_op mem Clear_Context = ClearIpsecContextCredentials mem"
| "run_credential_op mem Clear_Daemon = ClearIpsecCredentials mem"

fun op_memory :: "credential_op \<Rightarrow> bool" where
  "op_memory (Add_Psk p) = psk_memory p"
| "op_memory _ = True"

type_synonym credential_set = "bytes set \<times> bool"

definition credential_view :: "IpsecCredentialState \<Rightarrow> credential_set" where
  "credential_view cr = (set (owned_ids cr), cr_bAnonymousLoaded cr)"

fun credential_spec :: "credential_op \<Rightarrow> IpsecError \<Rightarrow> credential_set \<Rightarrow> credential_set \<Rightarrow> bool" where
  "credential_spec (Add_Psk p) e (S, a) t \<longleftrightarrow>
     t = (if e \<noteq> IPSEC_OK then (S, a) else case pk_pcId p of None \<Rightarrow> (S, True) | Some s \<Rightarrow> (insert (cstr s) S, a))"
| "credential_spec (Remove_Psk i) e (S, a) t \<longleftrightarrow>
     t = (if e \<noteq> IPSEC_OK then (S, a) else case i of None \<Rightarrow> (S, a) | Some s \<Rightarrow> (S - {cstr s}, a))"
| "credential_spec Clear_Context e (S, a) t \<longleftrightarrow>
     (case t of (S', a') \<Rightarrow> S' \<subseteq> S \<and> a' = a \<and> (e = IPSEC_OK \<longrightarrow> S' = {} \<and> \<not> a))"
| "credential_spec Clear_Daemon e (S, a) t \<longleftrightarrow> t = (if e = IPSEC_OK then ({}, False) else (S, a))"

definition kept :: "credential_op \<Rightarrow> IpsecCredentialState \<Rightarrow> IpsecError \<times> credentials \<Rightarrow> bool" where
  "kept oper cr = (\<lambda>(e, cr', c'). credentials_ok cr' \<and> idle c' \<and> cr_bMutexInitialized cr' = cr_bMutexInitialized cr
     \<and> credential_spec oper e (credential_view cr) (credential_view cr'))"

lemma record_credential_ok:
  assumes ok: "credentials_ok cr" and v: "psk_valid p"
    and new: "\<forall>s. pk_pcId p = Some s \<longrightarrow> (\<exists>a. pNew = Some a \<and> length a = IPSEC_PSK_ID_CAPACITY \<and> cstr a = cstr s)"
  shows "credentials_ok (record_credential (pk_pcId p) pNew cr)
     \<and> credential_spec (Add_Psk p) IPSEC_OK (credential_view cr) (credential_view (record_credential (pk_pcId p) pNew cr))"
proof (cases "pk_pcId p")
  case None
  with ok show ?thesis by (simp add: record_credential_def credential_view_def credentials_ok_def owned_ids_def)
next
  case (Some s)
  then obtain a where a: "pNew = Some a" "length a = IPSEC_PSK_ID_CAPACITY" "cstr a = cstr s" using new by blast
  have s: "0 < strlen s" "strlen s \<le> 255" using v Some by (auto simp: psk_valid_def)
  show ?thesis
  proof (cases "FindOwnedIpsecCredential (cr_pOwned cr) s")
    case None
    then have "cstr s \<notin> set (map cstr (cr_pOwned cr))" by (simp add: Find_None)
    with None Some a s ok show ?thesis
      by (simp add: record_credential_def credential_view_def credentials_ok_def owned_ids_def strlen_def)
  next
    case found: (Some i)
    then have "cstr s \<in> set (map cstr (cr_pOwned cr))" using Find_None by force
    with found Some ok show ?thesis
      by (auto simp: record_credential_def credential_view_def owned_ids_def insert_absorb)
  qed
qed

lemma unlink_credential_ok:
  assumes ok: "credentials_ok cr"
  shows "credentials_ok (unlink_credential s cr)
     \<and> credential_spec (Remove_Psk (Some s)) IPSEC_OK (credential_view cr) (credential_view (unlink_credential s cr))"
proof (cases "FindOwnedIpsecCredential (cr_pOwned cr) s")
  case None
  then have "unlink_credential s cr = cr" by (simp add: unlink_credential_def)
  moreover have "cstr s \<notin> set (owned_ids cr)" using None unfolding owned_ids_def Find_None .
  ultimately show ?thesis using ok by (simp add: credential_view_def)
next
  case (Some i)
  have d: "distinct (map cstr (cr_pOwned cr))" using ok by (simp add: credentials_ok_def owned_ids_def)
  note f = Find_Some [OF Some d]
  have ids: "owned_ids (unlink_credential s cr) = filter (\<lambda>a. a \<noteq> cstr s) (owned_ids cr)"
    using f(2) Some by (simp add: unlink_credential_def owned_ids_def)
  have "cr_pOwned (unlink_credential s cr) = take i (cr_pOwned cr) @ drop (Suc i) (cr_pOwned cr)"
    "cr_bAnonymousLoaded (unlink_credential s cr) = cr_bAnonymousLoaded cr"
    using Some by (simp_all add: unlink_credential_def)
  with f(3) ok ids show ?thesis
    by (auto simp: credentials_ok_def credential_view_def list_all_iff)
qed

lemma message_of_id:
  assumes "ValidateIpsecPskId (Some s) = IPSEC_OK"
  shows "\<exists>e b. then_ok (InitializeViciBuffer heap empty_ViciBuffer 64 False)
      (\<lambda>b. AddViciKeyValueString heap b (Some (lit ''id'')) (Some s)) = Some (e, b) \<and> held False b"
proof -
  have "strlen s \<le> UINT16_MAX" using assms by (auto simp: ValidateIpsecPskId_OK)
  from message_held [OF writes_pair [OF refl this], of 64] show ?thesis by simp
qed

lemma Unload_runs:
  assumes "idle c"
  shows "runs (\<lambda>(e, c'). idle c') (UnloadIpsecPskInternal mem (Some s) c)"
proof (cases "ValidateIpsecPskId (Some s) = IPSEC_OK")
  case False
  with assms show ?thesis by (simp add: UnloadIpsecPskInternal_def)
next
  case True
  obtain e b where b: "then_ok (InitializeViciBuffer (heap_now mem c) empty_ViciBuffer 64 False)
      (\<lambda>b. AddViciKeyValueString (heap_now mem c) b (Some (lit ''id'')) (Some s)) = Some (e, b)" "held False b"
    using message_of_id [OF True] by blast
  from request_runs [OF assms b(2), of e mem "lit ''unload-shared''"] True b(1) show ?thesis
    by (simp add: UnloadIpsecPskInternal_def)
qed

lemma ClearAll_runs:
  assumes "idle c"
  shows "runs (\<lambda>(e, c'). idle c') (ClearAllViciCredentialsInternal mem c)"
proof -
  obtain e b where b: "InitializeViciBuffer (heap_now mem c) empty_ViciBuffer 1 False = Some (e, b)" "held False b"
    using Initialize_held_any [of 1 "heap_now mem c" False] by auto
  from request_runs [OF assms b(2), of e mem "lit ''clear-creds''"] b(1) show ?thesis
    by (simp add: ClearAllViciCredentialsInternal_def)
qed

lemma same_credentials: "credentials_ok cr \<Longrightarrow> idle c' \<Longrightarrow> e \<noteq> IPSEC_OK \<Longrightarrow> kept oper cr (e, cr, c')"
  by (cases oper; simp add: kept_def credential_view_def)

lemma allocate_runs:
  assumes "idle c" and "psk_valid p"
  shows "runs (\<lambda>(e, pNew, c'). idle c' \<and> (e = IPSEC_OK \<longrightarrow> (\<forall>s. pk_pcId p = Some s \<longrightarrow>
       (\<exists>a. pNew = Some a \<and> length a = IPSEC_PSK_ID_CAPACITY \<and> cstr a = cstr s)))) (allocate_credential (pk_pcId p) c)"
proof (cases "pk_pcId p")
  case None
  with assms show ?thesis by (simp add: allocate_credential_def)
next
  case (Some s)
  then have "0 < strlen s" "strlen s \<le> 255" using assms(2) by (auto simp: psk_valid_def)
  then obtain a where "new_credential s = Some a" "length a = IPSEC_PSK_ID_CAPACITY" "cstr a = cstr s"
    by (rule new_credential_ok)
  with Some assms(1) show ?thesis
    by (auto simp: allocate_credential_def intro!: runs_call)
qed

lemma Add_kept:
  assumes ok: "credentials_ok cr" and c: "idle c" and m: "psk_memory p"
  shows "runs (kept (Add_Psk p) cr) (AddIpsecPsk mem (Some p) (cr, c))"
proof -
  obtain e0 where e0: "ValidateIpsecPsk (Some p) = Some e0" using ValidateIpsecPsk_total [OF m] by blast
  show ?thesis
  proof (cases "cr_bMutexInitialized cr \<and> e0 = IPSEC_OK")
    case False
    with e0 ok c show ?thesis by (auto simp: AddIpsecPsk_def same_credentials)
  next
    case True
    with e0 have v: "psk_valid p" by (simp add: ValidateIpsecPsk_OK)
    have load: "runs (kept (Add_Psk p) cr) (exec_bind (LoadIpsecPskInternal mem (Some p) c1) (\<lambda>(eError, c).
        Ret (eError, if eError = IPSEC_OK then record_credential (pk_pcId p) pNew cr else cr, c)))"
      if "idle c1" and new: "\<forall>s. pk_pcId p = Some s \<longrightarrow> (\<exists>a. pNew = Some a \<and> length a = IPSEC_PSK_ID_CAPACITY \<and> cstr a = cstr s)" for c1 pNew
    proof (rule runs_bind [OF LoadIpsecPsk_runs [OF that(1) m]], clarify)
      fix e c2
      assume "idle c2"
      moreover have "cr_bMutexInitialized (record_credential (pk_pcId p) pNew cr) = cr_bMutexInitialized cr"
        by (simp add: record_credential_def split: option.split)
      ultimately show "runs (kept (Add_Psk p) cr) (Ret (e, if e = IPSEC_OK then record_credential (pk_pcId p) pNew cr else cr, c2))"
        using record_credential_ok [OF ok v new] same_credentials [OF ok] by (cases "e = IPSEC_OK") (auto simp: kept_def)
    qed
    show ?thesis
      using True e0
      by (simp add: AddIpsecPsk_def)
         (rule runs_bind [OF allocate_runs [OF c v]], clarsimp simp: same_credentials [OF ok], rule runs_lock,
          simp add: same_credentials [OF ok] load)
  qed
qed

lemma Remove_kept:
  assumes ok: "credentials_ok cr" and c: "idle c"
  shows "runs (kept (Remove_Psk i) cr) (RemoveIpsecPsk mem i (cr, c))"
proof (cases "cr_bMutexInitialized cr \<and> ValidateIpsecPskId i = IPSEC_OK")
  case False
  with ok c show ?thesis by (auto simp: RemoveIpsecPsk_def same_credentials)
next
  case True
  then obtain s where s: "i = Some s" by (auto simp: ValidateIpsecPskId_OK)
  have mutex: "cr_bMutexInitialized (unlink_credential s cr) = cr_bMutexInitialized cr"
    by (simp add: unlink_credential_def split: option.split)
  have "runs (kept (Remove_Psk i) cr) (exec_bind (UnloadIpsecPskInternal mem (Some s) (c\<lparr>script := os\<rparr>)) (\<lambda>(eError, c).
      Ret (eError, if eError = IPSEC_OK then unlink_credential s cr else cr, c)))" for os
    by (rule runs_bind [OF Unload_runs])
       (use c unlink_credential_ok [OF ok, of s] same_credentials [OF ok] mutex s in \<open>auto simp: kept_def\<close>)
  with True s c ok show ?thesis
    by (simp add: RemoveIpsecPsk_def) (rule runs_lock, simp add: same_credentials)
qed

lemma clear_owned_runs:
  "idle c \<Longrightarrow> runs (\<lambda>(e, left, c'). idle c' \<and> (\<exists>n. left = drop n xs) \<and> (e = IPSEC_OK \<longrightarrow> left = [])) (clear_owned mem xs c)"
proof (induction xs arbitrary: c)
  case (Cons x xs)
  show ?case
  proof (simp, rule runs_bind [OF Unload_runs [OF Cons.prems]], clarify)
    fix e c1
    assume "idle c1"
    have "\<exists>m. drop n xs = drop m (x # xs)" for n by (rule exI [of _ "Suc n"]) simp
    with Cons.IH [OF \<open>idle c1\<close>] \<open>idle c1\<close>
    show "runs (\<lambda>(e, left, c'). idle c' \<and> (\<exists>n. left = drop n (x # xs)) \<and> (e = IPSEC_OK \<longrightarrow> left = []))
        (if e = IPSEC_OK then clear_owned mem xs c1 else Ret (e, x # xs, c1))"
      by (auto elim!: runs_mono intro: exI [of _ 0])
  qed
qed simp

lemma Clear_Context_kept:
  assumes ok: "credentials_ok cr" and c: "idle c"
  shows "runs (kept Clear_Context cr) (ClearIpsecContextCredentials mem (cr, c))"
proof -
  have "runs (kept Clear_Context cr) (exec_bind (clear_owned mem (cr_pOwned cr) (c\<lparr>script := os\<rparr>)) (\<lambda>(eError, left, c).
      Ret (if eError = IPSEC_OK \<and> cr_bAnonymousLoaded cr then IPSEC_ERR_NOT_SUPPORTED else eError, cr\<lparr>cr_pOwned := left\<rparr>, c)))" for os
  proof (rule runs_bind [OF clear_owned_runs], simp add: c, clarify)
    fix e c1 n
    assume "idle c1" and e: "e = IPSEC_OK \<longrightarrow> drop n (cr_pOwned cr) = []"
    let ?cr = "cr\<lparr>cr_pOwned := drop n (cr_pOwned cr)\<rparr>"
    have "credentials_ok ?cr" "set (owned_ids ?cr) \<subseteq> set (owned_ids cr)"
      using ok set_drop_subset [of n "cr_pOwned cr"] distinct_drop [of "map cstr (cr_pOwned cr)" n]
      by (auto simp: credentials_ok_def owned_ids_def list_all_iff drop_map)
    with \<open>idle c1\<close> e show "runs (kept Clear_Context cr)
        (Ret (if e = IPSEC_OK \<and> cr_bAnonymousLoaded cr then IPSEC_ERR_NOT_SUPPORTED else e, ?cr, c1))"
      by (auto simp: kept_def credential_view_def owned_ids_def)
  qed
  with ok c show ?thesis
    by (auto simp: ClearIpsecContextCredentials_def same_credentials intro!: runs_lock)
qed

lemma Clear_Daemon_kept:
  assumes ok: "credentials_ok cr" and c: "idle c"
  shows "runs (kept Clear_Daemon cr) (ClearIpsecCredentials mem (cr, c))"
proof -
  have "runs (kept Clear_Daemon cr) (exec_bind (ClearAllViciCredentialsInternal mem (c\<lparr>script := os\<rparr>)) (\<lambda>(eError, c).
      Ret (eError, if eError = IPSEC_OK then (FreeOwnedIpsecCredentials cr)\<lparr>cr_bAnonymousLoaded := False\<rparr> else cr, c)))" for os
    by (rule runs_bind [OF ClearAll_runs])
       (use c same_credentials [OF ok] in \<open>auto simp: kept_def credentials_ok_def credential_view_def owned_ids_def FreeOwnedIpsecCredentials_def\<close>)
  with ok c show ?thesis
    by (auto simp: ClearIpsecCredentials_def ClearAllIpsecDaemonCredentials_def same_credentials intro!: runs_lock)
qed

fun run_credential_ops :: "memory \<Rightarrow> credential_op list \<Rightarrow> credentials \<Rightarrow> (IpsecError list \<times> credentials) exec" where
  "run_credential_ops mem [] s = Ret ([], s)"
| "run_credential_ops mem (oper # opers) s = exec_bind (run_credential_op mem oper s) (\<lambda>(e, s).
     exec_bind (run_credential_ops mem opers s) (\<lambda>(es, s). Ret (e # es, s)))"

fun credential_history :: "credential_op list \<Rightarrow> IpsecError list \<Rightarrow> credential_set \<Rightarrow> credential_set \<Rightarrow> bool" where
  "credential_history [] es v v' \<longleftrightarrow> es = [] \<and> v' = v"
| "credential_history (oper # opers) es v v' \<longleftrightarrow>
     (case es of [] \<Rightarrow> False | e # es \<Rightarrow> \<exists>v1. credential_spec oper e v v1 \<and> credential_history opers es v1 v')"

lemma operation_kept:
  "credentials_ok cr \<Longrightarrow> idle c \<Longrightarrow> op_memory oper \<Longrightarrow> runs (kept oper cr) (run_credential_op mem oper (cr, c))"
  by (cases oper) (simp_all add: Add_kept Remove_kept Clear_Context_kept Clear_Daemon_kept)

lemma operations_kept:
  "credentials_ok cr \<Longrightarrow> idle c \<Longrightarrow> list_all op_memory opers \<Longrightarrow>
   runs (\<lambda>(es, cr', c'). credentials_ok cr' \<and> idle c' \<and> credential_history opers es (credential_view cr) (credential_view cr'))
     (run_credential_ops mem opers (cr, c))"
proof (induction opers arbitrary: cr c)
  case (Cons oper opers)
  have m: "op_memory oper" using Cons.prems(3) by simp
  show ?case
  proof (simp only: run_credential_ops.simps, rule runs_bind [OF operation_kept [OF Cons.prems(1,2) m]], clarify)
    fix e cr1 c1
    assume k: "kept oper cr (e, cr1, c1)"
    then have ok: "credentials_ok cr1" "idle c1" "credential_spec oper e (credential_view cr) (credential_view cr1)"
      by (simp_all add: kept_def)
    have rest: "list_all op_memory opers" using Cons.prems(3) by simp
    show "runs (\<lambda>(es, cr', c'). credentials_ok cr' \<and> idle c' \<and> credential_history (oper # opers) es (credential_view cr) (credential_view cr'))
        (exec_bind (run_credential_ops mem opers (cr1, c1)) (\<lambda>(es, s). Ret (e # es, s)))"
      by (rule runs_bind [OF Cons.IH [OF ok(1,2) rest]]) (use ok(3) in \<open>auto simp del: split_paired_Ex\<close>)
  qed
qed simp


definition sample_psk :: IpsecPsk where
  "sample_psk = \<lparr>pk_uiStructSize = 48, pk_pcId = Some (lit ''k'' @ [0]), pk_pucData = Some [1, 2, 3], pk_uiDataLength = 3,
     pk_Owners = \<lparr>sl_ppcItems = None, sl_uiCount = 0\<rparr>\<rparr>"

definition no_credentials :: IpsecCredentialState where
  "no_credentials = \<lparr>cr_bMutexInitialized = True, cr_bAnonymousLoaded = False, cr_pOwned = []\<rparr>"

lemma samples_ok: "psk_memory sample_psk" "credentials_ok no_credentials" "idle (idle_command os)"
  by (simp_all add: psk_memory_def sample_psk_def list_ok_def credentials_ok_def no_credentials_def owned_ids_def idle_def idle_command_ok)

lemma sample_psk_valid: "ValidateIpsecPsk (Some sample_psk) = Some IPSEC_OK"
  by (simp add: ValidateIpsecPsk_def sample_psk_def psk_size_def IPSEC_PSK_MAX_LENGTH_def IPSEC_PSK_MAX_OWNERS_def
      ValidateIpsecPskId_def strnlen_def strlen_def cstr_def lit_def)

lemma sample_load_returns: "\<exists>e c'. LoadIpsecPskInternal mem (Some sample_psk) refused_command = Ret (e, c')"
proof -
  obtain e b where b: "psk_message (heap_now mem refused_command) sample_psk = Some (e, b)" "held True b"
    using psk_message_held [OF ValidateIpsecPsk_OK [OF sample_psk_valid] samples_ok(1)] by blast
  obtain d where d: "DestroyViciBuffer b = Some d" using Destroy_releasable [OF held_releasable [OF b(2)]] by blast
  obtain res c' where "ExecuteViciCommand mem (lit ''load-shared'') (Some b) None None None () refused_command = Ret (IPSEC_ERR_PERMISSION, res, (), c')"
    using refused_run [of mem "lit ''load-shared''" "Some b" None None "()"] by (auto simp: ExecuteViciCommand_def)
  with b d show ?thesis
    by (cases "e = IPSEC_OK") (simp_all add: LoadIpsecPskInternal_def sample_psk_valid destroy_local_def)
qed



end
