(* ===== verification/Vici_Fields.thy ===== *)
theory Vici_Fields
  imports Vici_Request
begin

text \<open>
  Collected structures: how one field of a structure is changed and what every such change promises, and how a list
  of structures grows (\<open>src/ike/vici/vici_sa.c\<close>, \<open>vici_stats.c\<close>, \<open>vici_algorithm.c\<close>).
\<close>

section \<open>Changes\<close>

text \<open>One more element at the end of a list, when its count and size allow it and \<open>realloc\<close> succeeds.\<close>

definition grow_list :: "heap \<Rightarrow> nat \<Rightarrow> 'i \<Rightarrow> 'i list \<Rightarrow> 'i list option" where
  "grow_list alloc zItemSize new xs =
     (if length xs = UINT32_MAX then None
      else case CalculateIpsecArraySize (of_nat (length xs + 1)) zItemSize (Some 0) of
        (True, Some zAllocationSize) \<Rightarrow> if alloc zAllocationSize = None then None else Some (xs @ [new])
      | _ \<Rightarrow> None)"

definition parse_u32 :: "nat \<Rightarrow> bytes option \<Rightarrow> nat \<Rightarrow> (IpsecError \<times> nat) option" where
  "parse_u32 base v old = map_option (\<lambda>(e, x). (e, the x)) (ParseIpsecUint32 v (value_length v) (Some old) base)"

definition parse_u64 :: "bytes option \<Rightarrow> nat \<Rightarrow> (IpsecError \<times> nat) option" where
  "parse_u64 v old = map_option (\<lambda>(e, x). (e, the x)) (ParseIpsecUint64 v (value_length v) (Some old) 10)"

text \<open>The change of one field of a structure.\<close>

definition set_field :: "('f \<Rightarrow> (IpsecError \<times> 'f) option) \<Rightarrow> ('i \<Rightarrow> 'f) \<Rightarrow> ('f \<Rightarrow> 'i \<Rightarrow> 'i) \<Rightarrow> 'i \<Rightarrow> (IpsecError \<times> 'i) option" where
  "set_field change get put n = change (get n) \<bind> (\<lambda>(e, f). Some (e, put f n))"

section \<open>What a change promises\<close>

text \<open>What a change of a structure promises: it returns, keeps the structure well formed, and on success its view is \<open>g\<close> of the old one.\<close>

definition info_step :: "('i \<Rightarrow> bool) \<Rightarrow> ('i \<Rightarrow> 'v) \<Rightarrow> ('v \<Rightarrow> 'v) \<Rightarrow> ('i \<Rightarrow> (IpsecError \<times> 'i) option) \<Rightarrow> bool" where
  "info_step ok view g f \<longleftrightarrow> (\<forall>n. ok n \<longrightarrow> (\<exists>e n'. f n = Some (e, n') \<and> ok n' \<and> (e = IPSEC_OK \<longrightarrow> view n' = g (view n))))"

lemma info_step_if:
  "(b \<Longrightarrow> info_step ok view g f) \<Longrightarrow> (\<not> b \<Longrightarrow> info_step ok view g f') \<Longrightarrow> info_step ok view g (\<lambda>n. if b then f n else f' n)"
  by (cases b) simp_all

lemma info_step_same: "info_step ok view (\<lambda>x. x) (\<lambda>n. Some (IPSEC_OK, n))"
  by (simp add: info_step_def)

lemma set_field_step:
  assumes "\<And>x. P x \<Longrightarrow> \<exists>e y. change x = Some (e, y) \<and> P y \<and> (e = IPSEC_OK \<longrightarrow> R y)"
    and "\<And>n. ok n \<Longrightarrow> P (get n)" and "\<And>n y. ok n \<Longrightarrow> P y \<Longrightarrow> ok (put y n)"
    and "\<And>n y. ok n \<Longrightarrow> R y \<Longrightarrow> view (put y n) = g (view n)"
  shows "info_step ok view g (set_field change get put)"
  unfolding info_step_def
proof (intro allI impI)
  fix n
  assume n: "ok n"
  from assms(1) [OF assms(2) [OF n]] obtain e y where "change (get n) = Some (e, y)" "P y" "e = IPSEC_OK \<longrightarrow> R y" by blast
  with assms(3,4) n show "\<exists>e n'. set_field change get put n = Some (e, n') \<and> ok n' \<and> (e = IPSEC_OK \<longrightarrow> view n' = g (view n))"
    by (auto simp: set_field_def)
qed

lemma copy_step: "text_ok n x \<Longrightarrow> \<exists>e y. copy_field n (Some v) x = Some (e, y) \<and> text_ok n y \<and> (e = IPSEC_OK \<longrightarrow> cstr y = cstr v)"
  using copy_field_ok [of x n v] by (auto simp: text_ok_def)

lemma append_step: "text_ok n x \<Longrightarrow> \<exists>e y. append_sep n sep (Some v) x = Some (e, y) \<and> text_ok n y \<and> (e = IPSEC_OK \<longrightarrow> True)"
  using append_sep_ok [of n x sep v] by blast

lemma mod_width: "(x :: nat) mod 2 ^ 64 \<le> UINT64_MAX" "(x :: nat) mod 2 ^ 32 \<le> UINT32_MAX"
  using mod_less_divisor [of "2 ^ 64" x] mod_less_divisor [of "2 ^ 32" x] by simp_all

lemma strtoull_bound: "fst (strtoull s b) \<le> UINT64_MAX"
  using mod_width(1) by (auto simp: strtoull_def Let_def)

lemma u64_step: "x \<le> UINT64_MAX \<Longrightarrow> \<exists>e y. parse_u64 (Some v) x = Some (e, y) \<and> y \<le> UINT64_MAX \<and> (e = IPSEC_OK \<longrightarrow> True)"
  using Uint64_text [of v x] strtoull_bound [of "cstr v" 10]
  by (auto simp: parse_u64_def value_length_def split: if_splits)

lemma u32_step:
  assumes "x \<le> UINT32_MAX"
  shows "\<exists>e y. parse_u32 b (Some v) x = Some (e, y) \<and> y \<le> UINT32_MAX \<and> (e = IPSEC_OK \<longrightarrow> True)"
proof -
  have "\<exists>e y. ParseIpsecUnsigned (Some v) (length v) (Some 0) b = Some (e, y)"
    by (auto simp: ParseIpsecUnsigned_def rd_bytes_def Let_def split: prod.split)
  then show ?thesis
    using assms mod_width(2) by (auto simp: parse_u32_def ParseIpsecUint32_def value_length_def)
qed

lemma copy_field_step:
  "(\<And>n. ok n \<Longrightarrow> text_ok m (get n)) \<Longrightarrow> (\<And>n y. ok n \<Longrightarrow> text_ok m y \<Longrightarrow> ok (put y n))
     \<Longrightarrow> (\<And>n y. ok n \<Longrightarrow> cstr y = cstr v \<Longrightarrow> view (put y n) = g (view n))
     \<Longrightarrow> info_step ok view g (set_field (copy_field m (Some v)) get put)"
  by (rule set_field_step [where P = "text_ok m" and R = "\<lambda>y. cstr y = cstr v", OF copy_step])

lemma append_field_step:
  "(\<And>n. ok n \<Longrightarrow> text_ok m (get n)) \<Longrightarrow> (\<And>n y. ok n \<Longrightarrow> text_ok m y \<Longrightarrow> ok (put y n))
     \<Longrightarrow> (\<And>n y. ok n \<Longrightarrow> view (put y n) = g (view n))
     \<Longrightarrow> info_step ok view g (set_field (append_sep m sep (Some v)) get put)"
  by (rule set_field_step [where P = "text_ok m" and R = "\<lambda>_. True", OF append_step])

lemma copy_fits:
  assumes "text_ok n dst" and "length v < n"
  shows "\<exists>t. copy_field n (Some v) dst = Some (IPSEC_OK, t) \<and> text_ok n t \<and> cstr t = cstr v"
proof -
  have "0 < n" "length dst = n" using assms(1) by (auto simp: text_ok_def)
  with CopyIpsecString_spec [of n dst "length v" v] assms(2) show ?thesis
    by (auto simp: copy_field_def value_length_def text_ok_def)
qed

lemma copy_limit: "text_ok n dst \<Longrightarrow> copy_field n (Some v) dst = Some (IPSEC_OK, t) \<Longrightarrow> length v < n"
  using CopyIpsecString_spec [of n dst "length v" v]
  by (auto simp: copy_field_def value_length_def text_ok_def bind_eq_Some_conv split: if_splits)

lemma text_prefix: "text_ok n x \<Longrightarrow> take (strnlen x n) x = cstr x \<and> length (cstr x) < n"
  by (auto simp: text_ok_def strlen_def strnlen_def cstr_def takeWhile_eq_take [symmetric])

lemma cstr_idem: "cstr (cstr x) = cstr x"
  by (simp add: cstr_def)

lemma grow_list_appends: "grow_list alloc z new xs = Some ys \<Longrightarrow> ys = xs @ [new]"
  by (auto simp: grow_list_def split: if_splits prod.splits option.splits bool.splits)

section \<open>Queries\<close>

text \<open>
  One command that collects, from the execution to the destruction of its request.
\<close>

lemma query_runs:
  assumes "idle c" and "held False b" and "callback_keeps W P ecb" and "callback_keeps W P rcb" and "W u" and "P u"
  shows "runs (\<lambda>(e, u', c'). idle c' \<and> W u' \<and> (e = IPSEC_OK \<longrightarrow> P u'))
    (exec_bind (if e0 = IPSEC_OK
        then exec_bind (ExecuteViciCommandUntil mem cmd (Some b) name ecb rcb u dl fd c) (\<lambda>(e, _, u, c). Ret (e, u, c))
        else Ret (e0, u, c)) (\<lambda>(e, u, c). exec_bind (destroy_local b c) (\<lambda>c. Ret (e, u, c))))"
proof -
  have wf: "message_wf (Some b)" using assms(2) by (simp add: message_wf_def held_def)
  note run = Execute_idle [OF assms(1) wf assms(3-6), where mem = mem and cmd = cmd and name = name and dl = dl and fd = fd]
  obtain d where d: "DestroyViciBuffer b = Some d"
    using Destroy_releasable [OF held_releasable [OF assms(2)]] by blast
  have sent: "runs (\<lambda>(e, u', c'). idle c' \<and> W u' \<and> (e = IPSEC_OK \<longrightarrow> P u'))
      (if e0 = IPSEC_OK then exec_bind (ExecuteViciCommandUntil mem cmd (Some b) name ecb rcb u dl fd c) (\<lambda>(e, _, u, c). Ret (e, u, c))
       else Ret (e0, u, c))"
    using assms(1,5,6) by (auto intro!: runs_bind [OF run])
  show ?thesis by (rule runs_bind [OF sent]) (auto simp: destroy_local_def d)
qed

end
