(* ===== verification/Vici_Sa.thy ===== *)
theory Vici_Sa
  imports Vici_Fields
begin

text \<open>
  Security associations, \<open>src/ike/vici/vici_sa.c\<close>, without the waits: the control commands (initiate, terminate, rekey) and
  the collection of the associations from the events of \<open>list-sas\<close>. The two lists of the collector are NULL when the
  caller did not ask for them; the pointers to the current element are indices.
\<close>

definition IPSEC_STATE_LENGTH :: nat where "IPSEC_STATE_LENGTH = 32"
definition IPSEC_ADDRESS_LENGTH :: nat where "IPSEC_ADDRESS_LENGTH = 64"
definition IPSEC_PROPOSAL_LENGTH :: nat where "IPSEC_PROPOSAL_LENGTH = 256"

section \<open>Control\<close>

definition MatchSaText :: "bytes option \<Rightarrow> bytes \<Rightarrow> bool" where
  "MatchSaText pucText pcExpected = (case pucText of None \<Rightarrow> False
     | Some t \<Rightarrow> length pcExpected = length t \<and> t = pcExpected)"

definition ValidateSaName :: "bytes option \<Rightarrow> IpsecError" where
  "ValidateSaName pcName = (case pcName of None \<Rightarrow> IPSEC_ERR_INVALID_ARGUMENT
     | Some s \<Rightarrow> let zLength = strnlen s IPSEC_NAME_LENGTH
         in if zLength = 0 \<or> IPSEC_NAME_LENGTH \<le> zLength then IPSEC_ERR_INVALID_ARGUMENT else IPSEC_OK)"

datatype IpsecControlMode = IPSEC_CONTROL_WAIT | IPSEC_CONTROL_IMMEDIATE | control_number nat

record IpsecControlOptions =
  op_uiStructSize :: nat
  op_eMode :: IpsecControlMode
  op_uiTimeoutMs :: u32

definition control_options_size :: nat where "control_options_size = 12"

text \<open>The text of the timeout, as \<open>snprintf\<close> writes it into 32 bytes, or an error.\<close>

definition control_timeout :: "nat \<Rightarrow> IpsecControlOptions option \<Rightarrow> bytes result" where
  "control_timeout uiLimitMs pOptions = (case pOptions of None \<Rightarrow> Inr (show_nat uiLimitMs)
     | Some p \<Rightarrow>
         if op_uiStructSize p \<noteq> control_options_size \<or> \<not> (op_eMode p = IPSEC_CONTROL_WAIT \<or> op_eMode p = IPSEC_CONTROL_IMMEDIATE)
         then Inl IPSEC_ERR_INVALID_ARGUMENT
         else if op_eMode p = IPSEC_CONTROL_IMMEDIATE then Inr (lit ''-1'')
         else let uiTimeoutMs = (if op_uiTimeoutMs p = 0 then uiLimitMs else unat (op_uiTimeoutMs p))
           in if uiLimitMs < uiTimeoutMs then Inl IPSEC_ERR_INVALID_ARGUMENT else Inr (show_nat uiTimeoutMs))"

definition AddSaControlTimeout :: "heap \<Rightarrow> nat \<Rightarrow> ViciBuffer \<Rightarrow> IpsecControlOptions option \<Rightarrow> buffer_result" where
  "AddSaControlTimeout heap uiLimitMs b pOptions = (case control_timeout uiLimitMs pOptions of
       Inl e \<Rightarrow> Some (e, b)
     | Inr t \<Rightarrow> if 32 \<le> length t then Some (IPSEC_ERR_BUFFER_TOO_SMALL, b)
         else AddViciKeyValueString heap b (Some (lit ''timeout'')) (Some t))"

definition control_message :: "heap \<Rightarrow> nat \<Rightarrow> string \<Rightarrow> bytes option \<Rightarrow> IpsecControlOptions option \<Rightarrow> bool \<Rightarrow> buffer_result" where
  "control_message heap uiLimitMs pcSelector pcName pOptions bAddTimeout =
     then_ok (then_ok (InitializeViciBuffer heap empty_ViciBuffer 128 False)
       (\<lambda>b. AddViciKeyValueString heap b (Some (lit pcSelector)) pcName))
       (\<lambda>b. if bAddTimeout then AddSaControlTimeout heap uiLimitMs b pOptions else Some (IPSEC_OK, b))"

definition ExecuteSaControl ::
  "memory \<Rightarrow> string \<Rightarrow> string \<Rightarrow> bytes option \<Rightarrow> IpsecControlOptions option \<Rightarrow> bool \<Rightarrow> IpsecError \<Rightarrow> command
     \<Rightarrow> (IpsecError \<times> command) exec" where
  "ExecuteSaControl mem pcCommand pcSelector pcName pOptions bAddTimeout eOperationError c =
     (let eError = ValidateSaName pcName
      in if eError \<noteq> IPSEC_OK then Ret (eError, c)
         else exec_bind (lift_option (control_message (heap_now mem c) (uiCommandTimeoutMs c) pcSelector pcName pOptions bAddTimeout))
             (\<lambda>(eError, Message).
           exec_bind (exec_bind (if eError = IPSEC_OK
               then exec_bind (ExecuteViciCommand mem (lit pcCommand) (Some Message) None None None () c) (\<lambda>(e, _, _, c). Ret (e, c))
               else Ret (eError, c)) (\<lambda>(eError, c). exec_bind (destroy_local Message c) (\<lambda>c. Ret (eError, c)))) (\<lambda>(eError, c).
             Ret (if eError = IPSEC_ERR_VICI_COMMAND then eOperationError else eError, c))))"

definition InitiateIpsecIke :: "memory \<Rightarrow> bytes option \<Rightarrow> IpsecControlOptions option \<Rightarrow> command \<Rightarrow> (IpsecError \<times> command) exec" where
  "InitiateIpsecIke mem n p = ExecuteSaControl mem ''initiate'' ''ike'' n p True IPSEC_ERR_IKE_FAILED"

definition TerminateIpsecIke :: "memory \<Rightarrow> bytes option \<Rightarrow> IpsecControlOptions option \<Rightarrow> command \<Rightarrow> (IpsecError \<times> command) exec" where
  "TerminateIpsecIke mem n p = ExecuteSaControl mem ''terminate'' ''ike'' n p True IPSEC_ERR_IKE_FAILED"

definition RekeyIpsecIke :: "memory \<Rightarrow> bytes option \<Rightarrow> command \<Rightarrow> (IpsecError \<times> command) exec" where
  "RekeyIpsecIke mem n = ExecuteSaControl mem ''rekey'' ''ike'' n None False IPSEC_ERR_IKE_FAILED"

definition InitiateIpsecChild :: "memory \<Rightarrow> bytes option \<Rightarrow> IpsecControlOptions option \<Rightarrow> command \<Rightarrow> (IpsecError \<times> command) exec" where
  "InitiateIpsecChild mem n p = ExecuteSaControl mem ''initiate'' ''child'' n p True IPSEC_ERR_CHILD_FAILED"

definition TerminateIpsecChild :: "memory \<Rightarrow> bytes option \<Rightarrow> IpsecControlOptions option \<Rightarrow> command \<Rightarrow> (IpsecError \<times> command) exec" where
  "TerminateIpsecChild mem n p = ExecuteSaControl mem ''terminate'' ''child'' n p True IPSEC_ERR_CHILD_FAILED"

definition RekeyIpsecChild :: "memory \<Rightarrow> bytes option \<Rightarrow> command \<Rightarrow> (IpsecError \<times> command) exec" where
  "RekeyIpsecChild mem n = ExecuteSaControl mem ''rekey'' ''child'' n None False IPSEC_ERR_CHILD_FAILED"

section \<open>Collecting\<close>

record IpsecIkeSaInfo =
  ik_acName :: bytes
  ik_acState :: bytes
  ik_bEstablished :: bool
  ik_bInitiator :: bool
  ik_bNatLocal :: bool
  ik_bNatRemote :: bool
  ik_acLocalAddress :: bytes
  ik_acRemoteAddress :: bytes
  ik_acLocalId :: bytes
  ik_acRemoteId :: bytes
  ik_acProposal :: bytes
  ik_ullUniqueId :: nat
  ik_ullEstablishedTimeMs :: nat
  ik_ullRekeyTimeMs :: nat

record IpsecChildSaInfo =
  cd_acIkeName :: bytes
  cd_acName :: bytes
  cd_acState :: bytes
  cd_acProposal :: bytes
  cd_acLocalTrafficSelectors :: bytes
  cd_acRemoteTrafficSelectors :: bytes
  cd_eMode :: IpsecMode
  cd_bEsn :: bool
  cd_bUdpEncapsulation :: bool
  cd_uiReqid :: nat
  cd_uiInboundSpi :: nat
  cd_uiOutboundSpi :: nat
  cd_ullBytesIn :: nat
  cd_ullBytesOut :: nat
  cd_ullPacketsIn :: nat
  cd_ullPacketsOut :: nat
  cd_ullInstallTimeMs :: nat
  cd_ullRekeyTimeMs :: nat
  cd_ullLifetimeMs :: nat

definition zero_ike :: IpsecIkeSaInfo where
  "zero_ike = \<lparr>ik_acName = replicate IPSEC_NAME_LENGTH 0, ik_acState = replicate IPSEC_STATE_LENGTH 0, ik_bEstablished = False,
     ik_bInitiator = False, ik_bNatLocal = False, ik_bNatRemote = False,
     ik_acLocalAddress = replicate IPSEC_ADDRESS_LENGTH 0, ik_acRemoteAddress = replicate IPSEC_ADDRESS_LENGTH 0,
     ik_acLocalId = replicate IPSEC_ID_LENGTH 0, ik_acRemoteId = replicate IPSEC_ID_LENGTH 0,
     ik_acProposal = replicate IPSEC_PROPOSAL_LENGTH 0, ik_ullUniqueId = 0, ik_ullEstablishedTimeMs = 0, ik_ullRekeyTimeMs = 0\<rparr>"

definition zero_child :: IpsecChildSaInfo where
  "zero_child = \<lparr>cd_acIkeName = replicate IPSEC_NAME_LENGTH 0, cd_acName = replicate IPSEC_NAME_LENGTH 0,
     cd_acState = replicate IPSEC_STATE_LENGTH 0, cd_acProposal = replicate IPSEC_PROPOSAL_LENGTH 0,
     cd_acLocalTrafficSelectors = replicate IPSEC_SELECTOR_LIST_LENGTH 0,
     cd_acRemoteTrafficSelectors = replicate IPSEC_SELECTOR_LIST_LENGTH 0, cd_eMode = IPSEC_MODE_UNKNOWN, cd_bEsn = False,
     cd_bUdpEncapsulation = False, cd_uiReqid = 0, cd_uiInboundSpi = 0, cd_uiOutboundSpi = 0, cd_ullBytesIn = 0,
     cd_ullBytesOut = 0, cd_ullPacketsIn = 0, cd_ullPacketsOut = 0, cd_ullInstallTimeMs = 0, cd_ullRekeyTimeMs = 0,
     cd_ullLifetimeMs = 0\<rparr>"

text \<open>The sizes of the structures on the LP64 targets.\<close>

definition ike_info_size :: nat where "ike_info_size = 768"
definition child_info_size :: nat where "child_info_size = 1520"

record SaCollector =
  sc_pIkeList :: "IpsecIkeSaInfo list option"
  sc_pChildList :: "IpsecChildSaInfo list option"
  sc_pCurrentIke :: "nat option"
  sc_pCurrentChild :: "nat option"
  sc_acCurrentIkeName :: bytes
  sc_aacSections :: "bytes list"
  sc_acListName :: bytes

definition AppendIkeSa :: "heap \<Rightarrow> SaCollector \<Rightarrow> IpsecError \<times> SaCollector" where
  "AppendIkeSa alloc co = (case sc_pIkeList co of None \<Rightarrow> (IPSEC_OK, co\<lparr>sc_pCurrentIke := None\<rparr>)
     | Some xs \<Rightarrow> (case grow_list alloc ike_info_size zero_ike xs of None \<Rightarrow> (IPSEC_ERR_NO_MEMORY, co)
         | Some ys \<Rightarrow> (IPSEC_OK, co\<lparr>sc_pIkeList := Some ys, sc_pCurrentIke := Some (length xs)\<rparr>)))"

definition AppendChildSa :: "heap \<Rightarrow> SaCollector \<Rightarrow> IpsecError \<times> SaCollector" where
  "AppendChildSa alloc co = (case sc_pChildList co of None \<Rightarrow> (IPSEC_OK, co\<lparr>sc_pCurrentChild := None\<rparr>)
     | Some xs \<Rightarrow> (case grow_list alloc child_info_size zero_child xs of None \<Rightarrow> (IPSEC_ERR_NO_MEMORY, co)
         | Some ys \<Rightarrow> (IPSEC_OK, co\<lparr>sc_pChildList := Some ys, sc_pCurrentChild := Some (length xs)\<rparr>)))"

subsection \<open>Values\<close>

definition ParseSaSeconds :: "bytes option \<Rightarrow> nat \<Rightarrow> (IpsecError \<times> nat) option" where
  "ParseSaSeconds v ullMilliseconds =
     ParseIpsecUint64 v (value_length v) (Some 0) 10 \<bind> (\<lambda>(eError, ullSeconds).
       if eError = IPSEC_OK \<and> UINT64_MAX div 1000 < the ullSeconds then Some (IPSEC_ERR_VICI_PROTOCOL, ullMilliseconds)
       else if eError = IPSEC_OK then Some (eError, the ullSeconds * 1000 mod 2 ^ 64)
       else Some (eError, ullMilliseconds))"

definition ParseSaBoolean :: "bytes option \<Rightarrow> bool \<Rightarrow> (IpsecError \<times> bool) option" where
  "ParseSaBoolean v b =
     (if MatchSaText v (lit ''yes'') \<or> MatchSaText v (lit ''1'') then Some (IPSEC_OK, True)
      else if MatchSaText v (lit ''no'') \<or> MatchSaText v (lit ''0'') then Some (IPSEC_OK, False)
      else Some (IPSEC_ERR_VICI_PROTOCOL, b))"

definition AppendSaProposal :: "bytes option \<Rightarrow> bytes \<Rightarrow> (IpsecError \<times> bytes) option" where
  "AppendSaProposal v = append_sep IPSEC_PROPOSAL_LENGTH (lit ''/'') v"

definition AppendSaKeySize :: "bytes option \<Rightarrow> bytes \<Rightarrow> (IpsecError \<times> bytes) option" where
  "AppendSaKeySize v dst = ParseIpsecUint32 v (value_length v) (Some 0) 10 \<bind> (\<lambda>(eError, uiKeySize).
     if eError = IPSEC_OK \<and> uiKeySize = Some 0 then Some (IPSEC_ERR_VICI_PROTOCOL, dst)
     else if eError = IPSEC_OK then append_sep IPSEC_PROPOSAL_LENGTH (lit ''-'') v dst
     else Some (eError, dst))"

definition proposal_key :: "bytes option \<Rightarrow> bool" where
  "proposal_key k \<longleftrightarrow> MatchSaText k (lit ''encr-alg'') \<or> MatchSaText k (lit ''integ-alg'')
     \<or> MatchSaText k (lit ''prf-alg'') \<or> MatchSaText k (lit ''dh-group'')"

text \<open>\<open>CollectIkeValue\<close> on the current structure, when there is one.\<close>

definition ike_value :: "bytes option \<Rightarrow> bytes option \<Rightarrow> IpsecIkeSaInfo \<Rightarrow> (IpsecError \<times> IpsecIkeSaInfo) option" where
  "ike_value k v n =
     (if MatchSaText k (lit ''uniqueid'') then set_field (parse_u64 v) ik_ullUniqueId (\<lambda>x n. n\<lparr>ik_ullUniqueId := x\<rparr>) n
      else if MatchSaText k (lit ''state'') then
        set_field (copy_field IPSEC_STATE_LENGTH v) ik_acState (\<lambda>x n. n\<lparr>ik_acState := x\<rparr>) n \<bind> (\<lambda>(e, n).
          Some (e, if e = IPSEC_OK then n\<lparr>ik_bEstablished := MatchSaText v (lit ''ESTABLISHED'')\<rparr> else n))
      else if MatchSaText k (lit ''local-host'') then set_field (copy_field IPSEC_ADDRESS_LENGTH v) ik_acLocalAddress (\<lambda>x n. n\<lparr>ik_acLocalAddress := x\<rparr>) n
      else if MatchSaText k (lit ''remote-host'') then set_field (copy_field IPSEC_ADDRESS_LENGTH v) ik_acRemoteAddress (\<lambda>x n. n\<lparr>ik_acRemoteAddress := x\<rparr>) n
      else if MatchSaText k (lit ''local-id'') then set_field (copy_field IPSEC_ID_LENGTH v) ik_acLocalId (\<lambda>x n. n\<lparr>ik_acLocalId := x\<rparr>) n
      else if MatchSaText k (lit ''remote-id'') then set_field (copy_field IPSEC_ID_LENGTH v) ik_acRemoteId (\<lambda>x n. n\<lparr>ik_acRemoteId := x\<rparr>) n
      else if MatchSaText k (lit ''initiator'') then set_field (ParseSaBoolean v) ik_bInitiator (\<lambda>x n. n\<lparr>ik_bInitiator := x\<rparr>) n
      else if MatchSaText k (lit ''nat-local'') then set_field (ParseSaBoolean v) ik_bNatLocal (\<lambda>x n. n\<lparr>ik_bNatLocal := x\<rparr>) n
      else if MatchSaText k (lit ''nat-remote'') then set_field (ParseSaBoolean v) ik_bNatRemote (\<lambda>x n. n\<lparr>ik_bNatRemote := x\<rparr>) n
      else if MatchSaText k (lit ''established'') then set_field (ParseSaSeconds v) ik_ullEstablishedTimeMs (\<lambda>x n. n\<lparr>ik_ullEstablishedTimeMs := x\<rparr>) n
      else if MatchSaText k (lit ''rekey-time'') then set_field (ParseSaSeconds v) ik_ullRekeyTimeMs (\<lambda>x n. n\<lparr>ik_ullRekeyTimeMs := x\<rparr>) n
      else if proposal_key k then set_field (AppendSaProposal v) ik_acProposal (\<lambda>x n. n\<lparr>ik_acProposal := x\<rparr>) n
      else if MatchSaText k (lit ''encr-keysize'') then set_field (AppendSaKeySize v) ik_acProposal (\<lambda>x n. n\<lparr>ik_acProposal := x\<rparr>) n
      else Some (IPSEC_OK, n))"

definition sa_mode :: "bytes option \<Rightarrow> IpsecMode" where
  "sa_mode v =
     (if MatchSaText v (lit ''tunnel'') \<or> MatchSaText v (lit ''TUNNEL'') then IPSEC_MODE_TUNNEL
      else if MatchSaText v (lit ''transport'') \<or> MatchSaText v (lit ''TRANSPORT'') then IPSEC_MODE_TRANSPORT
      else if MatchSaText v (lit ''beet'') \<or> MatchSaText v (lit ''BEET'') then IPSEC_MODE_BEET
      else IPSEC_MODE_UNKNOWN)"

text \<open>\<open>CollectChildValue\<close> on the current structure: the numbers first and last in two parts.\<close>

definition child_counter :: "bytes option \<Rightarrow> bytes option \<Rightarrow> IpsecChildSaInfo \<Rightarrow> (IpsecError \<times> IpsecChildSaInfo) option" where
  "child_counter k v n =
     (if MatchSaText k (lit ''bytes-in'') then set_field (parse_u64 v) cd_ullBytesIn (\<lambda>x n. n\<lparr>cd_ullBytesIn := x\<rparr>) n
      else if MatchSaText k (lit ''bytes-out'') then set_field (parse_u64 v) cd_ullBytesOut (\<lambda>x n. n\<lparr>cd_ullBytesOut := x\<rparr>) n
      else if MatchSaText k (lit ''packets-in'') then set_field (parse_u64 v) cd_ullPacketsIn (\<lambda>x n. n\<lparr>cd_ullPacketsIn := x\<rparr>) n
      else if MatchSaText k (lit ''packets-out'') then set_field (parse_u64 v) cd_ullPacketsOut (\<lambda>x n. n\<lparr>cd_ullPacketsOut := x\<rparr>) n
      else if MatchSaText k (lit ''install-time'') then set_field (ParseSaSeconds v) cd_ullInstallTimeMs (\<lambda>x n. n\<lparr>cd_ullInstallTimeMs := x\<rparr>) n
      else if MatchSaText k (lit ''rekey-time'') then set_field (ParseSaSeconds v) cd_ullRekeyTimeMs (\<lambda>x n. n\<lparr>cd_ullRekeyTimeMs := x\<rparr>) n
      else if MatchSaText k (lit ''life-time'') then set_field (ParseSaSeconds v) cd_ullLifetimeMs (\<lambda>x n. n\<lparr>cd_ullLifetimeMs := x\<rparr>) n
      else if proposal_key k then set_field (AppendSaProposal v) cd_acProposal (\<lambda>x n. n\<lparr>cd_acProposal := x\<rparr>) n
      else if MatchSaText k (lit ''encr-keysize'') then set_field (AppendSaKeySize v) cd_acProposal (\<lambda>x n. n\<lparr>cd_acProposal := x\<rparr>) n
      else Some (IPSEC_OK, n))"

definition child_value :: "bytes option \<Rightarrow> bytes option \<Rightarrow> IpsecChildSaInfo \<Rightarrow> (IpsecError \<times> IpsecChildSaInfo) option" where
  "child_value k v n =
     (if MatchSaText k (lit ''name'') then set_field (copy_field IPSEC_NAME_LENGTH v) cd_acName (\<lambda>x n. n\<lparr>cd_acName := x\<rparr>) n
      else if MatchSaText k (lit ''state'') then set_field (copy_field IPSEC_STATE_LENGTH v) cd_acState (\<lambda>x n. n\<lparr>cd_acState := x\<rparr>) n
      else if MatchSaText k (lit ''reqid'') then set_field (parse_u32 10 v) cd_uiReqid (\<lambda>x n. n\<lparr>cd_uiReqid := x\<rparr>) n
      else if MatchSaText k (lit ''spi-in'') then set_field (parse_u32 16 v) cd_uiInboundSpi (\<lambda>x n. n\<lparr>cd_uiInboundSpi := x\<rparr>) n
      else if MatchSaText k (lit ''spi-out'') then set_field (parse_u32 16 v) cd_uiOutboundSpi (\<lambda>x n. n\<lparr>cd_uiOutboundSpi := x\<rparr>) n
      else if MatchSaText k (lit ''mode'') then Some (IPSEC_OK, n\<lparr>cd_eMode := sa_mode v\<rparr>)
      else if MatchSaText k (lit ''encap'') then set_field (ParseSaBoolean v) cd_bUdpEncapsulation (\<lambda>x n. n\<lparr>cd_bUdpEncapsulation := x\<rparr>) n
      else if MatchSaText k (lit ''esn'') then set_field (ParseSaBoolean v) cd_bEsn (\<lambda>x n. n\<lparr>cd_bEsn := x\<rparr>) n
      else child_counter k v n)"

subsection \<open>Elements\<close>

definition on_ike :: "SaCollector \<Rightarrow> (IpsecIkeSaInfo \<Rightarrow> (IpsecError \<times> IpsecIkeSaInfo) option) \<Rightarrow> (IpsecError \<times> SaCollector) option" where
  "on_ike co f = (case sc_pCurrentIke co of None \<Rightarrow> Some (IPSEC_OK, co)
     | Some i \<Rightarrow> (case sc_pIkeList co of None \<Rightarrow> None
         | Some xs \<Rightarrow> if i < length xs then f (xs ! i) \<bind> (\<lambda>(e, n). Some (e, co\<lparr>sc_pIkeList := Some (xs[i := n])\<rparr>)) else None))"

definition on_child :: "SaCollector \<Rightarrow> (IpsecChildSaInfo \<Rightarrow> (IpsecError \<times> IpsecChildSaInfo) option) \<Rightarrow> (IpsecError \<times> SaCollector) option" where
  "on_child co f = (case sc_pCurrentChild co of None \<Rightarrow> Some (IPSEC_OK, co)
     | Some i \<Rightarrow> (case sc_pChildList co of None \<Rightarrow> None
         | Some xs \<Rightarrow> if i < length xs then f (xs ! i) \<bind> (\<lambda>(e, n). Some (e, co\<lparr>sc_pChildList := Some (xs[i := n])\<rparr>)) else None))"

text \<open>
  The names of a new CHILD_SA: that of its IKE_SA, and its section name as long as nothing better is known.
\<close>

definition name_child :: "bytes \<Rightarrow> bytes option \<Rightarrow> IpsecChildSaInfo \<Rightarrow> (IpsecError \<times> IpsecChildSaInfo) option" where
  "name_child acIkeName pucName n =
     set_field (copy_field IPSEC_NAME_LENGTH (Some (take (strnlen acIkeName IPSEC_NAME_LENGTH) acIkeName))) cd_acIkeName
       (\<lambda>x n. n\<lparr>cd_acIkeName := x\<rparr>) n \<bind> (\<lambda>(e, n).
       if e = IPSEC_OK
       then set_field (copy_field IPSEC_NAME_LENGTH pucName) cd_acName (\<lambda>x n. n\<lparr>cd_acName := x\<rparr>) n \<bind> (\<lambda>(e2, n).
         if e2 \<noteq> IPSEC_OK then write_at (cd_acName n) 0 [0] \<bind> (\<lambda>t. Some (IPSEC_OK, n\<lparr>cd_acName := t\<rparr>)) else Some (IPSEC_OK, n))
       else Some (e, n))"

definition open_ike :: "heap \<Rightarrow> bytes option \<Rightarrow> SaCollector \<Rightarrow> (IpsecError \<times> SaCollector) option" where
  "open_ike alloc pucName co = copy_field IPSEC_NAME_LENGTH pucName (sc_acCurrentIkeName co) \<bind> (\<lambda>(eError, t).
     let co = co\<lparr>sc_acCurrentIkeName := t\<rparr>
     in case (if eError = IPSEC_OK then AppendIkeSa alloc co else (eError, co)) of (eError, co) \<Rightarrow>
        if eError = IPSEC_OK
        then on_ike co (set_field (copy_field IPSEC_NAME_LENGTH pucName) ik_acName (\<lambda>x n. n\<lparr>ik_acName := x\<rparr>))
        else Some (eError, co))"

definition open_child :: "heap \<Rightarrow> bytes option \<Rightarrow> SaCollector \<Rightarrow> (IpsecError \<times> SaCollector) option" where
  "open_child alloc pucName co = (case AppendChildSa alloc co of (eError, co) \<Rightarrow>
     if eError = IPSEC_OK then on_child co (name_child (sc_acCurrentIkeName co) pucName) else Some (eError, co))"

definition CollectSaSectionStart :: "heap \<Rightarrow> ViciElement \<Rightarrow> SaCollector \<Rightarrow> (IpsecError \<times> SaCollector) option" where
  "CollectSaSectionStart alloc el co =
     (let uiIndex = el_uiDepth el - 1
      in if el_uiDepth el = 0 \<or> length (sc_aacSections co) \<le> uiIndex then None
         else copy_field IPSEC_NAME_LENGTH (el_pucName el) (sc_aacSections co ! uiIndex) \<bind> (\<lambda>(eError, t).
           let co = co\<lparr>sc_aacSections := (sc_aacSections co)[uiIndex := t]\<rparr>
           in if eError = IPSEC_OK \<and> el_uiDepth el = 1 then open_ike alloc (el_pucName el) co
              else if eError = IPSEC_OK \<and> el_uiDepth el = 3 \<and> cstr (sc_aacSections co ! 1) = lit ''child-sas''
              then open_child alloc (el_pucName el) co
              else Some (eError, co)))"

definition collect_sa_end :: "ViciElement \<Rightarrow> SaCollector \<Rightarrow> (IpsecError \<times> SaCollector) option" where
  "collect_sa_end el co =
     (if el_uiDepth el = 0 \<or> VICI_MAX_SECTION_DEPTH < el_uiDepth el then Some (IPSEC_ERR_VICI_PROTOCOL, co)
      else (if el_uiDepth el = 3 then Some (co\<lparr>sc_pCurrentChild := None\<rparr>)
            else if el_uiDepth el = 1
            then write_at (sc_acCurrentIkeName co) 0 [0] \<bind> (\<lambda>t. Some (co\<lparr>sc_pCurrentIke := None, sc_acCurrentIkeName := t\<rparr>))
            else Some co) \<bind> (\<lambda>co.
        if el_uiDepth el - 1 < length (sc_aacSections co)
        then write_at (sc_aacSections co ! (el_uiDepth el - 1)) 0 [0] \<bind> (\<lambda>t.
               Some (IPSEC_OK, co\<lparr>sc_aacSections := (sc_aacSections co)[el_uiDepth el - 1 := t]\<rparr>))
        else None))"

definition collect_sa_item :: "ViciElement \<Rightarrow> SaCollector \<Rightarrow> (IpsecError \<times> SaCollector) option" where
  "collect_sa_item el co =
     (if cstr (sc_acListName co) = lit ''local-ts''
      then on_child co (set_field (append_sep IPSEC_SELECTOR_LIST_LENGTH (lit '','') (el_pucValue el)) cd_acLocalTrafficSelectors
             (\<lambda>x n. n\<lparr>cd_acLocalTrafficSelectors := x\<rparr>))
      else if cstr (sc_acListName co) = lit ''remote-ts''
      then on_child co (set_field (append_sep IPSEC_SELECTOR_LIST_LENGTH (lit '','') (el_pucValue el)) cd_acRemoteTrafficSelectors
             (\<lambda>x n. n\<lparr>cd_acRemoteTrafficSelectors := x\<rparr>))
      else Some (IPSEC_OK, co))"

definition CollectSaElement :: "heap \<Rightarrow> ViciElement \<Rightarrow> SaCollector \<Rightarrow> (IpsecError \<times> SaCollector) option" where
  "CollectSaElement alloc el co = (case el_eType el of
       SECTION_START \<Rightarrow> CollectSaSectionStart alloc el co
     | SECTION_END \<Rightarrow> collect_sa_end el co
     | LIST_START \<Rightarrow> copy_field IPSEC_NAME_LENGTH (el_pucName el) (sc_acListName co) \<bind> (\<lambda>(e, t). Some (e, co\<lparr>sc_acListName := t\<rparr>))
     | LIST_END \<Rightarrow> write_at (sc_acListName co) 0 [0] \<bind> (\<lambda>t. Some (IPSEC_OK, co\<lparr>sc_acListName := t\<rparr>))
     | LIST_ITEM \<Rightarrow> if el_uiDepth el = 3 \<and> sc_pCurrentChild co \<noteq> None then collect_sa_item el co else Some (IPSEC_OK, co)
     | KEY_VALUE \<Rightarrow>
         if el_uiDepth el = 1 then on_ike co (ike_value (el_pucName el) (el_pucValue el))
         else if el_uiDepth el = 3 \<and> cstr (sc_aacSections co ! 1) = lit ''child-sas''
         then on_child co (child_value (el_pucName el) (el_pucValue el))
         else Some (IPSEC_OK, co))"

definition CollectSaEvent :: "heap \<Rightarrow> SaCollector message_callback" where
  "CollectSaEvent alloc = collect_message (CollectSaElement alloc)"

definition new_collector :: "bool \<Rightarrow> bool \<Rightarrow> SaCollector" where
  "new_collector bIke bChild = \<lparr>sc_pIkeList = (if bIke then Some [] else None), sc_pChildList = (if bChild then Some [] else None),
     sc_pCurrentIke = None, sc_pCurrentChild = None, sc_acCurrentIkeName = replicate IPSEC_NAME_LENGTH 0,
     sc_aacSections = replicate VICI_MAX_SECTION_DEPTH (replicate IPSEC_NAME_LENGTH 0),
     sc_acListName = replicate IPSEC_NAME_LENGTH 0\<rparr>"

text \<open>The lists that were asked for, as far as they were collected.\<close>

definition QueryIpsecSas ::
  "memory \<Rightarrow> heap \<Rightarrow> bool \<Rightarrow> bool \<Rightarrow> nat \<Rightarrow> int \<Rightarrow> command
     \<Rightarrow> (IpsecError \<times> IpsecIkeSaInfo list \<times> IpsecChildSaInfo list \<times> command) exec" where
  "QueryIpsecSas mem alloc bIke bChild ullDeadlineMs iCancelFd c =
     (if \<not> bIke \<and> \<not> bChild then Ret (IPSEC_ERR_INVALID_ARGUMENT, [], [], c)
      else exec_bind (lift_option (InitializeViciBuffer (heap_now mem c) empty_ViciBuffer 1 False)) (\<lambda>(eError, Request).
        exec_bind (if eError = IPSEC_OK
            then exec_bind (ExecuteViciCommandUntil mem (lit ''list-sas'') (Some Request) (Some (lit ''list-sa''))
                   (Some (CollectSaEvent alloc)) None (new_collector bIke bChild) ullDeadlineMs iCancelFd c) (\<lambda>(e, _, co, c). Ret (e, co, c))
            else Ret (eError, new_collector bIke bChild, c)) (\<lambda>(eError, co, c).
          exec_bind (destroy_local Request c) (\<lambda>c.
            Ret (eError, case sc_pIkeList co of None \<Rightarrow> [] | Some xs \<Rightarrow> xs, case sc_pChildList co of None \<Rightarrow> [] | Some xs \<Rightarrow> xs, c)))))"

definition GetIpsecIkeSas :: "memory \<Rightarrow> heap \<Rightarrow> command \<Rightarrow> (IpsecError \<times> IpsecIkeSaInfo list \<times> command) exec" where
  "GetIpsecIkeSas mem alloc c = exec_bind (QueryIpsecSas mem alloc True False 0 (- 1) c) (\<lambda>(eError, ikes, _, c).
     Ret (eError, if eError \<noteq> IPSEC_OK then [] else ikes, c))"

definition GetIpsecChildSas :: "memory \<Rightarrow> heap \<Rightarrow> command \<Rightarrow> (IpsecError \<times> IpsecChildSaInfo list \<times> command) exec" where
  "GetIpsecChildSas mem alloc c = exec_bind (QueryIpsecSas mem alloc False True 0 (- 1) c) (\<lambda>(eError, _, childs, c).
     Ret (eError, if eError \<noteq> IPSEC_OK then [] else childs, c))"

section \<open>What the collector computes\<close>

text \<open>
  The reference, on what the users of the lists decide by: name and establishment of the IKE_SAs, and IKE name, name and
  state of the CHILD_SAs. A list that was not asked for is \<open>None\<close>.
\<close>

type_synonym ike_view = "bytes \<times> bool"
type_synonym child_view = "bytes \<times> bytes \<times> bytes"

definition view_ike :: "IpsecIkeSaInfo \<Rightarrow> ike_view" where
  "view_ike n = (cstr (ik_acName n), ik_bEstablished n)"

definition view_child :: "IpsecChildSaInfo \<Rightarrow> child_view" where
  "view_child n = (cstr (cd_acIkeName n), cstr (cd_acName n), cstr (cd_acState n))"

definition note_ike :: "bytes \<Rightarrow> bytes \<Rightarrow> ike_view \<Rightarrow> ike_view" where
  "note_ike k v i = (if k = lit ''state'' then (fst i, v = lit ''ESTABLISHED'') else i)"

definition note_child :: "bytes \<Rightarrow> bytes \<Rightarrow> child_view \<Rightarrow> child_view" where
  "note_child k v = (\<lambda>(ike, name, state). if k = lit ''name'' then (ike, cstr v, state)
     else if k = lit ''state'' then (ike, name, cstr v) else (ike, name, state))"

text \<open>The lists, whether an element of each is open, the name of the open IKE_SA and of the open sections.\<close>

type_synonym sa_snapshot = "ike_view list option \<times> child_view list option \<times> bool \<times> bool \<times> bytes \<times> bytes list"

fun note_sa :: "ViciElement \<Rightarrow> sa_snapshot \<Rightarrow> sa_snapshot" where
  "note_sa ev (ikes, childs, ci, cc, ike, secs) =
     (let d = el_uiDepth ev; n = the (el_pucName ev); v = the (el_pucValue ev)
      in case el_eType ev of
           SECTION_START \<Rightarrow> (let secs = secs[d - 1 := cstr n]
             in if d = 1 then (map_option (\<lambda>xs. xs @ [(cstr n, False)]) ikes, childs, ikes \<noteq> None, cc, cstr n, secs)
                else if d = 3 \<and> secs ! 1 = lit ''child-sas''
                then (ikes, map_option (\<lambda>xs. xs @ [(ike, cstr n, [])]) childs, ci, childs \<noteq> None, ike, secs)
                else (ikes, childs, ci, cc, ike, secs))
         | SECTION_END \<Rightarrow> (ikes, childs, ci \<and> d \<noteq> 1, cc \<and> d \<noteq> 3, if d = 1 then [] else ike, secs[d - 1 := []])
         | KEY_VALUE \<Rightarrow> (if d = 1 \<and> ci then map_option (on_last (note_ike n v)) ikes else ikes,
             if d = 3 \<and> cc \<and> secs ! 1 = lit ''child-sas'' then map_option (on_last (note_child n v)) childs else childs,
             ci, cc, ike, secs)
         | _ \<Rightarrow> (ikes, childs, ci, cc, ike, secs))"

text \<open>The structures fit their C types: terminated texts in their arrays, numbers within their width.\<close>

definition ike_ok :: "IpsecIkeSaInfo \<Rightarrow> bool" where
  "ike_ok n \<longleftrightarrow> text_ok IPSEC_NAME_LENGTH (ik_acName n) \<and> text_ok IPSEC_STATE_LENGTH (ik_acState n)
     \<and> text_ok IPSEC_ADDRESS_LENGTH (ik_acLocalAddress n) \<and> text_ok IPSEC_ADDRESS_LENGTH (ik_acRemoteAddress n)
     \<and> text_ok IPSEC_ID_LENGTH (ik_acLocalId n) \<and> text_ok IPSEC_ID_LENGTH (ik_acRemoteId n)
     \<and> text_ok IPSEC_PROPOSAL_LENGTH (ik_acProposal n) \<and> ik_ullUniqueId n \<le> UINT64_MAX
     \<and> ik_ullEstablishedTimeMs n \<le> UINT64_MAX \<and> ik_ullRekeyTimeMs n \<le> UINT64_MAX"

definition child_ok :: "IpsecChildSaInfo \<Rightarrow> bool" where
  "child_ok n \<longleftrightarrow> text_ok IPSEC_NAME_LENGTH (cd_acIkeName n) \<and> text_ok IPSEC_NAME_LENGTH (cd_acName n)
     \<and> text_ok IPSEC_STATE_LENGTH (cd_acState n) \<and> text_ok IPSEC_PROPOSAL_LENGTH (cd_acProposal n)
     \<and> text_ok IPSEC_SELECTOR_LIST_LENGTH (cd_acLocalTrafficSelectors n)
     \<and> text_ok IPSEC_SELECTOR_LIST_LENGTH (cd_acRemoteTrafficSelectors n)
     \<and> cd_uiReqid n \<le> UINT32_MAX \<and> cd_uiInboundSpi n \<le> UINT32_MAX \<and> cd_uiOutboundSpi n \<le> UINT32_MAX
     \<and> cd_ullBytesIn n \<le> UINT64_MAX \<and> cd_ullBytesOut n \<le> UINT64_MAX \<and> cd_ullPacketsIn n \<le> UINT64_MAX
     \<and> cd_ullPacketsOut n \<le> UINT64_MAX \<and> cd_ullInstallTimeMs n \<le> UINT64_MAX \<and> cd_ullRekeyTimeMs n \<le> UINT64_MAX
     \<and> cd_ullLifetimeMs n \<le> UINT64_MAX"

text \<open>An index is that of the last element of a list that is there.\<close>

definition current_ok :: "nat option \<Rightarrow> 'i list option \<Rightarrow> bool" where
  "current_ok cur l \<longleftrightarrow> (\<forall>i. cur = Some i \<longrightarrow> (\<exists>xs. l = Some xs \<and> xs \<noteq> [] \<and> i = length xs - 1))"

definition sa_ok :: "SaCollector \<Rightarrow> bool" where
  "sa_ok co \<longleftrightarrow> length (sc_aacSections co) = VICI_MAX_SECTION_DEPTH \<and> list_all (text_ok IPSEC_NAME_LENGTH) (sc_aacSections co)
     \<and> text_ok IPSEC_NAME_LENGTH (sc_acCurrentIkeName co) \<and> text_ok IPSEC_NAME_LENGTH (sc_acListName co)
     \<and> pred_option (list_all ike_ok) (sc_pIkeList co) \<and> pred_option (list_all child_ok) (sc_pChildList co)
     \<and> current_ok (sc_pCurrentIke co) (sc_pIkeList co) \<and> current_ok (sc_pCurrentChild co) (sc_pChildList co)"

definition sa_view :: "SaCollector \<Rightarrow> sa_snapshot" where
  "sa_view co = (map_option (map view_ike) (sc_pIkeList co), map_option (map view_child) (sc_pChildList co),
     sc_pCurrentIke co \<noteq> None, sc_pCurrentChild co \<noteq> None, cstr (sc_acCurrentIkeName co), map cstr (sc_aacSections co))"

subsection \<open>Fields\<close>

lemma seconds_step: "x \<le> UINT64_MAX \<Longrightarrow> \<exists>e y. ParseSaSeconds (Some v) x = Some (e, y) \<and> y \<le> UINT64_MAX \<and> (e = IPSEC_OK \<longrightarrow> True)"
  using Uint64_text [of v 0] mod_width(1) by (auto simp: ParseSaSeconds_def value_length_def)

lemma boolean_step: "True \<Longrightarrow> \<exists>e y. ParseSaBoolean v x = Some (e, y) \<and> True \<and> (e = IPSEC_OK \<longrightarrow> True)"
  by (auto simp: ParseSaBoolean_def)

lemma proposal_step: "text_ok IPSEC_PROPOSAL_LENGTH x \<Longrightarrow>
  \<exists>e y. AppendSaProposal (Some v) x = Some (e, y) \<and> text_ok IPSEC_PROPOSAL_LENGTH y \<and> (e = IPSEC_OK \<longrightarrow> True)"
  unfolding AppendSaProposal_def by (rule append_step)

lemma key_size_step:
  assumes "text_ok IPSEC_PROPOSAL_LENGTH x"
  shows "\<exists>e y. AppendSaKeySize (Some v) x = Some (e, y) \<and> text_ok IPSEC_PROPOSAL_LENGTH y \<and> (e = IPSEC_OK \<longrightarrow> True)"
proof -
  have "\<exists>e y. ParseIpsecUint32 (Some v) (length v) (Some 0) 10 = Some (e, y)"
    by (auto simp: ParseIpsecUint32_def ParseIpsecUnsigned_def rd_bytes_def Let_def split: prod.split)
  then show ?thesis
    using assms append_step [OF assms, of "lit ''-''" v] by (auto simp: AppendSaKeySize_def value_length_def)
qed

lemmas field_steps =
  set_field_step [where P = "\<lambda>x. x \<le> UINT64_MAX" and R = "\<lambda>_. True", OF u64_step]
  set_field_step [where P = "\<lambda>x. x \<le> UINT64_MAX" and R = "\<lambda>_. True", OF seconds_step]
  set_field_step [where P = "\<lambda>x. x \<le> UINT32_MAX" and R = "\<lambda>_. True", OF u32_step]
  set_field_step [where P = "\<lambda>_. True" and R = "\<lambda>_. True", OF boolean_step]
  set_field_step [where P = "text_ok IPSEC_PROPOSAL_LENGTH" and R = "\<lambda>_. True", OF proposal_step]
  set_field_step [where P = "text_ok IPSEC_PROPOSAL_LENGTH" and R = "\<lambda>_. True", OF key_size_step]

lemma Match_text [simp]: "MatchSaText (Some t) p \<longleftrightarrow> t = p"
  by (auto simp: MatchSaText_def)

lemma ike_state_step:
  "info_step ike_ok view_ike (note_ike (lit ''state'') v) (ike_value (Some (lit ''state'')) (Some v))"
  unfolding info_step_def
proof (intro allI impI)
  fix n
  assume n: "ike_ok n"
  then have "text_ok IPSEC_STATE_LENGTH (ik_acState n)" by (simp add: ike_ok_def)
  then obtain e t where t: "copy_field IPSEC_STATE_LENGTH (Some v) (ik_acState n) = Some (e, t)" "text_ok IPSEC_STATE_LENGTH t"
    using copy_step by blast
  let ?n = "n\<lparr>ik_acState := t\<rparr>"
  let ?r = "if e = IPSEC_OK then ?n\<lparr>ik_bEstablished := v = lit ''ESTABLISHED''\<rparr> else ?n"
  have "lit ''state'' \<noteq> lit ''uniqueid''" by (simp add: lit_def)
  with t(1) have "ike_value (Some (lit ''state'')) (Some v) n = Some (e, ?r)"
    by (simp add: ike_value_def set_field_def)
  moreover have "ike_ok ?r" using n t(2) by (simp add: ike_ok_def)
  ultimately show "\<exists>e n'. ike_value (Some (lit ''state'')) (Some v) n = Some (e, n') \<and> ike_ok n'
      \<and> (e = IPSEC_OK \<longrightarrow> view_ike n' = note_ike (lit ''state'') v (view_ike n))"
    by (auto simp: note_ike_def view_ike_def)
qed

lemma ike_value_step: "info_step ike_ok view_ike (note_ike k v) (ike_value (Some k) (Some v))"
proof (cases "k = lit ''state''")
  case True
  then show ?thesis using ike_state_step by simp
next
  case False
  then have g: "note_ike k v = (\<lambda>i. i)" by (auto simp: note_ike_def)
  from False show ?thesis
    unfolding g ike_value_def [abs_def]
    by (intro info_step_if info_step_same copy_field_step field_steps) (auto simp: ike_ok_def view_ike_def)
qed

lemma child_counter_step:
  "info_step child_ok view_child (\<lambda>i. i) (child_counter (Some k) (Some v))"
  unfolding child_counter_def [abs_def]
  by (intro info_step_if info_step_same field_steps) (auto simp: child_ok_def view_child_def)

lemma child_value_step: "info_step child_ok view_child (note_child k v) (child_value (Some k) (Some v))"
proof (cases "k = lit ''name'' \<or> k = lit ''state''")
  case True
  have "lit ''state'' \<noteq> lit ''name''" by (simp add: lit_def)
  with True show ?thesis
    unfolding child_value_def [abs_def]
    by (intro info_step_if copy_field_step) (auto simp: child_ok_def view_child_def note_child_def)
next
  case False
  then have g: "note_child k v = (\<lambda>i. i)" by (auto simp: note_child_def fun_eq_iff)
  have mode: "info_step child_ok view_child (\<lambda>i. i) (\<lambda>n. Some (IPSEC_OK, n\<lparr>cd_eMode := m\<rparr>))" for m
    by (simp add: info_step_def child_ok_def view_child_def)
  from False show ?thesis
    unfolding g child_value_def [abs_def]
    by (intro info_step_if mode child_counter_step field_steps) (auto simp: child_ok_def view_child_def)
qed

subsection \<open>The collector\<close>

text \<open>The same contract for a change of the collector.\<close>

abbreviation sa_step :: "(sa_snapshot \<Rightarrow> sa_snapshot) \<Rightarrow> (SaCollector \<Rightarrow> (IpsecError \<times> SaCollector) option) \<Rightarrow> SaCollector \<Rightarrow> bool" where
  "sa_step g f co \<equiv> \<exists>e co'. f co = Some (e, co') \<and> sa_ok co' \<and> (e = IPSEC_OK \<longrightarrow> sa_view co' = g (sa_view co))"

lemma last_update:
  assumes "xs \<noteq> []"
  shows "xs[length xs - 1 := y] = butlast xs @ [y]" and "xs ! (length xs - 1) = last xs"
  using assms by (cases xs rule: rev_cases; simp)+

lemma last_view:
  "xs \<noteq> [] \<Longrightarrow> view y = g (view (last xs)) \<Longrightarrow> map view (xs[length xs - 1 := y]) = on_last g (map view xs)"
  by (cases xs rule: rev_cases) (simp_all add: on_last_def)

lemma last_ok:
  "list_all P xs \<Longrightarrow> P y \<Longrightarrow> list_all P (xs[i := y])"
  using set_update_subset_insert [of xs i y] by (auto simp: list_all_iff)

text \<open>One element changed in the list whose last element is current.\<close>

lemma current_step:
  assumes "info_step ok view g f" and "current_ok (Some i) l" and "pred_option (list_all ok) l"
  obtains xs e n where "l = Some xs" "i < length xs" "f (xs ! i) = Some (e, n)" "list_all ok (xs[i := n])" "current_ok (Some i) (Some (xs[i := n]))"
    "e = IPSEC_OK \<longrightarrow> map view (xs[i := n]) = on_last g (map view xs)"
proof -
  obtain xs where xs: "l = Some xs" "xs \<noteq> []" "i = length xs - 1" using assms(2) by (auto simp: current_ok_def)
  then have ok: "list_all ok xs" "xs ! i = last xs" using assms(3) last_update(2) [OF xs(2)] by simp_all
  then have "ok (xs ! i)" using xs(2) by (simp add: list_all_iff)
  then obtain e n where n: "f (xs ! i) = Some (e, n)" "ok n" "e = IPSEC_OK \<longrightarrow> view n = g (view (xs ! i))"
    using assms(1) by (auto simp: info_step_def)
  show thesis
    using that [of xs e n] xs n ok last_ok [OF ok(1) n(2)] last_view [OF xs(2), of view n g] by (auto simp: current_ok_def)
qed

fun ike_change :: "(ike_view \<Rightarrow> ike_view) \<Rightarrow> sa_snapshot \<Rightarrow> sa_snapshot" where
  "ike_change g (ikes, childs, ci, cc, ike, secs) = (if ci then map_option (on_last g) ikes else ikes, childs, ci, cc, ike, secs)"

fun child_change :: "(child_view \<Rightarrow> child_view) \<Rightarrow> sa_snapshot \<Rightarrow> sa_snapshot" where
  "child_change g (ikes, childs, ci, cc, ike, secs) = (ikes, if cc then map_option (on_last g) childs else childs, ci, cc, ike, secs)"

lemma on_ike_step:
  assumes "info_step ike_ok view_ike g f" and "sa_ok co"
  shows "sa_step (ike_change g) (\<lambda>co. on_ike co f) co"
proof (cases "sc_pCurrentIke co")
  case None
  then show ?thesis using assms(2) by (simp add: on_ike_def sa_view_def)
next
  case (Some i)
  with assms(2) have "current_ok (Some i) (sc_pIkeList co)" "pred_option (list_all ike_ok) (sc_pIkeList co)"
    by (simp_all add: sa_ok_def)
  from current_step [OF assms(1) this] obtain xs e n where n: "sc_pIkeList co = Some xs" "i < length xs" "f (xs ! i) = Some (e, n)"
      "list_all ike_ok (xs[i := n])" "current_ok (Some i) (Some (xs[i := n]))"
      "e = IPSEC_OK \<longrightarrow> map view_ike (xs[i := n]) = on_last g (map view_ike xs)" by blast
  let ?co = "co\<lparr>sc_pIkeList := Some (xs[i := n])\<rparr>"
  have "on_ike co f = Some (e, ?co)" using Some n(1-3) by (simp add: on_ike_def)
  moreover have "sa_ok ?co" using assms(2) n(4,5) Some by (simp add: sa_ok_def)
  moreover have "e = IPSEC_OK \<longrightarrow> sa_view ?co = ike_change g (sa_view co)" using n(1,6) Some by (simp add: sa_view_def)
  ultimately show ?thesis by blast
qed

lemma on_child_step:
  assumes "info_step child_ok view_child g f" and "sa_ok co"
  shows "sa_step (child_change g) (\<lambda>co. on_child co f) co"
proof (cases "sc_pCurrentChild co")
  case None
  then show ?thesis using assms(2) by (simp add: on_child_def sa_view_def)
next
  case (Some i)
  with assms(2) have "current_ok (Some i) (sc_pChildList co)" "pred_option (list_all child_ok) (sc_pChildList co)"
    by (simp_all add: sa_ok_def)
  from current_step [OF assms(1) this] obtain xs e n where n: "sc_pChildList co = Some xs" "i < length xs" "f (xs ! i) = Some (e, n)"
      "list_all child_ok (xs[i := n])" "current_ok (Some i) (Some (xs[i := n]))"
      "e = IPSEC_OK \<longrightarrow> map view_child (xs[i := n]) = on_last g (map view_child xs)" by blast
  let ?co = "co\<lparr>sc_pChildList := Some (xs[i := n])\<rparr>"
  have "on_child co f = Some (e, ?co)" using Some n(1-3) by (simp add: on_child_def)
  moreover have "sa_ok ?co" using assms(2) n(4,5) Some by (simp add: sa_ok_def)
  moreover have "e = IPSEC_OK \<longrightarrow> sa_view ?co = child_change g (sa_view co)" using n(1,6) Some by (simp add: sa_view_def)
  ultimately show ?thesis by blast
qed

text \<open>A new element.\<close>

lemma zero_ike_ok: "ike_ok zero_ike" "view_ike zero_ike = ([], False)"
  by (simp_all add: ike_ok_def zero_ike_def view_ike_def zero_text_ok IPSEC_NAME_LENGTH_def IPSEC_STATE_LENGTH_def
        IPSEC_ADDRESS_LENGTH_def IPSEC_ID_LENGTH_def IPSEC_PROPOSAL_LENGTH_def)

lemma zero_child_ok: "child_ok zero_child" "view_child zero_child = ([], [], [])"
  by (simp_all add: child_ok_def zero_child_def view_child_def zero_text_ok IPSEC_NAME_LENGTH_def IPSEC_STATE_LENGTH_def
        IPSEC_SELECTOR_LIST_LENGTH_def IPSEC_PROPOSAL_LENGTH_def)

fun new_ike :: "sa_snapshot \<Rightarrow> sa_snapshot" where
  "new_ike (ikes, childs, ci, cc, ike, secs) = (map_option (\<lambda>xs. xs @ [([], False)]) ikes, childs, ikes \<noteq> None, cc, ike, secs)"

fun new_child :: "sa_snapshot \<Rightarrow> sa_snapshot" where
  "new_child (ikes, childs, ci, cc, ike, secs) = (ikes, map_option (\<lambda>xs. xs @ [([], [], [])]) childs, ci, childs \<noteq> None, ike, secs)"

lemma AppendIkeSa_step: "sa_ok co \<Longrightarrow> sa_step new_ike (\<lambda>co. Some (AppendIkeSa alloc co)) co"
  by (cases "AppendIkeSa alloc co")
     (auto simp: AppendIkeSa_def sa_view_def sa_ok_def current_ok_def zero_ike_ok dest!: grow_list_appends split: option.splits)

lemma AppendChildSa_step: "sa_ok co \<Longrightarrow> sa_step new_child (\<lambda>co. Some (AppendChildSa alloc co)) co"
  by (cases "AppendChildSa alloc co")
     (auto simp: AppendChildSa_def sa_view_def sa_ok_def current_ok_def zero_child_ok dest!: grow_list_appends split: option.splits)

text \<open>The names of a new element.\<close>

lemma name_child_step:
  assumes "text_ok IPSEC_NAME_LENGTH ike" and "length name < IPSEC_NAME_LENGTH"
  shows "info_step child_ok view_child (\<lambda>(_, _, st). (cstr ike, cstr name, st)) (name_child ike (Some name))"
  unfolding info_step_def
proof (intro allI impI)
  fix n
  assume n: "child_ok n"
  then have f: "text_ok IPSEC_NAME_LENGTH (cd_acIkeName n)" "text_ok IPSEC_NAME_LENGTH (cd_acName n)" by (simp_all add: child_ok_def)
  from text_prefix [OF assms(1)] copy_fits [OF f(1), of "cstr ike"] obtain t where
    t: "copy_field IPSEC_NAME_LENGTH (Some (take (strnlen ike IPSEC_NAME_LENGTH) ike)) (cd_acIkeName n) = Some (IPSEC_OK, t)"
      "text_ok IPSEC_NAME_LENGTH t" "cstr t = cstr ike" by (auto simp: cstr_idem)
  from copy_fits [OF f(2) assms(2)] obtain u where
    u: "copy_field IPSEC_NAME_LENGTH (Some name) (cd_acName n) = Some (IPSEC_OK, u)" "text_ok IPSEC_NAME_LENGTH u" "cstr u = cstr name" by blast
  from n t u show "\<exists>e n'. name_child ike (Some name) n = Some (e, n') \<and> child_ok n'
      \<and> (e = IPSEC_OK \<longrightarrow> view_child n' = (case view_child n of (_, _, st) \<Rightarrow> (cstr ike, cstr name, st)))"
    by (auto simp: name_child_def set_field_def child_ok_def view_child_def)
qed

lemma open_ike_step:
  assumes "sa_ok co"
  shows "sa_step (\<lambda>(ikes, childs, ci, cc, ike, secs). (map_option (\<lambda>xs. xs @ [(cstr n, False)]) ikes, childs, ikes \<noteq> None, cc, cstr n, secs))
    (open_ike alloc (Some n)) co"
proof -
  have "text_ok IPSEC_NAME_LENGTH (sc_acCurrentIkeName co)" using assms by (simp add: sa_ok_def)
  then obtain e t where t: "copy_field IPSEC_NAME_LENGTH (Some n) (sc_acCurrentIkeName co) = Some (e, t)" "text_ok IPSEC_NAME_LENGTH t"
    "e = IPSEC_OK \<longrightarrow> cstr t = cstr n" using copy_step by blast
  let ?co = "co\<lparr>sc_acCurrentIkeName := t\<rparr>"
  have co: "sa_ok ?co" using assms t(2) by (simp add: sa_ok_def)
  obtain e2 co2 where co2: "AppendIkeSa alloc ?co = (e2, co2)" "sa_ok co2" "e2 = IPSEC_OK \<longrightarrow> sa_view co2 = new_ike (sa_view ?co)"
    using AppendIkeSa_step [OF co, of alloc] by auto
  have "info_step ike_ok view_ike (\<lambda>(_, b). (cstr n, b)) (set_field (copy_field IPSEC_NAME_LENGTH (Some n)) ik_acName (\<lambda>x n. n\<lparr>ik_acName := x\<rparr>))"
    by (rule copy_field_step) (auto simp: ike_ok_def view_ike_def)
  from on_ike_step [OF this co2(2)] obtain e3 co3 where
    co3: "on_ike co2 (set_field (copy_field IPSEC_NAME_LENGTH (Some n)) ik_acName (\<lambda>x n. n\<lparr>ik_acName := x\<rparr>)) = Some (e3, co3)"
      "sa_ok co3" "e3 = IPSEC_OK \<longrightarrow> sa_view co3 = ike_change (\<lambda>(_, b). (cstr n, b)) (sa_view co2)" by blast
  have run: "open_ike alloc (Some n) co = (if e \<noteq> IPSEC_OK then Some (e, ?co) else if e2 \<noteq> IPSEC_OK then Some (e2, co2) else Some (e3, co3))"
    using t(1) co2(1) co3(1) by (simp add: open_ike_def)
  have "sa_view co3 = ike_change (\<lambda>(_, b). (cstr n, b)) (new_ike (sa_view ?co))" if "e2 = IPSEC_OK" "e3 = IPSEC_OK"
    using that co2(3) co3(3) by simp
  with run t(3) co co2(2) co3(2) show ?thesis
    by (cases "sc_pIkeList co"; cases "e = IPSEC_OK"; cases "e2 = IPSEC_OK"; simp add: sa_view_def on_last_def)
qed

lemma open_child_step:
  assumes "sa_ok co" and "length n < IPSEC_NAME_LENGTH"
  shows "sa_step (\<lambda>(ikes, childs, ci, cc, ike, secs). (ikes, map_option (\<lambda>xs. xs @ [(ike, cstr n, [])]) childs, ci, childs \<noteq> None, ike, secs))
    (open_child alloc (Some n)) co"
proof -
  obtain e2 co2 where co2: "AppendChildSa alloc co = (e2, co2)" "sa_ok co2" "e2 = IPSEC_OK \<longrightarrow> sa_view co2 = new_child (sa_view co)"
    using AppendChildSa_step [OF assms(1), of alloc] by auto
  have "text_ok IPSEC_NAME_LENGTH (sc_acCurrentIkeName co2)" using co2(2) by (simp add: sa_ok_def)
  from on_child_step [OF name_child_step [OF this assms(2)] co2(2)] co2 show ?thesis
    by (auto simp: open_child_def sa_view_def on_last_def option.map_comp comp_def)
qed

text \<open>The elements.\<close>

lemma section_start_step:
  assumes "sa_ok co" and "d < VICI_MAX_SECTION_DEPTH"
  shows "sa_step (note_sa (elem_event d (SectionStart n))) (CollectSaElement alloc (elem_event d (SectionStart n))) co"
proof -
  have secs: "list_all (text_ok IPSEC_NAME_LENGTH) (sc_aacSections co)" "d < length (sc_aacSections co)"
    using assms by (simp_all add: sa_ok_def)
  then have old: "text_ok IPSEC_NAME_LENGTH (sc_aacSections co ! d)" by (simp add: list_all_length)
  obtain e t where t: "copy_field IPSEC_NAME_LENGTH (Some n) (sc_aacSections co ! d) = Some (e, t)"
      "list_all (text_ok IPSEC_NAME_LENGTH) ((sc_aacSections co)[d := t])" "e = IPSEC_OK \<longrightarrow> cstr t = cstr n"
    using copy_into_texts [OF secs] by blast
  let ?co = "co\<lparr>sc_aacSections := (sc_aacSections co)[d := t]\<rparr>"
  have co: "sa_ok ?co" using assms(1) t(2) by (simp add: sa_ok_def)
  have len: "e = IPSEC_OK \<Longrightarrow> length n < IPSEC_NAME_LENGTH" using copy_limit [OF old] t(1) by simp
  have view: "e = IPSEC_OK \<Longrightarrow> map cstr ((sc_aacSections co)[d := t]) = (map cstr (sc_aacSections co))[d := cstr n]"
    using t(3) by (simp add: map_update)
  have one: "1 < length ((sc_aacSections co)[d := t])" using assms by (simp add: sa_ok_def VICI_MAX_SECTION_DEPTH_def)
  have run: "CollectSaElement alloc (elem_event d (SectionStart n)) co =
      (if e = IPSEC_OK \<and> d = 0 then open_ike alloc (Some n) ?co
       else if e = IPSEC_OK \<and> d = 2 \<and> cstr ((sc_aacSections co)[d := t] ! 1) = lit ''child-sas'' then open_child alloc (Some n) ?co
       else Some (e, ?co))"
    using secs(2) t(1) by (auto simp: CollectSaElement_def CollectSaSectionStart_def Let_def)
  show ?thesis
  proof (cases "e = IPSEC_OK")
    case False
    with run co show ?thesis by simp
  next
    case True
    let ?opened = "cstr ((sc_aacSections co)[d := t] ! 1) = lit ''child-sas''"
    consider (ike) "d = 0" | (child) "d = 2" ?opened | (other) "d \<noteq> 0" "\<not> (d = 2 \<and> ?opened)" by blast
    then show ?thesis
    proof cases
      case ike
      have "note_sa (elem_event d (SectionStart n)) (sa_view co) = (case sa_view ?co of (ikes, childs, ci, cc, ike, secs) \<Rightarrow>
          (map_option (\<lambda>xs. xs @ [(cstr n, False)]) ikes, childs, ikes \<noteq> None, cc, cstr n, secs))"
        using ike view [OF True] by (simp add: sa_view_def)
      with open_ike_step [OF co, where n = n and alloc = alloc] show ?thesis unfolding run using True ike by simp
    next
      case child
      then have "map cstr (sc_aacSections co) ! 1 = lit ''child-sas''" using one by simp
      then have "note_sa (elem_event d (SectionStart n)) (sa_view co) = (case sa_view ?co of (ikes, childs, ci, cc, ike, secs) \<Rightarrow>
          (ikes, map_option (\<lambda>xs. xs @ [(ike, cstr n, [])]) childs, ci, childs \<noteq> None, ike, secs))"
        using child(1) view [OF True] by (simp add: sa_view_def)
      with open_child_step [OF co len [OF True], where alloc = alloc] show ?thesis unfolding run using True child by simp
    next
      case other
      then have "note_sa (elem_event d (SectionStart n)) (sa_view co) = sa_view ?co"
        using view [OF True] one by (auto simp: sa_view_def Let_def)
      then show ?thesis unfolding run using True other co by auto
    qed
  qed
qed

lemma section_end_step:
  assumes "sa_ok co" and "0 < d" and "d \<le> VICI_MAX_SECTION_DEPTH"
  shows "sa_step (note_sa (elem_event d SectionEnd)) (CollectSaElement alloc (elem_event d SectionEnd)) co"
proof -
  have secs: "list_all (text_ok IPSEC_NAME_LENGTH) (sc_aacSections co)" "d - 1 < length (sc_aacSections co)"
    using assms by (simp_all add: sa_ok_def)
  then have "text_ok IPSEC_NAME_LENGTH (sc_aacSections co ! (d - 1))" by (simp add: list_all_length)
  then obtain t where t: "write_at (sc_aacSections co ! (d - 1)) 0 [0] = Some t" "text_ok IPSEC_NAME_LENGTH t" "cstr t = []"
    by (rule cleared_text)
  have "text_ok IPSEC_NAME_LENGTH (sc_acCurrentIkeName co)" using assms(1) by (simp add: sa_ok_def)
  then obtain u where u: "write_at (sc_acCurrentIkeName co) 0 [0] = Some u" "text_ok IPSEC_NAME_LENGTH u" "cstr u = []"
    by (rule cleared_text)
  let ?secs = "(sc_aacSections co)[d - 1 := t]"
  let ?co = "if d = 3 then co\<lparr>sc_pCurrentChild := None, sc_aacSections := ?secs\<rparr>
     else if d = 1 then co\<lparr>sc_pCurrentIke := None, sc_acCurrentIkeName := u, sc_aacSections := ?secs\<rparr>
     else co\<lparr>sc_aacSections := ?secs\<rparr>"
  have "CollectSaElement alloc (elem_event d SectionEnd) co = Some (IPSEC_OK, ?co)"
    using assms(2,3) secs(2) t(1) u(1) by (auto simp: CollectSaElement_def collect_sa_end_def)
  moreover have "sa_ok ?co"
    using assms(1) u(2) texts_update [OF secs(1) t(2)] by (auto simp: sa_ok_def current_ok_def)
  moreover have "sa_view ?co = note_sa (elem_event d SectionEnd) (sa_view co)"
    using u(3) t(3) by (auto simp: sa_view_def map_update)
  ultimately show ?thesis by blast
qed

lemma list_item_step:
  assumes "sa_ok co"
  shows "sa_step (\<lambda>v. v) (CollectSaElement alloc (elem_event d (ListItem v))) co"
proof -
  have "info_step child_ok view_child (\<lambda>i. i)
      (set_field (append_sep IPSEC_SELECTOR_LIST_LENGTH (lit '','') (Some v)) cd_acLocalTrafficSelectors (\<lambda>x n. n\<lparr>cd_acLocalTrafficSelectors := x\<rparr>))"
    "info_step child_ok view_child (\<lambda>i. i)
      (set_field (append_sep IPSEC_SELECTOR_LIST_LENGTH (lit '','') (Some v)) cd_acRemoteTrafficSelectors (\<lambda>x n. n\<lparr>cd_acRemoteTrafficSelectors := x\<rparr>))"
    by (rule append_field_step; simp add: child_ok_def view_child_def)+
  note steps = this [THEN on_child_step, OF assms]
  have same: "child_change (\<lambda>i. i) s = s" for s
    by (cases s) (simp add: on_last_ident [abs_def] option.map_ident)
  from steps assms show ?thesis
    unfolding same by (simp add: CollectSaElement_def collect_sa_item_def)
qed

lemma key_value_step:
  assumes "sa_ok co"
  shows "sa_step (note_sa (elem_event d (KeyValue k v))) (CollectSaElement alloc (elem_event d (KeyValue k v))) co"
proof -
  have "1 < length (sc_aacSections co)" using assms by (simp add: sa_ok_def VICI_MAX_SECTION_DEPTH_def)
  then have secs: "map cstr (sc_aacSections co) ! Suc 0 = cstr (sc_aacSections co ! Suc 0)" by simp
  consider (ike) "d = 1" | (child) "d = 3" "cstr (sc_aacSections co ! Suc 0) = lit ''child-sas''"
    | (other) "d \<noteq> 1" "\<not> (d = 3 \<and> cstr (sc_aacSections co ! Suc 0) = lit ''child-sas'')" by blast
  then show ?thesis
  proof cases
    case ike
    with on_ike_step [OF ike_value_step assms, of k v] show ?thesis
      by (auto simp: CollectSaElement_def sa_view_def)
  next
    case child
    with on_child_step [OF child_value_step assms, of k v] show ?thesis
      by (auto simp: CollectSaElement_def sa_view_def secs)
  next
    case other
    with assms show ?thesis by (auto simp: CollectSaElement_def sa_view_def secs)
  qed
qed

lemma list_mark_step:
  assumes "sa_ok co"
  shows "sa_step (\<lambda>v. v) (CollectSaElement alloc (elem_event d (ListStart n))) co"
    and "sa_step (\<lambda>v. v) (CollectSaElement alloc (elem_event d ListEnd)) co"
proof -
  have t: "text_ok IPSEC_NAME_LENGTH (sc_acListName co)" using assms by (simp add: sa_ok_def)
  from copy_step [OF t, of n] assms show "sa_step (\<lambda>v. v) (CollectSaElement alloc (elem_event d (ListStart n))) co"
    by (auto simp: CollectSaElement_def sa_ok_def sa_view_def)
  from cleared_text [OF t] obtain u where "write_at (sc_acListName co) 0 [0] = Some u" "text_ok IPSEC_NAME_LENGTH u" by blast
  with assms show "sa_step (\<lambda>v. v) (CollectSaElement alloc (elem_event d ListEnd)) co"
    by (auto simp: CollectSaElement_def sa_ok_def sa_view_def)
qed

lemma note_list_mark: "note_sa (elem_event d (ListStart n)) s = s" "note_sa (elem_event d ListEnd) s = s" "note_sa (elem_event d (ListItem v)) s = s"
  by (cases s; simp)+

lemma element_step:
  assumes "shown ev" and "sa_ok co"
  shows "sa_step (note_sa ev) (CollectSaElement alloc ev) co"
  using assms(1)
proof (cases rule: shown_cases)
  case (section_start d n)
  then show ?thesis using section_start_step [OF assms(2)] by blast
next
  case (section_end d)
  then show ?thesis using section_end_step [OF assms(2)] by blast
next
  case (key_value d n v)
  then show ?thesis using key_value_step [OF assms(2)] by blast
next
  case (list_start d n)
  then show ?thesis unfolding list_start(1) note_list_mark using list_mark_step [OF assms(2)] by blast
next
  case (list_item d v)
  then show ?thesis unfolding list_item(1) note_list_mark using list_item_step [OF assms(2)] by blast
next
  case (list_end d)
  then show ?thesis unfolding list_end(1) note_list_mark using list_mark_step [OF assms(2)] by blast
qed

interpretation sas: message_collector "CollectSaElement alloc" sa_ok sa_view note_sa for alloc
  by unfold_locales (rule element_step)

section \<open>Queries\<close>

text \<open>What a query has collected after some events: the reference's lists.\<close>

definition answered :: "bool \<Rightarrow> bool \<Rightarrow> SaCollector \<Rightarrow> bool" where
  "answered bIke bChild co \<longleftrightarrow> (\<exists>msgs evss. list_all2 message_events msgs evss
     \<and> sa_view co = fold note_sa (concat evss) (sa_view (new_collector bIke bChild)))"

lemma new_collector_ok: "sa_ok (new_collector a b)"
  by (simp add: sa_ok_def new_collector_def zero_text_ok IPSEC_NAME_LENGTH_def list_all_iff current_ok_def)

lemma new_collector_answered: "answered a b (new_collector a b)"
  unfolding answered_def by (rule exI [of _ "[]"], rule exI [of _ "[]"]) simp

lemma event_keeps: "callback_keeps sa_ok (answered a b) (Some (CollectSaEvent alloc))"
  unfolding callback_keeps_def
proof (intro allI impI)
  fix f co and m :: bytes
  assume f: "Some (CollectSaEvent alloc) = Some f" and co: "sa_ok co" "answered a b co" and "length m \<le> UINT32_MAX"
  then have "length m < 2 ^ 32" by simp
  from sas.collect_safe [OF this co(1), of alloc] obtain e co' where
    r: "f m co = Some (e, co')" "sa_ok co'"
      "e = IPSEC_OK \<longrightarrow> (\<exists>evs. message_events m evs \<and> sa_view co' = fold note_sa evs (sa_view co))"
    using f by (auto simp: CollectSaEvent_def)
  obtain msgs evss where old: "list_all2 message_events msgs evss"
      "sa_view co = fold note_sa (concat evss) (sa_view (new_collector a b))" using co(2) unfolding answered_def by blast
  have "answered a b co'" if evs: "message_events m evs" "sa_view co' = fold note_sa evs (sa_view co)" for evs
    unfolding answered_def using old evs
    by (intro exI [of _ "msgs @ [m]"] exI [of _ "evss @ [evs]"]) (simp add: list_all2_appendI)
  with r show "\<exists>e u'. f m co = Some (e, u') \<and> sa_ok u' \<and> (e = IPSEC_OK \<longrightarrow> answered a b u')" by blast
qed

text \<open>The lists of a collector, empty when not asked for.\<close>

definition listed :: "'i list option \<Rightarrow> 'i list" where
  "listed l = (case l of None \<Rightarrow> [] | Some xs \<Rightarrow> xs)"

lemma Query_run:
  assumes "idle c"
  shows "runs (\<lambda>(e, ikes, childs, c'). idle c' \<and> (\<exists>co. sa_ok co \<and> ikes = listed (sc_pIkeList co) \<and> childs = listed (sc_pChildList co)
       \<and> (e = IPSEC_OK \<longrightarrow> answered bIke bChild co)))
     (QueryIpsecSas mem alloc bIke bChild dl fd c)"
proof (cases "\<not> bIke \<and> \<not> bChild")
  case True
  then show ?thesis using assms new_collector_ok [of False False] new_collector_answered
    by (auto simp: QueryIpsecSas_def listed_def new_collector_def intro!: exI [of _ "new_collector False False"])
next
  case False
  obtain e0 b where b: "InitializeViciBuffer (heap_now mem c) empty_ViciBuffer 1 False = Some (e0, b)" "held False b"
    using Initialize_held_any [of 1 "heap_now mem c" False] by (auto simp: VICI_MAX_SEGMENT_LENGTH_def)
  have wf: "message_wf (Some b)" using b(2) by (simp add: message_wf_def held_def)
  note run = Execute_idle [OF assms wf event_keeps [of bIke bChild alloc] no_callback_keeps new_collector_ok new_collector_answered,
      where mem = mem and cmd = "lit ''list-sas''" and name = "Some (lit ''list-sa'')" and dl = dl and fd = fd]
  have sent: "runs (\<lambda>(e, co, c'). idle c' \<and> sa_ok co \<and> (e = IPSEC_OK \<longrightarrow> answered bIke bChild co))
      (if e0 = IPSEC_OK then exec_bind (ExecuteViciCommandUntil mem (lit ''list-sas'') (Some b) (Some (lit ''list-sa''))
            (Some (CollectSaEvent alloc)) None (new_collector bIke bChild) dl fd c) (\<lambda>(e, _, co, c). Ret (e, co, c))
       else Ret (e0, new_collector bIke bChild, c))"
    using assms new_collector_ok new_collector_answered by (auto intro!: runs_bind [OF run])
  obtain d where d: "DestroyViciBuffer b = Some d"
    using Destroy_releasable [OF held_releasable [OF b(2)]] by blast
  have eq: "QueryIpsecSas mem alloc bIke bChild dl fd c = exec_bind
      (if e0 = IPSEC_OK then exec_bind (ExecuteViciCommandUntil mem (lit ''list-sas'') (Some b) (Some (lit ''list-sa''))
            (Some (CollectSaEvent alloc)) None (new_collector bIke bChild) dl fd c) (\<lambda>(e, _, co, c). Ret (e, co, c))
       else Ret (e0, new_collector bIke bChild, c))
      (\<lambda>(e, co, c). Ret (e, listed (sc_pIkeList co), listed (sc_pChildList co), c\<lparr>freed := released d @ freed c\<rparr>))"
    unfolding QueryIpsecSas_def if_not_P [OF False] b(1) by (simp add: lift_option_def destroy_local_def d listed_def split del: if_split)
  show ?thesis unfolding eq by (rule runs_bind [OF sent]) auto
qed

text \<open>
  C20. Whatever bytes the daemon sends as a \<open>list-sa\<close> event, \<open>CollectSaEvent\<close> returns without touching memory outside its
  arrays or lists and leaves every structure within its C types. When it succeeds, the message is a balanced
  sequence of elements, and the lists are those of the reference \<open>note_sa\<close>: one IKE_SA per section at the top level,
  established exactly when its last state says so, and one CHILD_SA per section under \<open>child-sas\<close>, under the name of its
  IKE_SA and with its own name and state. A list that was not asked for stays away.
\<close>

theorem CollectSaEvent_exact:
  assumes "sa_ok co" and "length msg < 2 ^ 32"
  shows "\<exists>e co'. CollectSaEvent alloc msg co = Some (e, co') \<and> sa_ok co'
     \<and> (e = IPSEC_OK \<longrightarrow> (\<exists>evs. message_events msg evs \<and> sa_view co' = fold note_sa evs (sa_view co)))"
  unfolding CollectSaEvent_def by (rule sas.collect_safe [OF assms(2,1)])

text \<open>A section \<open>a\<close> with the state ESTABLISHED.\<close>

definition sample_event :: bytes where
  "sample_event = [1, 1, 97, 3, 5] @ lit ''state'' @ [0, 11] @ lit ''ESTABLISHED'' @ [2]"

theorem CollectSaEvent_exact_witness:
  "sa_ok (new_collector True True) \<and> length sample_event < 2 ^ 32
   \<and> (\<exists>e co'. CollectSaEvent (\<lambda>n. Some []) sample_event (new_collector True True) = Some (e, co') \<and> sa_ok co')"
proof -
  have n: "length sample_event < 2 ^ 32" by (simp add: sample_event_def lit_def)
  show ?thesis
    using CollectSaEvent_exact [OF new_collector_ok n, of "\<lambda>n. Some []" True True] new_collector_ok n by blast
qed

text \<open>
  C36. A query never faults, and the structures it returns are well formed whatever the daemon sent: every text is
  terminated inside its array, every number within the width of its field. The context is ready for the next
  command afterwards.
\<close>

theorem QueryIpsecSas_types:
  assumes "idle c"
  shows "QueryIpsecSas mem alloc bIke bChild dl fd c \<noteq> Fault \<and>
    (\<forall>e ikes childs c'. QueryIpsecSas mem alloc bIke bChild dl fd c = Ret (e, ikes, childs, c') \<longrightarrow>
       idle c' \<and> list_all ike_ok ikes \<and> list_all child_ok childs)"
proof -
  have lists: "list_all ike_ok (listed (sc_pIkeList co)) \<and> list_all child_ok (listed (sc_pChildList co))" if "sa_ok co" for co
    using that by (auto simp: sa_ok_def listed_def split: option.split)
  show ?thesis
    using Query_run [OF assms, where mem = mem and alloc = alloc and bIke = bIke and bChild = bChild and dl = dl and fd = fd] lists
    unfolding runs_def by blast
qed

text \<open>A query that fails because the clock does.\<close>

theorem QueryIpsecSas_types_witness:
  "\<exists>e ikes childs c'. QueryIpsecSas (\<lambda>_ n. Some (replicate n 7)) (\<lambda>n. Some []) True True 0 (- 1) (idle_command [AClock None]) = Ret (e, ikes, childs, c')
     \<and> idle c' \<and> list_all ike_ok ikes \<and> list_all child_ok childs"
proof -
  let ?mem = "\<lambda>(_ :: nat) n. Some (replicate n (7 :: u8))" and ?c = "idle_command [AClock None]"
  have c: "idle ?c" by (simp add: idle_def idle_command_ok)
  obtain e0 b where b: "InitializeViciBuffer (heap_now ?mem ?c) empty_ViciBuffer 1 False = Some (e0, b)" "held False b"
    using Initialize_held_any [of 1 "heap_now ?mem ?c" False] by (auto simp: VICI_MAX_SEGMENT_LENGTH_def)
  obtain d where d: "DestroyViciBuffer b = Some d" using Destroy_releasable [OF held_releasable [OF b(2)]] by blast
  obtain res co c1 where x: "ExecuteViciCommandUntil ?mem (lit ''list-sas'') (Some b) (Some (lit ''list-sa''))
      (Some (CollectSaEvent (\<lambda>n. Some []))) None (new_collector True True) 0 (- 1) ?c = Ret (IPSEC_ERR_INTERNAL, res, co, c1)"
    by (simp add: ExecuteViciCommandUntil_def idle_command_def read_clock_def GetIpsecMonotonicMilliseconds_def)
  obtain e ikes childs c' where run: "QueryIpsecSas ?mem (\<lambda>n. Some []) True True 0 (- 1) ?c = Ret (e, ikes, childs, c')"
    unfolding QueryIpsecSas_def b(1) by (cases "e0 = IPSEC_OK") (simp_all add: x d destroy_local_def)
  with QueryIpsecSas_types [OF c, where mem = ?mem and alloc = "\<lambda>n. Some []" and bIke = True and bChild = True and dl = 0 and fd = "- 1"]
  show ?thesis by blast
qed

section \<open>Control commands\<close>

lemma timeout_text:
  assumes "limit \<le> UINT32_MAX" and "control_timeout limit p = Inr t"
  shows "length t < 32 \<and> 0 \<notin> set t \<and> (t = lit ''-1'' \<or> (\<exists>n \<le> limit. t = show_nat n))"
proof -
  have "length (show_nat n) < 32" if "n \<le> limit" for n
    using show_nat_length [of n 20] that assms(1) by simp
  moreover have "length (lit ''-1'') < 32 \<and> 0 \<notin> set (lit ''-1'')" by (simp add: lit_def)
  moreover have "t = lit ''-1'' \<or> (\<exists>n \<le> limit. t = show_nat n)"
  proof (cases p)
    case None
    then show ?thesis using assms(2) by (auto simp: control_timeout_def)
  next
    case (Some q)
    let ?n = "if op_uiTimeoutMs q = 0 then limit else unat (op_uiTimeoutMs q)"
    have "t = lit ''-1'' \<or> (?n \<le> limit \<and> t = show_nat ?n)"
      using assms(2) Some by (auto simp: control_timeout_def Let_def split: if_splits)
    then show ?thesis by blast
  qed
  ultimately show ?thesis by auto
qed

lemma bounded_timeout:
  assumes "limit \<le> UINT32_MAX"
  shows "if (\<exists>q. p = Some q \<and> (op_uiStructSize q \<noteq> control_options_size
            \<or> (op_eMode q \<noteq> IPSEC_CONTROL_WAIT \<and> op_eMode q \<noteq> IPSEC_CONTROL_IMMEDIATE)
            \<or> (op_eMode q = IPSEC_CONTROL_WAIT \<and> limit < unat (op_uiTimeoutMs q))))
     then AddSaControlTimeout heap limit b p = Some (IPSEC_ERR_INVALID_ARGUMENT, b)
     else \<exists>t. (t = lit ''-1'' \<or> (\<exists>n \<le> limit. t = show_nat n))
       \<and> AddSaControlTimeout heap limit b p = add_elements heap b [KeyValue (lit ''timeout'') t]"
proof (cases "control_timeout limit p")
  case (Inl e)
  then show ?thesis
    by (auto simp: AddSaControlTimeout_def control_timeout_def Let_def split: option.splits if_splits)
next
  case (Inr t)
  note t = timeout_text [OF assms Inr]
  have "writes heap (\<lambda>b. AddViciKeyValueString heap b (Some (lit ''timeout'')) (Some t)) [KeyValue (lit ''timeout'') (cstr t)]"
    using t strlen_le [of t] by (intro writes_pair) auto
  then have "AddSaControlTimeout heap limit b p = add_elements heap b [KeyValue (lit ''timeout'') t]"
    using Inr t by (simp add: AddSaControlTimeout_def writes_def)
  with t Inr show ?thesis
    by (auto simp: control_timeout_def Let_def split: option.splits if_splits)
qed



text \<open>The control commands: the message is that of the selector and, where the command has one, the timeout.\<close>

lemma control_message_held:
  assumes "ValidateSaName (Some name) = IPSEC_OK" and "limit \<le> UINT32_MAX"
  shows "\<exists>e b. control_message heap limit sel (Some name) p add = Some (e, b) \<and> held False b"
proof -
  have len: "strlen name \<le> UINT16_MAX"
    using assms(1) by (auto simp: ValidateSaName_def Let_def strnlen_def IPSEC_NAME_LENGTH_def split: if_splits)
  have name: "\<exists>e b. then_ok (InitializeViciBuffer heap empty_ViciBuffer 128 False)
      (\<lambda>b. AddViciKeyValueString heap b (Some (lit sel)) (Some name)) = Some (e, b) \<and> held False b"
    by (rule message_held [OF writes_pair [OF refl len]]) (simp add: VICI_MAX_SEGMENT_LENGTH_def)
  have "\<exists>e b'. (if add then AddSaControlTimeout heap limit b p else Some (IPSEC_OK, b)) = Some (e, b') \<and> held False b'" if "held False b" for b
    using bounded_timeout [OF assms(2), where heap = heap and b = b and p = p] add_elements_held [OF that] that by (auto split: if_splits simp del: add_elements.simps)
  then show ?thesis unfolding control_message_def by (intro then_ok_inv [OF name])
qed

lemma ExecuteSaControl_runs:
  assumes "idle c" and "uiCommandTimeoutMs c \<le> UINT32_MAX" and "err \<noteq> IPSEC_ERR_VICI_COMMAND"
  shows "runs (\<lambda>(e, c'). idle c' \<and> e \<noteq> IPSEC_ERR_VICI_COMMAND) (ExecuteSaControl mem cmd sel (Some name) p add err c)"
proof (cases "ValidateSaName (Some name) = IPSEC_OK")
  case True
  obtain e b where b: "control_message (heap_now mem c) (uiCommandTimeoutMs c) sel (Some name) p add = Some (e, b)" "held False b"
    using control_message_held [OF True assms(2)] by blast
  have run: "ExecuteSaControl mem cmd sel (Some name) p add err c = exec_bind
      (exec_bind (if e = IPSEC_OK
          then exec_bind (ExecuteViciCommand mem (lit cmd) (Some b) None None None () c) (\<lambda>(e, _, _, c). Ret (e, c))
          else Ret (e, c)) (\<lambda>(e, c). exec_bind (destroy_local b c) (\<lambda>c. Ret (e, c))))
      (\<lambda>(e, c). Ret (if e = IPSEC_ERR_VICI_COMMAND then err else e, c))"
    by (simp add: ExecuteSaControl_def True b(1) split del: if_split)
  show ?thesis
    unfolding run by (rule runs_bind [OF request_runs [OF assms(1) b(2)]]) (use assms(3) in auto)
next
  case False
  then have "ValidateSaName (Some name) = IPSEC_ERR_INVALID_ARGUMENT"
    by (auto simp: ValidateSaName_def Let_def split: if_splits)
  with assms show ?thesis by (simp add: ExecuteSaControl_def)
qed

end
