(* ===== verification/Vici_Progress.thy ===== *)
theory Vici_Progress
  imports Vici_Wait "HOL-Library.Sublist"
begin

text \<open>
  No operation of the VICI client invents answers of the system: every run leaves an end of the script it
  found. This ties what happens late in a run to the answers the run was given, and it is what makes the loops around whole commands (\<open>WaitIpsecSa\<close>, \<open>RecoverViciWait\<close> in
  \<open>src/ike/vici/vici_sa.c\<close>) end, because each of their rounds reads at least one answer itself.
\<close>

definition leaves :: "os_script \<Rightarrow> ('x \<Rightarrow> os_script) \<Rightarrow> 'x exec \<Rightarrow> bool" where
  "leaves n f r \<longleftrightarrow> (\<forall>x. r = Ret x \<longrightarrow> suffix (f x) n)"

named_theorems spending \<open>rules for the answers a run leaves\<close>

lemma leaves_simps [simp]: "leaves n f Blocked" "leaves n f Fault" "leaves n f (Ret x) \<longleftrightarrow> suffix (f x) n"
  by (simp_all add: leaves_def)

lemma leaves_Ret: "leaves n f r \<Longrightarrow> r = Ret x \<Longrightarrow> suffix (f x) n"
  by (simp add: leaves_def)

lemma leaves_bind:
  "leaves n g r \<Longrightarrow> (\<And>x. suffix (g x) n \<Longrightarrow> leaves n f (h x)) \<Longrightarrow> leaves n f (exec_bind r h)"
  by (cases r) auto

lemma leaves_lift [spending]: "(\<And>x. leaves n f (h x)) \<Longrightarrow> leaves n f (exec_bind (lift_option r) h)"
  by (cases r) auto

lemma bind_flat: "exec_bind (exec_bind r f) h = exec_bind r (\<lambda>x. exec_bind (f x) h)"
  by (cases r) auto

lemma bind_if: "exec_bind (if b then r else r') h = (if b then exec_bind r h else exec_bind r' h)"
  by simp

lemma bind_prod: "exec_bind (case x of (a, b) \<Rightarrow> r a b) h = (case x of (a, b) \<Rightarrow> exec_bind (r a b) h)"
  by (cases x) simp

lemmas flat = bind_flat bind_if bind_prod on_ok_def Let_def

text \<open>The call of an operation that returns an error and a state, or one more value between them.\<close>

lemma leaves_pair:
  "leaves n (\<lambda>(_, s). g s) r \<Longrightarrow> (\<And>e s. suffix (g s) n \<Longrightarrow> leaves n f (h (e, s))) \<Longrightarrow> leaves n f (exec_bind r h)"
  by (rule leaves_bind) auto

lemma leaves_triple:
  "leaves n (\<lambda>(_, _, s). g s) r \<Longrightarrow> (\<And>e b s. suffix (g s) n \<Longrightarrow> leaves n f (h (e, b, s))) \<Longrightarrow> leaves n f (exec_bind r h)"
  by (rule leaves_bind) auto

section \<open>System calls\<close>

lemma leaves_readers [spending]:
  "suffix os n \<Longrightarrow> (\<And>x os. suffix os n \<Longrightarrow> leaves n f (h1 (x, os))) \<Longrightarrow> leaves n f (exec_bind (read_clock os) h1)"
  "suffix os n \<Longrightarrow> (\<And>x os. suffix os n \<Longrightarrow> leaves n f (h2 (x, os))) \<Longrightarrow> leaves n f (exec_bind (read_fcntl os) h2)"
  "suffix os n \<Longrightarrow> (\<And>x os. suffix os n \<Longrightarrow> leaves n f (h3 (x, os))) \<Longrightarrow> leaves n f (exec_bind (read_lock os) h3)"
  "suffix os n \<Longrightarrow> (\<And>x y os. suffix os n \<Longrightarrow> leaves n f (h4 (x, y, os))) \<Longrightarrow> leaves n f (exec_bind (read_socket os) h4)"
  "suffix os n \<Longrightarrow> (\<And>x y os. suffix os n \<Longrightarrow> leaves n f (h5 (x, y, os))) \<Longrightarrow> leaves n f (exec_bind (read_connect os) h5)"
  "suffix os n \<Longrightarrow> (\<And>x y z os. suffix os n \<Longrightarrow> leaves n f (h6 (x, y, z, os))) \<Longrightarrow> leaves n f (exec_bind (read_getsockopt os) h6)"
  by (auto simp: read_clock_def read_fcntl_def read_lock_def read_socket_def read_connect_def read_getsockopt_def
      dest!: suffix_ConsD split: list.split os_answer.split)

section \<open>The transport\<close>

lemma Disconnect_script [simp]: "script (DisconnectViciTransport t) = script t"
  by (simp add: DisconnectViciTransport_def)

lemma Deadline_leaves: "suffix (script t) n \<Longrightarrow> leaves n (\<lambda>(_, t). script t) (GetViciCommandDeadline t)"
  by (auto simp: GetViciCommandDeadline_def intro!: spending)

lemma wait_loop_leaves: "suffix os n \<Longrightarrow> leaves n (\<lambda>(_, os). os) (wait_loop ev dl os)"
proof (induction ev dl os rule: wait_loop.induct)
  case (1 ev dl os)
  then show ?case
    by (subst wait_loop.simps) (auto simp: script_simps dest!: suffix_ConsD split: exec.split)
qed

lemma WaitSocket_leaves: "suffix (script t) n \<Longrightarrow> leaves n (\<lambda>(_, t). script t) (WaitViciSocket ev dl t)"
  using wait_loop_leaves [of "script t" n ev dl] by (auto simp: leaves_def WaitViciSocket_Ret)

lemma transfer_call_leaves: "suffix (script t) n \<Longrightarrow> leaves n (\<lambda>(_, _, _, t). script t) (transfer_call s d off m t)"
  by (auto simp: leaves_def transfer_call_def exec_bind_Ret script_simps dest!: suffix_ConsD split: if_splits)

lemma Transfer_leaves: "suffix (script t) n \<Longrightarrow> leaves n (\<lambda>(_, _, t). script t) (TransferViciBytes s dl m off d t)"
proof (induction s dl m off d t rule: TransferViciBytes.induct)
  case (1 s dl m off d t)
  note unf = TransferViciBytes.simps [of s dl m off d t]
  show ?case
  proof (cases "off < m")
    case True
    show ?thesis
    proof (cases "WaitViciSocket (if s then POLLOUT else POLLIN) dl t")
      case wait: (Ret x)
      obtain e t1 where x: "x = (e, t1)" by (cases x)
      have s1: "suffix (script t1) n" using leaves_Ret [OF WaitSocket_leaves [OF 1(3)] wait] x by simp
      show ?thesis
      proof (cases "transfer_call s d off m t1")
        case (Ret y)
        obtain r err d' t2 where y: "y = (r, err, d', t2)" by (cases y)
        have "suffix (script t2) n" using leaves_Ret [OF transfer_call_leaves [OF s1] Ret] y by simp
        with 1(1,2) [OF True wait x [symmetric] _ Ret y [symmetric] refl refl] s1 show ?thesis
          by (simp add: unf True wait x Ret y)
      qed (use s1 in \<open>simp_all add: unf True wait x\<close>)
    qed (simp_all add: unf True)
  qed (use 1(3) in \<open>simp add: unf\<close>)
qed

lemmas [spending] = leaves_pair [OF Deadline_leaves] leaves_pair [OF WaitSocket_leaves] leaves_triple [OF Transfer_leaves]

lemma finish_connect_leaves: "suffix (script t) n \<Longrightarrow> leaves n (\<lambda>(_, t). script t) (finish_connect t)"
  by (auto simp: finish_connect_def flat intro!: spending)

lemma connect_socket_leaves: "suffix (script t) n \<Longrightarrow> leaves n (\<lambda>(_, t). script t) (connect_socket t)"
  by (auto simp: connect_socket_def flat intro!: spending finish_connect_leaves)

lemma nonblocking_leaves: "suffix (script t) n \<Longrightarrow> leaves n (\<lambda>(_, t). script t) (set_nonblocking t)"
  by (auto simp: set_nonblocking_def flat intro!: spending)

lemmas [spending] = leaves_pair [OF nonblocking_leaves] leaves_pair [OF connect_socket_leaves]

lemma Connect_leaves: "suffix (script t) n \<Longrightarrow> leaves n (\<lambda>(_, t). script t) (ConnectViciTransport t)"
  by (auto simp: ConnectViciTransport_def close_on_error_def flat intro!: spending)

lemma send_frame_leaves: "suffix (script t) n \<Longrightarrow> leaves n (\<lambda>(_, t). script t) (send_frame dl p t)"
  by (auto simp: send_frame_def flat intro!: spending)

lemmas [spending] = leaves_pair [OF Connect_leaves] leaves_pair [OF send_frame_leaves]

lemma Send_leaves: "suffix (script t) n \<Longrightarrow> leaves n (\<lambda>(_, t). script t) (SendViciTransportPacket t p)"
  by (auto simp: SendViciTransportPacket_def close_on_error_def flat intro!: spending)

lemma receive_body_leaves: "suffix (script t) n \<Longrightarrow> leaves n (\<lambda>(_, _, t). script t) (receive_body heap dl hdr t p)"
  by (auto simp: receive_body_def flat intro!: spending)

lemmas [spending] = leaves_pair [OF Send_leaves] leaves_triple [OF receive_body_leaves]

lemma Receive_leaves: "suffix (script t) n \<Longrightarrow> leaves n (\<lambda>(_, _, t). script t) (ReceiveViciTransportPacket heap t p)"
  by (auto simp: ReceiveViciTransportPacket_def flat intro!: spending)

lemmas [spending] = leaves_triple [OF Receive_leaves]

section \<open>Commands\<close>

lemma destroy_leaves [spending]:
  "suffix (script c) n \<Longrightarrow> (\<And>c. suffix (script c) n \<Longrightarrow> leaves n f (h c)) \<Longrightarrow> leaves n f (exec_bind (destroy_local b c) h)"
  by (auto simp: destroy_local_def flat intro!: spending)

lemma decode_leaves [spending]: "(\<And>x. leaves n f (h x)) \<Longrightarrow> leaves n f (exec_bind (decode_buffer b) h)"
  by (auto simp: decode_buffer_def intro!: spending)

lemma exchange_packet_leaves: "suffix (script c) n \<Longrightarrow> leaves n (\<lambda>(_, _, c). script c) (exchange_packet mem p c)"
  by (auto simp: exchange_packet_def flat intro!: spending)

lemmas [spending] = leaves_triple [OF exchange_packet_leaves]

lemma Exchange_leaves: "suffix (script c) n \<Longrightarrow> leaves n (\<lambda>(_, c). script c) (ExchangeViciRegistration mem name b c)"
  by (auto simp: ExchangeViciRegistration_def flat intro!: spending split: prod.split)

lemma Stream_leaves: "suffix (script c) n \<Longrightarrow> leaves n (\<lambda>(_, _, c). script c) (ReceiveViciCommandStream mem name ecb rcb s c)"
proof (induction mem name ecb rcb s c rule: ReceiveViciCommandStream.induct)
  case (1 mem name ecb rcb s c)
  show ?case
  proof (cases "ReceiveViciTransportPacket (heap_now mem c) c empty_ViciBuffer")
    case (Ret x)
    obtain e b c1 where x: "x = (e, b, c1)" by (cases x)
    have c1: "suffix (script c1) n" using leaves_Ret [OF Receive_leaves [OF 1(2)] Ret] x by simp
    show ?thesis
      unfolding ReceiveViciCommandStream.simps [of mem name ecb rcb s c] Ret x
      using c1 1(1) [OF Ret x [symmetric] refl] by (auto simp: Let_def intro!: spending split: exec.split option.split prod.split)
  qed (simp_all add: ReceiveViciCommandStream.simps [of mem name ecb rcb s c])
qed

lemma cancelled_leaves: "suffix os n \<Longrightarrow> leaves n (\<lambda>(_, os). os) (IsViciWaitCancelled fd os)"
proof -
  have "suffix os n \<Longrightarrow> leaves n (\<lambda>(_, os). os) (cancel_poll os)"
    by (induction os rule: cancel_poll.induct) (auto dest!: suffix_ConsD)
  then show "suffix os n \<Longrightarrow> leaves n (\<lambda>(_, os). os) (IsViciWaitCancelled fd os)" by (simp add: IsViciWaitCancelled_def)
qed

lemma slot_loop_leaves: "suffix os n \<Longrightarrow> leaves n (\<lambda>(_, _, _, os). os) (slot_loop fd a cl r os)"
proof (induction fd a cl r os rule: slot_loop.induct)
  case (1 fd a cl r os)
  show ?case
  proof (cases "IsViciWaitCancelled fd os")
    case (Ret x)
    obtain b os1 where x: "x = (b, os1)" by (cases x)
    have os1: "suffix os1 n" using leaves_Ret [OF cancelled_leaves [OF 1(2)] Ret] x by simp
    have rest: "leaves n (\<lambda>(_, _, _, os). os) (case read_cond_wait os1 of Blocked \<Rightarrow> Blocked | Fault \<Rightarrow> Fault
        | Ret (r, a, cl, os2) \<Rightarrow> slot_loop fd a cl r os2)" if "a \<and> \<not> cl" "\<not> b \<and> r = None"
      using 1(1) [OF that(1) Ret x [symmetric] that(2)] os1 by (auto simp: read_cond_wait_Ret dest!: suffix_ConsD split: exec.split)
    show ?thesis
      unfolding slot_loop.simps [of fd a cl r os] Ret x using os1 1(2) rest by simp
  qed (use 1(2) in \<open>simp_all add: slot_loop.simps [of fd a cl r os]\<close>)
qed

lemma leaves_slot [spending]:
  "suffix os n \<Longrightarrow> (\<And>a cl r os. suffix os n \<Longrightarrow> leaves n f (h (a, cl, r, os))) \<Longrightarrow> leaves n f (exec_bind (slot_loop fd a0 cl0 r0 os) h)"
  by (rule leaves_bind [OF slot_loop_leaves]) auto

lemmas [spending] = leaves_pair [OF Exchange_leaves] leaves_triple [OF Stream_leaves] leaves_pair [OF cancelled_leaves]

lemma Acquire_leaves: "suffix (script c) n \<Longrightarrow> leaves n (\<lambda>(_, c). script c) (AcquireViciCommand dl fd c)"
  by (auto simp: AcquireViciCommand_def flat intro!: spending)

lemmas [spending] = leaves_pair [OF Acquire_leaves]

lemma steps_leaves: "suffix (script c) n \<Longrightarrow> leaves n (\<lambda>(_, _, c). script c) (command_steps mem cmd req name ecb rcb (p, c))"
  by (auto simp: command_steps_def connect_step_def register_step_def encode_step_def send_step_def receive_step_def flat
      intro!: spending split: option.split)

lemmas [spending] = leaves_triple [OF steps_leaves]

lemma finish_stream_leaves: "suffix (script c) n \<Longrightarrow> leaves n (\<lambda>(_, _, c). script c) (finish_stream mem name (e, p, c))"
  by (auto simp: finish_stream_def flat intro!: spending)

lemmas [spending] = leaves_triple [OF finish_stream_leaves]

lemma conclude_leaves: "suffix (script c) n \<Longrightarrow> leaves n (\<lambda>(_, _, _, c). script c) (conclude_command cmd s b (e, p, c))"
  by (auto simp: conclude_command_def copy_text_def publish_def log_refusal_def forget_deadline_def flat intro!: spending)

lemma Execute_leaves:
  "suffix (script c) n \<Longrightarrow> leaves n (\<lambda>(_, _, _, c). script c) (ExecuteViciCommandUntil mem cmd req name ecb rcb u dl fd c)"
  by (auto simp: ExecuteViciCommandUntil_def flat intro!: spending conclude_leaves)

section \<open>Waits\<close>

lemma FrameDeadline_leaves:
  "suffix (script t) n \<Longrightarrow> (\<And>t. suffix (script t) n \<Longrightarrow> leaves n f (h t)) \<Longrightarrow> leaves n f (exec_bind (SetViciWaitFrameDeadline dl t) h)"
  by (auto simp: SetViciWaitFrameDeadline_def flat intro!: spending)

lemma register_loop_leaves: "suffix (script t) n \<Longrightarrow> leaves n (\<lambda>(_, t). script t) (register_loop mem t)"
proof (induction mem t rule: register_loop.induct)
  case (1 mem t)
  show ?case
  proof (cases "ReceiveViciTransportPacket (mem (length (script t))) t empty_ViciBuffer")
    case (Ret x)
    obtain e b t1 where x: "x = (e, b, t1)" by (cases x)
    have t1: "suffix (script t1) n" using leaves_Ret [OF Receive_leaves [OF 1(2)] Ret] x by simp
    show ?thesis
      unfolding register_loop.simps [of mem t] Ret x
      using t1 1(1) [OF Ret x [symmetric] refl] by (auto simp: Let_def intro!: spending split: exec.split option.split prod.split)
  qed (simp_all add: register_loop.simps [of mem t])
qed

lemmas [spending] = FrameDeadline_leaves leaves_pair [OF register_loop_leaves]

lemma Register_leaves: "suffix (script t) n \<Longrightarrow> leaves n (\<lambda>(_, t). script t) (RegisterViciSaEvent mem dl name t)"
  by (auto simp: RegisterViciSaEvent_def flat intro!: spending)

lemmas [spending] = leaves_pair [OF Register_leaves]

abbreviation answers :: "ViciWaiter \<Rightarrow> os_script" where
  "answers p \<equiv> script (wt_EventContext p)"

lemma Subscribe_leaves: "suffix (answers p) n \<Longrightarrow> leaves n (\<lambda>(_, p). answers p) (SubscribeViciSaEvents mem b p)"
  by (auto simp: SubscribeViciSaEvents_def flat intro!: spending)

lemma pause_loop_leaves: "suffix os n \<Longrightarrow> leaves n (\<lambda>(_, os). os) (pause_loop l os)"
proof (induction l os rule: pause_loop.induct)
  case (1 l os)
  then show ?case
    by (subst pause_loop.simps) (auto simp: script_simps dest!: suffix_ConsD split: exec.split)
qed

lemmas [spending] = leaves_pair [OF pause_loop_leaves]

lemma Pause_leaves: "suffix (answers p) n \<Longrightarrow> leaves n (\<lambda>(_, p). answers p) (PauseViciWait p)"
  by (auto simp: PauseViciWait_def flat intro!: spending)

lemma receive_change_leaves: "suffix (script t) n \<Longrightarrow> leaves n (\<lambda>(_, t). script t) (receive_change mem dl t)"
  by (auto simp: receive_change_def WaitViciTransportReadable_def flat intro!: spending split: sum.split)

lemmas [spending] = leaves_pair [OF receive_change_leaves] leaves_pair [OF Subscribe_leaves] leaves_pair [OF Pause_leaves]

lemma ReceiveChange_leaves: "suffix (answers p) n \<Longrightarrow> leaves n (\<lambda>(_, p). answers p) (ReceiveViciSaChange mem p)"
  by (auto simp: ReceiveViciSaChange_def intro!: spending Pause_leaves)

lemmas [spending] = leaves_pair [OF ReceiveChange_leaves]

end
