(* ===== verification/Vici_Sa_Wait.thy ===== *)
theory Vici_Sa_Wait
  imports Vici_Sa Vici_Progress
begin

text \<open>
  Waiting until a security association is there, the last part of \<open>src/ike/vici/vici_sa.c\<close>. The waiting thread alternates
  between its own event connection and commands on the connection of the context. It makes its system calls
  one after the other, so there is one script: it is carried by the event connection of the waiter, and lent to the
  command for the time of a query.
\<close>

section \<open>The loops\<close>

definition with_answers :: "ViciWaiter \<Rightarrow> os_script \<Rightarrow> ViciWaiter" where
  "with_answers p os = p\<lparr>wt_EventContext := (wt_EventContext p)\<lparr>script := os\<rparr>\<rparr>"

lemma answers_with [simp]: "answers (with_answers p os) = os"
  by (simp add: with_answers_def)

definition lost :: "IpsecError \<Rightarrow> bool" where
  "lost e \<longleftrightarrow> e = IPSEC_ERR_VICI_TRANSPORT \<or> e = IPSEC_ERR_VICI_CONNECT"

function recover_loop :: "memory \<Rightarrow> bool \<Rightarrow> ViciWaiter \<Rightarrow> (IpsecError \<times> ViciWaiter) exec" where
  "recover_loop mem bChild p =
     (case PauseViciWait p of Blocked \<Rightarrow> Blocked | Fault \<Rightarrow> Fault
      | Ret (e, p1) \<Rightarrow>
          if e \<noteq> IPSEC_OK then Ret (e, p1)
          else (case read_clock (answers p1) of Blocked \<Rightarrow> Blocked | Fault \<Rightarrow> Fault
            | Ret (ullNowMs, os) \<Rightarrow>
                if wt_ullDeadlineMs p1 \<le> ullNowMs then Ret (IPSEC_ERR_VICI_TIMEOUT, with_answers p1 os)
                else (case SubscribeViciSaEvents mem bChild (with_answers p1 os) of Blocked \<Rightarrow> Blocked | Fault \<Rightarrow> Fault
                  | Ret (e, p2) \<Rightarrow> if lost e then recover_loop mem bChild p2 else Ret (e, p2))))"
  by pat_completeness auto
termination
proof (relation "measure (\<lambda>(mem, bChild, p). length (answers p))", goal_cases)
  case (2 mem bChild p x e p1 y now os z e2 p2)
  then have "suffix (answers p1) (answers p)" using leaves_Ret [OF Pause_leaves [OF suffix_order.order_refl]] by fastforce
  moreover have "length os < length (answers p1)" using 2 by (auto simp: read_clock_Ret dest!: sym [of "Ret _"])
  moreover have "suffix (answers p2) os"
    using 2 leaves_Ret [OF Subscribe_leaves [of "with_answers p1 os" os mem bChild]] by fastforce
  ultimately show ?case by (auto dest!: suffix_length_le)
qed simp

declare recover_loop.simps [simp del]

definition RecoverViciWait :: "memory \<Rightarrow> bool \<Rightarrow> ViciWaiter \<Rightarrow> (IpsecError \<times> ViciWaiter) exec" where
  "RecoverViciWait mem bChild p = recover_loop mem bChild (p\<lparr>wt_EventContext := DisconnectViciTransport (wt_EventContext p)\<rparr>)"

text \<open>Whether a snapshot shows the association that is waited for.\<close>

definition sa_ready :: "bytes \<Rightarrow> IpsecIkeSaInfo list \<Rightarrow> IpsecChildSaInfo list \<Rightarrow> bool" where
  "sa_ready pcName ikes childs \<longleftrightarrow>
     list_ex (\<lambda>n. cstr pcName = cstr (ik_acName n) \<and> ik_bEstablished n) ikes
     \<or> list_ex (\<lambda>n. cstr pcName = cstr (cd_acName n) \<and> lit ''INSTALLED'' = cstr (cd_acState n)) childs"

text \<open>After a snapshot that shows nothing, the next event; after a lost connection, a new one.\<close>

definition next_change :: "memory \<Rightarrow> bool \<Rightarrow> bool \<Rightarrow> IpsecError \<Rightarrow> ViciWaiter \<Rightarrow> (IpsecError \<times> ViciWaiter) exec" where
  "next_change mem bChild bReady eError p =
     exec_bind (if eError = IPSEC_OK \<and> \<not> bReady then ReceiveViciSaChange mem p else Ret (eError, p)) (\<lambda>(eError, p).
       if lost eError then RecoverViciWait mem bChild p else Ret (eError, p))"

lemma recover_leaves: "suffix (answers p) n \<Longrightarrow> leaves n (\<lambda>(_, p). answers p) (recover_loop mem bChild p)"
proof (induction mem bChild p rule: recover_loop.induct)
  case (1 mem bChild p)
  show ?case
  proof (cases "PauseViciWait p")
    case (Ret x)
    obtain e p1 where x: "x = (e, p1)" by (cases x)
    have p1: "suffix (answers p1) n" using leaves_Ret [OF Pause_leaves [OF 1(2)] Ret] x by simp
    show ?thesis
    proof (cases "read_clock (answers p1)")
      case clock: (Ret y)
      obtain now os where y: "y = (now, os)" by (cases y)
      have os: "suffix os n" using clock y p1 by (auto simp: read_clock_Ret dest!: suffix_ConsD)
      then have sub: "leaves n (\<lambda>(_, p). answers p) (SubscribeViciSaEvents mem bChild (with_answers p1 os))"
        by (intro Subscribe_leaves) simp
      show ?thesis
        using p1 os 1(1) [OF Ret x [symmetric] _ clock y [symmetric]] leaves_Ret [OF sub]
        by (auto simp: recover_loop.simps [of mem bChild p] Ret x clock y split: exec.split)
    qed (use p1 in \<open>simp_all add: recover_loop.simps [of mem bChild p] Ret x\<close>)
  qed (simp_all add: recover_loop.simps [of mem bChild p])
qed

lemma next_change_leaves: "suffix (answers p) n \<Longrightarrow> leaves n (\<lambda>(_, p). answers p) (next_change mem bChild b e p)"
  by (auto simp: next_change_def RecoverViciWait_def flat intro!: spending recover_leaves)

lemma Query_leaves: "suffix (script c) n \<Longrightarrow> leaves n (\<lambda>(_, _, _, c). script c) (QueryIpsecSas mem alloc a b dl fd c)"
  by (auto simp: QueryIpsecSas_def flat intro!: spending leaves_bind [OF Execute_leaves])

function wait_sa ::
  "memory \<Rightarrow> heap \<Rightarrow> bytes \<Rightarrow> nat \<Rightarrow> bool \<Rightarrow> ViciWaiter \<Rightarrow> command \<Rightarrow> (IpsecError \<times> ViciWaiter \<times> command) exec" where
  "wait_sa mem alloc pcName ullDeadlineMs bChild p c =
     (case IsViciWaitCancelled (fst (wt_aiCancelSockets p)) (answers p) of Blocked \<Rightarrow> Blocked | Fault \<Rightarrow> Fault
      | Ret (bCancelled, os) \<Rightarrow>
          if bCancelled then Ret (IPSEC_ERR_CANCELLED, with_answers p os, c)
          else (case read_clock os of Blocked \<Rightarrow> Blocked | Fault \<Rightarrow> Fault
            | Ret (ullNowMs, os) \<Rightarrow>
                if ullDeadlineMs \<le> ullNowMs then Ret (IPSEC_ERR_VICI_TIMEOUT, with_answers p os, c)
                else (case QueryIpsecSas mem alloc (\<not> bChild) bChild ullDeadlineMs (fst (wt_aiCancelSockets p)) (c\<lparr>script := os\<rparr>) of
                    Blocked \<Rightarrow> Blocked | Fault \<Rightarrow> Fault
                  | Ret (eError, ikes, childs, c) \<Rightarrow>
                      let bReady = (eError = IPSEC_OK \<and> sa_ready pcName ikes childs)
                      in (case next_change mem bChild bReady eError (with_answers p (script c)) of Blocked \<Rightarrow> Blocked | Fault \<Rightarrow> Fault
                        | Ret (eError, p) \<Rightarrow>
                            if eError = IPSEC_OK \<and> \<not> bReady then wait_sa mem alloc pcName ullDeadlineMs bChild p c
                            else Ret (eError, p, c)))))"
  by pat_completeness auto
termination
proof (relation "measure (\<lambda>(mem, alloc, name, dl, bChild, p, c). length (answers p))", goal_cases)
  case (2 mem alloc name dl bChild p c x b os y now os2 z e r ikes r2 childs c2 ready v e2 p2)
  then have "suffix os (answers p)" using leaves_Ret [OF cancelled_leaves [OF suffix_order.order_refl]] by fastforce
  moreover have "length os2 < length os" using 2 by (auto simp: read_clock_Ret dest!: sym [of "Ret _"])
  moreover have "suffix (script c2) os2"
    using 2 leaves_Ret [OF Query_leaves [of "c\<lparr>script := os2\<rparr>" os2]] by fastforce
  moreover have "suffix (answers p2) (script c2)"
    using 2 leaves_Ret [OF next_change_leaves [of "with_answers p (script c2)" "script c2"]] by fastforce
  ultimately show ?case by (auto dest!: suffix_length_le)
qed simp

declare wait_sa.simps [simp del]

definition log_polling :: "command \<Rightarrow> command" where
  "log_polling c = c\<lparr>logged := ([], lit ''VICI SA events unavailable; using bounded compatibility polling'') # logged c\<rparr>"

text \<open>The wait from its subscription to its end; \<open>cs\<close> is the state with the wait entered.\<close>

definition hold_wait ::
  "memory \<Rightarrow> heap \<Rightarrow> nat \<Rightarrow> bytes \<Rightarrow> nat \<Rightarrow> bool \<Rightarrow> ViciWaiter \<Rightarrow> IpsecCommandState \<Rightarrow> command
     \<Rightarrow> (IpsecError \<times> (nat \<times> int) list \<times> command) exec" where
  "hold_wait mem alloc w pcName ullDeadlineMs bChild p cs c =
     exec_bind (SubscribeViciSaEvents mem bChild p) (\<lambda>(eError, p).
       exec_bind (if eError = IPSEC_OK
           then wait_sa mem alloc pcName ullDeadlineMs bChild p (if wt_bPolling p then log_polling c else c)
           else Ret (eError, p, c)) (\<lambda>(eError, p, c).
         case EndViciWait w p cs of (p, cs) \<Rightarrow> Ret (eError, cs_pWaiters cs, c\<lparr>script := answers p\<rparr>)))"

text \<open>
  \<open>ws\<close> is the list of waits of the context. A wait that could not begin has closed its sockets again.
\<close>

definition start_wait ::
  "memory \<Rightarrow> heap \<Rightarrow> nat \<Rightarrow> bytes \<Rightarrow> nat \<Rightarrow> bool \<Rightarrow> (nat \<times> int) list \<Rightarrow> os_script \<Rightarrow> command
     \<Rightarrow> (IpsecError \<times> (nat \<times> int) list \<times> command) exec" where
  "start_wait mem alloc w pcName ullDeadlineMs bChild ws os c =
     exec_bind (BeginViciWait w c ullDeadlineMs os \<lparr>cs_bActive = bActive c, cs_bClosing = bClosing c, cs_pWaiters = ws\<rparr>) (\<lambda>(eError, p, cs).
       if eError \<noteq> IPSEC_OK then Ret (eError, cs_pWaiters cs, c\<lparr>script := answers p\<rparr>)
       else hold_wait mem alloc w pcName ullDeadlineMs bChild p cs c)"

definition WaitIpsecSa ::
  "memory \<Rightarrow> heap \<Rightarrow> nat \<Rightarrow> bytes option \<Rightarrow> nat \<Rightarrow> bool \<Rightarrow> (nat \<times> int) list \<Rightarrow> command
     \<Rightarrow> (IpsecError \<times> (nat \<times> int) list \<times> command) exec" where
  "WaitIpsecSa mem alloc w pcName uiTimeoutMs bChild ws c =
     (if uiTimeoutMs = 0 then Ret (IPSEC_ERR_INVALID_ARGUMENT, ws, c)
      else if ValidateSaName pcName \<noteq> IPSEC_OK then Ret (ValidateSaName pcName, ws, c)
      else exec_bind (read_clock (script c)) (\<lambda>(ullNowMs, os).
        if ullNowMs = 0 \<or> UINT64_MAX - uiTimeoutMs < ullNowMs then Ret (IPSEC_ERR_INTERNAL, ws, c\<lparr>script := os\<rparr>)
        else start_wait mem alloc w (the pcName) (ullNowMs + uiTimeoutMs) bChild ws os c))"

definition WaitIpsecIkeEstablished ::
  "memory \<Rightarrow> heap \<Rightarrow> nat \<Rightarrow> bytes option \<Rightarrow> nat \<Rightarrow> (nat \<times> int) list \<Rightarrow> command \<Rightarrow> (IpsecError \<times> (nat \<times> int) list \<times> command) exec" where
  "WaitIpsecIkeEstablished mem alloc w pcIkeName uiTimeoutMs = WaitIpsecSa mem alloc w pcIkeName uiTimeoutMs False"

definition WaitIpsecChildInstalled ::
  "memory \<Rightarrow> heap \<Rightarrow> nat \<Rightarrow> bytes option \<Rightarrow> nat \<Rightarrow> (nat \<times> int) list \<Rightarrow> command \<Rightarrow> (IpsecError \<times> (nat \<times> int) list \<times> command) exec" where
  "WaitIpsecChildInstalled mem alloc w pcChildName uiTimeoutMs = WaitIpsecSa mem alloc w pcChildName uiTimeoutMs True"

section \<open>What a wait keeps\<close>

text \<open>A waiter in the course of its wait: its channel may change, its deadline and sockets do not.\<close>

definition same_wait :: "ViciWaiter \<Rightarrow> ViciWaiter \<Rightarrow> bool" where
  "same_wait p p' \<longleftrightarrow> path_ok (wt_EventContext p') \<and> wt_ullDeadlineMs p' = wt_ullDeadlineMs p
     \<and> wt_aiCancelSockets p' = wt_aiCancelSockets p \<and> wt_open p' = wt_open p"

abbreviation stays :: "ViciWaiter \<Rightarrow> (IpsecError \<times> ViciWaiter) exec \<Rightarrow> bool" where
  "stays p \<equiv> runs (\<lambda>(_, p'). same_wait p p')"

lemma same_wait_trans: "same_wait p q \<Longrightarrow> same_wait q r \<Longrightarrow> same_wait p r"
  by (simp add: same_wait_def)

lemma same_wait_path: "same_wait p q \<Longrightarrow> path_ok (wt_EventContext q)"
  by (simp add: same_wait_def)

lemma path_ok_script [simp]: "path_ok (t\<lparr>script := os\<rparr>) = path_ok (t :: 'a transport_scheme)"
  by (simp add: path_ok_def)

lemma with_answers_fields [simp]: "wt_ullDeadlineMs (with_answers p os) = wt_ullDeadlineMs p"
  "wt_aiCancelSockets (with_answers p os) = wt_aiCancelSockets p" "wt_open (with_answers p os) = wt_open p"
  "wt_bPolling (with_answers p os) = wt_bPolling p"
  by (simp_all add: with_answers_def)

lemma same_wait_answers [simp]: "same_wait p (with_answers q os) = same_wait p q" "path_ok (wt_EventContext (with_answers q os)) = path_ok (wt_EventContext q)"
  by (simp_all add: same_wait_def with_answers_def)

lemma Subscribe_stays: "path_ok (wt_EventContext p) \<Longrightarrow> stays p (SubscribeViciSaEvents mem bChild p)"
  by (rule runs_mono [OF Subscribe_runs]) (auto simp: same_wait_def)

lemma pause_loop_no_fault: "pause_loop l os \<noteq> Fault"
proof (induction l os rule: pause_loop.induct)
  case (1 l os)
  then show ?case by (subst pause_loop.simps) (auto split: exec.split)
qed

lemma Pause_stays: "path_ok (wt_EventContext p) \<Longrightarrow> stays p (PauseViciWait p)"
  unfolding PauseViciWait_def Let_def
  by (rule runs_call, simp, clarify, rule runs_call [OF pause_loop_no_fault]) (auto simp: same_wait_def)

lemma receive_change_path:
  assumes "path_ok t"
  shows "runs (\<lambda>(_, t'). path_ok t') (receive_change mem dl t)"
proof -
  have tail: "runs (\<lambda>(_, t'). path_ok t') (exec_bind (ReceiveViciTransportPacket heap t1 empty_ViciBuffer) (\<lambda>(e, Packet, t).
      exec_bind (if e \<noteq> IPSEC_OK then Ret e
          else exec_bind (decode_buffer Packet) (\<lambda>r. case r of Inl e \<Rightarrow> Ret e | Inr v \<Rightarrow> lift_option (ValidateViciSaEvent v)))
        (\<lambda>e. exec_bind (lift_option (DestroyViciBuffer Packet)) (\<lambda>_. Ret (e, t)))))" if t1: "path_ok t1" for heap t1
  proof (rule runs_call [OF Receive_event(1)], clarify)
    fix e b t2
    assume r: "ReceiveViciTransportPacket heap t1 empty_ViciBuffer = Ret (e, b, t2)"
    obtain d where d: "path_ok t2" "DestroyViciBuffer b = Some d" using Receive_event(2) [OF r] t1 by blast
    have "exec_bind (decode_buffer b) (\<lambda>r. case r of Inl e \<Rightarrow> Ret e | Inr v \<Rightarrow> lift_option (ValidateViciSaEvent v)) \<noteq> Fault"
      if e: "e = IPSEC_OK"
    proof -
      obtain v where v: "decode_buffer b = Ret v" "\<forall>w. v = Inr w \<longrightarrow> length (vw_pucMessage w) \<le> UINT32_MAX"
        using Receive_decodes r e by blast
      show ?thesis
      proof (cases v)
        case (Inr w)
        then obtain e where "ValidateViciSaEvent w = Some e" using v(2) Validate_total by blast
        with Inr v(1) show ?thesis by simp
      qed (simp add: v(1))
    qed
    with d show "runs (\<lambda>(_, t'). path_ok t') (exec_bind (if e \<noteq> IPSEC_OK then Ret e
          else exec_bind (decode_buffer b) (\<lambda>r. case r of Inl e \<Rightarrow> Ret e | Inr v \<Rightarrow> lift_option (ValidateViciSaEvent v)))
        (\<lambda>e. exec_bind (lift_option (DestroyViciBuffer b)) (\<lambda>_. Ret (e, t2))))"
      by (intro runs_call) auto
  qed
  have clock: "SetViciWaitFrameDeadline dl t1 \<noteq> Fault" "SetViciWaitFrameDeadline dl t1 = Ret t2 \<Longrightarrow> path_ok t2 = path_ok t1" for t1 t2
    using Deadline_path [of dl t1] by auto
  have "runs (\<lambda>(_, t'). path_ok t') (WaitViciSocket POLLIN dl t)"
    using assms by (auto simp: runs_def WaitViciSocket_Ret)
  then show ?thesis
    unfolding receive_change_def WaitViciTransportReadable_def on_ok_def
    by (rule runs_bind) (auto intro!: runs_call [OF clock(1)] tail simp: clock(2))
qed

lemma Receive_stays: "path_ok (wt_EventContext p) \<Longrightarrow> stays p (ReceiveViciSaChange mem p)"
  unfolding ReceiveViciSaChange_def
  by (cases "wt_bPolling p", simp add: Pause_stays)
     (auto intro!: runs_bind [OF receive_change_path] simp: same_wait_def)

lemma recover_stays: "path_ok (wt_EventContext p) \<Longrightarrow> stays p (recover_loop mem bChild p)"
proof (induction mem bChild p rule: recover_loop.induct)
  case (1 mem bChild p)
  note pause = Pause_stays [OF 1(2)]
  show ?case
  proof (cases "PauseViciWait p")
    case (Ret x)
    obtain e p1 where x: "x = (e, p1)" by (cases x)
    have p1: "same_wait p p1" using runs_Ret [OF pause Ret] x by simp
    show ?thesis
    proof (cases "read_clock (answers p1)")
      case clock: (Ret y)
      obtain now os where y: "y = (now, os)" by (cases y)
      have sub: "stays p (SubscribeViciSaEvents mem bChild (with_answers p1 os))"
        by (rule runs_mono [OF Subscribe_stays]) (use p1 same_wait_path [OF p1] in \<open>auto simp: same_wait_def\<close>)
      have again: "stays p (recover_loop mem bChild p2)"
        if "e = IPSEC_OK" "\<not> wt_ullDeadlineMs p1 \<le> now" "SubscribeViciSaEvents mem bChild (with_answers p1 os) = Ret (e2, p2)" "lost e2" for e2 p2
      proof -
        have p2: "same_wait p p2" using runs_Ret [OF sub that(3)] by simp
        have "stays p2 (recover_loop mem bChild p2)"
          using 1(1) [OF Ret x [symmetric] _ clock y [symmetric] that(2,3) refl that(4) same_wait_path [OF p2]] that(1) by simp
        then show ?thesis by (rule runs_mono) (use same_wait_trans [OF p2] in auto)
      qed
      show ?thesis
        using p1 sub again by (auto simp: recover_loop.simps [of mem bChild p] Ret x clock y runs_def split: exec.split)
    qed (use p1 in \<open>simp_all add: recover_loop.simps [of mem bChild p] Ret x\<close>)
  qed (use pause in \<open>simp_all add: recover_loop.simps [of mem bChild p]\<close>)
qed

lemma next_change_stays:
  assumes "path_ok (wt_EventContext p)"
  shows "stays p (next_change mem bChild b e p)"
proof -
  have "same_wait p p" using assms by (simp add: same_wait_def)
  then have first: "stays p (if e = IPSEC_OK \<and> \<not> b then ReceiveViciSaChange mem p else Ret (e, p))"
    using Receive_stays [OF assms] by simp
  have recover: "stays p (RecoverViciWait mem bChild q)" if "same_wait p q" for q
    unfolding RecoverViciWait_def
    by (rule runs_mono [OF recover_stays]) (use that in \<open>auto simp: same_wait_def\<close>)
  show ?thesis unfolding next_change_def by (rule runs_bind [OF first]) (auto intro: recover)
qed

text \<open>
  The last thing a run over the script \<open>os\<close> did was a query that showed the association: its answers are an
  end of the script, and nothing happened after it.
\<close>

definition shown_ready :: "memory \<Rightarrow> heap \<Rightarrow> bytes \<Rightarrow> nat \<Rightarrow> bool \<Rightarrow> os_script \<Rightarrow> command \<Rightarrow> bool" where
  "shown_ready mem alloc pcName dl bChild os c' \<longleftrightarrow> (\<exists>fd c1 ikes childs. suffix (script c1) os
     \<and> QueryIpsecSas mem alloc (\<not> bChild) bChild dl fd c1 = Ret (IPSEC_OK, ikes, childs, c') \<and> sa_ready pcName ikes childs)"

lemma shown_ready_longer: "shown_ready mem alloc name dl bChild os c \<Longrightarrow> suffix os os' \<Longrightarrow> shown_ready mem alloc name dl bChild os' c"
  unfolding shown_ready_def by (meson suffix_order.order_trans)

abbreviation wait_post :: "memory \<Rightarrow> heap \<Rightarrow> bytes \<Rightarrow> nat \<Rightarrow> bool \<Rightarrow> ViciWaiter \<Rightarrow> IpsecError \<times> ViciWaiter \<times> command \<Rightarrow> bool" where
  "wait_post mem alloc name dl bChild p \<equiv> \<lambda>(e, p', c'). same_wait p p' \<and> idle c' \<and> suffix (answers p') (answers p)
     \<and> (e = IPSEC_OK \<longrightarrow> answers p' = script c' \<and> shown_ready mem alloc name dl bChild (answers p) c')"

text \<open>The end of a round, for any continuation \<open>again\<close>.\<close>

lemma wait_round:
  assumes "path_ok (wt_EventContext p)" and "idle c1" and "suffix (script c1) (answers p)"
    and "ready \<Longrightarrow> e = IPSEC_OK \<and> shown_ready mem alloc name dl bChild (answers p) c1"
    and "\<And>p2. next_change mem bChild ready e (with_answers p (script c1)) = Ret (IPSEC_OK, p2) \<Longrightarrow> \<not> ready \<Longrightarrow> same_wait p p2 \<Longrightarrow>
       suffix (answers p2) (answers p) \<Longrightarrow> runs (wait_post mem alloc name dl bChild p) (again p2)"
  shows "runs (wait_post mem alloc name dl bChild p)
    (case next_change mem bChild ready e (with_answers p (script c1)) of Blocked \<Rightarrow> Blocked | Fault \<Rightarrow> Fault
     | Ret (e', p') \<Rightarrow> if e' = IPSEC_OK \<and> \<not> ready then again p' else Ret (e', p', c1))"
proof (cases ready)
  case True
  then have "next_change mem bChild ready e (with_answers p (script c1)) = Ret (IPSEC_OK, with_answers p (script c1))"
    using assms(4) by (simp add: next_change_def lost_def)
  with True assms(1-4) show ?thesis by (simp add: same_wait_def)
next
  case False
  have nc: "stays (with_answers p (script c1)) (next_change mem bChild ready e (with_answers p (script c1)))"
    using assms(1) by (intro next_change_stays) simp
  show ?thesis
  proof (cases "next_change mem bChild ready e (with_answers p (script c1))")
    case step: (Ret y)
    obtain e2 p2 where y: "y = (e2, p2)" by (cases y)
    have p2: "same_wait p p2" using runs_Ret [OF nc step] y by (simp add: same_wait_def)
    have "suffix (answers p2) (answers p)"
      using leaves_Ret [OF next_change_leaves step] y assms(3) by simp
    with assms(2) assms(5) [of p2] p2 False show ?thesis unfolding step y by simp
  qed (use nc in simp_all)
qed

lemma wait_sa_runs:
  assumes "path_ok (wt_EventContext p)" and "idle c"
  shows "runs (wait_post mem alloc name dl bChild p) (wait_sa mem alloc name dl bChild p c)"
  using assms
proof (induction mem alloc name dl bChild p c rule: wait_sa.induct)
  case (1 mem alloc name dl bChild p c)
  let ?fd = "fst (wt_aiCancelSockets p)"
  note unf = wait_sa.simps [of mem alloc name dl bChild p c]
  have here: "same_wait p p" using 1(2) by (simp add: same_wait_def)
  show ?case
  proof (cases "IsViciWaitCancelled ?fd (answers p)")
    case (Ret x)
    obtain b os where x: "x = (b, os)" by (cases x)
    have os: "suffix os (answers p)" using leaves_Ret [OF cancelled_leaves Ret] x by simp
    show ?thesis
    proof (cases "\<not> b \<and> (\<exists>now os2. read_clock os = Ret (now, os2) \<and> \<not> dl \<le> now)")
      case False
      then show ?thesis using here os 1(3)
        by (auto simp: unf Ret x read_clock_Ret dest!: suffix_ConsD split: exec.split)
    next
      case True
      then obtain now os2 where t: "\<not> b" "read_clock os = Ret (now, os2)" "\<not> dl \<le> now" by blast
      have os2: "suffix os2 (answers p)" using os t(2) by (auto simp: read_clock_Ret dest!: suffix_ConsD)
      let ?q = "QueryIpsecSas mem alloc (\<not> bChild) bChild dl ?fd (c\<lparr>script := os2\<rparr>)"
      have query: "runs (\<lambda>(e, ikes, childs, c'). idle c') ?q"
        by (rule runs_mono [OF Query_run]) (use 1(3) in auto)
      have round: "runs (wait_post mem alloc name dl bChild p)
          (case next_change mem bChild (e = IPSEC_OK \<and> sa_ready name ikes childs) e (with_answers p (script c1)) of
          Blocked \<Rightarrow> Blocked | Fault \<Rightarrow> Fault | Ret (e', p') \<Rightarrow>
            if e' = IPSEC_OK \<and> \<not> (e = IPSEC_OK \<and> sa_ready name ikes childs) then wait_sa mem alloc name dl bChild p' c1 else Ret (e', p', c1))"
        if q: "?q = Ret (e, ikes, childs, c1)" for e ikes childs c1
      proof (rule wait_round [OF 1(2)])
        show c1: "idle c1" using runs_Ret [OF query q] by simp
        show "suffix (script c1) (answers p)" using leaves_Ret [OF Query_leaves q] os2 by simp
        show "e = IPSEC_OK \<and> sa_ready name ikes childs \<Longrightarrow> e = IPSEC_OK \<and> shown_ready mem alloc name dl bChild (answers p) c1"
          unfolding shown_ready_def using q os2
          by (intro conjI exI [of _ ?fd] exI [of _ "c\<lparr>script := os2\<rparr>"] exI [of _ ikes] exI [of _ childs]) auto
        fix p2
        assume n: "next_change mem bChild (e = IPSEC_OK \<and> sa_ready name ikes childs) e (with_answers p (script c1)) = Ret (IPSEC_OK, p2)"
          "\<not> (e = IPSEC_OK \<and> sa_ready name ikes childs)" and p2: "same_wait p p2" "suffix (answers p2) (answers p)"
        from 1(1) [OF Ret x [symmetric] t(1,2) refl t(3) q refl refl refl refl n(1) refl _ same_wait_path [OF p2(1)] c1] n(2)
        have "runs (wait_post mem alloc name dl bChild p2) (wait_sa mem alloc name dl bChild p2 c1)" by simp
        then show "runs (wait_post mem alloc name dl bChild p) (wait_sa mem alloc name dl bChild p2 c1)"
          by (rule runs_mono) (use same_wait_trans [OF p2(1)] p2(2) shown_ready_longer in \<open>auto intro: suffix_order.order_trans\<close>)
      qed
      show ?thesis using t round query by (auto simp: unf Ret x Let_def runs_def split: exec.split)
    qed
  qed (simp_all add: unf)
qed

lemma Begin_entry:
  assumes "BeginViciWait w c dl os cs = Ret (e, p, cs')"
  shows "e \<noteq> IPSEC_OK \<Longrightarrow> cs' = cs" and "suffix (answers p) os"
    and "e = IPSEC_OK \<Longrightarrow> cs_pWaiters cs' = (w, snd (wt_aiCancelSockets p)) # cs_pWaiters cs \<and> acSocketPath (wt_EventContext p) = acSocketPath c"
  using assms by (auto simp: BeginViciWait_def exec_bind_Ret Let_def script_simps zero_waiter_def zero_transport_def read_socketpair_def
      suffix_ConsI split: if_splits list.splits os_answer.splits)

lemma Begin_no_fault: "BeginViciWait w c dl os cs \<noteq> Fault"
  by (auto simp: BeginViciWait_def exec_bind_Fault Let_def)

lemma log_polling_idle [simp]: "idle (log_polling c) = idle c"
  by (simp add: log_polling_def idle_def path_ok_def)

lemma End_answers:
  "EndViciWait w p cs = (p', cs') \<Longrightarrow> answers p' = answers p \<and> cs_pWaiters cs' = unlink_waiter w (cs_pWaiters cs)"
  by (auto simp: EndViciWait_def)

abbreviation waited :: "memory \<Rightarrow> heap \<Rightarrow> bytes \<Rightarrow> bool \<Rightarrow> (nat \<times> int) list \<Rightarrow> command \<Rightarrow> IpsecError \<times> (nat \<times> int) list \<times> command \<Rightarrow> bool" where
  "waited mem alloc name bChild ws c \<equiv> \<lambda>(e, ws', c'). idle c' \<and> ws' = ws \<and> suffix (script c') (script c)
      \<and> (e = IPSEC_OK \<longrightarrow> (\<exists>dl. shown_ready mem alloc name dl bChild (script c) c'))"

lemma hold_wait_runs:
  assumes "idle c" and "path_ok (wt_EventContext p)" and "suffix (answers p) (script c)" and "cs_pWaiters cs = (w, fd) # ws"
  shows "runs (waited mem alloc name bChild ws c) (hold_wait mem alloc w name dl bChild p cs c)"
  unfolding hold_wait_def
proof (rule runs_bind [OF Subscribe_stays [OF assms(2)]], clarify)
  fix e1 p1
  assume sub: "SubscribeViciSaEvents mem bChild p = Ret (e1, p1)" and p1: "same_wait p p1"
  have os1: "suffix (answers p1) (script c)" using leaves_Ret [OF Subscribe_leaves sub] assms(3) by simp
  have mid: "runs (\<lambda>(e, p', c'). idle c' \<and> suffix (answers p') (script c)
        \<and> (e = IPSEC_OK \<longrightarrow> answers p' = script c' \<and> shown_ready mem alloc name dl bChild (script c) c'))
      (if e1 = IPSEC_OK then wait_sa mem alloc name dl bChild p1 (if wt_bPolling p1 then log_polling c else c) else Ret (e1, p1, c))"
    using os1 assms(1)
    by (auto intro!: runs_mono [OF wait_sa_runs [OF same_wait_path [OF p1]]] intro: shown_ready_longer suffix_order.order_trans)
  show "runs (waited mem alloc name bChild ws c)
      (exec_bind (if e1 = IPSEC_OK then wait_sa mem alloc name dl bChild p1 (if wt_bPolling p1 then log_polling c else c)
          else Ret (e1, p1, c)) (\<lambda>(eError, p, c).
        case EndViciWait w p cs of (p, cs) \<Rightarrow> Ret (eError, cs_pWaiters cs, c\<lparr>script := answers p\<rparr>)))"
    by (rule runs_bind [OF mid]) (auto simp: assms(4) split: prod.split dest!: End_answers)
qed

lemma start_wait_runs:
  assumes "idle c" and "suffix os (script c)"
  shows "runs (waited mem alloc name bChild ws c) (start_wait mem alloc w name dl bChild ws os c)"
  unfolding start_wait_def
proof (rule runs_call [OF Begin_no_fault], clarify)
  fix e p cs
  assume b: "BeginViciWait w c dl os \<lparr>cs_bActive = bActive c, cs_bClosing = bClosing c, cs_pWaiters = ws\<rparr> = Ret (e, p, cs)"
  have os: "suffix (answers p) (script c)" using Begin_entry(2) [OF b] assms(2) by (rule suffix_order.order_trans)
  show "runs (waited mem alloc name bChild ws c) (if e \<noteq> IPSEC_OK then Ret (e, cs_pWaiters cs, c\<lparr>script := answers p\<rparr>)
      else hold_wait mem alloc w name dl bChild p cs c)"
  proof (cases "e = IPSEC_OK")
    case True
    with Begin_entry(3) [OF b] assms(1) have "path_ok (wt_EventContext p)" "cs_pWaiters cs = (w, snd (wt_aiCancelSockets p)) # ws"
      by (simp_all add: path_ok_def idle_def)
    with True hold_wait_runs [OF assms(1) _ os] show ?thesis by simp
  next
    case False
    with Begin_entry(1) [OF b] os assms(1) show ?thesis by simp
  qed
qed

lemma Wait_runs:
  assumes "idle c"
  shows "runs (waited mem alloc name bChild ws c) (WaitIpsecSa mem alloc w (Some name) tmo bChild ws c)"
proof -
  have clock: "suffix os (script c)" if "read_clock (script c) = Ret (now, os)" for now os
    using that by (auto simp: read_clock_Ret suffix_ConsI)
  have "runs (waited mem alloc name bChild ws c) (exec_bind (read_clock (script c)) (\<lambda>(ullNowMs, os).
      if ullNowMs = 0 \<or> UINT64_MAX - tmo < ullNowMs then Ret (IPSEC_ERR_INTERNAL, ws, c\<lparr>script := os\<rparr>)
      else start_wait mem alloc w (the (Some name)) (ullNowMs + tmo) bChild ws os c))"
    using assms clock start_wait_runs [OF assms] by (intro runs_call) auto
  with assms show ?thesis by (auto simp: WaitIpsecSa_def ValidateSaName_def Let_def)
qed

text \<open>
  C14. Waiting for an association (\<open>WaitIpsecIkeEstablished\<close>, \<open>WaitIpsecChildInstalled\<close>) never faults, whatever the
  daemon, the system and the allocator answer, and when it returns the context is ready for the next command and the
  list of waits is as it was. It reports success only when the last thing it did was a query that succeeded and
  whose answer showed an established IKE_SA, or an installed CHILD_SA, of that name: neither an event, nor a
  lost connection, nor the deadline is taken for it.
\<close>

theorem WaitIpsecSa_ready:
  assumes "idle c"
  shows "WaitIpsecSa mem alloc w (Some name) tmo bChild ws c \<noteq> Fault \<and>
    (\<forall>e ws' c'. WaitIpsecSa mem alloc w (Some name) tmo bChild ws c = Ret (e, ws', c') \<longrightarrow>
       idle c' \<and> ws' = ws \<and> (e = IPSEC_OK \<longrightarrow> (\<exists>dl fd c1 ikes childs. suffix (script c1) (script c)
         \<and> QueryIpsecSas mem alloc (\<not> bChild) bChild dl fd c1 = Ret (IPSEC_OK, ikes, childs, c') \<and> sa_ready name ikes childs)))"
  using Wait_runs [OF assms, where mem = mem and alloc = alloc and name = name and bChild = bChild and ws = ws and w = w and tmo = tmo]
  unfolding runs_def shown_ready_def by blast

theorem WaitIpsecSa_ready_witness:
  "\<exists>c'. WaitIpsecSa (\<lambda>_ _. None) (\<lambda>_. None) 1 (Some (lit ''gw'')) 250 True [(3, 8)]
       (idle_command [AClock (Some (0, 5000000)), ASocketpair 0 5 6, ALock 0, AClock (Some (0, 5000000)), ASocket (- 1) EACCES])
     = Ret (IPSEC_ERR_PERMISSION, [(3, 8)], c') \<and> idle c' \<and> script c' = []"
proof -
  let ?c = "idle_command [AClock (Some (0, 5000000)), ASocketpair 0 5 6, ALock 0, AClock (Some (0, 5000000)), ASocket (- 1) EACCES]"
  have c: "idle ?c" by (simp add: idle_def idle_command_def idle_transport_def path_ok_def IPSEC_VICI_SOCKET_PATH_LENGTH_def)
  have "\<exists>ws' c'. WaitIpsecSa (\<lambda>_ _. None) (\<lambda>_. None) 1 (Some (lit ''gw'')) 250 True [(3, 8)] ?c = Ret (IPSEC_ERR_PERMISSION, ws', c') \<and> script c' = []"
    by (simp add: WaitIpsecSa_def ValidateSaName_def strnlen_def lit_def IPSEC_NAME_LENGTH_def idle_command_def idle_transport_def read_clock_def
        GetIpsecMonotonicMilliseconds_def start_wait_def BeginViciWait_def read_socketpair_def read_lock_def hold_wait_def
        SubscribeViciSaEvents_def SetViciWaitFrameDeadline_def ConnectViciTransport_def cstr_def zero_transport_def zero_waiter_def
        read_socket_def connect_error_def close_on_error_def DisconnectViciTransport_def EndViciWait_def Let_def)
  then obtain ws' c' where run: "WaitIpsecSa (\<lambda>_ _. None) (\<lambda>_. None) 1 (Some (lit ''gw'')) 250 True [(3, 8)] ?c = Ret (IPSEC_ERR_PERMISSION, ws', c')"
      "script c' = []" by blast
  from conjunct2 [OF WaitIpsecSa_ready [OF c], rule_format, OF run(1)] run show ?thesis by auto
qed

end
