(* ===== verification/Vici_Status.thy ===== *)
theory Vici_Status
  imports Vici_Fields
begin

text \<open>
  What the daemon says of itself: its version, load and plugins (\<open>src/ike/vici/vici_stats.c\<close>) and its algorithms
  (\<open>src/ike/vici/vici_algorithm.c\<close>). Both are collected from the response of a command.
\<close>

definition IPSEC_VERSION_LENGTH :: nat where "IPSEC_VERSION_LENGTH = 64"
definition IPSEC_OS_NAME_LENGTH :: nat where "IPSEC_OS_NAME_LENGTH = 64"
definition IPSEC_ALGORITHM_LENGTH :: nat where "IPSEC_ALGORITHM_LENGTH = 128"
definition IPSEC_PLUGIN_LENGTH :: nat where "IPSEC_PLUGIN_LENGTH = 64"

section \<open>Status\<close>

record IpsecDaemonStatus =
  ds_acDaemon :: bytes
  ds_acVersion :: bytes
  ds_acSystemName :: bytes
  ds_acSystemRelease :: bytes
  ds_acMachine :: bytes
  ds_ullUptimeSeconds :: nat
  ds_uiWorkerTotal :: nat
  ds_uiWorkerIdle :: nat
  ds_uiIkeSaTotal :: nat
  ds_uiIkeSaHalfOpen :: nat
  ds_bKernelNetlinkLoaded :: bool
  ds_bKernelLibipsecLoaded :: bool

record DaemonStatusCollector =
  dc_pStatus :: IpsecDaemonStatus
  dc_aacSections :: "bytes list"
  dc_acListName :: bytes

definition zero_status :: IpsecDaemonStatus where
  "zero_status = \<lparr>ds_acDaemon = replicate IPSEC_NAME_LENGTH 0, ds_acVersion = replicate IPSEC_VERSION_LENGTH 0,
     ds_acSystemName = replicate IPSEC_OS_NAME_LENGTH 0, ds_acSystemRelease = replicate IPSEC_OS_NAME_LENGTH 0,
     ds_acMachine = replicate IPSEC_OS_NAME_LENGTH 0, ds_ullUptimeSeconds = 0, ds_uiWorkerTotal = 0, ds_uiWorkerIdle = 0,
     ds_uiIkeSaTotal = 0, ds_uiIkeSaHalfOpen = 0, ds_bKernelNetlinkLoaded = False, ds_bKernelLibipsecLoaded = False\<rparr>"

definition MatchStatusText :: "bytes option \<Rightarrow> bytes \<Rightarrow> bool" where
  "MatchStatusText pucText pcExpected = (case pucText of None \<Rightarrow> False
     | Some t \<Rightarrow> length pcExpected = length t \<and> t = pcExpected)"

lemma Match_status [simp]: "MatchStatusText (Some t) p \<longleftrightarrow> t = p"
  by (auto simp: MatchStatusText_def)

definition CollectStatusRootValue :: "bytes option \<Rightarrow> bytes option \<Rightarrow> IpsecDaemonStatus \<Rightarrow> (IpsecError \<times> IpsecDaemonStatus) option" where
  "CollectStatusRootValue k v n =
     (if MatchStatusText k (lit ''daemon'') then set_field (copy_field IPSEC_NAME_LENGTH v) ds_acDaemon (\<lambda>x n. n\<lparr>ds_acDaemon := x\<rparr>) n
      else if MatchStatusText k (lit ''version'') then set_field (copy_field IPSEC_VERSION_LENGTH v) ds_acVersion (\<lambda>x n. n\<lparr>ds_acVersion := x\<rparr>) n
      else if MatchStatusText k (lit ''sysname'') then set_field (copy_field IPSEC_OS_NAME_LENGTH v) ds_acSystemName (\<lambda>x n. n\<lparr>ds_acSystemName := x\<rparr>) n
      else if MatchStatusText k (lit ''release'') then set_field (copy_field IPSEC_OS_NAME_LENGTH v) ds_acSystemRelease (\<lambda>x n. n\<lparr>ds_acSystemRelease := x\<rparr>) n
      else if MatchStatusText k (lit ''machine'') then set_field (copy_field IPSEC_OS_NAME_LENGTH v) ds_acMachine (\<lambda>x n. n\<lparr>ds_acMachine := x\<rparr>) n
      else Some (IPSEC_OK, n))"

text \<open>An uptime that cannot be read counts as zero.\<close>

definition uptime :: "bytes option \<Rightarrow> nat \<Rightarrow> (IpsecError \<times> nat) option" where
  "uptime v old = ParseIpsecDurationSeconds v (value_length v) (Some old) \<bind> (\<lambda>(e, x). Some (IPSEC_OK, if e \<noteq> IPSEC_OK then 0 else the x))"

definition CollectStatusNestedValue ::
  "bytes \<Rightarrow> bytes option \<Rightarrow> bytes option \<Rightarrow> IpsecDaemonStatus \<Rightarrow> (IpsecError \<times> IpsecDaemonStatus) option" where
  "CollectStatusNestedValue pcSection k v n =
     (if cstr pcSection = lit ''uptime'' \<and> MatchStatusText k (lit ''running'')
      then set_field (uptime v) ds_ullUptimeSeconds (\<lambda>x n. n\<lparr>ds_ullUptimeSeconds := x\<rparr>) n
      else if cstr pcSection = lit ''workers'' \<and> MatchStatusText k (lit ''total'')
      then set_field (parse_u32 10 v) ds_uiWorkerTotal (\<lambda>x n. n\<lparr>ds_uiWorkerTotal := x\<rparr>) n
      else if cstr pcSection = lit ''workers'' \<and> MatchStatusText k (lit ''idle'')
      then set_field (parse_u32 10 v) ds_uiWorkerIdle (\<lambda>x n. n\<lparr>ds_uiWorkerIdle := x\<rparr>) n
      else if cstr pcSection = lit ''ikesas'' \<and> MatchStatusText k (lit ''total'')
      then set_field (parse_u32 10 v) ds_uiIkeSaTotal (\<lambda>x n. n\<lparr>ds_uiIkeSaTotal := x\<rparr>) n
      else if cstr pcSection = lit ''ikesas'' \<and> MatchStatusText k (lit ''half-open'')
      then set_field (parse_u32 10 v) ds_uiIkeSaHalfOpen (\<lambda>x n. n\<lparr>ds_uiIkeSaHalfOpen := x\<rparr>) n
      else Some (IPSEC_OK, n))"

definition note_plugin :: "bytes option \<Rightarrow> IpsecDaemonStatus \<Rightarrow> IpsecDaemonStatus" where
  "note_plugin v n =
     (if MatchStatusText v (lit ''kernel-netlink'') then n\<lparr>ds_bKernelNetlinkLoaded := True\<rparr>
      else if MatchStatusText v (lit ''kernel-libipsec'') then n\<lparr>ds_bKernelLibipsecLoaded := True\<rparr>
      else n)"

definition on_status :: "DaemonStatusCollector \<Rightarrow> (IpsecDaemonStatus \<Rightarrow> (IpsecError \<times> IpsecDaemonStatus) option)
    \<Rightarrow> (IpsecError \<times> DaemonStatusCollector) option" where
  "on_status co f = f (dc_pStatus co) \<bind> (\<lambda>(e, n). Some (e, co\<lparr>dc_pStatus := n\<rparr>))"

definition CollectStatusElement :: "ViciElement \<Rightarrow> DaemonStatusCollector \<Rightarrow> (IpsecError \<times> DaemonStatusCollector) option" where
  "CollectStatusElement el co = (case el_eType el of
       SECTION_START \<Rightarrow>
         (let uiIndex = el_uiDepth el - 1
          in if el_uiDepth el = 0 \<or> length (dc_aacSections co) \<le> uiIndex then None
             else copy_field IPSEC_NAME_LENGTH (el_pucName el) (dc_aacSections co ! uiIndex) \<bind> (\<lambda>(e, t).
               Some (e, co\<lparr>dc_aacSections := (dc_aacSections co)[uiIndex := t]\<rparr>)))
     | SECTION_END \<Rightarrow>
         if 0 < el_uiDepth el \<and> el_uiDepth el \<le> VICI_MAX_SECTION_DEPTH
         then (if el_uiDepth el - 1 < length (dc_aacSections co)
               then write_at (dc_aacSections co ! (el_uiDepth el - 1)) 0 [0] \<bind> (\<lambda>t.
                      Some (IPSEC_OK, co\<lparr>dc_aacSections := (dc_aacSections co)[el_uiDepth el - 1 := t]\<rparr>))
               else None)
         else Some (IPSEC_ERR_VICI_PROTOCOL, co)
     | KEY_VALUE \<Rightarrow>
         if el_uiDepth el = 0 then on_status co (CollectStatusRootValue (el_pucName el) (el_pucValue el))
         else if el_uiDepth el = 1 then on_status co (CollectStatusNestedValue (dc_aacSections co ! 0) (el_pucName el) (el_pucValue el))
         else Some (IPSEC_OK, co)
     | LIST_START \<Rightarrow>
         if el_uiDepth el = 0
         then copy_field IPSEC_NAME_LENGTH (el_pucName el) (dc_acListName co) \<bind> (\<lambda>(e, t). Some (e, co\<lparr>dc_acListName := t\<rparr>))
         else Some (IPSEC_OK, co)
     | LIST_ITEM \<Rightarrow>
         if el_uiDepth el = 0 \<and> lit ''plugins'' = cstr (dc_acListName co)
         then Some (IPSEC_OK, co\<lparr>dc_pStatus := note_plugin (el_pucValue el) (dc_pStatus co)\<rparr>)
         else Some (IPSEC_OK, co)
     | LIST_END \<Rightarrow> write_at (dc_acListName co) 0 [0] \<bind> (\<lambda>t. Some (IPSEC_OK, co\<lparr>dc_acListName := t\<rparr>)))"

definition CollectStatusResponse :: "DaemonStatusCollector message_callback" where
  "CollectStatusResponse = collect_message CollectStatusElement"

definition status_collector :: "IpsecDaemonStatus \<Rightarrow> DaemonStatusCollector" where
  "status_collector n = \<lparr>dc_pStatus = n, dc_aacSections = replicate VICI_MAX_SECTION_DEPTH (replicate IPSEC_NAME_LENGTH 0),
     dc_acListName = replicate IPSEC_NAME_LENGTH 0\<rparr>"

definition ParseViciDaemonStatusMessage :: "bytes \<Rightarrow> IpsecDaemonStatus \<Rightarrow> (IpsecError \<times> IpsecDaemonStatus) option" where
  "ParseViciDaemonStatusMessage msg pStatus =
     CollectStatusResponse msg (status_collector pStatus) \<bind> (\<lambda>(e, co). Some (e, dc_pStatus co))"

definition QueryStatusCommand ::
  "memory \<Rightarrow> string \<Rightarrow> DaemonStatusCollector \<Rightarrow> command \<Rightarrow> (IpsecError \<times> DaemonStatusCollector \<times> command) exec" where
  "QueryStatusCommand mem pcCommand co c =
     exec_bind (lift_option (InitializeViciBuffer (heap_now mem c) empty_ViciBuffer 1 False)) (\<lambda>(eError, Request).
       exec_bind (if eError = IPSEC_OK
           then exec_bind (ExecuteViciCommand mem (lit pcCommand) (Some Request) None None (Some CollectStatusResponse) co c)
                  (\<lambda>(e, _, co, c). Ret (e, co, c))
           else Ret (eError, co, c)) (\<lambda>(eError, co, c). exec_bind (destroy_local Request c) (\<lambda>c. Ret (eError, co, c))))"

definition GetIpsecDaemonStatus :: "memory \<Rightarrow> command \<Rightarrow> (IpsecError \<times> IpsecDaemonStatus \<times> command) exec" where
  "GetIpsecDaemonStatus mem c =
     exec_bind (QueryStatusCommand mem ''version'' (status_collector zero_status) c) (\<lambda>(eError, co, c).
       if eError = IPSEC_OK
       then exec_bind (QueryStatusCommand mem ''stats''
              (co\<lparr>dc_aacSections := replicate VICI_MAX_SECTION_DEPTH (replicate IPSEC_NAME_LENGTH 0)\<rparr>) c) (\<lambda>(eError, co, c).
           Ret (eError, dc_pStatus co, c))
       else Ret (eError, dc_pStatus co, c))"

section \<open>Algorithms\<close>

record IpsecAlgorithmInfo =
  al_acType :: bytes
  al_acName :: bytes
  al_acPlugin :: bytes

record AlgorithmCollector =
  ac_pList :: "IpsecAlgorithmInfo list"
  ac_acType :: bytes

definition zero_algorithm :: IpsecAlgorithmInfo where
  "zero_algorithm = \<lparr>al_acType = replicate IPSEC_ALGORITHM_LENGTH 0, al_acName = replicate IPSEC_ALGORITHM_LENGTH 0,
     al_acPlugin = replicate IPSEC_PLUGIN_LENGTH 0\<rparr>"

definition algorithm_info_size :: nat where "algorithm_info_size = 320"

definition fill_algorithm :: "bytes \<Rightarrow> bytes option \<Rightarrow> bytes option \<Rightarrow> IpsecAlgorithmInfo \<Rightarrow> (IpsecError \<times> IpsecAlgorithmInfo) option" where
  "fill_algorithm acType k v n =
     set_field (copy_field IPSEC_ALGORITHM_LENGTH (Some (take (strlen acType) acType))) al_acType (\<lambda>x n. n\<lparr>al_acType := x\<rparr>) n \<bind> (\<lambda>(e, n).
       (if e = IPSEC_OK then set_field (copy_field IPSEC_ALGORITHM_LENGTH k) al_acName (\<lambda>x n. n\<lparr>al_acName := x\<rparr>) n else Some (e, n)) \<bind> (\<lambda>(e, n).
       (if e = IPSEC_OK then set_field (copy_field IPSEC_PLUGIN_LENGTH v) al_acPlugin (\<lambda>x n. n\<lparr>al_acPlugin := x\<rparr>) n else Some (e, n))))"

definition AppendAlgorithm :: "heap \<Rightarrow> ViciElement \<Rightarrow> AlgorithmCollector \<Rightarrow> (IpsecError \<times> AlgorithmCollector) option" where
  "AppendAlgorithm alloc el co = (case grow_list alloc algorithm_info_size zero_algorithm (ac_pList co) of
       None \<Rightarrow> Some (IPSEC_ERR_NO_MEMORY, co)
     | Some ys \<Rightarrow> fill_algorithm (ac_acType co) (el_pucName el) (el_pucValue el) (last ys) \<bind> (\<lambda>(e, n).
         Some (e, co\<lparr>ac_pList := ys[length ys - 1 := n]\<rparr>)))"

definition CollectAlgorithmElement :: "heap \<Rightarrow> ViciElement \<Rightarrow> AlgorithmCollector \<Rightarrow> (IpsecError \<times> AlgorithmCollector) option" where
  "CollectAlgorithmElement alloc el co =
     (if el_eType el = SECTION_START \<and> el_uiDepth el = 1
      then copy_field IPSEC_ALGORITHM_LENGTH (el_pucName el) (ac_acType co) \<bind> (\<lambda>(e, t). Some (e, co\<lparr>ac_acType := t\<rparr>))
      else if el_eType el = SECTION_END \<and> el_uiDepth el = 1
      then write_at (ac_acType co) 0 [0] \<bind> (\<lambda>t. Some (IPSEC_OK, co\<lparr>ac_acType := t\<rparr>))
      else if el_eType el = KEY_VALUE \<and> el_uiDepth el = 1 \<and> hd (ac_acType co) \<noteq> 0
      then AppendAlgorithm alloc el co
      else Some (IPSEC_OK, co))"

definition CollectAlgorithmResponse :: "heap \<Rightarrow> AlgorithmCollector message_callback" where
  "CollectAlgorithmResponse alloc = collect_message (CollectAlgorithmElement alloc)"

definition empty_algorithms :: AlgorithmCollector where
  "empty_algorithms = \<lparr>ac_pList = [], ac_acType = replicate IPSEC_ALGORITHM_LENGTH 0\<rparr>"

definition GetIpsecAlgorithms :: "memory \<Rightarrow> heap \<Rightarrow> command \<Rightarrow> (IpsecError \<times> IpsecAlgorithmInfo list \<times> command) exec" where
  "GetIpsecAlgorithms mem alloc c =
     exec_bind (lift_option (InitializeViciBuffer (heap_now mem c) empty_ViciBuffer 1 False)) (\<lambda>(eError, Request).
       exec_bind (exec_bind (if eError = IPSEC_OK
           then exec_bind (ExecuteViciCommand mem (lit ''get-algorithms'') (Some Request) None None (Some (CollectAlgorithmResponse alloc)) empty_algorithms c)
                  (\<lambda>(e, _, co, c). Ret (e, co, c))
           else Ret (eError, empty_algorithms, c)) (\<lambda>(eError, co, c). exec_bind (destroy_local Request c) (\<lambda>c. Ret (eError, co, c)))) (\<lambda>(eError, co, c).
         Ret (eError, if eError \<noteq> IPSEC_OK then [] else ac_pList co, c)))"

section \<open>What the status collector computes\<close>

definition status_ok :: "IpsecDaemonStatus \<Rightarrow> bool" where
  "status_ok n \<longleftrightarrow> text_ok IPSEC_NAME_LENGTH (ds_acDaemon n) \<and> text_ok IPSEC_VERSION_LENGTH (ds_acVersion n)
     \<and> text_ok IPSEC_OS_NAME_LENGTH (ds_acSystemName n) \<and> text_ok IPSEC_OS_NAME_LENGTH (ds_acSystemRelease n)
     \<and> text_ok IPSEC_OS_NAME_LENGTH (ds_acMachine n) \<and> ds_ullUptimeSeconds n \<le> UINT64_MAX \<and> ds_uiWorkerTotal n \<le> UINT32_MAX
     \<and> ds_uiWorkerIdle n \<le> UINT32_MAX \<and> ds_uiIkeSaTotal n \<le> UINT32_MAX \<and> ds_uiIkeSaHalfOpen n \<le> UINT32_MAX"

definition status_inv :: "DaemonStatusCollector \<Rightarrow> bool" where
  "status_inv co \<longleftrightarrow> status_ok (dc_pStatus co) \<and> length (dc_aacSections co) = VICI_MAX_SECTION_DEPTH
     \<and> list_all (text_ok IPSEC_NAME_LENGTH) (dc_aacSections co) \<and> text_ok IPSEC_NAME_LENGTH (dc_acListName co)"

text \<open>The two plugins the choice of the data path depends on, and the name of the open list.\<close>

definition view_status :: "IpsecDaemonStatus \<Rightarrow> bool \<times> bool" where
  "view_status n = (ds_bKernelNetlinkLoaded n, ds_bKernelLibipsecLoaded n)"

definition status_view :: "DaemonStatusCollector \<Rightarrow> (bool \<times> bool) \<times> bytes" where
  "status_view co = (view_status (dc_pStatus co), cstr (dc_acListName co))"

fun note_status :: "ViciElement \<Rightarrow> (bool \<times> bool) \<times> bytes \<Rightarrow> (bool \<times> bool) \<times> bytes" where
  "note_status ev ((netlink, libipsec), open_list) =
     (let d = el_uiDepth ev; v = the (el_pucValue ev); plugin = (\<lambda>p. d = 0 \<and> open_list = lit ''plugins'' \<and> v = lit p)
      in case el_eType ev of
           LIST_START \<Rightarrow> ((netlink, libipsec), if d = 0 then cstr (the (el_pucName ev)) else open_list)
         | LIST_ITEM \<Rightarrow> ((netlink \<or> plugin ''kernel-netlink'', libipsec \<or> plugin ''kernel-libipsec''), open_list)
         | LIST_END \<Rightarrow> ((netlink, libipsec), [])
         | _ \<Rightarrow> ((netlink, libipsec), open_list))"

lemma duration_total_bound:
  assumes "duration_total v u t = (e, t')" and "t \<le> UINT64_MAX"
  shows "t' \<le> UINT64_MAX"
proof -
  have "t' = t \<or> (\<exists>x. t' = x mod 2 ^ 64)"
    using assms(1) unfolding duration_total_def by (auto split: option.splits if_splits simp del: power_numeral)
  with assms(2) mod_width(1) show ?thesis by blast
qed

lemma duration_pair_bound: "duration_pair c t = (e, t', c') \<Longrightarrow> t \<le> UINT64_MAX \<Longrightarrow> t' \<le> UINT64_MAX"
  by (auto simp: duration_pair_def Let_def split: prod.splits if_splits dest: duration_total_bound)

lemma duration_loop_bound: "duration_loop c t = (e, t') \<Longrightarrow> t \<le> UINT64_MAX \<Longrightarrow> t' \<le> UINT64_MAX"
proof (induction c t rule: duration_loop.induct)
  case (1 c t)
  then show ?case
    by (subst (asm) (2) duration_loop.simps)
       (auto simp: Let_def split: if_splits prod.splits dest: duration_pair_bound)
qed

lemma uptime_step: "x \<le> UINT64_MAX \<Longrightarrow> \<exists>e y. uptime (Some v) x = Some (e, y) \<and> y \<le> UINT64_MAX \<and> (e = IPSEC_OK \<longrightarrow> True)"
  by (cases "duration_loop (cstr v) 0")
     (auto simp: uptime_def ParseIpsecDurationSeconds_def value_length_def rd_bytes_def dest: duration_loop_bound)

lemmas status_steps =
  set_field_step [where P = "\<lambda>x. x \<le> UINT64_MAX" and R = "\<lambda>_. True", OF uptime_step]
  set_field_step [where P = "\<lambda>x. x \<le> UINT32_MAX" and R = "\<lambda>_. True", OF u32_step]

lemma root_step: "info_step status_ok view_status (\<lambda>i. i) (CollectStatusRootValue (Some k) (Some v))"
  unfolding CollectStatusRootValue_def [abs_def]
  by (intro info_step_if info_step_same copy_field_step) (auto simp: status_ok_def view_status_def)

lemma nested_step: "info_step status_ok view_status (\<lambda>i. i) (CollectStatusNestedValue sec (Some k) (Some v))"
  unfolding CollectStatusNestedValue_def [abs_def]
  by (intro info_step_if info_step_same status_steps) (auto simp: status_ok_def view_status_def)

lemma on_status_step:
  assumes "info_step status_ok view_status (\<lambda>i. i) f" and "status_inv co"
  shows "\<exists>e co'. on_status co f = Some (e, co') \<and> status_inv co' \<and> (e = IPSEC_OK \<longrightarrow> status_view co' = status_view co)"
proof -
  have "status_ok (dc_pStatus co)" using assms(2) by (simp add: status_inv_def)
  with assms(1) obtain e n where "f (dc_pStatus co) = Some (e, n)" "status_ok n" "e = IPSEC_OK \<longrightarrow> view_status n = view_status (dc_pStatus co)"
    by (auto simp: info_step_def)
  with assms(2) show ?thesis by (auto simp: on_status_def status_inv_def status_view_def)
qed

lemma status_ok_flags [simp]: "status_ok (n\<lparr>ds_bKernelNetlinkLoaded := b\<rparr>) = status_ok n" "status_ok (n\<lparr>ds_bKernelLibipsecLoaded := b\<rparr>) = status_ok n"
  by (simp_all add: status_ok_def)

lemma status_element:
  assumes "shown ev" and "status_inv co"
  shows "\<exists>e co'. CollectStatusElement ev co = Some (e, co') \<and> status_inv co' \<and> (e = IPSEC_OK \<longrightarrow> status_view co' = note_status ev (status_view co))"
  using assms(1)
proof (cases rule: shown_cases)
  case (section_start d n)
  have secs: "list_all (text_ok IPSEC_NAME_LENGTH) (dc_aacSections co)" "d < length (dc_aacSections co)"
    using assms(2) section_start(2) by (simp_all add: status_inv_def)
  from copy_into_texts [OF secs, of n] secs(2) assms(2) section_start show ?thesis
    by (auto simp: CollectStatusElement_def status_inv_def status_view_def view_status_def)
next
  case (section_end d)
  have secs: "list_all (text_ok IPSEC_NAME_LENGTH) (dc_aacSections co)" "d - 1 < length (dc_aacSections co)"
    using assms(2) section_end(2,3) by (simp_all add: status_inv_def)
  then have "text_ok IPSEC_NAME_LENGTH (dc_aacSections co ! (d - 1))" by (simp add: list_all_length)
  then obtain t where "write_at (dc_aacSections co ! (d - 1)) 0 [0] = Some t" "text_ok IPSEC_NAME_LENGTH t"
    by (rule cleared_text)
  with section_end secs texts_update [OF secs(1)] assms(2) show ?thesis
    by (simp add: CollectStatusElement_def status_inv_def status_view_def view_status_def)
next
  case (key_value d n v)
  have "note_status ev (status_view co) = status_view co"
    using key_value(1) by (cases "view_status (dc_pStatus co)") (simp add: status_view_def)
  with on_status_step [OF root_step assms(2), of n v] on_status_step [OF nested_step assms(2), of "dc_aacSections co ! 0" n v] key_value(1) assms(2)
  show ?thesis by (simp add: CollectStatusElement_def)
next
  case (list_start d n)
  have "text_ok IPSEC_NAME_LENGTH (dc_acListName co)" using assms(2) by (simp add: status_inv_def)
  from copy_step [OF this, of n] list_start(1) assms(2) show ?thesis
    by (auto simp: CollectStatusElement_def status_inv_def status_view_def view_status_def)
next
  case (list_item d v)
  have "lit ''kernel-netlink'' \<noteq> lit ''kernel-libipsec''" by (simp add: lit_def)
  with list_item(1) assms(2) show ?thesis
    by (auto simp: CollectStatusElement_def status_inv_def status_view_def view_status_def note_plugin_def)
next
  case (list_end d)
  have "text_ok IPSEC_NAME_LENGTH (dc_acListName co)" using assms(2) by (simp add: status_inv_def)
  then obtain t where "write_at (dc_acListName co) 0 [0] = Some t" "text_ok IPSEC_NAME_LENGTH t" "cstr t = []"
    by (rule cleared_text)
  with list_end assms(2) show ?thesis
    by (simp add: CollectStatusElement_def status_inv_def status_view_def view_status_def)
qed

interpretation status: message_collector CollectStatusElement status_inv status_view note_status
  by unfold_locales (rule status_element)

lemma status_keeps: "callback_keeps status_inv (\<lambda>_. True) (Some CollectStatusResponse)"
  unfolding callback_keeps_def
proof (intro allI impI)
  fix f co and m :: bytes
  assume f: "Some CollectStatusResponse = Some f" and co: "status_inv co" and "length m \<le> UINT32_MAX"
  then have "length m < 2 ^ 32" by simp
  from status.collect_safe [OF this co] f show "\<exists>e u'. f m co = Some (e, u') \<and> status_inv u' \<and> (e = IPSEC_OK \<longrightarrow> True)"
    by (auto simp: CollectStatusResponse_def)
qed

lemma zero_status_ok: "status_ok zero_status"
  by (simp add: status_ok_def zero_status_def zero_text_ok IPSEC_NAME_LENGTH_def IPSEC_VERSION_LENGTH_def IPSEC_OS_NAME_LENGTH_def)

lemma status_collector_inv: "status_ok n \<Longrightarrow> status_inv (status_collector n)"
  by (simp add: status_inv_def status_collector_def zero_text_ok IPSEC_NAME_LENGTH_def list_all_iff)

lemma empty_request:
  obtains e b where "InitializeViciBuffer heap empty_ViciBuffer 1 False = Some (e, b)" "held False b"
  using Initialize_held_any [of 1 heap False] by (auto simp: VICI_MAX_SEGMENT_LENGTH_def)

lemma QueryStatus_runs:
  assumes "idle c" and "status_inv co"
  shows "runs (\<lambda>(e, co', c'). idle c' \<and> status_inv co') (QueryStatusCommand mem cmd co c)"
proof -
  obtain e0 b where b: "InitializeViciBuffer (heap_now mem c) empty_ViciBuffer 1 False = Some (e0, b)" "held False b"
    by (rule empty_request)
  show ?thesis
    unfolding QueryStatusCommand_def b(1) ExecuteViciCommand_def
    using query_runs [OF assms(1) b(2) no_callback_keeps status_keeps assms(2) TrueI, where ?e0.0 = e0]
    by (auto elim!: runs_mono)
qed

theorem GetIpsecDaemonStatus_runs:
  assumes "idle c"
  shows "runs (\<lambda>(e, n, c'). idle c' \<and> status_ok n) (GetIpsecDaemonStatus mem c)"
proof -
  have again: "status_inv (co\<lparr>dc_aacSections := replicate VICI_MAX_SECTION_DEPTH (replicate IPSEC_NAME_LENGTH 0)\<rparr>)" if "status_inv co" for co
    using that by (simp add: status_inv_def zero_text_ok IPSEC_NAME_LENGTH_def list_all_iff)
  show ?thesis
    unfolding GetIpsecDaemonStatus_def
    by (rule runs_bind [OF QueryStatus_runs [OF assms status_collector_inv [OF zero_status_ok]]])
       (auto intro!: runs_bind [OF QueryStatus_runs] again simp: status_inv_def)
qed

text \<open>
  C38. Whatever bytes the daemon answers to \<open>version\<close> or \<open>stats\<close>, the status collector returns without touching memory
  outside its arrays, and leaves every text terminated and every number within its width. When it succeeds,
  the message is a balanced sequence of elements, and the two flags the choice of the data path rests on say
  exactly whether \<open>kernel-netlink\<close> or \<open>kernel-libipsec\<close> is in a list \<open>plugins\<close> at the top level (or was known before).
\<close>

theorem ParseViciDaemonStatusMessage_exact:
  assumes "status_ok n" and "length msg < 2 ^ 32"
  shows "\<exists>e n'. ParseViciDaemonStatusMessage msg n = Some (e, n') \<and> status_ok n' \<and> (e = IPSEC_OK \<longrightarrow>
     (\<exists>evs. message_events msg evs \<and> view_status n' = fst (fold note_status evs (view_status n, []))))"
proof -
  have start: "status_view (status_collector n) = (view_status n, [])"
    by (simp add: status_view_def status_collector_def zero_text_ok)
  obtain e co where "collect_message CollectStatusElement msg (status_collector n) = Some (e, co)" "status_inv co"
    "e = IPSEC_OK \<longrightarrow> (\<exists>evs. message_events msg evs \<and> status_view co = fold note_status evs (view_status n, []))"
    using status.collect_safe [OF assms(2) status_collector_inv [OF assms(1)]] unfolding start by blast
  then show ?thesis
    by (auto simp: ParseViciDaemonStatusMessage_def CollectStatusResponse_def status_inv_def status_view_def) (metis fst_conv)
qed

text \<open>A list \<open>plugins\<close> with the one item \<open>kernel-netlink\<close>.\<close>

definition sample_stats :: bytes where
  "sample_stats = [4, 7] @ lit ''plugins'' @ [5, 0, 14] @ lit ''kernel-netlink'' @ [6]"

theorem ParseViciDaemonStatusMessage_exact_witness:
  "status_ok zero_status \<and> (\<exists>e n'. ParseViciDaemonStatusMessage sample_stats zero_status = Some (e, n') \<and> status_ok n')"
proof -
  have "length sample_stats < 2 ^ 32" by (simp add: sample_stats_def lit_def)
  from ParseViciDaemonStatusMessage_exact [OF zero_status_ok this] zero_status_ok show ?thesis by blast
qed

section \<open>What the algorithm collector computes\<close>

definition algorithm_ok :: "IpsecAlgorithmInfo \<Rightarrow> bool" where
  "algorithm_ok n \<longleftrightarrow> text_ok IPSEC_ALGORITHM_LENGTH (al_acType n) \<and> text_ok IPSEC_ALGORITHM_LENGTH (al_acName n)
     \<and> text_ok IPSEC_PLUGIN_LENGTH (al_acPlugin n)"

definition algorithms_inv :: "AlgorithmCollector \<Rightarrow> bool" where
  "algorithms_inv co \<longleftrightarrow> list_all algorithm_ok (ac_pList co) \<and> text_ok IPSEC_ALGORITHM_LENGTH (ac_acType co)"

definition view_algorithm :: "IpsecAlgorithmInfo \<Rightarrow> bytes \<times> bytes \<times> bytes" where
  "view_algorithm n = (cstr (al_acType n), cstr (al_acName n), cstr (al_acPlugin n))"

definition algorithms_view :: "AlgorithmCollector \<Rightarrow> (bytes \<times> bytes \<times> bytes) list \<times> bytes" where
  "algorithms_view co = (map view_algorithm (ac_pList co), cstr (ac_acType co))"

fun note_algorithm :: "ViciElement \<Rightarrow> (bytes \<times> bytes \<times> bytes) list \<times> bytes \<Rightarrow> (bytes \<times> bytes \<times> bytes) list \<times> bytes" where
  "note_algorithm ev (xs, kind) =
     (if el_uiDepth ev \<noteq> 1 then (xs, kind)
      else case el_eType ev of
        SECTION_START \<Rightarrow> (xs, cstr (the (el_pucName ev)))
      | SECTION_END \<Rightarrow> (xs, [])
      | KEY_VALUE \<Rightarrow> (if kind = [] then xs else xs @ [(kind, cstr (the (el_pucName ev)), cstr (the (el_pucValue ev)))], kind)
      | _ \<Rightarrow> (xs, kind))"

lemma zero_algorithm_ok: "algorithm_ok zero_algorithm"
  by (simp add: algorithm_ok_def zero_algorithm_def zero_text_ok IPSEC_ALGORITHM_LENGTH_def IPSEC_PLUGIN_LENGTH_def)

lemma fill_step:
  assumes "text_ok IPSEC_ALGORITHM_LENGTH ty" and n: "algorithm_ok n"
  shows "\<exists>e n'. fill_algorithm ty (Some k) (Some v) n = Some (e, n') \<and> algorithm_ok n' \<and> (e = IPSEC_OK \<longrightarrow> view_algorithm n' = (cstr ty, cstr k, cstr v))"
proof -
  have t: "text_ok IPSEC_ALGORITHM_LENGTH (al_acType n)" "text_ok IPSEC_ALGORITHM_LENGTH (al_acName n)" "text_ok IPSEC_PLUGIN_LENGTH (al_acPlugin n)"
    using n by (simp_all add: algorithm_ok_def)
  from copy_step [OF t(1), of "cstr ty"] obtain e1 x1 where x1: "copy_field IPSEC_ALGORITHM_LENGTH (Some (cstr ty)) (al_acType n) = Some (e1, x1)"
    "text_ok IPSEC_ALGORITHM_LENGTH x1" "e1 = IPSEC_OK \<longrightarrow> cstr x1 = cstr ty" by (auto simp: cstr_idem)
  from copy_step [OF t(2), of k] obtain e2 x2 where x2: "copy_field IPSEC_ALGORITHM_LENGTH (Some k) (al_acName n) = Some (e2, x2)"
    "text_ok IPSEC_ALGORITHM_LENGTH x2" "e2 = IPSEC_OK \<longrightarrow> cstr x2 = cstr k" by blast
  from copy_step [OF t(3), of v] obtain e3 x3 where x3: "copy_field IPSEC_PLUGIN_LENGTH (Some v) (al_acPlugin n) = Some (e3, x3)"
    "text_ok IPSEC_PLUGIN_LENGTH x3" "e3 = IPSEC_OK \<longrightarrow> cstr x3 = cstr v" by blast
  show ?thesis
    using n x1 x2 x3 by (cases "e1 = IPSEC_OK"; cases "e2 = IPSEC_OK")
      (simp_all add: fill_algorithm_def set_field_def take_strlen algorithm_ok_def view_algorithm_def)
qed

lemma append_algorithm_step:
  assumes "algorithms_inv co"
  shows "\<exists>e co'. AppendAlgorithm alloc (elem_event d (KeyValue k v)) co = Some (e, co') \<and> algorithms_inv co'
     \<and> (e = IPSEC_OK \<longrightarrow> algorithms_view co' = (fst (algorithms_view co) @ [(cstr (ac_acType co), cstr k, cstr v)], cstr (ac_acType co)))"
proof (cases "grow_list alloc algorithm_info_size zero_algorithm (ac_pList co)")
  case None
  then show ?thesis using assms by (simp add: AppendAlgorithm_def)
next
  case (Some ys)
  then have ys: "ys = ac_pList co @ [zero_algorithm]" by (rule grow_list_appends)
  have "text_ok IPSEC_ALGORITHM_LENGTH (ac_acType co)" using assms by (simp add: algorithms_inv_def)
  from fill_step [OF this zero_algorithm_ok, of k v] Some ys assms show ?thesis
    by (auto simp: AppendAlgorithm_def algorithms_inv_def algorithms_view_def)
qed

lemma hd_cstr: "text_ok n t \<Longrightarrow> hd t \<noteq> 0 \<longleftrightarrow> cstr t \<noteq> []"
  by (cases t) (auto simp: text_ok_def cstr_def)

lemma algorithm_element:
  assumes "shown ev" and "algorithms_inv co"
  shows "\<exists>e co'. CollectAlgorithmElement alloc ev co = Some (e, co') \<and> algorithms_inv co'
     \<and> (e = IPSEC_OK \<longrightarrow> algorithms_view co' = note_algorithm ev (algorithms_view co))"
proof -
  have t: "text_ok IPSEC_ALGORITHM_LENGTH (ac_acType co)" using assms(2) by (simp add: algorithms_inv_def)
  obtain u where u: "write_at (ac_acType co) 0 [0] = Some u" "text_ok IPSEC_ALGORITHM_LENGTH u" "cstr u = []"
    using cleared_text [OF t] by blast
  from assms(1) show ?thesis
  proof (cases rule: shown_cases)
    case (section_start d n)
    with copy_step [OF t, of n] assms(2) show ?thesis
      by (auto simp: CollectAlgorithmElement_def algorithms_inv_def algorithms_view_def)
  next
    case (key_value d n v)
    with append_algorithm_step [OF assms(2), of alloc d n v] assms(2) hd_cstr [OF t] show ?thesis
      by (auto simp: CollectAlgorithmElement_def algorithms_view_def)
  qed (use u assms(2) in \<open>auto simp: CollectAlgorithmElement_def algorithms_inv_def algorithms_view_def\<close>)
qed

interpretation algorithms: message_collector "CollectAlgorithmElement alloc" algorithms_inv algorithms_view note_algorithm for alloc
  by unfold_locales (rule algorithm_element)

text \<open>
  The list of algorithms of the daemon: one entry per pair of a section at the top level, with the section's name as its
  kind, in the order of the message. A query that failed returns no list.
\<close>

definition algorithms_answered :: "AlgorithmCollector \<Rightarrow> bool" where
  "algorithms_answered co \<longleftrightarrow> (\<exists>evss. (\<forall>evs \<in> set evss. \<exists>msg. message_events msg evs)
     \<and> algorithms_view co = fold note_algorithm (concat evss) ([], []))"

lemma algorithms_keep: "callback_keeps algorithms_inv algorithms_answered (Some (CollectAlgorithmResponse alloc))"
  unfolding callback_keeps_def
proof (intro allI impI)
  fix f co and m :: bytes
  assume f: "Some (CollectAlgorithmResponse alloc) = Some f" and co: "algorithms_inv co" "algorithms_answered co" and "length m \<le> UINT32_MAX"
  then have "length m < 2 ^ 32" by simp
  from algorithms.collect_safe [OF this co(1), of alloc] obtain e co' where
    r: "f m co = Some (e, co')" "algorithms_inv co'"
      "e = IPSEC_OK \<longrightarrow> (\<exists>evs. message_events m evs \<and> algorithms_view co' = fold note_algorithm evs (algorithms_view co))"
    using f by (auto simp: CollectAlgorithmResponse_def)
  obtain evss where old: "\<forall>evs \<in> set evss. \<exists>msg. message_events msg evs" "algorithms_view co = fold note_algorithm (concat evss) ([], [])"
    using co(2) unfolding algorithms_answered_def by blast
  have "algorithms_answered co'" if "message_events m evs" "algorithms_view co' = fold note_algorithm evs (algorithms_view co)" for evs
    unfolding algorithms_answered_def using old that by (intro exI [of _ "evss @ [evs]"]) auto
  with r show "\<exists>e u'. f m co = Some (e, u') \<and> algorithms_inv u' \<and> (e = IPSEC_OK \<longrightarrow> algorithms_answered u')" by blast
qed

theorem GetIpsecAlgorithms_runs:
  assumes "idle c"
  shows "runs (\<lambda>(e, xs, c'). idle c' \<and> list_all algorithm_ok xs \<and> (e \<noteq> IPSEC_OK \<longrightarrow> xs = [])
      \<and> (e = IPSEC_OK \<longrightarrow> (\<exists>co. algorithms_answered co \<and> xs = ac_pList co))) (GetIpsecAlgorithms mem alloc c)"
proof -
  obtain e0 b where b: "InitializeViciBuffer (heap_now mem c) empty_ViciBuffer 1 False = Some (e0, b)" "held False b"
    by (rule empty_request)
  have start: "algorithms_inv empty_algorithms" "algorithms_answered empty_algorithms"
    by (simp_all add: algorithms_inv_def empty_algorithms_def zero_text_ok IPSEC_ALGORITHM_LENGTH_def algorithms_answered_def algorithms_view_def exI [of _ "[]"])
  note run = query_runs [OF assms b(2) no_callback_keeps algorithms_keep start, where ?e0.0 = e0 and mem = mem and cmd = "lit ''get-algorithms''"
      and name = None and dl = 0 and fd = "- 1" and alloc1 = alloc]
  have eq: "GetIpsecAlgorithms mem alloc c = exec_bind (exec_bind (if e0 = IPSEC_OK
        then exec_bind (ExecuteViciCommandUntil mem (lit ''get-algorithms'') (Some b) None None (Some (CollectAlgorithmResponse alloc)) empty_algorithms 0 (- 1) c)
               (\<lambda>(e, _, co, c). Ret (e, co, c))
        else Ret (e0, empty_algorithms, c)) (\<lambda>(e, co, c). exec_bind (destroy_local b c) (\<lambda>c. Ret (e, co, c))))
      (\<lambda>(e, co, c). Ret (e, if e \<noteq> IPSEC_OK then [] else ac_pList co, c))"
    unfolding GetIpsecAlgorithms_def b(1) ExecuteViciCommand_def by (simp split del: if_split)
  show ?thesis
    unfolding eq by (rule runs_bind [OF run]) (auto simp: algorithms_inv_def)
qed

end
