(* ===== verification/Psk_File.thy ===== *)
theory Psk_File
  imports Os_Run Vici_Packet
begin

text \<open>
  The generation of a pre-shared key file, \<open>src/core/psk.c\<close>: random bytes from the kernel, written in hexadecimal to a
  file that did not exist before. The file system is a ghost map from paths to contents; what the random source
  delivered is a ghost list, and a ghost flag records that the removal of an unfinished file failed. The two local arrays enter with any contents, as C leaves them.
\<close>

section \<open>System calls\<close>

abbreviation EPERM :: c_errno where "EPERM \<equiv> EOTHER 1"
abbreviation EEXIST :: c_errno where "EEXIST \<equiv> EOTHER 17"
abbreviation ENOSYS :: c_errno where "ENOSYS \<equiv> EOTHER 38"

datatype file_answer =
    AGetrandom int c_errno bytes
  | AOpenRandom int
  | AReadRandom int c_errno bytes
  | ACreate int c_errno
  | AFchmod int c_errno
  | AWrite int c_errno
  | AFsync int
  | AClose int
  | AUnlink int

record psk_run =
  ps_script :: "file_answer list"
  ps_random :: bytes
  ps_disk :: "bytes \<Rightarrow> bytes option"
  ps_left :: bool

definition IPSEC_GENERATED_PSK_BYTE_LENGTH :: nat where "IPSEC_GENERATED_PSK_BYTE_LENGTH = 48"
definition IPSEC_GENERATED_PSK_TEXT_LENGTH :: nat where "IPSEC_GENERATED_PSK_TEXT_LENGTH = IPSEC_GENERATED_PSK_BYTE_LENGTH * 2"

section \<open>Random bytes\<close>

text \<open>
  A read that delivers bytes stores them at the offset; one that fails or ends stores none. The kernel never delivers
  more than it was asked for.
\<close>

function read_random :: "nat \<Rightarrow> nat \<Rightarrow> bytes \<Rightarrow> psk_run \<Rightarrow> (IpsecError \<times> bytes \<times> psk_run) exec" where
  "read_random zLength zOffset d s =
     (if zLength \<le> zOffset then Ret (IPSEC_OK, d, s)
      else case ps_script s of
        AReadRandom r err bs # os \<Rightarrow>
          if r > int (zLength - zOffset) \<or> length bs \<noteq> nat r then Blocked
          else (case write_at d zOffset bs of None \<Rightarrow> Fault
            | Some d' \<Rightarrow>
                let s = s\<lparr>ps_script := os, ps_random := ps_random s @ bs\<rparr>
                in if 0 < r then read_random zLength (zOffset + nat r) d' s
                   else if r < 0 \<and> err = EINTR then read_random zLength zOffset d' s
                   else Ret (IPSEC_ERR_RANDOM, d', s))
      | _ \<Rightarrow> Blocked)"
  by pat_completeness auto
termination
  by (relation "measure (\<lambda>(n, off, d, s). length (ps_script s))") auto

declare read_random.simps [simp del]

definition ReadIpsecRandomFallback :: "nat \<Rightarrow> nat \<Rightarrow> bytes \<Rightarrow> psk_run \<Rightarrow> (IpsecError \<times> bytes \<times> psk_run) exec" where
  "ReadIpsecRandomFallback zLength zOffset d s = (case ps_script s of
       AOpenRandom iFile # os \<Rightarrow>
         let s = s\<lparr>ps_script := os\<rparr>
         in if iFile < 0 then Ret (IPSEC_ERR_RANDOM, d, s) else read_random zLength zOffset d s
     | _ \<Rightarrow> Blocked)"

text \<open>The loop over \<open>getrandom\<close>: also whether the call does not exist, and how far it got.\<close>

function getrandom_loop :: "nat \<Rightarrow> nat \<Rightarrow> bytes \<Rightarrow> psk_run \<Rightarrow> (IpsecError \<times> bool \<times> nat \<times> bytes \<times> psk_run) exec" where
  "getrandom_loop zLength zOffset d s =
     (if zLength \<le> zOffset then Ret (IPSEC_OK, False, zOffset, d, s)
      else case ps_script s of
        AGetrandom r err bs # os \<Rightarrow>
          if r > int (zLength - zOffset) \<or> length bs \<noteq> nat r then Blocked
          else (case write_at d zOffset bs of None \<Rightarrow> Fault
            | Some d' \<Rightarrow>
                let s = s\<lparr>ps_script := os, ps_random := ps_random s @ bs\<rparr>
                in if 0 < r then getrandom_loop zLength (zOffset + nat r) d' s
                   else if r < 0 \<and> err = EINTR then getrandom_loop zLength zOffset d' s
                   else if r < 0 \<and> err = ENOSYS then Ret (IPSEC_OK, True, zOffset, d', s)
                   else Ret (IPSEC_ERR_RANDOM, False, zOffset, d', s))
      | _ \<Rightarrow> Blocked)"
  by pat_completeness auto
termination
  by (relation "measure (\<lambda>(n, off, d, s). length (ps_script s))") auto

declare getrandom_loop.simps [simp del]

definition FillIpsecRandom :: "nat \<Rightarrow> bytes \<Rightarrow> psk_run \<Rightarrow> (IpsecError \<times> bytes \<times> psk_run) exec" where
  "FillIpsecRandom zLength d s = exec_bind (getrandom_loop zLength 0 d s) (\<lambda>(eError, bUseFallback, zOffset, d, s).
     if bUseFallback then ReadIpsecRandomFallback zLength zOffset d s else Ret (eError, d, s))"

section \<open>The file\<close>

definition append_file :: "bytes \<Rightarrow> bytes \<Rightarrow> psk_run \<Rightarrow> psk_run" where
  "append_file path bs s = s\<lparr>ps_disk := (ps_disk s)(path := map_option (\<lambda>c. c @ bs) (ps_disk s path))\<rparr>"

function write_loop :: "bytes \<Rightarrow> bytes \<Rightarrow> nat \<Rightarrow> nat \<Rightarrow> psk_run \<Rightarrow> (IpsecError \<times> psk_run) exec" where
  "write_loop path pcText zLength zOffset s =
     (if zLength \<le> zOffset then Ret (IPSEC_OK, s)
      else case ps_script s of
        AWrite r err # os \<Rightarrow>
          if r > int (zLength - zOffset) then Blocked
          else (case rd_bytes pcText zOffset (zLength - zOffset) of None \<Rightarrow> Fault
            | Some src \<Rightarrow>
                let s = append_file path (take (nat r) src) (s\<lparr>ps_script := os\<rparr>)
                in if 0 < r then write_loop path pcText zLength (zOffset + nat r) s
                   else if r < 0 \<and> err = EINTR then write_loop path pcText zLength zOffset s
                   else Ret (IPSEC_ERR_FILE_WRITE, s))
      | _ \<Rightarrow> Blocked)"
  by pat_completeness auto
termination
  by (relation "measure (\<lambda>(path, t, n, off, s). length (ps_script s))") (auto simp: append_file_def)

declare write_loop.simps [simp del]

text \<open>An exclusive creation never succeeds on a path that exists.\<close>

definition create_file :: "bytes \<Rightarrow> psk_run \<Rightarrow> (IpsecError \<times> psk_run) exec" where
  "create_file path s = (case ps_script s of
       ACreate iFile err # os \<Rightarrow>
         let s = s\<lparr>ps_script := os\<rparr>
         in if iFile < 0 \<and> err = EEXIST then Ret (IPSEC_ERR_FILE_EXISTS, s)
            else if iFile < 0 \<and> (err = EACCES \<or> err = EPERM) then Ret (IPSEC_ERR_PERMISSION, s)
            else if iFile < 0 then Ret (IPSEC_ERR_FILE_OPEN, s)
            else if ps_disk s path \<noteq> None then Blocked
            else Ret (IPSEC_OK, s\<lparr>ps_disk := (ps_disk s)(path := Some [])\<rparr>)
     | _ \<Rightarrow> Blocked)"

definition set_mode :: "psk_run \<Rightarrow> (IpsecError \<times> psk_run) exec" where
  "set_mode s = (case ps_script s of
       AFchmod r err # os \<Rightarrow>
         Ret (if r \<noteq> 0 then (if err = EPERM then IPSEC_ERR_PERMISSION else IPSEC_ERR_FILE_WRITE) else IPSEC_OK, s\<lparr>ps_script := os\<rparr>)
     | _ \<Rightarrow> Blocked)"

definition sync_file :: "psk_run \<Rightarrow> (IpsecError \<times> psk_run) exec" where
  "sync_file s = (case ps_script s of
       AFsync r # os \<Rightarrow> Ret (if r \<noteq> 0 then IPSEC_ERR_FILE_WRITE else IPSEC_OK, s\<lparr>ps_script := os\<rparr>)
     | _ \<Rightarrow> Blocked)"

definition close_file :: "IpsecError \<Rightarrow> psk_run \<Rightarrow> (IpsecError \<times> psk_run) exec" where
  "close_file e s = (case ps_script s of
       AClose r # os \<Rightarrow> Ret (if r \<noteq> 0 \<and> e = IPSEC_OK then IPSEC_ERR_FILE_WRITE else e, s\<lparr>ps_script := os\<rparr>)
     | _ \<Rightarrow> Blocked)"

definition unlink_file :: "bytes \<Rightarrow> psk_run \<Rightarrow> psk_run exec" where
  "unlink_file path s = (case ps_script s of
       AUnlink r # os \<Rightarrow>
         let s = s\<lparr>ps_script := os\<rparr>
         in Ret (if r = 0 then s\<lparr>ps_disk := (ps_disk s)(path := None)\<rparr> else s\<lparr>ps_left := True\<rparr>)
     | _ \<Rightarrow> Blocked)"

definition WriteIpsecPskText :: "bytes \<Rightarrow> bytes \<Rightarrow> nat \<Rightarrow> psk_run \<Rightarrow> (IpsecError \<times> psk_run) exec" where
  "WriteIpsecPskText path pcText zLength s =
     exec_bind (create_file path s) (\<lambda>(eError, s).
       if eError \<noteq> IPSEC_OK then Ret (eError, s)
       else exec_bind (on_ok (on_ok (set_mode s) (write_loop path pcText zLength 0)) sync_file) (\<lambda>(eError, s).
         exec_bind (close_file eError s) (\<lambda>(eError, s).
           exec_bind (if eError \<noteq> IPSEC_OK then unlink_file path s else Ret s) (\<lambda>s. Ret (eError, s)))))"

definition acHex :: bytes where "acHex = lit ''0123456789abcdef''"

fun hex_loop :: "bytes \<Rightarrow> nat list \<Rightarrow> bytes \<Rightarrow> bytes option" where
  "hex_loop aucRandom [] acText = Some acText"
| "hex_loop aucRandom (i # is) acText =
     rd aucRandom i \<bind> (\<lambda>b. rd acHex (unat (drop_bit 4 b)) \<bind> (\<lambda>h. rd acHex (unat (and b 15)) \<bind> (\<lambda>l.
       write_at acText (i * 2) [h] \<bind> (\<lambda>t. write_at t (i * 2 + 1) [l] \<bind> (\<lambda>t. hex_loop aucRandom is t)))))"

text \<open>The two arrays are returned as they are when the function returns.\<close>

definition wipe_key :: "bytes \<Rightarrow> IpsecError \<times> bytes \<times> psk_run \<Rightarrow> (IpsecError \<times> bytes \<times> bytes \<times> psk_run) exec" where
  "wipe_key aucRandom r = (case r of (eError, acText, s) \<Rightarrow>
     exec_bind (lift_option (SecureZeroIpsec aucRandom IPSEC_GENERATED_PSK_BYTE_LENGTH)) (\<lambda>aucRandom.
       exec_bind (lift_option (SecureZeroIpsec acText (IPSEC_GENERATED_PSK_TEXT_LENGTH + 1))) (\<lambda>acText.
         Ret (eError, aucRandom, acText, s))))"

definition write_key :: "bytes \<Rightarrow> bytes \<Rightarrow> bytes \<Rightarrow> psk_run \<Rightarrow> (IpsecError \<times> bytes \<times> psk_run) exec" where
  "write_key path aucRandom acText s =
     exec_bind (lift_option (hex_loop aucRandom [0..<IPSEC_GENERATED_PSK_BYTE_LENGTH] acText \<bind> (\<lambda>t.
         write_at t IPSEC_GENERATED_PSK_TEXT_LENGTH [10]))) (\<lambda>acText.
       exec_bind (WriteIpsecPskText path acText (IPSEC_GENERATED_PSK_TEXT_LENGTH + 1) s) (\<lambda>(eError, s).
         Ret (eError, acText, s)))"

definition GenerateIpsecPskFile ::
  "bytes option \<Rightarrow> bytes \<Rightarrow> bytes \<Rightarrow> psk_run \<Rightarrow> (IpsecError \<times> bytes \<times> bytes \<times> psk_run) exec" where
  "GenerateIpsecPskFile pcPath aucRandom acText s = (case pcPath of None \<Rightarrow> Ret (IPSEC_ERR_INVALID_ARGUMENT, aucRandom, acText, s)
     | Some path \<Rightarrow>
         if cstr path = [] then Ret (IPSEC_ERR_INVALID_ARGUMENT, aucRandom, acText, s)
         else exec_bind (FillIpsecRandom IPSEC_GENERATED_PSK_BYTE_LENGTH aucRandom s) (\<lambda>(eError, aucRandom, s).
           exec_bind (if eError = IPSEC_OK then write_key (cstr path) aucRandom acText s else Ret (eError, acText, s)) (wipe_key aucRandom)))"

section \<open>What is filled\<close>

text \<open>
  The first \<open>off'\<close> bytes are the first \<open>off\<close> as they were and then what the source delivered; the disk is as it was.
\<close>

definition filled :: "bytes \<Rightarrow> nat \<Rightarrow> psk_run \<Rightarrow> bytes \<Rightarrow> nat \<Rightarrow> psk_run \<Rightarrow> bool" where
  "filled d off s d' off' s' \<longleftrightarrow> ps_disk s' = ps_disk s \<and> ps_left s' = ps_left s \<and> length d' = length d \<and> off \<le> off'
     \<and> (\<exists>bs. ps_random s' = ps_random s @ bs \<and> take off' d' = take off d @ bs)"

lemma filled_refl [simp]: "filled d off s d off s"
  by (simp add: filled_def)

lemma filled_script [simp]: "filled d off (s\<lparr>ps_script := os\<rparr>) d' off' s' = filled d off s d' off' s'"
  "filled d off s d' off' (s'\<lparr>ps_script := os\<rparr>) = filled d off s d' off' s'"
  by (simp_all add: filled_def)

lemma filled_trans: "filled d off s d1 off1 s1 \<Longrightarrow> filled d1 off1 s1 d2 off2 s2 \<Longrightarrow> filled d off s d2 off2 s2"
  by (auto simp: filled_def)

lemma filled_read:
  assumes "off + length bs \<le> length d" and "write_at d off bs = Some d'"
  shows "filled d off s d' (off + length bs) (s\<lparr>ps_script := os, ps_random := ps_random s @ bs\<rparr>)"
  using assms by (auto simp: filled_def write_at_def split: if_splits)

lemma write_fits: "off + length bs \<le> length d \<Longrightarrow> \<exists>d'. write_at d off bs = Some d'"
  by (simp add: write_at_def)

lemma read_random_fills:
  assumes "off \<le> n" and "n \<le> length d"
  shows "runs (\<lambda>(e, d', s'). \<exists>off'. filled d off s d' off' s' \<and> (e = IPSEC_OK \<longrightarrow> off' = n)) (read_random n off d s)"
  using assms
proof (induction n off d s rule: read_random.induct)
  case (1 n off d s)
  show ?case
  proof (cases "off < n \<and> (\<exists>r err bs os. ps_script s = AReadRandom r err bs # os \<and> \<not> int (n - off) < r \<and> length bs = nat r)")
    case False
    then show ?thesis
      using 1(3,4) by (subst read_random.simps) (auto split: list.split file_answer.split intro!: exI [of _ n])
  next
    case True
    then obtain r err bs os where os: "off < n" "ps_script s = AReadRandom r err bs # os" "\<not> int (n - off) < r" "length bs = nat r" by blast
    have fit: "off + length bs \<le> n" using os by linarith
    then obtain d' where d': "write_at d off bs = Some d'" using write_fits [of off bs d] 1(4) by auto
    let ?s = "s\<lparr>ps_script := os, ps_random := ps_random s @ bs\<rparr>"
    have f: "filled d off s d' (off + length bs) ?s" using filled_read [OF _ d'] fit 1(4) by simp
    have len: "length d' = length d" using f by (simp add: filled_def)
    have big: "runs (\<lambda>(e, d', s'). \<exists>off'. filled d off s d' off' s' \<and> (e = IPSEC_OK \<longrightarrow> off' = n)) (read_random n (off + nat r) d' ?s)" if "0 < r"
      using 1(1) [OF _ os(2) refl _ d' refl that] os fit 1(4) len filled_trans [OF f] by (auto elim!: runs_mono)
    have same: "runs (\<lambda>(e, d', s'). \<exists>off'. filled d off s d' off' s' \<and> (e = IPSEC_OK \<longrightarrow> off' = n)) (read_random n off d' ?s)" if "\<not> 0 < r" "r < 0 \<and> err = EINTR"
      using 1(2) [OF _ os(2) refl _ d' refl that] os fit 1(3,4) len filled_trans [OF f] that by (auto elim!: runs_mono)
    show ?thesis
      using os f d' big same by (subst read_random.simps) (auto simp: Let_def)
  qed
qed

lemma getrandom_fills:
  assumes "off \<le> n" and "n \<le> length d"
  shows "runs (\<lambda>(e, fb, off', d', s'). filled d off s d' off' s' \<and> off' \<le> n \<and> (e = IPSEC_OK \<and> \<not> fb \<longrightarrow> off' = n)) (getrandom_loop n off d s)"
  using assms
proof (induction n off d s rule: getrandom_loop.induct)
  case (1 n off d s)
  show ?case
  proof (cases "off < n \<and> (\<exists>r err bs os. ps_script s = AGetrandom r err bs # os \<and> \<not> int (n - off) < r \<and> length bs = nat r)")
    case False
    then show ?thesis
      using 1(3,4) by (subst getrandom_loop.simps) (auto split: list.split file_answer.split)
  next
    case True
    then obtain r err bs os where os: "off < n" "ps_script s = AGetrandom r err bs # os" "\<not> int (n - off) < r" "length bs = nat r" by blast
    have fit: "off + length bs \<le> n" using os by linarith
    then obtain d' where d': "write_at d off bs = Some d'" using write_fits [of off bs d] 1(4) by auto
    let ?s = "s\<lparr>ps_script := os, ps_random := ps_random s @ bs\<rparr>"
    have f: "filled d off s d' (off + length bs) ?s" using filled_read [OF _ d'] fit 1(4) by simp
    have len: "length d' = length d" using f by (simp add: filled_def)
    have big: "runs (\<lambda>(e, fb, off', d', s'). filled d off s d' off' s' \<and> off' \<le> n \<and> (e = IPSEC_OK \<and> \<not> fb \<longrightarrow> off' = n)) (getrandom_loop n (off + nat r) d' ?s)" if "0 < r"
      using 1(1) [OF _ os(2) refl _ d' refl that] os fit 1(4) len filled_trans [OF f] by (auto elim!: runs_mono)
    have same: "runs (\<lambda>(e, fb, off', d', s'). filled d off s d' off' s' \<and> off' \<le> n \<and> (e = IPSEC_OK \<and> \<not> fb \<longrightarrow> off' = n)) (getrandom_loop n off d' ?s)" if "\<not> 0 < r" "r < 0 \<and> err = EINTR"
      using 1(2) [OF _ os(2) refl _ d' refl that] os fit 1(3,4) len filled_trans [OF f] that by (auto elim!: runs_mono)
    show ?thesis
      using os f d' big same by (subst getrandom_loop.simps) (auto simp: Let_def)
  qed
qed

lemma Fill_fills:
  assumes "n \<le> length d"
  shows "runs (\<lambda>(e, d', s'). \<exists>off'. filled d 0 s d' off' s' \<and> (e = IPSEC_OK \<longrightarrow> off' = n)) (FillIpsecRandom n d s)"
  unfolding FillIpsecRandom_def
proof (rule runs_bind [OF getrandom_fills [OF _ assms]], simp, clarify)
  fix e fb off1 d1 s1
  assume f: "filled d 0 s d1 off1 s1" "off1 \<le> n" "e = IPSEC_OK \<and> \<not> fb \<longrightarrow> off1 = n"
  have "n \<le> length d1" using f(1) assms by (simp add: filled_def)
  then have *: "runs (\<lambda>(e, d', s'). \<exists>off'. filled d1 off1 s1 d' off' s' \<and> (e = IPSEC_OK \<longrightarrow> off' = n)) (ReadIpsecRandomFallback n off1 d1 s1)"
    using read_random_fills [OF f(2), of d1 "s1\<lparr>ps_script := tl (ps_script s1)\<rparr>"] unfolding ReadIpsecRandomFallback_def
    by (auto simp: Let_def split: list.split file_answer.split intro!: exI [of _ off1])
  show "runs (\<lambda>(e, d', s'). \<exists>off'. filled d 0 s d' off' s' \<and> (e = IPSEC_OK \<longrightarrow> off' = n))
      (if fb then ReadIpsecRandomFallback n off1 d1 s1 else Ret (e, d1, s1))"
  proof (cases fb)
    case True
    with * show ?thesis using filled_trans [OF f(1)] by (auto elim!: runs_mono)
  next
    case False
    with f show ?thesis by (auto intro!: exI [of _ off1])
  qed
qed

section \<open>What is written\<close>

text \<open>The text of a key.\<close>

definition hex2 :: "u8 \<Rightarrow> bytes" where
  "hex2 b = [acHex ! unat (drop_bit 4 b), acHex ! unat (and b 15)]"

definition hex_text :: "bytes \<Rightarrow> bytes" where
  "hex_text key = concat (map hex2 key)"

lemma hex_length [simp]: "length (hex_text key) = 2 * length key"
  by (induction key) (simp_all add: hex_text_def hex2_def)

lemma nibbles: "unat (drop_bit 4 (b :: u8)) < 16" "unat (and b (15 :: u8)) < 16"
proof -
  have "unat (drop_bit 4 b) = unat b div 16" using unsigned_drop_bit_eq [of 4 b, where ?'a = nat] unsigned_less [of b, where ?'a = nat] by (simp add: drop_bit_eq_div take_bit_eq_mod)
  then show "unat (drop_bit 4 b) < 16" using unsigned_less [of b, where ?'a = nat] by simp
  have "and b 15 = take_bit 4 b" by (simp add: take_bit_eq_mask mask_eq_exp_minus_1)
  then have "unat (and b 15) = unat b mod 16" using unsigned_take_bit_eq [of 4 b, where ?'a = nat] by (simp add: take_bit_eq_mod)
  then show "unat (and b (15 :: u8)) < 16" by simp
qed

lemma acHex_length: "length acHex = 16"
  by (simp add: acHex_def lit_def)

lemma write_pair:
  assumes "off + 2 \<le> length t"
  shows "write_at t off [h] \<bind> (\<lambda>t. write_at t (off + 1) [l] \<bind> f) = f (take off t @ [h, l] @ drop (off + 2) t)"
  using assms by (auto simp: write_at_def)

lemma hex_loop_text:
  assumes "i \<le> n" and "n \<le> length key" and "2 * n \<le> length t" and "take (2 * i) t = hex_text (take i key)"
  shows "\<exists>t'. hex_loop key [i..<n] t = Some t' \<and> length t' = length t \<and> take (2 * n) t' = hex_text (take n key)"
  using assms
proof (induction "n - i" arbitrary: i t)
  case 0
  then show ?case by simp
next
  case (Suc k)
  then have i: "i < n" "i < length key" by auto
  have k: "k = n - Suc i" using Suc.hyps(2) by simp
  let ?b = "key ! i"
  let ?t = "take (2 * i) t @ hex2 ?b @ drop (2 * i + 2) t"
  have "take (2 * Suc i) ?t = hex_text (take (Suc i) key)"
  proof -
    have "length (take (2 * i) t) = 2 * i" using Suc.prems i by simp
    then show ?thesis using Suc.prems(4) i by (simp add: hex_text_def hex2_def take_Suc_conv_app_nth)
  qed
  moreover have "length ?t = length t" using Suc.prems i by (simp add: hex2_def)
  ultimately obtain t' where "hex_loop key [Suc i..<n] ?t = Some t'" "length t' = length t" "take (2 * n) t' = hex_text (take n key)"
    using Suc.hyps(1) [of "Suc i" ?t] k Suc.prems(2,3) i by auto
  moreover have "hex_loop key [i..<n] t = hex_loop key [Suc i..<n] ?t"
  proof -
    have rd: "rd key i = Some ?b" "rd acHex (unat (drop_bit 4 ?b)) = Some (acHex ! unat (drop_bit 4 ?b))"
      "rd acHex (unat (and ?b 15)) = Some (acHex ! unat (and ?b 15))"
      using i nibbles [of ?b] by (simp_all only: rd_def acHex_length if_True)
    show ?thesis
      using rd write_pair [of "2 * i" t] Suc.prems i by (simp only: upt_conv_Cons [OF i(1)] hex_loop.simps hex2_def mult.commute [of i 2]) simp
  qed
  ultimately show ?case by simp
qed

text \<open>The file grows by what was written, and nothing else changes on the disk.\<close>

definition written :: "bytes \<Rightarrow> bytes \<Rightarrow> nat \<Rightarrow> psk_run \<Rightarrow> IpsecError \<times> psk_run \<Rightarrow> bool" where
  "written path t n s = (\<lambda>(e, s'). ps_random s' = ps_random s \<and> ps_left s' = ps_left s
     \<and> (\<exists>c. ps_disk s' = (ps_disk s)(path := Some c) \<and> (e = IPSEC_OK \<longrightarrow> c = take n t)))"

lemma written_later:
  assumes "ps_random s1 = ps_random s" and "ps_left s1 = ps_left s" and "ps_disk s1 = (ps_disk s)(path := x)" and "written path t n s1 r"
  shows "written path t n s r"
  using assms by (auto simp: written_def)

lemma write_loop_file:
  assumes "ps_disk s path = Some (take off t)" and "off \<le> n" and "n \<le> length t"
  shows "runs (written path t n s) (write_loop path t n off s)"
  using assms
proof (induction path t n off s rule: write_loop.induct)
  case (1 path t n off s)
  show ?case
  proof (cases "off < n \<and> (\<exists>r err os. ps_script s = AWrite r err # os \<and> \<not> int (n - off) < r)")
    case False
    then show ?thesis
      using 1(3-5) by (subst write_loop.simps) (auto simp: written_def split: list.split file_answer.split)
  next
    case True
    then obtain r err os where os: "off < n" "ps_script s = AWrite r err # os" "\<not> int (n - off) < r" by blast
    let ?src = "take (n - off) (drop off t)"
    have src: "rd_bytes t off (n - off) = Some ?src" using 1(4,5) by (simp add: rd_bytes_def)
    obtain s1 where s1: "append_file path (take (nat r) ?src) (s\<lparr>ps_script := os\<rparr>) = s1" by blast
    have "take off t @ take (nat r) ?src = take (off + nat r) t"
      using os by (simp add: take_add min_def)
    then have disk: "ps_disk s1 = (ps_disk s)(path := Some (take (off + nat r) t))" "ps_random s1 = ps_random s" "ps_left s1 = ps_left s"
      using 1(3) by (auto simp: append_file_def simp flip: s1)
    note later = written_later [OF disk(2,3,1)]
    have big: "runs (written path t n s) (write_loop path t n (off + nat r) s1)" if "0 < r"
      using 1(1) [OF _ os(2) refl os(3) src s1 [symmetric] that] os disk 1(5) by (intro runs_mono [OF _ later]) auto
    have same: "runs (written path t n s) (write_loop path t n off s1)" if "\<not> 0 < r" "r < 0 \<and> err = EINTR"
      using 1(2) [OF _ os(2) refl os(3) src s1 [symmetric] that] os disk 1(5) that by (intro runs_mono [OF _ later]) auto
    have stop: "written path t n s (IPSEC_ERR_FILE_WRITE, s1)" using disk by (auto simp: written_def)
    show ?thesis
      using os src s1 big same stop by (subst write_loop.simps) (auto simp: Let_def)
  qed
qed

lemma set_mode_keeps: "runs (\<lambda>(e, s'). ps_disk s' = ps_disk s \<and> ps_random s' = ps_random s \<and> ps_left s' = ps_left s) (set_mode s)"
  by (simp add: set_mode_def split: list.split file_answer.split)

lemma close_file_keeps: "runs (\<lambda>(e', s'). (e' = IPSEC_OK \<longrightarrow> e = IPSEC_OK) \<and> ps_disk s' = ps_disk s \<and> ps_random s' = ps_random s \<and> ps_left s' = ps_left s) (close_file e s)"
  by (simp add: close_file_def split: list.split file_answer.split)

text \<open>The file is complete, or it is gone unless its removal failed.\<close>

definition kept_whole :: "bytes \<Rightarrow> bytes \<Rightarrow> psk_run \<Rightarrow> IpsecError \<times> psk_run \<Rightarrow> bool" where
  "kept_whole path txt s = (\<lambda>(e, s'). ps_random s' = ps_random s
     \<and> (e = IPSEC_OK \<longrightarrow> ps_disk s path = None \<and> ps_disk s' = (ps_disk s)(path := Some txt))
     \<and> (e \<noteq> IPSEC_OK \<longrightarrow> ps_disk s' = ps_disk s \<or> ps_left s'))"

lemma create_file_new:
  "runs (\<lambda>(e, s'). ps_random s' = ps_random s \<and> ps_left s' = ps_left s
     \<and> (e = IPSEC_OK \<longrightarrow> ps_disk s path = None \<and> ps_disk s' = (ps_disk s)(path := Some []))
     \<and> (e \<noteq> IPSEC_OK \<longrightarrow> ps_disk s' = ps_disk s)) (create_file path s)"
  by (simp add: create_file_def Let_def split: list.split file_answer.split)

lemma body_written:
  assumes "ps_disk s path = Some []" and "n \<le> length t"
  shows "runs (written path t n s) (on_ok (on_ok (set_mode s) (write_loop path t n 0)) sync_file)"
  unfolding on_ok_def
proof (rule runs_bind [where P = "written path t n s"])
  show "runs (written path t n s) (exec_bind (set_mode s) (\<lambda>(e, s). if e = IPSEC_OK then write_loop path t n 0 s else Ret (e, s)))"
  proof (rule runs_bind [OF set_mode_keeps], clarify)
    fix e and s1 :: psk_run
    assume s1: "ps_disk s1 = ps_disk s" "ps_random s1 = ps_random s" "ps_left s1 = ps_left s"
    then have "runs (written path t n s1) (write_loop path t n 0 s1)" using write_loop_file [of s1 path 0 t n] assms by simp
    moreover have "written path t n s1 = written path t n s" using s1 by (simp add: written_def fun_eq_iff)
    moreover have "written path t n s (e, s1)" if "e \<noteq> IPSEC_OK" using s1 assms that by (auto simp: written_def fun_eq_iff)
    ultimately show "runs (written path t n s) (if e = IPSEC_OK then write_loop path t n 0 s1 else Ret (e, s1))" by simp
  qed
next
  fix x assume "written path t n s x"
  then show "runs (written path t n s) (case x of (e, s) \<Rightarrow> if e = IPSEC_OK then sync_file s else Ret (e, s))"
    by (cases x) (auto simp: written_def sync_file_def split: list.split file_answer.split)
qed

lemma Write_whole:
  assumes "n \<le> length t"
  shows "runs (kept_whole path (take n t) s) (WriteIpsecPskText path t n s)"
  unfolding WriteIpsecPskText_def
proof (rule runs_bind [OF create_file_new], clarify, split if_split, intro conjI impI, goal_cases)
  case (1 e s1)
  then show ?case by (simp add: kept_whole_def)
next
  case (2 e s1)
  then have s1: "ps_random s1 = ps_random s" "ps_disk s path = None" "ps_disk s1 = (ps_disk s)(path := Some [])" by auto
  show ?case
  proof (rule runs_bind [OF body_written [of s1 path n t]], goal_cases)
    case (3 x)
    then show ?case
    proof (cases x, clarify, intro runs_bind [OF close_file_keeps], clarify, goal_cases)
      case (1 e1 s2 e2 s3)
      then obtain c where "ps_random s3 = ps_random s" "ps_disk s3 = (ps_disk s)(path := Some c)" "e2 = IPSEC_OK \<longrightarrow> c = take n t"
        using s1 by (auto simp: written_def)
      then show ?case
        using s1(2) by (auto simp: kept_whole_def unlink_file_def Let_def fun_upd_idem split: list.split file_answer.split)
    qed
  qed (use s1 assms in simp_all)
qed

text \<open>The text of the key, with its line end.\<close>

lemma key_text:
  assumes "length key = 48" and "length t = 97"
  shows "(hex_loop key [0..<IPSEC_GENERATED_PSK_BYTE_LENGTH] t \<bind> (\<lambda>t. write_at t IPSEC_GENERATED_PSK_TEXT_LENGTH [10])) = Some (hex_text key @ [10])"
proof -
  have nil: "take (2 * 0) t = hex_text (take 0 key)" by (simp add: hex_text_def)
  obtain t' where t': "hex_loop key [0..<48] t = Some t'" "length t' = 97" "take 96 t' = hex_text key"
    using hex_loop_text [OF _ _ _ nil, of 48] assms by (auto simp del: upt_rec_numeral)
  then have "write_at t' 96 [10] = Some (hex_text key @ [10])" by (simp add: write_at_def)
  then show ?thesis
    using t'(1) by (simp add: IPSEC_GENERATED_PSK_BYTE_LENGTH_def IPSEC_GENERATED_PSK_TEXT_LENGTH_def del: upt_rec_numeral)
qed

section \<open>The claim\<close>

lemma zeroed: "length d = n \<Longrightarrow> SecureZeroIpsec d n = Some (replicate n 0)"
  by (simp add: SecureZeroIpsec_def write_at_def)

definition psk_atomic :: "bytes \<Rightarrow> psk_run \<Rightarrow> IpsecError \<times> bytes \<times> bytes \<times> psk_run \<Rightarrow> bool" where
  "psk_atomic path s = (\<lambda>(e, rnd, txt, s').
     rnd = replicate 48 0 \<and> txt = replicate 97 0
     \<and> (e = IPSEC_OK \<longrightarrow> ps_disk s path = None
          \<and> (\<exists>key. length key = 48 \<and> ps_random s' = ps_random s @ key \<and> ps_disk s' = (ps_disk s)(path := Some (hex_text key @ [10]))))
     \<and> (e \<noteq> IPSEC_OK \<longrightarrow> ps_disk s' = ps_disk s \<or> ps_left s'))"

lemma wipe_key_Ret: "length d = 48 \<Longrightarrow> length t = 97 \<Longrightarrow> wipe_key d (e, t, s) = Ret (e, replicate 48 0, replicate 97 0, s)"
  by (simp add: wipe_key_def zeroed IPSEC_GENERATED_PSK_BYTE_LENGTH_def IPSEC_GENERATED_PSK_TEXT_LENGTH_def)

lemma write_key_whole:
  assumes "length key = 48" and "length t = 97"
  shows "runs (\<lambda>(e, t', s'). length t' = 97 \<and> kept_whole path (hex_text key @ [10]) s (e, s')) (write_key path key t s)"
proof -
  have n: "IPSEC_GENERATED_PSK_TEXT_LENGTH + 1 = length (hex_text key @ [10])"
    using assms(1) by (simp add: IPSEC_GENERATED_PSK_BYTE_LENGTH_def IPSEC_GENERATED_PSK_TEXT_LENGTH_def)
  have "runs (kept_whole path (hex_text key @ [10]) s) (WriteIpsecPskText path (hex_text key @ [10]) (IPSEC_GENERATED_PSK_TEXT_LENGTH + 1) s)"
    using Write_whole [of "length (hex_text key @ [10])" "hex_text key @ [10]" path s] unfolding n by simp
  then show ?thesis
    unfolding write_key_def key_text [OF assms] using assms(1) by (auto intro!: runs_bind)
qed

lemma Generate_path:
  assumes "length rnd = 48" and "length txt = 97" and "cstr path \<noteq> []"
  shows "runs (psk_atomic (cstr path) s) (GenerateIpsecPskFile (Some path) rnd txt s)"
proof -
  have len: "IPSEC_GENERATED_PSK_BYTE_LENGTH \<le> length rnd" using assms by (simp add: IPSEC_GENERATED_PSK_BYTE_LENGTH_def)
  have "runs (psk_atomic (cstr path) s) (exec_bind (FillIpsecRandom IPSEC_GENERATED_PSK_BYTE_LENGTH rnd s) (\<lambda>(eError, aucRandom, s).
      exec_bind (if eError = IPSEC_OK then write_key (cstr path) aucRandom txt s else Ret (eError, txt, s)) (wipe_key aucRandom)))"
  proof (rule runs_bind [OF Fill_fills [OF len]], clarify, goal_cases)
    case (1 e key s1 off)
    then have f: "length key = 48" "ps_disk s1 = ps_disk s" using assms by (simp_all add: filled_def)
    show ?case
    proof (cases "e = IPSEC_OK")
      case False
      with f assms(2) show ?thesis by (simp add: psk_atomic_def wipe_key_Ret)
    next
      case True
      with 1 f(1) have key: "ps_random s1 = ps_random s @ key" by (auto simp: filled_def IPSEC_GENERATED_PSK_BYTE_LENGTH_def)
      have "runs (psk_atomic (cstr path) s) (exec_bind (write_key (cstr path) key txt s1) (wipe_key key))"
        by (rule runs_bind [OF write_key_whole [OF f(1) assms(2)]]) (auto simp: kept_whole_def psk_atomic_def wipe_key_Ret f key)
      with True show ?thesis by simp
    qed
  qed
  then show ?thesis using assms(3) by (simp add: GenerateIpsecPskFile_def)
qed


text \<open>
  A run: the kernel delivers forty bytes and is interrupted, then the other eight; the file is written in two parts.
\<close>

definition key_run :: psk_run where
  "key_run = \<lparr>ps_script = [AGetrandom 40 EINTR (replicate 40 171), AGetrandom (-1) EINTR [], AGetrandom 8 EINTR (replicate 8 9),
       ACreate 3 EINTR, AFchmod 0 EINTR, AWrite 50 EINTR, AWrite 47 EINTR, AFsync 0, AClose 0],
     ps_random = [], ps_disk = (\<lambda>_. None), ps_left = False\<rparr>"

definition run_key :: bytes where "run_key = replicate 40 171 @ replicate 8 9"

lemma key_run_Fill:
  "FillIpsecRandom 48 (replicate 48 1) key_run =
     Ret (IPSEC_OK, run_key, key_run\<lparr>ps_script := drop 3 (ps_script key_run), ps_random := run_key\<rparr>)"
  by (simp add: FillIpsecRandom_def getrandom_loop.simps key_run_def run_key_def write_at_def)

lemma key_run_Write:
  assumes "length t = 97"
  shows "WriteIpsecPskText p t 97 (key_run\<lparr>ps_script := drop 3 (ps_script key_run), ps_random := run_key\<rparr>) =
     Ret (IPSEC_OK, key_run\<lparr>ps_script := [], ps_random := run_key, ps_disk := [p \<mapsto> t]\<rparr>)"
  using assms
  by (simp add: WriteIpsecPskText_def create_file_def set_mode_def sync_file_def close_file_def write_loop.simps append_file_def
      key_run_def rd_bytes_def Let_def take_add [of 50 47 t, simplified, symmetric])

lemma key_run_Generate:
  "GenerateIpsecPskFile (Some (lit ''/k'' @ [0])) (replicate 48 1) (replicate 97 2) key_run =
     Ret (IPSEC_OK, replicate 48 0, replicate 97 0,
       key_run\<lparr>ps_script := [], ps_random := run_key, ps_disk := [lit ''/k'' \<mapsto> hex_text run_key @ [10]]\<rparr>)"
proof -
  have len: "length run_key = 48" "length (hex_text run_key @ [10]) = 97" by (simp_all add: run_key_def)
  have p: "cstr (lit ''/k'' @ [0]) = lit ''/k''" "lit ''/k'' \<noteq> []" by (simp_all add: cstr_def lit_def)
  have n: "IPSEC_GENERATED_PSK_BYTE_LENGTH = 48" "IPSEC_GENERATED_PSK_TEXT_LENGTH + 1 = 97"
    by (simp_all add: IPSEC_GENERATED_PSK_BYTE_LENGTH_def IPSEC_GENERATED_PSK_TEXT_LENGTH_def)
  have "write_key (lit ''/k'') run_key (replicate 97 2) (key_run\<lparr>ps_script := drop 3 (ps_script key_run), ps_random := run_key\<rparr>) =
    Ret (IPSEC_OK, hex_text run_key @ [10], key_run\<lparr>ps_script := [], ps_random := run_key, ps_disk := [lit ''/k'' \<mapsto> hex_text run_key @ [10]]\<rparr>)"
    unfolding write_key_def using key_text [OF len(1), of "replicate 97 2"] key_run_Write [OF len(2)] by (simp add: n(2) [simplified])
  then show ?thesis
    using key_run_Fill wipe_key_Ret [OF len] p by (simp add: GenerateIpsecPskFile_def n(1))
qed


end
