(* ===== verification/App_Command.thy ===== *)
theory App_Command
  imports Core_Util
begin

text \<open>
  The command line of the application, \<open>src/app/command.c\<close>: the options of the program, of \<open>packet\<close> and of \<open>show\<close>, numbers,
  and the splitting of a line into words. The line is split in its own buffer: the words are written over the text that was
  read, and a word is an offset into the buffer.
\<close>

section \<open>Arguments\<close>

text \<open>
  \<open>argv\<close> is a list of possibly NULL strings; \<open>None\<close> is an access outside of it. A comparison with \<open>strcmp\<close> is one of the texts
  before the terminator.
\<close>

definition arg :: "bytes option list \<Rightarrow> nat \<Rightarrow> bytes option option" where
  "arg args i = (if i < length args then Some (args ! i) else None)"

definition is_text :: "string \<Rightarrow> bytes \<Rightarrow> bool" where
  "is_text t a \<longleftrightarrow> cstr a = lit t"

definition first_char :: "bytes \<Rightarrow> u8" where
  "first_char a = (case cstr a of [] \<Rightarrow> 0 | c # _ \<Rightarrow> c)"

record NativeAppStartupOptions =
  so_pcConfigPath :: "bytes option"
  so_pcApplicationConfigPath :: "bytes option"
  so_pcGeneratePskPath :: "bytes option"
  so_iCommandIndex :: int
  so_bVerbose :: bool
  so_bHelp :: bool

definition zero_startup :: NativeAppStartupOptions where
  "zero_startup = \<lparr>so_pcConfigPath = None, so_pcApplicationConfigPath = None, so_pcGeneratePskPath = None,
     so_iCommandIndex = 0, so_bVerbose = False, so_bHelp = False\<rparr>"

datatype startup_kind = PathOption "bytes \<Rightarrow> NativeAppStartupOptions \<Rightarrow> NativeAppStartupOptions" | Flag "NativeAppStartupOptions \<Rightarrow> NativeAppStartupOptions"
  | BadOption | Command

definition startup_word :: "bytes \<Rightarrow> startup_kind" where
  "startup_word pcArgument =
     (if is_text ''-c'' pcArgument \<or> is_text ''--app-config'' pcArgument then PathOption (\<lambda>p o'. o'\<lparr>so_pcApplicationConfigPath := Some p\<rparr>)
      else if is_text ''--config'' pcArgument then PathOption (\<lambda>p o'. o'\<lparr>so_pcConfigPath := Some p\<rparr>)
      else if is_text ''--generate-psk'' pcArgument then PathOption (\<lambda>p o'. o'\<lparr>so_pcGeneratePskPath := Some p\<rparr>)
      else if is_text ''-v'' pcArgument \<or> is_text ''--verbose'' pcArgument then Flag (so_bVerbose_update (\<lambda>_. True))
      else if is_text ''-h'' pcArgument \<or> is_text ''--help'' pcArgument then Flag (so_bHelp_update (\<lambda>_. True))
      else if first_char pcArgument = 45 then BadOption
      else Command)"

text \<open>The value of a path option is the next argument, if there is one that is neither empty nor an option.\<close>

definition path_value :: "bytes option list \<Rightarrow> nat \<Rightarrow> nat \<Rightarrow> bytes option option" where
  "path_value args n i =
     (if n \<le> i then Some None
      else map_option (\<lambda>v. case v of None \<Rightarrow> None | Some p \<Rightarrow> if first_char p = 0 \<or> first_char p = 45 then None else Some p) (arg args i))"

function startup_loop :: "bytes option list \<Rightarrow> nat \<Rightarrow> nat \<Rightarrow> NativeAppStartupOptions \<Rightarrow> (bool \<times> NativeAppStartupOptions) option" where
  "startup_loop args n i opts =
     (if n \<le> i then Some (True, opts)
      else case arg args i of None \<Rightarrow> None
        | Some None \<Rightarrow> Some (False, opts)
        | Some (Some pcArgument) \<Rightarrow> (case startup_word pcArgument of
            BadOption \<Rightarrow> Some (False, opts)
          | Command \<Rightarrow> Some (True, opts\<lparr>so_iCommandIndex := int i\<rparr>)
          | Flag f \<Rightarrow> startup_loop args n (i + 1) (f opts)
          | PathOption f \<Rightarrow> (case path_value args n (i + 1) of None \<Rightarrow> None
              | Some None \<Rightarrow> Some (False, opts)
              | Some (Some p) \<Rightarrow> startup_loop args n (i + 2) (f p opts))))"
  by pat_completeness auto
termination
  by (relation "measure (\<lambda>(args, n, i, opts). n - i)") auto

declare startup_loop.simps [simp del]

definition ParseNativeAppStartupOptions ::
  "int \<Rightarrow> bytes option list option \<Rightarrow> NativeAppStartupOptions option \<Rightarrow> (bool \<times> NativeAppStartupOptions option) option" where
  "ParseNativeAppStartupOptions iArgumentCount ppcArguments pOptions =
     (if iArgumentCount < 1 \<or> ppcArguments = None then Some (False, pOptions)
      else case arg (the ppcArguments) 0 of None \<Rightarrow> None
        | Some a0 \<Rightarrow>
            if a0 = None \<or> pOptions = None then Some (False, pOptions)
            else map_option (apsnd Some)
              (startup_loop (the ppcArguments) (nat iArgumentCount) 1 (zero_startup\<lparr>so_iCommandIndex := iArgumentCount\<rparr>)))"

section \<open>Numbers, packet and show options\<close>

definition ParseNativeAppNumber :: "bytes option \<Rightarrow> nat option \<Rightarrow> bool \<times> nat option" where
  "ParseNativeAppNumber pcText puiValue =
     (if pcText = None \<or> puiValue = None then (False, puiValue)
      else case strtoull (cstr (the pcText)) 10 of (ullValue, used, erange) \<Rightarrow>
        if erange \<or> used = 0 \<or> used < length (cstr (the pcText)) \<or> UINT32_MAX < ullValue then (False, puiValue)
        else (True, Some ullValue))"

datatype NativeAppPacketAction = NATIVE_APP_PACKET_PROTECTED_RECEIVE | NATIVE_APP_PACKET_PROTECTED_SUBMIT | NATIVE_APP_PACKET_PLAIN_RECEIVE

record NativeAppPacketOptions =
  po_pcPath :: "bytes option"
  po_uiTimeoutMs :: nat
  po_eAction :: NativeAppPacketAction

definition packet_action :: "bytes \<Rightarrow> NativeAppPacketAction option" where
  "packet_action a =
     (if is_text ''protected-receive'' a then Some NATIVE_APP_PACKET_PROTECTED_RECEIVE
      else if is_text ''protected-submit'' a then Some NATIVE_APP_PACKET_PROTECTED_SUBMIT
      else if is_text ''plain-receive'' a then Some NATIVE_APP_PACKET_PLAIN_RECEIVE
      else None)"

text \<open>The timeout of five arguments, or the default of three.\<close>

definition packet_timeout :: "nat \<Rightarrow> bytes option list \<Rightarrow> NativeAppPacketAction \<Rightarrow> nat option option" where
  "packet_timeout n args eAction =
     (if n \<noteq> 5 then Some (Some 10000)
      else if eAction = NATIVE_APP_PACKET_PROTECTED_SUBMIT then Some None
      else case arg args 3 of None \<Rightarrow> None
        | Some None \<Rightarrow> Some None
        | Some (Some a3) \<Rightarrow>
            if \<not> is_text ''--timeout-ms'' a3 then Some None
            else case arg args 4 of None \<Rightarrow> None
              | Some a4 \<Rightarrow> (case ParseNativeAppNumber a4 (Some 10000) of (bParsed, v) \<Rightarrow>
                  if \<not> bParsed \<or> the v > 600000 then Some None else Some v))"

definition ParseNativeAppPacketOptions ::
  "nat \<Rightarrow> bytes option list option \<Rightarrow> NativeAppPacketOptions option \<Rightarrow> (bool \<times> NativeAppPacketOptions option) option" where
  "ParseNativeAppPacketOptions uiArgumentCount ppcArguments pOptions =
     (if ppcArguments = None \<or> pOptions = None \<or> uiArgumentCount \<noteq> 3 \<and> uiArgumentCount \<noteq> 5 then Some (False, pOptions)
      else let args = the ppcArguments in
        arg args 0 \<bind> (\<lambda>a0. arg args 1 \<bind> (\<lambda>a1. arg args 2 \<bind> (\<lambda>a2.
          case (a0, a1, a2) of (Some a0, Some a1, Some a2) \<Rightarrow>
            if first_char a2 = 0 \<or> \<not> is_text ''packet'' a0 then Some (False, pOptions)
            else (case packet_action a1 of None \<Rightarrow> Some (False, pOptions)
              | Some eAction \<Rightarrow> packet_timeout uiArgumentCount args eAction \<bind> (\<lambda>t. case t of None \<Rightarrow> Some (False, pOptions)
                  | Some ms \<Rightarrow> Some (True, Some \<lparr>po_pcPath = Some a2, po_uiTimeoutMs = ms, po_eAction = eAction\<rparr>)))
          | _ \<Rightarrow> Some (False, pOptions)))))"

definition IsNativeAppNamedShowScope :: "bytes \<Rightarrow> bool" where
  "IsNativeAppNamedShowScope pcScope \<longleftrightarrow> is_text ''connections'' pcScope \<or> is_text ''ike'' pcScope \<or> is_text ''child'' pcScope"

definition IsNativeAppDetailedShowScope :: "bytes \<Rightarrow> bool" where
  "IsNativeAppDetailedShowScope pcScope \<longleftrightarrow>
     IsNativeAppNamedShowScope pcScope \<or> is_text ''all'' pcScope \<or> is_text ''summary'' pcScope"

record NativeAppShowOptions =
  sh_pcScope :: "bytes"
  sh_pcName :: "bytes option"
  sh_bDetail :: bool

text \<open>
  The words of a command are never NULL here: the interactive line yields offsets into its buffer, and \<open>main\<close> passes \<open>argv\<close>.
\<close>

definition ParseNativeAppShowOptions :: "nat \<Rightarrow> bytes list option \<Rightarrow> NativeAppShowOptions option \<Rightarrow> (bool \<times> NativeAppShowOptions option) option" where
  "ParseNativeAppShowOptions n ppcArguments pOptions =
     (if n = 0 \<or> 4 < n \<or> ppcArguments = None \<or> pOptions = None then Some (False, pOptions)
      else if length (the ppcArguments) < n then None
      else let args = the ppcArguments;
               pcScope = (if 2 \<le> n then args ! 1 else lit ''summary'' @ [0]);
               detail = (3 \<le> n \<and> is_text ''detail'' (args ! 2));
               pcName = (if detail then (if n = 4 then Some (args ! 3) else None) else if n = 3 then Some (args ! 2) else None);
               o' = \<lparr>sh_pcScope = pcScope, sh_pcName = pcName, sh_bDetail = detail\<rparr>
           in Some (if \<not> detail \<and> 3 < n then False
                    else if detail \<and> \<not> IsNativeAppDetailedShowScope pcScope then False
                    else if pcName \<noteq> None \<and> \<not> IsNativeAppNamedShowScope pcScope then False
                    else True, Some o'))"

section \<open>The line\<close>

function skip_space :: "bytes \<Rightarrow> nat \<Rightarrow> nat option" where
  "skip_space buf r = (case rd buf r of None \<Rightarrow> None | Some c \<Rightarrow> if c_isspace c then skip_space buf (r + 1) else Some r)"
  by pat_completeness auto
termination
  by (relation "measure (\<lambda>(buf, r). length buf - r)") (auto simp: rd_def split: if_splits)

declare skip_space.simps [simp del]

text \<open>One character of the word is stored, and the loop goes on at \<open>r'\<close>.\<close>

function copy_word :: "bytes \<Rightarrow> nat \<Rightarrow> nat \<Rightarrow> u8 \<Rightarrow> (bytes \<times> nat \<times> nat \<times> u8) option" where
  "copy_word buf r w q = (case rd buf r of None \<Rightarrow> None
     | Some c \<Rightarrow>
         if c = 0 then Some (buf, r, w, q)
         else if q \<noteq> 0 \<and> q = c then copy_word buf (r + 1) w 0
         else if q = 0 \<and> (c = 39 \<or> c = 34) then copy_word buf (r + 1) w c
         else if q = 0 \<and> c_isspace c then Some (buf, r, w, q)
         else if c = 92 then (case rd buf (r + 1) of None \<Rightarrow> None
           | Some d \<Rightarrow> if d \<noteq> 0 then (case write_at buf w [d] of None \<Rightarrow> None | Some buf' \<Rightarrow> copy_word buf' (r + 2) (w + 1) q)
                      else (case write_at buf w [c] of None \<Rightarrow> None | Some buf' \<Rightarrow> copy_word buf' (r + 1) (w + 1) q))
         else (case write_at buf w [c] of None \<Rightarrow> None | Some buf' \<Rightarrow> copy_word buf' (r + 1) (w + 1) q))"
  by pat_completeness auto
termination
  by (relation "measure (\<lambda>(buf, r, w, q). length buf - r)") (auto simp: rd_def write_at_def split: if_splits)

declare copy_word.simps [simp del]

text \<open>
  The loop over the words: the offsets of the words read so far, and whether the line was parsed. A word is read in at least
  one step, so the bound of the recursion, the length of the buffer, is never reached; the exact result below shows it.
\<close>

fun line_loop :: "nat \<Rightarrow> bytes \<Rightarrow> nat \<Rightarrow> nat \<Rightarrow> nat list \<Rightarrow> nat \<Rightarrow> (bool \<times> bytes \<times> nat list) option" where
  "line_loop 0 buf r w offs cap = None"
| "line_loop (Suc fuel) buf r w offs cap = skip_space buf r \<bind> (\<lambda>r. rd buf r \<bind> (\<lambda>c.
     if c = 0 then Some (True, buf, offs)
     else if cap \<le> length offs then Some (False, buf, offs)
     else copy_word buf r w 0 \<bind> (\<lambda>(buf, r, w', q).
       if q \<noteq> 0 then Some (False, buf, offs @ [w])
       else skip_space buf r \<bind> (\<lambda>r. write_at buf w' [0] \<bind> (\<lambda>buf.
         line_loop fuel buf r (w' + 1) (offs @ [w]) cap)))))"

text \<open>
  Also the number of words; the array of words is what the loop stored in it. The two flags say that the caller gave an array
  and a counter.
\<close>

definition ParseNativeAppCommandLine :: "bytes option \<Rightarrow> bool \<Rightarrow> nat \<Rightarrow> bool \<Rightarrow> (bool \<times> bytes option \<times> nat list \<times> nat) option" where
  "ParseNativeAppCommandLine pcLine has_arguments uiArgumentCapacity has_count = (case pcLine of
       None \<Rightarrow> Some (False, None, [], 0)
     | Some line \<Rightarrow>
         if \<not> has_arguments \<or> uiArgumentCapacity = 0 \<or> \<not> has_count then Some (False, Some line, [], 0)
         else map_option (\<lambda>(bParsed, buf, offs). (bParsed, Some buf, offs, if bParsed then length offs else 0))
           (line_loop (length line + 1) line 0 0 [] uiArgumentCapacity))"

section \<open>What the options can be\<close>

definition given_path_ok :: "bytes option \<Rightarrow> bool" where
  "given_path_ok p \<longleftrightarrow> (\<forall>t. p = Some t \<longrightarrow> first_char t \<noteq> 0 \<and> first_char t \<noteq> 45)"

definition startup_ok :: "bytes option list \<Rightarrow> nat \<Rightarrow> NativeAppStartupOptions \<Rightarrow> bool" where
  "startup_ok args n opts \<longleftrightarrow> given_path_ok (so_pcConfigPath opts) \<and> given_path_ok (so_pcApplicationConfigPath opts)
     \<and> given_path_ok (so_pcGeneratePskPath opts) \<and> 1 \<le> so_iCommandIndex opts \<and> so_iCommandIndex opts \<le> int n
     \<and> (so_iCommandIndex opts < int n \<longrightarrow> (\<exists>a. args ! nat (so_iCommandIndex opts) = Some a \<and> first_char a \<noteq> 45))"

lemma startup_word_keeps:
  assumes "startup_ok args n opts"
  shows "startup_word a = Flag f \<Longrightarrow> startup_ok args n (f opts)"
    and "startup_word a = PathOption g \<Longrightarrow> first_char p \<noteq> 0 \<Longrightarrow> first_char p \<noteq> 45 \<Longrightarrow> startup_ok args n (g p opts)"
    and "startup_word a = Command \<Longrightarrow> first_char a \<noteq> 45"
  using assms by (auto simp: startup_word_def startup_ok_def given_path_ok_def split: if_splits)

lemma startup_loop_ok:
  assumes "n \<le> length args" and "0 < i" and "startup_ok args n opts"
  shows "\<exists>ok opts'. startup_loop args n i opts = Some (ok, opts') \<and> startup_ok args n opts'"
  using assms
proof (induction args n i opts rule: startup_loop.induct)
  case (1 args n i opts)
  show ?case
  proof (cases "i < n")
    case False
    then show ?thesis using 1 by (subst startup_loop.simps) auto
  next
    case True
    then have a: "arg args i = Some (args ! i)" using 1(3) by (simp add: arg_def)
    show ?thesis
    proof (cases "args ! i")
      case None
      then show ?thesis using True a 1(5) by (subst startup_loop.simps) auto
    next
      case (Some w)
      note keep = startup_word_keeps [OF 1(5), of w]
      have path: "path_value args n (i + 1) = Some None \<or>
          (\<exists>p. path_value args n (i + 1) = Some (Some p) \<and> first_char p \<noteq> 0 \<and> first_char p \<noteq> 45)"
        using 1(3) by (auto simp: path_value_def arg_def split: option.splits)
      show ?thesis
      proof (cases "startup_word w")
        case (PathOption g)
        with path True a Some 1(1) [OF _ a Some PathOption] 1(3-5) keep show ?thesis
          by (subst startup_loop.simps) auto
      next
        case (Flag f)
        with True a Some 1(2) [OF _ a Some Flag] 1(3-5) keep show ?thesis
          by (subst startup_loop.simps) auto
      next
        case BadOption
        with True a Some 1(5) show ?thesis by (subst startup_loop.simps) auto
      next
        case Command
        with True a Some 1(4,5) keep(3) show ?thesis
          by (subst startup_loop.simps) (auto simp: startup_ok_def)
      qed
    qed
  qed
qed

text \<open>
  The options of the program are read without leaving \<open>argv\<close>; a path that was given is neither empty nor looks like an option,
  and the index of the command is within the arguments and names a word that is not an option.
\<close>

theorem ParseNativeAppStartupOptions_ok:
  assumes "1 \<le> n" and "n \<le> length args" and "args ! 0 \<noteq> None"
  shows "\<exists>ok opts. ParseNativeAppStartupOptions (int n) (Some args) (Some o0) = Some (ok, Some opts) \<and> startup_ok args n opts"
proof -
  have "startup_ok args n (zero_startup\<lparr>so_iCommandIndex := int n\<rparr>)"
    using assms(1) by (simp add: startup_ok_def given_path_ok_def zero_startup_def)
  moreover have "arg args 0 = Some (args ! 0)" using assms(1,2) by (cases args) (simp_all add: arg_def)
  ultimately show ?thesis
    using startup_loop_ok [OF assms(2), of 1] assms(1,3) by (auto simp: ParseNativeAppStartupOptions_def)
qed

section \<open>The words of a line\<close>

text \<open>
  The reference: a word is what stands between white space, quotes of either kind group characters, and a backslash takes the
  next character as it is. A quote that is never closed has no words.
\<close>

fun word_of :: "u8 \<Rightarrow> bytes \<Rightarrow> (bytes \<times> bytes) option" where
  "word_of q [] = (if q = 0 then Some ([], []) else None)"
| "word_of q [c] =
     (if q \<noteq> 0 \<and> q = c then Some ([], [])
      else if q = 0 \<and> (c = 39 \<or> c = 34) then None
      else if q = 0 \<and> c_isspace c then Some ([], [c])
      else if q = 0 then Some ([c], []) else None)"
| "word_of q (c # d # cs) =
     (if q \<noteq> 0 \<and> q = c then word_of 0 (d # cs)
      else if q = 0 \<and> (c = 39 \<or> c = 34) then word_of c (d # cs)
      else if q = 0 \<and> c_isspace c then Some ([], c # d # cs)
      else if c = 92 then map_option (apfst (Cons d)) (word_of q cs)
      else map_option (apfst (Cons c)) (word_of q (d # cs)))"

lemma word_of_length: "word_of q s = Some (w, rest) \<Longrightarrow> length rest \<le> length s"
  by (induction q s arbitrary: w rest rule: word_of.induct) (fastforce split: if_splits)+

lemma word_of_shorter: "word_of 0 (c # cs) = Some (w, rest) \<Longrightarrow> \<not> c_isspace c \<Longrightarrow> length rest \<le> length cs"
  by (cases cs) (auto split: if_splits dest!: word_of_length)

function line_words :: "bytes \<Rightarrow> bytes list option" where
  "line_words s = (case dropWhile c_isspace s of [] \<Rightarrow> Some []
     | c # cs \<Rightarrow> (case word_of 0 (c # cs) of None \<Rightarrow> None | Some (w, rest) \<Rightarrow> map_option (Cons w) (line_words rest)))"
  by pat_completeness auto
termination
proof (relation "measure length", goal_cases)
  case (2 s c cs x w rest)
  then have "\<not> c_isspace c" by (metis hd_dropWhile list.distinct(1) list.sel(1))
  then have "length rest \<le> length cs" using word_of_shorter [of c cs w rest] 2(2,3) by auto
  then show ?case using 2(1) length_dropWhile_le [of c_isspace s] by simp
qed simp

declare line_words.simps [simp del]

section \<open>The buffer holds what is still to be read\<close>

definition ahead :: "bytes \<Rightarrow> nat \<Rightarrow> bytes \<Rightarrow> bool" where
  "ahead buf r s \<longleftrightarrow> (\<exists>z. r \<le> length buf \<and> drop r buf = s @ 0 # z) \<and> 0 \<notin> set s"

lemma drop_Cons_inside: "drop r buf = c # cs \<Longrightarrow> r < length buf"
  by (rule ccontr) simp

lemma ahead_nil: "ahead buf r [] \<Longrightarrow> rd buf r = Some 0"
  by (auto simp: ahead_def rd_def drop_Cons_inside nth_via_drop)

lemma ahead_cons:
  assumes "ahead buf r (c # cs)"
  shows "rd buf r = Some c \<and> c \<noteq> 0 \<and> ahead buf (r + 1) cs"
proof -
  obtain z where z: "drop r buf = c # cs @ 0 # z" "c \<noteq> 0" "0 \<notin> set cs" using assms by (auto simp: ahead_def)
  have "drop (r + 1) buf = cs @ 0 # z" using z(1) by (metis Suc_eq_plus1 drop_Suc list.sel(3) tl_drop)
  with z drop_Cons_inside [OF z(1)] nth_via_drop [OF z(1)] show ?thesis by (auto simp: ahead_def rd_def)
qed

lemma ahead_write:
  assumes "ahead buf r s" and "w < r"
  shows "\<exists>buf'. write_at buf w [c] = Some buf' \<and> ahead buf' r s \<and> length buf' = length buf \<and> take (w + 1) buf' = take w buf @ [c]"
proof -
  have r: "r \<le> length buf" using assms(1) by (auto simp: ahead_def)
  obtain k where "r = Suc (w + k)" using less_imp_Suc_add [OF assms(2)] by blast
  then have "drop r (take w buf @ [c] @ drop (w + 1) buf) = drop r buf"
    using r by (simp add: min_def add.commute)
  with r show ?thesis using assms by (auto simp: ahead_def write_at_def)
qed

lemma skip_space_exact:
  assumes "ahead buf r s"
  shows "\<exists>r'. skip_space buf r = Some r' \<and> ahead buf r' (dropWhile c_isspace s) \<and> r \<le> r'
    \<and> r' + length (dropWhile c_isspace s) = r + length s"
  using assms
proof (induction s arbitrary: r)
  case Nil
  then show ?case using ahead_nil [OF Nil] by (simp add: skip_space.simps [of buf r] c_isspace_def)
next
  case (Cons c cs)
  show ?case using ahead_cons [OF Cons.prems] Cons.IH [of "r + 1"] Cons.prems
    by (auto simp: skip_space.simps [of buf r])
qed

definition copied :: "bytes \<Rightarrow> nat \<Rightarrow> nat \<Rightarrow> bytes \<Rightarrow> (bytes \<times> bytes) option \<Rightarrow> (bytes \<times> nat \<times> nat \<times> u8) option \<Rightarrow> bool" where
  "copied buf r w s res out = (case res of
       None \<Rightarrow> (\<exists>buf' r' w' q'. out = Some (buf', r', w', q') \<and> q' \<noteq> 0)
     | Some (t, rest) \<Rightarrow> (\<exists>buf' r'. out = Some (buf', r', w + length t, 0) \<and> ahead buf' r' rest \<and> length buf' = length buf
         \<and> take (w + length t) buf' = take w buf @ t \<and> w + length t \<le> r' \<and> r' + length rest = r + length s))"

lemma copied_skip:
  assumes "copied buf (r + 1) w s res out"
  shows "copied buf r w (c # s) res out"
  using assms by (auto simp: copied_def split: option.splits)

lemma copied_char:
  assumes "copied buf' r' (w + 1) s res out" and "length buf' = length buf" and "take (w + 1) buf' = take w buf @ [c]"
    and "r' + length s = r + length s'"
  shows "copied buf r w s' (map_option (apfst (Cons c)) res) out"
  using assms by (auto simp: copied_def split: option.splits)

lemma copy_word_exact:
  assumes "ahead buf r s" and "w \<le> r"
  shows "copied buf r w s (word_of q s) (copy_word buf r w q)"
  using assms
proof (induction q s arbitrary: buf r w rule: word_of.induct)
  case (1 q)
  then show ?case using ahead_nil [OF 1(1)] by (auto simp: copied_def copy_word.simps [of buf])
next
  case (2 q c)
  have c: "rd buf r = Some c" "c \<noteq> 0" "ahead buf (r + 1) []" using ahead_cons [OF 2(1)] by auto
  have z: "rd buf (r + 1) = Some 0" by (rule ahead_nil [OF c(3)])
  obtain b1 where b1: "write_at buf w [c] = Some b1" "ahead b1 (r + 1) []" "length b1 = length buf" "take (w + 1) b1 = take w buf @ [c]"
    using ahead_write [OF c(3), of w c] 2(2) by auto
  have z1: "rd b1 (r + 1) = Some 0" by (rule ahead_nil [OF b1(2)])
  have stop: "copy_word b (r + 1) w' q' = Some (b, r + 1, w', q')" if "rd b (r + 1) = Some 0" for b w' q'
    using that by (simp add: copy_word.simps)
  show ?case
    using c z b1 stop [OF z] stop [OF z1] 2
    by (cases "c = 92") (simp_all add: copied_def copy_word.simps [of buf r])
next
  case (3 q c d cs)
  have c: "rd buf r = Some c" "c \<noteq> 0" "ahead buf (r + 1) (d # cs)" using ahead_cons [OF 3(5)] by auto
  have d: "rd buf (r + 1) = Some d" "d \<noteq> 0" "ahead buf (r + 2) cs" using ahead_cons [OF c(3)] by auto
  consider "q \<noteq> 0 \<and> q = c" | "\<not> (q \<noteq> 0 \<and> q = c)" "q = 0 \<and> (c = 39 \<or> c = 34)"
    | "\<not> (q \<noteq> 0 \<and> q = c)" "\<not> (q = 0 \<and> (c = 39 \<or> c = 34))" "q = 0 \<and> c_isspace c"
    | "\<not> (q \<noteq> 0 \<and> q = c)" "\<not> (q = 0 \<and> (c = 39 \<or> c = 34))" "\<not> (q = 0 \<and> c_isspace c)" "c = 92"
    | "\<not> (q \<noteq> 0 \<and> q = c)" "\<not> (q = 0 \<and> (c = 39 \<or> c = 34))" "\<not> (q = 0 \<and> c_isspace c)" "c \<noteq> 92"
    by blast
  then show ?case
  proof cases
    case 1
    with copied_skip [OF 3(1) [OF 1 c(3)], of w c] 3(6) c show ?thesis by (auto simp: copy_word.simps [of buf r])
  next
    case 2
    with copied_skip [OF 3(2) [OF 2 c(3)], of w c] 3(6) c show ?thesis by (auto simp: copy_word.simps [of buf r])
  next
    case 3
    with c \<open>ahead buf r (c # d # cs)\<close> \<open>w \<le> r\<close> show ?thesis by (simp add: copied_def copy_word.simps [of buf r])
  next
    case 4
    obtain b1 where b1: "write_at buf w [d] = Some b1" "ahead b1 (r + 2) cs" "length b1 = length buf" "take (w + 1) b1 = take w buf @ [d]"
      using ahead_write [OF d(3), of w d] 3(6) by auto
    have "copied b1 (r + 2) (w + 1) cs (word_of q cs) (copy_word b1 (r + 2) (w + 1) q)"
      using 3(3) [OF 4 b1(2)] 3(6) by simp
    from copied_char [OF this b1(3,4), of r "c # d # cs"] 4 b1 c d show ?thesis by (auto simp: copy_word.simps [of buf r])
  next
    case 5
    obtain b1 where b1: "write_at buf w [c] = Some b1" "ahead b1 (r + 1) (d # cs)" "length b1 = length buf" "take (w + 1) b1 = take w buf @ [c]"
      using ahead_write [OF c(3), of w c] 3(6) by auto
    have "copied b1 (r + 1) (w + 1) (d # cs) (word_of q (d # cs)) (copy_word b1 (r + 1) (w + 1) q)"
      using 3(4) [OF 5 b1(2)] 3(6) by simp
    from copied_char [OF this b1(3,4), of r "c # d # cs"] 5 b1 c d show ?thesis by (auto simp: copy_word.simps [of buf r])
  qed
qed

section \<open>The claims\<close>

text \<open>What the offsets name in the buffer.\<close>

definition word_at :: "bytes \<Rightarrow> nat \<Rightarrow> bytes" where
  "word_at buf off = cstr (drop off buf)"

definition words_before :: "bytes \<Rightarrow> nat \<Rightarrow> nat list \<Rightarrow> bytes list \<Rightarrow> bool" where
  "words_before buf w offs ws \<longleftrightarrow> length offs = length ws
     \<and> (\<forall>i < length ws. 0 \<notin> set (ws ! i) \<and> (\<exists>z. take w buf = take (offs ! i) buf @ ws ! i @ 0 # z \<and> offs ! i \<le> w))"

lemma words_before_keep:
  assumes "words_before buf w offs ws" and "take w buf' = take w buf" and "w \<le> w'" and "w \<le> length buf"
  shows "words_before buf' w' offs ws"
proof -
  have len: "take w' buf' = take w buf @ take (w' - w) (drop w buf')" using assms(2,3) by (metis take_add le_add_diff_inverse)
  have "take o' buf' = take o' buf" if "o' \<le> w" for o'
    using assms(2) that by (metis min.absorb1 take_take)
  then show ?thesis using assms(1,3) unfolding words_before_def len by fastforce
qed

lemma word_of_clean: "word_of q s = Some (w, rest) \<Longrightarrow> 0 \<notin> set s \<Longrightarrow> 0 \<notin> set w"
  by (induction q s arbitrary: w rest rule: word_of.induct) (fastforce split: if_splits)+

lemma word_of_rest: "word_of q s = Some (w, rest) \<Longrightarrow> rest = [] \<or> c_isspace (hd rest)"
  by (induction q s arbitrary: w rest rule: word_of.induct) (fastforce split: if_splits)+

lemma line_words_skip: "line_words (dropWhile c_isspace s) = line_words s"
  by (simp add: line_words.simps [of s] line_words.simps [of "dropWhile c_isspace s"] dropWhile_idem)

text \<open>The terminator of a word never overwrites what is still to be read.\<close>

lemma terminate_word:
  assumes "ahead buf r s" and "w \<le> r" and "w = r \<longrightarrow> s = []"
  shows "\<exists>buf'. write_at buf w [0] = Some buf' \<and> ahead buf' r s \<and> length buf' = length buf \<and> take (w + 1) buf' = take w buf @ [0]"
proof (cases "w = r")
  case True
  then have s: "s = []" "rd buf r = Some 0" "r < length buf" using assms ahead_nil [of buf r] by (auto simp: rd_def split: if_splits)
  then have "take r buf @ 0 # drop (Suc r) buf = buf" using id_take_nth_drop [of r buf] by (simp add: rd_def)
  then show ?thesis using True s assms(1) by (auto simp: write_at_def rd_def take_Suc_conv_app_nth split: if_splits)
next
  case False
  then show ?thesis using ahead_write [OF assms(1), of w 0] assms(2) by auto
qed

lemma words_before_snoc:
  assumes "words_before buf w offs ws" and "take (w + length t + 1) buf' = take w buf @ t @ [0]" and "0 \<notin> set t" and "w \<le> length buf"
  shows "words_before buf' (w + length t + 1) (offs @ [w]) (ws @ [t])"
proof -
  have keep: "take w buf' = take w buf"
    using arg_cong [OF assms(2), of "take w"] assms(4) by simp
  have "words_before buf' (w + length t + 1) offs ws"
    using words_before_keep [OF assms(1) keep] assms(4) by simp
  then show ?thesis
    using assms(2,3) keep by (auto simp: words_before_def nth_append less_Suc_eq)
qed

definition line_spec :: "nat \<Rightarrow> bytes list \<Rightarrow> bytes list option \<Rightarrow> nat \<Rightarrow> (bool \<times> bytes \<times> nat list) option \<Rightarrow> bool" where
  "line_spec n ws res cap out = (\<exists>ok buf' offs'. out = Some (ok, buf', offs') \<and> ok = (\<exists>vs. res = Some vs \<and> length ws + length vs \<le> cap)
     \<and> (\<forall>vs. res = Some vs \<and> length ws + length vs \<le> cap \<longrightarrow> length buf' = n \<and> (\<exists>w'. words_before buf' w' offs' (ws @ vs))))"

lemma line_spec_cons:
  assumes "line_spec n (ws @ [t]) res cap out"
  shows "line_spec n ws (map_option (Cons t) res) cap out"
  using assms unfolding line_spec_def by (cases res) auto

lemma line_loop_exact:
  assumes "ahead buf r s" and "s = [] \<or> w \<le> r" and "length s < fuel" and "words_before buf w offs ws" and "length ws \<le> cap"
  shows "line_spec (length buf) ws (line_words s) cap (line_loop fuel buf r w offs cap)"
  using assms
proof (induction fuel arbitrary: buf r s w offs ws)
  case (Suc fuel)
  obtain r1 where r1: "skip_space buf r = Some r1" "ahead buf r1 (dropWhile c_isspace s)" "r \<le> r1"
    "r1 + length (dropWhile c_isspace s) = r + length s"
    using skip_space_exact [OF Suc.prems(1)] by blast
  have offs: "length offs = length ws" using Suc.prems(4) by (simp add: words_before_def)
  show ?case
  proof (cases "dropWhile c_isspace s")
    case Nil
    then have "line_words s = Some []" by (subst line_words.simps) (simp only: Nil list.case)
    moreover have "line_loop (Suc fuel) buf r w offs cap = Some (True, buf, offs)" using r1 ahead_nil [of buf r1] Nil by simp
    ultimately show ?thesis using Suc.prems(4,5) by (auto simp: line_spec_def)
  next
    case (Cons c cs)
    have s: "ahead buf r1 (c # cs)" "\<not> c_isspace c" "length (c # cs) \<le> length s" "0 \<notin> set (c # cs)"
      using r1(2,3,4) Cons by (auto simp: ahead_def) (metis hd_dropWhile list.distinct(1) list.sel(1))
    have c: "rd buf r1 = Some c" "c \<noteq> 0" using ahead_cons [OF s(1)] by auto
    have wr: "w \<le> r" using Suc.prems(2) Cons by auto
    have copied: "copied buf r1 w (c # cs) (word_of 0 (c # cs)) (copy_word buf r1 w 0)"
      using copy_word_exact [OF s(1)] r1(3) wr by simp
    consider (full) "cap \<le> length offs" | (open_quote) "\<not> cap \<le> length offs" "word_of 0 (c # cs) = None"
      | (found) t rest where "\<not> cap \<le> length offs" "word_of 0 (c # cs) = Some (t, rest)" by fastforce
    then show ?thesis
    proof cases
      case full
      then have "line_loop (Suc fuel) buf r w offs cap = Some (False, buf, offs)" using r1 c by simp
      with full offs Suc.prems(5) Cons show ?thesis
        by (auto simp: line_spec_def line_words.simps [of s] split: option.splits prod.splits)
    next
      case open_quote
      with copied r1 c Cons show ?thesis by (auto simp: copied_def line_spec_def line_words.simps [of s])
    next
      case found
      then obtain b2 r2 where b2: "copy_word buf r1 w 0 = Some (b2, r2, w + length t, 0)" "ahead b2 r2 rest" "length b2 = length buf"
        "take (w + length t) b2 = take w buf @ t" "w + length t \<le> r2"
        using copied by (auto simp: copied_def)
      obtain r3 where r3: "skip_space b2 r2 = Some r3" "ahead b2 r3 (dropWhile c_isspace rest)" "r2 \<le> r3"
        "r3 + length (dropWhile c_isspace rest) = r2 + length rest"
        using skip_space_exact [OF b2(2)] by blast
      have last: "w + length t = r3 \<longrightarrow> dropWhile c_isspace rest = []"
        using word_of_rest [OF found(2)] b2(5) r3(3,4) length_dropWhile_le [of c_isspace "tl rest"] by (cases rest) auto
      obtain b3 where b3: "write_at b2 (w + length t) [0] = Some b3" "ahead b3 r3 (dropWhile c_isspace rest)" "length b3 = length b2"
        "take (w + length t + 1) b3 = take (w + length t) b2 @ [0]"
        using terminate_word [OF r3(2) _ last] b2(5) r3(3) by auto
      have small: "length (dropWhile c_isspace rest) < fuel"
        using word_of_shorter [OF found(2) s(2)] length_dropWhile_le [of c_isspace rest] s(3) Suc.prems(3) by simp
      have w: "w \<le> length buf" using s(1) r1(3) wr by (auto simp: ahead_def)
      have later: "dropWhile c_isspace rest = [] \<or> w + length t + 1 \<le> r3" using last b2(5) r3(3) by linarith
      have rec: "line_loop (Suc fuel) buf r w offs cap = line_loop fuel b3 r3 (w + length t + 1) (offs @ [w]) cap"
        using r1 c b2(1) r3(1) b3(1) found(1) by simp
      have "words_before b3 (w + length t + 1) (offs @ [w]) (ws @ [t])"
        using words_before_snoc [OF Suc.prems(4) _ word_of_clean [OF found(2) s(4)] w] b2(4) b3(4) by simp
      from Suc.IH [OF b3(2) later small this] found(1) offs
      have "line_spec (length buf) (ws @ [t]) (line_words rest) cap (line_loop (Suc fuel) buf r w offs cap)"
        unfolding rec by (simp add: line_words_skip b3(3) b2(3))
      then show ?thesis
        using line_spec_cons found(2) Cons by (simp add: line_words.simps [of s])
    qed
  qed
qed simp

lemma words_before_at:
  assumes "words_before buf w offs ws"
  shows "map (word_at buf) offs = ws"
proof (rule nth_equalityI)
  show "length (map (word_at buf) offs) = length ws" using assms by (simp add: words_before_def)
next
  fix i assume "i < length (map (word_at buf) offs)"
  then have i: "i < length ws" "i < length offs" using assms by (auto simp: words_before_def)
  then obtain z where z: "0 \<notin> set (ws ! i)" "take w buf = take (offs ! i) buf @ ws ! i @ 0 # z" "offs ! i \<le> w"
    using assms by (auto simp: words_before_def)
  have "buf = take (offs ! i) buf @ ws ! i @ 0 # z @ drop w buf"
    using z(2) by (metis append.assoc append_Cons append_take_drop_id)
  then have "drop (offs ! i) buf = ws ! i @ 0 # z @ drop w buf"
    by (metis append_same_eq append_take_drop_id same_append_eq)
  then show "map (word_at buf) offs ! i = ws ! i" using z(1) i by (simp add: word_at_def cstr_terminated)
qed

lemma line_parsed:
  assumes "0 \<in> set line" and "0 < cap"
  shows "\<exists>ok buf offs n. ParseNativeAppCommandLine (Some line) True cap True = Some (ok, Some buf, offs, n)
    \<and> (case line_words (cstr line) of
         None \<Rightarrow> \<not> ok \<and> n = 0
       | Some ws \<Rightarrow> if length ws \<le> cap then ok \<and> length buf = length line \<and> n = length ws \<and> map (word_at buf) offs = ws else \<not> ok \<and> n = 0)"
proof -
  obtain t z where "line = t @ 0 # z" "0 \<notin> set t" using split_list_first [OF assms(1)] by blast
  then have a: "ahead line 0 (cstr line)" by (simp add: ahead_def cstr_terminated)
  have "length (cstr line) < length line + 1" by (simp add: cstr_def length_takeWhile_le le_imp_less_Suc)
  moreover have "words_before line 0 [] []" by (simp add: words_before_def)
  ultimately have "line_spec (length line) [] (line_words (cstr line)) cap (line_loop (length line + 1) line 0 0 [] cap)"
    by (intro line_loop_exact [OF a]) (simp_all del: line_loop.simps)
  then obtain ok buf offs where out: "line_loop (length line + 1) line 0 0 [] cap = Some (ok, buf, offs)"
    "ok = (\<exists>ws. line_words (cstr line) = Some ws \<and> length ws \<le> cap)"
    "\<forall>ws. line_words (cstr line) = Some ws \<and> length ws \<le> cap \<longrightarrow> length buf = length line \<and> map (word_at buf) offs = ws"
    unfolding line_spec_def using words_before_at by fastforce
  have "ParseNativeAppCommandLine (Some line) True cap True = Some (ok, Some buf, offs, if ok then length offs else 0)"
    using assms(2) out(1) by (simp only: ParseNativeAppCommandLine_def) simp
  moreover have "length offs = length ws" if "map (word_at buf) offs = ws" for ws using that by auto
  ultimately show ?thesis using out(2,3) by (cases "line_words (cstr line)") auto
qed

text \<open>
  C34. Splitting a line never leaves its buffer, although the words are written over the text while it is read. It succeeds
  exactly when every quote is closed and the words fit the array; then the offsets name exactly the words of the line, in
  order, each a terminated string in the buffer, and the count is their number. Otherwise the count is zero.
\<close>

theorem ParseNativeAppCommandLine_exact:
  assumes "0 \<in> set line" and "0 < cap"
  shows "\<exists>ok buf offs n. ParseNativeAppCommandLine (Some line) True cap True = Some (ok, Some buf, offs, n)
    \<and> (case line_words (cstr line) of
         None \<Rightarrow> \<not> ok \<and> n = 0
       | Some ws \<Rightarrow> if length ws \<le> cap then ok \<and> length buf = length line \<and> n = length ws \<and> map (word_at buf) offs = ws else \<not> ok \<and> n = 0)"
  by (rule line_parsed [OF assms])

text \<open>A line with a quoted and an escaped space: \<open>load 'a b' c\ d\<close>.\<close>

definition quoted_line :: bytes where
  "quoted_line = lit ''load '' @ [39] @ lit ''a b'' @ [39, 32] @ lit ''c'' @ [92, 32] @ lit ''d'' @ [0]"

lemma quoted_line_words: "line_words (cstr quoted_line) = Some [lit ''load'', lit ''a b'', lit ''c d'']"
  by (simp add: quoted_line_def lit_def cstr_def line_words.simps c_isspace_def)

theorem ParseNativeAppCommandLine_exact_witness:
  "\<exists>buf offs. ParseNativeAppCommandLine (Some quoted_line) True 8 True = Some (True, Some buf, offs, 3)
     \<and> map (word_at buf) offs = [lit ''load'', lit ''a b'', lit ''c d'']"
  using ParseNativeAppCommandLine_exact [of quoted_line 8] unfolding quoted_line_words by (auto simp: quoted_line_def)

text \<open>Quoting: every character of a word escaped, a word without characters a pair of quotes, words separated by a space.\<close>

definition escape_word :: "bytes \<Rightarrow> bytes" where
  "escape_word w = (if w = [] then [39, 39] else concat (map (\<lambda>c. [92, c]) w))"

definition escape_line :: "bytes list \<Rightarrow> bytes" where
  "escape_line ws = concat (map (\<lambda>w. escape_word w @ [32]) ws)"

lemma word_of_escaped: "word_of 0 (concat (map (\<lambda>c. [92, c]) w) @ 32 # r) = Some (w, 32 # r)"
  by (induction w) (cases r, auto simp: c_isspace_def)

lemma line_words_escaped: "line_words (escape_line ws) = Some ws"
proof (induction ws)
  case Nil
  then show ?case by (subst line_words.simps) (simp add: escape_line_def)
next
  case (Cons w ws)
  have skip: "line_words (32 # escape_line ws) = line_words (escape_line ws)"
    using line_words_skip [of "32 # escape_line ws"] line_words_skip [of "escape_line ws"] by (simp add: c_isspace_def)
  obtain c cs where cs: "escape_word w @ 32 # escape_line ws = c # cs" "\<not> c_isspace c" by (cases w) (auto simp: escape_word_def c_isspace_def)
  have "word_of 0 (c # cs) = Some (w, 32 # escape_line ws)"
    unfolding cs(1) [symmetric] using word_of_escaped [of w "escape_line ws"]
    by (cases "w = []"; cases "escape_line ws") (simp_all add: escape_word_def c_isspace_def)
  with skip cs Cons show ?case by (subst line_words.simps) (simp add: escape_line_def)
qed

lemma escape_line_clean: "\<forall>w \<in> set ws. 0 \<notin> set w \<Longrightarrow> 0 \<notin> set (escape_line ws)"
  by (auto simp: escape_line_def escape_word_def split: if_splits)

text \<open>
  C35. Every list of words can be typed: of words without zero bytes, whatever spaces, quotes and backslashes they contain and
  even empty ones, the line with every character escaped is split back into exactly these words.
\<close>

theorem command_line_roundtrip:
  assumes "\<forall>w \<in> set ws. 0 \<notin> set w" and "length ws \<le> cap" and "0 < cap"
  shows "\<exists>buf offs. ParseNativeAppCommandLine (Some (escape_line ws @ [0])) True cap True = Some (True, Some buf, offs, length ws)
    \<and> map (word_at buf) offs = ws"
  using line_parsed [of "escape_line ws @ [0]" cap] assms escape_line_clean [OF assms(1)]
  by (auto simp: cstr_terminated line_words_escaped)

theorem command_line_roundtrip_witness:
  "\<exists>buf offs. ParseNativeAppCommandLine (Some (escape_line [lit ''a b'', [], [39, 92]] @ [0])) True 3 True = Some (True, Some buf, offs, 3)
     \<and> map (word_at buf) offs = [lit ''a b'', [], [39, 92]]"
  using command_line_roundtrip [of "[lit ''a b'', [], [39, 92]]" 3] by (simp add: lit_def numeral_3_eq_3)

end
