(* ===== verification/Plain_Rules.thy ===== *)
theory Plain_Rules
  imports Tc_Request Ipsec_Config Core_Util
begin

text \<open>
  The nftables rules of the plain path (\<open>src/datapath/plain/plain_nftables.c\<close>): the traffic selectors of a connection, the
  messages that create the table, the chain and the rule of a peer, and what a rule selects. Messages are bytes in a buffer of
  4096, as in the code; the numbers are those of \<open>linux/netfilter/nf_tables.h\<close>.
\<close>

section \<open>State\<close>

definition IPSEC_PLAIN_APPLICATION_PEER_CAPACITY :: nat where "IPSEC_PLAIN_APPLICATION_PEER_CAPACITY = 256"
definition IPSEC_PLAIN_NFT_NAME_LENGTH :: nat where "IPSEC_PLAIN_NFT_NAME_LENGTH = 32"
definition IPSEC_PLAIN_NFT_MESSAGE_CAPACITY :: nat where "IPSEC_PLAIN_NFT_MESSAGE_CAPACITY = 4096"

record IpsecPlainApplicationPeer =
  pn_acConnectionName :: bytes
  pn_uiLocalNetwork :: u32
  pn_uiRemoteNetwork :: u32
  pn_uiLocalMask :: u32
  pn_uiRemoteMask :: u32
  pn_bInUse :: bool

text \<open>The fields of \<open>IpsecPlainApplicationState_t\<close> the rules work on; those of the queue are left out.\<close>

record IpsecPlainApplicationState =
  pa_uiRuleSequence :: u32
  pa_uiExpectedInterfaceIndex :: u32
  pa_usQueueNumber :: u16
  pa_bRuleTableOwned :: bool
  pa_bPeerMutexInitialized :: bool
  pa_aPeers :: "IpsecPlainApplicationPeer list"
  pa_uiPeerCount :: u32
  pa_acRuleTableName :: bytes
  pa_acRuleChainName :: bytes

section \<open>Messages\<close>

definition NFNL_SUBSYS_NFTABLES :: nat where "NFNL_SUBSYS_NFTABLES = 10"
definition NFT_MSG_NEWTABLE :: nat where "NFT_MSG_NEWTABLE = 0"
definition NFT_MSG_DELTABLE :: nat where "NFT_MSG_DELTABLE = 2"
definition NFT_MSG_NEWCHAIN :: nat where "NFT_MSG_NEWCHAIN = 3"
definition NFT_MSG_NEWRULE :: nat where "NFT_MSG_NEWRULE = 6"
definition NLM_F_APPEND :: nat where "NLM_F_APPEND = 0x800"
definition NFT_NESTED :: nat where "NFT_NESTED = 32768"

text \<open>Attributes and values.\<close>

definition NFTA_TABLE_NAME :: nat where "NFTA_TABLE_NAME = 1"
definition NFTA_CHAIN_TABLE :: nat where "NFTA_CHAIN_TABLE = 1"
definition NFTA_CHAIN_NAME :: nat where "NFTA_CHAIN_NAME = 3"
definition NFTA_CHAIN_HOOK :: nat where "NFTA_CHAIN_HOOK = 4"
definition NFTA_CHAIN_TYPE :: nat where "NFTA_CHAIN_TYPE = 7"
definition NFTA_HOOK_HOOKNUM :: nat where "NFTA_HOOK_HOOKNUM = 1"
definition NFTA_HOOK_PRIORITY :: nat where "NFTA_HOOK_PRIORITY = 2"
definition NFTA_RULE_TABLE :: nat where "NFTA_RULE_TABLE = 1"
definition NFTA_RULE_CHAIN :: nat where "NFTA_RULE_CHAIN = 2"
definition NFTA_RULE_EXPRESSIONS :: nat where "NFTA_RULE_EXPRESSIONS = 4"
definition NFTA_LIST_ELEM :: nat where "NFTA_LIST_ELEM = 1"
definition NFTA_EXPR_NAME :: nat where "NFTA_EXPR_NAME = 1"
definition NFTA_EXPR_DATA :: nat where "NFTA_EXPR_DATA = 2"
definition NFTA_DATA_VALUE :: nat where "NFTA_DATA_VALUE = 1"
definition NFTA_META_DREG :: nat where "NFTA_META_DREG = 1"
definition NFTA_META_KEY :: nat where "NFTA_META_KEY = 2"
definition NFTA_CMP_SREG :: nat where "NFTA_CMP_SREG = 1"
definition NFTA_CMP_OP :: nat where "NFTA_CMP_OP = 2"
definition NFTA_CMP_DATA :: nat where "NFTA_CMP_DATA = 3"
definition NFTA_BITWISE_SREG :: nat where "NFTA_BITWISE_SREG = 1"
definition NFTA_BITWISE_DREG :: nat where "NFTA_BITWISE_DREG = 2"
definition NFTA_BITWISE_LEN :: nat where "NFTA_BITWISE_LEN = 3"
definition NFTA_BITWISE_MASK :: nat where "NFTA_BITWISE_MASK = 4"
definition NFTA_BITWISE_XOR :: nat where "NFTA_BITWISE_XOR = 5"
definition NFTA_PAYLOAD_DREG :: nat where "NFTA_PAYLOAD_DREG = 1"
definition NFTA_PAYLOAD_BASE :: nat where "NFTA_PAYLOAD_BASE = 2"
definition NFTA_PAYLOAD_OFFSET :: nat where "NFTA_PAYLOAD_OFFSET = 3"
definition NFTA_PAYLOAD_LEN :: nat where "NFTA_PAYLOAD_LEN = 4"
definition NFTA_QUEUE_NUM :: nat where "NFTA_QUEUE_NUM = 1"
definition NFT_META_IIF :: u32 where "NFT_META_IIF = 4"
definition NFT_REG_1 :: u32 where "NFT_REG_1 = 1"
definition NFT_CMP_EQ :: u32 where "NFT_CMP_EQ = 0"
definition NFT_PAYLOAD_NETWORK_HEADER :: u32 where "NFT_PAYLOAD_NETWORK_HEADER = 1"
definition NF_INET_LOCAL_IN :: u32 where "NF_INET_LOCAL_IN = 1"
definition NF_INET_FORWARD :: u32 where "NF_INET_FORWARD = 2"

type_synonym nft = "bytes \<Rightarrow> (IpsecError \<times> bytes) option"

definition then_ok :: "nft \<Rightarrow> nft \<Rightarrow> nft" where
  "then_ok f g d = f d \<bind> (\<lambda>(e, d). if e = IPSEC_OK then g d else Some (e, d))"

definition InitializePlainNftMessage :: "nat \<Rightarrow> nat \<Rightarrow> u32 \<Rightarrow> bytes" where
  "InitializePlainNftMessage usOperation usFlags uiSequence =
     le32 20 @ le16 (NFNL_SUBSYS_NFTABLES * 256 + usOperation) @ le16 usFlags @ le32 uiSequence @ le32 0 @ [2, 0, 0, 0]
     @ replicate (IPSEC_PLAIN_NFT_MESSAGE_CAPACITY - 20) 0"

definition AppendPlainNftAttribute :: "bytes \<Rightarrow> nat \<Rightarrow> nat \<Rightarrow> bytes \<Rightarrow> (IpsecError \<times> nat \<times> bytes) option" where
  "AppendPlainNftAttribute d zCapacity usType pvData = do {
     nlmsg_len \<leftarrow> get32 d 0;
     let zLength = length pvData;
     let zOffset = NLMSG_ALIGN (unat nlmsg_len);
     let zAttributeLength = 4 + zLength;
     if zLength > UINT16_MAX - 4 \<or> zOffset > zCapacity then Some (IPSEC_ERR_BUFFER_TOO_SMALL, 0, d)
     else if RTA_ALIGN zAttributeLength > zCapacity - zOffset then Some (IPSEC_ERR_BUFFER_TOO_SMALL, 0, d)
     else do {
       d \<leftarrow> write_at d zOffset (le16 zAttributeLength @ le16 usType);
       d \<leftarrow> (if 0 < zLength then write_at d (zOffset + 4) pvData else Some d);
       d \<leftarrow> (if RTA_ALIGN zAttributeLength > zAttributeLength
             then write_at d (zOffset + zAttributeLength) (replicate (RTA_ALIGN zAttributeLength - zAttributeLength) 0) else Some d);
       d \<leftarrow> write_at d 0 (le32 (of_nat (zOffset + RTA_ALIGN zAttributeLength)));
       Some (IPSEC_OK, zOffset, d) } }"

definition FinishPlainNftNest :: "bytes \<Rightarrow> nat \<Rightarrow> bytes option" where
  "FinishPlainNftNest d zOffset = do {
     nlmsg_len \<leftarrow> get32 d 0;
     write_at d zOffset (le16 (unat nlmsg_len + 2 ^ 64 - zOffset)) }"

definition nft_attribute :: "nat \<Rightarrow> nat \<Rightarrow> bytes \<Rightarrow> nft" where
  "nft_attribute zCapacity usType pvData d = append_ok (AppendPlainNftAttribute d zCapacity usType pvData) (\<lambda>_ d. Some (IPSEC_OK, d))"

text \<open>A nest: the attribute without a value, what it holds, and its length.\<close>

definition nft_nest :: "nat \<Rightarrow> nat \<Rightarrow> nft \<Rightarrow> nft" where
  "nft_nest zCapacity usType f d = append_ok (AppendPlainNftAttribute d zCapacity (NFT_NESTED + usType) []) (\<lambda>zOffset d.
     f d \<bind> (\<lambda>(e, d). if e = IPSEC_OK then map_option (Pair IPSEC_OK) (FinishPlainNftNest d zOffset) else Some (e, d)))"

definition AppendPlainNftUint32 :: "nat \<Rightarrow> nat \<Rightarrow> u32 \<Rightarrow> nft" where
  "AppendPlainNftUint32 zCapacity usType uiValue = nft_attribute zCapacity usType (be32 uiValue)"

definition BeginPlainNftExpression :: "bytes \<Rightarrow> nat \<Rightarrow> string \<Rightarrow> (IpsecError \<times> nat \<times> nat \<times> bytes) option" where
  "BeginPlainNftExpression d zCapacity pcName =
     AppendPlainNftAttribute d zCapacity (NFT_NESTED + NFTA_LIST_ELEM) [] \<bind> (\<lambda>(e, zElement, d).
       if e \<noteq> IPSEC_OK then Some (e, 0, 0, d)
       else AppendPlainNftAttribute d zCapacity NFTA_EXPR_NAME (lit pcName @ [0]) \<bind> (\<lambda>(e, _, d).
         if e \<noteq> IPSEC_OK then Some (e, zElement, 0, d)
         else map_option (\<lambda>(e, zData, d). (e, zElement, zData, d)) (AppendPlainNftAttribute d zCapacity (NFT_NESTED + NFTA_EXPR_DATA) [])))"

definition FinishPlainNftExpression :: "bytes \<Rightarrow> nat \<Rightarrow> nat \<Rightarrow> bytes option" where
  "FinishPlainNftExpression d zElement zData = FinishPlainNftNest d zData \<bind> (\<lambda>d. FinishPlainNftNest d zElement)"

text \<open>What the functions below have in common: an expression is begun, its fields are appended, and it is finished.\<close>

definition nft_expression :: "nat \<Rightarrow> string \<Rightarrow> nft \<Rightarrow> nft" where
  "nft_expression zCapacity pcName body d = BeginPlainNftExpression d zCapacity pcName \<bind> (\<lambda>(e, zElement, zData, d).
     if e \<noteq> IPSEC_OK then Some (e, d)
     else body d \<bind> (\<lambda>(e, d).
       if e \<noteq> IPSEC_OK then Some (e, d) else map_option (Pair IPSEC_OK) (FinishPlainNftExpression d zElement zData)))"

definition AppendPlainNftData :: "nat \<Rightarrow> nat \<Rightarrow> bytes \<Rightarrow> nft" where
  "AppendPlainNftData zCapacity usType pvData = nft_nest zCapacity usType (nft_attribute zCapacity NFTA_DATA_VALUE pvData)"

definition nft_cmp :: "nat \<Rightarrow> u32 \<Rightarrow> nft" where
  "nft_cmp zCapacity uiValue = nft_expression zCapacity ''cmp''
     (then_ok (AppendPlainNftUint32 zCapacity NFTA_CMP_SREG NFT_REG_1)
       (then_ok (AppendPlainNftUint32 zCapacity NFTA_CMP_OP NFT_CMP_EQ) (AppendPlainNftData zCapacity NFTA_CMP_DATA (le32 uiValue))))"

definition AppendPlainNftMetaInterface :: "nat \<Rightarrow> u32 \<Rightarrow> nft" where
  "AppendPlainNftMetaInterface zCapacity uiInterfaceIndex =
     then_ok (nft_expression zCapacity ''meta'' 
        (then_ok (AppendPlainNftUint32 zCapacity NFTA_META_KEY NFT_META_IIF) (AppendPlainNftUint32 zCapacity NFTA_META_DREG NFT_REG_1)))
       (nft_cmp zCapacity uiInterfaceIndex)"

definition AppendPlainNftBitwise :: "nat \<Rightarrow> u32 \<Rightarrow> nft" where
  "AppendPlainNftBitwise zCapacity uiMask = nft_expression zCapacity ''bitwise''
     (then_ok (AppendPlainNftUint32 zCapacity NFTA_BITWISE_SREG NFT_REG_1)
       (then_ok (AppendPlainNftUint32 zCapacity NFTA_BITWISE_DREG NFT_REG_1) (then_ok (AppendPlainNftUint32 zCapacity NFTA_BITWISE_LEN 4)
         (then_ok (AppendPlainNftData zCapacity NFTA_BITWISE_MASK (le32 uiMask)) (AppendPlainNftData zCapacity NFTA_BITWISE_XOR (le32 0))))))"

definition AppendPlainNftAddress :: "nat \<Rightarrow> u32 \<Rightarrow> u32 \<Rightarrow> u32 \<Rightarrow> nft" where
  "AppendPlainNftAddress zCapacity uiOffset uiNetwork uiMask =
     then_ok (nft_expression zCapacity ''payload''
        (then_ok (AppendPlainNftUint32 zCapacity NFTA_PAYLOAD_BASE NFT_PAYLOAD_NETWORK_HEADER) (then_ok (AppendPlainNftUint32 zCapacity NFTA_PAYLOAD_OFFSET uiOffset)
          (then_ok (AppendPlainNftUint32 zCapacity NFTA_PAYLOAD_LEN 4) (AppendPlainNftUint32 zCapacity NFTA_PAYLOAD_DREG NFT_REG_1)))))
       (then_ok (if ntohl uiMask \<noteq> 0xffffffff then AppendPlainNftBitwise zCapacity uiMask else (\<lambda>d. Some (IPSEC_OK, d)))
         (nft_cmp zCapacity uiNetwork))"

definition AppendPlainNftQueue :: "nat \<Rightarrow> u16 \<Rightarrow> nft" where
  "AppendPlainNftQueue zCapacity usQueueNumber = nft_expression zCapacity ''queue'' (nft_attribute zCapacity NFTA_QUEUE_NUM (be16 (unat usQueueNumber)))"

text \<open>
  The message of the rule and its length; the caller's buffer takes it when it is large enough. The pointers of the one caller
  are addresses of objects, so the checks against NULL have no counterpart.
\<close>

definition BuildIpsecPlainRuleRequest ::
  "IpsecPlainApplicationState \<Rightarrow> IpsecPlainApplicationPeer \<Rightarrow> bytes \<Rightarrow> nat \<Rightarrow> (IpsecError \<times> bytes \<times> nat) option" where
  "BuildIpsecPlainRuleRequest pState pPeer pucBuffer zCapacity =
     (if zCapacity < 16 then Some (IPSEC_ERR_INVALID_ARGUMENT, pucBuffer, 0)
      else let cap = IPSEC_PLAIN_NFT_MESSAGE_CAPACITY in
        then_ok (nft_attribute cap NFTA_RULE_TABLE (cstr (pa_acRuleTableName pState) @ [0]))
          (then_ok (nft_attribute cap NFTA_RULE_CHAIN (cstr (pa_acRuleChainName pState) @ [0]))
            (nft_nest cap NFTA_RULE_EXPRESSIONS
              (then_ok (AppendPlainNftMetaInterface cap (pa_uiExpectedInterfaceIndex pState))
                (then_ok (AppendPlainNftAddress cap 12 (pn_uiRemoteNetwork pPeer) (pn_uiRemoteMask pPeer))
                  (then_ok (AppendPlainNftAddress cap 16 (pn_uiLocalNetwork pPeer) (pn_uiLocalMask pPeer))
                    (AppendPlainNftQueue cap (pa_usQueueNumber pState)))))))
          (InitializePlainNftMessage NFT_MSG_NEWRULE (NLM_F_REQUEST OR NLM_F_ACK OR NLM_F_CREATE OR NLM_F_APPEND) 0) \<bind> (\<lambda>(eError, d).
        if eError \<noteq> IPSEC_OK then Some (eError, pucBuffer, 0)
        else get32 d 0 \<bind> (\<lambda>nlmsg_len.
          if unat nlmsg_len > zCapacity then Some (IPSEC_ERR_BUFFER_TOO_SMALL, pucBuffer, 0)
          else rd_bytes d 0 (unat nlmsg_len) \<bind> (\<lambda>m. write_at pucBuffer 0 m \<bind> (\<lambda>b. Some (IPSEC_OK, b, unat nlmsg_len))))))"

definition BuildPlainNftTableRequest :: "IpsecPlainApplicationState \<Rightarrow> bool \<Rightarrow> (IpsecError \<times> bytes) option" where
  "BuildPlainNftTableRequest pState bRemove =
     nft_attribute IPSEC_PLAIN_NFT_MESSAGE_CAPACITY NFTA_TABLE_NAME (cstr (pa_acRuleTableName pState) @ [0])
       (InitializePlainNftMessage (if bRemove then NFT_MSG_DELTABLE else NFT_MSG_NEWTABLE)
          (if bRemove then NLM_F_REQUEST OR NLM_F_ACK else NLM_F_REQUEST OR NLM_F_ACK OR NLM_F_CREATE OR NLM_F_EXCL) 0)"

definition BuildPlainNftChainRequest :: "bool \<Rightarrow> IpsecPlainApplicationState \<Rightarrow> (IpsecError \<times> bytes) option" where
  "BuildPlainNftChainRequest bForward pState =
     (let cap = IPSEC_PLAIN_NFT_MESSAGE_CAPACITY; uiHook = (if bForward then NF_INET_FORWARD else NF_INET_LOCAL_IN) in
      then_ok (nft_attribute cap NFTA_CHAIN_TABLE (cstr (pa_acRuleTableName pState) @ [0]))
        (then_ok (nft_attribute cap NFTA_CHAIN_NAME (cstr (pa_acRuleChainName pState) @ [0]))
          (then_ok (nft_attribute cap NFTA_CHAIN_TYPE (lit ''filter'' @ [0]))
            (nft_nest cap NFTA_CHAIN_HOOK
              (then_ok (AppendPlainNftUint32 cap NFTA_HOOK_HOOKNUM uiHook) (AppendPlainNftUint32 cap NFTA_HOOK_PRIORITY 0)))))
        (InitializePlainNftMessage NFT_MSG_NEWCHAIN (NLM_F_REQUEST OR NLM_F_ACK OR NLM_F_CREATE OR NLM_F_EXCL) 0))"

section \<open>Traffic selectors\<close>

text \<open>\<open>strchr\<close>: what stands before the character and, if it occurs, what stands behind it.\<close>

definition split_at :: "u8 \<Rightarrow> bytes \<Rightarrow> bytes \<times> bytes option" where
  "split_at c s = (case dropWhile (\<lambda>x. x \<noteq> c) s of [] \<Rightarrow> (s, None) | _ # r \<Rightarrow> (takeWhile (\<lambda>x. x \<noteq> c) s, Some r))"

definition selector_prefix :: "bytes option \<Rightarrow> nat option" where
  "selector_prefix rest = (case rest of None \<Rightarrow> Some 32
     | Some r \<Rightarrow> (case strtoull r 10 of (v, used, erange) \<Rightarrow>
         if erange \<or> used = 0 \<or> used < length r \<or> 32 < v then None else Some v))"

definition ParsePlainNftSelector :: "bytes \<Rightarrow> IpsecError \<times> (u32 \<times> u32)" where
  "ParsePlainNftSelector pcSelector = (case split_at 47 (cstr pcSelector) of (acAddress, rest) \<Rightarrow>
     if length acAddress = 0 \<or> length acAddress \<ge> 16 then (IPSEC_ERR_INVALID_ARGUMENT, 0, 0)
     else (case selector_prefix rest of None \<Rightarrow> (IPSEC_ERR_INVALID_ARGUMENT, 0, 0)
       | Some ullPrefix \<Rightarrow> (case inet_pton acAddress of None \<Rightarrow> (IPSEC_ERR_ADDRESS_FAMILY, 0, 0)
         | Some Address \<Rightarrow>
             let uiHostMask = (if ullPrefix = 0 then 0 else push_bit (32 - ullPrefix) 0xffffffff);
                 uiMask = ntohl uiHostMask
             in (IPSEC_OK, Address AND uiMask, uiMask))))"

definition zero_plain_peer :: IpsecPlainApplicationPeer where
  "zero_plain_peer = \<lparr>pn_acConnectionName = replicate IPSEC_NAME_LENGTH 0, pn_uiLocalNetwork = 0, pn_uiRemoteNetwork = 0,
     pn_uiLocalMask = 0, pn_uiRemoteMask = 0, pn_bInUse = False\<rparr>"

text \<open>The peer of a name and two selectors.\<close>

definition fill_plain_peer :: "bytes \<Rightarrow> bytes \<Rightarrow> bytes \<Rightarrow> (IpsecError \<times> IpsecPlainApplicationPeer) option" where
  "fill_plain_peer pcName pcLocal pcRemote =
     (if length (cstr pcName) \<ge> IPSEC_NAME_LENGTH then Some (IPSEC_ERR_BUFFER_TOO_SMALL, zero_plain_peer)
      else write_at (pn_acConnectionName zero_plain_peer) 0 (cstr pcName @ [0]) \<bind> (\<lambda>nm.
        let p = zero_plain_peer\<lparr>pn_acConnectionName := nm\<rparr>
        in case ParsePlainNftSelector pcLocal of (eError, net, msk) \<Rightarrow>
          if eError \<noteq> IPSEC_OK then Some (eError, p)
          else let p = p\<lparr>pn_uiLocalNetwork := net, pn_uiLocalMask := msk\<rparr>
            in (case ParsePlainNftSelector pcRemote of (eError, net, msk) \<Rightarrow>
              if eError \<noteq> IPSEC_OK then Some (eError, p)
              else Some (IPSEC_OK, p\<lparr>pn_uiRemoteNetwork := net, pn_uiRemoteMask := msk\<rparr>))))"

definition ParsePlainNftPeer :: "IpsecConnectionConfig option \<Rightarrow> (IpsecError \<times> IpsecPlainApplicationPeer) option" where
  "ParsePlainNftPeer pConfig = (case pConfig of None \<Rightarrow> Some (IPSEC_ERR_NOT_SUPPORTED, zero_plain_peer)
     | Some c \<Rightarrow> (case cc_pcName c of None \<Rightarrow> Some (IPSEC_ERR_NOT_SUPPORTED, zero_plain_peer)
       | Some pcName \<Rightarrow>
           if sl_uiCount (cc_LocalTrafficSelectors c) \<noteq> 1 \<or> sl_uiCount (cc_RemoteTrafficSelectors c) \<noteq> 1
              \<or> sl_ppcItems (cc_LocalTrafficSelectors c) = None \<or> sl_ppcItems (cc_RemoteTrafficSelectors c) = None
           then Some (IPSEC_ERR_NOT_SUPPORTED, zero_plain_peer)
           else list_item (cc_LocalTrafficSelectors c) 0 \<bind> (\<lambda>l. case l of None \<Rightarrow> Some (IPSEC_ERR_NOT_SUPPORTED, zero_plain_peer)
             | Some l \<Rightarrow> list_item (cc_RemoteTrafficSelectors c) 0 \<bind> (\<lambda>r. case r of None \<Rightarrow> Some (IPSEC_ERR_NOT_SUPPORTED, zero_plain_peer)
               | Some r \<Rightarrow> fill_plain_peer pcName l r))))"

section \<open>A message under construction\<close>

definition nft_is :: "bytes \<Rightarrow> bytes \<Rightarrow> bytes \<Rightarrow> bool" where
  "nft_is d h body \<longleftrightarrow> length h = 16 \<and> length body \<le> 4076 \<and> 4 dvd length body
     \<and> d = le32 (of_nat (20 + length body)) @ h @ body @ replicate (4076 - length body) 0"

lemma nft_length:
  assumes "nft_is d h body"
  shows "length d = 4096" and "get32 d 0 = Some (of_nat (20 + length body))"
    and "unat (of_nat (20 + length body) :: u32) = 20 + length body" and "NLMSG_ALIGN (20 + length body) = 20 + length body"
proof -
  have b: "length body \<le> 4076" "4 dvd length body" using assms by (simp_all add: nft_is_def)
  show "length d = 4096" using assms by (auto simp: nft_is_def)
  show "get32 d 0 = Some (of_nat (20 + length body))"
    using assms get32_at [of "[]" 0] by (simp add: nft_is_def)
  show "unat (of_nat (20 + length body) :: u32) = 20 + length body"
    using b(1) by (simp add: unat_of_nat take_bit_nat_def del: of_nat_add)
  have "4 dvd 20 + length body" using b(2) by simp
  with b(1) show "NLMSG_ALIGN (20 + length body) = 20 + length body"
    unfolding NLMSG_ALIGN_def by auto
qed

lemma Append_nft:
  assumes d: "nft_is d h body" and room: "length body + RTA_ALIGN (4 + length v) \<le> 4076"
  shows "\<exists>d'. AppendPlainNftAttribute d 4096 t v = Some (IPSEC_OK, 20 + length body, d') \<and> nft_is d' h (body @ attr t v)"
proof -
  let ?n = "20 + length body" and ?s = "RTA_ALIGN (4 + length v)"
  let ?z = "4076 - length body"
  let ?pad = "?s - (4 + length v)"
  have s: "4 + length v \<le> ?s" by (rule RTA_ALIGN_ge)
  have len: "length h = 16" "length body \<le> 4076" using d by (simp_all add: nft_is_def)
  have d_eq: "d = (le32 (of_nat ?n) @ h @ body) @ replicate ?z 0" using d by (simp add: nft_is_def)
  have z: "replicate ?z (0 :: u8) = replicate 4 0 @ replicate (length v) 0 @ replicate ?pad 0 @ replicate (4076 - (length body + ?s)) 0"
    using room s by (simp add: replicate_add [symmetric])
  have w1: "write_at d ?n (le16 (4 + length v) @ le16 t) =
      Some (le32 (of_nat ?n) @ h @ body @ le16 (4 + length v) @ le16 t @ replicate (length v) 0 @ replicate ?pad 0
        @ replicate (4076 - (length body + ?s)) 0)" (is "_ = Some ?d1")
    unfolding d_eq z using len by (subst write_at_append) auto
  have w2: "write_at ?d1 (?n + 4) v = Some (le32 (of_nat ?n) @ h @ body @ attr t v @ replicate (4076 - (length body + ?s)) 0)"
    (is "_ = Some ?d2")
    using write_at_append [of "le32 (of_nat ?n) @ h @ body @ le16 (4 + length v) @ le16 t" "?n + 4" v
        "replicate (length v) 0 @ replicate ?pad 0 @ replicate (4076 - (length body + ?s)) 0"] len
    by (simp add: attr_def)
  have w2': "(if 0 < length v then write_at ?d1 (?n + 4) v else Some ?d1) = Some ?d2"
    using w2 by (cases "v = []") (simp_all add: attr_def)
  have w3: "write_at ?d2 (?n + (4 + length v)) (replicate ?pad 0) = Some ?d2"
    using write_at_append [of "le32 (of_nat ?n) @ h @ body @ le16 (4 + length v) @ le16 t @ v" "?n + (4 + length v)" "replicate ?pad 0"
        "replicate ?pad 0 @ replicate (4076 - (length body + ?s)) 0"] len
    by (simp add: attr_def)
  have w4: "write_at ?d2 0 (le32 w) = Some (le32 w @ h @ body @ attr t v @ replicate (4076 - (length body + ?s)) 0)" for w
    using write_at_append [of "[]" 0 "le32 w" ?d2] by simp
  have "AppendPlainNftAttribute d 4096 t v = Some (IPSEC_OK, ?n,
      le32 (of_nat (?n + ?s)) @ h @ body @ attr t v @ replicate (4076 - (length body + ?s)) 0)"
    using room s nft_length [OF d]
    by (simp only: AppendPlainNftAttribute_def Let_def bind.bind_lunit w1 w2' w3 w4 if_False) (simp add: w3 [simplified] w4 [simplified])
  moreover have "4 dvd length (body @ attr t v)"
    using d RTA_ALIGN_dvd by (simp add: attr_length nft_is_def)
  ultimately show ?thesis
    using room len by (simp add: nft_is_def attr_length add.assoc)
qed

lemma Finish_nft:
  assumes "nft_is d h (p @ le16 x @ le16 t @ q)"
  shows "\<exists>d'. FinishPlainNftNest d (20 + length p) = Some d' \<and> nft_is d' h (p @ nest t q)"
proof -
  let ?body = "p @ le16 x @ le16 t @ q"
  let ?l = "le32 (of_nat (20 + length ?body))" and ?z = "replicate (4076 - length ?body) 0"
  have d: "d = (?l @ h @ p) @ le16 x @ le16 t @ q @ ?z" and h: "length h = 16"
    using assms by (simp_all add: nft_is_def)
  have field: "le16 (20 + length ?body + 2 ^ 64 - (20 + length p)) = le16 (4 + length q)"
  proof (rule le16_cong)
    have "20 + length ?body + 2 ^ 64 - (20 + length p) = 4 + length q + 65536 * 281474976710656" by simp
    then show "(20 + length ?body + 2 ^ 64 - (20 + length p)) mod 65536 = (4 + length q) mod 65536"
      by (simp only: mod_mult_self2)
  qed
  have "write_at d (20 + length p) (le16 n) = Some ((?l @ h @ p) @ le16 n @ le16 t @ q @ ?z)" for n
    unfolding d using h by (subst write_at_append) simp_all
  then have "FinishPlainNftNest d (20 + length p) = Some ((?l @ h @ p) @ le16 (4 + length q) @ le16 t @ q @ ?z)"
    unfolding FinishPlainNftNest_def
    by (simp only: nft_length(2,3) [OF assms] bind.bind_lunit field)
  with assms show ?thesis by (simp add: nft_is_def nest_def)
qed

text \<open>A builder appends bytes to every message that has room for them.\<close>

definition builds :: "nft \<Rightarrow> bytes \<Rightarrow> bool" where
  "builds f q \<longleftrightarrow> (\<forall>d h body. nft_is d h body \<and> length body + length q \<le> 4076 \<longrightarrow> (\<exists>d'. f d = Some (IPSEC_OK, d') \<and> nft_is d' h (body @ q)))"

named_theorems builder \<open>what the builders append\<close>

lemma builds_nothing [builder]: "builds (\<lambda>d. Some (IPSEC_OK, d)) []"
  by (simp add: builds_def)

lemma builds_attribute [builder]: "builds (nft_attribute 4096 t v) (attr t v)"
  unfolding builds_def nft_attribute_def
  using Append_nft [of _ _ _ v t] by (fastforce simp: attr_length append_ok_def)

lemma builds_then [builder]:
  assumes "builds f q" and "builds g r"
  shows "builds (then_ok f g) (q @ r)"
  unfolding builds_def then_ok_def
proof (intro allI impI)
  fix d h body
  assume d: "nft_is d h body \<and> length body + length (q @ r) \<le> 4076"
  then obtain d1 where d1: "f d = Some (IPSEC_OK, d1)" "nft_is d1 h (body @ q)" using assms(1) unfolding builds_def by fastforce
  moreover obtain d2 where "g d1 = Some (IPSEC_OK, d2)" "nft_is d2 h ((body @ q) @ r)"
    using assms(2) d1(2) d unfolding builds_def by fastforce
  ultimately show "\<exists>d'. f d \<bind> (\<lambda>(e, d). if e = IPSEC_OK then g d else Some (e, d)) = Some (IPSEC_OK, d') \<and> nft_is d' h (body @ q @ r)"
    by simp
qed

lemma builds_nest [builder]:
  assumes "builds f q"
  shows "builds (nft_nest 4096 t f) (nest (NFT_NESTED + t) q)"
  unfolding builds_def
proof (intro allI impI)
  fix d h body
  assume d: "nft_is d h body \<and> length body + length (nest (NFT_NESTED + t) q) \<le> 4076"
  let ?hd = "le16 4 @ le16 (NFT_NESTED + t)"
  obtain d1 where d1: "AppendPlainNftAttribute d 4096 (NFT_NESTED + t) [] = Some (IPSEC_OK, 20 + length body, d1)" "nft_is d1 h (body @ ?hd)"
    using Append_nft [of d h body "[]" "NFT_NESTED + t"] d by (auto simp: attr_empty RTA_ALIGN_def)
  then obtain d2 where d2: "f d1 = Some (IPSEC_OK, d2)" "nft_is d2 h (body @ le16 4 @ le16 (NFT_NESTED + t) @ q)"
    using assms d unfolding builds_def by fastforce
  then show "\<exists>d'. nft_nest 4096 t f d = Some (IPSEC_OK, d') \<and> nft_is d' h (body @ nest (NFT_NESTED + t) q)"
    using Finish_nft [OF d2(2)] d1(1) by (auto simp: nft_nest_def append_ok_def)
qed

definition expression_bytes :: "string \<Rightarrow> bytes \<Rightarrow> bytes" where
  "expression_bytes nm q = nest (NFT_NESTED + NFTA_LIST_ELEM) (attr NFTA_EXPR_NAME (lit nm @ [0]) @ nest (NFT_NESTED + NFTA_EXPR_DATA) q)"

lemma builds_expression [builder]:
  assumes "builds f q"
  shows "builds (nft_expression 4096 nm f) (expression_bytes nm q)"
  unfolding builds_def
proof (intro allI impI)
  fix d h body
  let ?nm = "attr NFTA_EXPR_NAME (lit nm @ [0])"
  let ?h1 = "le16 4 @ le16 (NFT_NESTED + NFTA_LIST_ELEM)" and ?h2 = "le16 4 @ le16 (NFT_NESTED + NFTA_EXPR_DATA)"
  assume d: "nft_is d h body \<and> length body + length (expression_bytes nm q) \<le> 4076"
  then have room: "length body + 8 + length ?nm + length q \<le> 4076" by (simp add: expression_bytes_def)
  obtain d1 where d1: "AppendPlainNftAttribute d 4096 (NFT_NESTED + NFTA_LIST_ELEM) [] = Some (IPSEC_OK, 20 + length body, d1)" "nft_is d1 h (body @ ?h1)"
    using Append_nft [of d h body "[]" "NFT_NESTED + NFTA_LIST_ELEM"] d room by (auto simp: attr_empty RTA_ALIGN_def)
  obtain d2 where d2: "AppendPlainNftAttribute d1 4096 NFTA_EXPR_NAME (lit nm @ [0]) = Some (IPSEC_OK, 24 + length body, d2)" "nft_is d2 h (body @ ?h1 @ ?nm)"
    using Append_nft [OF d1(2), of "lit nm @ [0]" NFTA_EXPR_NAME] room by (auto simp: attr_length)
  obtain d3 where d3: "AppendPlainNftAttribute d2 4096 (NFT_NESTED + NFTA_EXPR_DATA) [] = Some (IPSEC_OK, 20 + length (body @ ?h1 @ ?nm), d3)"
    "nft_is d3 h (body @ ?h1 @ ?nm @ ?h2)"
    using Append_nft [OF d2(2), of "[]" "NFT_NESTED + NFTA_EXPR_DATA"] room by (auto simp: attr_empty RTA_ALIGN_def)
  obtain d4 where d4: "f d3 = Some (IPSEC_OK, d4)" "nft_is d4 h ((body @ ?h1 @ ?nm) @ le16 4 @ le16 (NFT_NESTED + NFTA_EXPR_DATA) @ q)"
    using assms d3(2) room unfolding builds_def by fastforce
  obtain d5 where d5: "FinishPlainNftNest d4 (20 + length (body @ ?h1 @ ?nm)) = Some d5"
    "nft_is d5 h (body @ le16 4 @ le16 (NFT_NESTED + NFTA_LIST_ELEM) @ (?nm @ nest (NFT_NESTED + NFTA_EXPR_DATA) q))"
    using Finish_nft [OF d4(2)] by auto
  obtain d6 where d6: "FinishPlainNftNest d5 (20 + length body) = Some d6" "nft_is d6 h (body @ expression_bytes nm q)"
    using Finish_nft [OF d5(2)] by (auto simp: expression_bytes_def)
  have "nft_expression 4096 nm f d = Some (IPSEC_OK, d6)"
    unfolding nft_expression_def BeginPlainNftExpression_def FinishPlainNftExpression_def
    using d1(1) d2(1) d3(1) d4(1) d5(1) d6(1) by simp
  with d6(2) show "\<exists>d'. nft_expression 4096 nm f d = Some (IPSEC_OK, d') \<and> nft_is d' h (body @ expression_bytes nm q)" by blast
qed

section \<open>The rule\<close>

text \<open>
  The expressions of a rule and what the kernel does with them: a register of four bytes is loaded, masked and compared, a
  comparison that fails ends the rule without a verdict, and \<open>queue\<close> hands the packet to the queue.
\<close>

datatype nft_expr = Meta_iif | Payload u32 | Bitwise u32 | Cmp u32 | Queue u16

fun expr_bytes :: "nft_expr \<Rightarrow> bytes" where
  "expr_bytes Meta_iif = expression_bytes ''meta'' (attr NFTA_META_KEY (be32 NFT_META_IIF) @ attr NFTA_META_DREG (be32 NFT_REG_1))"
| "expr_bytes (Payload off) = expression_bytes ''payload'' (attr NFTA_PAYLOAD_BASE (be32 NFT_PAYLOAD_NETWORK_HEADER)
     @ attr NFTA_PAYLOAD_OFFSET (be32 off) @ attr NFTA_PAYLOAD_LEN (be32 4) @ attr NFTA_PAYLOAD_DREG (be32 NFT_REG_1))"
| "expr_bytes (Bitwise m) = expression_bytes ''bitwise'' (attr NFTA_BITWISE_SREG (be32 NFT_REG_1) @ attr NFTA_BITWISE_DREG (be32 NFT_REG_1)
     @ attr NFTA_BITWISE_LEN (be32 4) @ nest (NFT_NESTED + NFTA_BITWISE_MASK) (attr NFTA_DATA_VALUE (le32 m))
     @ nest (NFT_NESTED + NFTA_BITWISE_XOR) (attr NFTA_DATA_VALUE (le32 0)))"
| "expr_bytes (Cmp v) = expression_bytes ''cmp'' (attr NFTA_CMP_SREG (be32 NFT_REG_1) @ attr NFTA_CMP_OP (be32 NFT_CMP_EQ)
     @ nest (NFT_NESTED + NFTA_CMP_DATA) (attr NFTA_DATA_VALUE (le32 v)))"
| "expr_bytes (Queue q) = expression_bytes ''queue'' (attr NFTA_QUEUE_NUM (be16 (unat q)))"

fun nft_run :: "u32 \<Rightarrow> bytes \<Rightarrow> u32 \<Rightarrow> nft_expr list \<Rightarrow> u16 option" where
  "nft_run iif pkt reg [] = None"
| "nft_run iif pkt reg (Meta_iif # es) = nft_run iif pkt iif es"
| "nft_run iif pkt reg (Payload off # es) = (case get32 pkt (unat off) of None \<Rightarrow> None | Some v \<Rightarrow> nft_run iif pkt v es)"
| "nft_run iif pkt reg (Bitwise m # es) = nft_run iif pkt (reg AND m) es"
| "nft_run iif pkt reg (Cmp v # es) = (if reg = v then nft_run iif pkt reg es else None)"
| "nft_run iif pkt reg (Queue q # es) = Some q"

definition address_exprs :: "u32 \<Rightarrow> u32 \<Rightarrow> u32 \<Rightarrow> nft_expr list" where
  "address_exprs off net m = [Payload off] @ (if m = 0xffffffff then [] else [Bitwise m]) @ [Cmp net]"

definition rule_exprs :: "IpsecPlainApplicationState \<Rightarrow> IpsecPlainApplicationPeer \<Rightarrow> nft_expr list" where
  "rule_exprs pState p = [Meta_iif, Cmp (pa_uiExpectedInterfaceIndex pState)]
     @ address_exprs 12 (pn_uiRemoteNetwork p) (pn_uiRemoteMask p) @ address_exprs 16 (pn_uiLocalNetwork p) (pn_uiLocalMask p)
     @ [Queue (pa_usQueueNumber pState)]"

definition rule_body :: "IpsecPlainApplicationState \<Rightarrow> IpsecPlainApplicationPeer \<Rightarrow> bytes" where
  "rule_body pState p = attr NFTA_RULE_TABLE (cstr (pa_acRuleTableName pState) @ [0]) @ attr NFTA_RULE_CHAIN (cstr (pa_acRuleChainName pState) @ [0])
     @ nest (NFT_NESTED + NFTA_RULE_EXPRESSIONS) (concat (map expr_bytes (rule_exprs pState p)))"

definition nft_header :: "nat \<Rightarrow> nat \<Rightarrow> bytes" where
  "nft_header op fl = le16 (NFNL_SUBSYS_NFTABLES * 256 + op) @ le16 fl @ le32 0 @ le32 0 @ [2, 0, 0, 0]"

lemma Initialize_nft: "nft_is (InitializePlainNftMessage op fl 0) (nft_header op fl) []"
  by (simp add: nft_is_def InitializePlainNftMessage_def nft_header_def IPSEC_PLAIN_NFT_MESSAGE_CAPACITY_def)

lemma ntohl_bit:
  "bit (ntohl x) n \<longleftrightarrow> (if n < 8 then bit x (24 + n) else if n < 16 then bit x (8 + n)
     else if n < 24 then bit x (n - 8) else n < 32 \<and> bit x (n - 24))"
  by (auto simp: ntohl_def le32_def de32_bit bit_simps)

lemma ntohl_involution [simp]: "ntohl (ntohl x) = x"
proof -
  have "le32 w = rev (be32 w)" for w by (simp add: le32_def be32_def)
  then have "le32 (de32 a b c d) = [d, c, b, a]" for a b c d by (simp add: be32_de32)
  then show ?thesis by (simp add: ntohl_def le32_def de32_be32)
qed

lemma ntohl_and: "ntohl (x AND y) = ntohl x AND ntohl y"
  by (rule bit_word_eqI) (simp add: ntohl_bit bit_and_iff)

lemma ntohl_inject: "ntohl x = ntohl y \<longleftrightarrow> x = y"
  by (metis ntohl_involution)

lemma ntohl_ones: "ntohl x = 0xffffffff \<longleftrightarrow> x = 0xffffffff"
proof -
  have "ntohl 0xffffffff = 0xffffffff" by (simp add: ntohl_def le32_def de32_def)
  then show ?thesis by (metis ntohl_inject)
qed

lemma builds_rule:
  "builds (then_ok (nft_attribute 4096 NFTA_RULE_TABLE (cstr (pa_acRuleTableName pState) @ [0]))
          (then_ok (nft_attribute 4096 NFTA_RULE_CHAIN (cstr (pa_acRuleChainName pState) @ [0]))
            (nft_nest 4096 NFTA_RULE_EXPRESSIONS
              (then_ok (AppendPlainNftMetaInterface 4096 (pa_uiExpectedInterfaceIndex pState))
                (then_ok (AppendPlainNftAddress 4096 12 (pn_uiRemoteNetwork p) (pn_uiRemoteMask p))
                  (then_ok (AppendPlainNftAddress 4096 16 (pn_uiLocalNetwork p) (pn_uiLocalMask p))
                    (AppendPlainNftQueue 4096 (pa_usQueueNumber pState)))))))) (rule_body pState p)"
proof -
  have cmp: "builds (nft_cmp 4096 v) (expr_bytes (Cmp v))" for v
    unfolding nft_cmp_def AppendPlainNftUint32_def AppendPlainNftData_def expr_bytes.simps by (intro builder)
  have bitwise: "builds (AppendPlainNftBitwise 4096 m) (expr_bytes (Bitwise m))" for m
    unfolding AppendPlainNftBitwise_def AppendPlainNftUint32_def AppendPlainNftData_def expr_bytes.simps by (intro builder)
  have masked: "builds (if ntohl m \<noteq> 0xffffffff then AppendPlainNftBitwise 4096 m else (\<lambda>d. Some (IPSEC_OK, d)))
      (concat (map expr_bytes (if m = 0xffffffff then [] else [Bitwise m])))" for m
    using bitwise [of m] builds_nothing by (simp add: ntohl_ones)
  have address: "builds (AppendPlainNftAddress 4096 off net m) (concat (map expr_bytes (address_exprs off net m)))" for off net m
  proof -
    have "builds (AppendPlainNftAddress 4096 off net m)
       (expr_bytes (Payload off) @ concat (map expr_bytes (if m = 0xffffffff then [] else [Bitwise m])) @ expr_bytes (Cmp net))"
      unfolding AppendPlainNftAddress_def AppendPlainNftUint32_def expr_bytes.simps(2) by (intro builder masked cmp)
    then show ?thesis by (simp add: address_exprs_def)
  qed
  have meta: "builds (AppendPlainNftMetaInterface 4096 i) (expr_bytes Meta_iif @ expr_bytes (Cmp i))" for i
    unfolding AppendPlainNftMetaInterface_def AppendPlainNftUint32_def expr_bytes.simps(1) by (intro builder cmp)
  have queue: "builds (AppendPlainNftQueue 4096 q) (expr_bytes (Queue q))" for q
    unfolding AppendPlainNftQueue_def expr_bytes.simps by (intro builder)
  have split: "concat (map expr_bytes (rule_exprs pState p)) =
      (expr_bytes Meta_iif @ expr_bytes (Cmp (pa_uiExpectedInterfaceIndex pState)))
      @ concat (map expr_bytes (address_exprs 12 (pn_uiRemoteNetwork p) (pn_uiRemoteMask p)))
      @ concat (map expr_bytes (address_exprs 16 (pn_uiLocalNetwork p) (pn_uiLocalMask p))) @ expr_bytes (Queue (pa_usQueueNumber pState))"
    by (simp add: rule_exprs_def)
  show ?thesis unfolding rule_body_def split by (intro builder meta address queue)
qed

text \<open>The names are terminated in their arrays, as the initialisation leaves them.\<close>

definition names_ok :: "IpsecPlainApplicationState \<Rightarrow> bool" where
  "names_ok pState \<longleftrightarrow> length (cstr (pa_acRuleTableName pState)) < IPSEC_PLAIN_NFT_NAME_LENGTH
     \<and> length (cstr (pa_acRuleChainName pState)) < IPSEC_PLAIN_NFT_NAME_LENGTH"

lemma attr_small: "length v \<le> n \<Longrightarrow> length (attr t v) \<le> n + 7"
  by (simp add: attr_length RTA_ALIGN_def)

lemma name_length:
  assumes "names_ok pState"
  shows "length (attr t (cstr (pa_acRuleTableName pState) @ [0])) \<le> 39" "length (attr t (cstr (pa_acRuleChainName pState) @ [0])) \<le> 39"
  using assms attr_small [of "cstr (pa_acRuleTableName pState) @ [0]" 32] attr_small [of "cstr (pa_acRuleChainName pState) @ [0]" 32]
  by (simp_all add: names_ok_def IPSEC_PLAIN_NFT_NAME_LENGTH_def)

lemma expression_length: "length (expression_bytes nm q) = 8 + RTA_ALIGN (5 + length nm) + length q"
  by (simp add: expression_bytes_def attr_length lit_def)

lemma expr_length: "length (expr_bytes e) \<le> 80"
  by (cases e) (simp_all add: expression_length attr_length RTA_ALIGN_def)

lemma rule_body_length:
  assumes "names_ok pState"
  shows "length (rule_body pState p) \<le> 1000"
proof -
  have "length (concat (map expr_bytes es)) \<le> 80 * length es" for es
    by (induction es) (use expr_length in \<open>auto intro: add_mono\<close>)
  from this [of "rule_exprs pState p"] have "length (concat (map expr_bytes (rule_exprs pState p))) \<le> 720"
    by (simp add: rule_exprs_def address_exprs_def split: if_splits)
  then show ?thesis
    using name_length(1) [OF assms, of NFTA_RULE_TABLE] name_length(2) [OF assms, of NFTA_RULE_CHAIN] by (simp add: rule_body_def)
qed

definition rule_message :: "IpsecPlainApplicationState \<Rightarrow> IpsecPlainApplicationPeer \<Rightarrow> bytes" where
  "rule_message pState p = le32 (of_nat (20 + length (rule_body pState p)))
     @ nft_header NFT_MSG_NEWRULE (NLM_F_REQUEST OR NLM_F_ACK OR NLM_F_CREATE OR NLM_F_APPEND) @ rule_body pState p"

lemma nft_message:
  assumes "nft_is d h body"
  shows "rd_bytes d 0 (20 + length body) = Some (le32 (of_nat (20 + length body)) @ h @ body)"
  using assms by (auto simp: nft_is_def rd_bytes_def)

lemma Build_rule:
  assumes "names_ok pState" and "1020 \<le> zCapacity" and "zCapacity \<le> length buf"
  shows "BuildIpsecPlainRuleRequest pState p buf zCapacity =
    Some (IPSEC_OK, rule_message pState p @ drop (length (rule_message pState p)) buf, length (rule_message pState p))"
proof -
  let ?b = "rule_body pState p"
  have room: "length ?b \<le> 1000" by (rule rule_body_length [OF assms(1)])
  obtain d where d: "then_ok (nft_attribute 4096 NFTA_RULE_TABLE (cstr (pa_acRuleTableName pState) @ [0]))
          (then_ok (nft_attribute 4096 NFTA_RULE_CHAIN (cstr (pa_acRuleChainName pState) @ [0]))
            (nft_nest 4096 NFTA_RULE_EXPRESSIONS
              (then_ok (AppendPlainNftMetaInterface 4096 (pa_uiExpectedInterfaceIndex pState))
                (then_ok (AppendPlainNftAddress 4096 12 (pn_uiRemoteNetwork p) (pn_uiRemoteMask p))
                  (then_ok (AppendPlainNftAddress 4096 16 (pn_uiLocalNetwork p) (pn_uiLocalMask p))
                    (AppendPlainNftQueue 4096 (pa_usQueueNumber pState)))))))
          (InitializePlainNftMessage NFT_MSG_NEWRULE (NLM_F_REQUEST OR NLM_F_ACK OR NLM_F_CREATE OR NLM_F_APPEND) 0) = Some (IPSEC_OK, d)"
    "nft_is d (nft_header NFT_MSG_NEWRULE (NLM_F_REQUEST OR NLM_F_ACK OR NLM_F_CREATE OR NLM_F_APPEND)) ?b"
    using builds_rule [of pState p] Initialize_nft room unfolding builds_def by fastforce
  have msg: "rd_bytes d 0 (20 + length ?b) = Some (rule_message pState p)" using nft_message [OF d(2)] by (simp add: rule_message_def)
  have len: "length (rule_message pState p) = 20 + length ?b" by (simp add: rule_message_def nft_header_def)
  have "write_at buf 0 (rule_message pState p) = Some (rule_message pState p @ drop (20 + length ?b) buf)"
    using assms(2,3) room by (simp add: write_at_def len)
  then show ?thesis
    unfolding BuildIpsecPlainRuleRequest_def IPSEC_PLAIN_NFT_MESSAGE_CAPACITY_def Let_def d(1)
    using nft_length [OF d(2)] msg assms(2) room by (simp add: len)
qed

text \<open>The requests for the table and the chain carry their names, and the chain its hook and priority.\<close>

lemma builds_Some:
  assumes "builds f q" and "length q \<le> 4076"
  shows "\<exists>d. f (InitializePlainNftMessage op fl 0) = Some (IPSEC_OK, d) \<and> nft_is d (nft_header op fl) q"
  using assms Initialize_nft [of op fl] unfolding builds_def by fastforce

lemma Build_table:
  assumes "names_ok pState"
  shows "\<exists>d op fl. BuildPlainNftTableRequest pState bRemove = Some (IPSEC_OK, d)
    \<and> op = (if bRemove then NFT_MSG_DELTABLE else NFT_MSG_NEWTABLE)
    \<and> nft_is d (nft_header op fl) (attr NFTA_TABLE_NAME (cstr (pa_acRuleTableName pState) @ [0]))"
proof -
  have "length (attr NFTA_TABLE_NAME (cstr (pa_acRuleTableName pState) @ [0])) \<le> 4076"
    using name_length(1) [OF assms, of NFTA_TABLE_NAME] by simp
  from builds_Some [OF builds_attribute this] show ?thesis
    unfolding BuildPlainNftTableRequest_def IPSEC_PLAIN_NFT_MESSAGE_CAPACITY_def by blast
qed

lemma Build_chain:
  assumes "names_ok pState"
  shows "\<exists>d fl. BuildPlainNftChainRequest bForward pState = Some (IPSEC_OK, d)
    \<and> nft_is d (nft_header NFT_MSG_NEWCHAIN fl) (attr NFTA_CHAIN_TABLE (cstr (pa_acRuleTableName pState) @ [0])
        @ attr NFTA_CHAIN_NAME (cstr (pa_acRuleChainName pState) @ [0]) @ attr NFTA_CHAIN_TYPE (lit ''filter'' @ [0])
        @ nest (NFT_NESTED + NFTA_CHAIN_HOOK) (attr NFTA_HOOK_HOOKNUM (be32 (if bForward then NF_INET_FORWARD else NF_INET_LOCAL_IN))
            @ attr NFTA_HOOK_PRIORITY (be32 0)))" (is "\<exists>d fl. _ \<and> nft_is d _ ?q")
proof -
  let ?f = "then_ok (nft_attribute 4096 NFTA_CHAIN_TABLE (cstr (pa_acRuleTableName pState) @ [0]))
      (then_ok (nft_attribute 4096 NFTA_CHAIN_NAME (cstr (pa_acRuleChainName pState) @ [0]))
        (then_ok (nft_attribute 4096 NFTA_CHAIN_TYPE (lit ''filter'' @ [0]))
          (nft_nest 4096 NFTA_CHAIN_HOOK (then_ok (AppendPlainNftUint32 4096 NFTA_HOOK_HOOKNUM (if bForward then NF_INET_FORWARD else NF_INET_LOCAL_IN))
            (AppendPlainNftUint32 4096 NFTA_HOOK_PRIORITY 0)))))"
  have "builds ?f ?q" unfolding AppendPlainNftUint32_def by (intro builder)
  moreover have "length ?q \<le> 4076"
    using name_length(1) [OF assms, of NFTA_CHAIN_TABLE] name_length(2) [OF assms, of NFTA_CHAIN_NAME]
    by (simp add: attr_length RTA_ALIGN_def lit_def)
  ultimately show ?thesis
    unfolding BuildPlainNftChainRequest_def IPSEC_PLAIN_NFT_MESSAGE_CAPACITY_def Let_def using builds_Some by blast
qed

section \<open>What a rule selects\<close>

text \<open>A selector as its address, in the order of the host, and the length of its prefix.\<close>

definition selector_of :: "bytes \<Rightarrow> (u32 \<times> nat) option" where
  "selector_of t = (case split_at 47 (cstr t) of (a, rest) \<Rightarrow>
     if a = [] \<or> 16 \<le> length a then None
     else selector_prefix rest \<bind> (\<lambda>n. map_option (\<lambda>x. (ntohl x, n)) (inet_pton a)))"

definition in_selector :: "u32 \<Rightarrow> u32 \<times> nat \<Rightarrow> bool" where
  "in_selector x s \<longleftrightarrow> drop_bit (32 - snd s) x = drop_bit (32 - snd s) (fst s)"

lemma high_bits:
  assumes "n \<le> 32"
  shows "(x :: u32) AND (if n = 0 then 0 else push_bit (32 - n) 0xffffffff) = y AND (if n = 0 then 0 else push_bit (32 - n) 0xffffffff)
    \<longleftrightarrow> drop_bit (32 - n) x = drop_bit (32 - n) y"
proof -
  have ones: "(0xffffffff :: u32) = - 1" by simp
  have out: "\<not> bit (w :: u32) m" if "32 \<le> m" for w m using bit_imp_le_length [of w m] that by auto
  have m: "bit (x AND (if n = 0 then 0 else push_bit (32 - n) (- 1))) i \<longleftrightarrow> bit x i \<and> 32 - n \<le> i" for x :: u32 and i
    using assms out [of i x] by (cases "32 \<le> i") (auto simp: bit_simps not_less)
  show ?thesis
  proof
    assume eq: "x AND (if n = 0 then 0 else push_bit (32 - n) 0xffffffff) = y AND (if n = 0 then 0 else push_bit (32 - n) 0xffffffff)"
    show "drop_bit (32 - n) x = drop_bit (32 - n) y"
    proof (rule bit_word_eqI)
      fix i
      show "bit (drop_bit (32 - n) x) i = bit (drop_bit (32 - n) y) i"
        using m [of x "32 - n + i"] m [of y "32 - n + i"] eq [unfolded ones] by (simp add: bit_drop_bit_eq)
    qed
  next
    assume eq: "drop_bit (32 - n) x = drop_bit (32 - n) y"
    have "bit x i = bit y i" if "32 - n \<le> i" for i
      using arg_cong [OF eq, of "\<lambda>w. bit w (i - (32 - n))"] that by (simp add: bit_drop_bit_eq)
    then show "x AND (if n = 0 then 0 else push_bit (32 - n) 0xffffffff) = y AND (if n = 0 then 0 else push_bit (32 - n) 0xffffffff)"
      unfolding ones by (intro bit_word_eqI) (auto simp: m)
  qed
qed

lemma selector_prefix_le: "selector_prefix rest = Some n \<Longrightarrow> n \<le> 32"
  by (auto simp: selector_prefix_def split: option.splits prod.splits if_splits)

lemma Selector_exact:
  assumes "ParsePlainNftSelector t = (IPSEC_OK, net, msk)"
  shows "\<exists>s. selector_of t = Some s \<and> (\<forall>x. x AND msk = net \<longleftrightarrow> in_selector (ntohl x) s)"
proof -
  obtain a rest n ad where p: "split_at 47 (cstr t) = (a, rest)" "a \<noteq> []" "\<not> 16 \<le> length a" "selector_prefix rest = Some n" "inet_pton a = Some ad"
    "msk = ntohl (if n = 0 then 0 else push_bit (32 - n) 0xffffffff)" "net = ad AND msk"
    using assms by (auto simp: ParsePlainNftSelector_def Let_def split: prod.splits option.splits if_splits)
  have "x AND msk = net \<longleftrightarrow> in_selector (ntohl x) (ntohl ad, n)" for x
  proof -
    have "x AND msk = net \<longleftrightarrow> ntohl (x AND msk) = ntohl (ad AND msk)" using p(7) by (simp add: ntohl_inject)
    also have "\<dots> \<longleftrightarrow> in_selector (ntohl x) (ntohl ad, n)"
      unfolding ntohl_and p(6) ntohl_involution using high_bits [OF selector_prefix_le [OF p(4)]] by (simp add: in_selector_def)
    finally show ?thesis .
  qed
  then show ?thesis using p by (intro exI [of _ "(ntohl ad, n)"]) (simp add: selector_of_def)
qed

lemma nft_run_address:
  "nft_run iif pkt reg (address_exprs off net m @ es) =
    (case get32 pkt (unat off) of None \<Rightarrow> None | Some v \<Rightarrow> if v AND m = net then nft_run iif pkt net es else None)"
proof -
  have "(0xffffffff :: u32) = - 1" by simp
  then have "v AND 0xffffffff = v" for v :: u32 by (simp only: and.right_neutral)
  then show ?thesis by (auto simp: address_exprs_def split: option.split)
qed

lemma nft_run_rule:
  "nft_run iif pkt reg (rule_exprs pState p) = Some q \<longleftrightarrow>
     iif = pa_uiExpectedInterfaceIndex pState \<and> q = pa_usQueueNumber pState
     \<and> (\<exists>src dst. get32 pkt 12 = Some src \<and> get32 pkt 16 = Some dst
          \<and> src AND pn_uiRemoteMask p = pn_uiRemoteNetwork p \<and> dst AND pn_uiLocalMask p = pn_uiLocalNetwork p)"
  by (auto simp: rule_exprs_def nft_run_address split: option.splits)

lemma fill_selectors:
  assumes "fill_plain_peer nm l r = Some (IPSEC_OK, p)"
  shows "ParsePlainNftSelector l = (IPSEC_OK, pn_uiLocalNetwork p, pn_uiLocalMask p)
    \<and> ParsePlainNftSelector r = (IPSEC_OK, pn_uiRemoteNetwork p, pn_uiRemoteMask p) \<and> cstr (pn_acConnectionName p) = cstr nm"
proof -
  have "cstr (nm' @ 0 # z) = nm'" if "0 \<notin> set nm'" for nm' z using that by (simp add: cstr_terminated)
  then show ?thesis
    using assms
    by (auto simp: fill_plain_peer_def Let_def bind_eq_Some_conv zero_plain_peer_def write_at_def split: if_splits prod.splits)
qed

lemma Peer_selectors:
  assumes "ParsePlainNftPeer (Some c) = Some (IPSEC_OK, p)"
  shows "\<exists>nm l r. cc_pcName c = Some nm \<and> list_item (cc_LocalTrafficSelectors c) 0 = Some (Some l)
    \<and> list_item (cc_RemoteTrafficSelectors c) 0 = Some (Some r) \<and> fill_plain_peer nm l r = Some (IPSEC_OK, p)"
  using assms by (auto simp: ParsePlainNftPeer_def bind_eq_Some_conv split: option.splits if_splits)

text \<open>
  C15. The rule of a peer selects exactly the peer's plain traffic. Whenever the two traffic selectors of a connection are
  accepted, the message built for it fits the buffer and is the Netlink encoding of a rule that, run by the kernel on a packet,
  hands it to the configured queue exactly when the packet came in on the expected interface, its source is in the remote
  selector and its destination is in the local selector: prefixes of every length from 0 to 32 are compared bit by bit, and no
  other packet gets a verdict.
\<close>

theorem plain_rule_exact:
  assumes "ParsePlainNftPeer (Some c) = Some (IPSEC_OK, p)" and "names_ok pState"
  shows "\<exists>l r ls rs. list_item (cc_LocalTrafficSelectors c) 0 = Some (Some l) \<and> list_item (cc_RemoteTrafficSelectors c) 0 = Some (Some r)
    \<and> selector_of l = Some ls \<and> selector_of r = Some rs
    \<and> BuildIpsecPlainRuleRequest pState p (replicate 4096 0) 4096 =
        Some (IPSEC_OK, rule_message pState p @ drop (length (rule_message pState p)) (replicate 4096 0), length (rule_message pState p))
    \<and> (\<forall>iif pkt reg q. nft_run iif pkt reg (rule_exprs pState p) = Some q \<longleftrightarrow>
         iif = pa_uiExpectedInterfaceIndex pState \<and> q = pa_usQueueNumber pState
         \<and> (\<exists>src dst. get32 pkt 12 = Some src \<and> get32 pkt 16 = Some dst \<and> in_selector (ntohl src) rs \<and> in_selector (ntohl dst) ls))"
proof -
  obtain nm l r where p: "list_item (cc_LocalTrafficSelectors c) 0 = Some (Some l)" "list_item (cc_RemoteTrafficSelectors c) 0 = Some (Some r)"
    "fill_plain_peer nm l r = Some (IPSEC_OK, p)"
    using Peer_selectors [OF assms(1)] by blast
  note sel = fill_selectors [OF p(3)]
  obtain ls where ls: "selector_of l = Some ls" "\<And>x. x AND pn_uiLocalMask p = pn_uiLocalNetwork p \<longleftrightarrow> in_selector (ntohl x) ls"
    using Selector_exact [of l] sel by blast
  obtain rs where rs: "selector_of r = Some rs" "\<And>x. x AND pn_uiRemoteMask p = pn_uiRemoteNetwork p \<longleftrightarrow> in_selector (ntohl x) rs"
    using Selector_exact [of r] sel by blast
  show ?thesis
    using p ls rs Build_rule [OF assms(2), of 4096 "replicate 4096 0" p]
    by (intro exI [of _ l] exI [of _ r] exI [of _ ls] exI [of _ rs]) (simp add: nft_run_rule)
qed

definition plain_config :: IpsecConnectionConfig where
  "plain_config = sample_config\<lparr>cc_LocalTrafficSelectors := sample_list ''10.1.0.0/16'', cc_RemoteTrafficSelectors := sample_list ''10.2.3.4''\<rparr>"

definition plain_state :: IpsecPlainApplicationState where
  "plain_state = \<lparr>pa_uiRuleSequence = 0, pa_uiExpectedInterfaceIndex = 7, pa_usQueueNumber = 3, pa_bRuleTableOwned = True,
     pa_bPeerMutexInitialized = True, pa_aPeers = replicate IPSEC_PLAIN_APPLICATION_PEER_CAPACITY zero_plain_peer, pa_uiPeerCount = 0,
     pa_acRuleTableName = lit ''ipsecctrl_3'' @ replicate 21 0, pa_acRuleChainName = lit ''plain_input'' @ replicate 21 0\<rparr>"

definition plain_peer :: IpsecPlainApplicationPeer where
  "plain_peer = \<lparr>pn_acConnectionName = lit ''gw'' @ 0 # replicate 61 0, pn_uiLocalNetwork = 0x0000010a, pn_uiRemoteNetwork = 0x0403020a,
     pn_uiLocalMask = 0x0000ffff, pn_uiRemoteMask = 0xffffffff, pn_bInUse = False\<rparr>"

lemma plain_peer_parsed: "ParsePlainNftPeer (Some plain_config) = Some (IPSEC_OK, plain_peer)"
  by (simp add: plain_config_def plain_peer_def sample_config_def sample_list_def lit_def ParsePlainNftPeer_def fill_plain_peer_def
      ParsePlainNftSelector_def split_at_def selector_prefix_def list_item_def cstr_def IPSEC_NAME_LENGTH_def write_at_def zero_plain_peer_def
      inet_pton_def octet_def digits_value_def de32_def ntohl_def le32_def strtoull_def number_digits_def number_base_def number_value_def
      sign_length_def c_isspace_def digit_value_def hex_prefix_def Let_def)

lemma plain_selectors:
  "selector_of (lit ''10.1.0.0/16'') = Some (0x0a010000, 16)" "selector_of (lit ''10.2.3.4'') = Some (0x0a020304, 32)"
  by (simp_all add: selector_of_def lit_def split_at_def selector_prefix_def cstr_def
      inet_pton_def octet_def digits_value_def de32_def ntohl_def le32_def strtoull_def number_digits_def number_base_def number_value_def
      sign_length_def c_isspace_def digit_value_def hex_prefix_def Let_def)

text \<open>A packet from 10.2.3.4 to 10.1.9.9 is queued; one from 10.2.3.5 is not.\<close>

theorem plain_rule_exact_witness:
  "nft_run 7 (replicate 12 0 @ [10, 2, 3, 4, 10, 1, 9, 9]) 0 (rule_exprs plain_state plain_peer) = Some 3
   \<and> nft_run 7 (replicate 12 0 @ [10, 2, 3, 5, 10, 1, 9, 9]) 0 (rule_exprs plain_state plain_peer) \<noteq> Some 3"
proof -
  have names: "names_ok plain_state" by (simp add: names_ok_def plain_state_def lit_def cstr_def IPSEC_PLAIN_NFT_NAME_LENGTH_def)
  have sel: "list_item (cc_LocalTrafficSelectors plain_config) 0 = Some (Some (lit ''10.1.0.0/16''))"
    "list_item (cc_RemoteTrafficSelectors plain_config) 0 = Some (Some (lit ''10.2.3.4''))"
    by (simp_all add: plain_config_def sample_list_def list_item_def)
  have run: "nft_run iif pkt reg (rule_exprs plain_state plain_peer) = Some q \<longleftrightarrow>
         iif = pa_uiExpectedInterfaceIndex plain_state \<and> q = pa_usQueueNumber plain_state
         \<and> (\<exists>src dst. get32 pkt 12 = Some src \<and> get32 pkt 16 = Some dst \<and> in_selector (ntohl src) (0x0a020304, 32) \<and> in_selector (ntohl dst) (0x0a010000, 16))"
    for iif pkt reg q
    using plain_rule_exact [OF plain_peer_parsed names] by (auto simp: sel plain_selectors)
  show ?thesis
    unfolding run by (simp add: plain_state_def get32_def rd_bytes_def de32_def ntohl_def le32_def in_selector_def)
qed

end
