(* ===== verification/Spec2Isabelle.thy ===== *)
theory Spec2Isabelle
  imports Vici_Parser Core_Util Packet_Codec Vici_Wait Peer_Registry Vici_Credential Vici_Sa_Wait Vici_Status Psk_File
    App_Command Plain_Rules
begin

text \<open>
  A verification library of \<open>libipsecctrl\<close>, a C library that drives the strongSwan daemon over its VICI socket and the Linux
  packet paths over Netlink, and of parts of the application that uses it. Paths below are relative to \<open>src/\<close>; the sources of the
  library itself are in \<open>src/src/\<close> of the repository.

  \<^bold>\<open>The program.\<close> A client builds a VICI message (\<open>src/ike/vici/vici_packet.c\<close>), sends it as a length-prefixed packet over a
  Unix socket (\<open>vici_transport.c\<close>), and receives events and one response (\<open>vici_client.c\<close>), each a message that a parser walks
  (\<open>vici_parser.c\<close>) with a callback that collects a public structure (\<open>vici_connection.c\<close>, \<open>vici_credential.c\<close>, \<open>vici_sa.c\<close>,
  \<open>vici_stats.c\<close>, \<open>vici_algorithm.c\<close>). One command runs at a time; long waits hold a registration that a cancellation can
  reach (\<open>vici_wait.c\<close>). The protected packet path keeps two traffic control filters per peer in the kernel
  (\<open>src/datapath/protected/\<close>), the plain path an nftables rule per peer (\<open>src/datapath/plain/\<close>). The application adds a
  command line, a packet test and key files.

  \<^bold>\<open>How C is modelled.\<close> A byte is an \<open>8 word\<close>, an object a list of bytes, a structure a \<open>record\<close>, an enumeration a \<open>datatype\<close>.
  Addresses, sequence numbers and identifiers are words of their width; lengths are \<open>nat\<close>, with the wrap-around of
  \<open>uint32_t\<close> written out where the code computes with it. A possibly NULL pointer is an \<open>option\<close>. In pure code the result
  \<open>None\<close> is undefined behaviour, a read or write outside an object; the error codes of the library are values of
  \<open>IpsecError\<close>. Code that calls the system runs against a script of answers (\<open>Os_Run\<close>): \<open>Blocked\<close> is a run whose next answer is
  not in the script, \<open>Fault\<close> is undefined behaviour, \<open>Ret\<close> is a return. Theorems hold for every script; \<open>runs P r\<close> says that \<open>r\<close> is
  not a fault and that \<open>P\<close> holds when it returns. Allocators are functions that may refuse; blocks given back are recorded, so that
  erasure of secrets is a statement about what the allocator receives. The kernel's side of an exchange (which filters it may hold,
  which file contents are on disk) is ghost state beside the code's own flags.

  \<^bold>\<open>Loops and fuel.\<close> Loops over arrays and buffers are recursions with a measure on the remaining bytes. Loops around system calls end
  because each round consumes an answer of the script; \<open>Vici_Progress\<close> shows it for loops around whole commands. The one fuel
  argument is that of \<open>line_loop\<close> in \<open>App_Command\<close>; it starts with the length of the line plus one, and the exact result of
  \<open>ParseNativeAppCommandLine\<close> shows that it is never used up.

  \<^bold>\<open>Theories.\<close>
  \<^item> \<open>Ipsec_Prelude\<close>, \<open>Ipsec_Error\<close>: machine types, memory accesses, byte orders, C strings; the error codes and texts
    (\<open>src/core/error.c\<close>). \<open>Core_Util\<close>: copying, numbers with \<open>strtoull\<close>, durations (\<open>src/core/util.c\<close>), in both directions.
  \<^item> \<open>Byte_Sink\<close> (a locale: what a writer may expect of a buffer), \<open>Vici_Packet\<close>, \<open>Vici_Wire\<close>, \<open>Vici_Frame\<close>: growable buffers,
    writers, packets (\<open>vici_packet.c\<close>); erasure of sensitive buffers, exact decoding, round trips. \<open>Vici_Parser\<close>: the message
    parser is safe on all bytes, sound and complete for the grammar.
  \<^item> \<open>Os_Run\<close>, \<open>Vici_Transport\<close>, \<open>Vici_Client\<close>, \<open>Vici_Command\<close>, \<open>Vici_Wait\<close>, \<open>Vici_Progress\<close>: deadlines, partial transfers, framing,
    the response stream, the command slot as a step relation over threads, cancellation; a sensitive command leaves nothing of
    its secret behind, and an error always has its diagnostic.
  \<^item> \<open>Vici_Collector\<close> (a locale: what a callback promises of one element holds of whole messages), \<open>Vici_Request\<close>, \<open>Vici_Fields\<close>,
    \<open>Vici_Connection\<close>, \<open>Vici_Connection_List\<close>, \<open>Vici_Credential\<close>, \<open>Vici_Sa\<close>, \<open>Vici_Sa_Wait\<close>, \<open>Vici_Status\<close>: the commands. The collectors
    are interpretations of the locale and refine references on names and states; credentials refine a map of owners; a
    wait reports success only after a query that showed the association.
  \<^item> \<open>Inet_Checksum\<close>, \<open>Protected_Packet\<close>, \<open>Packet_Codec\<close>: packet validation (\<open>protected_packet.c\<close>) and the packet test of the
    application (\<open>app/algorithm_packet_codec.c\<close>) against specifications of the packets they accept.
  \<^item> \<open>Netlink_Wire\<close>, \<open>Netlink_Core\<close>, \<open>Bpf_Program\<close>, \<open>Tc_Filter\<close>, \<open>Tc_Request\<close>, \<open>Filter_Netlink\<close>: dumps (\<open>src/core/netlink.c\<close>), the
    filters of a peer as BPF programs with an interpreter, their requests as bytes, installation and removal with the ownership of
    what the kernel may hold. \<open>Ipsec_Config\<close>, \<open>Peer_Registry\<close>: the registry of peers over a locale for its filter driver, which
    refines a finite map and never forgets a filter.
  \<^item> \<open>Plain_Rules\<close>: traffic selectors and the nftables messages of the plain path; a rule selects exactly the traffic of its
    connection.
  \<^item> \<open>Psk_File\<close> (\<open>src/core/psk.c\<close>): a key file appears whole or not at all. \<open>App_Command\<close> (\<open>app/command.c\<close>): the words of a line.

  \<^bold>\<open>Not modelled.\<close> Of the components above: \<open>SleepIpsecMilliseconds\<close>, \<open>SignalViciWaits\<close> and \<open>CancelIpsecWaits\<close> (one system call
  each), the \<open>Free\<close> functions of lists (a list is an Isabelle list), the initialisation of the context and of the TUN device
  (mutexes, \<open>ioctl\<close>, sysctl files), sending the nftables messages and the registry of plain peers with
  \<open>src/core/connection_manager.c\<close>, which composes it with the protected registry. Whole components: start-up and choice of the
  data path (\<open>src/core/ipsec.c\<close>, \<open>src/datapath/common/\<close>, \<open>kernel_libipsec/\<close>), the plain queue (\<open>plain_netfilter.c\<close>), the readers of
  kernel state (\<open>src/datapath/xfrm/\<close>, \<open>src/network/\<close>), logging, and the rest of the application: its command loop, displays,
  reports, test runner, configuration files, peer registration protocol and shutdown. They print, read files and sequence calls of the
  library; nothing above depends on them.
\<close>

end
